(* ===== verification/Prelude.thy ===== *)
theory Prelude
  imports Main "HOL-Library.Sublist" "HOL-Library.Multiset"
begin

text \<open>
  Shared vocabulary of the development: results of fallible code, the error-propagating
  loops that Rust's \<open>?\<close> operator gives inside a \<open>for\<close>, option-valued indexing, and the
  list facts the component theories use. Nothing here models a line of the repository;
  every other theory imports it.
\<close>

section \<open>Proof collections\<close>

named_theorems run_simps \<open>equations that run the error-propagating loops\<close>
named_theorems frame_simps \<open>state fields an operation leaves unchanged\<close>
named_theorems inv_intros \<open>preservation of component invariants\<close>

section \<open>Results\<close>

text \<open>
  A Rust \<open>Result<T, E>\<close> is a sum: \<open>Inl\<close> carries the error, \<open>Inr\<close> the value.
\<close>

type_synonym ('e, 'a) result = "'e + 'a"

abbreviation Err :: "'e \<Rightarrow> ('e, 'a) result" where
  "Err \<equiv> Inl"

abbreviation Ok :: "'a \<Rightarrow> ('e, 'a) result" where
  "Ok \<equiv> Inr"

text \<open>
  Stateful fallible code keeps the state it had reached when it failed: an early return
  does not roll back what was already mutated. Such an operation returns the new state
  together with \<open>Some error\<close>, or \<open>None\<close> for success.
\<close>

type_synonym ('e, 's) outcome = "'e option \<times> 's"

fun for_each :: "('x \<Rightarrow> 's \<Rightarrow> ('e, 's) outcome) \<Rightarrow> 'x list \<Rightarrow> 's \<Rightarrow> ('e, 's) outcome" where
  "for_each f [] s = (None, s)"
| "for_each f (x # xs) s =
     (case f x s of
        (Some e, s') \<Rightarrow> (Some e, s')
      | (None, s') \<Rightarrow> for_each f xs s')"

definition and_then :: "('e, 's) outcome \<Rightarrow> ('s \<Rightarrow> ('e, 's) outcome) \<Rightarrow> ('e, 's) outcome" where
  "and_then r k = (case r of (Some e, s) \<Rightarrow> (Some e, s) | (None, s) \<Rightarrow> k s)"

section \<open>Indexing\<close>

text \<open>Rust's \<open>slice.get(i)\<close>.\<close>

definition get_at :: "'a list \<Rightarrow> nat \<Rightarrow> 'a option" where
  "get_at xs i = (if i < length xs then Some (xs ! i) else None)"

text \<open>Rust's \<open>iter().position(p)\<close>.\<close>

fun position :: "('a \<Rightarrow> bool) \<Rightarrow> 'a list \<Rightarrow> nat option" where
  "position p [] = None"
| "position p (x # xs) = (if p x then Some 0 else map_option Suc (position p xs))"

text \<open>The backwards scan \<open>while i > 0 \<and> p(bytes[i - 1]) { i -= 1 }\<close>.\<close>

primrec back_while :: "('a \<Rightarrow> bool) \<Rightarrow> 'a list \<Rightarrow> nat \<Rightarrow> nat" where
  "back_while p xs 0 = 0"
| "back_while p xs (Suc i) = (if p (xs ! i) then back_while p xs i else Suc i)"

section \<open>Facts about loops\<close>

lemma and_then_simps [simp, run_simps]:
  "and_then (Some e, s) k = (Some e, s)"
  "and_then (None, s) k = k s"
  by (simp_all add: and_then_def)

lemma for_each_append [run_simps]:
  "for_each f (xs @ ys) s = and_then (for_each f xs s) (for_each f ys)"
  by (induction xs arbitrary: s) (auto simp: and_then_def split: option.splits prod.splits)

text \<open>An invariant of the body is an invariant of the loop, whether or not it fails.\<close>

lemma for_each_inv:
  assumes "\<And>x s. x \<in> set xs \<Longrightarrow> P s \<Longrightarrow> P (snd (f x s))" and "P s"
  shows "P (snd (for_each f xs s))"
  using assms
proof (induction xs arbitrary: s)
  case Nil
  then show ?case by simp
next
  case (Cons x xs)
  obtain eo s' where f: "f x s = (eo, s')" by fastforce
  with Cons.prems(1) [of x s] Cons.prems(2) have "P s'" by simp
  with f Cons.IH Cons.prems(1) show ?case
    by (cases eo) auto
qed

text \<open>A reflexive transitive relation between the states before and after, likewise.\<close>

lemma for_each_rel:
  assumes "\<And>x s. x \<in> set xs \<Longrightarrow> R s (snd (f x s))"
    and "\<And>s. R s s" and "\<And>a b c. R a b \<Longrightarrow> R b c \<Longrightarrow> R a c"
  shows "R s (snd (for_each f xs s))"
  using assms(1)
proof (induction xs arbitrary: s)
  case Nil
  then show ?case using assms(2) by simp
next
  case (Cons x xs)
  obtain eo s' where f: "f x s = (eo, s')" by fastforce
  have step: "R s s'" using Cons.prems [of x s] f by simp
  show ?case
  proof (cases eo)
    case (Some e)
    with f step show ?thesis by simp
  next
    case None
    have "R s' (snd (for_each f xs s'))" using Cons by simp
    with f None step assms(3) show ?thesis by auto
  qed
qed

section \<open>Facts about indexing\<close>

lemma get_at_Some: "get_at xs i = Some x \<longleftrightarrow> i < length xs \<and> xs ! i = x"
  by (auto simp: get_at_def)

lemma get_at_None: "get_at xs i = None \<longleftrightarrow> length xs \<le> i"
  by (auto simp: get_at_def)

lemma get_at_append_left: "i < length xs \<Longrightarrow> get_at (xs @ ys) i = get_at xs i"
  by (simp add: get_at_def nth_append)

lemma get_at_Cons_Suc [simp]: "get_at (x # xs) (Suc i) = get_at xs i"
  by (simp add: get_at_def)

lemma back_while_le: "back_while p xs i \<le> i"
  by (induction i) auto

lemma back_while_append: "i \<le> length xs \<Longrightarrow> back_while p (xs @ ys) i = back_while p xs i"
  by (induction i) (auto simp: nth_append)

text \<open>A byte in front that stops the scan only shifts the result.\<close>

lemma back_while_Cons: "\<not> p x \<Longrightarrow> back_while p (x # xs) (Suc i) = Suc (back_while p xs i)"
  by (induction i) auto

lemma back_while_all: "back_while p xs i \<le> j \<Longrightarrow> j < i \<Longrightarrow> p (xs ! j)"
  by (induction i) (auto split: if_splits simp: less_Suc_eq)

lemma back_while_stop: "0 < back_while p xs i \<Longrightarrow> \<not> p (xs ! (back_while p xs i - 1))"
  by (induction i) (auto split: if_splits)

lemma position_Some:
  "position p xs = Some i \<Longrightarrow> i < length xs \<and> p (xs ! i) \<and> (\<forall>j<i. \<not> p (xs ! j))"
proof (induction xs arbitrary: i)
  case Nil
  then show ?case by simp
next
  case (Cons x xs)
  then show ?case
    by (cases i) (auto split: if_splits simp: less_Suc_eq_0_disj)
qed

lemma position_None: "position p xs = None \<longleftrightarrow> (\<forall>x\<in>set xs. \<not> p x)"
  by (induction xs) auto

lemma position_append:
  "position p (xs @ ys) =
     (case position p xs of
        Some i \<Rightarrow> Some i
      | None \<Rightarrow> map_option (\<lambda>i. length xs + i) (position p ys))"
proof (induction xs)
  case Nil
  then show ?case by (cases "position p ys") auto
next
  case (Cons x xs)
  then show ?case by (cases "position p ys") (auto split: option.splits)
qed

text \<open>The scan is unfolded by these facts only.\<close>

declare back_while.simps(2) [simp del]

section \<open>Facts about lists\<close>

text \<open>A skipped prefix is reasoned about as a list, not through its elements.\<close>

declare dropWhile_eq_Nil_conv [simp del]

lemma take_drop_split: "n \<le> length xs \<Longrightarrow> xs = take n xs @ drop n xs"
  by simp

lemma sum_list_lengths: "sum_list (map length xss) = length (concat xss)"
  by (induction xss) auto

end
