(* ===== verification/Rust_Std.thy ===== *)
theory Rust_Std
  imports Prelude
begin

text \<open>
  The part of Rust's standard library that the modelled sources call. A \<open>str\<close>, a
  \<open>String\<close> and a \<open>Vec<u8>\<close> are all lists of bytes; a byte is an Isabelle \<open>char\<close>
  (eight bits), so a literal \<open>''abc''\<close> is the UTF-8 encoding of the Rust literal. Byte
  classes follow \<open>u8::is_ascii_*\<close>, the trimming functions follow the Unicode
  \<open>White_Space\<close> property on UTF-8 encodings, and \<open>from_utf8\<close> follows the well-formed
  byte sequences of the Unicode standard.
\<close>

section \<open>Bytes\<close>

definition byte :: "char \<Rightarrow> nat" where
  "byte c = of_char c"

definition is_ascii_digit :: "char \<Rightarrow> bool" where
  "is_ascii_digit c \<longleftrightarrow> 48 \<le> byte c \<and> byte c \<le> 57"

definition is_ascii_uppercase :: "char \<Rightarrow> bool" where
  "is_ascii_uppercase c \<longleftrightarrow> 65 \<le> byte c \<and> byte c \<le> 90"

definition is_ascii_lowercase :: "char \<Rightarrow> bool" where
  "is_ascii_lowercase c \<longleftrightarrow> 97 \<le> byte c \<and> byte c \<le> 122"

definition is_ascii_alphabetic :: "char \<Rightarrow> bool" where
  "is_ascii_alphabetic c \<longleftrightarrow> is_ascii_uppercase c \<or> is_ascii_lowercase c"

definition is_ascii_alphanumeric :: "char \<Rightarrow> bool" where
  "is_ascii_alphanumeric c \<longleftrightarrow> is_ascii_alphabetic c \<or> is_ascii_digit c"

text \<open>Space, tab, line feed, form feed and carriage return; not vertical tab.\<close>

definition is_ascii_whitespace :: "char \<Rightarrow> bool" where
  "is_ascii_whitespace c \<longleftrightarrow> byte c = 32 \<or> byte c = 9 \<or> byte c = 10 \<or> byte c = 12 \<or> byte c = 13"

definition to_ascii_lower :: "char \<Rightarrow> char" where
  "to_ascii_lower c = (if is_ascii_uppercase c then char_of (byte c + 32) else c)"

definition to_ascii_lowercase :: "string \<Rightarrow> string" where
  "to_ascii_lowercase = map to_ascii_lower"

definition eq_ignore_ascii_case :: "string \<Rightarrow> string \<Rightarrow> bool" where
  "eq_ignore_ascii_case a b \<longleftrightarrow> to_ascii_lowercase a = to_ascii_lowercase b"

section \<open>Substrings\<close>

fun starts_with :: "string \<Rightarrow> string \<Rightarrow> bool" where
  "starts_with s [] = True"
| "starts_with [] (p # ps) = False"
| "starts_with (c # s) (p # ps) = (c = p \<and> starts_with s ps)"

fun contains_str :: "string \<Rightarrow> string \<Rightarrow> bool" where
  "contains_str [] p = (p = [])"
| "contains_str (c # s) p = (starts_with (c # s) p \<or> contains_str s p)"

definition strip_prefix :: "string \<Rightarrow> string \<Rightarrow> string option" where
  "strip_prefix p s = (if starts_with s p then Some (drop (length p) s) else None)"

text \<open>\<open>split_once(c)\<close> on a one-byte separator.\<close>

definition split_once :: "char \<Rightarrow> string \<Rightarrow> (string \<times> string) option" where
  "split_once c s = map_option (\<lambda>i. (take i s, drop (Suc i) s)) (position (\<lambda>b. b = c) s)"

text \<open>\<open>split(c)\<close> on a one-byte separator: always at least one piece.\<close>

fun split_on :: "char \<Rightarrow> string \<Rightarrow> string list" where
  "split_on c [] = [[]]"
| "split_on c (b # s) =
     (if b = c then [] # split_on c s
      else (case split_on c s of [] \<Rightarrow> [[b]] | p # ps \<Rightarrow> (b # p) # ps))"

section \<open>White space\<close>

text \<open>
  \<open>char::is_whitespace\<close> holds for U+0009 to U+000D, U+0020, U+0085, U+00A0, U+1680,
  U+2000 to U+200A, U+2028, U+2029, U+202F, U+205F and U+3000; here by the one, two and
  three byte encodings.
\<close>

definition uws1 :: "char \<Rightarrow> bool" where
  "uws1 a \<longleftrightarrow> byte a = 32 \<or> (9 \<le> byte a \<and> byte a \<le> 13)"

definition uws2 :: "char \<Rightarrow> char \<Rightarrow> bool" where
  "uws2 a b \<longleftrightarrow> byte a = 194 \<and> (byte b = 133 \<or> byte b = 160)"

definition uws3 :: "char \<Rightarrow> char \<Rightarrow> char \<Rightarrow> bool" where
  "uws3 a b c \<longleftrightarrow>
     (byte a = 225 \<and> byte b = 154 \<and> byte c = 128) \<or>
     (byte a = 226 \<and> byte b = 128 \<and>
        ((128 \<le> byte c \<and> byte c \<le> 138) \<or> byte c = 168 \<or> byte c = 169 \<or> byte c = 175)) \<or>
     (byte a = 226 \<and> byte b = 129 \<and> byte c = 159) \<or>
     (byte a = 227 \<and> byte b = 128 \<and> byte c = 128)"

fun ws_head :: "string \<Rightarrow> nat" where
  "ws_head [] = 0"
| "ws_head [a] = (if uws1 a then 1 else 0)"
| "ws_head [a, b] = (if uws1 a then 1 else if uws2 a b then 2 else 0)"
| "ws_head (a # b # c # s) =
     (if uws1 a then 1 else if uws2 a b then 2 else if uws3 a b c then 3 else 0)"

text \<open>The same on a reversed string: the length of a trailing white-space character.\<close>

fun ws_last :: "string \<Rightarrow> nat" where
  "ws_last [] = 0"
| "ws_last [a] = (if uws1 a then 1 else 0)"
| "ws_last [b, a] = (if uws1 b then 1 else if uws2 a b then 2 else 0)"
| "ws_last (c # b # a # s) =
     (if uws1 c then 1 else if uws2 b c then 2 else if uws3 a b c then 3 else 0)"

lemma ws_head_le: "ws_head s \<le> length s"
  by (cases s rule: ws_head.cases) auto

lemma ws_last_le: "ws_last s \<le> length s"
  by (cases s rule: ws_last.cases) auto

function trim_start :: "string \<Rightarrow> string" where
  "trim_start s = (if ws_head s = 0 then s else trim_start (drop (ws_head s) s))"
  by pat_completeness auto
termination
proof (relation "measure length")
  fix s :: string
  assume "ws_head s \<noteq> 0"
  with ws_head_le [of s] show "(drop (ws_head s) s, s) \<in> measure length" by simp
qed simp

function trim_rev :: "string \<Rightarrow> string" where
  "trim_rev s = (if ws_last s = 0 then s else trim_rev (drop (ws_last s) s))"
  by pat_completeness auto
termination
proof (relation "measure length")
  fix s :: string
  assume "ws_last s \<noteq> 0"
  with ws_last_le [of s] show "(drop (ws_last s) s, s) \<in> measure length" by simp
qed simp

declare trim_start.simps [simp del] trim_rev.simps [simp del]

definition trim_end :: "string \<Rightarrow> string" where
  "trim_end s = rev (trim_rev (rev s))"

definition trim :: "string \<Rightarrow> string" where
  "trim s = trim_start (trim_end s)"

section \<open>UTF-8\<close>

definition cont :: "char \<Rightarrow> bool" where
  "cont c \<longleftrightarrow> 128 \<le> byte c \<and> byte c \<le> 191"

definition second3 :: "char \<Rightarrow> char \<Rightarrow> bool" where
  "second3 a b \<longleftrightarrow>
     (if byte a = 224 then 160 \<le> byte b \<and> byte b \<le> 191
      else if byte a = 237 then 128 \<le> byte b \<and> byte b \<le> 159
      else 225 \<le> byte a \<and> byte a \<le> 239 \<and> cont b)"

definition second4 :: "char \<Rightarrow> char \<Rightarrow> bool" where
  "second4 a b \<longleftrightarrow>
     (if byte a = 240 then 144 \<le> byte b \<and> byte b \<le> 191
      else if byte a = 244 then 128 \<le> byte b \<and> byte b \<le> 143
      else 241 \<le> byte a \<and> byte a \<le> 243 \<and> cont b)"

definition seq2 :: "char \<Rightarrow> char \<Rightarrow> bool" where
  "seq2 a b \<longleftrightarrow> 194 \<le> byte a \<and> byte a \<le> 223 \<and> cont b"

definition seq3 :: "char \<Rightarrow> char \<Rightarrow> char \<Rightarrow> bool" where
  "seq3 a b c \<longleftrightarrow> 224 \<le> byte a \<and> byte a \<le> 239 \<and> second3 a b \<and> cont c"

definition seq4 :: "char \<Rightarrow> char \<Rightarrow> char \<Rightarrow> char \<Rightarrow> bool" where
  "seq4 a b c d \<longleftrightarrow> 240 \<le> byte a \<and> byte a \<le> 244 \<and> second4 a b \<and> cont c \<and> cont d"

text \<open>The length of the well-formed sequence at the front, 0 when there is none.\<close>

fun utf8_head :: "string \<Rightarrow> nat" where
  "utf8_head [] = 0"
| "utf8_head [a] = (if byte a < 128 then 1 else 0)"
| "utf8_head [a, b] = (if byte a < 128 then 1 else if seq2 a b then 2 else 0)"
| "utf8_head [a, b, c] =
     (if byte a < 128 then 1 else if seq2 a b then 2 else if seq3 a b c then 3 else 0)"
| "utf8_head (a # b # c # d # s) =
     (if byte a < 128 then 1 else if seq2 a b then 2 else if seq3 a b c then 3
      else if seq4 a b c d then 4 else 0)"

text \<open>How many bytes \<open>from_utf8_lossy\<close> replaces by one U+FFFD at an ill-formed position.\<close>

definition utf8_bad :: "string \<Rightarrow> nat" where
  "utf8_bad s =
     (case s of
        a # b # r2 \<Rightarrow>
          if 224 \<le> byte a \<and> byte a \<le> 239 \<and> second3 a b then 2
          else if 240 \<le> byte a \<and> byte a \<le> 244 \<and> second4 a b then
            (case r2 of c # _ \<Rightarrow> if cont c then 3 else 2 | [] \<Rightarrow> 2)
          else 1
      | _ \<Rightarrow> 1)"

lemma utf8_head_le: "utf8_head s \<le> length s"
  by (cases s rule: utf8_head.cases) auto

lemma utf8_bad_pos: "0 < utf8_bad s"
  by (auto simp: utf8_bad_def split: list.splits)

text \<open>\<open>Utf8Error::valid_up_to\<close>.\<close>

function valid_up_to :: "string \<Rightarrow> nat" where
  "valid_up_to s =
     (if utf8_head s = 0 then 0 else utf8_head s + valid_up_to (drop (utf8_head s) s))"
  by pat_completeness auto
termination
proof (relation "measure length")
  fix s :: string
  assume "utf8_head s \<noteq> 0"
  with utf8_head_le [of s] show "(drop (utf8_head s) s, s) \<in> measure length" by simp
qed simp

definition is_utf8 :: "string \<Rightarrow> bool" where
  "is_utf8 s \<longleftrightarrow> valid_up_to s = length s"

definition replacement :: string where
  "replacement = [CHR 0xEF, CHR 0xBF, CHR 0xBD]"

function from_utf8_lossy :: "string \<Rightarrow> string" where
  "from_utf8_lossy s =
     (if s = [] then []
      else if utf8_head s = 0 then replacement @ from_utf8_lossy (drop (utf8_bad s) s)
      else take (utf8_head s) s @ from_utf8_lossy (drop (utf8_head s) s))"
  by pat_completeness auto
termination
proof (relation "measure length")
  fix s :: string
  assume "s \<noteq> []"
  with utf8_bad_pos [of s] show "(drop (utf8_bad s) s, s) \<in> measure length" by simp
next
  fix s :: string
  assume "s \<noteq> []" and "utf8_head s \<noteq> 0"
  then show "(drop (utf8_head s) s, s) \<in> measure length" by simp
qed simp

declare valid_up_to.simps [simp del] from_utf8_lossy.simps [simp del]

text \<open>
  \<open>str::is_char_boundary\<close>: the ends of the string, and every position whose byte is not a
  continuation byte. Slicing a \<open>str\<close> and \<open>String::truncate\<close> panic elsewhere.
\<close>

definition is_char_boundary :: "string \<Rightarrow> nat \<Rightarrow> bool" where
  "is_char_boundary s i \<longleftrightarrow>
     i = 0 \<or> i = length s \<or> (i < length s \<and> \<not> cont (s ! i))"

text \<open>Control characters (general category Cc: U+0000 to U+001F, U+007F to U+009F).\<close>

fun has_control :: "string \<Rightarrow> bool" where
  "has_control [] = False"
| "has_control [a] = (byte a < 32 \<or> byte a = 127)"
| "has_control (a # b # s) =
     (byte a < 32 \<or> byte a = 127 \<or>
      (byte a = 194 \<and> 128 \<le> byte b \<and> byte b \<le> 159) \<or> has_control (b # s))"

text \<open>An unsigned integer in a format string.\<close>

definition digit_char :: "nat \<Rightarrow> char" where
  "digit_char d = char_of (48 + d)"

fun nat_str :: "nat \<Rightarrow> string" where
  "nat_str n = (if n < 10 then [digit_char n] else nat_str (n div 10) @ [digit_char (n mod 10)])"

declare nat_str.simps [simp del]

section \<open>Facts\<close>

lemma starts_with_iff: "starts_with s p \<longleftrightarrow> (\<exists>t. s = p @ t)"
  by (induction s p rule: starts_with.induct) auto

lemma strip_prefix_Some: "strip_prefix p s = Some r \<longleftrightarrow> s = p @ r"
  by (auto simp: strip_prefix_def starts_with_iff)

lemma ascii_ws_uws1: "is_ascii_whitespace c \<Longrightarrow> uws1 c"
  by (auto simp: is_ascii_whitespace_def uws1_def)

lemma ws_last_Cons_ws: "uws1 c \<Longrightarrow> ws_last (c # s) = 1"
  by (cases "c # s" rule: ws_last.cases) auto

lemma ws_head_Cons_ws: "uws1 c \<Longrightarrow> ws_head (c # s) = 1"
  by (cases "c # s" rule: ws_head.cases) auto

lemma trim_rev_suffix: "\<exists>w. s = w @ trim_rev s"
proof (induction s rule: trim_rev.induct)
  case (1 s)
  show ?case
  proof (cases "ws_last s = 0")
    case True
    then show ?thesis by (simp add: trim_rev.simps [of s])
  next
    case False
    with "1.IH" obtain w where "drop (ws_last s) s = w @ trim_rev (drop (ws_last s) s)"
      by blast
    then have "s = (take (ws_last s) s @ w) @ trim_rev s"
      using False by (simp add: trim_rev.simps [of s])
    then show ?thesis by blast
  qed
qed

lemma trim_start_suffix: "\<exists>w. s = w @ trim_start s"
proof (induction s rule: trim_start.induct)
  case (1 s)
  show ?case
  proof (cases "ws_head s = 0")
    case True
    then show ?thesis by (simp add: trim_start.simps [of s])
  next
    case False
    with "1.IH" obtain w where "drop (ws_head s) s = w @ trim_start (drop (ws_head s) s)"
      by blast
    then have "s = (take (ws_head s) s @ w) @ trim_start s"
      using False by (simp add: trim_start.simps [of s])
    then show ?thesis by blast
  qed
qed

lemma trim_end_prefix: "\<exists>w. s = trim_end s @ w"
proof -
  obtain w where "rev s = w @ trim_rev (rev s)" using trim_rev_suffix by blast
  then have "s = rev (trim_rev (rev s)) @ rev w" by (metis rev_append rev_rev_ident)
  then show ?thesis unfolding trim_end_def by blast
qed

lemma length_trim_end: "length (trim_end s) \<le> length s"
  using trim_end_prefix [of s] by (metis le_add1 length_append)

lemma length_trim: "length (trim s) \<le> length s"
proof -
  have "length (trim_start t) \<le> length t" for t
    using trim_start_suffix [of t] by (metis le_add2 length_append)
  then show ?thesis unfolding trim_def using length_trim_end le_trans by blast
qed

text \<open>Both trimming functions are idempotent.\<close>

lemma trim_rev_idem: "trim_rev (trim_rev s) = trim_rev s"
proof (induction s rule: trim_rev.induct)
  case (1 s)
  then show ?case
    by (cases "ws_last s = 0") (simp_all add: trim_rev.simps [of s])
qed

lemma trim_end_idem [simp]: "trim_end (trim_end s) = trim_end s"
  by (simp add: trim_end_def trim_rev_idem)

lemma trim_start_no_ws: "ws_head (trim_start s) = 0"
proof (induction s rule: trim_start.induct)
  case (1 s)
  then show ?case
    by (cases "ws_head s = 0") (simp_all add: trim_start.simps [of s])
qed

lemma trim_start_idem [simp]: "trim_start (trim_start s) = trim_start s"
  using trim_start_no_ws [of s] by (simp add: trim_start.simps [of "trim_start s"])

lemma trim_end_append_ws: "uws1 c \<Longrightarrow> trim_end (s @ [c]) = trim_end s"
  by (simp add: trim_end_def trim_rev.simps [of "c # rev s"] ws_last_Cons_ws)

lemma trim_end_append_all_ws: "list_all uws1 w \<Longrightarrow> trim_end (s @ w) = trim_end s"
proof (induction w rule: rev_induct)
  case Nil
  then show ?case by simp
next
  case (snoc c w)
  then show ?case
    using trim_end_append_ws [of c "s @ w"] by simp
qed

lemma trim_start_Cons_ws: "uws1 c \<Longrightarrow> trim_start (c # s) = trim_start s"
  by (simp add: trim_start.simps [of "c # s"] ws_head_Cons_ws)

lemma trim_nil_of_trim_end: "trim_end s = [] \<Longrightarrow> trim s = []"
  by (simp add: trim_def trim_start.simps)

lemma trim_end_Nil [simp]: "trim_end [] = []"
  by (simp add: trim_end_def trim_rev.simps)

lemma trim_Nil [simp]: "trim [] = []"
  by (simp add: trim_nil_of_trim_end)

lemma trim_rev_no_ws: "ws_last (trim_rev s) = 0"
proof (induction s rule: trim_rev.induct)
  case (1 s)
  then show ?case
    by (cases "ws_last s = 0") (simp_all add: trim_rev.simps [of s])
qed

lemma ws_last_append: "ws_last y \<noteq> 0 \<Longrightarrow> ws_last (y @ z) \<noteq> 0"
  by (cases y rule: ws_last.cases; cases z; cases "tl z") (auto split: if_splits)

lemma trim_idem [simp]: "trim (trim s) = trim s"
proof -
  let ?x = "trim_end s"
  obtain w where w: "?x = w @ trim_start ?x" using trim_start_suffix by blast
  have "ws_last (rev ?x) = 0" by (simp add: trim_end_def trim_rev_no_ws)
  moreover have "rev ?x = rev (trim_start ?x) @ rev w" by (subst w) simp
  ultimately have "ws_last (rev (trim_start ?x)) = 0" using ws_last_append by metis
  then have "trim_rev (rev (trim_start ?x)) = rev (trim_start ?x)"
    by (subst trim_rev.simps) simp
  then have "trim_end (trim_start ?x) = trim_start ?x"
    unfolding trim_end_def [of "trim_start ?x"] by simp
  then show ?thesis by (simp add: trim_def)
qed

end
