(* ===== verification/Utf8_Facts.thy ===== *)
theory Utf8_Facts
  imports Rust_Std
begin

text \<open>
  Facts about well-formed UTF-8: it is closed under concatenation, under slicing at
  character boundaries and under trimming, and both sides of an ASCII byte are boundaries.
  These are what make the string slices of the interpreter free of panics.
\<close>

section \<open>Sequences\<close>

lemma seq_bytes:
  "seq2 a b \<Longrightarrow> 128 \<le> byte a \<and> \<not> cont a \<and> cont b"
  "seq3 a b c \<Longrightarrow> 128 \<le> byte a \<and> \<not> cont a \<and> cont b \<and> cont c"
  "seq4 a b c d \<Longrightarrow> 128 \<le> byte a \<and> \<not> cont a \<and> cont b \<and> cont c \<and> cont d"
  by (auto simp: seq2_def seq3_def seq4_def second3_def second4_def cont_def split: if_splits)

lemma ascii_not_cont: "byte a < 128 \<Longrightarrow> \<not> cont a"
  by (simp add: cont_def)

lemma ws_seq:
  "uws1 a \<Longrightarrow> byte a < 128 \<and> \<not> cont a"
  "uws2 a b \<Longrightarrow> seq2 a b \<and> \<not> byte a < 128 \<and> \<not> cont a"
  "uws3 a b c \<Longrightarrow> seq3 a b c \<and> \<not> seq2 a b \<and> \<not> byte a < 128 \<and> \<not> cont a"
  by (auto simp: uws1_def uws2_def uws3_def seq2_def seq3_def second3_def cont_def)

lemma utf8_head_first: "utf8_head s \<noteq> 0 \<Longrightarrow> s \<noteq> [] \<and> \<not> cont (s ! 0)"
  by (cases s rule: utf8_head.cases)
    (auto dest: seq_bytes ascii_not_cont split: if_splits)

lemma utf8_head_ascii: "s \<noteq> [] \<Longrightarrow> byte (s ! 0) < 128 \<Longrightarrow> utf8_head s = 1"
  by (cases s rule: utf8_head.cases) auto

lemma utf8_head_inner: "0 < i \<Longrightarrow> i < utf8_head s \<Longrightarrow> cont (s ! i)"
  by (cases s rule: utf8_head.cases)
    (auto dest: seq_bytes split: if_splits simp: less_Suc_eq numeral_eq_Suc)

lemma utf8_head_append: "utf8_head s \<noteq> 0 \<Longrightarrow> utf8_head (s @ t) = utf8_head s"
proof (cases s rule: utf8_head.cases)
  case (2 a)
  moreover assume "utf8_head s \<noteq> 0"
  ultimately show ?thesis using utf8_head_ascii [of "s @ t"] by (auto split: if_splits)
next
  case (3 a b)
  moreover assume "utf8_head s \<noteq> 0"
  ultimately show ?thesis by (cases t; cases "tl t") (auto split: if_splits)
next
  case (4 a b c)
  moreover assume "utf8_head s \<noteq> 0"
  ultimately show ?thesis by (cases t) (auto split: if_splits)
qed auto

lemma utf8_head_take:
  assumes "utf8_head s \<le> n" and "utf8_head s \<noteq> 0"
  shows "utf8_head (take n s) = utf8_head s"
  using assms
  by (cases s rule: utf8_head.cases; cases n; cases "n - 1"; cases "n - 2"; cases "n - 3")
    (auto split: if_splits)

section \<open>Well-formed strings\<close>

lemma valid_up_to_le: "valid_up_to s \<le> length s"
proof (induction s rule: valid_up_to.induct)
  case (1 s)
  then show ?case
    using utf8_head_le [of s] by (cases "utf8_head s = 0") (simp_all add: valid_up_to.simps [of s])
qed

lemma is_utf8_Nil [simp]: "is_utf8 []"
  by (simp add: is_utf8_def valid_up_to.simps)

lemma is_utf8_step:
  "s \<noteq> [] \<Longrightarrow> is_utf8 s \<longleftrightarrow> utf8_head s \<noteq> 0 \<and> is_utf8 (drop (utf8_head s) s)"
  using utf8_head_le [of s]
  by (cases "utf8_head s = 0") (auto simp: is_utf8_def valid_up_to.simps [of s])

lemma is_utf8_induct [consumes 1, case_names Nil Seq]:
  assumes "is_utf8 s" and "P []"
    and "\<And>s. s \<noteq> [] \<Longrightarrow> utf8_head s \<noteq> 0 \<Longrightarrow> is_utf8 (drop (utf8_head s) s) \<Longrightarrow>
      P (drop (utf8_head s) s) \<Longrightarrow> P s"
  shows "P s"
  using assms(1)
proof (induction s rule: valid_up_to.induct)
  case (1 s)
  show ?case
  proof (cases "s = []")
    case True
    with assms(2) show ?thesis by simp
  next
    case False
    with "1.prems" have h: "utf8_head s \<noteq> 0" "is_utf8 (drop (utf8_head s) s)"
      by (auto simp: is_utf8_step)
    with "1.IH" False assms(3) show ?thesis by blast
  qed
qed

lemma is_utf8_append: "is_utf8 s \<Longrightarrow> is_utf8 t \<Longrightarrow> is_utf8 (s @ t)"
proof (induction s rule: is_utf8_induct)
  case Nil
  then show ?case by simp
next
  case (Seq s)
  then show ?case
    using utf8_head_le [of s] by (simp add: is_utf8_step [of "s @ t"] utf8_head_append)
qed

lemma is_utf8_concat: "(\<And>s. s \<in> set ss \<Longrightarrow> is_utf8 s) \<Longrightarrow> is_utf8 (concat ss)"
  by (induction ss) (auto simp: is_utf8_append)

section \<open>Boundaries\<close>

lemma boundary_slices:
  "is_utf8 s \<Longrightarrow> is_char_boundary s i \<Longrightarrow> is_utf8 (take i s) \<and> is_utf8 (drop i s)"
proof (induction s arbitrary: i rule: is_utf8_induct)
  case Nil
  then show ?case by simp
next
  case (Seq s)
  let ?h = "utf8_head s"
  have whole: "is_utf8 s" using Seq.hyps by (simp add: is_utf8_step)
  have le: "?h \<le> length s" by (rule utf8_head_le)
  show ?case
  proof (cases "i < ?h")
    case True
    with Seq.prems le utf8_head_inner [of i s] have "i = 0"
      by (auto simp: is_char_boundary_def)
    with whole show ?thesis by simp
  next
    case False
    with Seq.prems le have "is_char_boundary (drop ?h s) (i - ?h)"
      by (auto simp: is_char_boundary_def)
    then have ih: "is_utf8 (take (i - ?h) (drop ?h s))" "is_utf8 (drop (i - ?h) (drop ?h s))"
      using Seq.IH by blast+
    have "utf8_head (take i s) = ?h" using False Seq.hyps by (simp add: utf8_head_take)
    moreover have "drop ?h (take i s) = take (i - ?h) (drop ?h s)" by (simp add: drop_take)
    moreover have "take i s \<noteq> []" using False Seq.hyps by auto
    ultimately have "is_utf8 (take i s)" using ih Seq.hyps by (simp add: is_utf8_step)
    with ih False show ?thesis by simp
  qed
qed

lemma ascii_boundary: "is_utf8 s \<Longrightarrow> i < length s \<Longrightarrow> byte (s ! i) < 128 \<Longrightarrow> is_char_boundary s i"
  by (auto simp: is_char_boundary_def cont_def)

lemma ascii_boundary_after:
  "is_utf8 s \<Longrightarrow> i < length s \<Longrightarrow> byte (s ! i) < 128 \<Longrightarrow> is_char_boundary s (Suc i)"
proof (induction s arbitrary: i rule: is_utf8_induct)
  case Nil
  then show ?case by simp
next
  case (Seq s)
  let ?h = "utf8_head s"
  have le: "?h \<le> length s" by (rule utf8_head_le)
  show ?case
  proof (cases "i < ?h")
    case True
    then have i: "i = 0" using Seq.prems utf8_head_inner [of i s] by (cases i) (auto simp: cont_def)
    then have h: "?h = 1" using Seq utf8_head_ascii [of s] by simp
    show ?thesis
    proof (cases "length s = 1")
      case True
      with i show ?thesis by (simp add: is_char_boundary_def)
    next
      case False
      with Seq.hyps have "drop 1 s \<noteq> []" by (cases s) auto
      with Seq.hyps h have "utf8_head (drop 1 s) \<noteq> 0" by (simp add: is_utf8_step)
      then have "\<not> cont (drop 1 s ! 0)" using utf8_head_first by blast
      with i False Seq.hyps show ?thesis by (cases s) (auto simp: is_char_boundary_def)
    qed
  next
    case False
    with Seq.prems Seq.IH [of "i - ?h"] le have "is_char_boundary (drop ?h s) (Suc (i - ?h))"
      by simp
    with False le show ?thesis by (auto simp: is_char_boundary_def)
  qed
qed

section \<open>Trimming\<close>

lemma ws_head_utf8: "ws_head s \<noteq> 0 \<Longrightarrow> utf8_head s = ws_head s"
  by (cases s rule: utf8_head.cases) (auto dest: ws_seq split: if_splits)

lemma is_utf8_trim_start: "is_utf8 s \<Longrightarrow> is_utf8 (trim_start s)"
proof (induction s rule: trim_start.induct)
  case (1 s)
  show ?case
  proof (cases "ws_head s = 0")
    case True
    with "1.prems" show ?thesis by (simp add: trim_start.simps [of s])
  next
    case False
    then have "s \<noteq> []" by auto
    with False "1.prems" have "is_utf8 (drop (ws_head s) s)"
      using ws_head_utf8 [of s] by (simp add: is_utf8_step)
    with False "1.IH" show ?thesis by (simp add: trim_start.simps [of s])
  qed
qed

lemma ws_last_boundary:
  assumes "ws_last (rev s) \<noteq> 0"
  shows "is_char_boundary s (length s - ws_last (rev s))"
proof -
  let ?k = "ws_last (rev s)"
  have le: "?k \<le> length s" using ws_last_le [of "rev s"] by simp
  have "\<not> cont (rev s ! (?k - 1))"
    using assms
    by (cases "rev s" rule: ws_last.cases)
      (auto dest: ws_seq simp: numeral_eq_Suc split: if_splits)
  moreover have "rev s ! (?k - 1) = s ! (length s - ?k)"
    using assms le by (simp add: rev_nth)
  ultimately show ?thesis using assms le unfolding is_char_boundary_def by auto
qed

lemma is_utf8_trim_rev: "is_utf8 (rev r) \<Longrightarrow> is_utf8 (rev (trim_rev r))"
proof (induction r rule: trim_rev.induct)
  case (1 r)
  show ?case
  proof (cases "ws_last r = 0")
    case True
    with "1.prems" show ?thesis by (simp add: trim_rev.simps [of r])
  next
    case False
    then have "is_char_boundary (rev r) (length r - ws_last r)"
      using ws_last_boundary [of "rev r"] by simp
    with "1.prems" have "is_utf8 (take (length r - ws_last r) (rev r))"
      using boundary_slices by blast
    then have "is_utf8 (rev (drop (ws_last r) r))" by (simp add: rev_drop)
    with False "1.IH" show ?thesis by (simp add: trim_rev.simps [of r])
  qed
qed

lemma is_utf8_trim_end: "is_utf8 s \<Longrightarrow> is_utf8 (trim_end s)"
  by (simp add: trim_end_def is_utf8_trim_rev)

lemma is_utf8_trim: "is_utf8 s \<Longrightarrow> is_utf8 (trim s)"
  by (simp add: trim_def is_utf8_trim_end is_utf8_trim_start)

section \<open>Lossy decoding\<close>

lemma is_utf8_replacement: "is_utf8 replacement"
  by (simp add: replacement_def is_utf8_def valid_up_to.simps byte_def seq2_def seq3_def
      second3_def cont_def)

lemma is_utf8_lossy: "is_utf8 (from_utf8_lossy s)"
proof (induction s rule: from_utf8_lossy.induct)
  case (1 s)
  show ?case
  proof (cases "s = [] \<or> utf8_head s = 0")
    case True
    with 1 show ?thesis
      by (auto simp: from_utf8_lossy.simps [of s] is_utf8_append is_utf8_replacement)
  next
    case False
    let ?h = "utf8_head s"
    have "is_utf8 (take ?h s)"
      using False utf8_head_le [of s] by (simp add: is_utf8_step utf8_head_take)
    with False 1 show ?thesis by (simp add: from_utf8_lossy.simps [of s] is_utf8_append)
  qed
qed

lemma from_utf8_lossy_valid: "is_utf8 s \<Longrightarrow> from_utf8_lossy s = s"
proof (induction s rule: is_utf8_induct)
  case Nil
  then show ?case by (simp add: from_utf8_lossy.simps)
next
  case (Seq s)
  then show ?case by (simp add: from_utf8_lossy.simps [of s])
qed

lemma is_utf8_valid_prefix: "is_utf8 (take (valid_up_to s) s)"
proof (induction s rule: valid_up_to.induct)
  case (1 s)
  show ?case
  proof (cases "utf8_head s = 0")
    case True
    then show ?thesis by (simp add: valid_up_to.simps [of s])
  next
    case False
    let ?h = "utf8_head s"
    have "is_utf8 (take ?h s)"
      using False utf8_head_le [of s] utf8_head_first [of s] by (simp add: is_utf8_step utf8_head_take)
    with False 1 show ?thesis
      by (simp add: valid_up_to.simps [of s] take_add is_utf8_append)
  qed
qed

end
