(* ===== verification/Chunked.thy ===== *)
theory Chunked
  imports Prelude
begin

text \<open>
  The contract between the Interpreter and its incremental assemblers: raw bytes arrive in
  chunks whose boundaries carry no meaning. An assembler is a push operation that takes a
  state and a chunk and returns the outputs it completed with the next state, or fails.
  The laws say that a longer chunk is the same as two shorter ones; the client's theorem is
  that any two ways to cut a stream give the same outputs. Outputs and states are compared
  through two views, because some assemblers keep incidental differences.
\<close>

type_synonym ('s, 'b, 'o) pusher = "'s \<Rightarrow> 'b list \<Rightarrow> ('o list \<times> 's) option"

definition then_push :: "('o list \<times> 's) option \<Rightarrow> ('s \<Rightarrow> ('o list \<times> 's) option) \<Rightarrow> ('o list \<times> 's) option" where
  "then_push r k =
     (case r of
        None \<Rightarrow> None
      | Some (os, s) \<Rightarrow> map_option (\<lambda>(os', s'). (os @ os', s')) (k s))"

fun feed :: "('s, 'b, 'o) pusher \<Rightarrow> 's \<Rightarrow> 'b list list \<Rightarrow> ('o list \<times> 's) option" where
  "feed push s [] = Some ([], s)"
| "feed push s (c # cs) = then_push (push s c) (\<lambda>s'. feed push s' cs)"

definition viewed :: "('o \<Rightarrow> 'v) \<Rightarrow> ('s \<Rightarrow> 'w) \<Rightarrow> ('o list \<times> 's) option \<Rightarrow> ('v list \<times> 'w) option" where
  "viewed ov sv = map_option (\<lambda>(os, s). (map ov os, sv s))"

lemma then_push_simps [simp]:
  "then_push None k = None"
  "then_push (Some (os, s)) k = map_option (\<lambda>(os', s'). (os @ os', s')) (k s)"
  by (simp_all add: then_push_def)

lemma viewed_simps [simp]:
  "viewed ov sv None = None"
  "viewed ov sv (Some (os, s)) = Some (map ov os, sv s)"
  by (simp_all add: viewed_def)

lemma viewed_id: "viewed id id r = r"
  by (cases r) (auto simp: viewed_def)

lemma viewed_then_push_cong:
  assumes "\<And>os s. r = Some (os, s) \<Longrightarrow> viewed ov sv (k s) = viewed ov sv (k' s)"
  shows "viewed ov sv (then_push r k) = viewed ov sv (then_push r k')"
proof (cases r)
  case None
  then show ?thesis by simp
next
  case (Some p)
  then obtain os s where r: "r = Some (os, s)" by (cases p) auto
  from assms [OF r] have "viewed ov sv (k s) = viewed ov sv (k' s)" .
  then show ?thesis
    using r by (cases "k s"; cases "k' s") (auto simp: viewed_def)
qed

locale chunked =
  fixes push :: "('s, 'b, 'o) pusher"
    and ov :: "'o \<Rightarrow> 'v"
    and sv :: "'s \<Rightarrow> 'w"
    and idle :: "'s \<Rightarrow> bool"
  assumes push_nil: "idle s \<Longrightarrow> push s [] = Some ([], s)"
    and push_idle: "idle s \<Longrightarrow> push s a = Some (os, s') \<Longrightarrow> idle s'"
    and push_append:
      "idle s \<Longrightarrow>
        viewed ov sv (push s (a @ b)) = viewed ov sv (then_push (push s a) (\<lambda>s'. push s' b))"
begin

lemma feed_concat: "idle s \<Longrightarrow> viewed ov sv (feed push s cs) = viewed ov sv (push s (concat cs))"
proof (induction cs arbitrary: s)
  case Nil
  then show ?case by (simp add: push_nil)
next
  case (Cons c cs)
  have "viewed ov sv (then_push (push s c) (\<lambda>s'. feed push s' cs)) =
      viewed ov sv (then_push (push s c) (\<lambda>s'. push s' (concat cs)))"
    using Cons push_idle by (intro viewed_then_push_cong) blast
  also have "\<dots> = viewed ov sv (push s (c @ concat cs))"
    using Cons.prems push_append by simp
  finally show ?case by simp
qed

lemma chunking_irrelevant:
  "idle s \<Longrightarrow> concat cs = concat ds \<Longrightarrow>
    viewed ov sv (feed push s cs) = viewed ov sv (feed push s ds)"
  by (simp add: feed_concat)

end

end
