(* ===== verification/Sentence.thy ===== *)
theory Sentence
  imports Utf8_Facts Chunked
begin

text \<open>
  The sentence segmenter of \<open>crates/monoloop-interpreter/src/sentence.rs\<close>: an assembly
  buffer of UTF-8 text from which complete sentences are drained. The scanner walks over
  bytes and keeps a code-span flag and three bracket counters; the counters are \<open>i32\<close> in
  the source and \<open>int\<close> here, and their bound is a theorem below.
\<close>

section \<open>Scanning for a sentence end\<close>

abbreviation LF :: char where
  "LF \<equiv> CHR 0x0A"

text \<open>\<open>1.\<close> or \<open>12.\<close> at the start of a line or after white space.\<close>

definition looks_like_ordered_list_marker :: "string \<Rightarrow> nat \<Rightarrow> bool" where
  "looks_like_ordered_list_marker s dot_idx =
     (let start = back_while is_ascii_digit s dot_idx
      in if start = dot_idx then False
         else if \<not> (1 \<le> dot_idx - start \<and> dot_idx - start \<le> 3) then False
         else if start > 0 \<and> \<not> is_ascii_whitespace (s ! (start - 1)) then False
         else (case get_at s (dot_idx + 1) of
                 None \<Rightarrow> True
               | Some b \<Rightarrow>
                   is_ascii_whitespace b \<or> b = CHR ''*'' \<or> b = CHR ''_'' \<or> b = CHR 0x60
                   \<or> b = CHR ''[''))"

definition is_only_list_marker :: "string \<Rightarrow> bool" where
  "is_only_list_marker s =
     (let t = trim s
      in if t = [] \<or> last t \<noteq> CHR ''.'' then False
         else looks_like_ordered_list_marker t (length t - 1))"

definition prev_is_sentence_letter :: "string \<Rightarrow> nat \<Rightarrow> bool" where
  "prev_is_sentence_letter bytes dot_idx =
     (if dot_idx = 0 then False
      else is_ascii_lowercase (bytes ! (dot_idx - 1)) \<or> is_ascii_uppercase (bytes ! (dot_idx - 1)))"

definition ABBREVS :: "string list" where
  "ABBREVS = [''Mr'', ''Mrs'', ''Ms'', ''Dr'', ''Prof'', ''Sr'', ''Jr'', ''vs'', ''etc'',
     ''Inc'', ''Ltd'', ''St'']"

text \<open>\<open>bytes.get(dot_idx.wrapping_sub(1))\<close> is out of range for \<open>dot_idx = 0\<close>.\<close>

definition prev_byte :: "string \<Rightarrow> nat \<Rightarrow> char option" where
  "prev_byte s dot_idx = (if dot_idx = 0 then None else get_at s (dot_idx - 1))"

definition looks_like_abbreviation_or_decimal :: "string \<Rightarrow> nat \<Rightarrow> bool" where
  "looks_like_abbreviation_or_decimal s dot_idx =
     (let prev = prev_byte s dot_idx;
          nxt = get_at s (dot_idx + 1);
          start = back_while is_ascii_alphabetic s dot_idx;
          len = dot_idx - start;
          word = drop start (take dot_idx s);
          t = back_while (\<lambda>b. \<not> is_ascii_whitespace b) s dot_idx;
          token = drop t (take (min (dot_idx + 1) (length s)) s)
      in (case prev of Some p \<Rightarrow> is_ascii_digit p | None \<Rightarrow> False) \<and>
           (case nxt of Some n \<Rightarrow> is_ascii_digit n | None \<Rightarrow> False)
         \<or> (case prev of Some p \<Rightarrow> is_ascii_alphabetic p | None \<Rightarrow> False) \<and>
           1 \<le> len \<and> len \<le> 3 \<and>
           (len = 1 \<or> list_ex (\<lambda>a. eq_ignore_ascii_case a word) ABBREVS)
         \<or> contains_str token ''://'' \<or> contains_str token ''www.''
         \<or> contains_str token ''/'')"

record scan =
  in_code_span :: bool
  paren :: int
  bracket :: int
  brace :: int

definition scan_init :: scan where
  "scan_init = \<lparr>in_code_span = False, paren = 0, bracket = 0, brace = 0\<rparr>"

text \<open>The arm for a full stop, exclamation or question mark.\<close>

definition terminator_end :: "string \<Rightarrow> nat \<Rightarrow> scan \<Rightarrow> nat option" where
  "terminator_end s i st =
     (let c = s ! i
      in if paren st > 0 \<or> bracket st > 0 \<or> brace st > 0 then None
         else if c = CHR ''.'' \<and> looks_like_ordered_list_marker s i then None
         else if c = CHR ''.'' \<and> looks_like_abbreviation_or_decimal s i then None
         else (case get_at s (i + 1) of
                 None \<Rightarrow> None
               | Some b \<Rightarrow>
                   if is_ascii_whitespace b then Some (i + 1)
                   else if b = CHR 0x22 \<or> b = CHR 0x27 \<or> b = CHR '')'' \<or> b = CHR '']''
                     then Some (i + 1)
                   else if c = CHR ''.'' \<and> is_ascii_uppercase b \<and> prev_is_sentence_letter s i
                     then Some (i + 1)
                   else None))"

text \<open>The arm for a line feed: a blank line closes a paragraph-like unit.\<close>

definition paragraph_end :: "string \<Rightarrow> nat \<Rightarrow> nat option" where
  "paragraph_end s i =
     (let before_lf = trim (take i s)
      in if before_lf \<noteq> [] \<and> \<not> is_only_list_marker before_lf then Some i else None)"

text \<open>
  One turn of the scanning loop at byte \<open>i\<close>: the value it returns, if it does, and the
  scanner state for the next byte.
\<close>

definition scan_byte :: "string \<Rightarrow> nat \<Rightarrow> scan \<Rightarrow> nat option \<times> scan" where
  "scan_byte s i st =
     (let c = s ! i
      in if c = CHR 0x60 then (None, st\<lparr>in_code_span := \<not> in_code_span st\<rparr>)
         else if in_code_span st then (None, st)
         else if c = CHR ''('' then (None, st\<lparr>paren := paren st + 1\<rparr>)
         else if c = CHR '')'' then (None, st\<lparr>paren := max (paren st - 1) 0\<rparr>)
         else if c = CHR ''['' then (None, st\<lparr>bracket := bracket st + 1\<rparr>)
         else if c = CHR '']'' then (None, st\<lparr>bracket := max (bracket st - 1) 0\<rparr>)
         else if c = CHR ''{'' then (None, st\<lparr>brace := brace st + 1\<rparr>)
         else if c = CHR ''}'' then (None, st\<lparr>brace := max (brace st - 1) 0\<rparr>)
         else if c = CHR ''.'' \<or> c = CHR ''!'' \<or> c = CHR ''?'' then (terminator_end s i st, st)
         else if c = LF \<and> i + 1 < length s \<and> s ! (i + 1) = LF then (paragraph_end s i, st)
         else (None, st))"

function scan_from :: "string \<Rightarrow> nat \<Rightarrow> scan \<Rightarrow> nat option" where
  "scan_from s i st =
     (if i < length s then
        (case scan_byte s i st of
           (Some e, _) \<Rightarrow> Some e
         | (None, st') \<Rightarrow> scan_from s (Suc i) st')
      else None)"
  by pat_completeness auto
termination
  by (relation "measure (\<lambda>(s, i, st). length s - i)") auto

declare scan_from.simps [simp del]

definition find_sentence_end :: "string \<Rightarrow> nat option" where
  "find_sentence_end s = scan_from s 0 scan_init"

section \<open>Ends are proper\<close>

lemma terminator_end_Some: "terminator_end s i st = Some e \<Longrightarrow> e = Suc i \<and> Suc i < length s"
  by (auto simp: terminator_end_def Let_def get_at_Some split: if_splits option.splits)

lemma paragraph_end_Some: "paragraph_end s i = Some e \<Longrightarrow> e = i \<and> trim (take i s) \<noteq> []"
  by (auto simp: paragraph_end_def Let_def split: if_splits)

lemma scan_byte_Some:
  assumes "scan_byte s i st = (Some e, st')"
  shows "(e = Suc i \<and> Suc i < length s \<and> (s ! i = CHR ''.'' \<or> s ! i = CHR ''!'' \<or> s ! i = CHR ''?''))
    \<or> (e = i \<and> Suc i < length s \<and> s ! i = LF \<and> trim (take i s) \<noteq> [])"
  using assms
  by (auto simp: scan_byte_def Let_def dest!: terminator_end_Some paragraph_end_Some
      split: if_splits)

text \<open>
  What the scanner reports as an end: just after a terminator, or at a line feed with text
  before it; in both cases another byte follows.
\<close>

definition is_end :: "string \<Rightarrow> nat \<Rightarrow> bool" where
  "is_end s e \<longleftrightarrow>
     (0 < e \<and> e < length s \<and>
       (s ! (e - 1) = CHR ''.'' \<or> s ! (e - 1) = CHR ''!'' \<or> s ! (e - 1) = CHR ''?'')) \<or>
     (Suc e < length s \<and> s ! e = LF \<and> trim (take e s) \<noteq> [])"

lemma scan_from_Some: "scan_from s i st = Some e \<Longrightarrow> is_end s e"
proof (induction s i st rule: scan_from.induct)
  case (1 s i st)
  show ?case
  proof (cases "i < length s")
    case False
    with "1.prems" show ?thesis by (simp add: scan_from.simps [of s i])
  next
    case True
    obtain r st' where sb: "scan_byte s i st = (r, st')" by fastforce
    show ?thesis
    proof (cases r)
      case None
      with True sb "1.prems" have "scan_from s (Suc i) st' = Some e"
        by (simp add: scan_from.simps [of s i])
      with "1.IH" [OF True sb [symmetric, unfolded None]] show ?thesis by simp
    next
      case (Some e')
      with True sb "1.prems" have "e' = e" by (simp add: scan_from.simps [of s i])
      with sb Some scan_byte_Some [of s i st e st'] show ?thesis
        by (auto simp: is_end_def)
    qed
  qed
qed

lemma is_end_bounds: "is_end s e \<Longrightarrow> 0 < e \<and> e < length s"
  by (cases e) (auto simp: is_end_def)

lemma find_sentence_end_bounds: "find_sentence_end s = Some e \<Longrightarrow> 0 < e \<and> e < length s"
  using scan_from_Some is_end_bounds unfolding find_sentence_end_def by blast

section \<open>The segmenter\<close>

record completed_sentence =
  content :: string
  content_bytes :: nat
  bytes_consumed :: nat

record sentence_segmenter =
  buf :: string

definition segmenter_new :: sentence_segmenter where
  "segmenter_new = \<lparr>buf = []\<rparr>"

definition buffered_bytes :: "sentence_segmenter \<Rightarrow> nat" where
  "buffered_bytes seg = length (buf seg)"

text \<open>Bytes taken for a sentence ending at \<open>e\<close>: the sentence and the white space after it.\<close>

definition consume_to :: "string \<Rightarrow> nat \<Rightarrow> nat" where
  "consume_to b e = e + length (takeWhile is_ascii_whitespace (drop e b))"

definition cut_sentence :: "string \<Rightarrow> nat \<Rightarrow> completed_sentence list" where
  "cut_sentence b e =
     (let c = trim_end (take e b)
      in if c \<noteq> [] then [\<lparr>content = c, content_bytes = length c, bytes_consumed = consume_to b e\<rparr>]
         else [])"

function drain_loop :: "string \<Rightarrow> completed_sentence list \<times> string" where
  "drain_loop b =
     (case find_sentence_end b of
        None \<Rightarrow> ([], b)
      | Some e \<Rightarrow>
          (let (out, b') = drain_loop (drop (consume_to b e) b)
           in (cut_sentence b e @ out, b')))"
  by pat_completeness auto
termination
proof (relation "measure length")
  fix b :: string and e :: nat
  assume "find_sentence_end b = Some e"
  then have "0 < e" "e < length b" using find_sentence_end_bounds by auto
  then show "(drop (consume_to b e) b, b) \<in> measure length" by (simp add: consume_to_def)
qed simp

declare drain_loop.simps [simp del]

definition seal_rest :: "string \<Rightarrow> completed_sentence list \<times> string" where
  "seal_rest b =
     (if trim b \<noteq> [] then
        ([\<lparr>content = trim b, content_bytes = length (trim b), bytes_consumed = length b\<rparr>], [])
      else ([], b))"

definition drain_complete ::
  "bool \<Rightarrow> sentence_segmenter \<Rightarrow> completed_sentence list \<times> sentence_segmenter" where
  "drain_complete seal_remainder seg =
     (let (out, b) = drain_loop (buf seg);
          (last_out, b') = (if seal_remainder then seal_rest b else ([], b))
      in (out @ last_out, seg\<lparr>buf := b'\<rparr>))"

definition push :: "string \<Rightarrow> sentence_segmenter \<Rightarrow> completed_sentence list \<times> sentence_segmenter" where
  "push text seg = drain_complete False (seg\<lparr>buf := buf seg @ text\<rparr>)"

definition seal_at_clean_end :: "sentence_segmenter \<Rightarrow> completed_sentence list \<times> sentence_segmenter" where
  "seal_at_clean_end seg = drain_complete True seg"

definition take_unresolved :: "sentence_segmenter \<Rightarrow> string \<times> sentence_segmenter" where
  "take_unresolved seg = (buf seg, seg\<lparr>buf := []\<rparr>)"

section \<open>Leading white space does not move boundaries\<close>

lemma ascii_ws_classes [simp]:
  assumes "is_ascii_whitespace c"
  shows "\<not> is_ascii_digit c" "\<not> is_ascii_alphabetic c" "\<not> is_ascii_lowercase c"
    "\<not> is_ascii_uppercase c" "uws1 c"
  using assms
  by (auto simp: is_ascii_whitespace_def is_ascii_digit_def is_ascii_alphabetic_def
      is_ascii_lowercase_def is_ascii_uppercase_def uws1_def)

lemma ws_last_snoc: "uws1 c \<Longrightarrow> y \<noteq> [] \<Longrightarrow> ws_last (y @ [c]) = ws_last y"
  by (cases y rule: ws_last.cases) (auto simp: uws1_def uws2_def uws3_def)

lemma trim_rev_snoc:
  assumes "uws1 c"
  shows "trim_rev (y @ [c]) = (if trim_rev y = [] then [] else trim_rev y @ [c])"
proof (induction y rule: trim_rev.induct)
  case (1 y)
  show ?case
  proof (cases "y = []")
    case True
    with assms show ?thesis
      by (simp add: trim_rev.simps [of "[c]"] trim_rev.simps [of "[]"])
  next
    case False
    show ?thesis
    proof (cases "ws_last y = 0")
      case True
      with False assms show ?thesis
        by (simp add: ws_last_snoc trim_rev.simps [of y] trim_rev.simps [of "y @ [c]"])
    next
      case nz: False
      have "drop (ws_last y) (y @ [c]) = drop (ws_last y) y @ [c]"
        using ws_last_le [of y] by simp
      with nz False assms "1.IH" show ?thesis
        by (simp add: ws_last_snoc trim_rev.simps [of y] trim_rev.simps [of "y @ [c]"])
    qed
  qed
qed

lemma trim_end_Cons_ws:
  "uws1 c \<Longrightarrow> trim_end (c # s) = (if trim_end s = [] then [] else c # trim_end s)"
  by (simp add: trim_end_def trim_rev_snoc)

lemma trim_Cons_ws: "uws1 c \<Longrightarrow> trim (c # s) = trim s"
  by (simp add: trim_def trim_end_Cons_ws trim_start_Cons_ws)

lemma list_marker_Cons_ws:
  assumes "is_ascii_whitespace c"
  shows "looks_like_ordered_list_marker (c # s) (Suc d) = looks_like_ordered_list_marker s d"
proof -
  have "(Suc n > 0 \<and> \<not> is_ascii_whitespace ((c # s) ! (Suc n - 1))) =
      (n > 0 \<and> \<not> is_ascii_whitespace (s ! (n - 1)))" for n
    using assms by (cases n) auto
  with assms show ?thesis
    by (simp add: looks_like_ordered_list_marker_def back_while_Cons Let_def)
qed

lemma abbreviation_Cons_ws:
  assumes "is_ascii_whitespace c"
  shows "looks_like_abbreviation_or_decimal (c # s) (Suc d)
    = looks_like_abbreviation_or_decimal s d"
proof -
  have "(case prev_byte (c # s) (Suc d) of Some p \<Rightarrow> P p | None \<Rightarrow> False)
    = (case prev_byte s d of Some p \<Rightarrow> P p | None \<Rightarrow> False)" if "\<not> P c" for P
    using that by (cases d) (auto simp: prev_byte_def get_at_def)
  with assms show ?thesis
    by (simp add: looks_like_abbreviation_or_decimal_def Let_def back_while_Cons)
qed

lemma scan_byte_Cons_ws:
  assumes "is_ascii_whitespace c"
  shows "scan_byte (c # s) (Suc i) st = apfst (map_option Suc) (scan_byte s i st)"
proof -
  have prev: "prev_is_sentence_letter (c # s) (Suc i) = prev_is_sentence_letter s i"
    using assms by (cases i) (auto simp: prev_is_sentence_letter_def)
  have t: "terminator_end (c # s) (Suc i) st = map_option Suc (terminator_end s i st)"
    using assms
    by (auto simp: terminator_end_def list_marker_Cons_ws abbreviation_Cons_ws prev Let_def
        split: option.splits)
  have p: "paragraph_end (c # s) (Suc i) = map_option Suc (paragraph_end s i)"
    using assms by (auto simp: paragraph_end_def trim_Cons_ws Let_def)
  show ?thesis by (simp add: scan_byte_def t p Let_def)
qed

lemma scan_from_Cons_ws:
  "is_ascii_whitespace c \<Longrightarrow> scan_from (c # s) (Suc i) st = map_option Suc (scan_from s i st)"
proof (induction s i st rule: scan_from.induct)
  case (1 s i st)
  obtain r st' where sb: "scan_byte s i st = (r, st')" by fastforce
  then show ?case
    using "1.IH" [OF _ sb [symmetric]] "1.prems"
    by (cases "i < length s"; cases r)
      (simp_all add: scan_from.simps [of s i] scan_from.simps [of "c # s" "Suc i"] scan_byte_Cons_ws)
qed

lemma scan_byte_ws_first:
  assumes "is_ascii_whitespace c"
  shows "scan_byte (c # s) 0 scan_init = (None, scan_init)"
proof -
  have "c \<noteq> CHR 0x60" "c \<noteq> CHR ''(''" "c \<noteq> CHR '')''" "c \<noteq> CHR ''[''" "c \<noteq> CHR '']''"
    "c \<noteq> CHR ''{''" "c \<noteq> CHR ''}''" "c \<noteq> CHR ''.''" "c \<noteq> CHR ''!''" "c \<noteq> CHR ''?''"
    using assms by (auto simp: is_ascii_whitespace_def byte_def)
  then show ?thesis
    by (simp add: scan_byte_def scan_init_def paragraph_end_def Let_def)
qed

lemma find_sentence_end_Cons_ws:
  "is_ascii_whitespace c \<Longrightarrow> find_sentence_end (c # s) = map_option Suc (find_sentence_end s)"
  by (simp add: find_sentence_end_def scan_from.simps [of "c # s" 0] scan_byte_ws_first
      scan_from_Cons_ws)

section \<open>More text never withdraws an end\<close>

lemma list_marker_append:
  "Suc i < length s \<Longrightarrow> looks_like_ordered_list_marker (s @ t) i = looks_like_ordered_list_marker s i"
proof -
  assume a: "Suc i < length s"
  let ?st = "back_while is_ascii_digit s i"
  have "?st \<le> i" by (rule back_while_le)
  with a have "?st - 1 < length s" by simp
  with a show ?thesis
    by (simp add: looks_like_ordered_list_marker_def back_while_append get_at_append_left
        nth_append Let_def)
qed

lemma abbreviation_append:
  "Suc i < length s \<Longrightarrow>
    looks_like_abbreviation_or_decimal (s @ t) i = looks_like_abbreviation_or_decimal s i"
  by (simp add: looks_like_abbreviation_or_decimal_def prev_byte_def back_while_append
      get_at_append_left Let_def)

lemma scan_byte_append:
  assumes "Suc i < length s"
  shows "scan_byte (s @ t) i st = scan_byte s i st"
proof -
  have n: "(s @ t) ! i = s ! i" "(s @ t) ! (i - 1) = s ! (i - 1)" "(s @ t) ! Suc i = s ! Suc i"
    using assms by (auto simp: nth_append)
  then have "prev_is_sentence_letter (s @ t) i = prev_is_sentence_letter s i"
    by (simp add: prev_is_sentence_letter_def)
  with assms n have "terminator_end (s @ t) i st = terminator_end s i st"
    by (simp add: terminator_end_def list_marker_append abbreviation_append get_at_append_left
        Let_def cong: option.case_cong if_cong)
  moreover have "paragraph_end (s @ t) i = paragraph_end s i"
    using assms by (simp add: paragraph_end_def Let_def)
  ultimately show ?thesis using assms n by (simp add: scan_byte_def Let_def)
qed

lemma scan_byte_last: "Suc i = length s \<Longrightarrow> fst (scan_byte s i st) = None"
  using scan_byte_Some [of s i st] by (cases "scan_byte s i st"; cases "fst (scan_byte s i st)") auto

lemma scan_from_append: "scan_from s i st = Some e \<Longrightarrow> scan_from (s @ t) i st = Some e"
proof (induction s i st rule: scan_from.induct)
  case (1 s i st)
  from "1.prems" have i: "i < length s" by (auto simp: scan_from.simps [of s i] split: if_splits)
  obtain r st' where sb: "scan_byte s i st = (r, st')" by fastforce
  have "Suc i < length s"
  proof (rule ccontr)
    assume "\<not> Suc i < length s"
    with i have l: "Suc i = length s" by simp
    with scan_byte_last [of i s st] sb "1.prems" i
    show False by (simp add: scan_from.simps [of s i] scan_from.simps [of s "length s"])
  qed
  then have sb': "scan_byte (s @ t) i st = (r, st')" using sb by (simp add: scan_byte_append)
  show ?case
  proof (cases r)
    case None
    with "1.prems" i sb have "scan_from s (Suc i) st' = Some e" by (simp add: scan_from.simps [of s i])
    with "1.IH" [OF i sb [symmetric, unfolded None]] sb' None i show ?thesis
      by (simp add: scan_from.simps [of "s @ t" i])
  next
    case (Some e')
    with "1.prems" i sb sb' show ?thesis
      by (simp add: scan_from.simps [of s i] scan_from.simps [of "s @ t" i])
  qed
qed

lemma find_sentence_end_append:
  "find_sentence_end s = Some e \<Longrightarrow> find_sentence_end (s @ t) = Some e"
  by (simp add: find_sentence_end_def scan_from_append)


section \<open>What draining takes out\<close>

lemma trim_rev_stop: "ws_last s = 0 \<Longrightarrow> trim_rev s = s"
  by (simp add: trim_rev.simps [of s])

lemma ws_last_ascii: "\<not> uws1 c \<Longrightarrow> byte c < 128 \<Longrightarrow> ws_last (c # s) = 0"
  by (cases s; cases "tl s") (auto simp: uws2_def uws3_def)

lemma trim_end_terminator:
  assumes "c = CHR ''.'' \<or> c = CHR ''!'' \<or> c = CHR ''?''"
  shows "trim_end (s @ [c]) = s @ [c]"
proof -
  have "\<not> uws1 c" "byte c < 128" using assms by (auto simp: uws1_def byte_def)
  then have "ws_last (c # rev s) = 0" by (rule ws_last_ascii)
  then show ?thesis by (simp add: trim_end_def trim_rev_stop)
qed

lemma end_content_nonempty:
  assumes "is_end b e"
  shows "trim_end (take e b) \<noteq> []"
proof (cases "trim (take e b) = []")
  case False
  then show ?thesis using trim_nil_of_trim_end by blast
next
  case True
  with assms have e: "0 < e" "e < length b" and
    c: "b ! (e - 1) = CHR ''.'' \<or> b ! (e - 1) = CHR ''!'' \<or> b ! (e - 1) = CHR ''?''"
    by (auto simp: is_end_def)
  from e have "take e b = take (e - 1) b @ [b ! (e - 1)]"
    by (cases e) (simp_all add: take_Suc_conv_app_nth)
  then show ?thesis using trim_end_terminator [OF c] by simp
qed

lemma cut_sentence_eq:
  assumes "is_end b e"
  shows "cut_sentence b e = [\<lparr>content = trim_end (take (consume_to b e) b),
    content_bytes = length (trim_end (take e b)), bytes_consumed = consume_to b e\<rparr>]"
proof -
  have "take (consume_to b e) b = take e b @ takeWhile is_ascii_whitespace (drop e b)"
    by (simp add: consume_to_def take_add takeWhile_eq_take [symmetric])
  moreover have "list_all uws1 (takeWhile is_ascii_whitespace (drop e b))"
    by (auto simp: list_all_iff dest: set_takeWhileD)
  ultimately have "trim_end (take (consume_to b e) b) = trim_end (take e b)"
    by (simp add: trim_end_append_all_ws)
  then show ?thesis using end_content_nonempty [OF assms] by (simp add: cut_sentence_def Let_def)
qed

lemma consume_to_le: "e \<le> length b \<Longrightarrow> consume_to b e \<le> length b"
  using length_takeWhile_le [of is_ascii_whitespace "drop e b"] by (simp add: consume_to_def)

definition cut_from :: "string \<Rightarrow> completed_sentence \<Rightarrow> bool" where
  "cut_from p c \<longleftrightarrow> content c = trim_end p \<and> content c \<noteq> [] \<and>
     content_bytes c = length (content c) \<and> bytes_consumed c = length p"

lemma drain_loop_pieces:
  "\<exists>ps. b = concat ps @ snd (drain_loop b) \<and> list_all2 cut_from ps (fst (drain_loop b))"
proof (induction b rule: drain_loop.induct)
  case (1 b)
  show ?case
  proof (cases "find_sentence_end b")
    case None
    then show ?thesis by (intro exI [of _ "[]"]) (simp add: drain_loop.simps [of b])
  next
    case (Some e)
    then have e: "is_end b e" unfolding find_sentence_end_def by (rule scan_from_Some)
    let ?n = "consume_to b e"
    obtain ps where ps: "drop ?n b = concat ps @ snd (drain_loop (drop ?n b))"
      and l: "list_all2 cut_from ps (fst (drain_loop (drop ?n b)))"
      using "1.IH" [OF Some] by blast
    have le: "?n \<le> length b" using is_end_bounds [OF e] consume_to_le by simp
    have len: "length (trim_end (take ?n b)) = length (trim_end (take e b))"
      and ne: "trim_end (take ?n b) \<noteq> []"
      using cut_sentence_eq [OF e] end_content_nonempty [OF e]
      by (auto simp: cut_sentence_def Let_def split: if_splits)
    have "list_all2 cut_from (take ?n b # ps) (fst (drain_loop b))"
      using Some l le len ne
      by (simp add: drain_loop.simps [of b] cut_sentence_eq [OF e] split_beta cut_from_def)
    moreover have "b = concat (take ?n b # ps) @ snd (drain_loop b)"
    proof -
      have "b = take ?n b @ drop ?n b" by simp
      also have "drop ?n b = concat ps @ snd (drain_loop b)"
        using Some by (subst ps) (simp add: drain_loop.simps [of b] split_beta)
      finally show ?thesis by simp
    qed
    ultimately show ?thesis by blast
  qed
qed

lemma drain_loop_stops: "find_sentence_end (snd (drain_loop b)) = None"
proof (induction b rule: drain_loop.induct)
  case (1 b)
  then show ?case
    by (cases "find_sentence_end b") (simp_all add: drain_loop.simps [of b] split_beta)
qed


section \<open>Chunk boundaries\<close>

abbreviation lead :: "string \<Rightarrow> string" where
  "lead \<equiv> dropWhile is_ascii_whitespace"

definition dview :: "completed_sentence list \<times> string \<Rightarrow> string list \<times> string" where
  "dview r = (map (\<lambda>c. lead (content c)) (fst r), lead (snd r))"

lemma drain_loop_None: "find_sentence_end b = None \<Longrightarrow> drain_loop b = ([], b)"
  by (simp add: drain_loop.simps [of b])

lemma drain_loop_Some:
  "find_sentence_end b = Some e \<Longrightarrow>
    drain_loop b = (cut_sentence b e @ fst (drain_loop (drop (consume_to b e) b)),
      snd (drain_loop (drop (consume_to b e) b)))"
  by (simp add: drain_loop.simps [of b] split_beta)

lemma find_is_end: "find_sentence_end b = Some e \<Longrightarrow> is_end b e"
  unfolding find_sentence_end_def by (rule scan_from_Some)

lemma consume_to_Cons [simp]: "consume_to (c # b) (Suc e) = Suc (consume_to b e)"
  by (simp add: consume_to_def)

lemma dview_Cons_ws:
  assumes "is_ascii_whitespace c"
  shows "dview (drain_loop (c # b)) = dview (drain_loop b)"
proof (cases "find_sentence_end b")
  case None
  with assms show ?thesis
    by (simp add: drain_loop_None find_sentence_end_Cons_ws dview_def)
next
  case (Some e)
  note ends = end_content_nonempty [OF find_is_end [OF Some]]
  from Some assms have "find_sentence_end (c # b) = Some (Suc e)"
    by (simp add: find_sentence_end_Cons_ws)
  with Some ends assms show ?thesis
    by (simp add: drain_loop_Some dview_def cut_sentence_def trim_end_Cons_ws Let_def)
qed

lemma dview_lead: "dview (drain_loop (lead b)) = dview (drain_loop b)"
  by (induction b) (auto simp: dview_Cons_ws)

lemma drain_loop_append:
  "dview (drain_loop (x @ t)) =
    dview (fst (drain_loop x) @ fst (drain_loop (snd (drain_loop x) @ t)),
      snd (drain_loop (snd (drain_loop x) @ t)))"
proof (induction x rule: drain_loop.induct)
  case (1 x)
  show ?case
  proof (cases "find_sentence_end x")
    case None
    then show ?thesis by (simp add: drain_loop_None)
  next
    case (Some e)
    note xt = find_sentence_end_append [OF Some, of t]
    have e: "e \<le> length x" using find_sentence_end_bounds [OF Some] by simp
    let ?n = "consume_to x e"
    have le: "?n \<le> length x" using e by (rule consume_to_le)
    show ?thesis
    proof (cases "list_all is_ascii_whitespace (drop e x)")
      case False
      then have n: "consume_to (x @ t) e = ?n"
        using e by (auto simp: consume_to_def list_all_iff takeWhile_append1)
      with e le have "cut_sentence (x @ t) e = cut_sentence x e"
        by (simp add: cut_sentence_def Let_def)
      with Some xt n le "1.IH" [OF Some] show ?thesis
        by (simp add: drain_loop_Some dview_def)
    next
      case True
      then have n: "?n = length x"
        using e by (simp add: consume_to_def list_all_iff takeWhile_eq_all_conv [THEN iffD2])
      from True have "consume_to (x @ t) e = length x + length (takeWhile is_ascii_whitespace t)"
        using e by (simp add: consume_to_def list_all_iff takeWhile_append2)
      then have d: "drop (consume_to (x @ t) e) (x @ t) = lead t"
        by (simp add: dropWhile_eq_drop)
      have "map content (cut_sentence (x @ t) e) = map content (cut_sentence x e)"
        using e by (simp add: cut_sentence_def Let_def)
      then have "map (\<lambda>c. lead (content c)) (cut_sentence (x @ t) e)
          = map (\<lambda>c. lead (content c)) (cut_sentence x e)"
        by (metis (no_types, lifting) comp_apply map_map map_cong)
      moreover have "drain_loop [] = ([], [])"
        by (simp add: drain_loop_None find_sentence_end_def scan_from.simps)
      ultimately show ?thesis
        using Some xt n d dview_lead [of t] by (simp add: drain_loop_Some dview_def)
    qed
  qed
qed

text \<open>The segmenter as an assembler of the shared contract.\<close>

definition push_chunk :: "(sentence_segmenter, char, completed_sentence) pusher" where
  "push_chunk seg text = Some (push text seg)"

abbreviation segmenter_idle :: "sentence_segmenter \<Rightarrow> bool" where
  "segmenter_idle seg \<equiv> find_sentence_end (buf seg) = None"

lemma push_eq:
  "push text seg = (fst (drain_loop (buf seg @ text)), seg\<lparr>buf := snd (drain_loop (buf seg @ text))\<rparr>)"
  by (simp add: push_def drain_complete_def split_beta Let_def)

interpretation segmenter: chunked push_chunk "\<lambda>c. lead (content c)" "\<lambda>s. lead (buf s)" segmenter_idle
proof unfold_locales
  fix s :: sentence_segmenter
  assume "segmenter_idle s"
  then show "push_chunk s [] = Some ([], s)"
    by (simp add: push_chunk_def push_eq drain_loop_None)
next
  fix s s' :: sentence_segmenter and a os
  assume "push_chunk s a = Some (os, s')"
  then show "segmenter_idle s'"
    by (auto simp: push_chunk_def push_eq drain_loop_stops)
next
  fix s :: sentence_segmenter and a b
  show "viewed (\<lambda>c. lead (content c)) (\<lambda>s. lead (buf s)) (push_chunk s (a @ b)) =
    viewed (\<lambda>c. lead (content c)) (\<lambda>s. lead (buf s))
      (then_push (push_chunk s a) (\<lambda>s'. push_chunk s' b))"
    using drain_loop_append [of "buf s @ a" b]
    by (simp add: push_chunk_def push_eq dview_def)
qed

section \<open>Slices and counters\<close>

lemma is_end_boundary:
  assumes "is_utf8 b" and "is_end b e"
  shows "is_char_boundary b e"
proof (cases "Suc e < length b \<and> b ! e = LF")
  case True
  with ascii_boundary [OF assms(1), of e] show ?thesis by (simp add: byte_def)
next
  case False
  with assms(2) have e: "0 < e" "e < length b"
    and "b ! (e - 1) = CHR ''.'' \<or> b ! (e - 1) = CHR ''!'' \<or> b ! (e - 1) = CHR ''?''"
    by (auto simp: is_end_def)
  then have "byte (b ! (e - 1)) < 128" by (auto simp: byte_def)
  with ascii_boundary_after [OF assms(1), of "e - 1"] e show ?thesis by simp
qed

lemma ascii_ws_byte: "is_ascii_whitespace c \<Longrightarrow> byte c < 128"
  by (auto simp: is_ascii_whitespace_def)

lemma boundary_over_ws:
  assumes "is_utf8 b" and "is_char_boundary b e" and "e \<le> length b"
    and "list_all is_ascii_whitespace w" and "take (length w) (drop e b) = w"
  shows "is_char_boundary b (e + length w)"
proof (cases w rule: rev_cases)
  case Nil
  with assms show ?thesis by simp
next
  case (snoc v c)
  let ?i = "e + length v"
  have l: "length w \<le> length (drop e b)" using assms(5) by (metis length_take min.absorb_iff2 min.commute)
  have "drop e b ! length v = c" using assms(5) snoc by (metis nth_append_length nth_take snoc length_append_singleton lessI)
  with l snoc assms(3) have "b ! ?i = c" "?i < length b" by auto
  moreover have "byte c < 128" using assms(4) snoc ascii_ws_byte by simp
  ultimately show ?thesis using ascii_boundary_after [OF assms(1), of ?i] snoc by simp
qed

lemma consume_to_boundary:
  assumes "is_utf8 b" and "is_end b e"
  shows "is_char_boundary b (consume_to b e)"
  unfolding consume_to_def
proof (rule boundary_over_ws [OF assms(1)])
  show "is_char_boundary b e" using assms by (rule is_end_boundary)
  show "e \<le> length b" using is_end_bounds [OF assms(2)] by simp
  show "list_all is_ascii_whitespace (takeWhile is_ascii_whitespace (drop e b))"
    by (auto simp: list_all_iff dest: set_takeWhileD)
  show "take (length (takeWhile is_ascii_whitespace (drop e b))) (drop e b)
    = takeWhile is_ascii_whitespace (drop e b)"
    by (simp add: takeWhile_eq_take [symmetric])
qed

lemma drain_loop_utf8:
  "is_utf8 b \<Longrightarrow> is_utf8 (snd (drain_loop b)) \<and> (\<forall>c\<in>set (fst (drain_loop b)). is_utf8 (content c))"
proof (induction b rule: drain_loop.induct)
  case (1 b)
  show ?case
  proof (cases "find_sentence_end b")
    case None
    with "1.prems" show ?thesis by (simp add: drain_loop_None)
  next
    case (Some e)
    let ?n = "consume_to b e"
    have e: "is_end b e" using Some by (rule find_is_end)
    have "is_utf8 (take e b)" "is_utf8 (drop ?n b)"
      using boundary_slices [OF "1.prems"] is_end_boundary [OF "1.prems" e]
        consume_to_boundary [OF "1.prems" e] by auto
    with Some "1.IH" [OF Some] show ?thesis
      by (auto simp: drain_loop_Some cut_sentence_def Let_def is_utf8_trim_end)
  qed
qed

text \<open>The buffers that a drain scans, and the slices of one of them that the scanner or the drain takes.\<close>

function scanned_buffers :: "string \<Rightarrow> string list" where
  "scanned_buffers b =
     b # (case find_sentence_end b of None \<Rightarrow> [] | Some e \<Rightarrow> scanned_buffers (drop (consume_to b e) b))"
  by pat_completeness auto
termination
proof (relation "measure length")
  fix b :: string and e :: nat
  assume "find_sentence_end b = Some e"
  then have "0 < e" "e < length b" using find_sentence_end_bounds by auto
  then show "(drop (consume_to b e) b, b) \<in> measure length" by (simp add: consume_to_def)
qed simp

declare scanned_buffers.simps [simp del]

text \<open>
  At a line feed the text before it; at a full stop the word and the token before it; and at an
  end the sentence and the rest.
\<close>

definition slices_on_boundaries :: "string \<Rightarrow> bool" where
  "slices_on_boundaries s \<longleftrightarrow>
     (\<forall>i < length s. s ! i = LF \<longrightarrow> is_char_boundary s i) \<and>
     (\<forall>i < length s. s ! i = CHR ''.'' \<longrightarrow>
        is_char_boundary s (back_while is_ascii_alphabetic s i) \<and> is_char_boundary s i \<and>
        is_char_boundary s (back_while (\<lambda>b. \<not> is_ascii_whitespace b) s i) \<and>
        is_char_boundary s (min (i + 1) (length s))) \<and>
     (case find_sentence_end s of
        Some e \<Rightarrow> is_char_boundary s e \<and> is_char_boundary s (consume_to s e)
      | None \<Rightarrow> True)"

lemma ascii_alphabetic_byte: "is_ascii_alphabetic c \<Longrightarrow> byte c < 128"
  by (auto simp: is_ascii_alphabetic_def is_ascii_lowercase_def is_ascii_uppercase_def)

lemma word_boundary:
  assumes "is_utf8 s" and "i < length s" and "byte (s ! i) < 128"
  shows "is_char_boundary s (back_while is_ascii_alphabetic s i)"
proof (cases "back_while is_ascii_alphabetic s i = i")
  case True
  with assms ascii_boundary show ?thesis by simp
next
  case False
  then have lt: "back_while is_ascii_alphabetic s i < i" using back_while_le [of is_ascii_alphabetic s i] by simp
  then have "is_ascii_alphabetic (s ! back_while is_ascii_alphabetic s i)"
    using back_while_all [of is_ascii_alphabetic s i] by blast
  with lt assms(1,2) show ?thesis by (intro ascii_boundary ascii_alphabetic_byte) simp_all
qed

lemma token_boundary:
  assumes "is_utf8 s" and "i < length s"
  shows "is_char_boundary s (back_while (\<lambda>b. \<not> is_ascii_whitespace b) s i)"
proof (cases "back_while (\<lambda>b. \<not> is_ascii_whitespace b) s i")
  case 0
  then show ?thesis by (simp add: is_char_boundary_def)
next
  case (Suc t)
  then have "is_ascii_whitespace (s ! t)" "t < length s"
    using back_while_stop [of "\<lambda>b. \<not> is_ascii_whitespace b" s i] back_while_le [of "\<lambda>b. \<not> is_ascii_whitespace b" s i] assms(2)
    by simp_all
  with assms(1) Suc show ?thesis by (simp add: ascii_boundary_after ascii_ws_byte)
qed

lemma utf8_slices:
  assumes "is_utf8 s"
  shows "slices_on_boundaries s"
proof -
  have "is_char_boundary s i" if "i < length s" "s ! i = LF" for i
    using assms that by (simp add: ascii_boundary byte_def)
  moreover have "is_char_boundary s (back_while is_ascii_alphabetic s i) \<and> is_char_boundary s i \<and>
        is_char_boundary s (back_while (\<lambda>b. \<not> is_ascii_whitespace b) s i) \<and> is_char_boundary s (min (i + 1) (length s))"
    if "i < length s" "s ! i = CHR ''.''" for i
    using assms that ascii_boundary_after [OF assms, of i]
    by (simp add: word_boundary token_boundary ascii_boundary byte_def min_def)
  moreover have "case find_sentence_end s of
      Some e \<Rightarrow> is_char_boundary s e \<and> is_char_boundary s (consume_to s e) | None \<Rightarrow> True"
    using assms by (auto simp: is_end_boundary consume_to_boundary find_is_end split: option.split)
  ultimately show ?thesis unfolding slices_on_boundaries_def by blast
qed

lemma scanned_utf8: "is_utf8 b \<Longrightarrow> s \<in> set (scanned_buffers b) \<Longrightarrow> is_utf8 s"
proof (induction b rule: scanned_buffers.induct)
  case (1 b)
  show ?case
  proof (cases "find_sentence_end b")
    case None
    with "1.prems" show ?thesis by (simp add: scanned_buffers.simps [of b])
  next
    case (Some e)
    have "is_utf8 (drop (consume_to b e) b)"
      using boundary_slices [OF "1.prems"(1)] consume_to_boundary [OF "1.prems"(1) find_is_end [OF Some]] by auto
    with "1.IH" [OF Some] "1.prems" Some show ?thesis by (auto simp: scanned_buffers.simps [of b])
  qed
qed

text \<open>The scanner state in front of byte \<open>i\<close>, whether or not an end was reported before it.\<close>

primrec scan_state :: "string \<Rightarrow> nat \<Rightarrow> scan" where
  "scan_state s 0 = scan_init"
| "scan_state s (Suc i) = snd (scan_byte s i (scan_state s i))"

lemma scan_state_bounds:
  "0 \<le> paren (scan_state s i) \<and> paren (scan_state s i) \<le> int i \<and>
   0 \<le> bracket (scan_state s i) \<and> bracket (scan_state s i) \<le> int i \<and>
   0 \<le> brace (scan_state s i) \<and> brace (scan_state s i) \<le> int i"
proof (induction i)
  case 0
  then show ?case by (simp add: scan_init_def)
next
  case (Suc i)
  then show ?case by (auto simp: scan_byte_def Let_def)
qed

section \<open>Properties\<close>

text \<open>
  C36. Pushing text loses and reorders nothing: the buffer and the new text together are
  the pieces taken out, in order, followed by what stays buffered; each sentence emitted is
  the non-empty right-trimmed text of its piece, and its byte counts are exact.
\<close>

theorem push_conserves_text:
  "\<exists>ps. buf seg @ text = concat ps @ buf (snd (push text seg))
    \<and> list_all2 cut_from ps (fst (push text seg))"
  using drain_loop_pieces [of "buf seg @ text"] by (simp add: push_eq)

text \<open>
  C37. How the incoming text is cut into chunks does not matter: two ways to cut the same
  stream give, from an empty segmenter, the same sentences in the same order and the same
  remainder, up to white space in front of a sentence.
\<close>

theorem segmentation_ignores_chunking:
  assumes "concat cs = concat ds"
  shows "viewed (\<lambda>c. lead (content c)) (\<lambda>s. lead (buf s)) (feed push_chunk segmenter_new cs)
    = viewed (\<lambda>c. lead (content c)) (\<lambda>s. lead (buf s)) (feed push_chunk segmenter_new ds)"
proof -
  have "segmenter_idle segmenter_new"
    by (simp add: segmenter_new_def find_sentence_end_def scan_from.simps)
  with assms show ?thesis by (rule segmenter.chunking_irrelevant [rotated])
qed

theorem segmentation_ignores_chunking_witness:
  "viewed (\<lambda>c. lead (content c)) (\<lambda>s. lead (buf s))
      (feed push_chunk segmenter_new [''Hi. '', '' You'', ''.''])
    = viewed (\<lambda>c. lead (content c)) (\<lambda>s. lead (buf s))
      (feed push_chunk segmenter_new [''Hi.  You.''])"
  by (rule segmentation_ignores_chunking) simp

text \<open>
  White space in front of a sentence does depend on the cut: a blank line that arrives
  in two chunks leaves its second line feed at the head of the next sentence, which a single
  chunk would have dropped.
\<close>

theorem chunking_moves_leading_whitespace:
  "map_option (\<lambda>(os, s). map content os)
      (feed push_chunk segmenter_new [''Hi.'' @ [LF], [LF] @ ''You. ''])
      = Some [''Hi.'', [LF] @ ''You.''] \<and>
   map_option (\<lambda>(os, s). map content os)
      (feed push_chunk segmenter_new [''Hi.'' @ [LF, LF] @ ''You. ''])
      = Some [''Hi.'', ''You.'']"
  by code_simp

text \<open>
  Sealing at a clean end empties the segmenter of text: the buffer is cut into
  pieces, every piece yields one non-empty sentence with the piece's text, and only white
  space can be left over.
\<close>

theorem seal_takes_all_text:
  "\<exists>ps. buf seg = concat ps @ buf (snd (seal_at_clean_end seg))
    \<and> list_all2 (\<lambda>p c. content c \<noteq> [] \<and> trim (content c) = trim p \<and> bytes_consumed c = length p)
        ps (fst (seal_at_clean_end seg))
    \<and> trim (buf (snd (seal_at_clean_end seg))) = []"
proof -
  obtain ps where ps: "buf seg = concat ps @ snd (drain_loop (buf seg))"
    and l: "list_all2 cut_from ps (fst (drain_loop (buf seg)))"
    using drain_loop_pieces by blast
  let ?r = "snd (drain_loop (buf seg))"
  have l': "list_all2 (\<lambda>p c. content c \<noteq> [] \<and> trim (content c) = trim p \<and> bytes_consumed c = length p)
      ps (fst (drain_loop (buf seg)))"
    using l by (rule list_all2_mono) (auto simp: cut_from_def trim_def)
  show ?thesis
  proof (cases "trim ?r = []")
    case True
    with ps l' show ?thesis
      by (intro exI [of _ ps]) (simp add: seal_at_clean_end_def drain_complete_def seal_rest_def split_beta Let_def)
  next
    case False
    with l' have "list_all2 (\<lambda>p c. content c \<noteq> [] \<and> trim (content c) = trim p \<and> bytes_consumed c = length p)
      (ps @ [?r]) (fst (seal_at_clean_end seg))"
      by (simp add: seal_at_clean_end_def drain_complete_def seal_rest_def split_beta Let_def
          list_all2_appendI)
    with False ps show ?thesis
      by (intro exI [of _ "ps @ [?r]"])
        (simp add: seal_at_clean_end_def drain_complete_def seal_rest_def split_beta Let_def)
  qed
qed

text \<open>
  C40. No string slice of the segmenter can fall inside a character: on well-formed UTF-8 the buffer
  stays well-formed, every sentence is well-formed, and in every buffer that a drain scans, the
  text in front of a line feed, the word and the token in front of a full stop, the sentence up to
  an end and the rest behind it are all cut at character boundaries.
\<close>

theorem segmenter_slices_are_boundaries:
  assumes "is_utf8 (buf seg)" and "is_utf8 text"
  shows "is_utf8 (buf (snd (push text seg)))
    \<and> (\<forall>c\<in>set (fst (push text seg)). is_utf8 (content c))
    \<and> (\<forall>s\<in>set (scanned_buffers (buf seg @ text)). slices_on_boundaries s)"
proof -
  have u: "is_utf8 (buf seg @ text)" using assms by (rule is_utf8_append)
  then show ?thesis
    using drain_loop_utf8 [OF u] scanned_utf8 [OF u] utf8_slices by (auto simp: push_eq)
qed

theorem segmenter_slices_are_boundaries_witness:
  "is_utf8 (buf (snd (push [CHR 0xC3, CHR 0xA9, CHR ''.'', CHR '' ''] segmenter_new)))
   \<and> slices_on_boundaries [CHR 0xC3, CHR 0xA9, CHR ''.'', CHR '' '']"
proof -
  let ?t = "[CHR 0xC3, CHR 0xA9, CHR ''.'', CHR '' '']"
  have b: "buf segmenter_new = []" by (simp add: segmenter_new_def)
  then have "is_utf8 (buf segmenter_new)" by simp
  moreover have "is_utf8 ?t" by code_simp
  ultimately have "is_utf8 (buf (snd (push ?t segmenter_new)))"
    "\<forall>s\<in>set (scanned_buffers (buf segmenter_new @ ?t)). slices_on_boundaries s"
    using segmenter_slices_are_boundaries by blast+
  then show ?thesis by (simp add: b scanned_buffers.simps [of ?t])
qed

text \<open>
  The bracket counters never go negative and never exceed the bytes scanned, so on a
  buffer shorter than 2 to the 31 bytes the source's \<open>i32\<close> counters cannot overflow.
\<close>

theorem scan_counters_fit_i32:
  assumes "length s < 2 ^ 31" and "i \<le> length s"
  shows "0 \<le> paren (scan_state s i) \<and> paren (scan_state s i) < 2 ^ 31
    \<and> 0 \<le> bracket (scan_state s i) \<and> bracket (scan_state s i) < 2 ^ 31
    \<and> 0 \<le> brace (scan_state s i) \<and> brace (scan_state s i) < 2 ^ 31"
proof -
  have "i < 2 ^ 31" using assms by simp
  then have "int i < 2 ^ 31" by (metis of_nat_less_iff of_nat_numeral of_nat_power)
  then show ?thesis using scan_state_bounds [of s i] by linarith
qed

theorem scan_counters_fit_i32_witness:
  "paren (scan_state ''((a'' 2) = 2 \<and> paren (scan_state ''((a'' 2) < 2 ^ 31"
proof -
  have "paren (scan_state ''((a'' 2) = 2" by code_simp
  moreover have "paren (scan_state ''((a'' 2) < 2 ^ 31"
    using scan_counters_fit_i32 [of "''((a''" 2] by simp
  ultimately show ?thesis by blast
qed

end
