(* ===== verification/Json.thy ===== *)
theory Json
  imports Rust_Std
begin

text \<open>
  The view the dialect mappings have of JSON. The \<open>serde_json\<close> crate is not part of the
  repository: its parser and printer are the fields of a codec record that every definition
  using them takes as an argument, and no fact about them is assumed unless a theorem says
  so. Its public \<open>Value\<close> type and the accessors the sources call on it are the ones
  documented: an object lookup answers only on objects, an integer is \<open>u64\<close> when it is
  not negative and \<open>i64\<close> otherwise, and anything else is a float.
\<close>

datatype json_number = PosInt nat | NegInt int | FloatNum string

datatype json =
    JNull
  | JBool bool
  | JNumber json_number
  | JString string
  | JArray "json list"
  | JObject "(string \<times> json) list"

record json_codec =
  from_slice :: "string \<Rightarrow> (string, json) result"
  from_str :: "string \<Rightarrow> json option"
  to_json_string :: "json \<Rightarrow> string"
  to_vec :: "json \<Rightarrow> string option"

fun jget :: "string \<Rightarrow> json \<Rightarrow> json option" where
  "jget k (JObject kvs) = map_of kvs k"
| "jget k _ = None"

fun as_str :: "json \<Rightarrow> string option" where
  "as_str (JString s) = Some s"
| "as_str _ = None"

fun as_bool :: "json \<Rightarrow> bool option" where
  "as_bool (JBool b) = Some b"
| "as_bool _ = None"

fun as_array :: "json \<Rightarrow> json list option" where
  "as_array (JArray vs) = Some vs"
| "as_array _ = None"

fun as_u64 :: "json \<Rightarrow> nat option" where
  "as_u64 (JNumber (PosInt n)) = Some n"
| "as_u64 _ = None"

fun as_i64 :: "json \<Rightarrow> int option" where
  "as_i64 (JNumber (PosInt n)) = (if n < 2 ^ 63 then Some (int n) else None)"
| "as_i64 (JNumber (NegInt i)) = Some i"
| "as_i64 _ = None"

text \<open>The cast \<open>i as u64\<close> of an \<open>i64\<close>.\<close>

definition i64_as_u64 :: "int \<Rightarrow> nat" where
  "i64_as_u64 i = nat (i mod 2 ^ 64)"

text \<open>\<open>n as u32\<close> of a \<open>u64\<close>.\<close>

definition u64_as_u32 :: "nat \<Rightarrow> nat" where
  "u64_as_u32 n = nat (int n mod 2 ^ 32)"

definition or_else :: "'a option \<Rightarrow> 'a option \<Rightarrow> 'a option" where
  "or_else a b = (case a of None \<Rightarrow> b | Some x \<Rightarrow> Some x)"

definition unwrap_or :: "'a \<Rightarrow> 'a option \<Rightarrow> 'a" where
  "unwrap_or d a = (case a of None \<Rightarrow> d | Some x \<Rightarrow> x)"

text \<open>\<open>get(k).and_then(as_str)\<close> and its relatives.\<close>

definition get_str :: "string \<Rightarrow> json \<Rightarrow> string option" where
  "get_str k v = Option.bind (jget k v) as_str"

definition get_array :: "string \<Rightarrow> json \<Rightarrow> json list option" where
  "get_array k v = Option.bind (jget k v) as_array"

definition get_bool :: "string \<Rightarrow> json \<Rightarrow> bool option" where
  "get_bool k v = Option.bind (jget k v) as_bool"

text \<open>\<open>as_u64().or_else(|| as_i64().map(|i| i as u64))\<close>.\<close>

definition as_u64_lenient :: "json \<Rightarrow> nat option" where
  "as_u64_lenient v = or_else (as_u64 v) (map_option i64_as_u64 (as_i64 v))"

fun is_string :: "json \<Rightarrow> bool" where
  "is_string (JString _) = True"
| "is_string _ = False"

fun is_object :: "json \<Rightarrow> bool" where
  "is_object (JObject _) = True"
| "is_object _ = False"

fun is_array :: "json \<Rightarrow> bool" where
  "is_array (JArray _) = True"
| "is_array _ = False"

section \<open>Integers in text\<close>

definition digit_value :: "char \<Rightarrow> nat" where
  "digit_value c = byte c - 48"

fun digits_value :: "nat \<Rightarrow> string \<Rightarrow> nat" where
  "digits_value acc [] = acc"
| "digits_value acc (c # cs) = digits_value (10 * acc + digit_value c) cs"

definition all_digits :: "string \<Rightarrow> bool" where
  "all_digits s \<longleftrightarrow> s \<noteq> [] \<and> list_all is_ascii_digit s"

text \<open>\<open>str::parse::<u64>\<close>: an optional plus sign, then digits, in range.\<close>

definition parse_u64 :: "string \<Rightarrow> nat option" where
  "parse_u64 s =
     (let d = (case s of [] \<Rightarrow> [] | c # cs \<Rightarrow> if c = CHR ''+'' then cs else s)
      in if all_digits d \<and> digits_value 0 d < 2 ^ 64 then Some (digits_value 0 d) else None)"

text \<open>\<open>str::parse::<i64>\<close>.\<close>

definition parse_i64 :: "string \<Rightarrow> int option" where
  "parse_i64 s =
     (case s of
        c # cs \<Rightarrow>
          if c = CHR ''-'' then
            (if all_digits cs \<and> digits_value 0 cs \<le> 2 ^ 63 then Some (- int (digits_value 0 cs)) else None)
          else
            (let d = (if c = CHR ''+'' then cs else s)
             in if all_digits d \<and> digits_value 0 d < 2 ^ 63 then Some (int (digits_value 0 d)) else None)
      | [] \<Rightarrow> None)"

section \<open>Facts\<close>

lemma or_else_simps [simp]: "or_else None b = b" "or_else (Some x) b = Some x"
  by (simp_all add: or_else_def)

lemma unwrap_or_simps [simp]: "unwrap_or d None = d" "unwrap_or d (Some x) = x"
  by (simp_all add: unwrap_or_def)

lemma i64_as_u64_bound: "i64_as_u64 i < 2 ^ 64"
proof -
  have "i mod 2 ^ 64 < (2 ^ 64 :: int)" by (rule pos_mod_bound) simp
  then show ?thesis by (simp add: i64_as_u64_def nat_less_iff)
qed

end
