(* ===== verification/Canonical.thy ===== *)
theory Canonical
  imports Prelude
begin

text \<open>
  The provider-neutral vocabulary of \<open>crates/monoloop-contracts\<close>: canonical units and
  their lifecycle (\<open>canonical.rs\<close>), interpreter errors (\<open>error.rs\<close>), dialect descriptors
  (\<open>dialect.rs\<close>) and the interpretation limits (\<open>limits.rs\<close>). Identities are newtypes
  over \<open>String\<close> in the source and strings here; \<open>u64\<close> counters and millisecond times are
  natural numbers. A constructor carries a short prefix where the source uses the same word
  in several enums.
\<close>

section \<open>Units\<close>

datatype text_channel =
    PublicResponse
  | PublicReasoningSummary
  | StatusNarration
  | QuotedExternalContent

datatype unit_state = UnitComplete | UnitWaiting | UnitIncomplete | UnitMalformed

datatype tool_request_state = ReqAssembling | ReqReady | ReqMalformed | ReqIncomplete

datatype tool_execution_state = ExecNotObserved | ExecWaiting | ExecRunning | ExecTerminal

datatype tool_result_state = ResAbsent | ResAssembling | ResComplete | ResMalformed | ResIncomplete

datatype tool_terminal_outcome = OutSuccess | OutFailure | OutCancelled | OutLost

datatype diagnostic_kind =
    DialectWarning
  | ModelReportedError
  | UnsupportedEvent
  | DiagMalformedFrame
  | DiagMalformedSemanticPayload
  | IncompleteText
  | IncompleteStructure
  | IncompleteToolAction
  | DiagLimitExceeded

datatype boundary_kind =
    ResponseStarted
  | ChannelStarted
  | ChannelFinished
  | ResponseFinished
  | UsageFinalized

datatype structure_kind =
    Heading | ListItem | CodeBlock | TableRow | BlockQuote | ThematicBreak | RawBlock

datatype paragraph_kind = Opened | Closed

datatype token_count = Measured nat | Unavailable

record text_sentence =
  sentence_id :: string
  sentence_channel :: text_channel
  paragraph_id :: "string option"
  sentence_ordinal :: nat
  sentence_content :: string

record structural_atom =
  structure_id :: string
  atom_kind :: structure_kind
  atom_content :: string

record paragraph_boundary =
  boundary_paragraph_id :: string
  paragraph_boundary_kind :: paragraph_kind
  paragraph_channel :: text_channel

record tool_action_event =
  tool_action_id :: string
  event_tool_name :: "string option"
  event_request_state :: tool_request_state
  event_execution_state :: tool_execution_state
  event_result_state :: tool_result_state
  event_request_payload :: "string option"
  event_result_payload :: "string option"
  terminal_outcome :: "tool_terminal_outcome option"
  event_waiting_for :: "string option"

record usage_observation =
  input_tokens :: token_count
  output_tokens :: token_count

record model_diagnostic =
  diagnostic_kind_of :: diagnostic_kind
  diagnostic_message :: string

datatype canonical_unit =
    Text text_sentence
  | Structure structural_atom
  | Paragraph paragraph_boundary
  | Tool tool_action_event
  | Usage usage_observation
  | Diagnostic model_diagnostic
  | Boundary boundary_kind

section \<open>Source time\<close>

record source_time_observation =
  first_ms :: nat
  last_ms :: nat

definition time_point :: "nat \<Rightarrow> source_time_observation" where
  "time_point ms = \<lparr>first_ms = ms, last_ms = ms\<rparr>"

definition time_merge ::
  "source_time_observation \<Rightarrow> source_time_observation \<Rightarrow> source_time_observation" where
  "time_merge a b = \<lparr>first_ms = min (first_ms a) (first_ms b), last_ms = max (last_ms a) (last_ms b)\<rparr>"

definition time_include :: "source_time_observation \<Rightarrow> nat option \<Rightarrow> source_time_observation" where
  "time_include a ms = (case ms of Some t \<Rightarrow> time_merge a (time_point t) | None \<Rightarrow> a)"

fun from_bounds :: "nat option \<Rightarrow> nat option \<Rightarrow> source_time_observation option" where
  "from_bounds (Some f) (Some l) = Some \<lparr>first_ms = min f l, last_ms = max f l\<rparr>"
| "from_bounds (Some t) None = Some (time_point t)"
| "from_bounds None (Some t) = Some (time_point t)"
| "from_bounds None None = None"

section \<open>Snapshots and events\<close>

record canonical_unit_snapshot =
  unit_id :: string
  unit_generation :: nat
  snapshot_state :: unit_state
  snapshot_interpretation :: string
  snapshot_connection :: string
  snapshot_session :: "string option"
  flow_id :: string
  lane_id :: string
  lane_ordinal :: nat
  causal_parent_id :: "string option"
  source_time :: "source_time_observation option"
  source_step :: "nat option"
  snapshot_unit :: canonical_unit

datatype canonical_unit_event =
    Created canonical_unit_snapshot
  | Advanced canonical_unit_snapshot
  | Completed canonical_unit_snapshot
  | Incomplete canonical_unit_snapshot

fun event_snapshot :: "canonical_unit_event \<Rightarrow> canonical_unit_snapshot" where
  "event_snapshot (Created s) = s"
| "event_snapshot (Advanced s) = s"
| "event_snapshot (Completed s) = s"
| "event_snapshot (Incomplete s) = s"

datatype interpretation_end_kind =
    EndComplete
  | EndCancelled
  | EndTerminated
  | EndTransportFailed
  | EndDialectFailed
  | EndLimitExceeded
  | EndInvariantFailed

record interpretation_end =
  end_interpretation :: string
  end_connection :: string
  end_session :: "string option"
  end_kind :: interpretation_end_kind
  canonical_event_count :: nat
  completed_sentence_count :: nat
  completed_structure_count :: nat
  unresolved_text_bytes :: nat
  source_bytes_consumed :: nat
  safe_diagnostics :: "string list"

datatype interpreter_output_event =
    Unit canonical_unit_event
  | Ended interpretation_end

definition lane_response :: string where
  "lane_response = ''response''"

definition lane_tool :: string where
  "lane_tool = ''tool''"

definition lane_reasoning :: string where
  "lane_reasoning = ''reasoning''"

section \<open>Errors\<close>

datatype interpreter_error_kind =
    UnsupportedDialect
  | DialectBindingMismatch
  | MalformedFrame
  | FrameLimitExceeded
  | UnsupportedSemanticEvent
  | MalformedSemanticPayload
  | SentenceLimitExceeded
  | StructureLimitExceeded
  | ToolIdentityError
  | ToolLimitExceeded
  | OutputBackpressureExceeded
  | ConnectorEndedUnexpectedly
  | Cancelled
  | InvariantViolation
  | ConfigurationInvalid

record interpreter_error =
  error_kind :: interpreter_error_kind
  error_message :: string

definition interpreter_error_new :: "interpreter_error_kind \<Rightarrow> string \<Rightarrow> interpreter_error" where
  "interpreter_error_new k m = \<lparr>error_kind = k, error_message = m\<rparr>"

definition unsupported_dialect :: "string \<Rightarrow> interpreter_error" where
  "unsupported_dialect m = interpreter_error_new UnsupportedDialect m"

definition malformed_frame :: "string \<Rightarrow> interpreter_error" where
  "malformed_frame m = interpreter_error_new MalformedFrame m"

definition limit_error :: "string \<Rightarrow> interpreter_error" where
  "limit_error m = interpreter_error_new FrameLimitExceeded m"

definition backpressure :: interpreter_error where
  "backpressure = interpreter_error_new OutputBackpressureExceeded ''canonical output queue full''"

section \<open>Dialects\<close>

datatype dialect_family =
    OpenAiChatCompletions
  | OpenAiResponses
  | AnthropicMessages
  | Acp
  | CursorAcp
  | AgyAcp
  | CodexAcp
  | ZaiCli
  | ClaudeCode
  | GrokBuild
  | Test
  | Other string

datatype dialect_negotiation = Fixed | Negotiated

record dialect_descriptor =
  family :: dialect_family
  dialect_version :: string
  framing :: string
  dialect_profile :: "string option"

record dialect_binding =
  binding_input :: dialect_descriptor
  binding_output :: dialect_descriptor
  negotiation :: dialect_negotiation

section \<open>Limits\<close>

record interpretation_limits =
  max_undecoded_bytes :: nat
  max_frame_bytes :: nat
  max_sentence_assembly_bytes :: nat
  max_structural_atom_bytes :: nat
  max_pending_tool_actions :: nat
  max_bytes_per_tool_action :: nat
  max_output_queue_items :: nat
  max_safe_diagnostics :: nat

definition default_interpretation_limits :: interpretation_limits where
  "default_interpretation_limits =
     \<lparr>max_undecoded_bytes = 4 * 1024 * 1024,
      max_frame_bytes = 4 * 1024 * 1024,
      max_sentence_assembly_bytes = 256 * 1024,
      max_structural_atom_bytes = 512 * 1024,
      max_pending_tool_actions = 256,
      max_bytes_per_tool_action = 256 * 1024,
      max_output_queue_items = 4096,
      max_safe_diagnostics = 64\<rparr>"

section \<open>Facts\<close>

lemma from_bounds_ordered: "from_bounds f l = Some t \<Longrightarrow> first_ms t \<le> last_ms t"
  by (cases "(f, l)" rule: from_bounds.cases) (auto simp: time_point_def)

end
