(* ===== verification/Acp.thy ===== *)
theory Acp
  imports Json Canonical Chunked
begin

text \<open>
  \<open>crates/monoloop-interpreter/src/acp.rs\<close>: the framing that cuts complete JSON texts out
  of a growing byte buffer, and the mapping of one ACP message to semantic fragments. The
  other dialects map to the same fragments.
\<close>

section \<open>Fragments\<close>

datatype tool_signal =
    Waiting "string option" string
  | RequestReady string string
  | Resolved bool "string option"

datatype acp_fragment =
    TextDelta text_channel string "nat option" "nat option"
  | ToolFragment string tool_signal "nat option" "nat option"
  | ResponseFinishedFragment
  | DiagnosticFragment string

section \<open>Framing\<close>

text \<open>
  The scan of \<open>find_complete_json_end\<close> from index \<open>i\<close>: nesting depth (an \<open>i32\<close> in the
  source, which starts at the first bracket and returns when it is back at zero), whether
  the scan is inside a string, and whether the last byte was an escaping backslash.
\<close>

fun json_scan :: "string \<Rightarrow> nat \<Rightarrow> int \<Rightarrow> bool \<Rightarrow> bool \<Rightarrow> nat option" where
  "json_scan [] i depth in_string escape = None"
| "json_scan (b # bs) i depth in_string escape =
     (if in_string then
        (if escape then json_scan bs (Suc i) depth True False
         else if b = CHR 0x5C then json_scan bs (Suc i) depth True True
         else if b = CHR 0x22 then json_scan bs (Suc i) depth False False
         else json_scan bs (Suc i) depth True False)
      else if b = CHR 0x22 then json_scan bs (Suc i) depth True False
      else if b = CHR ''{'' \<or> b = CHR ''['' then json_scan bs (Suc i) (depth + 1) False False
      else if b = CHR ''}'' \<or> b = CHR '']'' then
        (if depth - 1 = 0 then Some (Suc i) else json_scan bs (Suc i) (depth - 1) False False)
      else json_scan bs (Suc i) depth False False)"

definition find_complete_json_end :: "string \<Rightarrow> nat option" where
  "find_complete_json_end b =
     (case b of
        [] \<Rightarrow> None
      | c # _ \<Rightarrow>
          if c \<noteq> CHR ''{'' \<and> c \<noteq> CHR ''['' then
            map_option Suc (position (\<lambda>x. x = CHR 0x0A) b)
          else json_scan b 0 0 False False)"

lemma json_scan_bounds: "json_scan b i d ins esc = Some e \<Longrightarrow> i < e \<and> e \<le> i + length b"
proof (induction b arbitrary: i d ins esc)
  case Nil
  then show ?case by simp
next
  case (Cons c b)
  then show ?case by (fastforce split: if_splits)
qed

lemma find_complete_json_end_bounds:
  "find_complete_json_end b = Some e \<Longrightarrow> 0 < e \<and> e \<le> length b"
  by (auto simp: find_complete_json_end_def simp del: json_scan.simps
      dest!: position_Some dest: json_scan_bounds split: list.splits if_splits)

text \<open>
  The result of a drain and the buffer it leaves. On a parse error the values already taken
  are dropped with it, and the failing text stays in the buffer.
\<close>

abbreviation skip_ws :: "string \<Rightarrow> string" where
  "skip_ws \<equiv> dropWhile is_ascii_whitespace"

function drain_json_values :: "json_codec \<Rightarrow> string \<Rightarrow> (string, json list) result \<times> string" where
  "drain_json_values codec b =
     (let b1 = skip_ws b
      in if b1 = [] then (Ok [], b1)
         else (case find_complete_json_end b1 of
                 None \<Rightarrow> (Ok [], b1)
               | Some e \<Rightarrow>
                   (case from_slice codec (take e b1) of
                      Inl err \<Rightarrow> (Err (''json parse: '' @ err), b1)
                    | Inr v \<Rightarrow>
                        (case drain_json_values codec (drop e b1) of
                           (Inl err, b2) \<Rightarrow> (Err err, b2)
                         | (Inr vs, b2) \<Rightarrow> (Ok (v # vs), b2)))))"
  by pat_completeness auto
termination
proof (relation "measure (\<lambda>(codec, b). length b)")
  fix b b1 :: string and e and codec :: json_codec
  assume "b1 = skip_ws b" and "find_complete_json_end b1 = Some e"
  moreover have "length (skip_ws b) \<le> length b" by (rule length_dropWhile_le)
  ultimately show "((codec, drop e b1), codec, b) \<in> measure (\<lambda>(codec, b). length b)"
    using find_complete_json_end_bounds [of b1 e] by auto
qed simp

declare drain_json_values.simps [simp del]

section \<open>Mapping one message\<close>

definition from_meta_ts :: "json \<Rightarrow> nat option" where
  "from_meta_ts v =
     Option.bind (Option.bind (jget ''_meta'' v) (jget ''agentTimestampMs'')) as_u64_lenient"

definition extract_agent_timestamp_ms :: "json \<Rightarrow> nat option" where
  "extract_agent_timestamp_ms params =
     or_else (from_meta_ts params)
       (or_else (Option.bind (jget ''update'' params) from_meta_ts)
         (Option.bind (jget ''agentTimestampMs'' params) as_u64_lenient))"

definition step_from :: "json \<Rightarrow> nat option" where
  "step_from v =
     Option.bind (jget ''_meta'' v)
       (\<lambda>m. Option.bind (or_else (jget ''stepIdx'' m) (jget ''step_idx'' m)) as_u64_lenient)"

definition extract_source_step :: "json \<Rightarrow> json \<Rightarrow> nat option" where
  "extract_source_step params upd =
     or_else (step_from upd)
       (or_else (step_from params)
         (or_else (Option.bind (jget ''messageId'' upd) as_u64_lenient)
           (Option.bind (get_str ''messageId'' upd) parse_u64)))"

text \<open>The text of one item of a content array; other items contribute nothing.\<close>

definition content_item_text :: "json \<Rightarrow> string" where
  "content_item_text item =
     (if get_str ''type'' item = Some ''text'' then unwrap_or [] (get_str ''text'' item)
      else unwrap_or [] (as_str item))"

definition extract_text_content :: "json \<Rightarrow> string option" where
  "extract_text_content upd =
     (case get_str ''text'' upd of
        Some s \<Rightarrow> Some s
      | None \<Rightarrow>
          (case jget ''content'' upd of
             None \<Rightarrow> None
           | Some c \<Rightarrow>
               (case as_str c of
                  Some s \<Rightarrow> Some s
                | None \<Rightarrow>
                    (case get_str ''text'' c of
                       Some s \<Rightarrow> Some s
                     | None \<Rightarrow>
                         (case as_array c of
                            None \<Rightarrow> None
                          | Some items \<Rightarrow>
                              (let acc = concat (map content_item_text items)
                               in if acc \<noteq> [] then Some acc else None))))))"

fun is_tool_result_payload :: "json \<Rightarrow> bool" where
  "is_tool_result_payload JNull = False"
| "is_tool_result_payload (JBool _) = True"
| "is_tool_result_payload (JNumber _) = True"
| "is_tool_result_payload (JString s) = (s \<noteq> [])"
| "is_tool_result_payload (JArray vs) = (vs \<noteq> [])"
| "is_tool_result_payload (JObject kvs) = (kvs \<noteq> [])"

definition explicit_terminal :: "string \<Rightarrow> bool" where
  "explicit_terminal status \<longleftrightarrow>
     status \<in> set [''completed'', ''complete'', ''success'', ''failed'', ''failure'', ''error'',
       ''cancelled'', ''canceled'']"

definition explicit_failure :: "string \<Rightarrow> bool" where
  "explicit_failure status \<longleftrightarrow>
     status \<in> set [''failed'', ''failure'', ''error'', ''cancelled'', ''canceled'']"

definition in_progress :: "string \<Rightarrow> bool" where
  "in_progress status \<longleftrightarrow>
     status \<in> set [''pending'', ''in_progress'', ''in-progress'', ''running'', ''started'']"

definition tool_call_id :: "json \<Rightarrow> string" where
  "tool_call_id upd =
     unwrap_or [] (Option.bind (or_else (jget ''toolCallId'' upd)
       (or_else (jget ''tool_call_id'' upd) (jget ''id'' upd))) as_str)"

definition tool_call_name :: "json \<Rightarrow> string option" where
  "tool_call_name upd =
     Option.bind (or_else (jget ''title'' upd) (or_else (jget ''name'' upd) (jget ''toolName'' upd)))
       as_str"

definition tool_call_status :: "json \<Rightarrow> string" where
  "tool_call_status upd = to_ascii_lowercase (unwrap_or [] (get_str ''status'' upd))"

definition tool_call_args :: "json \<Rightarrow> json option" where
  "tool_call_args upd =
     or_else (jget ''rawInput'' upd) (or_else (jget ''arguments'' upd) (jget ''input'' upd))"

definition args_complete :: "json option \<Rightarrow> bool" where
  "args_complete args =
     (case args of None \<Rightarrow> False | Some a \<Rightarrow> is_object a \<or> is_array a \<or> is_string a)"

definition tool_call_result :: "json \<Rightarrow> bool \<Rightarrow> json option" where
  "tool_call_result upd is_update =
     or_else (jget ''rawOutput'' upd)
       (or_else (jget ''result'' upd) (if is_update then jget ''content'' upd else None))"

definition arguments_text :: "json_codec \<Rightarrow> json \<Rightarrow> string" where
  "arguments_text codec a = (case as_str a of Some s \<Rightarrow> s | None \<Rightarrow> to_json_string codec a)"

definition map_tool_call ::
  "json_codec \<Rightarrow> json \<Rightarrow> bool \<Rightarrow> nat option \<Rightarrow> nat option \<Rightarrow> acp_fragment list" where
  "map_tool_call codec upd is_update ms step =
     (let aid = tool_call_id upd;
          name = tool_call_name upd;
          status = tool_call_status upd;
          args = tool_call_args upd;
          result_value = tool_call_result upd is_update;
          has_result = (case result_value of None \<Rightarrow> False | Some v \<Rightarrow> is_tool_result_payload v);
          ready = (case args of
                     Some a \<Rightarrow>
                       if args_complete args then
                         [ToolFragment aid
                            (RequestReady (unwrap_or ''unknown'' name) (arguments_text codec a)) ms step]
                       else []
                   | None \<Rightarrow> [])
      in if aid = [] then [DiagnosticFragment ''tool_call missing toolCallId'']
         else if explicit_terminal status \<or> has_result \<and> \<not> in_progress status then
           ready @
           [ToolFragment aid
              (Resolved (\<not> explicit_failure status) (map_option (to_json_string codec) result_value))
              ms step]
         else if args_complete args then ready
         else
           [ToolFragment aid
              (Waiting name
                 (if is_update then ''tool_call_update incomplete'' else ''complete tool request''))
              ms step])"

definition text_fragment ::
  "text_channel \<Rightarrow> json \<Rightarrow> nat option \<Rightarrow> nat option \<Rightarrow> acp_fragment list" where
  "text_fragment ch upd ms step =
     (case extract_text_content upd of
        Some t \<Rightarrow> if t \<noteq> [] then [TextDelta ch t ms step] else []
      | None \<Rightarrow> [])"

definition update_kind :: "json \<Rightarrow> string" where
  "update_kind upd =
     unwrap_or [] (Option.bind (or_else (jget ''sessionUpdate'' upd) (jget ''type'' upd)) as_str)"

definition thought_is_public :: "json \<Rightarrow> bool" where
  "thought_is_public upd \<longleftrightarrow>
     unwrap_or False (get_bool ''public'' upd) \<or> jget ''summary'' upd \<noteq> None"

definition map_session_update :: "json_codec \<Rightarrow> json \<Rightarrow> acp_fragment list" where
  "map_session_update codec params =
     (let ms = extract_agent_timestamp_ms params;
          upd = unwrap_or params (jget ''update'' params);
          step = extract_source_step params upd;
          kind = update_kind upd
      in if kind \<in> set [''agent_message_chunk'', ''agent_message'', ''message''] then
           text_fragment PublicResponse upd ms step
         else if kind \<in> set [''agent_thought_chunk'', ''agent_thought''] then
           (if thought_is_public upd then text_fragment PublicReasoningSummary upd ms step else [])
         else if kind \<in> set [''tool_call'', ''tool_call_update''] then
           map_tool_call codec upd (kind = ''tool_call_update'') ms step
         else if kind \<in> set [''available_commands_update'', ''current_mode_update'', ''plan'',
             ''user_message_chunk'', ''session_info_update'', ''config_option_update'',
             ''available_commands''] then []
         else if kind \<noteq> [] then [DiagnosticFragment (''unsupported sessionUpdate: '' @ kind)]
         else text_fragment PublicResponse upd ms step)"

definition map_message :: "json_codec \<Rightarrow> json \<Rightarrow> acp_fragment list" where
  "map_message codec v =
     (let meth = unwrap_or [] (get_str ''method'' v)
      in if meth = ''session/update'' then
           (case jget ''params'' v of Some params \<Rightarrow> map_session_update codec params | None \<Rightarrow> [])
         else if meth \<in> set [''cursor/update_todos'', ''cursor/task'', ''cursor/generate_image''] then
           [DiagnosticFragment (''cursor extension notification: '' @ meth)]
         else if jget ''result'' v \<noteq> None \<and> jget ''id'' v \<noteq> None then
           (case Option.bind (jget ''result'' v) (get_str ''stopReason'') of
              Some sr \<Rightarrow>
                if sr \<in> set [''end_turn'', ''max_tokens'', ''cancelled'']
                then [ResponseFinishedFragment] else []
            | None \<Rightarrow> [])
         else [])"

section \<open>Framing facts\<close>

lemma json_scan_append: "json_scan a i d ins esc = Some e \<Longrightarrow> json_scan (a @ t) i d ins esc = Some e"
  by (induction a arbitrary: i d ins esc) (auto split: if_splits)

lemma find_complete_json_end_append:
  "find_complete_json_end a = Some e \<Longrightarrow> find_complete_json_end (a @ t) = Some e"
proof (cases a)
  case (Cons c r)
  moreover assume "find_complete_json_end a = Some e"
  ultimately show ?thesis
    using json_scan_append [of "c # r" 0 0 False False e t] position_append [of _ "c # r" t]
    by (auto simp: find_complete_json_end_def simp del: json_scan.simps position.simps
        split: if_splits)
qed (simp add: find_complete_json_end_def)

lemma skip_ws_idem [simp]: "skip_ws (skip_ws b) = skip_ws b"
  by (simp add: dropWhile_idem)

lemma drain_skip_ws: "drain_json_values codec (skip_ws b) = drain_json_values codec b"
  by (simp add: drain_json_values.simps [of codec b] drain_json_values.simps [of codec "skip_ws b"])

lemma skip_ws_append: "skip_ws b \<noteq> [] \<Longrightarrow> skip_ws (b @ t) = skip_ws b @ t"
  by (auto simp: dropWhile_append dropWhile_eq_Nil_conv)

lemma skip_ws_append_nil: "skip_ws b = [] \<Longrightarrow> skip_ws (b @ t) = skip_ws t"
  by (auto simp: dropWhile_append dropWhile_eq_Nil_conv)

lemma drain_json_values_append:
  "drain_json_values codec (x @ t) =
    (case drain_json_values codec x of
       (Inl err, b) \<Rightarrow> (Err err, b @ t)
     | (Inr vs, b) \<Rightarrow>
         (case drain_json_values codec (b @ t) of
            (Inl err, b2) \<Rightarrow> (Err err, b2)
          | (Inr ws, b2) \<Rightarrow> (Ok (vs @ ws), b2)))"
proof (induction codec x rule: drain_json_values.induct)
  case (1 codec x)
  let ?b = "skip_ws x"
  show ?case
  proof (cases "find_complete_json_end ?b")
    case None
    then have "drain_json_values codec x = (Ok [], ?b)"
      by (simp add: drain_json_values.simps [of codec x] Let_def)
    moreover have "drain_json_values codec (?b @ t) = drain_json_values codec (x @ t)"
    proof (cases "?b = []")
      case True
      then show ?thesis by (metis append_Nil drain_skip_ws skip_ws_append_nil)
    next
      case False
      then show ?thesis by (metis drain_skip_ws skip_ws_append)
    qed
    ultimately show ?thesis by (simp split: prod.splits sum.splits)
  next
    case (Some e)
    then have ne: "?b \<noteq> []" using find_complete_json_end_bounds by fastforce
    have le: "e \<le> length ?b" using find_complete_json_end_bounds [OF Some] by simp
    have xt: "skip_ws (x @ t) = ?b @ t" "find_complete_json_end (?b @ t) = Some e"
      using ne Some by (simp_all add: skip_ws_append find_complete_json_end_append)
    show ?thesis
    proof (cases "from_slice codec (take e ?b)")
      case (Inl err)
      with Some ne le xt show ?thesis
        by (simp add: drain_json_values.simps [of codec x] drain_json_values.simps [of codec "x @ t"] Let_def)
    next
      case (Inr v)
      have ih: "drain_json_values codec (drop e ?b @ t) =
        (case drain_json_values codec (drop e ?b) of
           (Inl err, b) \<Rightarrow> (Err err, b @ t)
         | (Inr vs, b) \<Rightarrow>
             (case drain_json_values codec (b @ t) of
                (Inl err, b2) \<Rightarrow> (Err err, b2)
              | (Inr ws, b2) \<Rightarrow> (Ok (vs @ ws), b2)))"
        using "1.IH" [OF refl ne Some Inr] .
      from Some Inr ne le xt show ?thesis
        by (simp add: drain_json_values.simps [of codec x] drain_json_values.simps [of codec "x @ t"]
            Let_def ih split: prod.splits sum.splits)
    qed
  qed
qed

lemma drain_json_values_rest:
  "drain_json_values codec x = (Ok vs, b) \<Longrightarrow> drain_json_values codec b = (Ok [], b)"
proof (induction codec x arbitrary: vs rule: drain_json_values.induct)
  case (1 codec x)
  let ?b = "skip_ws x"
  show ?case
  proof (cases "find_complete_json_end ?b")
    case None
    with "1.prems" have "b = ?b"
      by (simp add: drain_json_values.simps [of codec x] Let_def split: if_splits)
    with None show ?thesis
      by (simp add: drain_json_values.simps [of codec "skip_ws x"] Let_def)
  next
    case (Some e)
    then have ne: "?b \<noteq> []" using find_complete_json_end_bounds by fastforce
    with Some "1.prems" obtain v vs' where v: "from_slice codec (take e ?b) = Inr v"
      and "drain_json_values codec (drop e ?b) = (Ok vs', b)"
      by (auto simp: drain_json_values.simps [of codec x] Let_def split: sum.splits prod.splits)
    then show ?thesis using "1.IH" [OF refl ne Some v] by blast
  qed
qed

text \<open>The framing as an assembler of the shared contract; failure is \<open>None\<close>.\<close>

definition json_push :: "json_codec \<Rightarrow> (string, char, json) pusher" where
  "json_push codec b chunk =
     (case drain_json_values codec (b @ chunk) of
        (Inr vs, b') \<Rightarrow> Some (vs, b')
      | (Inl _, _) \<Rightarrow> None)"

definition json_idle :: "json_codec \<Rightarrow> string \<Rightarrow> bool" where
  "json_idle codec b \<longleftrightarrow> drain_json_values codec b = (Ok [], b)"

interpretation json_frames: chunked "json_push codec" id id "json_idle codec" for codec
proof unfold_locales
  fix s assume "json_idle codec s"
  then show "json_push codec s [] = Some ([], s)" by (simp add: json_push_def json_idle_def)
next
  fix s s' :: string and a os
  assume "json_push codec s a = Some (os, s')"
  then show "json_idle codec s'"
    by (auto simp: json_push_def json_idle_def split: prod.splits sum.splits
        dest: drain_json_values_rest)
next
  fix s a b :: string
  show "viewed id id (json_push codec s (a @ b)) =
    viewed id id (then_push (json_push codec s a) (\<lambda>s'. json_push codec s' b))"
    using drain_json_values_append [of codec "s @ a" b]
    by (simp add: json_push_def viewed_id split: prod.splits sum.splits)
qed

section \<open>Token trees\<close>

text \<open>
  The bracket structure of a JSON text: single bytes that are neither quotes nor brackets,
  quoted strings, and bracketed groups. Every JSON object or array is the rendering of a
  bracketed group.
\<close>

datatype jtok = Plain char | Quoted string | Nest char "jtok list" char

fun str_ok :: "bool \<Rightarrow> string \<Rightarrow> bool" where
  "str_ok esc [] = (\<not> esc)"
| "str_ok esc (b # bs) =
     (if esc then str_ok False bs
      else if b = CHR 0x5C then str_ok True bs
      else b \<noteq> CHR 0x22 \<and> str_ok False bs)"

definition opens :: "char \<Rightarrow> bool" where
  "opens c \<longleftrightarrow> c = CHR ''{'' \<or> c = CHR ''[''"

definition closes :: "char \<Rightarrow> bool" where
  "closes c \<longleftrightarrow> c = CHR ''}'' \<or> c = CHR '']''"

fun wf_tok :: "jtok \<Rightarrow> bool" where
  "wf_tok (Plain c) = (c \<noteq> CHR 0x22 \<and> \<not> opens c \<and> \<not> closes c)"
| "wf_tok (Quoted s) = str_ok False s"
| "wf_tok (Nest op ts cl) = (opens op \<and> closes cl \<and> list_all wf_tok ts)"

fun render :: "jtok \<Rightarrow> string" where
  "render (Plain c) = [c]"
| "render (Quoted s) = CHR 0x22 # s @ [CHR 0x22]"
| "render (Nest op ts cl) = op # concat (map render ts) @ [cl]"

lemma json_scan_quoted:
  "str_ok esc s \<Longrightarrow>
    json_scan (s @ CHR 0x22 # r) i d True esc = json_scan r (i + length s + 1) d False False"
  by (induction esc s arbitrary: i rule: str_ok.induct) (auto split: if_splits)

lemma bracket_chars [simp]:
  "opens c \<Longrightarrow> c \<noteq> CHR 0x22 \<and> \<not> closes c" "closes c \<Longrightarrow> c \<noteq> CHR 0x22 \<and> \<not> opens c"
  by (auto simp: opens_def closes_def)

lemma json_scan_steps:
  "opens c \<Longrightarrow> json_scan (c # r) i d False False = json_scan r (Suc i) (d + 1) False False"
  "closes c \<Longrightarrow> json_scan (c # r) i d False False =
     (if d - 1 = 0 then Some (Suc i) else json_scan r (Suc i) (d - 1) False False)"
  "wf_tok (Plain c) \<Longrightarrow> json_scan (c # r) i d False False = json_scan r (Suc i) d False False"
  by (auto simp: opens_def closes_def)

lemma json_scan_tok:
  "wf_tok t \<Longrightarrow> 1 \<le> d \<Longrightarrow>
    json_scan (render t @ r) i d False False = json_scan r (i + length (render t)) d False False"
proof (induction t arbitrary: i d r)
  case (Plain c)
  then show ?case using json_scan_steps(3) by simp
next
  case (Quoted s)
  then show ?case by (simp add: json_scan_quoted)
next
  case (Nest op ts cl)
  have inner: "list_all wf_tok ts' \<Longrightarrow> set ts' \<subseteq> set ts \<Longrightarrow> 1 \<le> d' \<Longrightarrow>
    json_scan (concat (map render ts') @ q) j d' False False
      = json_scan q (j + length (concat (map render ts'))) d' False False" for ts' q j d'
  proof (induction ts' arbitrary: j)
    case Nil
    then show ?case by simp
  next
    case (Cons t' ts')
    then show ?case using Nest.IH [of t'] by (simp add: add.assoc)
  qed
  have "json_scan (render (Nest op ts cl) @ r) i d False False
    = json_scan (concat (map render ts) @ cl # r) (Suc i) (d + 1) False False"
    using Nest.prems by (simp add: json_scan_steps(1) del: json_scan.simps)
  also have "\<dots> = json_scan (cl # r) (Suc i + length (concat (map render ts))) (d + 1) False False"
    using Nest.prems by (intro inner) auto
  also have "\<dots> = json_scan r (i + length (render (Nest op ts cl))) d False False"
    using Nest.prems by (simp add: json_scan_steps(2) del: json_scan.simps)
  finally show ?case .
qed

lemma json_scan_toks:
  "list_all wf_tok ts \<Longrightarrow> 1 \<le> d \<Longrightarrow>
    json_scan (concat (map render ts) @ r) i d False False
      = json_scan r (i + length (concat (map render ts))) d False False"
proof (induction ts arbitrary: i)
  case Nil
  then show ?case by simp
next
  case (Cons t ts)
  then show ?case by (simp add: json_scan_tok add.assoc)
qed

lemma find_complete_json_end_render:
  assumes "wf_tok (Nest op ts cl)"
  shows "find_complete_json_end (render (Nest op ts cl) @ r) = Some (length (render (Nest op ts cl)))"
proof -
  let ?body = "concat (map render ts)"
  have "find_complete_json_end (render (Nest op ts cl) @ r)
    = json_scan (op # ?body @ cl # r) 0 0 False False"
    using assms by (auto simp: find_complete_json_end_def opens_def simp del: json_scan.simps)
  also have "\<dots> = json_scan (?body @ cl # r) 1 1 False False"
    using assms by (simp add: json_scan_steps(1) del: json_scan.simps)
  also have "\<dots> = json_scan (cl # r) (1 + length ?body) 1 False False"
    using assms by (intro json_scan_toks) auto
  also have "\<dots> = Some (length (render (Nest op ts cl)))"
    using assms by (simp add: json_scan_steps(2) del: json_scan.simps)
  finally show ?thesis .
qed

text \<open>A message on the wire: white space, then a bracketed group the parser accepts.\<close>

definition wire_message :: "json_codec \<Rightarrow> string \<times> jtok \<times> json \<Rightarrow> bool" where
  "wire_message codec m =
     (case m of (w, t, v) \<Rightarrow>
        list_all is_ascii_whitespace w \<and> wf_tok t \<and>
        (case t of Nest _ _ _ \<Rightarrow> True | _ \<Rightarrow> False) \<and>
        from_slice codec (render t) = Ok v)"

definition wire_text :: "string \<times> jtok \<times> json \<Rightarrow> string" where
  "wire_text m = (case m of (w, t, v) \<Rightarrow> w @ render t)"

lemma drain_wire_message:
  assumes "wire_message codec m"
  shows "drain_json_values codec (wire_text m @ r) =
    (case drain_json_values codec r of
       (Inl err, b) \<Rightarrow> (Err err, b)
     | (Inr vs, b) \<Rightarrow> (Ok (snd (snd m) # vs), b))"
proof -
  obtain w op ts cl v where m: "m = (w, Nest op ts cl, v)"
    using assms by (cases m) (auto simp: wire_message_def split: jtok.splits)
  let ?t = "Nest op ts cl"
  have wf: "wf_tok ?t" and w: "list_all is_ascii_whitespace w"
    and v: "from_slice codec (render ?t) = Inr v"
    using assms m by (auto simp: wire_message_def)
  have "\<not> is_ascii_whitespace op"
    using wf by (auto simp: opens_def is_ascii_whitespace_def byte_def)
  then have "skip_ws (wire_text m @ r) = render ?t @ r"
    using w m by (simp add: wire_text_def list_all_iff dropWhile_append2)
  moreover have "render ?t \<noteq> []" by simp
  moreover have "snd (snd m) = v" using m by simp
  ultimately show ?thesis
    using find_complete_json_end_render [OF wf, of r] v
    by (subst drain_json_values.simps)
      (simp add: Let_def del: render.simps split: prod.splits sum.splits)
qed

lemma drain_wire_messages:
  "list_all (wire_message codec) ms \<Longrightarrow>
    drain_json_values codec (concat (map wire_text ms)) = (Ok (map (\<lambda>m. snd (snd m)) ms), [])"
proof (induction ms)
  case Nil
  then show ?case by (simp add: drain_json_values.simps)
next
  case (Cons m ms)
  then show ?case by (simp add: drain_wire_message)
qed

section \<open>Properties\<close>

text \<open>
  C38. A stream of bracketed JSON messages, separated by white space and cut into chunks in
  any way, is recovered exactly: every message is parsed, in order, and nothing stays in the
  buffer.
\<close>

theorem json_stream_recovered:
  assumes "list_all (wire_message codec) ms" and "concat cs = concat (map wire_text ms)"
  shows "feed (json_push codec) [] cs = Some (map (\<lambda>m. snd (snd m)) ms, [])"
proof -
  have "json_idle codec []" by (simp add: json_idle_def drain_json_values.simps)
  then have "feed (json_push codec) [] cs = json_push codec [] (concat cs)"
    using json_frames.feed_concat [of codec "[]" cs] by (simp add: viewed_id)
  then show ?thesis using assms drain_wire_messages by (simp add: json_push_def)
qed

definition null_codec :: json_codec where
  "null_codec = \<lparr>from_slice = (\<lambda>s. Ok (JString s)), from_str = (\<lambda>s. Some (JString s)),
     to_json_string = (\<lambda>v. ''{}''), to_vec = (\<lambda>v. Some ''{}'')\<rparr>"

theorem json_stream_recovered_witness:
  "feed (json_push null_codec) [] [''{'', ''}  [1'', '']'']
    = Some ([JString ''{}'', JString ''[1]''], [])"
proof -
  let ?ms = "[([], Nest (CHR ''{'') [] (CHR ''}''), JString ''{}''),
     (''  '', Nest (CHR ''['') [Plain (CHR ''1'')] (CHR '']''), JString ''[1]'')]"
  have "list_all (wire_message null_codec) ?ms" by code_simp
  moreover have "concat [''{'', ''}  [1'', '']''] = concat (map wire_text ?ms)"
    by (simp add: wire_text_def)
  ultimately show ?thesis
    using json_stream_recovered [of null_codec ?ms "[''{'', ''}  [1'', '']'']"] by simp
qed

text \<open>
  However the bytes of a connection are cut into chunks, the JSON framing yields the
  same values, the same remainder, and fails on the same streams.
\<close>

theorem json_framing_ignores_chunking:
  assumes "concat cs = concat ds"
  shows "feed (json_push codec) [] cs = feed (json_push codec) [] ds"
proof -
  have "json_idle codec []" by (simp add: json_idle_def drain_json_values.simps)
  from json_frames.chunking_irrelevant [OF this assms] show ?thesis by (simp add: viewed_id)
qed

theorem json_framing_ignores_chunking_witness:
  "feed (json_push null_codec) [] [''{}{'', ''} ''] = feed (json_push null_codec) [] [''{'', ''}{} '']"
  by (rule json_framing_ignores_chunking) simp

text \<open>
  A tool request is reported as ready only with complete arguments, an outcome is
  reported last and never while the status says the call is still running, and a failure
  status is never reported as success.
\<close>

theorem map_tool_call_sound:
  "list_all (\<lambda>f. case f of
       ToolFragment aid (RequestReady n a) _ _ \<Rightarrow>
         aid = tool_call_id upd \<and> aid \<noteq> [] \<and> args_complete (tool_call_args upd) \<and>
         map_option (arguments_text codec) (tool_call_args upd) = Some a
     | ToolFragment aid (Resolved ok r) _ _ \<Rightarrow>
         aid = tool_call_id upd \<and> aid \<noteq> [] \<and> \<not> in_progress (tool_call_status upd) \<and>
         ok = (\<not> explicit_failure (tool_call_status upd)) \<and>
         f = last (map_tool_call codec upd is_update ms step)
     | ToolFragment aid (Waiting n w) _ _ \<Rightarrow>
         aid \<noteq> [] \<and> \<not> args_complete (tool_call_args upd) \<and>
         map_tool_call codec upd is_update ms step = [f]
     | DiagnosticFragment _ \<Rightarrow> tool_call_id upd = []
     | _ \<Rightarrow> False)
   (map_tool_call codec upd is_update ms step)"
proof -
  have "\<not> in_progress s" if "explicit_terminal s" for s
    using that by (auto simp: explicit_terminal_def in_progress_def)
  then show ?thesis
    by (cases "tool_call_args upd") (auto simp: map_tool_call_def Let_def split: option.splits if_splits)
qed

text \<open>
  Private reasoning stays private: an update of a thought kind yields no fragment
  unless it is marked public or carries a summary, and then only text on the reasoning
  channel, never on the public response channel.
\<close>

theorem private_thoughts_suppressed:
  assumes "update_kind (unwrap_or params (jget ''update'' params))
    \<in> {''agent_thought_chunk'', ''agent_thought''}"
  shows "(\<not> thought_is_public (unwrap_or params (jget ''update'' params)) \<longrightarrow>
      map_session_update codec params = [])
    \<and> (\<forall>f\<in>set (map_session_update codec params).
         \<exists>t ms step. f = TextDelta PublicReasoningSummary t ms step)"
  using assms
  by (auto simp: map_session_update_def text_fragment_def Let_def split: option.splits if_splits)

theorem private_thoughts_suppressed_witness:
  "map_session_update null_codec
     (JObject [(''sessionUpdate'', JString ''agent_thought''), (''text'', JString ''secret'')]) = []"
proof -
  let ?p = "JObject [(''sessionUpdate'', JString ''agent_thought''), (''text'', JString ''secret'')]"
  have "update_kind (unwrap_or ?p (jget ''update'' ?p)) \<in> {''agent_thought_chunk'', ''agent_thought''}"
    by code_simp
  moreover have "\<not> thought_is_public (unwrap_or ?p (jget ''update'' ?p))"
    by code_simp
  ultimately show ?thesis using private_thoughts_suppressed by blast
qed

text \<open>
  A negative provider timestamp is not dropped: it wraps to a \<open>u64\<close> near the top of the
  range, far in the future.
\<close>

theorem negative_timestamp_wraps:
  assumes "0 < k" and "k \<le> 2 ^ 63"
  shows "extract_agent_timestamp_ms
      (JObject [(''_meta'', JObject [(''agentTimestampMs'', JNumber (NegInt (- k)))])])
    = Some (nat (2 ^ 64 - k))"
proof -
  have "(- k) mod 2 ^ 64 = (2 ^ 64 - k :: int)"
    using assms by (simp add: zmod_zminus1_eq_if)
  then show ?thesis
    by (simp add: extract_agent_timestamp_ms_def from_meta_ts_def as_u64_lenient_def i64_as_u64_def)
qed

theorem negative_timestamp_wraps_witness:
  "extract_agent_timestamp_ms
      (JObject [(''_meta'', JObject [(''agentTimestampMs'', JNumber (NegInt (-1)))])])
    = Some 18446744073709551615"
  using negative_timestamp_wraps [of 1] by simp

end
