(* ===== verification/Zai_Chat.thy ===== *)
theory Zai_Chat
  imports Acp
begin

text \<open>
  \<open>crates/monoloop-interpreter/src/zai_chat.rs\<close>: newline-delimited framing and the mapping
  of Z.ai chat messages. The framing is the same function, line by line, as the one of
  \<open>claude_stream.rs\<close>.
\<close>

section \<open>Lines\<close>

definition ndjson_line :: "string \<Rightarrow> string list" where
  "ndjson_line line_bytes =
     (let trimmed = trim (from_utf8_lossy line_bytes)
      in if trimmed \<noteq> [] \<and> starts_with trimmed ''{'' then [trimmed] else [])"

function drain_ndjson_lines :: "string \<Rightarrow> string list \<times> string" where
  "drain_ndjson_lines b =
     (case position (\<lambda>c. c = CHR 0x0A) b of
        None \<Rightarrow> ([], b)
      | Some pos \<Rightarrow>
          (let (out, b') = drain_ndjson_lines (drop (Suc pos) b)
           in (ndjson_line (take (Suc pos) b) @ out, b')))"
  by pat_completeness auto
termination
  by (relation "measure length") (auto dest: position_Some)

declare drain_ndjson_lines.simps [simp del]

section \<open>Messages\<close>

definition zai_map_tool_call :: "json_codec \<Rightarrow> json \<Rightarrow> acp_fragment list" where
  "zai_map_tool_call codec call =
     (let aid = unwrap_or [] (get_str ''id'' call);
          func = unwrap_or call (jget ''function'' call);
          name = unwrap_or ''unknown'' (get_str ''name'' func);
          arguments = unwrap_or ''{}'' (map_option (arguments_text codec) (jget ''arguments'' func))
      in if aid = [] then [DiagnosticFragment ''zai_cli: tool_call missing id'']
         else [ToolFragment aid (RequestReady name arguments) None None])"

definition zai_map_tool_result :: "json_codec \<Rightarrow> json \<Rightarrow> acp_fragment list" where
  "zai_map_tool_result codec v =
     (let aid = unwrap_or [] (get_str ''tool_call_id'' v);
          c = unwrap_or [] (map_option (arguments_text codec) (jget ''content'' v));
          success = (\<not> starts_with (to_ascii_lowercase c) ''error'')
      in if aid = [] then [DiagnosticFragment ''zai_cli: tool result missing tool_call_id'']
         else [ToolFragment aid
                 (Resolved success (Some (to_json_string codec (JObject [(''content'', JString c)]))))
                 None None])"

definition zai_map_assistant :: "json_codec \<Rightarrow> json \<Rightarrow> acp_fragment list" where
  "zai_map_assistant codec v =
     (case get_str ''content'' v of
        Some t \<Rightarrow>
          if trim t \<noteq> [] \<and> trim t \<noteq> ''Using tools to help you...''
          then [TextDelta PublicResponse t None None] else []
      | None \<Rightarrow> []) @
     (case get_array ''tool_calls'' v of
        Some calls \<Rightarrow> concat (map (zai_map_tool_call codec) calls)
      | None \<Rightarrow> [])"

definition map_chat_message :: "json_codec \<Rightarrow> json \<Rightarrow> acp_fragment list" where
  "map_chat_message codec v =
     (let role = unwrap_or [] (get_str ''role'' v)
      in if role = ''assistant'' then zai_map_assistant codec v
         else if role = ''tool'' then zai_map_tool_result codec v
         else if role = ''user'' \<or> role = ''system'' then []
         else if role \<noteq> [] then [DiagnosticFragment (''zai_cli: unsupported role '' @ role)]
         else [])"

definition map_chat_message_line :: "json_codec \<Rightarrow> string \<Rightarrow> acp_fragment list" where
  "map_chat_message_line codec line =
     (let l = trim line
      in if l = [] \<or> \<not> starts_with l ''{'' then []
         else (case from_str codec l of
                 None \<Rightarrow> [DiagnosticFragment ''zai_cli: malformed chat JSON line'']
               | Some v \<Rightarrow> map_chat_message codec v))"

section \<open>Framing facts\<close>

lemma drain_ndjson_lines_None:
  "position (\<lambda>c. c = CHR 0x0A) b = None \<Longrightarrow> drain_ndjson_lines b = ([], b)"
  by (simp add: drain_ndjson_lines.simps [of b])

lemma drain_ndjson_lines_Some:
  "position (\<lambda>c. c = CHR 0x0A) b = Some pos \<Longrightarrow>
    drain_ndjson_lines b = (ndjson_line (take (Suc pos) b) @ fst (drain_ndjson_lines (drop (Suc pos) b)),
      snd (drain_ndjson_lines (drop (Suc pos) b)))"
  by (simp add: drain_ndjson_lines.simps [of b] split_beta)

lemma drain_ndjson_lines_append:
  "drain_ndjson_lines (x @ t) =
    (fst (drain_ndjson_lines x) @ fst (drain_ndjson_lines (snd (drain_ndjson_lines x) @ t)),
     snd (drain_ndjson_lines (snd (drain_ndjson_lines x) @ t)))"
proof (induction x rule: drain_ndjson_lines.induct)
  case (1 x)
  show ?case
  proof (cases "position (\<lambda>c. c = CHR 0x0A) x")
    case None
    then show ?thesis by (simp add: drain_ndjson_lines_None)
  next
    case (Some pos)
    then have "position (\<lambda>c. c = CHR 0x0A) (x @ t) = Some pos" by (simp add: position_append)
    moreover have "pos < length x" using Some by (auto dest: position_Some)
    ultimately show ?thesis using Some "1.IH" [OF Some] by (simp add: drain_ndjson_lines_Some)
  qed
qed

lemma drain_ndjson_lines_rest: "position (\<lambda>c. c = CHR 0x0A) (snd (drain_ndjson_lines x)) = None"
proof (induction x rule: drain_ndjson_lines.induct)
  case (1 x)
  then show ?case
    by (cases "position (\<lambda>c. c = CHR 0x0A) x")
      (simp_all add: drain_ndjson_lines_None drain_ndjson_lines_Some)
qed

definition ndjson_push :: "(string, char, string) pusher" where
  "ndjson_push b chunk = Some (drain_ndjson_lines (b @ chunk))"

interpretation ndjson: chunked ndjson_push id id "\<lambda>b. position (\<lambda>c. c = CHR 0x0A) b = None"
proof unfold_locales
  fix s :: string
  assume "position (\<lambda>c. c = CHR 0x0A) s = None"
  then show "ndjson_push s [] = Some ([], s)"
    by (simp add: ndjson_push_def drain_ndjson_lines_None)
next
  fix s s' :: string and a os
  assume "ndjson_push s a = Some (os, s')"
  then show "position (\<lambda>c. c = CHR 0x0A) s' = None"
    using drain_ndjson_lines_rest [of "s @ a"] by (simp add: ndjson_push_def)
next
  fix s a b :: string
  show "viewed id id (ndjson_push s (a @ b)) =
    viewed id id (then_push (ndjson_push s a) (\<lambda>s'. ndjson_push s' b))"
    using drain_ndjson_lines_append [of "s @ a" b]
    by (cases "drain_ndjson_lines (s @ a)") (simp add: ndjson_push_def viewed_id split_beta)
qed

section \<open>Properties\<close>

text \<open>
  Newline-delimited framing does not depend on how the bytes were cut into chunks,
  even inside a UTF-8 sequence: lines are decoded only once they are complete.
\<close>

theorem ndjson_framing_ignores_chunking:
  assumes "concat cs = concat ds"
  shows "feed ndjson_push [] cs = feed ndjson_push [] ds"
  using ndjson.chunking_irrelevant [OF _ assms] by (simp add: viewed_id)

theorem ndjson_framing_ignores_chunking_witness:
  "feed ndjson_push [] [''{a'', ''}'' @ [CHR 0x0A], ''{'']
    = feed ndjson_push [] [''{a}'' @ [CHR 0x0A] @ ''{'']"
  by (rule ndjson_framing_ignores_chunking) simp

text \<open>
  Framing a stream of lines gives back, for every complete line, the trimmed line when it
  can hold a JSON object, and keeps the unfinished last line in the buffer.
\<close>

theorem ndjson_lines_recovered:
  assumes "\<forall>l\<in>set ls. CHR 0x0A \<notin> set l" and "CHR 0x0A \<notin> set r"
  shows "drain_ndjson_lines (concat (map (\<lambda>l. l @ [CHR 0x0A]) ls) @ r)
    = (concat (map (\<lambda>l. ndjson_line (l @ [CHR 0x0A])) ls), r)"
  using assms(1)
proof (induction ls)
  case Nil
  have "position (\<lambda>c. c = CHR 0x0A) r = None" using assms(2) by (auto simp: position_None)
  then show ?case by (simp add: drain_ndjson_lines_None)
next
  case (Cons l ls)
  have "position (\<lambda>c. c = CHR 0x0A) l = None" using Cons.prems by (auto simp: position_None)
  then have "position (\<lambda>c. c = CHR 0x0A)
      ((l @ [CHR 0x0A]) @ concat (map (\<lambda>l. l @ [CHR 0x0A]) ls) @ r) = Some (length l)"
    by (simp add: position_append)
  with Cons show ?case by (simp add: drain_ndjson_lines_Some)
qed

theorem ndjson_lines_recovered_witness:
  "drain_ndjson_lines (''{}'' @ [CHR 0x0A] @ ''x'' @ [CHR 0x0A] @ ''{'') = ([''{}''], ''{'')"
proof -
  have l: "ndjson_line (''{}'' @ [CHR 0x0A]) = [''{}'']" "ndjson_line (''x'' @ [CHR 0x0A]) = []"
    by code_simp+
  show ?thesis
    using ndjson_lines_recovered [of "[''{}'', ''x'']" "''{''"] by (simp add: l [simplified])
qed

end
