(* ===== verification/Claude_Stream.thy ===== *)
theory Claude_Stream
  imports Zai_Chat
begin

text \<open>
  \<open>crates/monoloop-interpreter/src/claude_stream.rs\<close>: the mapping of Claude Code
  \<open>stream-json\<close> events and its own RFC 3339 timestamp parser. The parser's \<open>i64\<close>
  arithmetic is kept at its width: \<open>checked_*\<close> operations return \<open>None\<close> on overflow, and
  the unchecked operations of \<open>days_from_civil\<close> wrap, as they do in a release build (a
  build with overflow checks panics exactly where the wrapped value differs).
\<close>

section \<open>Sixty-four bit arithmetic\<close>

definition in_i64 :: "int \<Rightarrow> bool" where
  "in_i64 x \<longleftrightarrow> - (2 ^ 63) \<le> x \<and> x < 2 ^ 63"

definition wrap64 :: "int \<Rightarrow> int" where
  "wrap64 x = (x + 2 ^ 63) mod 2 ^ 64 - 2 ^ 63"

definition checked :: "int \<Rightarrow> int option" where
  "checked x = (if in_i64 x then Some x else None)"

text \<open>Rust's \<open>/\<close> on signed integers truncates towards zero.\<close>

definition tdiv :: "int \<Rightarrow> int \<Rightarrow> int" where
  "tdiv a b = sgn a * sgn b * (\<bar>a\<bar> div \<bar>b\<bar>)"

section \<open>Timestamps\<close>

definition days_from_civil :: "int \<Rightarrow> int \<Rightarrow> int \<Rightarrow> int option" where
  "days_from_civil y0 m d =
     (if \<not> (1 \<le> m \<and> m \<le> 12) \<or> \<not> (1 \<le> d \<and> d \<le> 31) then None
      else
        (let y = (if m \<le> 2 then wrap64 (y0 - 1) else y0);
             era = tdiv (if y \<ge> 0 then y else wrap64 (y - 399)) 400;
             yoe = wrap64 (y - wrap64 (era * 400));
             mp = (if m > 2 then m - 3 else m + 9);
             doy = tdiv (153 * mp + 2) 5 + d - 1;
             doe = wrap64 (wrap64 (wrap64 (wrap64 (yoe * 365) + tdiv yoe 4) - tdiv yoe 100) + doy)
         in Some (wrap64 (wrap64 (wrap64 (era * 146097) + doe) - 719468))))"

text \<open>
  \<open>f.chars().take(3)\<close> padded on the right to three characters; only ASCII digits can make
  the result parse, so taking bytes or characters gives the same milliseconds.
\<close>

definition frac_ms :: "string option \<Rightarrow> int" where
  "frac_ms frac =
     (case frac of
        None \<Rightarrow> 0
      | Some f \<Rightarrow>
          (let digits = take 3 f
           in unwrap_or 0 (parse_i64 (digits @ replicate (3 - length digits) (CHR ''0'')))))"

definition total_ms :: "int \<Rightarrow> int \<Rightarrow> int \<Rightarrow> int \<Rightarrow> int \<Rightarrow> int option" where
  "total_ms days h mi sec ms =
     Option.bind (checked (days * 86400000)) (\<lambda>t0.
     Option.bind (checked (h * 3600000)) (\<lambda>hm.
     Option.bind (checked (t0 + hm)) (\<lambda>t1.
     Option.bind (checked (mi * 60000)) (\<lambda>mm.
     Option.bind (checked (t1 + mm)) (\<lambda>t2.
     Option.bind (checked (sec * 1000)) (\<lambda>sm.
     Option.bind (checked (t2 + sm)) (\<lambda>t3.
     checked (t3 + ms))))))))"

text \<open>The first three fields of a split, each parsed as \<open>i64\<close>; later fields are ignored.\<close>

definition parse_three :: "char \<Rightarrow> string \<Rightarrow> (int \<times> int \<times> int) option" where
  "parse_three sep s =
     (case split_on sep s of
        a # b # c # _ \<Rightarrow>
          Option.bind (parse_i64 a) (\<lambda>x.
          Option.bind (parse_i64 b) (\<lambda>y.
          Option.bind (parse_i64 c) (\<lambda>z. Some (x, y, z))))
      | _ \<Rightarrow> None)"

definition parse_rfc3339_ms :: "string \<Rightarrow> nat option" where
  "parse_rfc3339_ms s0 =
     (let s = trim s0
      in if s = [] \<or> last s \<noteq> CHR ''Z'' \<or> length s < 20 then None
         else
           Option.bind (split_once (CHR ''T'') (butlast s)) (\<lambda>(date, time).
           Option.bind (parse_three (CHR ''-'') date) (\<lambda>(y, mo, day).
             (let (hms, frac) = (case split_once (CHR ''.'') time of
                                   Some (a, b) \<Rightarrow> (a, Some b)
                                 | None \<Rightarrow> (time, None))
              in Option.bind (parse_three (CHR '':'') hms) (\<lambda>(h, mi, sec).
                 Option.bind (days_from_civil y mo day) (\<lambda>days.
                 Option.bind (total_ms days h mi sec (frac_ms frac)) (\<lambda>t.
                   if t < 0 then None else Some (nat t))))))))"

definition extract_timestamp_ms :: "json \<Rightarrow> nat option" where
  "extract_timestamp_ms v = Option.bind (get_str ''timestamp'' v) parse_rfc3339_ms"

section \<open>Events\<close>

definition message_content :: "json \<Rightarrow> json list" where
  "message_content v =
     unwrap_or [] (Option.bind (Option.bind (jget ''message'' v) (jget ''content'')) as_array)"

definition claude_assistant_block ::
  "json_codec \<Rightarrow> nat option \<Rightarrow> json \<Rightarrow> acp_fragment list" where
  "claude_assistant_block codec ms block =
     (let bty = unwrap_or [] (get_str ''type'' block)
      in if bty = ''text'' then
           (case get_str ''text'' block of
              Some t \<Rightarrow> if t \<noteq> [] then [TextDelta PublicResponse t ms None] else []
            | None \<Rightarrow> [])
         else if bty = ''tool_use'' then
           (let aid = unwrap_or [] (get_str ''id'' block);
                name = unwrap_or ''unknown'' (get_str ''name'' block);
                arguments = unwrap_or ''{}'' (map_option (to_json_string codec) (jget ''input'' block))
            in if aid = [] then [DiagnosticFragment ''claude_code: tool_use missing id'']
               else [ToolFragment aid (RequestReady name arguments) ms None])
         else [])"

definition claude_map_assistant :: "json_codec \<Rightarrow> json \<Rightarrow> nat option \<Rightarrow> acp_fragment list" where
  "claude_map_assistant codec v ms =
     concat (map (claude_assistant_block codec ms) (message_content v))"

definition claude_result_block :: "json_codec \<Rightarrow> nat option \<Rightarrow> json \<Rightarrow> acp_fragment list" where
  "claude_result_block codec ms block =
     (let aid = unwrap_or [] (get_str ''tool_use_id'' block);
          result_content = map_option (arguments_text codec) (jget ''content'' block);
          is_error = unwrap_or False (get_bool ''is_error'' block);
          success = (\<not> is_error \<and>
            unwrap_or True (map_option (\<lambda>s. \<not> starts_with (to_ascii_lowercase s) ''error'') result_content))
      in if get_str ''type'' block \<noteq> Some ''tool_result'' then []
         else if aid = [] then []
         else [ToolFragment aid
                 (Resolved success
                    (map_option (\<lambda>c. to_json_string codec (JObject [(''content'', JString c)])) result_content))
                 ms None])"

definition map_user_tool_results :: "json_codec \<Rightarrow> json \<Rightarrow> nat option \<Rightarrow> acp_fragment list" where
  "map_user_tool_results codec v ms =
     concat (map (claude_result_block codec ms) (message_content v))"

definition map_stream_event :: "json_codec \<Rightarrow> json \<Rightarrow> acp_fragment list" where
  "map_stream_event codec v =
     (let ty = unwrap_or [] (get_str ''type'' v);
          ms = extract_timestamp_ms v
      in if ty = ''assistant'' then claude_map_assistant codec v ms
         else if ty = ''user'' then map_user_tool_results codec v ms
         else if ty = ''result'' then [ResponseFinishedFragment]
         else [])"

definition map_stream_line :: "json_codec \<Rightarrow> string \<Rightarrow> acp_fragment list" where
  "map_stream_line codec line =
     (let l = trim line
      in if l = [] \<or> \<not> starts_with l ''{'' then []
         else (case from_str codec l of
                 None \<Rightarrow> [DiagnosticFragment ''claude_code: malformed stream-json line'']
               | Some v \<Rightarrow> map_stream_event codec v))"

definition claude_drain_ndjson_lines :: "string \<Rightarrow> string list \<times> string" where
  "claude_drain_ndjson_lines b = drain_ndjson_lines b"

section \<open>The civil calendar\<close>

text \<open>
  The reference: days since 1970-01-01 in the proleptic Gregorian calendar, by counting
  the days of whole years, of the months before, and the day of the month.
\<close>

definition leap :: "int \<Rightarrow> bool" where
  "leap y \<longleftrightarrow> y mod 4 = 0 \<and> (y mod 100 \<noteq> 0 \<or> y mod 400 = 0)"

text \<open>Days in the years 1 to \<open>y\<close>, extended to all years.\<close>

definition days_through_year :: "int \<Rightarrow> int" where
  "days_through_year y = 365 * y + y div 4 - y div 100 + y div 400"

definition month_lengths :: "bool \<Rightarrow> int list" where
  "month_lengths l = [31, if l then 29 else 28, 31, 30, 31, 30, 31, 31, 30, 31, 30, 31]"

definition civil_days :: "int \<Rightarrow> int \<Rightarrow> int \<Rightarrow> int" where
  "civil_days y m d =
     days_through_year (y - 1) + sum_list (take (nat (m - 1)) (month_lengths (leap y))) + (d - 1)
       - days_through_year 1969"

lemma wrap64_id: "in_i64 x \<Longrightarrow> wrap64 x = x"
  by (simp add: wrap64_def in_i64_def mod_pos_pos_trivial)

lemma div_pred:
  assumes "0 < (k :: int)"
  shows "y div k - (y - 1) div k = (if y mod k = 0 then 1 else 0)"
proof (cases "y mod k = 0")
  case True
  have "(y - 1) div k = y div k - 1"
  proof (rule int_div_pos_eq)
    show "y - 1 = k * (y div k - 1) + (k - 1)"
      using True mult_div_mod_eq [of k y] by (simp add: algebra_simps)
  qed (use assms in auto)
  with True show ?thesis by simp
next
  case False
  have "(y - 1) div k = y div k"
  proof (rule int_div_pos_eq)
    show "y - 1 = k * (y div k) + (y mod k - 1)"
      using mult_div_mod_eq [of k y] by simp
    show "0 \<le> y mod k - 1" using False assms pos_mod_sign [of k y] by linarith
    show "y mod k - 1 < k" using assms pos_mod_bound [of k y] by linarith
  qed
  with False show ?thesis by simp
qed

lemma days_through_year_step:
  "days_through_year y = days_through_year (y - 1) + (if leap y then 366 else 365)"
proof -
  have "y mod 400 mod 100 = y mod 100" "y mod 100 mod 4 = y mod 4"
    by (rule mod_mod_cancel, simp)+
  then have m: "y mod 400 = 0 \<Longrightarrow> y mod 100 = 0" "y mod 100 = 0 \<Longrightarrow> y mod 4 = 0"
    by (metis mod_0)+
  have sum: "365 * y + a4 - a100 + a400
      = 365 * (y - 1) + b4 - b100 + b400 + (if p \<and> (\<not> q \<or> r) then 366 else 365)"
    if "a4 - b4 = (if p then 1 else 0)" "a100 - b100 = (if q then 1 else 0)"
      "a400 - b400 = (if r then 1 else 0)" "r \<Longrightarrow> q" "q \<Longrightarrow> p"
    for a4 b4 a100 b100 a400 b400 :: int and p q r
    using that by (cases p; cases q; cases r) simp_all
  show ?thesis
    unfolding days_through_year_def leap_def by (rule sum [OF div_pred div_pred div_pred m]) simp_all
qed

lemma days_through_year_era:
  assumes "0 \<le> r" and "r < 400"
  shows "e * 146097 + (r * 365 + r div 4 - r div 100) = days_through_year (400 * e + r)"
proof -
  have "400 * e + r = r + 100 * e * 4" "400 * e + r = r + 4 * e * 100" "400 * e + r = r + e * 400"
    by simp_all
  then have d: "(400 * e + r) div 4 = 100 * e + r div 4" "(400 * e + r) div 100 = 4 * e + r div 100"
    "(400 * e + r) div 400 = e + r div 400"
    by (metis div_mult_self1 zero_neq_numeral)+
  have z: "r div 400 = 0" using assms by (rule div_pos_pos_trivial)
  show ?thesis unfolding days_through_year_def d z by (simp add: algebra_simps)
qed

lemma era_floor: "tdiv (if y \<ge> 0 then y else y - 399) 400 = y div 400"
proof (cases "y \<ge> 0")
  case True
  then show ?thesis by (cases "y = 0") (simp_all add: tdiv_def)
next
  case False
  then have "tdiv (y - 399) 400 = - ((399 - y) div 400)" by (simp add: tdiv_def)
  also have "(399 - y) div 400 = - (y div 400)"
  proof (rule int_div_pos_eq)
    show "399 - y = 400 * (- (y div 400)) + (399 - y mod 400)"
      using mult_div_mod_eq [of 400 y] by linarith
    show "0 \<le> 399 - y mod 400" "399 - y mod 400 < 400"
      using pos_mod_bound [of 400 y] pos_mod_sign [of 400 y] by linarith+
  qed
  finally show ?thesis using False by simp
qed

lemma tdiv_pos: "0 \<le> a \<Longrightarrow> 0 < b \<Longrightarrow> tdiv a b = a div b"
  by (cases "a = 0") (simp_all add: tdiv_def)

text \<open>Within a thousand million million years no step leaves the \<open>i64\<close> range.\<close>

lemma days_from_civil_unwrapped:
  assumes "\<bar>y\<bar> \<le> 10 ^ 15" and "1 \<le> m" "m \<le> 12" and "1 \<le> d" "d \<le> 31"
  shows "days_from_civil y m d =
    Some (days_through_year (if m \<le> 2 then y - 1 else y)
      + ((153 * (if m > 2 then m - 3 else m + 9) + 2) div 5 + d - 1) - 719468)"
proof -
  define y' where "y' = (if m \<le> 2 then y - 1 else y)"
  define e where "e = y' div 400"
  define r where "r = y' mod 400"
  define doy where "doy = (153 * (if m > 2 then m - 3 else m + 9) + 2) div 5 + d - 1"
  have r: "0 \<le> r" "r < 400" and y': "y' = 400 * e + r"
    by (simp_all add: r_def e_def)
  have y: "\<bar>y\<bar> \<le> 1000000000000000" using assms(1) by simp
  have b: "\<bar>y'\<bar> \<le> 1000000000000001" using y by (auto simp: y'_def)
  have e: "\<bar>e\<bar> \<le> 10000000000000" using b r y' by linarith
  have doy: "0 \<le> doy" "doy \<le> 400"
  proof -
    have "0 \<le> (if m > 2 then m - 3 else m + 9)" "(if m > 2 then m - 3 else m + 9) \<le> 11"
      using assms by auto
    then have "0 \<le> (153 * (if m > 2 then m - 3 else m + 9) + 2) div 5"
      "(153 * (if m > 2 then m - 3 else m + 9) + 2) div 5 \<le> 337" by linarith+
    then show "0 \<le> doy" "doy \<le> 400" using assms unfolding doy_def by linarith+
  qed
  have q: "0 \<le> r div 4" "r div 4 \<le> 100" "0 \<le> r div 100" "r div 100 \<le> 4" using r by linarith+
  have w: "wrap64 x = x" if "\<bar>x\<bar> \<le> 2000000000000000000" for x
    using that by (intro wrap64_id) (auto simp: in_i64_def abs_le_iff)
  have y'_eq: "(if m \<le> 2 then wrap64 (y - 1) else y) = y'"
    using y by (simp add: y'_def w)
  have era: "tdiv (if y' \<ge> 0 then y' else wrap64 (y' - 399)) 400 = e"
    using b era_floor [of y'] by (simp add: w e_def split: if_splits)
  have w2: "wrap64 (e * 400) = e * 400" "wrap64 (y' - e * 400) = r" "wrap64 (e * 146097) = e * 146097"
    using e b r by (simp_all add: w y')
  have doe: "wrap64 (wrap64 (wrap64 (wrap64 (r * 365) + tdiv r 4) - tdiv r 100) + doy)
    = r * 365 + r div 4 - r div 100 + doy"
    using r q doy by (simp add: tdiv_pos w)
  have total: "wrap64 (wrap64 (e * 146097 + (r * 365 + r div 4 - r div 100 + doy)) - 719468)
    = e * 146097 + (r * 365 + r div 4 - r div 100 + doy) - 719468"
    using e r q doy by (simp add: w)
  have doy_eq: "tdiv (153 * (if m > 2 then m - 3 else m + 9) + 2) 5 + d - 1 = doy"
    using assms unfolding doy_def by (simp add: tdiv_pos)
  have years: "e * 146097 + (r * 365 + r div 4 - r div 100) = days_through_year y'"
    unfolding y' by (rule days_through_year_era [OF r])
  have "days_from_civil y m d = Some (e * 146097 + (r * 365 + r div 4 - r div 100 + doy) - 719468)"
    unfolding days_from_civil_def Let_def y'_eq era w2 doy_eq doe total using assms by simp
  then show ?thesis using years by (simp add: y'_def doy_def)
qed

section \<open>Properties\<close>

text \<open>
  The timestamp parser's day count is the civil calendar's: for every year up to ten
  to the fifteenth in either direction, it returns the number of days since 1970-01-01.
\<close>

theorem days_from_civil_correct:
  assumes "\<bar>y\<bar> \<le> 10 ^ 15" and "1 \<le> m" "m \<le> 12" and "1 \<le> d" "d \<le> 31"
  shows "days_from_civil y m d = Some (civil_days y m d)"
proof -
  have m: "m = 1 \<or> m = 2 \<or> m = 3 \<or> m = 4 \<or> m = 5 \<or> m = 6 \<or> m = 7 \<or> m = 8 \<or> m = 9 \<or> m = 10
    \<or> m = 11 \<or> m = 12"
    using assms(2,3) by arith
  have c: "days_through_year 1969 = 719162" by (simp add: days_through_year_def)
  show ?thesis
    unfolding days_from_civil_unwrapped [OF assms] civil_days_def c
    using m days_through_year_step [of y]
    by (elim disjE) (auto simp: month_lengths_def numeral_eq_Suc)
qed

theorem days_from_civil_correct_witness:
  "days_from_civil 2026 8 16 = Some (civil_days 2026 8 16)"
  by (rule days_from_civil_correct) simp_all

text \<open>
  For a year the checked arithmetic of the caller would have to reject, the day count
  itself already overflows: the unchecked multiplication wraps and the result is not the
  calendar's.
\<close>

theorem days_from_civil_overflows:
  "days_from_civil (10 ^ 17) 1 1 \<noteq> Some (civil_days (10 ^ 17) 1 1)
    \<and> \<not> in_i64 ((10 ^ 17 - 1) div 400 * 146097)"
  by code_simp

end
