(* ===== verification/Assoc.thy ===== *)
theory Assoc
  imports Prelude
begin

text \<open>
  A \<open>HashMap\<close> as an association list in insertion order: \<open>insert\<close> replaces in place or
  appends, \<open>remove\<close> deletes the entry. Components that iterate over a map take the
  iteration order as an argument, so nothing depends on the order chosen here.
\<close>

text \<open>\<open>HashMap::insert\<close> on the association list: replace in place or append.\<close>

fun assoc_put :: "'k \<Rightarrow> 'v \<Rightarrow> ('k \<times> 'v) list \<Rightarrow> ('k \<times> 'v) list" where
  "assoc_put k v [] = [(k, v)]"
| "assoc_put k v ((k', v') # xs) = (if k' = k then (k, v) # xs else (k', v') # assoc_put k v xs)"

text \<open>\<open>HashMap::remove\<close>.\<close>

definition assoc_del :: "'k \<Rightarrow> ('k \<times> 'v) list \<Rightarrow> ('k \<times> 'v) list" where
  "assoc_del k xs = filter (\<lambda>(k', _). k' \<noteq> k) xs"

lemma assoc_put_all:
  "list_all q xs \<Longrightarrow> q (k, v) \<Longrightarrow> list_all q (assoc_put k v xs)"
  by (induction k v xs rule: assoc_put.induct) auto

lemma map_of_list_all: "map_of xs k = Some v \<Longrightarrow> list_all q xs \<Longrightarrow> q (k, v)"
  by (auto dest!: map_of_SomeD simp: list_all_iff)

lemma assoc_put_twice: "assoc_put k v (assoc_put k w xs) = assoc_put k v xs"
  by (induction k w xs rule: assoc_put.induct) auto

lemma assoc_put_same: "map_of xs k = Some v \<Longrightarrow> assoc_put k v xs = xs"
  by (induction xs) auto

lemma assoc_put_length:
  "length (assoc_put k v xs) = (if map_of xs k = None then Suc (length xs) else length xs)"
  by (induction xs) auto

lemma map_of_assoc_put: "map_of (assoc_put k v xs) k' = (if k' = k then Some v else map_of xs k')"
  by (induction xs) auto

lemma map_of_assoc_del: "map_of (assoc_del k xs) k' = (if k' = k then None else map_of xs k')"
  by (induction xs) (auto simp: assoc_del_def)

lemma assoc_put_keys:
  "map fst (assoc_put k v xs) = (if map_of xs k = None then map fst xs @ [k] else map fst xs)"
  by (induction xs) auto

lemma map_of_fst_None: "map_of xs k = None \<longleftrightarrow> k \<notin> set (map fst xs)"
  by (induction xs) auto

lemma assoc_put_distinct: "distinct (map fst xs) \<Longrightarrow> distinct (map fst (assoc_put k v xs))"
  using map_of_fst_None [of xs k] by (simp add: assoc_put_keys)

lemma assoc_del_distinct: "distinct (map fst xs) \<Longrightarrow> distinct (map fst (assoc_del k xs))"
  unfolding assoc_del_def by (rule distinct_map_filter)

lemma assoc_put_append: "map_of xs k = None \<Longrightarrow> assoc_put k v xs = xs @ [(k, v)]"
  by (induction xs) (auto split: if_splits)

end
