(* ===== verification/OpenAi_Chat.thy ===== *)
theory OpenAi_Chat
  imports Zai_Chat Assoc
begin

text \<open>
  \<open>crates/monoloop-interpreter/src/openai_chat.rs\<close>: the incremental assembler for the
  server-sent events of a streamed chat completion. Its partial tool calls live in a
  \<open>HashMap\<close>; the map is an association list and the unspecified iteration order of
  \<open>keys\<close> and \<open>values\<close> is an argument \<open>ord\<close> that rearranges the keys.
\<close>

section \<open>State\<close>

record partial_tool_call =
  partial_id :: string
  partial_name :: string
  partial_arguments :: string
  emitted_waiting :: bool
  partial_ready :: bool

definition partial_default :: partial_tool_call where
  "partial_default = \<lparr>partial_id = [], partial_name = [], partial_arguments = [],
     emitted_waiting = False, partial_ready = False\<rparr>"

record openai_sse_state =
  line_carry :: string
  event_data_lines :: "string list"
  sse_tools :: "(nat \<times> partial_tool_call) list"
  saw_done :: bool
  choice_index :: nat
  max_line_bytes :: nat
  max_event_bytes :: nat
  max_tool_arg_bytes :: nat

definition openai_new :: "nat \<Rightarrow> nat \<Rightarrow> nat \<Rightarrow> openai_sse_state" where
  "openai_new l e t =
     \<lparr>line_carry = [], event_data_lines = [], sse_tools = [], saw_done = False,
      choice_index = 0, max_line_bytes = max l 64, max_event_bytes = max e 64,
      max_tool_arg_bytes = max t 64\<rparr>"

text \<open>Every fallible step works on the assembler together with the output vector.\<close>

type_synonym sse_run = "openai_sse_state \<times> acp_fragment list"

section \<open>Tool calls\<close>

definition name_opt :: "string \<Rightarrow> string option" where
  "name_opt n = (if n = [] then None else Some n)"

definition is_complete_json_value :: "json_codec \<Rightarrow> string \<Rightarrow> bool" where
  "is_complete_json_value codec s =
     (let t = trim s in t \<noteq> [] \<and> from_str codec t \<noteq> None)"

definition take_identity :: "json \<Rightarrow> partial_tool_call \<Rightarrow> partial_tool_call" where
  "take_identity call entry =
     (let entry = (case get_str ''id'' call of
                     Some i \<Rightarrow> if i \<noteq> [] then entry\<lparr>partial_id := i\<rparr> else entry
                   | None \<Rightarrow> entry)
      in case Option.bind (jget ''function'' call) (get_str ''name'') of
           Some n \<Rightarrow> if n \<noteq> [] then entry\<lparr>partial_name := partial_name entry @ n\<rparr> else entry
         | None \<Rightarrow> entry)"

definition args_exceed :: "nat \<Rightarrow> partial_tool_call \<Rightarrow> string option \<Rightarrow> bool" where
  "args_exceed bound entry args =
     (case args of Some a \<Rightarrow> length (partial_arguments entry) + length a > bound | None \<Rightarrow> False)"

definition ingest_tool_delta :: "json \<Rightarrow> sse_run \<Rightarrow> (interpreter_error, sse_run) outcome" where
  "ingest_tool_delta call r =
     (let (st, out) = r;
          idx = u64_as_u32 (unwrap_or 0 (Option.bind (jget ''index'' call) as_u64));
          entry = take_identity call (unwrap_or partial_default (map_of (sse_tools st) idx));
          st = st\<lparr>sse_tools := assoc_put idx entry (sse_tools st)\<rparr>;
          args = Option.bind (jget ''function'' call) (get_str ''arguments'')
      in if args_exceed (max_tool_arg_bytes st) entry args
         then (Some (interpreter_error_new ToolLimitExceeded ''tool arguments exceed bound''), st, out)
         else
           (let entry = entry\<lparr>partial_arguments := partial_arguments entry @ unwrap_or [] args\<rparr>
            in if partial_id entry \<noteq> [] \<and> \<not> emitted_waiting entry \<and> \<not> partial_ready entry
               then
                 (None,
                  st\<lparr>sse_tools := assoc_put idx (entry\<lparr>emitted_waiting := True\<rparr>) (sse_tools st)\<rparr>,
                  out @ [ToolFragment (partial_id entry)
                           (Waiting (name_opt (partial_name entry)) ''tool arguments'') None None])
               else (None, st\<lparr>sse_tools := assoc_put idx entry (sse_tools st)\<rparr>, out)))"

definition promote_ready :: "json_codec \<Rightarrow> nat \<Rightarrow> sse_run \<Rightarrow> (interpreter_error, sse_run) outcome" where
  "promote_ready codec k r =
     (let (st, out) = r
      in case map_of (sse_tools st) k of
           None \<Rightarrow> (None, st, out)
         | Some entry \<Rightarrow>
             if partial_ready entry then (None, st, out)
             else if partial_id entry = [] \<or> partial_name entry = []
               \<or> \<not> is_complete_json_value codec (partial_arguments entry)
             then (Some (interpreter_error_new MalformedSemanticPayload
                     ''incomplete tool call at tool_calls finish''), st, out)
             else
               (None,
                st\<lparr>sse_tools := assoc_put k (entry\<lparr>partial_ready := True\<rparr>) (sse_tools st)\<rparr>,
                out @ [ToolFragment (partial_id entry)
                         (RequestReady (partial_name entry) (partial_arguments entry)) None None]))"

definition on_finish_reason ::
  "json_codec \<Rightarrow> (nat list \<Rightarrow> nat list) \<Rightarrow> string \<Rightarrow> sse_run \<Rightarrow> (interpreter_error, sse_run) outcome" where
  "on_finish_reason codec ord reason r =
     (if reason = ''tool_calls''
      then for_each (promote_ready codec) (ord (map fst (sse_tools (fst r)))) r
      else if reason = ''stop'' \<or> reason = ''length'' \<or> reason = ''content_filter'' \<or> reason = ''null''
      then (None, r)
      else (Some (interpreter_error_new MalformedSemanticPayload
              (''unsupported finish_reason: '' @ reason)), r))"

section \<open>Events\<close>

definition delta_text :: "json \<Rightarrow> acp_fragment list" where
  "delta_text delta =
     (case get_str ''content'' delta of
        Some c \<Rightarrow> if c \<noteq> [] then [TextDelta PublicResponse c None None] else []
      | None \<Rightarrow> [])"

definition map_choice ::
  "json_codec \<Rightarrow> (nat list \<Rightarrow> nat list) \<Rightarrow> json \<Rightarrow> sse_run \<Rightarrow> (interpreter_error, sse_run) outcome" where
  "map_choice codec ord choice r =
     (if u64_as_u32 (unwrap_or 0 (Option.bind (jget ''index'' choice) as_u64)) \<noteq> choice_index (fst r)
      then (None, r)
      else
        and_then
          (case jget ''delta'' choice of
             None \<Rightarrow> (None, r)
           | Some delta \<Rightarrow>
               for_each ingest_tool_delta (unwrap_or [] (get_array ''tool_calls'' delta))
                 (fst r, snd r @ delta_text delta))
          (\<lambda>r. case get_str ''finish_reason'' choice of
                 None \<Rightarrow> (None, r)
               | Some reason \<Rightarrow> on_finish_reason codec ord reason r))"

definition map_data_json ::
  "json_codec \<Rightarrow> (nat list \<Rightarrow> nat list) \<Rightarrow> string \<Rightarrow> sse_run \<Rightarrow> (interpreter_error, sse_run) outcome" where
  "map_data_json codec ord data r =
     (case from_str codec data of
        None \<Rightarrow> (Some (interpreter_error_new MalformedSemanticPayload ''SSE data is not valid JSON''), r)
      | Some v \<Rightarrow>
          (case get_array ''choices'' v of
             None \<Rightarrow> (None, r)
           | Some choices \<Rightarrow> for_each (map_choice codec ord) choices r))"

definition join_lines :: "string list \<Rightarrow> string" where
  "join_lines ls = (case ls of [] \<Rightarrow> [] | l # ls' \<Rightarrow> l @ concat (map (\<lambda>x. CHR 0x0A # x) ls'))"

definition data_payload :: "string \<Rightarrow> string list" where
  "data_payload line =
     (case strip_prefix ''data:'' line of
        None \<Rightarrow> []
      | Some rest \<Rightarrow> [unwrap_or rest (strip_prefix '' '' rest)])"

definition handle_line ::
  "json_codec \<Rightarrow> (nat list \<Rightarrow> nat list) \<Rightarrow> string \<Rightarrow> sse_run \<Rightarrow> (interpreter_error, sse_run) outcome" where
  "handle_line codec ord line r =
     (let (st, out) = r
      in if line = [] then
           (if event_data_lines st = [] then (None, st, out)
            else
              (let data = join_lines (event_data_lines st);
                   st = st\<lparr>event_data_lines := []\<rparr>
               in if length data > max_event_bytes st
                  then (Some (interpreter_error_new FrameLimitExceeded ''SSE event exceeds bound''), st, out)
                  else if trim data = ''[DONE]'' then (None, st\<lparr>saw_done := True\<rparr>, out)
                  else map_data_json codec ord data (st, out)))
         else if \<not> is_utf8 line
         then (Some (interpreter_error_new MalformedFrame ''SSE line is not valid UTF-8''), st, out)
         else (None, st\<lparr>event_data_lines := event_data_lines st @ data_payload line\<rparr>, out))"

section \<open>Bytes\<close>

definition strip_cr :: "string \<Rightarrow> string" where
  "strip_cr line = (if line \<noteq> [] \<and> last line = CHR 0x0D then butlast line else line)"

definition sse_push_byte ::
  "json_codec \<Rightarrow> (nat list \<Rightarrow> nat list) \<Rightarrow> char \<Rightarrow> sse_run \<Rightarrow> (interpreter_error, sse_run) outcome" where
  "sse_push_byte codec ord b r =
     (let (st, out) = r
      in if b = CHR 0x0A
         then handle_line codec ord (strip_cr (line_carry st)) (st\<lparr>line_carry := []\<rparr>, out)
         else if length (line_carry st) \<ge> max_line_bytes st
         then (Some (interpreter_error_new FrameLimitExceeded ''SSE line exceeds bound''), st, out)
         else (None, st\<lparr>line_carry := line_carry st @ [b]\<rparr>, out))"

definition sse_push_bytes ::
  "json_codec \<Rightarrow> (nat list \<Rightarrow> nat list) \<Rightarrow> string \<Rightarrow> openai_sse_state \<Rightarrow> (interpreter_error, sse_run) outcome" where
  "sse_push_bytes codec ord chunk st =
     (if saw_done st then (None, st, [])
      else case for_each (sse_push_byte codec ord) chunk (st, []) of
             (Some e, st', _) \<Rightarrow> (Some e, st', [])
           | (None, r) \<Rightarrow> (None, r))"

definition incomplete_tool :: "partial_tool_call \<Rightarrow> acp_fragment list" where
  "incomplete_tool p =
     (if \<not> partial_ready p \<and> partial_id p \<noteq> []
      then [ToolFragment (partial_id p)
              (Waiting (name_opt (partial_name p)) ''incomplete tool arguments at stream end'') None None]
      else [])"

definition sse_seal_clean ::
  "json_codec \<Rightarrow> (nat list \<Rightarrow> nat list) \<Rightarrow> openai_sse_state \<Rightarrow> (interpreter_error, sse_run) outcome" where
  "sse_seal_clean codec ord st =
     (let (e, st, _) =
        (if line_carry st \<noteq> []
         then handle_line codec ord (line_carry st) (st\<lparr>line_carry := []\<rparr>, [])
         else (None, st, []))
      in case e of
           Some x \<Rightarrow> (Some x, st, [])
         | None \<Rightarrow>
             if event_data_lines st \<noteq> []
             then (Some (interpreter_error_new MalformedFrame ''incomplete SSE event at end of stream''), st, [])
             else if \<not> saw_done st
             then (Some (interpreter_error_new MalformedFrame ''missing [DONE] terminator''), st, [])
             else
               (None, st,
                concat (map (\<lambda>k. case map_of (sse_tools st) k of Some p \<Rightarrow> incomplete_tool p | None \<Rightarrow> [])
                  (ord (map fst (sse_tools st))))))"

section \<open>What a run adds\<close>

text \<open>A step only appends to the output, and what it does not depend on it.\<close>

definition appends :: "(sse_run \<Rightarrow> (interpreter_error, sse_run) outcome) \<Rightarrow> bool" where
  "appends f \<longleftrightarrow>
     (\<forall>st out. f (st, out) = (fst (f (st, [])), fst (snd (f (st, []))), out @ snd (snd (f (st, [])))))"

lemma appendsI:
  assumes "\<And>st out. f (st, out) = (fst (f (st, [])), fst (snd (f (st, []))), out @ snd (snd (f (st, []))))"
  shows "appends f"
  using assms unfolding appends_def by blast

lemma appendsD:
  "appends f \<Longrightarrow> f (st, out) = (fst (f (st, [])), fst (snd (f (st, []))), out @ snd (snd (f (st, []))))"
  unfolding appends_def by blast

lemma appends_for_each: 
  assumes "\<And>x. appends (f x)"
  shows "appends (for_each f xs)"
proof (rule appendsI)
  fix st :: openai_sse_state and out :: "acp_fragment list"
  show "for_each f xs (st, out) = (fst (for_each f xs (st, [])), fst (snd (for_each f xs (st, []))),
      out @ snd (snd (for_each f xs (st, []))))"
  proof (induction xs arbitrary: st out)
    case Nil
    then show ?case by simp
  next
    case (Cons x xs)
    obtain e st' o' where f: "f x (st, []) = (e, st', o')" by (cases "f x (st, [])") auto
    have "f x (st, out) = (e, st', out @ o')" using appendsD [OF assms, of x st out] f by simp
    then show ?case using f Cons.IH [of st' "out @ o'"] Cons.IH [of st' o'] by (cases e) simp_all
  qed
qed

lemma appends_ingest: "appends (ingest_tool_delta call)"
  by (rule appendsI) (simp add: ingest_tool_delta_def Let_def)

lemma appends_promote: "appends (promote_ready codec k)"
  by (rule appendsI) (auto simp: promote_ready_def split: option.split)

lemma appends_finish: "appends (on_finish_reason codec ord reason)"
  by (rule appendsI)
    (auto simp: on_finish_reason_def intro!: appendsD appends_for_each appends_promote)

lemma appends_return: "appends (\<lambda>r. (None, r))"
  by (rule appendsI) simp

lemma appends_emit:
  assumes "appends f"
  shows "appends (\<lambda>r. f (fst r, snd r @ x))"
proof (rule appendsI)
  fix st :: openai_sse_state and out :: "acp_fragment list"
  show "f (fst (st, out), snd (st, out) @ x) = (fst (f (fst (st, []), snd (st, []) @ x)),
      fst (snd (f (fst (st, []), snd (st, []) @ x))), out @ snd (snd (f (fst (st, []), snd (st, []) @ x))))"
    using appendsD [OF assms, of st "out @ x"] appendsD [OF assms, of st x] by simp
qed

lemma appends_if:
  assumes "appends f" and "appends g"
  shows "appends (\<lambda>r. if p (fst r) then f r else g r)"
proof (rule appendsI)
  fix st :: openai_sse_state and out :: "acp_fragment list"
  show "(if p (fst (st, out)) then f (st, out) else g (st, out)) =
    (fst (if p (fst (st, [])) then f (st, []) else g (st, [])),
     fst (snd (if p (fst (st, [])) then f (st, []) else g (st, []))),
     out @ snd (snd (if p (fst (st, [])) then f (st, []) else g (st, []))))"
    using appendsD [OF assms(1), of st out] appendsD [OF assms(2), of st out] by (cases "p st") simp_all
qed

lemma appends_and_then:
  assumes "appends f" and "appends g"
  shows "appends (\<lambda>r. and_then (f r) g)"
proof (rule appendsI)
  fix st :: openai_sse_state and out :: "acp_fragment list"
  obtain e st' o' where f: "f (st, []) = (e, st', o')" by (cases "f (st, [])") auto
  then have f': "f (st, out) = (e, st', out @ o')" using appendsD [OF assms(1), of st out] by simp
  show "and_then (f (st, out)) g = (fst (and_then (f (st, [])) g), fst (snd (and_then (f (st, [])) g)),
      out @ snd (snd (and_then (f (st, [])) g)))"
    unfolding f f'
    using appendsD [OF assms(2), of st' "out @ o'"] appendsD [OF assms(2), of st' o']
    by (cases e) simp_all
qed

lemma appends_choice: "appends (map_choice codec ord choice)"
proof -
  have "appends (\<lambda>r. case jget ''delta'' choice of None \<Rightarrow> (None, r)
      | Some delta \<Rightarrow> for_each ingest_tool_delta (unwrap_or [] (get_array ''tool_calls'' delta))
                 (fst r, snd r @ delta_text delta))"
    by (cases "jget ''delta'' choice")
      (simp_all add: appends_return appends_emit [OF appends_for_each] appends_ingest)
  moreover have "appends (\<lambda>r. case get_str ''finish_reason'' choice of None \<Rightarrow> (None, r)
      | Some reason \<Rightarrow> on_finish_reason codec ord reason r)"
    by (cases "get_str ''finish_reason'' choice") (simp_all add: appends_return appends_finish)
  ultimately show ?thesis
    unfolding map_choice_def by (intro appends_if appends_return appends_and_then)
qed

lemma appends_data: "appends (map_data_json codec ord data)"
  by (rule appendsI)
    (auto simp: map_data_json_def split: option.split intro!: appendsD appends_for_each appends_choice)

lemma appends_line: "appends (handle_line codec ord line)"
  by (rule appendsI)
    (auto simp: handle_line_def Let_def intro!: appendsD appends_data)

lemma appends_byte: "appends (sse_push_byte codec ord b)"
  by (rule appendsI)
    (auto simp: sse_push_byte_def intro!: appendsD appends_line)

section \<open>Ready requests\<close>

fun is_request_ready :: "acp_fragment \<Rightarrow> bool" where
  "is_request_ready (ToolFragment _ (RequestReady _ _) _ _) = True"
| "is_request_ready _ = False"

fun ready_complete :: "json_codec \<Rightarrow> acp_fragment \<Rightarrow> bool" where
  "ready_complete codec (ToolFragment i (RequestReady n a) _ _) \<longleftrightarrow>
     i \<noteq> [] \<and> n \<noteq> [] \<and> is_complete_json_value codec a"
| "ready_complete codec _ \<longleftrightarrow> True"

definition ready_count :: "openai_sse_state \<Rightarrow> nat" where
  "ready_count st = length (filter (partial_ready \<circ> snd) (sse_tools st))"

definition ready_out :: "acp_fragment list \<Rightarrow> nat" where
  "ready_out out = length (filter is_request_ready out)"

text \<open>
  The run invariant relative to a start \<open>r0\<close>: the bounds hold, every ready request is
  complete, and the output has exactly one ready request for each call that became ready.
\<close>

definition sse_inv :: "openai_sse_state \<Rightarrow> bool" where
  "sse_inv st \<longleftrightarrow>
     length (line_carry st) \<le> max_line_bytes st \<and>
     list_all (\<lambda>l. length l \<le> max_line_bytes st) (event_data_lines st) \<and>
     list_all (\<lambda>(k, p). length (partial_arguments p) \<le> max_tool_arg_bytes st) (sse_tools st)"

definition same_bounds :: "openai_sse_state \<Rightarrow> openai_sse_state \<Rightarrow> bool" where
  "same_bounds st st' \<longleftrightarrow>
     choice_index st' = choice_index st \<and> max_line_bytes st' = max_line_bytes st \<and>
     max_event_bytes st' = max_event_bytes st \<and> max_tool_arg_bytes st' = max_tool_arg_bytes st \<and>
     (saw_done st \<longrightarrow> saw_done st')"

definition run_ok :: "json_codec \<Rightarrow> sse_run \<Rightarrow> sse_run \<Rightarrow> bool" where
  "run_ok codec r r' \<longleftrightarrow>
     same_bounds (fst r) (fst r') \<and>
     (sse_inv (fst r) \<longrightarrow> sse_inv (fst r')) \<and>
     (list_all (ready_complete codec) (snd r) \<longrightarrow> list_all (ready_complete codec) (snd r')) \<and>
     ready_count (fst r') + ready_out (snd r) = ready_count (fst r) + ready_out (snd r')"

lemma run_ok_refl [simp]: "run_ok codec r r"
  by (simp add: run_ok_def same_bounds_def)

lemma run_ok_trans: "run_ok codec r r' \<Longrightarrow> run_ok codec r' r'' \<Longrightarrow> run_ok codec r r''"
  by (auto simp: run_ok_def same_bounds_def)

lemma assoc_put_ready_count:
  "length (filter (partial_ready \<circ> snd) (assoc_put k p xs))
    + (case map_of xs k of Some q \<Rightarrow> if partial_ready q then 1 else 0 | None \<Rightarrow> 0)
    = length (filter (partial_ready \<circ> snd) xs) + (if partial_ready p then 1 else 0)"
  by (induction k p xs rule: assoc_put.induct) (auto split: option.splits)

lemma take_identity_frame [simp, frame_simps]:
  "partial_arguments (take_identity call e) = partial_arguments e"
  "partial_ready (take_identity call e) = partial_ready e"
  "emitted_waiting (take_identity call e) = emitted_waiting e"
  by (auto simp: take_identity_def Let_def split: option.splits)

definition known_ready :: "openai_sse_state \<Rightarrow> nat \<Rightarrow> bool" where
  "known_ready st k \<longleftrightarrow> (case map_of (sse_tools st) k of Some q \<Rightarrow> partial_ready q | None \<Rightarrow> False)"

lemma ready_count_put:
  assumes "partial_ready p = known_ready st k"
  shows "ready_count (st\<lparr>sse_tools := assoc_put k p (sse_tools st)\<rparr>) = ready_count st"
  using assms assoc_put_ready_count [of k p "sse_tools st"]
  by (auto simp: ready_count_def known_ready_def split: option.splits if_splits)

lemma sse_inv_put:
  assumes "sse_inv st" and "length (partial_arguments p) \<le> max_tool_arg_bytes st"
  shows "sse_inv (st\<lparr>sse_tools := assoc_put k p (sse_tools st)\<rparr>)"
  using assms by (auto simp: sse_inv_def intro!: assoc_put_all)

lemma sse_inv_entry:
  assumes "sse_inv st"
  shows "length (partial_arguments (unwrap_or partial_default (map_of (sse_tools st) k))) \<le> max_tool_arg_bytes st"
proof (cases "map_of (sse_tools st) k")
  case None
  then show ?thesis by (simp add: partial_default_def)
next
  case (Some p)
  then show ?thesis
    using assms map_of_list_all [of "sse_tools st" k p "\<lambda>(k, p). length (partial_arguments p) \<le> max_tool_arg_bytes st"]
    by (simp add: sse_inv_def)
qed

lemma run_ok_put:
  assumes "partial_ready p = known_ready st k"
    and "sse_inv st \<Longrightarrow> length (partial_arguments p) \<le> max_tool_arg_bytes st"
    and "list_all (\<lambda>f. \<not> is_request_ready f \<and> ready_complete codec f) new"
  shows "run_ok codec (st, out) (st\<lparr>sse_tools := assoc_put k p (sse_tools st)\<rparr>, out @ new)"
proof -
  have "filter is_request_ready new = []" "list_all (ready_complete codec) new"
    using assms(3) by (auto simp: filter_empty_conv list_all_iff)
  then show ?thesis
    using assms(1,2)
    by (auto simp: run_ok_def same_bounds_def ready_out_def ready_count_put intro: sse_inv_put)
qed

lemma run_ok_ingest [inv_intros]: "run_ok codec r (snd (ingest_tool_delta call r))"
proof (cases r)
  case (Pair st out)
  define k where "k = u64_as_u32 (unwrap_or 0 (Option.bind (jget ''index'' call) as_u64))"
  define e where "e = take_identity call (unwrap_or partial_default (map_of (sse_tools st) k))"
  define args where "args = Option.bind (jget ''function'' call) (get_str ''arguments'')"
  have ready: "partial_ready e = known_ready st k"
    by (auto simp: e_def known_ready_def partial_default_def split: option.split)
  have bound: "length (partial_arguments e) \<le> max_tool_arg_bytes st" if "sse_inv st"
    using sse_inv_entry [OF that] by (simp add: e_def)
  have fits: "length (partial_arguments e @ unwrap_or [] args) \<le> max_tool_arg_bytes st"
    if "sse_inv st" "\<not> args_exceed (max_tool_arg_bytes st) e args"
    using that bound by (auto simp: args_exceed_def split: option.splits)
  note put = run_ok_put [where codec = codec and k = k and st = st and out = out]
  show ?thesis
    unfolding Pair ingest_tool_delta_def
    using put [where p = e and new = "[]"] ready bound fits
      put [where p = "e\<lparr>partial_arguments := partial_arguments e @ unwrap_or [] args\<rparr>" and new = "[]"]
      put [where p = "e\<lparr>partial_arguments := partial_arguments e @ unwrap_or [] args,
          emitted_waiting := True\<rparr>" and new = "[ToolFragment (partial_id e)
                           (Waiting (name_opt (partial_name e)) ''tool arguments'') None None]"]
    by (simp add: Let_def k_def [symmetric] e_def [symmetric] args_def [symmetric] assoc_put_twice)
qed

lemma run_ok_promote [inv_intros]: "run_ok codec r (snd (promote_ready codec k r))"
proof (cases r)
  case (Pair st out)
  show ?thesis
  proof (cases "map_of (sse_tools st) k")
    case None
    then show ?thesis by (simp add: Pair promote_ready_def)
  next
    case (Some p)
    have "ready_count (st\<lparr>sse_tools := assoc_put k (p\<lparr>partial_ready := True\<rparr>) (sse_tools st)\<rparr>)
      = Suc (ready_count st)" if "\<not> partial_ready p"
      using assoc_put_ready_count [of k "p\<lparr>partial_ready := True\<rparr>" "sse_tools st"] Some that
      by (simp add: ready_count_def)
    moreover have "sse_inv st \<Longrightarrow> length (partial_arguments p) \<le> max_tool_arg_bytes st"
      using sse_inv_entry [of st k] Some by simp
    ultimately show ?thesis
      using Some
      by (auto simp: Pair promote_ready_def run_ok_def same_bounds_def ready_out_def intro!: sse_inv_put)
  qed
qed

lemma run_ok_for_each [inv_intros]:
  assumes "\<And>x r. run_ok codec r (snd (f x r))"
  shows "run_ok codec r (snd (for_each f xs r))"
  using assms run_ok_refl run_ok_trans by (rule for_each_rel) 

lemma run_ok_emit_text: "run_ok codec (st, out) (st, out @ delta_text d)"
  by (auto simp: run_ok_def same_bounds_def ready_out_def delta_text_def split: option.split)

lemma run_ok_finish [inv_intros]: "run_ok codec r (snd (on_finish_reason codec ord reason r))"
  unfolding on_finish_reason_def by (simp add: run_ok_for_each run_ok_promote)

lemma run_ok_and_then [inv_intros]:
  assumes "run_ok codec r (snd x)" and "\<And>r. run_ok codec r (snd (k r))"
  shows "run_ok codec r (snd (and_then x k))"
proof -
  obtain eo r' where "x = (eo, r')" by (cases x)
  then show ?thesis using assms run_ok_trans [of codec r r' "snd (k r')"] by (cases eo) simp_all
qed

lemma run_ok_choice [inv_intros]: "run_ok codec r (snd (map_choice codec ord choice r))"
proof -
  have "run_ok codec r (snd (for_each ingest_tool_delta xs (fst r, snd r @ delta_text d)))" for xs d
    using run_ok_trans [OF run_ok_emit_text run_ok_for_each [OF run_ok_ingest]] by (cases r) simp
  then show ?thesis
    unfolding map_choice_def
    by (simp add: run_ok_and_then run_ok_finish split: option.split)
qed

lemma run_ok_data [inv_intros]: "run_ok codec r (snd (map_data_json codec ord data r))"
  by (simp add: map_data_json_def run_ok_for_each run_ok_choice split: option.split)

lemma data_payload_fits: "length line \<le> n \<Longrightarrow> list_all (\<lambda>l. length l \<le> n) (data_payload line)"
  by (auto simp: data_payload_def strip_prefix_def split: option.splits)

lemma strip_cr_fits: "length (strip_cr line) \<le> length line"
  by (simp add: strip_cr_def)

text \<open>The caller takes the carried bytes out of the state before it hands them over as a line.\<close>

lemma run_ok_line [inv_intros]:
  assumes "sse_inv st \<Longrightarrow> length line \<le> max_line_bytes st"
  shows "run_ok codec (st, out) (snd (handle_line codec ord line (st\<lparr>line_carry := []\<rparr>, out)))"
proof -
  note defs = run_ok_def same_bounds_def ready_out_def ready_count_def sse_inv_def
  have c: "run_ok codec (st, out) (st\<lparr>line_carry := []\<rparr>, out)"
    by (auto simp: defs)
  have e: "run_ok codec (st, out) (st\<lparr>line_carry := [], event_data_lines := []\<rparr>, out)"
    by (auto simp: defs)
  have d: "run_ok codec (st, out) (st\<lparr>line_carry := [], event_data_lines := [], saw_done := True\<rparr>, out)"
    by (auto simp: defs)
  have a: "run_ok codec (st, out)
      (st\<lparr>line_carry := [], event_data_lines := event_data_lines st @ data_payload line\<rparr>, out)"
    using assms data_payload_fits [of line "max_line_bytes st"] by (auto simp: defs)
  show ?thesis
    unfolding handle_line_def
    by (auto simp: Let_def c e d a intro: run_ok_trans [OF e run_ok_data])
qed

lemma run_ok_byte [inv_intros]: "run_ok codec r (snd (sse_push_byte codec ord b r))"
proof (cases r)
  case (Pair st out)
  have c: "run_ok codec (st, out) (st\<lparr>line_carry := l\<rparr>, out)"
    if "sse_inv st \<Longrightarrow> length l \<le> max_line_bytes st" for l
    using that by (auto simp: run_ok_def same_bounds_def ready_out_def ready_count_def sse_inv_def)
  have "length (strip_cr (line_carry st)) \<le> max_line_bytes st" if "sse_inv st"
    using that strip_cr_fits [of "line_carry st"] by (simp add: sse_inv_def)
  then show ?thesis
    unfolding Pair sse_push_byte_def by (auto intro: run_ok_line c)
qed

text \<open>
  A chunk that fails is given back as its error alone: the fragments mapped before it are
  dropped, although the assembler keeps the calls it marked ready.
\<close>

definition chunk_ok :: "json_codec \<Rightarrow> sse_run \<Rightarrow> (interpreter_error, sse_run) outcome \<Rightarrow> bool" where
  "chunk_ok codec r x \<longleftrightarrow>
     (let r' = snd x
      in same_bounds (fst r) (fst r') \<and>
         (sse_inv (fst r) \<longrightarrow> sse_inv (fst r')) \<and>
         (list_all (ready_complete codec) (snd r) \<longrightarrow> list_all (ready_complete codec) (snd r')) \<and>
         ready_count (fst r) + ready_out (snd r') \<le> ready_count (fst r') + ready_out (snd r) \<and>
         (fst x = None \<longrightarrow>
            ready_count (fst r) + ready_out (snd r') = ready_count (fst r') + ready_out (snd r)))"

lemma run_ok_chunk: "run_ok codec r (snd x) \<Longrightarrow> chunk_ok codec r x"
  by (simp add: run_ok_def chunk_ok_def Let_def)

lemma chunk_ok_bytes: "chunk_ok codec (st, []) (sse_push_bytes codec ord chunk st)"
proof (cases "saw_done st")
  case True
  then show ?thesis by (simp add: sse_push_bytes_def run_ok_chunk)
next
  case False
  obtain e r' where f: "for_each (sse_push_byte codec ord) chunk (st, []) = (e, r')"
    by (rule prod.exhaust)
  have ok: "run_ok codec (st, []) r'"
    using run_ok_for_each [where f = "sse_push_byte codec ord", OF run_ok_byte, of "(st, [])" chunk] f by simp
  show ?thesis
  proof (cases e)
    case None
    then show ?thesis using False f ok by (simp add: sse_push_bytes_def run_ok_chunk)
  next
    case (Some x)
    then show ?thesis
      using False f ok
      by (cases r') (simp add: sse_push_bytes_def chunk_ok_def run_ok_def ready_out_def)
  qed
qed

lemma seal_ok:
  "same_bounds st (fst (snd (sse_seal_clean codec ord st))) \<and>
   (sse_inv st \<longrightarrow> sse_inv (fst (snd (sse_seal_clean codec ord st))))"
proof -
  have "run_ok codec (st, []) (snd (handle_line codec ord (line_carry st) (st\<lparr>line_carry := []\<rparr>, [])))"
    by (intro run_ok_line) (simp add: sse_inv_def)
  then show ?thesis
    by (auto simp: sse_seal_clean_def run_ok_def same_bounds_def split: prod.split option.split)
qed

section \<open>The assembler as a chunked pusher\<close>

text \<open>
  \<open>sse_bytes\<close> is the byte loop of \<open>push_bytes\<close> alone; \<open>sse_pusher\<close> has the entry guard on
  \<open>saw_done\<close> too.
\<close>

definition as_pusher :: "(interpreter_error, sse_run) outcome \<Rightarrow> (acp_fragment list \<times> openai_sse_state) option" where
  "as_pusher x = (case x of (None, st, out) \<Rightarrow> Some (out, st) | (Some e, _) \<Rightarrow> None)"

definition sse_bytes ::
  "json_codec \<Rightarrow> (nat list \<Rightarrow> nat list) \<Rightarrow> (openai_sse_state, char, acp_fragment) pusher" where
  "sse_bytes codec ord st chunk = as_pusher (for_each (sse_push_byte codec ord) chunk (st, []))"

definition sse_pusher ::
  "json_codec \<Rightarrow> (nat list \<Rightarrow> nat list) \<Rightarrow> (openai_sse_state, char, acp_fragment) pusher" where
  "sse_pusher codec ord st chunk = as_pusher (sse_push_bytes codec ord chunk st)"

lemma as_pusher_simps [simp]:
  "as_pusher (None, st, out) = Some (out, st)"
  "as_pusher (Some e, r) = None"
  by (simp_all add: as_pusher_def)

lemma sse_bytes_append:
  "sse_bytes codec ord st (a @ b) = then_push (sse_bytes codec ord st a) (\<lambda>st'. sse_bytes codec ord st' b)"
proof -
  let ?f = "for_each (sse_push_byte codec ord)"
  obtain e st' o' where a: "?f a (st, []) = (e, st', o')" by (cases "?f a (st, [])") auto
  obtain e2 st2 o2 where b: "?f b (st', []) = (e2, st2, o2)" by (cases "?f b (st', [])") auto
  have "?f b (st', o') = (e2, st2, o' @ o2)"
    using appendsD [OF appends_for_each [where f = "sse_push_byte codec ord"], of b st' o'] b
    by (simp add: appends_byte)
  then show ?thesis
    using a b by (cases e; cases e2) (simp_all add: sse_bytes_def for_each_append)
qed

interpretation sse: chunked "sse_bytes codec ord" id id "\<lambda>_. True" for codec ord
  by unfold_locales (simp_all add: sse_bytes_append sse_bytes_def [where chunk = "[]"])

lemma sse_bytes_done: "sse_bytes codec ord st c = Some (out, st') \<Longrightarrow> saw_done st \<Longrightarrow> saw_done st'"
  using run_ok_for_each [where f = "sse_push_byte codec ord", OF run_ok_byte, of "(st, [])" c]
  by (auto simp: sse_bytes_def as_pusher_def run_ok_def same_bounds_def split: option.splits prod.splits)

lemma feed_sse_done: "feed (sse_bytes codec ord) st cs = Some (out, st') \<Longrightarrow> saw_done st \<Longrightarrow> saw_done st'"
proof (induction cs arbitrary: st out)
  case Nil
  then show ?case by simp
next
  case (Cons c cs)
  then show ?case
    by (cases "sse_bytes codec ord st c") (auto dest!: sse_bytes_done)
qed

lemma feed_sse_pusher:
  assumes "feed (sse_bytes codec ord) st cs = Some (out, st')" and "\<not> saw_done st'"
  shows "feed (sse_pusher codec ord) st cs = Some (out, st')"
  using assms(1)
proof (induction cs arbitrary: st out)
  case Nil
  then show ?case by simp
next
  case (Cons c cs)
  then obtain o1 s1 o2 where c: "sse_bytes codec ord st c = Some (o1, s1)"
    and r: "feed (sse_bytes codec ord) s1 cs = Some (o2, st')" and out: "out = o1 @ o2"
    by (cases "sse_bytes codec ord st c") auto
  have "\<not> saw_done st" using feed_sse_done [OF Cons.prems] assms(2) by blast
  then have "sse_pusher codec ord st c = Some (o1, s1)"
    using c by (auto simp: sse_pusher_def sse_bytes_def sse_push_bytes_def split: prod.split option.split)
  with Cons.IH [OF r] out show ?case by simp
qed

text \<open>The states and fragments of a whole stream of chunks, up to the first error.\<close>

definition sse_stream ::
  "json_codec \<Rightarrow> (nat list \<Rightarrow> nat list) \<Rightarrow> string list \<Rightarrow> sse_run \<Rightarrow> (interpreter_error, sse_run) outcome" where
  "sse_stream codec ord =
     for_each (\<lambda>c (st, out). case sse_push_bytes codec ord c st of (e, st', o') \<Rightarrow> (e, st', out @ o'))"

lemma chunk_ok_step:
  "chunk_ok codec r (case r of (st, out) \<Rightarrow> case sse_push_bytes codec ord c st of (e, st', o') \<Rightarrow> (e, st', out @ o'))"
proof -
  obtain st out where r: "r = (st, out)" by (cases r)
  obtain e st' o' where p: "sse_push_bytes codec ord c st = (e, st', o')"
    by (cases "sse_push_bytes codec ord c st") auto
  show ?thesis
    using chunk_ok_bytes [of codec st ord c] unfolding r
    by (auto simp: p chunk_ok_def Let_def ready_out_def)
qed

lemma chunk_ok_trans:
  assumes "chunk_ok codec r (None, r')" and "chunk_ok codec r' x"
  shows "chunk_ok codec r x"
  using assms by (auto simp: chunk_ok_def same_bounds_def Let_def)

lemma chunk_ok_stream: "chunk_ok codec r (sse_stream codec ord cs r)"
proof (induction cs arbitrary: r)
  case Nil
  then show ?case by (simp add: sse_stream_def run_ok_chunk)
next
  case (Cons c cs)
  obtain e r' where p: "(case r of (st, out) \<Rightarrow>
      case sse_push_bytes codec ord c st of (e, st', o') \<Rightarrow> (e, st', out @ o')) = (e, r')"
    by (rule prod.exhaust)
  have ok: "chunk_ok codec r (e, r')" using chunk_ok_step [of codec r ord c] p by simp
  show ?case
  proof (cases e)
    case None
    then show ?thesis
      using chunk_ok_trans [OF _ Cons.IH [of r']] ok p by (simp add: sse_stream_def)
  next
    case (Some x)
    then show ?thesis using ok p by (simp add: sse_stream_def)
  qed
qed

section \<open>Properties\<close>





text \<open>
  The assembler's memory is bounded by its limits whatever the provider sends: neither the
  unfinished line nor the accumulated arguments of any tool call outgrow their bounds.
\<close>

theorem sse_buffers_bounded:
  "case sse_stream codec ord cs (openai_new l e t, []) of
     (_, st, _) \<Rightarrow> length (line_carry st) \<le> max l 64 \<and>
       list_all (\<lambda>(_, p). length (partial_arguments p) \<le> max t 64) (sse_tools st)"
proof -
  have "sse_inv (openai_new l e t)" by (simp add: sse_inv_def openai_new_def)
  then show ?thesis
    using chunk_ok_stream [of codec "(openai_new l e t, [])" ord cs]
    by (auto simp: chunk_ok_def Let_def same_bounds_def sse_inv_def openai_new_def split: prod.splits)
qed

text \<open>
  The data lines of an unfinished event are not bounded together: only a blank line compares
  them with \<open>max_event_bytes\<close>, so a provider that never sends one makes the assembler hold as
  many lines as it likes, each within the line bound.
\<close>

definition data_line :: string where
  "data_line = ''data:x'' @ [CHR 0x0A]"

lemma data_line_pushed:
  assumes "line_carry st = []" and "\<not> saw_done st" and "6 \<le> max_line_bytes st"
  shows "sse_pusher codec ord st data_line
    = Some ([], st\<lparr>event_data_lines := event_data_lines st @ [''x'']\<rparr>)"
proof -
  have "is_utf8 ''data:x''" "data_payload ''data:x'' = [''x'']" by code_simp+
  then show ?thesis
    using assms
    by (simp add: sse_pusher_def sse_push_bytes_def data_line_def sse_push_byte_def handle_line_def
        strip_cr_def)
qed

lemma pending_lines_unbounded:
  "feed (sse_pusher codec ord) (openai_new l e t) (replicate n data_line)
     = Some ([], (openai_new l e t)\<lparr>event_data_lines := replicate n ''x''\<rparr>)"
proof -
  have "feed (sse_pusher codec ord) st (replicate n data_line)
      = Some ([], st\<lparr>event_data_lines := event_data_lines st @ replicate n ''x''\<rparr>)"
    if "line_carry st = []" "\<not> saw_done st" "6 \<le> max_line_bytes st" for st
    using that
  proof (induction n arbitrary: st)
    case (Suc n)
    then show ?case by (simp add: data_line_pushed)
  qed simp
  then show ?thesis by (simp add: openai_new_def)
qed

text \<open>
  As long as the stream has not announced its end, chunk boundaries carry no meaning: two
  ways to cut the same bytes give the same fragments and the same state.
\<close>

theorem sse_ignores_chunking:
  assumes "concat cs = concat ds"
    and "feed (sse_bytes codec ord) st cs = Some (out, st')" and "\<not> saw_done st'"
  shows "feed (sse_pusher codec ord) st ds = Some (out, st')"
proof (rule feed_sse_pusher [OF _ assms(3)])
  show "feed (sse_bytes codec ord) st ds = Some (out, st')"
    using sse.chunking_irrelevant [OF _ assms(1), of codec ord st] assms(2) by (simp add: viewed_id)
qed

definition hello_codec :: json_codec where
  "hello_codec =
     \<lparr>from_slice = (\<lambda>_. Err []),
      from_str = (\<lambda>_. Some (JObject [(''choices'', JArray [JObject [(''delta'',
        JObject [(''content'', JString ''hi'')])]])])),
      to_json_string = (\<lambda>_. []), to_vec = (\<lambda>_. Some [])\<rparr>"

definition hello_event :: string where
  "hello_event = ''data: {}'' @ [CHR 0x0A, CHR 0x0A]"

definition done_event :: string where
  "done_event = ''data: [DONE]'' @ [CHR 0x0A, CHR 0x0A]"

theorem sse_ignores_chunking_witness:
  "\<exists>st. feed (sse_pusher hello_codec id) (openai_new 0 0 0) [''da'', drop 2 hello_event]
    = Some ([TextDelta PublicResponse ''hi'' None None], st)"
proof -
  have "map_option (\<lambda>(out, st). (out, saw_done st)) (feed (sse_bytes hello_codec id) (openai_new 0 0 0) [hello_event])
    = Some ([TextDelta PublicResponse ''hi'' None None], False)"
    by code_simp
  then obtain st where "feed (sse_bytes hello_codec id) (openai_new 0 0 0) [hello_event]
      = Some ([TextDelta PublicResponse ''hi'' None None], st)" "\<not> saw_done st"
    by auto
  moreover have "concat [hello_event] = concat [''da'', drop 2 hello_event]"
    by (simp add: hello_event_def)
  ultimately show ?thesis using sse_ignores_chunking by blast
qed

text \<open>
  After the end marker chunk boundaries do carry meaning: an event behind \<open>[DONE]\<close> in
  the same chunk is still mapped, while the same bytes in a chunk of their own are ignored.
\<close>

theorem done_marker_depends_on_chunking:
  "map_option fst (feed (sse_pusher hello_codec id) (openai_new 0 0 0) [done_event @ hello_event])
     = Some [TextDelta PublicResponse ''hi'' None None] \<and>
   map_option fst (feed (sse_pusher hello_codec id) (openai_new 0 0 0) [done_event, hello_event]) = Some []"
  by code_simp

text \<open>
  A clean end is accepted exactly when the end marker was seen, no event is pending and the
  unfinished last line is not data; and sealing never releases a tool request.
\<close>

theorem sse_seal_accepts:
  "(fst (sse_seal_clean codec ord st) = None \<longleftrightarrow>
     saw_done st \<and> event_data_lines st = [] \<and> is_utf8 (line_carry st) \<and> data_payload (line_carry st) = []) \<and>
   \<not> list_ex is_request_ready (snd (snd (sse_seal_clean codec ord st)))"
proof -
  have "\<not> is_request_ready f" if "f \<in> set (incomplete_tool p)" for f p
    using that by (auto simp: incomplete_tool_def split: if_splits)
  moreover have "is_utf8 []" "data_payload [] = []"
    by (code_simp, simp add: data_payload_def strip_prefix_def starts_with_iff)
  ultimately show ?thesis
    by (auto simp: sse_seal_clean_def handle_line_def Let_def list_ex_iff split: option.splits if_splits)
qed

end
