(* ===== verification/Engine.thy ===== *)
theory Engine
  imports Sentence Claude_Stream OpenAi_Chat
begin

text \<open>
  \<open>crates/monoloop-interpreter/src/engine.rs\<close>, \<open>stream.rs\<close> and \<open>factory.rs\<close>: one
  interpretation. The owner task reads input commands one at a time, frames and maps the
  bytes, assembles sentences and tool actions, and publishes canonical events; it ends with
  exactly one report. The task is a function of the list of commands it receives. A
  \<open>HashMap\<close> is an association list in insertion order, and the unspecified iteration order
  is an argument that rearranges the keys. Sending to the bounded event channel waits for
  room, so it fails only once the receiver is gone: the publisher records how many sends the
  receiver will still take (\<open>None\<close>: it stays).
\<close>

section \<open>What the task does not decide\<close>

record engine_env =
  env_codec :: json_codec
  channel_order :: "text_channel list \<Rightarrow> text_channel list"
  tool_order :: "string list \<Rightarrow> string list"
  index_order :: "nat list \<Rightarrow> nat list"
  debug_str :: "string \<Rightarrow> string"

section \<open>Publishing\<close>

record event_publisher =
  sent :: "interpreter_output_event list"
  publish_count :: nat
  receiver_takes :: "nat option"

definition publisher_new :: "nat option \<Rightarrow> event_publisher" where
  "publisher_new takes = \<lparr>sent = [], publish_count = 0, receiver_takes = takes\<rparr>"

definition publish ::
  "interpreter_output_event \<Rightarrow> event_publisher \<Rightarrow> (interpreter_error, event_publisher) outcome" where
  "publish ev p =
     (if receiver_takes p = Some 0 then (Some backpressure, p)
      else (None, p\<lparr>sent := sent p @ [ev], publish_count := publish_count p + 1,
        receiver_takes := map_option (\<lambda>n. n - 1) (receiver_takes p)\<rparr>))"

section \<open>Channel assembly\<close>

type_synonym span = "nat \<times> nat option \<times> nat option"

record channel_assembly =
  segmenter :: sentence_segmenter
  spans :: "span list"

definition assembly_default :: channel_assembly where
  "assembly_default = \<lparr>segmenter = segmenter_new, spans = []\<rparr>"

record sentence_source_meta =
  meta_time :: "source_time_observation option"
  meta_step :: "nat option"

definition note_min :: "nat option \<Rightarrow> nat option \<Rightarrow> nat option" where
  "note_min acc x =
     (case x of None \<Rightarrow> acc | Some v \<Rightarrow> Some (case acc of None \<Rightarrow> v | Some a \<Rightarrow> min a v))"

definition note_max :: "nat option \<Rightarrow> nat option \<Rightarrow> nat option" where
  "note_max acc x =
     (case x of None \<Rightarrow> acc | Some v \<Rightarrow> Some (case acc of None \<Rightarrow> v | Some a \<Rightarrow> max a v))"

text \<open>
  The loop over the front spans: \<open>seen\<close> and \<open>remaining\<close> as in the source, \<open>(f, l, s)\<close> the
  running \<open>first\<close>, \<open>last\<close> and \<open>step_min\<close>. A span that is not used up ends the loop,
  because then \<open>remaining\<close> is zero.
\<close>

fun take_spans_loop ::
  "nat \<Rightarrow> nat \<Rightarrow> nat \<Rightarrow> nat option \<times> nat option \<times> nat option \<Rightarrow> span list
    \<Rightarrow> (nat option \<times> nat option \<times> nat option) \<times> span list" where
  "take_spans_loop cb seen remaining acc [] = (acc, [])"
| "take_spans_loop cb seen remaining (f, l, s) ((len, t, step) # rest) =
     (if remaining = 0 then ((f, l, s), (len, t, step) # rest)
      else
        (let tk = min len remaining;
             content_take = (if seen < cb then min tk (cb - seen) else 0);
             acc = (if content_take > 0 then (note_min f t, note_max l t, note_min s step) else (f, l, s))
         in if len - tk = 0
            then take_spans_loop cb (seen + tk) (remaining - tk) acc rest
            else (acc, (len - tk, t, step) # rest)))"

definition take_spans :: "nat \<Rightarrow> nat \<Rightarrow> channel_assembly \<Rightarrow> sentence_source_meta \<times> channel_assembly" where
  "take_spans cb consumed asm =
     (let ((f, l, s), rest) = take_spans_loop cb 0 consumed (None, None, None) (spans asm)
      in (\<lparr>meta_time = from_bounds f l, meta_step = s\<rparr>, asm\<lparr>spans := rest\<rparr>))"

fun attribute_spans ::
  "completed_sentence list \<Rightarrow> channel_assembly \<Rightarrow> (string \<times> sentence_source_meta) list \<times> channel_assembly" where
  "attribute_spans [] asm = ([], asm)"
| "attribute_spans (c # cs) asm =
     (let (meta, asm) = take_spans (content_bytes c) (bytes_consumed c) asm;
          (out, asm) = attribute_spans cs asm
      in ((content c, meta) # out, asm))"

definition assembly_push ::
  "string \<Rightarrow> nat option \<Rightarrow> nat option \<Rightarrow> channel_assembly
    \<Rightarrow> (string \<times> sentence_source_meta) list \<times> channel_assembly" where
  "assembly_push text t step asm =
     (let asm = (if text \<noteq> [] then asm\<lparr>spans := spans asm @ [(length text, t, step)]\<rparr> else asm);
          (completed, seg) = push text (segmenter asm)
      in attribute_spans completed (asm\<lparr>segmenter := seg\<rparr>))"

definition assembly_seal ::
  "channel_assembly \<Rightarrow> (string \<times> sentence_source_meta) list \<times> channel_assembly" where
  "assembly_seal asm =
     (let (completed, seg) = seal_at_clean_end (segmenter asm)
      in attribute_spans completed (asm\<lparr>segmenter := seg\<rparr>))"

definition assembly_take_unresolved :: "channel_assembly \<Rightarrow> string \<times> channel_assembly" where
  "assembly_take_unresolved asm =
     (let (unresolved, seg) = take_unresolved (segmenter asm)
      in (unresolved, asm\<lparr>spans := [], segmenter := seg\<rparr>))"

section \<open>Tool assembly\<close>

record tool_assembler =
  ta_action_id :: string
  ta_unit_id :: string
  ta_generation :: nat
  ta_name :: "string option"
  ta_request_state :: tool_request_state
  ta_execution_state :: tool_execution_state
  ta_result_state :: tool_result_state
  ta_request_payload :: "string option"
  ta_result_payload :: "string option"
  ta_terminal :: "tool_terminal_outcome option"
  ta_waiting_for :: "string option"
  ta_first_ms :: "nat option"
  ta_last_ms :: "nat option"
  ta_first_step :: "nat option"

definition tool_assembler_new :: "string \<Rightarrow> tool_assembler" where
  "tool_assembler_new aid =
     \<lparr>ta_action_id = aid, ta_unit_id = ''tool-'' @ aid, ta_generation = 0, ta_name = None,
      ta_request_state = ReqAssembling, ta_execution_state = ExecNotObserved,
      ta_result_state = ResAbsent, ta_request_payload = None, ta_result_payload = None,
      ta_terminal = None, ta_waiting_for = None, ta_first_ms = None, ta_last_ms = None,
      ta_first_step = None\<rparr>"

definition note_time :: "nat option \<Rightarrow> tool_assembler \<Rightarrow> tool_assembler" where
  "note_time t tool =
     tool\<lparr>ta_first_ms := note_min (ta_first_ms tool) t, ta_last_ms := note_max (ta_last_ms tool) t\<rparr>"

definition note_step :: "nat option \<Rightarrow> tool_assembler \<Rightarrow> tool_assembler" where
  "note_step s tool = tool\<lparr>ta_first_step := note_min (ta_first_step tool) s\<rparr>"

definition tool_source_time :: "tool_assembler \<Rightarrow> source_time_observation option" where
  "tool_source_time tool = from_bounds (ta_first_ms tool) (ta_last_ms tool)"

section \<open>The owner\<close>

record start_interpretation =
  req_interpretation_id :: string
  req_connection_id :: string
  req_session_id :: "string option"
  req_dialect :: dialect_binding
  req_limits :: interpretation_limits

record owner =
  own_request :: start_interpretation
  own_pub :: event_publisher
  channels :: "(text_channel \<times> channel_assembly) list"
  own_tools :: "(string \<times> tool_assembler) list"
  lane_ordinals :: "(string \<times> nat) list"
  next_unit :: nat
  sentence_count :: nat
  structure_count :: nat
  source_bytes :: nat
  frame_buf :: string
  ended :: bool
  diagnostics :: "string list"
  response_started :: bool
  unresolved_bytes_at_end :: nat
  openai :: openai_sse_state

type_synonym owner_step = "owner \<Rightarrow> (interpreter_error, owner) outcome"

definition own_limits :: "owner \<Rightarrow> interpretation_limits" where
  "own_limits ow = req_limits (own_request ow)"

definition owner_new :: "start_interpretation \<Rightarrow> nat option \<Rightarrow> owner" where
  "owner_new req takes =
     \<lparr>own_request = req, own_pub = publisher_new takes, channels = [], own_tools = [],
      lane_ordinals = [], next_unit = 1, sentence_count = 0, structure_count = 0,
      source_bytes = 0, frame_buf = [], ended = False, diagnostics = [],
      response_started = False, unresolved_bytes_at_end = 0,
      openai = openai_new (min (max_frame_bytes (req_limits req)) (64 * 1024))
        (max_frame_bytes (req_limits req)) (max_bytes_per_tool_action (req_limits req))\<rparr>"

definition own_publish :: "interpreter_output_event \<Rightarrow> owner_step" where
  "own_publish ev ow = (let (e, p) = publish ev (own_pub ow) in (e, ow\<lparr>own_pub := p\<rparr>))"

definition snapshot ::
  "string \<Rightarrow> nat \<Rightarrow> unit_state \<Rightarrow> string \<Rightarrow> source_time_observation option \<Rightarrow> nat option
    \<Rightarrow> canonical_unit \<Rightarrow> owner \<Rightarrow> canonical_unit_snapshot" where
  "snapshot uid generation state lane t step u ow =
     \<lparr>unit_id = uid, unit_generation = generation, snapshot_state = state,
      snapshot_interpretation = req_interpretation_id (own_request ow),
      snapshot_connection = req_connection_id (own_request ow),
      snapshot_session = req_session_id (own_request ow),
      flow_id = ''main'', lane_id = lane,
      lane_ordinal = unwrap_or 0 (map_of (lane_ordinals ow) lane),
      causal_parent_id = None, source_time = t, source_step = step, snapshot_unit = u\<rparr>"

definition next_lane_ordinal :: "string \<Rightarrow> owner \<Rightarrow> nat \<times> owner" where
  "next_lane_ordinal lane ow =
     (let n = unwrap_or 0 (map_of (lane_ordinals ow) lane) + 1
      in (n, ow\<lparr>lane_ordinals := assoc_put lane n (lane_ordinals ow)\<rparr>))"

definition push_diagnostic :: "string \<Rightarrow> owner \<Rightarrow> owner" where
  "push_diagnostic msg ow =
     (if length (diagnostics ow) < max_safe_diagnostics (own_limits ow)
      then ow\<lparr>diagnostics := diagnostics ow @ [msg]\<rparr> else ow)"

section \<open>Emitting units\<close>

fun channel_lane :: "text_channel \<Rightarrow> string" where
  "channel_lane PublicReasoningSummary = lane_reasoning"
| "channel_lane StatusNarration = ''status''"
| "channel_lane QuotedExternalContent = ''quoted''"
| "channel_lane PublicResponse = lane_response"

definition emit_sentence :: "text_channel \<Rightarrow> string \<times> sentence_source_meta \<Rightarrow> owner_step" where
  "emit_sentence channel sm ow =
     (let (c, meta) = sm;
          uid = ''s-'' @ nat_str (next_unit ow);
          ow = ow\<lparr>next_unit := next_unit ow + 1, sentence_count := sentence_count ow + 1\<rparr>;
          lane = channel_lane channel;
          (n, ow) = next_lane_ordinal lane ow;
          u = Text \<lparr>sentence_id = uid, sentence_channel = channel, paragraph_id = None,
                    sentence_ordinal = n, sentence_content = c\<rparr>
      in own_publish
           (Unit (Created (snapshot uid 1 UnitComplete lane (meta_time meta) (meta_step meta) u ow))) ow)"

definition emit_boundary :: "boundary_kind \<Rightarrow> owner_step" where
  "emit_boundary kind ow =
     (let uid = ''b-'' @ nat_str (next_unit ow);
          ow = ow\<lparr>next_unit := next_unit ow + 1\<rparr>
      in own_publish
           (Unit (Created (snapshot uid 1 UnitComplete lane_response None None (Boundary kind) ow))) ow)"

definition emit_diagnostic :: "diagnostic_kind \<Rightarrow> string \<Rightarrow> owner_step" where
  "emit_diagnostic kind msg ow =
     (let uid = ''d-'' @ nat_str (next_unit ow);
          ow = ow\<lparr>next_unit := next_unit ow + 1\<rparr>
      in own_publish
           (Unit (Created (snapshot uid 1 UnitComplete lane_response None None
             (Diagnostic \<lparr>diagnostic_kind_of = kind, diagnostic_message = msg\<rparr>) ow))) ow)"

definition tool_unit :: "tool_assembler \<Rightarrow> canonical_unit" where
  "tool_unit tool =
     Tool \<lparr>tool_action_id = ta_action_id tool, event_tool_name = ta_name tool,
       event_request_state = ta_request_state tool, event_execution_state = ta_execution_state tool,
       event_result_state = ta_result_state tool,
       event_request_payload =
         (if ta_request_state tool = ReqReady then ta_request_payload tool else None),
       event_result_payload =
         (if ta_result_state tool = ResComplete then ta_result_payload tool else None),
       terminal_outcome = ta_terminal tool, event_waiting_for = ta_waiting_for tool\<rparr>"

definition tool_unit_state :: "tool_assembler \<Rightarrow> unit_state" where
  "tool_unit_state tool =
     (if ta_terminal tool \<noteq> None then UnitComplete
      else if ta_request_state tool = ReqIncomplete then UnitIncomplete
      else UnitWaiting)"

definition tool_snapshot :: "tool_assembler \<Rightarrow> owner \<Rightarrow> canonical_unit_snapshot" where
  "tool_snapshot tool ow =
     snapshot (ta_unit_id tool) (ta_generation tool) (tool_unit_state tool) lane_tool
       (tool_source_time tool) (ta_first_step tool) (tool_unit tool) ow"

definition tool_snapshot_from :: "string \<Rightarrow> owner \<Rightarrow> canonical_unit_snapshot option" where
  "tool_snapshot_from i ow = map_option (\<lambda>tool. tool_snapshot tool ow) (map_of (own_tools ow) i)"

definition apply_signal ::
  "nat \<Rightarrow> bool \<Rightarrow> tool_signal \<Rightarrow> tool_assembler \<Rightarrow> interpreter_error option \<times> tool_assembler \<times> string" where
  "apply_signal max_payload is_new signal tool =
     (case signal of
        Waiting name w \<Rightarrow>
          (None,
           tool\<lparr>ta_name := or_else name (ta_name tool), ta_waiting_for := Some w,
             ta_request_state := ReqAssembling, ta_execution_state := ExecWaiting\<rparr>,
           if is_new then ''created'' else ''advanced'')
      | RequestReady name arguments \<Rightarrow>
          if length arguments > max_payload
          then (Some (interpreter_error_new ToolLimitExceeded ''tool payload limit''), tool, [])
          else
            (None,
             tool\<lparr>ta_name := Some name, ta_request_payload := Some arguments,
               ta_request_state := ReqReady, ta_execution_state := ExecWaiting,
               ta_waiting_for := Some ''external execution'', ta_result_state := ResAbsent\<rparr>,
             if is_new then ''created'' else ''advanced'')
      | Resolved success result \<Rightarrow>
          (None,
           tool\<lparr>ta_execution_state := ExecTerminal, ta_result_state := ResComplete,
             ta_result_payload := result,
             ta_terminal := Some (if success then OutSuccess else OutFailure),
             ta_waiting_for := None\<rparr>,
           ''completed''))"

definition tool_event :: "string \<Rightarrow> canonical_unit_snapshot \<Rightarrow> canonical_unit_event" where
  "tool_event event_kind snap =
     (if event_kind = ''created'' then Created snap
      else if event_kind = ''completed'' then Completed snap
      else Advanced snap)"

definition on_tool :: "string \<Rightarrow> tool_signal \<Rightarrow> nat option \<Rightarrow> nat option \<Rightarrow> owner_step" where
  "on_tool aid signal t step ow =
     (let is_new = (map_of (own_tools ow) aid = None)
      in if length (own_tools ow) \<ge> max_pending_tool_actions (own_limits ow) \<and> is_new
         then (Some (interpreter_error_new ToolLimitExceeded ''max pending tool actions''), ow)
         else
           (let tool = unwrap_or (tool_assembler_new aid) (map_of (own_tools ow) aid);
                tool = note_step step (note_time t tool);
                tool = tool\<lparr>ta_generation := ta_generation tool + 1\<rparr>;
                (e, tool, event_kind) =
                  apply_signal (max_bytes_per_tool_action (own_limits ow)) is_new signal tool;
                ow = ow\<lparr>own_tools := assoc_put aid tool (own_tools ow)\<rparr>
            in case e of
                 Some err \<Rightarrow> (Some err, ow)
               | None \<Rightarrow> own_publish (Unit (tool_event event_kind (tool_snapshot tool ow))) ow))"

section \<open>Text\<close>

definition on_text :: "text_channel \<Rightarrow> string \<Rightarrow> nat option \<Rightarrow> nat option \<Rightarrow> owner_step" where
  "on_text channel text t step ow =
     (let asm = unwrap_or assembly_default (map_of (channels ow) channel)
      in if buffered_bytes (segmenter asm) + length text > max_sentence_assembly_bytes (own_limits ow)
         then (Some (interpreter_error_new SentenceLimitExceeded ''sentence assembly limit exceeded''),
               ow\<lparr>channels := assoc_put channel asm (channels ow)\<rparr>)
         else
           (let (completed, asm) = assembly_push text t step asm
            in for_each (emit_sentence channel) completed
                 (ow\<lparr>channels := assoc_put channel asm (channels ow)\<rparr>)))"

definition seal_channel :: "text_channel \<Rightarrow> owner_step" where
  "seal_channel channel ow =
     (case map_of (channels ow) channel of
        None \<Rightarrow> (None, ow)
      | Some asm \<Rightarrow>
          (let (sealed, asm) = assembly_seal asm
           in for_each (emit_sentence channel) sealed
                (ow\<lparr>channels := assoc_put channel asm (channels ow)\<rparr>)))"

definition seal_text_channels :: "engine_env \<Rightarrow> owner_step" where
  "seal_text_channels env ow =
     for_each seal_channel (channel_order env (map fst (channels ow))) ow"

definition on_fragment :: "engine_env \<Rightarrow> acp_fragment \<Rightarrow> owner_step" where
  "on_fragment env frag ow =
     (case frag of
        TextDelta channel text t step \<Rightarrow> on_text channel text t step ow
      | ToolFragment aid signal t step \<Rightarrow> on_tool aid signal t step ow
      | ResponseFinishedFragment \<Rightarrow>
          and_then (seal_text_channels env ow) (emit_boundary ResponseFinished)
      | DiagnosticFragment msg \<Rightarrow> emit_diagnostic UnsupportedEvent msg (push_diagnostic msg ow))"

section \<open>Ingesting bytes\<close>

definition start_response :: owner_step where
  "start_response ow =
     (if response_started ow then (None, ow)
      else emit_boundary ResponseStarted (ow\<lparr>response_started := True\<rparr>))"

definition ingest_openai_chat :: "engine_env \<Rightarrow> owner_step" where
  "ingest_openai_chat env ow =
     (let chunk = frame_buf ow;
          ow = ow\<lparr>frame_buf := []\<rparr>
      in if length chunk > max_undecoded_bytes (own_limits ow)
         then (Some (limit_error ''undecoded buffer limit exceeded''), ow)
         else
           (let (e, st, frags) = sse_push_bytes (env_codec env) (index_order env) chunk (openai ow);
                ow = ow\<lparr>openai := st\<rparr>
            in case e of
                 Some err \<Rightarrow> (Some err, ow)
               | None \<Rightarrow>
                   for_each (\<lambda>frag ow. and_then (start_response ow) (on_fragment env frag)) frags ow))"

definition split_valid_utf8 :: "string \<Rightarrow> string \<times> string" where
  "split_valid_utf8 b =
     (if is_utf8 b then (b, []) else (take (valid_up_to b) b, drop (valid_up_to b) b))"

definition ingest_test_text :: owner_step where
  "ingest_test_text ow =
     (let (valid, rest) = split_valid_utf8 (frame_buf ow)
      in if valid = [] \<and> rest \<noteq> [] then (None, ow)
         else on_text PublicResponse (from_utf8_lossy valid) None None (ow\<lparr>frame_buf := rest\<rparr>))"

definition ingest_message :: "engine_env \<Rightarrow> acp_fragment list \<Rightarrow> owner_step" where
  "ingest_message env frags ow =
     and_then (start_response ow) (for_each (on_fragment env) frags)"

definition ingest_acp :: "engine_env \<Rightarrow> owner_step" where
  "ingest_acp env ow =
     (if length (frame_buf ow) > max_frame_bytes (own_limits ow)
      then (Some (limit_error ''frame buffer limit exceeded''), ow)
      else
        (let (r, rest) = drain_json_values (env_codec env) (frame_buf ow);
             ow = ow\<lparr>frame_buf := rest\<rparr>
         in case r of
              Inl err \<Rightarrow> (Some (malformed_frame err), ow)
            | Inr vs \<Rightarrow> for_each (\<lambda>v. ingest_message env (map_message (env_codec env) v)) vs ow))"

definition ingest_zai_cli :: "engine_env \<Rightarrow> owner_step" where
  "ingest_zai_cli env ow =
     (if length (frame_buf ow) > max_frame_bytes (own_limits ow)
      then (Some (limit_error ''frame buffer limit exceeded''), ow)
      else
        (let (ls, rest) = drain_ndjson_lines (frame_buf ow)
         in for_each (\<lambda>l. ingest_message env (map_chat_message_line (env_codec env) l)) ls
              (ow\<lparr>frame_buf := rest\<rparr>)))"

definition ingest_claude_code :: "engine_env \<Rightarrow> owner_step" where
  "ingest_claude_code env ow =
     (if length (frame_buf ow) > max_frame_bytes (own_limits ow)
      then (Some (limit_error ''frame buffer limit exceeded''), ow)
      else
        (let (ls, rest) = claude_drain_ndjson_lines (frame_buf ow)
         in for_each (\<lambda>l. ingest_message env (map_stream_line (env_codec env) l)) ls
              (ow\<lparr>frame_buf := rest\<rparr>)))"

definition ingest_dialect :: "engine_env \<Rightarrow> dialect_family \<Rightarrow> owner_step" where
  "ingest_dialect env fam =
     (if fam = Test then ingest_test_text
      else if fam = Acp \<or> fam = GrokBuild \<or> fam = CursorAcp \<or> fam = AgyAcp \<or> fam = CodexAcp
      then ingest_acp env
      else if fam = ZaiCli then ingest_zai_cli env
      else if fam = ClaudeCode then ingest_claude_code env
      else if fam = OpenAiChatCompletions then ingest_openai_chat env
      else (\<lambda>ow. (Some (unsupported_dialect ''dialect''), ow)))"

definition own_family :: "owner \<Rightarrow> dialect_family" where
  "own_family ow = family (binding_output (req_dialect (own_request ow)))"

definition ingest_bytes :: "engine_env \<Rightarrow> string \<Rightarrow> owner_step" where
  "ingest_bytes env chunk ow =
     (if length (frame_buf ow) + length chunk > max_undecoded_bytes (own_limits ow)
      then (Some (limit_error ''undecoded buffer limit exceeded''), ow)
      else ingest_dialect env (own_family ow) (ow\<lparr>frame_buf := frame_buf ow @ chunk\<rparr>))"

section \<open>Ending\<close>

definition seal_clean :: "engine_env \<Rightarrow> owner_step" where
  "seal_clean env ow =
     (if own_family ow = OpenAiChatCompletions
      then
        (let (e, st, frags) = sse_seal_clean (env_codec env) (index_order env) (openai ow);
             ow = ow\<lparr>openai := st\<rparr>
         in case e of
              Some err \<Rightarrow> (Some err, ow)
            | None \<Rightarrow> and_then (for_each (on_fragment env) frags ow) (seal_text_channels env))
      else seal_text_channels env ow)"

fun channel_debug :: "text_channel \<Rightarrow> string" where
  "channel_debug PublicResponse = ''PublicResponse''"
| "channel_debug PublicReasoningSummary = ''PublicReasoningSummary''"
| "channel_debug StatusNarration = ''StatusNarration''"
| "channel_debug QuotedExternalContent = ''QuotedExternalContent''"

definition quarantine_channel :: "text_channel \<Rightarrow> owner \<Rightarrow> owner" where
  "quarantine_channel channel ow =
     (case map_of (channels ow) channel of
        None \<Rightarrow> ow
      | Some asm \<Rightarrow>
          (let (unresolved, asm) = assembly_take_unresolved asm;
               ow = ow\<lparr>channels := assoc_put channel asm (channels ow)\<rparr>
           in if unresolved \<noteq> []
              then ow\<lparr>unresolved_bytes_at_end := unresolved_bytes_at_end ow + length unresolved,
                diagnostics := diagnostics ow @
                  [''unresolved text on '' @ channel_debug channel @ '': '' @
                   nat_str (length unresolved) @ '' bytes'']\<rparr>
              else ow))"

definition mark_incomplete :: "tool_assembler \<Rightarrow> tool_assembler" where
  "mark_incomplete tool =
     tool\<lparr>ta_request_state := (if ta_request_state tool = ReqReady then ReqReady else ReqIncomplete),
       ta_result_state := (if ta_result_state tool = ResComplete then ResComplete else ResIncomplete),
       ta_generation := ta_generation tool + 1\<rparr>"

definition quarantine_tool :: "string \<Rightarrow> owner_step" where
  "quarantine_tool i ow =
     (case map_of (own_tools ow) i of
        None \<Rightarrow> (None, ow)
      | Some tool \<Rightarrow>
          if ta_terminal tool = None
          then
            (let tool = mark_incomplete tool;
                 ow = ow\<lparr>own_tools := assoc_put i tool (own_tools ow)\<rparr>
             in own_publish (Unit (Incomplete (tool_snapshot tool ow))) ow)
          else (None, ow))"

definition quarantine_partials :: "engine_env \<Rightarrow> owner_step" where
  "quarantine_partials env ow =
     (let ow = fold quarantine_channel (channel_order env (map fst (channels ow))) ow;
          ow = ow\<lparr>unresolved_bytes_at_end := unresolved_bytes_at_end ow + length (frame_buf ow),
                  frame_buf := []\<rparr>
      in for_each quarantine_tool (tool_order env (map fst (own_tools ow))) ow)"

text \<open>\<open>finish\<close> returns what it sends on the completion channel, if it gets that far.\<close>

definition finish :: "interpretation_end_kind \<Rightarrow> owner \<Rightarrow> interpretation_end option \<times> owner" where
  "finish kind ow =
     (if ended ow then (None, ow)
      else
        (let unresolved = unresolved_bytes_at_end ow
               + sum_list (map (\<lambda>(_, asm). buffered_bytes (segmenter asm)) (channels ow))
               + length (frame_buf ow);
             report =
               \<lparr>end_interpretation = req_interpretation_id (own_request ow),
                end_connection = req_connection_id (own_request ow),
                end_session = req_session_id (own_request ow),
                end_kind = kind,
                canonical_event_count = publish_count (own_pub ow),
                completed_sentence_count = sentence_count ow,
                completed_structure_count = structure_count ow,
                unresolved_text_bytes = unresolved,
                source_bytes_consumed = source_bytes ow,
                safe_diagnostics = diagnostics ow\<rparr>
         in (Some report, snd (own_publish (Ended report) (ow\<lparr>ended := True\<rparr>)))))"

section \<open>The task\<close>

datatype input_cmd = Bytes string | FinishClean | Cancel | TransportFailed

fun ingest_end_kind :: "interpreter_error_kind \<Rightarrow> interpretation_end_kind" where
  "ingest_end_kind Cancelled = EndCancelled"
| "ingest_end_kind FrameLimitExceeded = EndLimitExceeded"
| "ingest_end_kind SentenceLimitExceeded = EndLimitExceeded"
| "ingest_end_kind StructureLimitExceeded = EndLimitExceeded"
| "ingest_end_kind ToolLimitExceeded = EndLimitExceeded"
| "ingest_end_kind _ = EndDialectFailed"

fun seal_end_kind :: "interpreter_error_kind \<Rightarrow> interpretation_end_kind" where
  "seal_end_kind Cancelled = EndCancelled"
| "seal_end_kind FrameLimitExceeded = EndLimitExceeded"
| "seal_end_kind SentenceLimitExceeded = EndLimitExceeded"
| "seal_end_kind StructureLimitExceeded = EndLimitExceeded"
| "seal_end_kind ToolLimitExceeded = EndLimitExceeded"
| "seal_end_kind _ = EndTransportFailed"

definition abort :: "engine_env \<Rightarrow> interpretation_end_kind \<Rightarrow> owner \<Rightarrow> interpretation_end option \<times> owner" where
  "abort env kind ow = finish kind (snd (quarantine_partials env ow))"

text \<open>The end of the command list is the drop of the last input handle.\<close>

fun run :: "engine_env \<Rightarrow> input_cmd list \<Rightarrow> owner \<Rightarrow> interpretation_end option \<times> owner" where
  "run env [] ow = abort env EndTransportFailed ow"
| "run env (Bytes b # cmds) ow =
     (if ended ow then run env cmds ow
      else
        (case ingest_bytes env b (ow\<lparr>source_bytes := source_bytes ow + length b\<rparr>) of
           (Some e, ow) \<Rightarrow> finish (ingest_end_kind (error_kind e)) ow
         | (None, ow) \<Rightarrow> run env cmds ow))"
| "run env (FinishClean # cmds) ow =
     (case seal_clean env ow of
        (None, ow) \<Rightarrow> finish EndComplete ow
      | (Some e, ow) \<Rightarrow> abort env (seal_end_kind (error_kind e)) ow)"
| "run env (Cancel # cmds) ow = abort env EndCancelled ow"
| "run env (TransportFailed # cmds) ow = abort env EndTransportFailed ow"

section \<open>The factory\<close>

datatype support_level = FullSupport | PartialSupport | NoSupport

definition supported_family :: "dialect_family \<Rightarrow> bool" where
  "supported_family fam \<longleftrightarrow>
     fam \<in> {Test, Acp, GrokBuild, CursorAcp, AgyAcp, CodexAcp, ZaiCli, ClaudeCode, OpenAiChatCompletions}"

definition supports :: "dialect_binding \<Rightarrow> support_level" where
  "supports d = (if supported_family (family (binding_output d)) then FullSupport else NoSupport)"

fun family_debug :: "(string \<Rightarrow> string) \<Rightarrow> dialect_family \<Rightarrow> string" where
  "family_debug dbg (Other s) = ''Other('' @ dbg s @ '')''"
| "family_debug dbg _ = ''AnthropicMessages''"

definition validate_dialect :: "engine_env \<Rightarrow> dialect_binding \<Rightarrow> interpreter_error option" where
  "validate_dialect env d =
     (let fam = family (binding_output d)
      in if fam = Acp \<or> fam = GrokBuild \<or> fam = CursorAcp \<or> fam = AgyAcp \<or> fam = CodexAcp \<or> fam = ZaiCli
           \<or> fam = ClaudeCode \<or> fam = OpenAiChatCompletions \<or> fam = Test
         then None
         else if fam = OpenAiResponses
         then Some (unsupported_dialect ''OpenAI Responses is not supported; use Chat Completions SSE'')
         else Some (unsupported_dialect (''unsupported dialect family: '' @ family_debug (debug_str env) fam)))"

text \<open>
  \<open>start\<close> followed by the whole life of the spawned task. The completion handle's fallback
  report is only for a task that dropped its sender.
\<close>

definition start ::
  "engine_env \<Rightarrow> start_interpretation \<Rightarrow> nat option \<Rightarrow> input_cmd list
    \<Rightarrow> (interpreter_error, interpretation_end option \<times> owner) result" where
  "start env req takes cmds =
     (if supports (req_dialect req) = NoSupport
      then Err (unsupported_dialect ''dialect not supported by DefaultInterpreterFactory'')
      else (case validate_dialect env (req_dialect req) of
              Some e \<Rightarrow> Err e
            | None \<Rightarrow> Ok (run env cmds (owner_new req takes))))"

end
