(* ===== verification/Decimal.thy ===== *)
theory Decimal
  imports Rust_Std
begin

text \<open>
  Facts about decimal numbers as the source prints them into identities and keys: printing is
  injective, and a printed number is made of digits.
\<close>

lemma digit_char_inj: "a < 10 \<Longrightarrow> b < 10 \<Longrightarrow> digit_char a = digit_char b \<Longrightarrow> a = b"
  unfolding digit_char_def by (simp add: char_of_eq_iff take_bit_eq_mod)

lemma nat_str_inj: "nat_str a = nat_str b \<Longrightarrow> a = b"
proof (induction a arbitrary: b rule: nat_str.induct)
  case (1 a)
  have l: "nat_str n \<noteq> []" for n by (simp add: nat_str.simps [of n])
  show ?case
  proof (cases "a < 10")
    case True
    then show ?thesis
      using "1.prems" l [of "b div 10"]
      by (auto simp: nat_str.simps [of a] nat_str.simps [of b] digit_char_inj split: if_splits)
  next
    case False
    then have b: "\<not> b < 10"
      using "1.prems" l [of "a div 10"] by (auto simp: nat_str.simps [of a] nat_str.simps [of b])
    then have "nat_str (a div 10) = nat_str (b div 10)" "digit_char (a mod 10) = digit_char (b mod 10)"
      using "1.prems" False by (simp_all add: nat_str.simps [of a] nat_str.simps [of b])
    then have "a div 10 = b div 10" "a mod 10 = b mod 10"
      using "1.IH" [OF False] digit_char_inj [of "a mod 10" "b mod 10"] by simp_all
    then show ?thesis by (metis div_mult_mod_eq)
  qed
qed

lemma digit_char_colon: "d < 10 \<Longrightarrow> digit_char d \<noteq> CHR '':''"
  unfolding digit_char_def by (simp add: char_of_eq_iff take_bit_eq_mod)

lemma nat_str_no_colon: "CHR '':'' \<notin> set (nat_str n)"
proof (induction n rule: nat_str.induct)
  case (1 n)
  then show ?case
    using digit_char_colon [of n] digit_char_colon [of "n mod 10"]
    by (cases "n < 10") (auto simp: nat_str.simps [of n])
qed

text \<open>A number behind a colon can be taken off again.\<close>

lemma colon_number_inj:
  assumes "a @ '':'' @ nat_str m = b @ '':'' @ nat_str n"
  shows "a = b \<and> m = n"
proof -
  have split: "takeWhile ((\<noteq>) CHR '':'') (rev (x @ '':'' @ nat_str k)) = rev (nat_str k)" for x k
    using nat_str_no_colon [of k] by (auto simp: takeWhile_tail intro!: takeWhile_append2 [THEN trans])
  have "rev (nat_str m) = rev (nat_str n)" using split [of a m] split [of b n] unfolding assms by (rule trans [OF sym])
  then have "m = n" by (simp add: nat_str_inj)
  with assms show ?thesis by simp
qed

end
