(* ===== verification/Engine_Invariants.thy ===== *)
theory Engine_Invariants
  imports Engine Decimal
begin

text \<open>
  Safety of one interpretation, over every run of the owner task: exactly one report, a log
  of well-formed units, increasing generations, strict sentence ordinals and the configured
  memory bounds. A locale states what an invariant has to survive and proves that the whole
  task keeps it; every invariant below is an interpretation of it.
\<close>

section \<open>Invariants of the owner\<close>

text \<open>
  What an invariant has to survive: emitting a unit, a tool signal, a channel whose buffer
  fits or shrinks, a frame buffer that fits or shrinks. Given these, every handler and the
  whole task keep it up to the call of \<open>finish\<close>.
\<close>

definition channel_step :: "text_channel \<Rightarrow> channel_assembly \<Rightarrow> owner \<Rightarrow> bool" where
  "channel_step c asm ow \<longleftrightarrow>
     buffered_bytes (segmenter asm) \<le> max_sentence_assembly_bytes (own_limits ow) \<or>
     (case map_of (channels ow) c of
        Some old \<Rightarrow> buffered_bytes (segmenter asm) \<le> buffered_bytes (segmenter old)
      | None \<Rightarrow> False)"

definition frame_step :: "string \<Rightarrow> owner \<Rightarrow> bool" where
  "frame_step b ow \<longleftrightarrow>
     length b \<le> max_undecoded_bytes (own_limits ow) \<or> length b \<le> length (frame_buf ow)"

definition openai_step :: "openai_sse_state \<Rightarrow> owner \<Rightarrow> bool" where
  "openai_step st ow \<longleftrightarrow> same_bounds (openai ow) st \<and> (sse_inv (openai ow) \<longrightarrow> sse_inv st)"

lemma openai_step_bytes: "openai_step (fst (snd (sse_push_bytes codec ord c (openai ow)))) ow"
  using chunk_ok_bytes [of codec "openai ow" ord c] by (simp add: chunk_ok_def openai_step_def Let_def)

lemma openai_step_seal: "openai_step (fst (snd (sse_seal_clean codec ord (openai ow)))) ow"
  using seal_ok [of "openai ow" codec ord] by (simp add: openai_step_def)

lemma attribute_spans_segmenter [simp]: "segmenter (snd (attribute_spans cs asm)) = segmenter asm"
proof (induction cs arbitrary: asm)
  case (Cons c cs)
  obtain m asm' where t: "take_spans (content_bytes c) (bytes_consumed c) asm = (m, asm')" by fastforce
  then have "segmenter asm' = segmenter asm" by (auto simp: take_spans_def Let_def split: prod.splits)
  then show ?case using Cons.IH [of asm'] t by (simp add: split_beta)
qed simp

lemma drain_loop_shrinks: "length (snd (drain_loop b)) \<le> length b"
proof (induction b rule: drain_loop.induct)
  case (1 b)
  show ?case
  proof (cases "find_sentence_end b")
    case None
    then show ?thesis by (simp add: drain_loop_None)
  next
    case (Some e)
    then show ?thesis
      using "1.IH" [OF Some] by (simp add: drain_loop.simps [of b] split_beta)
  qed
qed

lemma push_buffered: "buffered_bytes (snd (push tx seg)) \<le> buffered_bytes seg + length tx"
  using drain_loop_shrinks [of "buf seg @ tx"]
  by (auto simp: push_def drain_complete_def buffered_bytes_def Let_def split: prod.splits)

lemma seal_buffered: "buffered_bytes (snd (seal_at_clean_end seg)) \<le> buffered_bytes seg"
  using drain_loop_shrinks [of "buf seg"]
  by (auto simp: seal_at_clean_end_def drain_complete_def seal_rest_def buffered_bytes_def Let_def
      split: prod.splits if_splits)

lemma assembly_push_buffered:
  "buffered_bytes (segmenter (snd (assembly_push tx t step asm)))
    \<le> buffered_bytes (segmenter asm) + length tx"
  using push_buffered [of tx "segmenter asm"]
  by (auto simp: assembly_push_def Let_def split: prod.splits)

lemma assembly_seal_buffered:
  "buffered_bytes (segmenter (snd (assembly_seal asm))) \<le> buffered_bytes (segmenter asm)"
  using seal_buffered [of "segmenter asm"]
  by (auto simp: assembly_seal_def Let_def split: prod.splits)

lemma drain_json_values_shrinks: "length (snd (drain_json_values codec b)) \<le> length b"
proof (induction codec b rule: drain_json_values.induct)
  case (1 codec b)
  have ws: "length (skip_ws b) \<le> length b" by (rule length_dropWhile_le)
  show ?case
  proof (cases "find_complete_json_end (skip_ws b)")
    case None
    then show ?thesis using ws by (simp add: drain_json_values.simps [of codec b] Let_def)
  next
    case (Some e)
    show ?thesis
      using "1.IH" [OF refl _ Some] ws Some
      by (auto simp: drain_json_values.simps [of codec b] Let_def split: sum.split prod.split)
  qed
qed

lemma drain_ndjson_lines_shrinks: "length (snd (drain_ndjson_lines b)) \<le> length b"
proof (induction b rule: drain_ndjson_lines.induct)
  case (1 b)
  then show ?case
    by (cases "position (\<lambda>c. c = CHR 0x0A) b")
      (force simp: drain_ndjson_lines_None drain_ndjson_lines_Some)+
qed

locale owner_invariant =
  fixes P :: "owner \<Rightarrow> bool"
  assumes keeps_sentence: "P ow \<Longrightarrow> P (snd (emit_sentence c sm ow))"
    and keeps_boundary: "P ow \<Longrightarrow> P (snd (emit_boundary k ow))"
    and keeps_diagnostic: "P ow \<Longrightarrow> P (snd (emit_diagnostic d msg ow))"
    and keeps_tool: "P ow \<Longrightarrow> P (snd (on_tool aid signal t step ow))"
    and keeps_quarantine_tool: "P ow \<Longrightarrow> P (snd (quarantine_tool aid ow))"
    and keeps_channel: "P ow \<Longrightarrow> channel_step c asm ow \<Longrightarrow> P (ow\<lparr>channels := assoc_put c asm (channels ow)\<rparr>)"
    and keeps_frame: "P ow \<Longrightarrow> frame_step b ow \<Longrightarrow> P (ow\<lparr>frame_buf := b\<rparr>)"
    and keeps_openai: "P ow \<Longrightarrow> openai_step st ow \<Longrightarrow> P (ow\<lparr>openai := st\<rparr>)"
    and keeps_source: "P ow \<Longrightarrow> P (ow\<lparr>source_bytes := n\<rparr>)"
    and keeps_started: "P ow \<Longrightarrow> P (ow\<lparr>response_started := b'\<rparr>)"
    and keeps_notes: "P ow \<Longrightarrow> P (ow\<lparr>unresolved_bytes_at_end := n, diagnostics := ds\<rparr>)"
begin

lemma keeps_for_each: "(\<And>x ow. P ow \<Longrightarrow> P (snd (f x ow))) \<Longrightarrow> P ow \<Longrightarrow> P (snd (for_each f xs ow))"
  by (rule for_each_inv)

lemma keeps_and_then: "P (snd x) \<Longrightarrow> (\<And>ow. P ow \<Longrightarrow> P (snd (k ow))) \<Longrightarrow> P (snd (and_then x k))"
  by (cases x; cases "fst x") auto

lemma keeps_unresolved: "P ow \<Longrightarrow> P (ow\<lparr>unresolved_bytes_at_end := n\<rparr>)"
  using keeps_notes [of ow "diagnostics ow" n] by simp

lemma keeps_push_diagnostic: "P ow \<Longrightarrow> P (push_diagnostic msg ow)"
  using keeps_notes [of ow "diagnostics ow @ [msg]" "unresolved_bytes_at_end ow"]
  by (simp add: push_diagnostic_def)

lemma keeps_text:
  assumes "P ow"
  shows "P (snd (on_text c tx t step ow))"
proof -
  define asm where "asm = unwrap_or assembly_default (map_of (channels ow) c)"
  have old: "P (ow\<lparr>channels := assoc_put c asm (channels ow)\<rparr>)"
  proof (cases "map_of (channels ow) c")
    case None
    then show ?thesis
      using assms by (intro keeps_channel)
        (simp_all add: asm_def channel_step_def assembly_default_def segmenter_new_def buffered_bytes_def)
  next
    case (Some x)
    then show ?thesis using assms by (simp add: asm_def assoc_put_same)
  qed
  have new: "P (ow\<lparr>channels := assoc_put c (snd (assembly_push tx t step asm)) (channels ow)\<rparr>)"
    if "\<not> buffered_bytes (segmenter asm) + length tx > max_sentence_assembly_bytes (own_limits ow)"
    using assms that assembly_push_buffered [of tx t step asm]
    by (intro keeps_channel) (auto simp: channel_step_def)
  show ?thesis
    using old new
    by (auto simp: on_text_def Let_def asm_def [symmetric] split: prod.split
        intro!: keeps_for_each keeps_sentence)
qed

lemma keeps_seal_channel:
  assumes "P ow"
  shows "P (snd (seal_channel c ow))"
proof (cases "map_of (channels ow) c")
  case None
  then show ?thesis using assms by (simp add: seal_channel_def)
next
  case (Some asm)
  then have "P (ow\<lparr>channels := assoc_put c (snd (assembly_seal asm)) (channels ow)\<rparr>)"
    using assms assembly_seal_buffered [of asm] by (intro keeps_channel) (auto simp: channel_step_def)
  then show ?thesis
    using Some by (auto simp: seal_channel_def split: prod.split intro!: keeps_for_each keeps_sentence)
qed

lemma keeps_seal_text: "P ow \<Longrightarrow> P (snd (seal_text_channels env ow))"
  unfolding seal_text_channels_def by (intro keeps_for_each keeps_seal_channel)

lemma keeps_fragment: "P ow \<Longrightarrow> P (snd (on_fragment env frag ow))"
  by (cases frag)
    (simp_all add: on_fragment_def keeps_text keeps_tool keeps_and_then keeps_seal_text keeps_boundary
      keeps_diagnostic keeps_push_diagnostic)

lemma keeps_start: "P ow \<Longrightarrow> P (snd (start_response ow))"
  by (simp add: start_response_def keeps_boundary keeps_started)

lemma keeps_message: "P ow \<Longrightarrow> P (snd (ingest_message env frags ow))"
  unfolding ingest_message_def by (intro keeps_and_then keeps_start keeps_for_each keeps_fragment)

lemma keeps_openai_chat:
  assumes "P ow"
  shows "P (snd (ingest_openai_chat env ow))"
proof -
  have f: "P (ow\<lparr>frame_buf := []\<rparr>)" using assms by (intro keeps_frame) (simp_all add: frame_step_def)
  have "P (ow\<lparr>frame_buf := [],
      openai := fst (snd (sse_push_bytes (env_codec env) (index_order env) (frame_buf ow) (openai ow)))\<rparr>)"
    using keeps_openai [OF f openai_step_bytes [of "env_codec env" "index_order env" "frame_buf ow"]] by simp
  then show ?thesis
    using f
    by (auto simp: ingest_openai_chat_def Let_def split: prod.split option.split
        intro!: keeps_for_each keeps_and_then keeps_start keeps_fragment)
qed

lemma keeps_dialect:
  assumes "P ow"
  shows "P (snd (ingest_dialect env fam ow))"
proof -
  have t: "P (snd (ingest_test_text ow))"
    using assms
    by (auto simp: ingest_test_text_def split_valid_utf8_def frame_step_def
        intro!: keeps_text keeps_frame)
  have a: "P (ow\<lparr>frame_buf := snd (drain_json_values (env_codec env) (frame_buf ow))\<rparr>)"
    using assms drain_json_values_shrinks by (intro keeps_frame) (auto simp: frame_step_def)
  have n: "P (ow\<lparr>frame_buf := snd (drain_ndjson_lines (frame_buf ow))\<rparr>)"
    using assms drain_ndjson_lines_shrinks by (intro keeps_frame) (auto simp: frame_step_def)
  have "P (snd (ingest_acp env ow))"
    using assms a
    by (auto simp: ingest_acp_def Let_def split: prod.split sum.split
        intro!: keeps_for_each keeps_message)
  moreover have "P (snd (ingest_zai_cli env ow))"
    using assms n
    by (auto simp: ingest_zai_cli_def Let_def split: prod.split intro!: keeps_for_each keeps_message)
  moreover have "P (snd (ingest_claude_code env ow))"
    using assms n
    by (auto simp: ingest_claude_code_def claude_drain_ndjson_lines_def Let_def split: prod.split
        intro!: keeps_for_each keeps_message)
  ultimately show ?thesis
    using assms t keeps_openai_chat [OF assms, of env] by (simp add: ingest_dialect_def)
qed

lemma keeps_ingest: "P ow \<Longrightarrow> P (snd (ingest_bytes env chunk ow))"
  by (auto simp: ingest_bytes_def frame_step_def intro!: keeps_dialect keeps_frame)

lemma keeps_seal_clean:
  assumes "P ow"
  shows "P (snd (seal_clean env ow))"
  using assms keeps_openai [OF assms openai_step_seal [of "env_codec env" "index_order env"]]
  by (auto simp: seal_clean_def Let_def keeps_seal_text split: prod.split option.split
      intro!: keeps_and_then keeps_for_each keeps_fragment)

lemma keeps_quarantine_channel:
  assumes "P ow"
  shows "P (quarantine_channel c ow)"
proof (cases "map_of (channels ow) c")
  case None
  then show ?thesis using assms by (simp add: quarantine_channel_def)
next
  case (Some asm)
  define ow' where "ow' = ow\<lparr>channels := assoc_put c (snd (assembly_take_unresolved asm)) (channels ow)\<rparr>"
  have "P ow'"
    unfolding ow'_def
    using assms by (intro keeps_channel)
      (simp_all add: channel_step_def assembly_take_unresolved_def take_unresolved_def buffered_bytes_def)
  then show ?thesis
    using Some keeps_notes [of ow']
    by (simp add: quarantine_channel_def split_beta ow'_def [symmetric] del: append_Cons)
qed

lemma keeps_quarantine: 
  assumes "P ow"
  shows "P (snd (quarantine_partials env ow))"
proof -
  have c: "P (fold quarantine_channel cs ow)" for cs
    using assms by (induction cs arbitrary: ow) (simp_all add: keeps_quarantine_channel)
  have "P (ow'\<lparr>unresolved_bytes_at_end := n, frame_buf := []\<rparr>)" if "P ow'" for ow' n
    using keeps_frame [OF keeps_unresolved [OF that], of "[]" n] by (simp add: frame_step_def)
  then show ?thesis
    unfolding quarantine_partials_def Let_def
    by (intro keeps_for_each keeps_quarantine_tool c) (simp_all add: c)
qed

lemma run_finishes: "P ow \<Longrightarrow> \<exists>k ow'. P ow' \<and> run env cmds ow = finish k ow'"
proof (induction cmds arbitrary: ow)
  case Nil
  then show ?case using keeps_quarantine by (auto simp: abort_def)
next
  case (Cons cmd cmds)
  show ?case
  proof (cases cmd)
    case (Bytes b)
    have i: "P (snd (ingest_bytes env b (ow\<lparr>source_bytes := source_bytes ow + length b\<rparr>)))"
      using Cons.prems by (intro keeps_ingest keeps_source)
    obtain eo ow' where r: "ingest_bytes env b (ow\<lparr>source_bytes := source_bytes ow + length b\<rparr>) = (eo, ow')"
      by fastforce
    then have "P ow'" using i by simp
    then show ?thesis
      using Cons.IH [OF Cons.prems] Cons.IH [of ow'] r
      by (cases eo; cases "ended ow") (simp_all add: Bytes, blast+)
  next
    case FinishClean
    have "P (snd (seal_clean env ow))" using Cons.prems by (rule keeps_seal_clean)
    moreover obtain eo ow' where r: "seal_clean env ow = (eo, ow')" by fastforce
    ultimately have "P ow'" "P (snd (quarantine_partials env ow'))" using keeps_quarantine by simp_all
    then show ?thesis
      using r by (cases eo) (simp_all add: FinishClean abort_def, blast+)
  qed (use Cons.prems keeps_quarantine in \<open>auto simp: abort_def\<close>)
qed

end

section \<open>The published log\<close>

fun payload_ok :: "nat \<Rightarrow> canonical_unit \<Rightarrow> bool" where
  "payload_ok bound (Tool a) \<longleftrightarrow>
     (case event_request_payload a of
        Some p \<Rightarrow> event_request_state a = ReqReady \<and> length p \<le> bound | None \<Rightarrow> True) \<and>
     (event_result_payload a = None \<or> event_result_state a = ResComplete)"
| "payload_ok bound _ \<longleftrightarrow> True"

definition correlated :: "start_interpretation \<Rightarrow> canonical_unit_snapshot \<Rightarrow> bool" where
  "correlated req s \<longleftrightarrow>
     snapshot_interpretation s = req_interpretation_id req \<and>
     snapshot_connection s = req_connection_id req \<and> snapshot_session s = req_session_id req"

fun unit_ok :: "start_interpretation \<Rightarrow> interpreter_output_event \<Rightarrow> bool" where
  "unit_ok req (Unit ev) \<longleftrightarrow>
     correlated req (event_snapshot ev) \<and>
     payload_ok (max_bytes_per_tool_action (req_limits req)) (snapshot_unit (event_snapshot ev))"
| "unit_ok req (Ended _) \<longleftrightarrow> False"

fun is_sentence :: "interpreter_output_event \<Rightarrow> bool" where
  "is_sentence (Unit ev) \<longleftrightarrow> (case snapshot_unit (event_snapshot ev) of Text _ \<Rightarrow> True | _ \<Rightarrow> False)"
| "is_sentence (Ended _) \<longleftrightarrow> False"

definition sentences_sent :: "interpreter_output_event list \<Rightarrow> nat" where
  "sentences_sent evs = length (filter is_sentence evs)"

definition takes_left :: "nat option \<Rightarrow> event_publisher \<Rightarrow> bool" where
  "takes_left takes p \<longleftrightarrow>
     publish_count p = length (sent p) \<and>
     receiver_takes p = map_option (\<lambda>n. n - length (sent p)) takes \<and>
     (case takes of Some n \<Rightarrow> length (sent p) \<le> n | None \<Rightarrow> True)"

definition log_inv :: "start_interpretation \<Rightarrow> nat option \<Rightarrow> owner \<Rightarrow> bool" where
  "log_inv req takes ow \<longleftrightarrow>
     own_request ow = req \<and> \<not> ended ow \<and> takes_left takes (own_pub ow) \<and>
     list_all (unit_ok req) (sent (own_pub ow)) \<and>
     list_all (\<lambda>(_, tool). case ta_request_payload tool of
         Some p \<Rightarrow> length p \<le> max_bytes_per_tool_action (req_limits req) | None \<Rightarrow> True) (own_tools ow) \<and>
     sentences_sent (sent (own_pub ow)) \<le> sentence_count ow \<and>
     (receiver_takes (own_pub ow) \<noteq> Some 0 \<longrightarrow> sentences_sent (sent (own_pub ow)) = sentence_count ow)"

lemma takes_left_publish: "takes_left takes p \<Longrightarrow> takes_left takes (snd (publish ev p))"
  by (cases takes) (auto simp: takes_left_def publish_def)

lemma publish_sent:
  "sent (snd (publish ev p)) = (if receiver_takes p = Some 0 then sent p else sent p @ [ev])"
  by (simp add: publish_def)

lemma own_publish_frame [simp, frame_simps]:
  "own_request (snd (own_publish ev ow)) = own_request ow"
  "ended (snd (own_publish ev ow)) = ended ow"
  "own_tools (snd (own_publish ev ow)) = own_tools ow"
  "channels (snd (own_publish ev ow)) = channels ow"
  "frame_buf (snd (own_publish ev ow)) = frame_buf ow"
  "openai (snd (own_publish ev ow)) = openai ow"
  "next_unit (snd (own_publish ev ow)) = next_unit ow"
  "sentence_count (snd (own_publish ev ow)) = sentence_count ow"
  "lane_ordinals (snd (own_publish ev ow)) = lane_ordinals ow"
  "own_pub (snd (own_publish ev ow)) = snd (publish ev (own_pub ow))"
  by (simp_all add: own_publish_def split: prod.split)

lemma receiver_takes_publish:
  "receiver_takes (snd (publish ev p)) \<noteq> Some 0 \<Longrightarrow> receiver_takes p \<noteq> Some 0"
  by (auto simp: publish_def split: if_splits)

text \<open>Publishing a unit of our own keeps the log, with the count of sentences adjusted.\<close>

lemma log_inv_publish:
  assumes "log_inv req takes (ow\<lparr>sentence_count := sentence_count ow - (if is_sentence ev then 1 else 0)\<rparr>)"
    and "unit_ok req ev" and "is_sentence ev \<Longrightarrow> 0 < sentence_count ow"
  shows "log_inv req takes (snd (own_publish ev ow))"
  using assms receiver_takes_publish [of ev "own_pub ow"]
  by (auto simp: log_inv_def takes_left_publish publish_sent sentences_sent_def split: if_splits)

lemma snapshot_correlated: "own_request ow = req \<Longrightarrow> correlated req (snapshot i g st l t s u ow)"
  by (simp add: correlated_def snapshot_def)

lemma snapshot_unit_snapshot [simp]: "snapshot_unit (snapshot i g st l t s u ow) = u"
  by (simp add: snapshot_def)

lemma tool_unit_payload:
  assumes "case ta_request_payload tool of Some p \<Rightarrow> length p \<le> bound | None \<Rightarrow> True"
  shows "payload_ok bound (tool_unit tool)"
  using assms by (simp add: tool_unit_def split: option.splits)

lemma tool_event_snapshot [simp]: "event_snapshot (tool_event k s) = s"
  by (simp add: tool_event_def)

lemma log_inv_tool_publish:
  assumes "log_inv req takes ow"
    and "case ta_request_payload tool of
      Some p \<Rightarrow> length p \<le> max_bytes_per_tool_action (req_limits req) | None \<Rightarrow> True"
    and "\<And>s. event_snapshot (mk s) = s"
  shows "log_inv req takes (ow\<lparr>own_tools := assoc_put i tool (own_tools ow)\<rparr>)"
    and "log_inv req takes (snd (own_publish (Unit (mk (tool_snapshot tool (ow\<lparr>own_tools := assoc_put i tool (own_tools ow)\<rparr>))))
      (ow\<lparr>own_tools := assoc_put i tool (own_tools ow)\<rparr>)))"
proof -
  show put: "log_inv req takes (ow\<lparr>own_tools := assoc_put i tool (own_tools ow)\<rparr>)"
    using assms(1,2) by (auto simp: log_inv_def intro!: assoc_put_all)
  show "log_inv req takes (snd (own_publish (Unit (mk (tool_snapshot tool (ow\<lparr>own_tools := assoc_put i tool (own_tools ow)\<rparr>))))
      (ow\<lparr>own_tools := assoc_put i tool (own_tools ow)\<rparr>)))"
  proof (rule log_inv_publish)
    show "unit_ok req (Unit (mk (tool_snapshot tool (ow\<lparr>own_tools := assoc_put i tool (own_tools ow)\<rparr>))))"
      using assms(1,2) tool_unit_payload [OF assms(2)]
      by (simp add: assms(3) tool_snapshot_def snapshot_correlated log_inv_def)
  qed (use put in \<open>simp_all add: assms(3) tool_snapshot_def tool_unit_def\<close>)
qed

definition small_payload :: "nat \<Rightarrow> tool_assembler \<Rightarrow> bool" where
  "small_payload bound tool \<longleftrightarrow>
     (case ta_request_payload tool of Some p \<Rightarrow> length p \<le> bound | None \<Rightarrow> True)"

text \<open>The tool a signal works on, and what the signal leaves of it.\<close>

definition noted_tool :: "string \<Rightarrow> nat option \<Rightarrow> nat option \<Rightarrow> owner \<Rightarrow> tool_assembler" where
  "noted_tool aid t step ow =
     (let tool = note_step step (note_time t (unwrap_or (tool_assembler_new aid) (map_of (own_tools ow) aid)))
      in tool\<lparr>ta_generation := ta_generation tool + 1\<rparr>)"

lemma on_tool_cases:
  assumes "\<And>e. Q (Some e, ow)"
    and "\<And>e tool k. \<lbrakk>length (own_tools ow) < max_pending_tool_actions (own_limits ow) \<or> map_of (own_tools ow) aid \<noteq> None;
      apply_signal (max_bytes_per_tool_action (own_limits ow)) (map_of (own_tools ow) aid = None) signal
        (noted_tool aid t step ow) = (Some e, tool, k)\<rbrakk>
      \<Longrightarrow> Q (Some e, ow\<lparr>own_tools := assoc_put aid tool (own_tools ow)\<rparr>)"
    and "\<And>tool k. \<lbrakk>length (own_tools ow) < max_pending_tool_actions (own_limits ow) \<or> map_of (own_tools ow) aid \<noteq> None;
      apply_signal (max_bytes_per_tool_action (own_limits ow)) (map_of (own_tools ow) aid = None) signal
        (noted_tool aid t step ow) = (None, tool, k)\<rbrakk>
      \<Longrightarrow> Q (own_publish (Unit (tool_event k (tool_snapshot tool (ow\<lparr>own_tools := assoc_put aid tool (own_tools ow)\<rparr>))))
        (ow\<lparr>own_tools := assoc_put aid tool (own_tools ow)\<rparr>))"
  shows "Q (on_tool aid signal t step ow)"
  using assms
  unfolding on_tool_def noted_tool_def Let_def
  by (fastforce split: prod.splits option.splits)

lemma note_frame [simp, frame_simps]:
  "ta_request_payload (note_step s (note_time t tool)) = ta_request_payload tool"
  "ta_generation (note_step s (note_time t tool)) = ta_generation tool"
  "ta_unit_id (note_step s (note_time t tool)) = ta_unit_id tool"
  by (simp_all add: note_step_def note_time_def)

lemma apply_signal_payload:
  assumes "apply_signal bound n signal tool = (e, tool', k)" and "small_payload bound tool"
  shows "small_payload bound tool'"
  using assms by (auto simp: apply_signal_def small_payload_def split: tool_signal.splits if_splits)

lemma noted_tool_payload:
  assumes "list_all (\<lambda>(_, tool). small_payload bound tool) (own_tools ow)"
  shows "small_payload bound (noted_tool aid t step ow)"
proof (cases "map_of (own_tools ow) aid")
  case None
  then show ?thesis by (simp add: noted_tool_def small_payload_def tool_assembler_new_def)
next
  case (Some tool)
  then have "small_payload bound tool"
    using assms map_of_list_all [of "own_tools ow" aid tool "\<lambda>(_, tool). small_payload bound tool"] by simp
  then show ?thesis using Some by (simp add: noted_tool_def small_payload_def)
qed

lemma log_inv_tools: "log_inv req takes ow \<Longrightarrow>
  list_all (\<lambda>(_, tool). small_payload (max_bytes_per_tool_action (req_limits req)) tool) (own_tools ow)"
  by (simp add: log_inv_def small_payload_def)

lemma log_inv_on_tool:
  assumes "log_inv req takes ow"
  shows "log_inv req takes (snd (on_tool aid signal t step ow))"
proof (rule on_tool_cases)
  have limits: "own_limits ow = req_limits req" using assms by (simp add: log_inv_def own_limits_def)
  note p = noted_tool_payload [OF log_inv_tools [OF assms], of aid t step]
  note q = apply_signal_payload [OF _ p, unfolded small_payload_def]
  fix e tool k
  assume "apply_signal (max_bytes_per_tool_action (own_limits ow)) (map_of (own_tools ow) aid = None) signal
        (noted_tool aid t step ow) = (Some e, tool, k)"
  then show "log_inv req takes (snd (Some e, ow\<lparr>own_tools := assoc_put aid tool (own_tools ow)\<rparr>))"
    using log_inv_tool_publish(1) [OF assms q, where mk = Created] by (simp add: limits)
next
  have limits: "own_limits ow = req_limits req" using assms by (simp add: log_inv_def own_limits_def)
  note p = noted_tool_payload [OF log_inv_tools [OF assms], of aid t step]
  note q = apply_signal_payload [OF _ p, unfolded small_payload_def]
  fix tool k
  assume "apply_signal (max_bytes_per_tool_action (own_limits ow)) (map_of (own_tools ow) aid = None) signal
        (noted_tool aid t step ow) = (None, tool, k)"
  then show "log_inv req takes (snd (own_publish (Unit (tool_event k (tool_snapshot tool
      (ow\<lparr>own_tools := assoc_put aid tool (own_tools ow)\<rparr>)))) (ow\<lparr>own_tools := assoc_put aid tool (own_tools ow)\<rparr>)))"
    using log_inv_tool_publish(2) [OF assms q, where mk = "tool_event k"] by (simp add: limits)
qed (use assms in simp)

lemma log_inv_quarantine_tool:
  assumes "log_inv req takes ow"
  shows "log_inv req takes (snd (quarantine_tool i ow))"
proof (cases "map_of (own_tools ow) i")
  case None
  then show ?thesis using assms by (simp add: quarantine_tool_def)
next
  case (Some tool)
  have "case ta_request_payload (mark_incomplete tool) of
      Some p \<Rightarrow> length p \<le> max_bytes_per_tool_action (req_limits req) | None \<Rightarrow> True"
    using map_of_list_all [OF Some log_inv_tools [OF assms]] by (simp add: mark_incomplete_def small_payload_def)
  then show ?thesis
    using Some assms log_inv_tool_publish(2) [OF assms, where mk = Incomplete and tool = "mark_incomplete tool"]
    by (simp add: quarantine_tool_def Let_def)
qed

lemma log_inv_fresh:
  assumes "log_inv req takes ow"
    and "ow' = ow\<lparr>next_unit := n, lane_ordinals := lo,
      sentence_count := sentence_count ow + (case u of Text _ \<Rightarrow> 1 | _ \<Rightarrow> 0)\<rparr>"
    and "\<And>a. u \<noteq> Tool a"
  shows "log_inv req takes (snd (own_publish (Unit (Created (snapshot i 1 UnitComplete l t s u ow'))) ow'))"
  using assms
  by (intro log_inv_publish) (auto simp: log_inv_def snapshot_correlated split: canonical_unit.splits)

interpretation log: owner_invariant "log_inv req takes" for req takes
proof (unfold_locales, goal_cases)
  case (1 ow c sm)
  show ?case
    unfolding emit_sentence_def next_lane_ordinal_def Let_def split_beta fst_conv snd_conv
    by (rule log_inv_fresh [OF 1, where n = "next_unit ow + 1"]) (rule owner.equality, simp_all)
next
  case (2 ow k)
  show ?case
    unfolding emit_boundary_def Let_def
    by (rule log_inv_fresh [OF 2, where n = "next_unit ow + 1" and lo = "lane_ordinals ow"]) simp_all
next
  case (3 ow d msg)
  show ?case
    unfolding emit_diagnostic_def Let_def
    by (rule log_inv_fresh [OF 3, where n = "next_unit ow + 1" and lo = "lane_ordinals ow"]) simp_all
next
  case (4 ow aid signal t step)
  then show ?case by (rule log_inv_on_tool)
next
  case (5 ow aid)
  then show ?case by (rule log_inv_quarantine_tool)
qed (simp_all add: log_inv_def)

lemma log_inv_new: "log_inv req takes (owner_new req takes)"
  by (cases takes) (simp_all add: log_inv_def owner_new_def publisher_new_def takes_left_def sentences_sent_def)

section \<open>Bounds\<close>

definition bounds_inv :: "start_interpretation \<Rightarrow> owner \<Rightarrow> bool" where
  "bounds_inv req ow \<longleftrightarrow>
     own_request ow = req \<and>
     length (own_tools ow) \<le> max_pending_tool_actions (req_limits req) \<and>
     length (frame_buf ow) \<le> max_undecoded_bytes (req_limits req) \<and>
     list_all (\<lambda>(_, asm). buffered_bytes (segmenter asm) \<le> max_sentence_assembly_bytes (req_limits req))
       (channels ow) \<and>
     sse_inv (openai ow) \<and>
     max_line_bytes (openai ow) = max (min (max_frame_bytes (req_limits req)) (64 * 1024)) 64 \<and>
     max_tool_arg_bytes (openai ow) = max (max_bytes_per_tool_action (req_limits req)) 64"

lemma bounds_inv_on_tool:
  assumes "bounds_inv req ow"
  shows "bounds_inv req (snd (on_tool aid signal t step ow))"
  by (rule on_tool_cases)
    (use assms in \<open>auto simp: bounds_inv_def own_limits_def assoc_put_length\<close>)

lemma bounds_inv_quarantine_tool:
  assumes "bounds_inv req ow"
  shows "bounds_inv req (snd (quarantine_tool i ow))"
  using assms by (cases "map_of (own_tools ow) i")
    (auto simp: quarantine_tool_def Let_def bounds_inv_def assoc_put_length)

lemma bounds_inv_channel:
  assumes "bounds_inv req ow" and "channel_step c asm ow"
  shows "bounds_inv req (ow\<lparr>channels := assoc_put c asm (channels ow)\<rparr>)"
proof -
  have old: "buffered_bytes (segmenter old) \<le> max_sentence_assembly_bytes (req_limits req)"
    if "map_of (channels ow) c = Some old" for old
    using map_of_list_all [OF that, of "\<lambda>(_, asm). buffered_bytes (segmenter asm) \<le> max_sentence_assembly_bytes (req_limits req)"]
      assms(1) by (simp add: bounds_inv_def)
  have "buffered_bytes (segmenter asm) \<le> max_sentence_assembly_bytes (req_limits req)"
    using assms old by (auto simp: channel_step_def bounds_inv_def own_limits_def split: option.splits intro: le_trans)
  then show ?thesis using assms(1) by (auto simp: bounds_inv_def intro!: assoc_put_all)
qed

interpretation bounds: owner_invariant "bounds_inv req" for req
proof (unfold_locales, goal_cases)
  case (4 ow aid signal t step)
  then show ?case by (rule bounds_inv_on_tool)
next
  case (5 ow aid)
  then show ?case by (rule bounds_inv_quarantine_tool)
next
  case (6 ow c asm)
  then show ?case by (rule bounds_inv_channel)
qed (auto simp: bounds_inv_def emit_sentence_def emit_boundary_def emit_diagnostic_def
    next_lane_ordinal_def Let_def frame_step_def openai_step_def same_bounds_def own_limits_def
    split: prod.split)

lemma bounds_inv_new: "bounds_inv req (owner_new req takes)"
  by (simp add: bounds_inv_def owner_new_def sse_inv_def openai_new_def)

section \<open>Unit identities\<close>

fun event_snaps :: "interpreter_output_event \<Rightarrow> canonical_unit_snapshot list" where
  "event_snaps (Unit ev) = [event_snapshot ev]"
| "event_snaps (Ended _) = []"

definition snaps :: "interpreter_output_event list \<Rightarrow> canonical_unit_snapshot list" where
  "snaps evs = concat (map event_snaps evs)"

definition newer :: "canonical_unit_snapshot \<Rightarrow> canonical_unit_snapshot \<Rightarrow> bool" where
  "newer a b \<longleftrightarrow> unit_id a = unit_id b \<longrightarrow> unit_generation a < unit_generation b"

text \<open>Every identity in the log is one already handed out, at a generation already reached.\<close>

definition numbered :: "nat \<Rightarrow> string \<Rightarrow> bool" where
  "numbered n i \<longleftrightarrow> (\<exists>k<n. i \<in> {''s-'' @ nat_str k, ''b-'' @ nat_str k, ''d-'' @ nat_str k})"

definition known_unit :: "owner \<Rightarrow> canonical_unit_snapshot \<Rightarrow> bool" where
  "known_unit ow s \<longleftrightarrow>
     numbered (next_unit ow) (unit_id s) \<or>
     (\<exists>aid tool. map_of (own_tools ow) aid = Some tool \<and> unit_id s = ''tool-'' @ aid \<and>
        unit_generation s \<le> ta_generation tool)"

definition gen_inv :: "owner \<Rightarrow> bool" where
  "gen_inv ow \<longleftrightarrow>
     sorted_wrt newer (snaps (sent (own_pub ow))) \<and>
     list_all (known_unit ow) (snaps (sent (own_pub ow))) \<and>
     list_all (\<lambda>(aid, tool). ta_unit_id tool = ''tool-'' @ aid) (own_tools ow)"

lemma snaps_append [simp]: "snaps (a @ b) = snaps a @ snaps b"
  by (simp add: snaps_def)

lemma snaps_Unit [simp]: "snaps [Unit ev] = [event_snapshot ev]"
  by (simp add: snaps_def)

lemma gen_inv_publish:
  assumes "gen_inv ow" and "known_unit ow (event_snapshot ev)"
    and "list_all (\<lambda>s. newer s (event_snapshot ev)) (snaps (sent (own_pub ow)))"
  shows "gen_inv (snd (own_publish (Unit ev) ow))"
proof -
  have k: "known_unit (snd (own_publish (Unit ev) ow)) = known_unit ow"
    by (intro ext) (simp add: known_unit_def)
  show ?thesis
    using assms unfolding gen_inv_def k
    by (auto simp: publish_sent sorted_wrt_append list_all_iff)
qed

lemma known_unit_mono:
  assumes "known_unit ow s" and "next_unit ow \<le> next_unit ow'" and "own_tools ow' = own_tools ow"
  shows "known_unit ow' s"
  using assms by (auto simp: known_unit_def numbered_def intro: less_le_trans)

lemma numbered_fresh: "numbered n i \<Longrightarrow> i \<notin> {''s-'' @ nat_str n, ''b-'' @ nat_str n, ''d-'' @ nat_str n}"
  by (auto simp: numbered_def dest: nat_str_inj)

lemma gen_inv_fresh:
  assumes "gen_inv ow" and "next_unit ow' = next_unit ow + 1" and "own_tools ow' = own_tools ow"
    and "own_pub ow' = own_pub ow"
    and "i \<in> {''s-'' @ nat_str (next_unit ow), ''b-'' @ nat_str (next_unit ow), ''d-'' @ nat_str (next_unit ow)}"
  shows "gen_inv (snd (own_publish (Unit (Created (snapshot i g st l t s u ow''))) ow'))"
proof (rule gen_inv_publish)
  have m: "known_unit ow' x" if "known_unit ow x" for x
    using that assms(2,3) by (auto intro: known_unit_mono)
  show "gen_inv ow'"
    using assms(1,3,4) m by (auto simp: gen_inv_def list_all_iff)
  show "known_unit ow' (event_snapshot (Created (snapshot i g st l t s u ow'')))"
    using assms(2,5) by (auto simp: known_unit_def numbered_def snapshot_def)
  have "newer x (snapshot i g st l t s u ow'')" if "known_unit ow x" for x
    using that assms(5) numbered_fresh [of "next_unit ow" "unit_id x"]
    by (auto simp: newer_def snapshot_def known_unit_def)
  then show "list_all (\<lambda>x. newer x (event_snapshot (Created (snapshot i g st l t s u ow''))))
      (snaps (sent (own_pub ow')))"
    using assms(1,4) by (auto simp: gen_inv_def list_all_iff)
qed

lemma numbered_not_tool: "\<not> numbered n (''tool-'' @ aid)"
  by (auto simp: numbered_def)

lemma gen_inv_tool:
  assumes "gen_inv ow" and "ta_unit_id tool = ''tool-'' @ aid"
    and "\<And>old. map_of (own_tools ow) aid = Some old \<Longrightarrow> ta_generation old < ta_generation tool"
    and "\<And>s. event_snapshot (mk s) = s"
  defines "ow' \<equiv> ow\<lparr>own_tools := assoc_put aid tool (own_tools ow)\<rparr>"
  shows "gen_inv ow'" and "gen_inv (snd (own_publish (Unit (mk (tool_snapshot tool ow'))) ow'))"
proof -
  have known: "known_unit ow' s" if "known_unit ow s" for s
    using that assms(3) unfolding known_unit_def ow'_def
    by (fastforce simp: map_of_assoc_put)
  show put: "gen_inv ow'"
    using assms(1,2) known by (auto simp: gen_inv_def ow'_def list_all_iff [of "known_unit _"] intro!: assoc_put_all)
  have "newer s (tool_snapshot tool ow')" if "known_unit ow s" for s
    using that assms(2,3) numbered_not_tool
    by (auto simp: newer_def tool_snapshot_def snapshot_def known_unit_def intro: le_less_trans)
  then have "list_all (\<lambda>s. newer s (tool_snapshot tool ow')) (snaps (sent (own_pub ow')))"
    using assms(1) by (auto simp: gen_inv_def ow'_def list_all_iff)
  moreover have "known_unit ow' (tool_snapshot tool ow')"
    using assms(2) by (auto simp: known_unit_def tool_snapshot_def snapshot_def ow'_def map_of_assoc_put)
  ultimately show "gen_inv (snd (own_publish (Unit (mk (tool_snapshot tool ow'))) ow'))"
    using put assms(4) by (intro gen_inv_publish) simp_all
qed

lemma gen_inv_unit_id: "gen_inv ow \<Longrightarrow> map_of (own_tools ow) aid = Some tool \<Longrightarrow> ta_unit_id tool = ''tool-'' @ aid"
  using map_of_list_all [of "own_tools ow" aid tool "\<lambda>(aid, tool). ta_unit_id tool = ''tool-'' @ aid"]
  by (simp add: gen_inv_def)

lemma noted_tool_identity:
  assumes "gen_inv ow"
  shows "ta_unit_id (noted_tool aid t step ow) = ''tool-'' @ aid"
    and "map_of (own_tools ow) aid = Some old \<Longrightarrow> ta_generation old < ta_generation (noted_tool aid t step ow)"
  using gen_inv_unit_id [OF assms, of aid]
  by (cases "map_of (own_tools ow) aid"; simp add: noted_tool_def tool_assembler_new_def Let_def)+

lemma apply_signal_identity:
  assumes "apply_signal bound n signal tool = (e, tool', k)"
  shows "ta_unit_id tool' = ta_unit_id tool" and "ta_generation tool' = ta_generation tool"
  using assms by (auto simp: apply_signal_def split: tool_signal.splits if_splits)

lemma gen_inv_on_tool:
  assumes "gen_inv ow"
  shows "gen_inv (snd (on_tool aid signal t step ow))"
proof (rule on_tool_cases)
  fix e tool k
  assume "apply_signal (max_bytes_per_tool_action (own_limits ow)) (map_of (own_tools ow) aid = None) signal
        (noted_tool aid t step ow) = (Some e, tool, k)"
  note a = apply_signal_identity [OF this]
  show "gen_inv (snd (Some e, ow\<lparr>own_tools := assoc_put aid tool (own_tools ow)\<rparr>))"
    using gen_inv_tool(1) [OF assms, of tool aid Created] noted_tool_identity [OF assms, of aid] a by simp
next
  fix tool k
  assume "apply_signal (max_bytes_per_tool_action (own_limits ow)) (map_of (own_tools ow) aid = None) signal
        (noted_tool aid t step ow) = (None, tool, k)"
  note a = apply_signal_identity [OF this]
  show "gen_inv (snd (own_publish (Unit (tool_event k (tool_snapshot tool
      (ow\<lparr>own_tools := assoc_put aid tool (own_tools ow)\<rparr>)))) (ow\<lparr>own_tools := assoc_put aid tool (own_tools ow)\<rparr>)))"
    using gen_inv_tool(2) [OF assms, of tool aid "tool_event k"] noted_tool_identity [OF assms, of aid] a by simp
qed (use assms in simp)

lemma gen_inv_quarantine_tool:
  assumes "gen_inv ow"
  shows "gen_inv (snd (quarantine_tool i ow))"
proof (cases "map_of (own_tools ow) i")
  case None
  then show ?thesis using assms by (simp add: quarantine_tool_def)
next
  case (Some tool)
  then show ?thesis
    using assms gen_inv_tool(2) [OF assms, of "mark_incomplete tool" i Incomplete] gen_inv_unit_id [OF assms Some]
    by (simp add: quarantine_tool_def Let_def mark_incomplete_def)
qed

interpretation gen: owner_invariant gen_inv
proof (unfold_locales, goal_cases)
  case (1 ow c sm)
  show ?case
    unfolding emit_sentence_def next_lane_ordinal_def Let_def split_beta fst_conv snd_conv
    by (rule gen_inv_fresh [OF 1]) simp_all
next
  case (2 ow k)
  show ?case unfolding emit_boundary_def Let_def by (rule gen_inv_fresh [OF 2]) simp_all
next
  case (3 ow d msg)
  show ?case unfolding emit_diagnostic_def Let_def by (rule gen_inv_fresh [OF 3]) simp_all
next
  case (4 ow aid signal t step)
  then show ?case by (rule gen_inv_on_tool)
next
  case (5 ow aid)
  then show ?case by (rule gen_inv_quarantine_tool)
qed (simp_all add: gen_inv_def known_unit_def [abs_def])

lemma gen_inv_new: "gen_inv (owner_new req takes)"
  by (simp add: gen_inv_def owner_new_def publisher_new_def snaps_def)

section \<open>Ordinals\<close>

fun event_ordinals :: "text_channel \<Rightarrow> interpreter_output_event \<Rightarrow> nat list" where
  "event_ordinals c (Unit ev) =
     (case snapshot_unit (event_snapshot ev) of
        Text s \<Rightarrow> if sentence_channel s = c then [sentence_ordinal s] else []
      | _ \<Rightarrow> [])"
| "event_ordinals c (Ended _) = []"

definition ordinals :: "text_channel \<Rightarrow> interpreter_output_event list \<Rightarrow> nat list" where
  "ordinals c evs = concat (map (event_ordinals c) evs)"

fun event_lane :: "interpreter_output_event \<Rightarrow> (string \<times> nat) list" where
  "event_lane (Unit ev) = [(lane_id (event_snapshot ev), lane_ordinal (event_snapshot ev))]"
| "event_lane (Ended _) = []"

definition lanes :: "interpreter_output_event list \<Rightarrow> (string \<times> nat) list" where
  "lanes evs = concat (map event_lane evs)"

text \<open>The numbers one, two, three and so on, in order.\<close>

definition consecutive :: "nat list \<Rightarrow> bool" where
  "consecutive ns \<longleftrightarrow> ns = [1..<Suc (length ns)]"

lemma consecutive_Nil [simp]: "consecutive []"
  by (simp add: consecutive_def)

lemma consecutive_snoc: "consecutive ns \<Longrightarrow> consecutive (ns @ [Suc (length ns)])"
  by (simp add: consecutive_def)

definition lane_inv :: "owner \<Rightarrow> bool" where
  "lane_inv ow \<longleftrightarrow>
     map_of (lane_ordinals ow) lane_tool = None \<and>
     list_all (\<lambda>(l, n). l = lane_tool \<longrightarrow> n = 0) (lanes (sent (own_pub ow))) \<and>
     (\<forall>c. consecutive (ordinals c (sent (own_pub ow))) \<and>
       (receiver_takes (own_pub ow) \<noteq> Some 0 \<longrightarrow>
          length (ordinals c (sent (own_pub ow))) = unwrap_or 0 (map_of (lane_ordinals ow) (channel_lane c))))"

lemma ordinals_append [simp]: "ordinals c (a @ b) = ordinals c a @ ordinals c b"
  by (simp add: ordinals_def)

lemma lanes_append [simp]: "lanes (a @ b) = lanes a @ lanes b"
  by (simp add: lanes_def)

lemma lanes_single [simp]: "lanes [ev] = event_lane ev" "ordinals c [ev] = event_ordinals c ev"
  by (simp_all add: lanes_def ordinals_def)

lemma channel_lane_inj: "channel_lane c = channel_lane c' \<longleftrightarrow> c = c'"
  by (cases c; cases c') (simp_all add: lane_response_def lane_reasoning_def)

lemma channel_lane_not_tool: "channel_lane c \<noteq> lane_tool"
  by (cases c) (simp_all add: lane_response_def lane_reasoning_def lane_tool_def)

lemma lane_inv_publish_plain:
  assumes "lane_inv ow" and "\<And>c. event_ordinals c ev = []"
    and "list_all (\<lambda>(l, n). l = lane_tool \<longrightarrow> n = 0) (event_lane ev)"
  shows "lane_inv (snd (own_publish ev ow))"
  using assms receiver_takes_publish [of ev "own_pub ow"] by (auto simp: lane_inv_def publish_sent)

lemma lane_inv_cong:
  assumes "lane_inv ow" and "own_pub ow' = own_pub ow" and "lane_ordinals ow' = lane_ordinals ow"
  shows "lane_inv ow'"
  using assms by (simp add: lane_inv_def)

lemma lane_inv_tool_publish:
  assumes "lane_inv ow" and "\<And>s. event_snapshot (mk s) = s"
  shows "lane_inv (snd (own_publish (Unit (mk (tool_snapshot tool (ow\<lparr>own_tools := ts\<rparr>)))) (ow\<lparr>own_tools := ts\<rparr>)))"
proof (rule lane_inv_publish_plain)
  show "lane_inv (ow\<lparr>own_tools := ts\<rparr>)" using assms(1) by (rule lane_inv_cong) simp_all
qed (use assms in \<open>simp_all add: tool_snapshot_def tool_unit_def snapshot_def lane_inv_def\<close>)

lemma lane_inv_sentence:
  assumes "lane_inv ow"
  shows "lane_inv (snd (emit_sentence c sm ow))"
proof -
  define n where "n = unwrap_or 0 (map_of (lane_ordinals ow) (channel_lane c)) + 1"
  define ev where "ev = Unit (Created (snapshot (''s-'' @ nat_str (next_unit ow)) 1 UnitComplete (channel_lane c)
    (meta_time (snd sm)) (meta_step (snd sm))
    (Text \<lparr>sentence_id = ''s-'' @ nat_str (next_unit ow), sentence_channel = c, paragraph_id = None,
      sentence_ordinal = n, sentence_content = fst sm\<rparr>)
    (ow\<lparr>next_unit := next_unit ow + 1, sentence_count := sentence_count ow + 1,
      lane_ordinals := assoc_put (channel_lane c) n (lane_ordinals ow)\<rparr>)))"
  have r: "emit_sentence c sm ow = own_publish ev (ow\<lparr>next_unit := next_unit ow + 1,
      sentence_count := sentence_count ow + 1, lane_ordinals := assoc_put (channel_lane c) n (lane_ordinals ow)\<rparr>)"
    by (simp add: emit_sentence_def next_lane_ordinal_def ev_def n_def split_beta Let_def)
  have o: "event_ordinals c' ev = (if c' = c then [n] else [])" for c'
    by (simp add: ev_def)
  have l: "event_lane ev = [(channel_lane c, n)]"
    by (simp add: ev_def snapshot_def map_of_assoc_put)
  show ?thesis
    unfolding r lane_inv_def
    using assms channel_lane_not_tool [of c] receiver_takes_publish [of ev "own_pub ow"]
      consecutive_snoc [of "ordinals c (sent (own_pub ow))"]
    by (auto simp: publish_sent lane_inv_def o l map_of_assoc_put channel_lane_inj n_def)
qed

lemma lane_inv_on_tool:
  assumes "lane_inv ow"
  shows "lane_inv (snd (on_tool aid signal t step ow))"
proof (rule on_tool_cases)
  fix e tool k
  show "lane_inv (snd (Some e, ow\<lparr>own_tools := assoc_put aid tool (own_tools ow)\<rparr>))"
    using assms by (simp add: lane_inv_cong)
  show "lane_inv (snd (own_publish (Unit (tool_event k (tool_snapshot tool
      (ow\<lparr>own_tools := assoc_put aid tool (own_tools ow)\<rparr>)))) (ow\<lparr>own_tools := assoc_put aid tool (own_tools ow)\<rparr>)))"
    using assms by (rule lane_inv_tool_publish) simp
qed (use assms in simp)

interpretation lane: owner_invariant lane_inv
proof (unfold_locales, goal_cases)
  case (1 ow c sm)
  then show ?case by (rule lane_inv_sentence)
next
  case (2 ow k)
  then show ?case unfolding emit_boundary_def Let_def
    by (intro lane_inv_publish_plain)
      (auto intro: lane_inv_cong simp: snapshot_def lane_tool_def lane_response_def)
next
  case (3 ow d msg)
  then show ?case unfolding emit_diagnostic_def Let_def
    by (intro lane_inv_publish_plain)
      (auto intro: lane_inv_cong simp: snapshot_def lane_tool_def lane_response_def)
next
  case (4 ow aid signal t step)
  then show ?case by (rule lane_inv_on_tool)
next
  case (5 ow aid)
  then show ?case
    by (auto simp: quarantine_tool_def Let_def split: option.split intro!: lane_inv_tool_publish)
qed (simp_all add: lane_inv_def)

lemma lane_inv_new: "lane_inv (owner_new req takes)"
  by (simp add: lane_inv_def owner_new_def publisher_new_def ordinals_def lanes_def)

section \<open>Properties\<close>

text \<open>
  C1. Every interpretation ends with exactly one report, whatever the commands, the dialect and
  the bytes: the published stream is a sequence of canonical units of this interpretation
  followed by the report, whose event count is the number of units before it. The only way
  the report is missing from the stream is that the receiver went away first.
\<close>

theorem exactly_one_report:
  "\<exists>report units.
     fst (run env cmds (owner_new req takes)) = Some report \<and>
     list_all (unit_ok req) units \<and>
     canonical_event_count report = length units \<and>
     sent (own_pub (snd (run env cmds (owner_new req takes))))
       = units @ (if takes = Some (length units) then [] else [Ended report])"
proof -
  obtain k ow where ow: "log_inv req takes ow" and r: "run env cmds (owner_new req takes) = finish k ow"
    using log.run_finishes [OF log_inv_new] by blast
  have "takes = Some (length (sent (own_pub ow))) \<longleftrightarrow> receiver_takes (own_pub ow) = Some 0"
    using ow by (auto simp: log_inv_def takes_left_def)
  then show ?thesis
    using ow unfolding r
    by (intro exI [of _ "the (fst (finish k ow))"] exI [of _ "sent (own_pub ow)"])
      (auto simp: finish_def log_inv_def takes_left_def Let_def publish_sent)
qed

text \<open>
  While the receiver stays, the sentence count of the report is the number of sentences in
  the published stream.
\<close>

theorem sentences_counted:
  "map_option completed_sentence_count (fst (run env cmds (owner_new req None)))
    = Some (sentences_sent (sent (own_pub (snd (run env cmds (owner_new req None))))))"
proof -
  obtain k ow where ow: "log_inv req None ow" and r: "run env cmds (owner_new req None) = finish k ow"
    using log.run_finishes [OF log_inv_new] by blast
  then show ?thesis
    unfolding r by (auto simp: finish_def log_inv_def takes_left_def Let_def publish_sent sentences_sent_def)
qed

text \<open>
  C18. Canonical units never go back: two events about the same unit are published in the order
  of strictly increasing generations, so no pair of unit and generation occurs twice, and
  sentence, boundary, diagnostic and tool identities never collide.
\<close>

theorem generations_increase:
  "sorted_wrt newer (snaps (sent (own_pub (snd (run env cmds (owner_new req takes))))))"
proof -
  obtain k ow where ow: "gen_inv ow" and r: "run env cmds (owner_new req takes) = finish k ow"
    using gen.run_finishes [OF gen_inv_new] by blast
  then show ?thesis
    unfolding r by (auto simp: finish_def gen_inv_def Let_def publish_sent snaps_def)
qed

text \<open>
  C29. These buffers are within the configured limits at every point where the task stops, in
  any run: buffered text per channel, undecoded bytes, the number of tool actions and, of the
  assembler of chat completions, the unfinished line, every data line of the pending event and
  the arguments of every partial call.
\<close>

theorem owner_memory_bounded:
  "bounds_inv req (snd (run env cmds (owner_new req takes)))"
proof -
  obtain k ow where ow: "bounds_inv req ow" and r: "run env cmds (owner_new req takes) = finish k ow"
    using bounds.run_finishes [OF bounds_inv_new] by blast
  then show ?thesis
    unfolding r by (auto simp: finish_def bounds_inv_def Let_def)
qed

text \<open>
  Within a text channel the sentence ordinals are strict and have no gaps: they are
  published as one, two, three and so on.
\<close>

theorem sentence_ordinals_strict:
  "consecutive (ordinals c (sent (own_pub (snd (run env cmds (owner_new req takes))))))"
proof -
  obtain k ow where ow: "lane_inv ow" and r: "run env cmds (owner_new req takes) = finish k ow"
    using lane.run_finishes [OF lane_inv_new] by blast
  have "ordinals c (sent (own_pub (snd (finish k ow)))) = ordinals c (sent (own_pub ow))"
    by (simp add: finish_def Let_def publish_sent)
  then show ?thesis using ow unfolding r lane_inv_def by simp
qed

text \<open>
  The tool lane, in contrast, has no order at all: every event published on it carries the
  ordinal zero, although the documentation promises a strict ordinal within every lane.
\<close>

theorem tool_lane_unordered:
  "list_all (\<lambda>(l, n). n = 0)
     (filter (\<lambda>(l, n). l = lane_tool) (lanes (sent (own_pub (snd (run env cmds (owner_new req takes)))))))"
proof -
  obtain k ow where ow: "lane_inv ow" and r: "run env cmds (owner_new req takes) = finish k ow"
    using lane.run_finishes [OF lane_inv_new] by blast
  have "lanes (sent (own_pub (snd (finish k ow)))) = lanes (sent (own_pub ow))"
    by (simp add: finish_def Let_def publish_sent)
  then show ?thesis using ow unfolding r lane_inv_def by (auto simp: list_all_iff)
qed

text \<open>
  The factory and the engine agree on the dialects they accept.
\<close>

theorem factory_agrees_with_engine:
  "(validate_dialect env d = None \<longleftrightarrow> supports d = FullSupport) \<and>
   (start env req takes cmds = Ok (run env cmds (owner_new req takes)) \<longleftrightarrow> supports (req_dialect req) = FullSupport)"
  by (cases "family (binding_output d)"; cases "family (binding_output (req_dialect req))")
    (simp_all add: start_def supports_def supported_family_def validate_dialect_def Let_def)

section \<open>Two endings\<close>

definition plain_env :: "json_codec \<Rightarrow> engine_env" where
  "plain_env codec = \<lparr>env_codec = codec, channel_order = id, tool_order = id, index_order = id, debug_str = id\<rparr>"

definition dialect_of :: "dialect_family \<Rightarrow> dialect_binding" where
  "dialect_of fam =
     (let d = \<lparr>family = fam, dialect_version = [], framing = [], dialect_profile = None\<rparr>
      in \<lparr>binding_input = d, binding_output = d, negotiation = Fixed\<rparr>)"

definition small_request :: "dialect_family \<Rightarrow> start_interpretation" where
  "small_request fam =
     \<lparr>req_interpretation_id = ''i'', req_connection_id = ''c'', req_session_id = None,
      req_dialect = dialect_of fam,
      req_limits = \<lparr>max_undecoded_bytes = 20, max_frame_bytes = 20, max_sentence_assembly_bytes = 20,
        max_structural_atom_bytes = 20, max_pending_tool_actions = 2, max_bytes_per_tool_action = 20,
        max_output_queue_items = 20, max_safe_diagnostics = 0\<rparr>\<rparr>"

text \<open>The initial state with its sizes worked out.\<close>

definition small_owner :: "dialect_family \<Rightarrow> owner" where
  "small_owner fam =
     \<lparr>own_request = small_request fam, own_pub = publisher_new None, channels = [], own_tools = [],
      lane_ordinals = [], next_unit = 1, sentence_count = 0, structure_count = 0,
      source_bytes = 0, frame_buf = [], ended = False, diagnostics = [],
      response_started = False, unresolved_bytes_at_end = 0,
      openai = \<lparr>line_carry = [], event_data_lines = [], sse_tools = [], saw_done = False,
        choice_index = 0, max_line_bytes = 64, max_event_bytes = 64, max_tool_arg_bytes = 64\<rparr>\<rparr>"

lemma small_owner: "owner_new (small_request fam) None = small_owner fam"
  by (simp add: small_owner_def owner_new_def openai_new_def small_request_def)

text \<open>
  The bound on retained diagnostics does not hold for cancelled interpretations: with room
  for none, the report still carries one, and with unfinished text on every channel four.
\<close>

theorem diagnostics_exceed_bound:
  "map_option (\<lambda>r. length (safe_diagnostics r))
     (fst (run (plain_env hello_codec) [Bytes ''abc'', Cancel] (owner_new (small_request Test) None)))
   = Some (max_safe_diagnostics (req_limits (small_request Test)) + 1)"
  unfolding small_owner by code_simp

text \<open>
  A clean end is reported as complete even when half a frame is still undecoded.
\<close>

theorem complete_with_undecoded_frame:
  "map_option (\<lambda>r. (end_kind r, unresolved_text_bytes r))
     (fst (run (plain_env hello_codec) [Bytes ''{'', FinishClean] (owner_new (small_request Acp) None)))
   = Some (EndComplete, 1)"
  unfolding small_owner by code_simp

definition call_codec :: json_codec where
  "call_codec =
     \<lparr>from_slice = (\<lambda>_. Err []),
      from_str = (\<lambda>_. Some (JObject [(''choices'', JArray [JObject [(''delta'',
        JObject [(''tool_calls'', JArray [JObject [(''id'', JString ''t'')]])])]])])),
      to_json_string = (\<lambda>_. []), to_vec = (\<lambda>_. Some [])\<rparr>"

fun is_incomplete_event :: "interpreter_output_event \<Rightarrow> bool" where
  "is_incomplete_event (Unit (Incomplete _)) = True"
| "is_incomplete_event _ = False"

text \<open>
  An abrupt end is documented to mark unfinished tool actions explicitly. A cancelled
  interpretation does, but one that fails on malformed bytes does not: its waiting tool
  action is never reported incomplete.
\<close>

theorem failed_ingest_leaves_tool_waiting:
  "(case run (plain_env call_codec) [Bytes hello_event, Cancel] (owner_new (small_request OpenAiChatCompletions) None)
     of (r, ow) \<Rightarrow> map_option end_kind r = Some EndCancelled \<and> list_ex is_incomplete_event (sent (own_pub ow))) \<and>
   (case run (plain_env call_codec) [Bytes hello_event, Bytes [CHR 0xFF, CHR 0x0A]]
           (owner_new (small_request OpenAiChatCompletions) None)
     of (r, ow) \<Rightarrow> map_option end_kind r = Some EndDialectFailed \<and>
       \<not> list_ex is_incomplete_event (sent (own_pub ow)) \<and>
       map_option ta_terminal (map_of (own_tools ow) ''t'') = Some None)"
  unfolding small_owner by code_simp

end
