(* ===== verification/Engine_Chunking.thy ===== *)
theory Engine_Chunking
  imports Engine_Invariants
begin

text \<open>
  The end-to-end version of the framing theorems: for the dialects framed as JSON texts or as
  lines, the owner does not see where one chunk of bytes ended and the next began.
\<close>

section \<open>Handlers do not look at the frame buffer\<close>

definition frame_blind :: "owner_step \<Rightarrow> bool" where
  "frame_blind f \<longleftrightarrow> (\<forall>ow b. f (ow\<lparr>frame_buf := b\<rparr>) = (fst (f ow), (snd (f ow))\<lparr>frame_buf := b\<rparr>))"

lemma frame_blindI:
  "(\<And>ow b. f (ow\<lparr>frame_buf := b\<rparr>) = (fst (f ow), (snd (f ow))\<lparr>frame_buf := b\<rparr>)) \<Longrightarrow> frame_blind f"
  by (simp add: frame_blind_def)

lemma frame_blindD:
  "frame_blind f \<Longrightarrow> f (ow\<lparr>frame_buf := b\<rparr>) = (fst (f ow), (snd (f ow))\<lparr>frame_buf := b\<rparr>)"
  by (simp add: frame_blind_def)

lemma frame_blind_for_each:
  assumes "\<And>x. frame_blind (f x)"
  shows "frame_blind (for_each f xs)"
proof (rule frame_blindI)
  fix ow b
  show "for_each f xs (ow\<lparr>frame_buf := b\<rparr>) = (fst (for_each f xs ow), (snd (for_each f xs ow))\<lparr>frame_buf := b\<rparr>)"
  proof (induction xs arbitrary: ow)
    case (Cons x xs)
    obtain e ow' where "f x ow = (e, ow')" by fastforce
    then show ?case using frame_blindD [OF assms, of x b ow] Cons.IH [of ow'] by (cases e) simp_all
  qed simp
qed

lemma frame_blind_and_then:
  assumes "frame_blind f" and "frame_blind g"
  shows "frame_blind (\<lambda>ow. and_then (f ow) g)"
proof (rule frame_blindI)
  fix ow b
  obtain e ow' where "f ow = (e, ow')" by fastforce
  then show "and_then (f (ow\<lparr>frame_buf := b\<rparr>)) g = (fst (and_then (f ow) g), (snd (and_then (f ow) g))\<lparr>frame_buf := b\<rparr>)"
    using frame_blindD [OF assms(1), of b ow] frame_blindD [OF assms(2), of b ow'] by (cases e) simp_all
qed

lemma snapshot_frame [simp]: "snapshot i g st l t s u (ow\<lparr>frame_buf := b\<rparr>) = snapshot i g st l t s u ow"
  by (simp add: snapshot_def)

lemma own_publish_blind: "frame_blind (own_publish ev)"
  by (rule frame_blindI) (simp add: own_publish_def split: prod.split)

lemma emit_sentence_blind: "frame_blind (emit_sentence c sm)"
  by (rule frame_blindI)
    (simp add: emit_sentence_def next_lane_ordinal_def own_publish_def snapshot_def split_beta Let_def)

lemma emit_boundary_blind: "frame_blind (emit_boundary k)"
  by (rule frame_blindI) (simp add: emit_boundary_def own_publish_def snapshot_def split_beta Let_def)

lemma emit_diagnostic_blind: "frame_blind (emit_diagnostic k m)"
  by (rule frame_blindI) (simp add: emit_diagnostic_def own_publish_def snapshot_def split_beta Let_def)

lemma on_tool_blind: "frame_blind (on_tool aid signal t step)"
  by (rule frame_blindI)
    (simp add: on_tool_def own_publish_def tool_snapshot_def snapshot_def own_limits_def split_beta Let_def
      split: option.split)

lemma frame_channels:
  "ow\<lparr>frame_buf := b, channels := cs\<rparr> = ow\<lparr>channels := cs, frame_buf := b\<rparr>"
  "ow\<lparr>frame_buf := b, response_started := r\<rparr> = ow\<lparr>response_started := r, frame_buf := b\<rparr>"
  by simp_all

lemma on_text_blind: "frame_blind (on_text c tx t step)"
proof (rule frame_blindI)
  fix ow b
  have "for_each (emit_sentence c) xs (ow\<lparr>frame_buf := b, channels := cs\<rparr>)
    = (fst (for_each (emit_sentence c) xs (ow\<lparr>channels := cs\<rparr>)),
       (snd (for_each (emit_sentence c) xs (ow\<lparr>channels := cs\<rparr>)))\<lparr>frame_buf := b\<rparr>)" for xs cs
    using frame_blindD [OF frame_blind_for_each [of "emit_sentence c", OF emit_sentence_blind], of xs b "ow\<lparr>channels := cs\<rparr>"]
    by (simp only: frame_channels)
  then show "on_text c tx t step (ow\<lparr>frame_buf := b\<rparr>)
    = (fst (on_text c tx t step ow), (snd (on_text c tx t step ow))\<lparr>frame_buf := b\<rparr>)"
    by (simp add: on_text_def own_limits_def Let_def split_beta)
qed

lemma seal_channel_blind: "frame_blind (seal_channel c)"
proof (rule frame_blindI)
  fix ow b
  have "for_each (emit_sentence c) xs (ow\<lparr>frame_buf := b, channels := cs\<rparr>)
    = (fst (for_each (emit_sentence c) xs (ow\<lparr>channels := cs\<rparr>)),
       (snd (for_each (emit_sentence c) xs (ow\<lparr>channels := cs\<rparr>)))\<lparr>frame_buf := b\<rparr>)" for xs cs
    using frame_blindD [OF frame_blind_for_each [of "emit_sentence c", OF emit_sentence_blind], of xs b "ow\<lparr>channels := cs\<rparr>"]
    by (simp only: frame_channels)
  then show "seal_channel c (ow\<lparr>frame_buf := b\<rparr>)
    = (fst (seal_channel c ow), (snd (seal_channel c ow))\<lparr>frame_buf := b\<rparr>)"
    by (simp add: seal_channel_def Let_def split_beta split: option.split)
qed

lemma seal_text_blind: "frame_blind (seal_text_channels env)"
  by (rule frame_blindI)
    (simp add: seal_text_channels_def frame_blindD [OF frame_blind_for_each [OF seal_channel_blind]])

lemma on_fragment_blind: "frame_blind (on_fragment env frag)"
proof (cases frag)
  case (TextDelta c tx t step)
  then show ?thesis using on_text_blind by (simp add: on_fragment_def [abs_def])
next
  case (ToolFragment aid signal t step)
  then show ?thesis using on_tool_blind by (simp add: on_fragment_def [abs_def])
next
  case ResponseFinishedFragment
  then show ?thesis
    using frame_blind_and_then [OF seal_text_blind emit_boundary_blind] by (simp add: on_fragment_def [abs_def])
next
  case (DiagnosticFragment m)
  have "push_diagnostic m (ow\<lparr>frame_buf := b\<rparr>) = (push_diagnostic m ow)\<lparr>frame_buf := b\<rparr>" for ow b
    by (simp add: push_diagnostic_def own_limits_def)
  then show ?thesis
    using DiagnosticFragment frame_blindD [OF emit_diagnostic_blind]
    by (simp add: on_fragment_def frame_blind_def)
qed

lemma start_response_blind: "frame_blind start_response"
proof (rule frame_blindI)
  fix ow b
  show "start_response (ow\<lparr>frame_buf := b\<rparr>) = (fst (start_response ow), (snd (start_response ow))\<lparr>frame_buf := b\<rparr>)"
    using frame_blindD [OF emit_boundary_blind, of ResponseStarted b "ow\<lparr>response_started := True\<rparr>"]
    by (simp add: start_response_def frame_channels(2))
qed

lemma ingest_message_blind: "frame_blind (ingest_message env frags)"
  unfolding ingest_message_def
  by (intro frame_blind_and_then start_response_blind frame_blind_for_each on_fragment_blind)

section \<open>Splitting a chunk\<close>

interpretation request: owner_invariant "\<lambda>ow. own_request ow = req" for req
proof (unfold_locales, goal_cases)
  case (4 ow aid signal t step)
  show ?case by (rule on_tool_cases) (use 4 in simp_all)
qed (simp_all add: emit_sentence_def emit_boundary_def emit_diagnostic_def next_lane_ordinal_def
    quarantine_tool_def Let_def split: prod.split option.split)

abbreviation ingest_all :: "engine_env \<Rightarrow> ('m \<Rightarrow> acp_fragment list) \<Rightarrow> 'm list \<Rightarrow> owner_step" where
  "ingest_all env f \<equiv> for_each (\<lambda>m. ingest_message env (f m))"

lemma ingest_all_blind: "frame_blind (ingest_all env f ms)"
  by (intro frame_blind_for_each ingest_message_blind)

lemma ingest_all_request: "own_request (snd (ingest_all env f ms ow)) = own_request ow"
  by (rule request.keeps_for_each) (auto intro: request.keeps_message)

text \<open>
  The messages of a longer buffer, taken in two goes with the buffer in between set to the
  rest of the first.
\<close>

lemma ingest_all_split:
  assumes "ingest_all env f (vs1 @ vs2) (ow\<lparr>frame_buf := r\<rparr>) = (None, ow')"
  obtains ow1 where "ingest_all env f vs1 (ow\<lparr>frame_buf := r1\<rparr>) = (None, ow1)"
    and "frame_buf ow1 = r1" and "own_request ow1 = own_request ow"
    and "ingest_all env f vs2 (ow1\<lparr>frame_buf := r\<rparr>) = (None, ow')"
proof -
  obtain e ow0 where r0: "ingest_all env f vs1 ow = (e, ow0)" by fastforce
  have b: "ingest_all env f vs1 (ow\<lparr>frame_buf := x\<rparr>) = (e, ow0\<lparr>frame_buf := x\<rparr>)" for x
    using frame_blindD [OF ingest_all_blind, of env f vs1 x ow] r0 by simp
  have e: "e = None" and v2: "ingest_all env f vs2 (ow0\<lparr>frame_buf := r\<rparr>) = (None, ow')"
    using assms unfolding for_each_append b by (cases e; simp)+
  show ?thesis
    using that [of "ow0\<lparr>frame_buf := r1\<rparr>"] b [of r1] e v2 ingest_all_request [of env f vs1 ow] r0
    by simp
qed

lemma acp_split:
  assumes "ingest_acp env (ow\<lparr>frame_buf := x @ t\<rparr>) = (None, ow')"
  obtains ow1 where "ingest_acp env (ow\<lparr>frame_buf := x\<rparr>) = (None, ow1)"
    and "own_request ow1 = own_request ow" and "length (frame_buf ow1) \<le> length x"
    and "ingest_acp env (ow1\<lparr>frame_buf := frame_buf ow1 @ t\<rparr>) = (None, ow')"
proof -
  have fits: "length x + length t \<le> max_frame_bytes (own_limits ow)"
    using assms by (simp add: ingest_acp_def own_limits_def split: if_splits)
  obtain vs r where d: "drain_json_values (env_codec env) (x @ t) = (Ok vs, r)"
    and all: "ingest_all env (map_message (env_codec env)) vs (ow\<lparr>frame_buf := r\<rparr>) = (None, ow')"
    using assms by (auto simp: ingest_acp_def Let_def split: if_splits prod.splits sum.splits)
  obtain vs1 r1 vs2 where d1: "drain_json_values (env_codec env) x = (Ok vs1, r1)"
    and d2: "drain_json_values (env_codec env) (r1 @ t) = (Ok vs2, r)" and vs: "vs = vs1 @ vs2"
    using d unfolding drain_json_values_append [of "env_codec env" x t]
    by (auto split: prod.splits sum.splits)
  obtain ow1 where i: "ingest_all env (map_message (env_codec env)) vs1 (ow\<lparr>frame_buf := r1\<rparr>) = (None, ow1)"
    "frame_buf ow1 = r1" "own_request ow1 = own_request ow"
    "ingest_all env (map_message (env_codec env)) vs2 (ow1\<lparr>frame_buf := r\<rparr>) = (None, ow')"
    using all unfolding vs by (rule ingest_all_split)
  have "length r1 \<le> length x" using drain_json_values_shrinks [of "env_codec env" x] d1 by simp
  then show ?thesis
    using that [of ow1] i d1 d2 fits by (simp add: ingest_acp_def own_limits_def)
qed

text \<open>The two line dialects share the framing and differ in the mapping only.\<close>

definition ingest_lines :: "engine_env \<Rightarrow> (string \<Rightarrow> acp_fragment list) \<Rightarrow> owner_step" where
  "ingest_lines env f ow =
     (if length (frame_buf ow) > max_frame_bytes (own_limits ow)
      then (Some (limit_error ''frame buffer limit exceeded''), ow)
      else ingest_all env f (fst (drain_ndjson_lines (frame_buf ow)))
             (ow\<lparr>frame_buf := snd (drain_ndjson_lines (frame_buf ow))\<rparr>))"

lemma line_dialects:
  "ingest_zai_cli env = ingest_lines env (map_chat_message_line (env_codec env))"
  "ingest_claude_code env = ingest_lines env (map_stream_line (env_codec env))"
  by (auto simp: fun_eq_iff ingest_zai_cli_def ingest_claude_code_def ingest_lines_def
      claude_drain_ndjson_lines_def split_beta)

lemma lines_split:
  assumes "ingest_lines env f (ow\<lparr>frame_buf := x @ t\<rparr>) = (None, ow')"
  obtains ow1 where "ingest_lines env f (ow\<lparr>frame_buf := x\<rparr>) = (None, ow1)"
    and "own_request ow1 = own_request ow" and "length (frame_buf ow1) \<le> length x"
    and "ingest_lines env f (ow1\<lparr>frame_buf := frame_buf ow1 @ t\<rparr>) = (None, ow')"
proof -
  let ?d = drain_ndjson_lines
  have fits: "length x + length t \<le> max_frame_bytes (own_limits ow)"
    using assms by (simp add: ingest_lines_def own_limits_def split: if_splits)
  have "ingest_all env f (fst (?d x) @ fst (?d (snd (?d x) @ t))) (ow\<lparr>frame_buf := snd (?d (snd (?d x) @ t))\<rparr>)
      = (None, ow')"
    using assms unfolding ingest_lines_def drain_ndjson_lines_append [of x t]
    by (simp add: drain_ndjson_lines_append [of x t] split: if_splits)
  then obtain ow1 where i: "ingest_all env f (fst (?d x)) (ow\<lparr>frame_buf := snd (?d x)\<rparr>) = (None, ow1)"
    "frame_buf ow1 = snd (?d x)" "own_request ow1 = own_request ow"
    "ingest_all env f (fst (?d (snd (?d x) @ t))) (ow1\<lparr>frame_buf := snd (?d (snd (?d x) @ t))\<rparr>) = (None, ow')"
    by (rule ingest_all_split)
  have "length (snd (?d x)) \<le> length x" by (rule drain_ndjson_lines_shrinks)
  then show ?thesis
    using that [of ow1] i fits by (simp add: ingest_lines_def own_limits_def)
qed

definition framed_family :: "dialect_family \<Rightarrow> bool" where
  "framed_family fam \<longleftrightarrow>
     fam \<in> {Acp, GrokBuild, CursorAcp, AgyAcp, CodexAcp, ZaiCli, ClaudeCode}"

lemma dialect_split:
  assumes "framed_family fam" and "ingest_dialect env fam (ow\<lparr>frame_buf := x @ t\<rparr>) = (None, ow')"
  obtains ow1 where "ingest_dialect env fam (ow\<lparr>frame_buf := x\<rparr>) = (None, ow1)"
    and "own_request ow1 = own_request ow" and "length (frame_buf ow1) \<le> length x"
    and "ingest_dialect env fam (ow1\<lparr>frame_buf := frame_buf ow1 @ t\<rparr>) = (None, ow')"
proof -
  consider "ingest_dialect env fam = ingest_acp env"
    | f where "ingest_dialect env fam = ingest_lines env f"
    using assms(1) by (auto simp: framed_family_def ingest_dialect_def line_dialects)
  then show ?thesis
  proof cases
    case 1
    then show ?thesis using assms(2) that by (metis acp_split)
  next
    case 2
    then show ?thesis using assms(2) that by (metis lines_split)
  qed
qed

section \<open>Properties\<close>

text \<open>
  C26. For the agent dialects framed as JSON texts or lines, where the transport cut a chunk
  that is ingested without an error is invisible: ingesting any two parts of it one after the
  other succeeds too and leaves the interpretation in the same state, with the same canonical
  events published in the same order.
\<close>

theorem chunk_boundaries_invisible:
  assumes "framed_family (own_family ow)" and "ingest_bytes env (a @ b) ow = (None, ow')"
  shows "and_then (ingest_bytes env a ow) (ingest_bytes env b) = (None, ow')"
proof -
  have fits: "length (frame_buf ow) + length a + length b \<le> max_undecoded_bytes (own_limits ow)"
    and d: "ingest_dialect env (own_family ow) (ow\<lparr>frame_buf := (frame_buf ow @ a) @ b\<rparr>) = (None, ow')"
    using assms(2) by (simp_all add: ingest_bytes_def split: if_splits)
  obtain ow1 where "ingest_dialect env (own_family ow) (ow\<lparr>frame_buf := frame_buf ow @ a\<rparr>) = (None, ow1)"
    "own_request ow1 = own_request ow" "length (frame_buf ow1) \<le> length (frame_buf ow @ a)"
    "ingest_dialect env (own_family ow) (ow1\<lparr>frame_buf := frame_buf ow1 @ b\<rparr>) = (None, ow')"
    using dialect_split [OF assms(1) d] .
  then show ?thesis
    using fits by (simp add: ingest_bytes_def own_limits_def own_family_def)
qed

theorem chunk_boundaries_invisible_witness:
  "case ingest_bytes (plain_env null_codec) ''{}'' (owner_new (small_request Acp) None) of
     (e, ow') \<Rightarrow> and_then (ingest_bytes (plain_env null_codec) ''{'' (owner_new (small_request Acp) None))
       (ingest_bytes (plain_env null_codec) ''}'') = (None, ow')"
proof -
  have "fst (ingest_bytes (plain_env null_codec) (''{'' @ ''}'') (small_owner Acp)) = None"
    by code_simp
  then obtain ow' where i: "ingest_bytes (plain_env null_codec) (''{'' @ ''}'') (small_owner Acp) = (None, ow')"
    by (metis prod.collapse)
  have "framed_family (own_family (small_owner Acp))"
    by (simp add: framed_family_def own_family_def small_owner_def small_request_def dialect_of_def Let_def)
  from chunk_boundaries_invisible [OF this i] show ?thesis
    using i unfolding small_owner by simp
qed

text \<open>
  The condition cannot be dropped: the bound on undecoded bytes counts a whole chunk before any
  of it is decoded, so one chunk of eleven texts is refused where the same bytes in two chunks
  are ingested.
\<close>

lemma chunk_limit_sees_boundaries:
  "let ow = owner_new (small_request Acp) None;
       env = plain_env null_codec;
       texts = (\<lambda>n. concat (replicate n ''{}''))
   in map_option error_kind (fst (ingest_bytes env (texts 6 @ texts 5) ow)) = Some FrameLimitExceeded \<and>
      fst (and_then (ingest_bytes env (texts 6) ow) (ingest_bytes env (texts 5))) = None"
  unfolding small_owner by code_simp

end
