(* ===== verification/Limits.thy ===== *)
theory Limits
  imports Canonical
begin

text \<open>
  \<open>crates/monoloop-contracts/src/limits.rs\<close>: the bounds of inputs, extensions, channels and
  transactions, their defaults, and the validation that runs before a runtime starts.
  Durations are milliseconds.
\<close>

record input_limits =
  in_max_messages :: nat
  in_max_content_parts :: nat
  max_text_part_bytes :: nat
  max_aggregate_text_bytes :: nat
  max_tool_calls :: nat
  max_tool_argument_bytes :: nat
  max_json_depth :: nat
  max_name_bytes :: nat
  max_tool_call_id_bytes :: nat

definition default_input_limits :: input_limits where
  "default_input_limits =
     \<lparr>in_max_messages = 256, in_max_content_parts = 64, max_text_part_bytes = 256 * 1024,
      max_aggregate_text_bytes = 2 * 1024 * 1024, max_tool_calls = 64,
      max_tool_argument_bytes = 256 * 1024, max_json_depth = 16, max_name_bytes = 128,
      max_tool_call_id_bytes = 128\<rparr>"

record extension_limits =
  max_keys :: nat
  max_key_bytes :: nat
  max_value_depth :: nat
  max_serialized_bytes :: nat

definition default_extension_limits :: extension_limits where
  "default_extension_limits =
     \<lparr>max_keys = 32, max_key_bytes = 64, max_value_depth = 8, max_serialized_bytes = 16 * 1024\<rparr>"

record channel_limits =
  ch_max_active_transactions :: nat
  ch_max_distinct_sessions :: nat
  ch_max_encoded_exchange_bytes :: nat

definition default_channel_limits :: channel_limits where
  "default_channel_limits =
     \<lparr>ch_max_active_transactions = 64, ch_max_distinct_sessions = 64,
      ch_max_encoded_exchange_bytes = 4 * 1024 * 1024\<rparr>"

record transaction_limits =
  max_active_transactions :: nat
  max_active_per_channel :: nat
  max_actor_commands :: nat
  max_actor_command_bytes :: nat
  max_event_queue :: nat
  max_event_queue_bytes :: nat
  max_input_bytes :: nat
  max_messages :: nat
  max_content_parts :: nat
  max_tools_per_transaction :: nat
  max_tool_schema_bytes :: nat
  max_tool_payload_bytes :: nat
  max_tool_output_bytes :: nat
  max_concurrent_tools_per_transaction :: nat
  max_queued_tools_per_transaction :: nat
  max_continuations :: nat
  max_provider_exchanges :: nat
  max_continuation_context_bytes :: nat
  max_total_provider_input_bytes :: nat
  max_total_provider_output_bytes :: nat
  max_diagnostic_count :: nat
  max_diagnostic_bytes :: nat
  transaction_deadline :: nat
  cleanup_deadline :: nat
  terminal_event_delivery_deadline :: nat
  callback_deadline :: nat

definition default_transaction_limits :: transaction_limits where
  "default_transaction_limits =
     \<lparr>max_active_transactions = 256, max_active_per_channel = 64, max_actor_commands = 256,
      max_actor_command_bytes = 1024 * 1024, max_event_queue = 1024,
      max_event_queue_bytes = 4 * 1024 * 1024, max_input_bytes = 2 * 1024 * 1024,
      max_messages = 256, max_content_parts = 64, max_tools_per_transaction = 64,
      max_tool_schema_bytes = 64 * 1024, max_tool_payload_bytes = 256 * 1024,
      max_tool_output_bytes = 256 * 1024, max_concurrent_tools_per_transaction = 16,
      max_queued_tools_per_transaction = 64, max_continuations = 32, max_provider_exchanges = 64,
      max_continuation_context_bytes = 2 * 1024 * 1024,
      max_total_provider_input_bytes = 16 * 1024 * 1024,
      max_total_provider_output_bytes = 16 * 1024 * 1024, max_diagnostic_count = 64,
      max_diagnostic_bytes = 1024, transaction_deadline = 600000, cleanup_deadline = 30000,
      terminal_event_delivery_deadline = 10000, callback_deadline = 5000\<rparr>"

datatype limits_error = ZeroCapacity string | Inconsistent string

definition capacity_table :: "transaction_limits \<Rightarrow> (string \<times> nat) list" where
  "capacity_table l =
     [(''max_active_transactions'', max_active_transactions l),
      (''max_active_per_channel'', max_active_per_channel l),
      (''max_actor_commands'', max_actor_commands l),
      (''max_actor_command_bytes'', max_actor_command_bytes l),
      (''max_event_queue'', max_event_queue l),
      (''max_event_queue_bytes'', max_event_queue_bytes l),
      (''max_input_bytes'', max_input_bytes l),
      (''max_messages'', max_messages l),
      (''max_content_parts'', max_content_parts l),
      (''max_tools_per_transaction'', max_tools_per_transaction l),
      (''max_tool_schema_bytes'', max_tool_schema_bytes l),
      (''max_tool_payload_bytes'', max_tool_payload_bytes l),
      (''max_tool_output_bytes'', max_tool_output_bytes l),
      (''max_concurrent_tools_per_transaction'', max_concurrent_tools_per_transaction l),
      (''max_queued_tools_per_transaction'', max_queued_tools_per_transaction l),
      (''max_continuations'', max (max_continuations l) 1),
      (''max_provider_exchanges'', max_provider_exchanges l),
      (''max_continuation_context_bytes'', max_continuation_context_bytes l),
      (''max_total_provider_input_bytes'', max_total_provider_input_bytes l),
      (''max_total_provider_output_bytes'', max_total_provider_output_bytes l),
      (''max_diagnostic_count'', max_diagnostic_count l),
      (''max_diagnostic_bytes'', max_diagnostic_bytes l)]"

fun check_capacities :: "(string \<times> nat) list \<Rightarrow> limits_error option" where
  "check_capacities [] = None"
| "check_capacities ((name, v) # xs) =
     (if name = ''max_continuations'' then check_capacities xs
      else if v = 0 then Some (ZeroCapacity name)
      else check_capacities xs)"

definition limits_validate :: "transaction_limits \<Rightarrow> limits_error option" where
  "limits_validate l =
     (case check_capacities (capacity_table l) of
        Some e \<Rightarrow> Some e
      | None \<Rightarrow>
          if callback_deadline l = 0 then Some (ZeroCapacity ''callback_deadline'')
          else if cleanup_deadline l = 0 then Some (ZeroCapacity ''cleanup_deadline'')
          else if terminal_event_delivery_deadline l = 0
          then Some (ZeroCapacity ''terminal_event_delivery_deadline'')
          else if transaction_deadline l = 0 then Some (ZeroCapacity ''transaction_deadline'')
          else if max_active_per_channel l > max_active_transactions l
          then Some (Inconsistent ''max_active_per_channel exceeds max_active_transactions'')
          else if max_event_queue_bytes l < max_event_queue l
          then Some (Inconsistent ''max_event_queue_bytes smaller than max_event_queue items'')
          else None)"

lemma check_capacities_None:
  "check_capacities xs = None \<longleftrightarrow> list_all (\<lambda>(n, v). n = ''max_continuations'' \<or> 0 < v) xs"
  by (induction xs rule: check_capacities.induct) auto

text \<open>The default limits pass.\<close>

lemma default_limits_valid: "limits_validate default_transaction_limits = None"
  by (simp add: limits_validate_def check_capacities_None capacity_table_def default_transaction_limits_def)

end
