(* ===== verification/Identity.thy ===== *)
theory Identity
  imports Utf8_Facts
begin

text \<open>
  \<open>crates/monoloop-contracts/src/id.rs\<close> and \<open>safe.rs\<close>: validation of opaque identity
  strings, which every validated newtype constructor goes through, and the construction of
  bounded diagnostics. A panic is the value \<open>None\<close>.
\<close>

section \<open>Identities\<close>

datatype identity_error = IdEmpty | IdTooLong | IdControlCharacter

definition MAX_IDENTITY_BYTES :: nat where
  "MAX_IDENTITY_BYTES = 256"

definition validate_identity_string :: "string \<Rightarrow> identity_error option" where
  "validate_identity_string v =
     (if v = [] then Some IdEmpty
      else if length v > MAX_IDENTITY_BYTES then Some IdTooLong
      else if has_control v then Some IdControlCharacter
      else None)"

definition validated_string :: "string \<Rightarrow> (identity_error, string) result" where
  "validated_string v =
     (case validate_identity_string v of Some e \<Rightarrow> Err e | None \<Rightarrow> Ok v)"

record session_key =
  key_channel :: string
  key_session :: string

section \<open>Diagnostics\<close>

datatype safe_diagnostic_error = EmptyCode | CodeTooLong | DiagControlCharacter

definition DIAGNOSTIC_CODE_MAX :: nat where
  "DIAGNOSTIC_CODE_MAX = 64"

definition diagnostic_code :: "string \<Rightarrow> (safe_diagnostic_error, string) result" where
  "diagnostic_code s =
     (if s = [] then Err EmptyCode
      else if length s > DIAGNOSTIC_CODE_MAX then Err CodeTooLong
      else if has_control s then Err DiagControlCharacter
      else Ok s)"

record safe_diagnostic =
  diag_code :: string
  diag_message :: "string option"

text \<open>\<open>String::truncate\<close> panics unless the new length is a character boundary.\<close>

definition truncate :: "nat \<Rightarrow> string \<Rightarrow> string option" where
  "truncate n s =
     (if n \<le> length s then (if is_char_boundary s n then Some (take n s) else None) else Some s)"

text \<open>\<open>String::pop\<close> drops the last scalar.\<close>

definition pop_char :: "string \<Rightarrow> string" where
  "pop_char s = take (back_while cont s (length s) - 1) s"

function pop_to_boundary :: "string \<Rightarrow> string" where
  "pop_to_boundary s =
     (if is_char_boundary s (length s) then s else pop_to_boundary (pop_char s))"
  by pat_completeness auto
termination
  by (relation "measure length") (auto simp: is_char_boundary_def)

declare pop_to_boundary.simps [simp del]

definition safe_message :: "nat \<Rightarrow> string \<Rightarrow> (safe_diagnostic_error, string option) result option" where
  "safe_message n s =
     (if has_control s then Some (Err DiagControlCharacter)
      else
        (case (if length s > n then map_option pop_to_boundary (truncate n s) else Some s) of
           None \<Rightarrow> None
         | Some t \<Rightarrow> Some (Ok (if t = [] then None else Some t))))"

definition safe_diagnostic_try_new ::
  "string \<Rightarrow> string option \<Rightarrow> nat \<Rightarrow> (safe_diagnostic_error, safe_diagnostic) result option" where
  "safe_diagnostic_try_new code msg n =
     (case diagnostic_code code of
        Inl e \<Rightarrow> Some (Err e)
      | Inr c \<Rightarrow>
          (case msg of
             None \<Rightarrow> Some (Ok \<lparr>diag_code = c, diag_message = None\<rparr>)
           | Some m \<Rightarrow>
               (case safe_message n m of
                  None \<Rightarrow> None
                | Some (Inl e) \<Rightarrow> Some (Err e)
                | Some (Inr t) \<Rightarrow> Some (Ok \<lparr>diag_code = c, diag_message = t\<rparr>))))"

section \<open>Facts\<close>

lemma pop_to_boundary_id: "pop_to_boundary s = s"
  by (simp add: pop_to_boundary.simps [of s] is_char_boundary_def)

lemma has_control_take: "\<not> has_control s \<Longrightarrow> \<not> has_control (take n s)"
proof (induction s arbitrary: n rule: has_control.induct)
  case (2 a)
  then show ?case by (cases n) auto
next
  case (3 a b s)
  show ?case
  proof (cases n)
    case (Suc k)
    then show ?thesis using 3 "3.IH" [of k] by (cases k) auto
  qed simp
qed simp

section \<open>Properties\<close>

text \<open>
  A diagnostic that is constructed is safe: a non-empty code of at most 64 bytes and, if
  any, a non-empty valid UTF-8 message within the byte budget, neither with control
  characters.
\<close>

theorem safe_diagnostic_bounded:
  assumes "safe_diagnostic_try_new code (Some m) n = Some (Ok d)" and "is_utf8 m"
  shows "diag_code d = code \<and> code \<noteq> [] \<and> length code \<le> 64 \<and> \<not> has_control code \<and>
    (case diag_message d of
       Some t \<Rightarrow> t \<noteq> [] \<and> length t \<le> n \<and> \<not> has_control t \<and> is_utf8 t | None \<Rightarrow> True)"
proof -
  have slice: "is_utf8 (take n m)" if "is_char_boundary m n"
    using boundary_slices [OF assms(2) that] by simp
  show ?thesis
    using assms slice has_control_take [of m n]
    by (auto simp: safe_diagnostic_try_new_def safe_message_def diagnostic_code_def DIAGNOSTIC_CODE_MAX_def
        truncate_def pop_to_boundary_id split: if_splits option.splits)
qed

theorem safe_diagnostic_bounded_witness:
  "\<exists>d. safe_diagnostic_try_new ''ok'' (Some ''abcdef'') 4 = Some (Ok d) \<and> diag_message d = Some ''abcd''"
proof -
  have m: "safe_diagnostic_try_new ''ok'' (Some ''abcdef'') 4 = Some (Ok \<lparr>diag_code = ''ok'', diag_message = Some ''abcd''\<rparr>)"
    and "is_utf8 ''abcdef''"
    by code_simp+
  then show ?thesis using safe_diagnostic_bounded [of "''ok''" "''abcdef''" 4] by auto
qed

text \<open>
  The constructor panics exactly when the budget falls inside a multi-byte character of a
  longer message: the loop meant to avoid splitting a character runs only after the
  truncation, which has already panicked by then.
\<close>

theorem safe_diagnostic_panics:
  "safe_diagnostic_try_new code msg n = None \<longleftrightarrow>
     (case msg of
        None \<Rightarrow> False
      | Some m \<Rightarrow> \<not> isl (diagnostic_code code) \<and> \<not> has_control m \<and> n < length m \<and> \<not> is_char_boundary m n)"
  by (auto simp: safe_diagnostic_try_new_def safe_message_def truncate_def
      split: option.splits sum.splits if_splits)

end
