(* ===== verification/Input.thy ===== *)
theory Input
  imports Identity Limits Json
begin

text \<open>
  \<open>crates/monoloop-contracts/src/input.rs\<close>: the caller's canonical messages, their
  validation, and the byte estimate that admission uses. A \<open>usize\<close> is a natural number and
  \<open>saturating_add\<close> stops at its largest value.
\<close>

section \<open>Messages\<close>

record tool_call_input =
  call_id :: string
  call_name :: string
  call_arguments :: json

datatype canonical_message =
    System "string list" "string option"
  | User "string list" "string option"
  | Assistant "string list" "tool_call_input list"
  | ToolResult string "string list"

datatype input_validation_error =
    EmptyMessages
  | TooManyMessages nat nat
  | AggregateTextTooLarge nat nat
  | EmptyTextParts
  | EmptyTextPart
  | TextPartTooLarge nat nat
  | TooManyContentParts nat nat
  | EmptyAssistant nat
  | TooManyToolCalls nat nat
  | DuplicateToolCallId string
  | UnknownToolCallId string
  | EmptyToolCallId
  | ToolCallIdTooLong nat nat
  | EmptyName
  | NameTooLong nat nat
  | InputControlCharacter
  | JsonTooDeep nat nat
  | ToolArgumentsTooLarge nat nat
  | JsonEncodeFailed

definition usize_max :: nat where
  "usize_max = 2 ^ 64 - 1"

definition saturating_add :: "nat \<Rightarrow> nat \<Rightarrow> nat" where
  "saturating_add a b = min (a + b) usize_max"

definition text_part_try_new :: "string \<Rightarrow> nat \<Rightarrow> (input_validation_error, string) result" where
  "text_part_try_new t n =
     (if t = [] then Err EmptyTextPart
      else if length t > n then Err (TextPartTooLarge (length t) n)
      else Ok t)"

section \<open>Validation\<close>

fun json_depth :: "json \<Rightarrow> nat" where
  "json_depth (JArray vs) = 1 + foldr max (map json_depth vs) 0"
| "json_depth (JObject kvs) = 1 + foldr max (map (\<lambda>(_, v). json_depth v) kvs) 0"
| "json_depth _ = 1"

text \<open>The running values of the validation: the aggregate text bytes and the call ids seen.\<close>

type_synonym input_run = "nat \<times> string list"

definition validate_name :: "input_limits \<Rightarrow> string option \<Rightarrow> input_validation_error option" where
  "validate_name l name =
     (case name of
        None \<Rightarrow> None
      | Some n \<Rightarrow>
          if n = [] then Some EmptyName
          else if length n > max_name_bytes l then Some (NameTooLong (length n) (max_name_bytes l))
          else if has_control n then Some InputControlCharacter
          else None)"

definition validate_tool_call_id :: "input_limits \<Rightarrow> string \<Rightarrow> input_validation_error option" where
  "validate_tool_call_id l i =
     (if i = [] then Some EmptyToolCallId
      else if length i > max_tool_call_id_bytes l
      then Some (ToolCallIdTooLong (length i) (max_tool_call_id_bytes l))
      else if has_control i then Some InputControlCharacter
      else None)"

definition validate_text_part ::
  "input_limits \<Rightarrow> string \<Rightarrow> input_run \<Rightarrow> (input_validation_error, input_run) outcome" where
  "validate_text_part l t r =
     (if t = [] then (Some EmptyTextPart, r)
      else if length t > max_text_part_bytes l
      then (Some (TextPartTooLarge (length t) (max_text_part_bytes l)), r)
      else (None, saturating_add (fst r) (length t), snd r))"

definition validate_text_parts ::
  "input_limits \<Rightarrow> bool \<Rightarrow> string list \<Rightarrow> input_run \<Rightarrow> (input_validation_error, input_run) outcome" where
  "validate_text_parts l require_non_empty parts r =
     (if require_non_empty \<and> parts = [] then (Some EmptyTextParts, r)
      else if length parts > in_max_content_parts l
      then (Some (TooManyContentParts (length parts) (in_max_content_parts l)), r)
      else for_each (validate_text_part l) parts r)"

definition validate_json_value ::
  "json_codec \<Rightarrow> json \<Rightarrow> nat \<Rightarrow> nat \<Rightarrow> input_validation_error option" where
  "validate_json_value codec v max_depth max_bytes =
     (if json_depth v > max_depth then Some (JsonTooDeep (json_depth v) max_depth)
      else (case to_vec codec v of
              None \<Rightarrow> Some JsonEncodeFailed
            | Some e \<Rightarrow> if length e > max_bytes then Some (ToolArgumentsTooLarge (length e) max_bytes) else None))"

definition validate_tool_call ::
  "json_codec \<Rightarrow> input_limits \<Rightarrow> tool_call_input \<Rightarrow> input_run \<Rightarrow> (input_validation_error, input_run) outcome" where
  "validate_tool_call codec l call r =
     (case validate_tool_call_id l (call_id call) of
        Some e \<Rightarrow> (Some e, r)
      | None \<Rightarrow>
          if call_id call \<in> set (snd r) then (Some (DuplicateToolCallId (call_id call)), r)
          else (validate_json_value codec (call_arguments call) (max_json_depth l) (max_tool_argument_bytes l),
                fst r, snd r @ [call_id call]))"

definition message_validate ::
  "json_codec \<Rightarrow> input_limits \<Rightarrow> nat \<times> canonical_message \<Rightarrow> input_run \<Rightarrow> (input_validation_error, input_run) outcome" where
  "message_validate codec l im r =
     (case im of (index, msg) \<Rightarrow>
       (case msg of
          System parts name \<Rightarrow>
            (case validate_name l name of Some e \<Rightarrow> (Some e, r) | None \<Rightarrow> validate_text_parts l True parts r)
        | User parts name \<Rightarrow>
            (case validate_name l name of Some e \<Rightarrow> (Some e, r) | None \<Rightarrow> validate_text_parts l True parts r)
        | Assistant parts calls \<Rightarrow>
            if parts = [] \<and> calls = [] then (Some (EmptyAssistant index), r)
            else
              and_then (validate_text_parts l False parts r)
                (\<lambda>r. if length calls > max_tool_calls l
                     then (Some (TooManyToolCalls (length calls) (max_tool_calls l)), r)
                     else for_each (validate_tool_call codec l) calls r)
        | ToolResult i parts \<Rightarrow>
            (case validate_tool_call_id l i of
               Some e \<Rightarrow> (Some e, r)
             | None \<Rightarrow>
                 if i \<notin> set (snd r) then (Some (UnknownToolCallId i), r)
                 else validate_text_parts l True parts r)))"

definition input_try_new ::
  "json_codec \<Rightarrow> canonical_message list \<Rightarrow> input_limits \<Rightarrow> (input_validation_error, canonical_message list) result" where
  "input_try_new codec messages l =
     (if messages = [] then Err EmptyMessages
      else if length messages > in_max_messages l
      then Err (TooManyMessages (length messages) (in_max_messages l))
      else (case for_each (message_validate codec l) (enumerate 0 messages) (0, []) of
              (Some e, _) \<Rightarrow> Err e
            | (None, aggregate, _) \<Rightarrow>
                if aggregate > max_aggregate_text_bytes l
                then Err (AggregateTextTooLarge aggregate (max_aggregate_text_bytes l))
                else Ok messages))"

definition user_text_input :: "json_codec \<Rightarrow> string \<Rightarrow> (input_validation_error, canonical_message list) result" where
  "user_text_input codec t =
     (case text_part_try_new t (max_text_part_bytes default_input_limits) of
        Inl e \<Rightarrow> Err e
      | Inr part \<Rightarrow> input_try_new codec [User [part] None] default_input_limits)"

section \<open>The admission estimate\<close>

definition add_parts :: "nat \<Rightarrow> string list \<Rightarrow> nat" where
  "add_parts = foldl (\<lambda>n t. saturating_add n (length t))"

fun add_calls :: "json_codec \<Rightarrow> nat \<Rightarrow> tool_call_input list \<Rightarrow> nat option" where
  "add_calls codec n [] = Some n"
| "add_calls codec n (c # cs) =
     (case to_vec codec (call_arguments c) of
        None \<Rightarrow> None
      | Some e \<Rightarrow>
          add_calls codec (saturating_add (saturating_add (saturating_add n (length (call_id c)))
            (length (call_name c))) (length e)) cs)"

fun add_message :: "json_codec \<Rightarrow> nat \<Rightarrow> canonical_message \<Rightarrow> nat option" where
  "add_message codec n (System parts name) =
     Some (add_parts (case name of Some m \<Rightarrow> saturating_add n (length m) | None \<Rightarrow> n) parts)"
| "add_message codec n (User parts name) =
     Some (add_parts (case name of Some m \<Rightarrow> saturating_add n (length m) | None \<Rightarrow> n) parts)"
| "add_message codec n (Assistant parts calls) = add_calls codec (add_parts n parts) calls"
| "add_message codec n (ToolResult i parts) = Some (add_parts (saturating_add n (length i)) parts)"

fun estimate_from :: "json_codec \<Rightarrow> nat \<Rightarrow> canonical_message list \<Rightarrow> (input_validation_error, nat) result" where
  "estimate_from codec n [] = Ok n"
| "estimate_from codec n (m # ms) =
     (case add_message codec n m of
        None \<Rightarrow> Err JsonEncodeFailed
      | Some n' \<Rightarrow> estimate_from codec n' ms)"

definition estimate_canonical_input_bytes ::
  "json_codec \<Rightarrow> canonical_message list \<Rightarrow> (input_validation_error, nat) result" where
  "estimate_canonical_input_bytes codec messages = estimate_from codec 0 messages"

section \<open>What a valid input is\<close>

text \<open>
  The declarative counterpart: every part, name, id and argument is within its bounds, tool
  call ids are distinct across the whole input, and a tool result answers a call of an
  earlier message.
\<close>

definition part_ok :: "input_limits \<Rightarrow> string \<Rightarrow> bool" where
  "part_ok l t \<longleftrightarrow> t \<noteq> [] \<and> length t \<le> max_text_part_bytes l"

definition parts_ok :: "input_limits \<Rightarrow> string list \<Rightarrow> bool" where
  "parts_ok l parts \<longleftrightarrow> length parts \<le> in_max_content_parts l \<and> list_all (part_ok l) parts"

definition label_ok :: "nat \<Rightarrow> string \<Rightarrow> bool" where
  "label_ok n s \<longleftrightarrow> s \<noteq> [] \<and> length s \<le> n \<and> \<not> has_control s"

definition call_ok :: "json_codec \<Rightarrow> input_limits \<Rightarrow> tool_call_input \<Rightarrow> bool" where
  "call_ok codec l c \<longleftrightarrow>
     label_ok (max_tool_call_id_bytes l) (call_id c) \<and> json_depth (call_arguments c) \<le> max_json_depth l \<and>
     (case to_vec codec (call_arguments c) of Some e \<Rightarrow> length e \<le> max_tool_argument_bytes l | None \<Rightarrow> False)"

fun message_parts :: "canonical_message \<Rightarrow> string list" where
  "message_parts (System parts _) = parts"
| "message_parts (User parts _) = parts"
| "message_parts (Assistant parts _) = parts"
| "message_parts (ToolResult _ parts) = parts"

fun message_calls :: "canonical_message \<Rightarrow> string list" where
  "message_calls (Assistant _ calls) = map call_id calls"
| "message_calls _ = []"

fun message_ok :: "json_codec \<Rightarrow> input_limits \<Rightarrow> canonical_message \<Rightarrow> bool" where
  "message_ok codec l (System parts name) \<longleftrightarrow> parts \<noteq> [] \<and> list_all (label_ok (max_name_bytes l)) (case name of Some n \<Rightarrow> [n] | None \<Rightarrow> [])"
| "message_ok codec l (User parts name) \<longleftrightarrow> parts \<noteq> [] \<and> list_all (label_ok (max_name_bytes l)) (case name of Some n \<Rightarrow> [n] | None \<Rightarrow> [])"
| "message_ok codec l (Assistant parts calls) \<longleftrightarrow>
     (parts \<noteq> [] \<or> calls \<noteq> []) \<and> length calls \<le> max_tool_calls l \<and> list_all (call_ok codec l) calls"
| "message_ok codec l (ToolResult i parts) \<longleftrightarrow> parts \<noteq> [] \<and> label_ok (max_tool_call_id_bytes l) i"

fun answers_known :: "string list \<Rightarrow> canonical_message list \<Rightarrow> bool" where
  "answers_known seen [] = True"
| "answers_known seen (m # ms) \<longleftrightarrow>
     (case m of ToolResult i _ \<Rightarrow> i \<in> set seen | _ \<Rightarrow> True) \<and> answers_known (seen @ message_calls m) ms"

definition all_calls :: "canonical_message list \<Rightarrow> string list" where
  "all_calls ms = concat (map message_calls ms)"

definition text_bytes :: "canonical_message list \<Rightarrow> nat" where
  "text_bytes ms = sum_list (map length (concat (map message_parts ms)))"

definition well_formed_input :: "json_codec \<Rightarrow> input_limits \<Rightarrow> canonical_message list \<Rightarrow> bool" where
  "well_formed_input codec l ms \<longleftrightarrow>
     ms \<noteq> [] \<and> length ms \<le> in_max_messages l \<and>
     list_all (\<lambda>m. message_ok codec l m \<and> parts_ok l (message_parts m)) ms \<and>
     distinct (all_calls ms) \<and> answers_known [] ms \<and>
     text_bytes ms \<le> max_aggregate_text_bytes l"

text \<open>The limits as they are documented also bound the tool calls of the whole input.\<close>

definition valid_input :: "json_codec \<Rightarrow> input_limits \<Rightarrow> canonical_message list \<Rightarrow> bool" where
  "valid_input codec l ms \<longleftrightarrow> well_formed_input codec l ms \<and> length (all_calls ms) \<le> max_tool_calls l"

section \<open>The validation decides it\<close>

lemma sat_le: "saturating_add a b \<le> usize_max"
  by (simp add: saturating_add_def)

lemma sat_min: "saturating_add (min a usize_max) b = min (a + b) usize_max"
  by (simp add: saturating_add_def min_def)

lemma text_part_eval:
  "validate_text_part l t (min a usize_max, seen) =
    (if part_ok l t then (None, min (a + length t) usize_max, seen)
     else (if t = [] then Some EmptyTextPart else Some (TextPartTooLarge (length t) (max_text_part_bytes l)),
       min a usize_max, seen))"
  by (auto simp: validate_text_part_def part_ok_def sat_min)

lemma text_loop:
  "fst (for_each (validate_text_part l) parts (min a usize_max, seen)) = None \<longleftrightarrow> list_all (part_ok l) parts"
  "list_all (part_ok l) parts \<Longrightarrow> for_each (validate_text_part l) parts (min a usize_max, seen) =
    (None, min (a + sum_list (map length parts)) usize_max, seen)"
  by (induction parts arbitrary: a) (auto simp: text_part_eval add.assoc)

lemma text_parts_eval:
  "fst (validate_text_parts l req parts (min a usize_max, seen)) = None \<longleftrightarrow>
    (req \<longrightarrow> parts \<noteq> []) \<and> parts_ok l parts"
  "(req \<longrightarrow> parts \<noteq> []) \<and> parts_ok l parts \<Longrightarrow> validate_text_parts l req parts (min a usize_max, seen) =
    (None, min (a + sum_list (map length parts)) usize_max, seen)"
  by (auto simp: validate_text_parts_def parts_ok_def text_loop)

lemma validate_tool_call_id_None: "validate_tool_call_id l i = None \<longleftrightarrow> label_ok (max_tool_call_id_bytes l) i"
  by (auto simp: validate_tool_call_id_def label_ok_def)

lemma validate_name_None:
  "validate_name l name = None \<longleftrightarrow>
    list_all (label_ok (max_name_bytes l)) (case name of Some n \<Rightarrow> [n] | None \<Rightarrow> [])"
  by (auto simp: validate_name_def label_ok_def split: option.split)

lemma tool_call_eval:
  "fst (validate_tool_call codec l c (a, seen)) = None \<longleftrightarrow> call_ok codec l c \<and> call_id c \<notin> set seen"
  "call_ok codec l c \<Longrightarrow> call_id c \<notin> set seen \<Longrightarrow>
    validate_tool_call codec l c (a, seen) = (None, a, seen @ [call_id c])"
  using validate_tool_call_id_None [of l "call_id c"]
  by (auto simp: validate_tool_call_def call_ok_def validate_json_value_def split: option.splits if_splits)

fun calls_ok :: "json_codec \<Rightarrow> input_limits \<Rightarrow> string list \<Rightarrow> tool_call_input list \<Rightarrow> bool" where
  "calls_ok codec l seen [] = True"
| "calls_ok codec l seen (c # cs) \<longleftrightarrow>
     call_ok codec l c \<and> call_id c \<notin> set seen \<and> calls_ok codec l (seen @ [call_id c]) cs"

lemma calls_ok_iff:
  "calls_ok codec l seen calls \<longleftrightarrow>
    list_all (call_ok codec l) calls \<and> distinct (map call_id calls) \<and> list_all (\<lambda>i. i \<notin> set seen) (map call_id calls)"
  by (induction calls arbitrary: seen) (auto simp: list_all_iff image_iff)

lemma calls_okD: "calls_ok codec l seen calls \<Longrightarrow> list_all (call_ok codec l) calls"
  by (simp add: calls_ok_iff)

lemma tool_calls_loop:
  "(fst (for_each (validate_tool_call codec l) calls (a, seen)) = None \<longleftrightarrow> calls_ok codec l seen calls) \<and>
   (calls_ok codec l seen calls \<longrightarrow>
      for_each (validate_tool_call codec l) calls (a, seen) = (None, a, seen @ map call_id calls))"
proof (induction calls arbitrary: seen)
  case (Cons c cs)
  obtain e r where v: "validate_tool_call codec l c (a, seen) = (e, r)"
    by (cases "validate_tool_call codec l c (a, seen)")
  note t = tool_call_eval [where codec = codec and l = l and c = c and a = a and seen = seen, unfolded v, simplified]
  show ?case
  proof (cases "call_ok codec l c \<and> call_id c \<notin> set seen")
    case True
    then have "e = None" "r = (a, seen @ [call_id c])" using t by auto
    then show ?thesis using True Cons.IH [of "seen @ [call_id c]"] v by simp
  next
    case False
    then obtain x where "e = Some x" using t by (cases e) auto
    then show ?thesis using False v by auto
  qed
qed simp

text \<open>One message: what it needs of the ids seen so far, and what it adds.\<close>

definition step_ok :: "json_codec \<Rightarrow> input_limits \<Rightarrow> string list \<Rightarrow> canonical_message \<Rightarrow> bool" where
  "step_ok codec l seen m \<longleftrightarrow>
     message_ok codec l m \<and> parts_ok l (message_parts m) \<and>
     (case m of Assistant _ calls \<Rightarrow> calls_ok codec l seen calls | ToolResult i _ \<Rightarrow> i \<in> set seen | _ \<Rightarrow> True)"

lemma message_eval:
  "fst (message_validate codec l (n, m) (min a usize_max, seen)) = None \<longleftrightarrow> step_ok codec l seen m"
  "step_ok codec l seen m \<Longrightarrow> message_validate codec l (n, m) (min a usize_max, seen) =
    (None, min (a + sum_list (map length (message_parts m))) usize_max, seen @ message_calls m)"
proof -
  let ?v = "message_validate codec l (n, m) (min a usize_max, seen)"
  let ?r = "(None, min (a + sum_list (map length (message_parts m))) usize_max, seen @ message_calls m)"
  have "(fst ?v = None \<longleftrightarrow> step_ok codec l seen m) \<and> (step_ok codec l seen m \<longrightarrow> ?v = ?r)"
  proof (cases m)
    case (System parts name)
    then show ?thesis
      using validate_name_None [of l name] text_parts_eval [where l = l and req = True and parts = parts and a = a and seen = seen]
      by (auto simp: message_validate_def step_ok_def split: option.splits)
  next
    case (User parts name)
    then show ?thesis
      using validate_name_None [of l name] text_parts_eval [where l = l and req = True and parts = parts and a = a and seen = seen]
      by (auto simp: message_validate_def step_ok_def split: option.splits)
  next
    case (Assistant parts calls)
    obtain e r where t: "validate_text_parts l False parts (min a usize_max, seen) = (e, r)"
      by (cases "validate_text_parts l False parts (min a usize_max, seen)")
    note p = text_parts_eval [where l = l and req = False and parts = parts and a = a and seen = seen, unfolded t, simplified]
    note c = tool_calls_loop [where codec = codec and l = l and calls = calls and seen = seen
      and a = "min (a + sum_list (map length parts)) usize_max"]
    show ?thesis
    proof (cases "parts_ok l parts")
      case True
      then have "e = None" "r = (min (a + sum_list (map length parts)) usize_max, seen)" using p by auto
      then show ?thesis
        using True t c calls_okD [of codec l seen calls]
        by (cases "calls_ok codec l seen calls") (simp_all add: Assistant message_validate_def step_ok_def)
    next
      case False
      then obtain x where "e = Some x" using p by (cases e) auto
      then show ?thesis using False t by (auto simp: Assistant message_validate_def step_ok_def)
    qed
  next
    case (ToolResult i parts)
    then show ?thesis
      using validate_tool_call_id_None [of l i] text_parts_eval [where l = l and req = True and parts = parts and a = a and seen = seen]
      by (auto simp: message_validate_def step_ok_def split: option.splits)
  qed
  then show "fst ?v = None \<longleftrightarrow> step_ok codec l seen m" and "step_ok codec l seen m \<Longrightarrow> ?v = ?r" by blast+
qed

fun steps_ok :: "json_codec \<Rightarrow> input_limits \<Rightarrow> string list \<Rightarrow> canonical_message list \<Rightarrow> bool" where
  "steps_ok codec l seen [] = True"
| "steps_ok codec l seen (m # ms) \<longleftrightarrow> step_ok codec l seen m \<and> steps_ok codec l (seen @ message_calls m) ms"

lemma messages_loop:
  "(fst (for_each (message_validate codec l) (enumerate n ms) (min a usize_max, seen)) = None \<longleftrightarrow> steps_ok codec l seen ms) \<and>
   (steps_ok codec l seen ms \<longrightarrow> for_each (message_validate codec l) (enumerate n ms) (min a usize_max, seen) =
      (None, min (a + text_bytes ms) usize_max, seen @ all_calls ms))"
proof (induction ms arbitrary: n a seen)
  case Nil
  then show ?case by (simp add: text_bytes_def all_calls_def)
next
  case (Cons m ms)
  obtain e r where v: "message_validate codec l (n, m) (min a usize_max, seen) = (e, r)"
    by (cases "message_validate codec l (n, m) (min a usize_max, seen)")
  note t = message_eval [where codec = codec and l = l and n = n and m = m and a = a and seen = seen, unfolded v, simplified]
  show ?case
  proof (cases "step_ok codec l seen m")
    case True
    then have "e = None" "r = (min (a + sum_list (map length (message_parts m))) usize_max, seen @ message_calls m)"
      using t by auto
    then show ?thesis
      using True v Cons.IH by (simp add: text_bytes_def all_calls_def add.assoc)
  next
    case False
    then obtain x where "e = Some x" using t by (cases e) auto
    then show ?thesis using False v by simp
  qed
qed

lemma steps_ok_iff:
  "steps_ok codec l seen ms \<longleftrightarrow>
    list_all (\<lambda>m. message_ok codec l m \<and> parts_ok l (message_parts m)) ms \<and>
    distinct (all_calls ms) \<and> list_all (\<lambda>i. i \<notin> set seen) (all_calls ms) \<and> answers_known seen ms"
proof (induction ms arbitrary: seen)
  case (Cons m ms)
  show ?case
    unfolding steps_ok.simps Cons.IH
    by (cases m) (auto simp: step_ok_def all_calls_def list_all_iff calls_ok_iff image_iff, blast+)
qed (simp add: all_calls_def)

section \<open>Properties\<close>

lemma input_try_new_iff:
  assumes "max_aggregate_text_bytes l < usize_max"
  shows "input_try_new codec ms l = Ok ms \<longleftrightarrow> well_formed_input codec l ms"
proof -
  let ?loop = "for_each (message_validate codec l) (enumerate 0 ms) (0, [])"
  obtain e r where v: "?loop = (e, r)" by (cases ?loop)
  show ?thesis
  proof (cases "steps_ok codec l [] ms")
    case True
    then have "?loop = (None, min (text_bytes ms) usize_max, all_calls ms)"
      using messages_loop [where n = 0 and a = 0 and seen = "[]" and codec = codec and l = l and ms = ms] by simp
    then show ?thesis
      using True assms by (auto simp: input_try_new_def well_formed_input_def steps_ok_iff list_all_iff min_def)
  next
    case False
    then have "e \<noteq> None" using messages_loop [where n = 0 and a = 0 and seen = "[]" and codec = codec and l = l and ms = ms] v by simp
    then show ?thesis
      using False v by (auto simp: input_try_new_def well_formed_input_def steps_ok_iff list_all_iff split: option.splits)
  qed
qed

lemma input_unchanged: "input_try_new codec ms l = Ok ms' \<Longrightarrow> ms' = ms"
  by (auto simp: input_try_new_def split: if_splits option.splits prod.splits)

text \<open>
  C32. The message-by-message validation accepts an input only unchanged and only when it is
  well-formed: bounded non-empty parts, names, ids and arguments, the calls of each message within
  their limit, tool call ids distinct across the whole conversation, every tool result answering a
  call made earlier, and the total text within its bound. And it accepts every input that is also
  within the documented limit on all its tool calls.
\<close>

theorem input_validation_sound:
  assumes "max_aggregate_text_bytes l < usize_max"
  shows "(input_try_new codec ms l = Ok ms' \<longrightarrow> ms' = ms \<and> well_formed_input codec l ms) \<and>
    (valid_input codec l ms \<longrightarrow> input_try_new codec ms l = Ok ms)"
  using input_try_new_iff [OF assms] input_unchanged unfolding valid_input_def by metis

definition ok_codec :: json_codec where
  "ok_codec = \<lparr>from_slice = (\<lambda>_. Err []), from_str = (\<lambda>_. None), to_json_string = (\<lambda>_. ''null''),
     to_vec = (\<lambda>_. Some ''null'')\<rparr>"

theorem input_validation_sound_witness:
  "input_try_new ok_codec [User [''hi''] None, Assistant [] [\<lparr>call_id = ''c'', call_name = ''t'', call_arguments = JNull\<rparr>],
     ToolResult ''c'' [''ok'']] default_input_limits =
   Ok [User [''hi''] None, Assistant [] [\<lparr>call_id = ''c'', call_name = ''t'', call_arguments = JNull\<rparr>],
     ToolResult ''c'' [''ok'']]"
proof -
  have "max_aggregate_text_bytes default_input_limits < usize_max"
    by (simp add: default_input_limits_def usize_max_def)
  moreover have "valid_input ok_codec default_input_limits
     [User [''hi''] None, Assistant [] [\<lparr>call_id = ''c'', call_name = ''t'', call_arguments = JNull\<rparr>], ToolResult ''c'' [''ok'']]"
    by (simp add: valid_input_def well_formed_input_def default_input_limits_def ok_codec_def parts_ok_def part_ok_def
        all_calls_def call_ok_def label_ok_def text_bytes_def byte_def)
  ultimately show ?thesis using input_validation_sound by blast
qed

text \<open>
  Calls are counted message by message only: two messages with one call each are accepted under
  a limit of one call in an input.
\<close>

lemma tool_calls_counted_per_message:
  assumes "l = default_input_limits\<lparr>max_tool_calls := 1\<rparr>"
    and "ms = map (\<lambda>i. Assistant [] [\<lparr>call_id = i, call_name = ''t'', call_arguments = JNull\<rparr>]) [''a'', ''b'']"
  shows "input_try_new ok_codec ms l = Ok ms" and "length (all_calls ms) > max_tool_calls l"
proof -
  have "max_aggregate_text_bytes l < usize_max" by (simp add: assms(1) default_input_limits_def usize_max_def)
  moreover have "well_formed_input ok_codec l ms"
    by (simp add: assms well_formed_input_def default_input_limits_def ok_codec_def parts_ok_def part_ok_def
        all_calls_def call_ok_def label_ok_def text_bytes_def byte_def)
  ultimately show "input_try_new ok_codec ms l = Ok ms" by (simp add: input_try_new_iff)
  show "length (all_calls ms) > max_tool_calls l" by (simp add: assms all_calls_def)
qed

end
