(* ===== verification/Tool.thy ===== *)
theory Tool
  imports Limits Identity Input
begin

text \<open>
  \<open>crates/monoloop-contracts/src/tool.rs\<close>, the specification, result and lifecycle types of
  host tools, and \<open>crates/monoloop-loop/src/transaction/validation.rs\<close>, the validation of
  tool arguments and handler completions. The \<open>jsonschema\<close> crate is a parameter: applied to
  a schema and a value it is \<open>None\<close> when the schema does not compile.
\<close>

section \<open>Contracts\<close>

type_synonym schema_checker = "json \<Rightarrow> json \<Rightarrow> bool option"

datatype tool_contract_error =
    SchemaNotObject
  | DescriptionTooLong
  | ToolControlCharacter
  | InvalidLimits
  | InvalidCancellationGrace
  | InvalidMediaType
  | InvalidErrorCode
  | InvalidErrorMessage

definition json_schema_try_new :: "json \<Rightarrow> (tool_contract_error, json) result" where
  "json_schema_try_new v = (if is_object v then Ok v else Err SchemaNotObject)"

datatype tool_success_contract = JsonSuccess json | TextSuccess string

definition text_success_contract :: "string \<Rightarrow> (tool_contract_error, tool_success_contract) result" where
  "text_success_contract m =
     (if m = [] \<or> length m > 128 \<or> has_control m then Err InvalidMediaType else Ok (TextSuccess m))"

record tool_output_contract =
  success_contract :: tool_success_contract
  error_data_schema :: "json option"

datatype tool_execution_class =
    CooperativeInProcess nat
  | AbortableAtYield nat
  | ProcessIsolated nat nat

record tool_limits =
  tool_max_concurrent :: nat
  tool_max_input_bytes :: nat
  tool_max_output_bytes :: nat
  execution_deadline :: nat

definition default_tool_limits :: tool_limits where
  "default_tool_limits =
     \<lparr>tool_max_concurrent = 8, tool_max_input_bytes = 256 * 1024, tool_max_output_bytes = 256 * 1024,
      execution_deadline = 60000\<rparr>"

record tool_spec =
  spec_id :: string
  spec_name :: string
  spec_description :: string
  input_schema :: json
  output_contract :: tool_output_contract
  spec_limits :: tool_limits
  execution_class :: tool_execution_class

definition MAX_DESCRIPTION_BYTES :: nat where
  "MAX_DESCRIPTION_BYTES = 4 * 1024"

fun grace_is_zero :: "tool_execution_class \<Rightarrow> bool" where
  "grace_is_zero (CooperativeInProcess g) = (g = 0)"
| "grace_is_zero (AbortableAtYield g) = (g = 0)"
| "grace_is_zero (ProcessIsolated g k) = (g = 0 \<or> k = 0)"

definition tool_spec_try_new :: "tool_spec \<Rightarrow> (tool_contract_error, tool_spec) result" where
  "tool_spec_try_new s =
     (if length (spec_description s) > MAX_DESCRIPTION_BYTES then Err DescriptionTooLong
      else if has_control (spec_description s) then Err ToolControlCharacter
      else if tool_max_concurrent (spec_limits s) = 0 \<or> tool_max_input_bytes (spec_limits s) = 0
        \<or> tool_max_output_bytes (spec_limits s) = 0 \<or> execution_deadline (spec_limits s) = 0
      then Err InvalidLimits
      else if grace_is_zero (execution_class s) then Err InvalidCancellationGrace
      else Ok s)"

record tool_call =
  call_tool_name :: string
  call_tool_id :: string
  call_provider_id :: string
  call_tool_arguments :: json
  call_ordinal :: nat

datatype canonical_tool_output = JsonOutput json | TextOutput string

record canonical_tool_error =
  tool_error_code :: string
  tool_error_message :: string
  tool_error_data :: "json option"

definition tool_error_bad :: "string \<Rightarrow> bool" where
  "tool_error_bad code \<longleftrightarrow> code = [] \<or> length code > 64 \<or> has_control code"

definition tool_error_try_new ::
  "string \<Rightarrow> string \<Rightarrow> json option \<Rightarrow> nat \<Rightarrow> (tool_contract_error, canonical_tool_error) result" where
  "tool_error_try_new code message data n =
     (if tool_error_bad code then Err InvalidErrorCode
      else if message = [] \<or> length message > n \<or> has_control message then Err InvalidErrorMessage
      else Ok \<lparr>tool_error_code = code, tool_error_message = message, tool_error_data = data\<rparr>)"

datatype canonical_tool_result_outcome =
    ResultSucceeded canonical_tool_output
  | ResultDomainFailed canonical_tool_error

record canonical_tool_result =
  result_transaction :: string
  result_session :: session_key
  result_exchange :: string
  result_action :: string
  result_tool :: string
  result_provider_id :: string
  result_ordinal :: nat
  result_outcome :: canonical_tool_result_outcome

datatype tool_lifecycle_event =
    ToolStarted string string string string nat
  | ToolCompleted canonical_tool_result
  | ToolRuntimeFailed string string string

datatype tool_runtime_error =
    Panicked
  | CompletionLost
  | OutputContractViolated
  | TerminationFailed
  | ToolDeadlineExceeded

datatype tool_completion =
    CompletionSucceeded canonical_tool_output
  | CompletionDomainFailed canonical_tool_error
  | CompletionRuntimeFailed tool_runtime_error

section \<open>Validation\<close>

datatype input_validation_failure = OversizedInput | InvalidJson | DepthExceeded | SchemaInvalid

datatype output_validation_failure =
    OversizedOutput
  | SuccessShapeMismatch
  | SuccessSchemaInvalid
  | DomainErrorInvalid

definition DEFAULT_MAX_JSON_DEPTH :: nat where
  "DEFAULT_MAX_JSON_DEPTH = 16"

fun json_depth_ok :: "json \<Rightarrow> nat \<Rightarrow> nat \<Rightarrow> bool" where
  "json_depth_ok (JArray vs) depth m \<longleftrightarrow> depth \<le> m \<and> list_all (\<lambda>v. json_depth_ok v (depth + 1) m) vs"
| "json_depth_ok (JObject kvs) depth m \<longleftrightarrow> depth \<le> m \<and> list_all (\<lambda>(_, v). json_depth_ok v (depth + 1) m) kvs"
| "json_depth_ok v depth m \<longleftrightarrow> depth \<le> m"

definition encoded_len :: "json_codec \<Rightarrow> json \<Rightarrow> nat" where
  "encoded_len codec v = (case to_vec codec v of Some e \<Rightarrow> length e | None \<Rightarrow> usize_max)"

definition validate_against_schema :: "schema_checker \<Rightarrow> json \<Rightarrow> json \<Rightarrow> bool" where
  "validate_against_schema chk v schema = (chk schema v = Some True)"

definition validate_tool_input ::
  "json_codec \<Rightarrow> schema_checker \<Rightarrow> string \<Rightarrow> json \<Rightarrow> nat \<Rightarrow> nat \<Rightarrow> (input_validation_failure, json) result" where
  "validate_tool_input codec chk payload schema max_bytes max_depth =
     (if length payload > max_bytes then Err OversizedInput
      else (case from_str codec payload of
              None \<Rightarrow> Err InvalidJson
            | Some v \<Rightarrow>
                if \<not> json_depth_ok v 0 max_depth then Err DepthExceeded
                else if \<not> validate_against_schema chk v schema then Err SchemaInvalid
                else Ok v))"

text \<open>Control characters of a text output other than line feed, tab and carriage return.\<close>

definition has_hard_control :: "string \<Rightarrow> bool" where
  "has_hard_control t = has_control (filter (\<lambda>c. c \<noteq> CHR 0x0A \<and> c \<noteq> CHR 0x09 \<and> c \<noteq> CHR 0x0D) t)"

definition validate_success_output ::
  "json_codec \<Rightarrow> schema_checker \<Rightarrow> canonical_tool_output \<Rightarrow> tool_success_contract \<Rightarrow> nat \<Rightarrow> nat
    \<Rightarrow> output_validation_failure option" where
  "validate_success_output codec chk out contract max_bytes max_depth =
     (case (out, contract) of
        (JsonOutput v, JsonSuccess schema) \<Rightarrow>
          if encoded_len codec v > max_bytes then Some OversizedOutput
          else if \<not> json_depth_ok v 0 max_depth then Some SuccessSchemaInvalid
          else if \<not> validate_against_schema chk v schema then Some SuccessSchemaInvalid
          else None
      | (TextOutput t, TextSuccess _) \<Rightarrow>
          if length t > max_bytes then Some OversizedOutput
          else if has_hard_control t then Some SuccessShapeMismatch
          else None
      | _ \<Rightarrow> Some SuccessShapeMismatch)"

definition validate_domain_error ::
  "json_codec \<Rightarrow> schema_checker \<Rightarrow> canonical_tool_error \<Rightarrow> json option \<Rightarrow> nat \<Rightarrow> nat \<Rightarrow> nat
    \<Rightarrow> output_validation_failure option" where
  "validate_domain_error codec chk err data_schema max_bytes max_message max_depth =
     (if tool_error_bad (tool_error_code err) \<or> tool_error_message err = []
         \<or> length (tool_error_message err) > max_message \<or> has_control (tool_error_message err)
      then Some DomainErrorInvalid
      else (case tool_error_data err of
              None \<Rightarrow> None
            | Some data \<Rightarrow>
                if encoded_len codec data > max_bytes then Some OversizedOutput
                else if \<not> json_depth_ok data 0 max_depth then Some DomainErrorInvalid
                else (case data_schema of
                        Some schema \<Rightarrow>
                          if validate_against_schema chk data schema then None else Some DomainErrorInvalid
                      | None \<Rightarrow> None)))"

definition validate_tool_completion ::
  "json_codec \<Rightarrow> schema_checker \<Rightarrow> tool_completion \<Rightarrow> tool_output_contract \<Rightarrow> nat \<Rightarrow> nat \<Rightarrow> nat
    \<Rightarrow> (output_validation_failure, tool_completion) result" where
  "validate_tool_completion codec chk completion contract max_bytes max_message max_depth =
     (case completion of
        CompletionSucceeded out \<Rightarrow>
          (case validate_success_output codec chk out (success_contract contract) max_bytes max_depth of
             Some e \<Rightarrow> Err e | None \<Rightarrow> Ok completion)
      | CompletionDomainFailed err \<Rightarrow>
          (case validate_domain_error codec chk err (error_data_schema contract) max_bytes max_message max_depth of
             Some e \<Rightarrow> Err e | None \<Rightarrow> Ok completion)
      | CompletionRuntimeFailed _ \<Rightarrow> Ok completion)"

section \<open>Depth\<close>

lemma foldr_max_le: "foldr max xs 0 + d \<le> (m::nat) \<longleftrightarrow> d \<le> m \<and> list_all (\<lambda>x. x + d \<le> m) xs"
  by (induction xs) auto

lemma json_depth_ok_iff: "json_depth_ok v depth m \<longleftrightarrow> json_depth v + depth \<le> m + 1"
proof (induction v depth m rule: json_depth_ok.induct)
  case (1 vs depth m)
  then show ?case
    using foldr_max_le [of "map json_depth vs" depth m] by (auto simp: list_all_iff)
next
  case (2 kvs depth m)
  have "list_all (\<lambda>x. x + depth \<le> m) (map (\<lambda>(_, v). json_depth v) kvs)
      \<longleftrightarrow> list_all (\<lambda>(_, v). json_depth_ok v (depth + 1) m) kvs"
    using 2 by (fastforce simp: list_all_iff)
  then show ?case
    using foldr_max_le [of "map (\<lambda>(_, v). json_depth v) kvs" depth m] by simp
qed auto

section \<open>Properties\<close>

text \<open>
  A tool runs only on arguments that were checked: validation returns a value exactly
  when the payload is within its byte bound, parses, is not nested deeper than allowed and
  satisfies the schema. The nesting bound counts from zero, so the same number admits one
  level more here than in the validation of canonical input, which counts a scalar as one.
\<close>

theorem tool_input_exact:
  "validate_tool_input codec chk payload schema max_bytes max_depth = Ok v \<longleftrightarrow>
     length payload \<le> max_bytes \<and> from_str codec payload = Some v \<and>
     json_depth v \<le> max_depth + 1 \<and> chk schema v = Some True"
  by (auto simp: validate_tool_input_def json_depth_ok_iff validate_against_schema_def split: option.splits)

text \<open>
  What a handler returns is passed on unchanged or refused: an accepted success has the
  declared shape, an accepted JSON body is bounded and satisfies the declared schema, and
  an accepted domain error has a bounded code and message and data that satisfies its schema.
\<close>

theorem tool_completion_sound:
  assumes "validate_tool_completion codec chk completion contract max_bytes max_message max_depth = Ok r"
  shows "r = completion \<and>
    (case completion of
       CompletionSucceeded (JsonOutput v) \<Rightarrow>
         encoded_len codec v \<le> max_bytes \<and> json_depth v \<le> max_depth + 1 \<and>
         (case success_contract contract of JsonSuccess s \<Rightarrow> chk s v = Some True | TextSuccess _ \<Rightarrow> False)
     | CompletionSucceeded (TextOutput t) \<Rightarrow>
         length t \<le> max_bytes \<and> \<not> has_hard_control t \<and>
         (case success_contract contract of JsonSuccess s \<Rightarrow> False | TextSuccess _ \<Rightarrow> True)
     | CompletionDomainFailed err \<Rightarrow>
         tool_error_try_new (tool_error_code err) (tool_error_message err) (tool_error_data err) max_message = Ok err \<and>
         (case (tool_error_data err, error_data_schema contract) of
            (Some d, Some s) \<Rightarrow> chk s d = Some True | _ \<Rightarrow> True)
     | CompletionRuntimeFailed _ \<Rightarrow> True)"
  using assms
  by (auto simp: validate_tool_completion_def validate_success_output_def validate_domain_error_def
      tool_error_try_new_def validate_against_schema_def json_depth_ok_iff
      split: tool_completion.splits canonical_tool_output.splits tool_success_contract.splits option.splits if_splits)

definition any_schema :: schema_checker where
  "any_schema s v = Some True"

theorem tool_completion_sound_witness:
  "\<not> has_hard_control (''ok'' @ [CHR 0x0A]) \<and>
   validate_tool_completion ok_codec any_schema (CompletionSucceeded (TextOutput (''ok'' @ [CHR 0x0A])))
     \<lparr>success_contract = TextSuccess ''text/plain'', error_data_schema = None\<rparr> 10 10 4
   = Ok (CompletionSucceeded (TextOutput (''ok'' @ [CHR 0x0A])))"
proof -
  let ?c = "CompletionSucceeded (TextOutput (''ok'' @ [CHR 0x0A]))"
  have "validate_tool_completion ok_codec any_schema ?c
     \<lparr>success_contract = TextSuccess ''text/plain'', error_data_schema = None\<rparr> 10 10 4 = Ok ?c"
    by code_simp
  from tool_completion_sound [OF this] this show ?thesis by simp
qed

end
