(* ===== verification/Btree.thy ===== *)
theory Btree
  imports Assoc "HOL-Library.List_Lexorder" "HOL-Library.Char_ord"
begin

text \<open>
  Rust's \<open>BTreeMap\<close> with string keys, as an association list sorted by key: strings compare
  byte by byte, which is the lexicographic order of their character lists. Iteration is list
  order. Nothing here models a line of the repository.
\<close>

fun btree_insert :: "'k::linorder \<Rightarrow> 'v \<Rightarrow> ('k \<times> 'v) list \<Rightarrow> ('k \<times> 'v) list" where
  "btree_insert k v [] = [(k, v)]"
| "btree_insert k v ((k', v') # xs) =
     (if k < k' then (k, v) # (k', v') # xs
      else if k = k' then (k, v) # xs
      else (k', v') # btree_insert k v xs)"

abbreviation btree :: "('k::linorder \<times> 'v) list \<Rightarrow> bool" where
  "btree xs \<equiv> sorted_wrt (<) (map fst xs)"

text \<open>\<open>for (k, v) in over { base.insert(k, v) }\<close>\<close>

definition overlay :: "('k::linorder \<times> 'v) list \<Rightarrow> ('k \<times> 'v) list \<Rightarrow> ('k \<times> 'v) list" where
  "overlay over base = fold (\<lambda>(k, v). btree_insert k v) over base"

lemma btree_insert_keys: "set (map fst (btree_insert k v xs)) = insert k (set (map fst xs))"
  by (induction k v xs rule: btree_insert.induct) auto

lemma btree_btree_insert [simp]: "btree xs \<Longrightarrow> btree (btree_insert k v xs)"
proof (induction k v xs rule: btree_insert.induct)
  case (2 k v k' v' xs)
  then show ?case using btree_insert_keys [of k v xs] by auto
qed simp

lemma map_of_btree_insert:
  "btree xs \<Longrightarrow> map_of (btree_insert k v xs) = (map_of xs)(k \<mapsto> v)"
proof (induction k v xs rule: btree_insert.induct)
  case (2 k v k' v' xs)
  then have "k < k' \<Longrightarrow> map_of xs k = None" by (auto simp: map_of_eq_None_iff)
  with 2 show ?case by (auto simp: fun_eq_iff)
qed auto

lemma btree_distinct: "btree xs \<Longrightarrow> distinct (map fst xs)"
  by (induction xs) auto

lemma overlay_Nil [simp]: "overlay [] base = base"
  by (simp add: overlay_def)

lemma overlay_keys: "set (map fst (overlay over base)) = set (map fst over) \<union> set (map fst base)"
  unfolding overlay_def
proof (induction over arbitrary: base)
  case (Cons x over)
  obtain a b where "x = (a, b)" by (cases x)
  with Cons show ?case using btree_insert_keys [of a b base] by simp
qed simp

lemma overlay_btree: "btree base \<Longrightarrow> btree (overlay over base)"
  unfolding overlay_def by (induction over arbitrary: base) auto

text \<open>The upper layer wins.\<close>

lemma map_of_overlay:
  assumes "btree over" and "btree base"
  shows "map_of (overlay over base) k = (case map_of over k of Some v \<Rightarrow> Some v | None \<Rightarrow> map_of base k)"
  using assms
proof (induction over arbitrary: base)
  case Nil
  then show ?case by (simp add: overlay_def)
next
  case (Cons x over)
  obtain a b where x: "x = (a, b)" by (cases x)
  have n: "map_of over a = None" using Cons.prems(1) by (auto simp: x map_of_eq_None_iff)
  have "map_of (overlay (x # over) base) k = map_of (overlay over (btree_insert a b base)) k"
    by (simp add: overlay_def x)
  also have "\<dots> = (case map_of over k of Some v \<Rightarrow> Some v | None \<Rightarrow> map_of (btree_insert a b base) k)"
    using Cons by (simp add: x)
  finally show ?case
    using n Cons.prems(2) by (auto simp: x map_of_btree_insert split: option.split)
qed

end
