(* ===== verification/Config.thy ===== *)
theory Config
  imports Btree Limits Input
begin

text \<open>
  \<open>crates/monoloop-contracts/src/config.rs\<close>: the invocation and session configuration of a
  request, the option policy of a channel, and the merge of channel defaults, session
  extensions and permitted invocation overrides into the effective configuration.
  Extension maps are sorted association lists; durations are milliseconds. The merge shares
  \<open>json_depth\<close> with the input validation, whose source has the same function.
\<close>

section \<open>Options and layers\<close>

text \<open>
  A finite \<open>f32\<close> is a sign and a magnitude in units of 2 to the -149, the smallest positive
  value.
\<close>

datatype f32 = NaN | Infinite bool | Finite bool nat

definition in_zero_two :: "f32 \<Rightarrow> bool" where
  "in_zero_two t = (case t of Finite neg m \<Rightarrow> if neg then m = 0 else m \<le> 2 * 2 ^ 149 | _ \<Rightarrow> False)"

datatype continuation_policy = InlineToolContinuation | CallerControlled

datatype reasoning_effort = Low | Medium | High

datatype response_format = PlainText | JsonObject

datatype config_option =
    OptModel
  | OptTemperature
  | OptReasoningEffort
  | OptMaxOutputTokens
  | OptStop
  | OptResponseFormat
  | OptContinuationPolicy
  | OptDeadline
  | OptExtensions

record versioned_extension =
  ext_version :: nat
  ext_value :: json

type_synonym extension_map = "(string \<times> versioned_extension) list"

record invocation_config =
  inv_model :: "string option"
  inv_temperature :: "f32 option"
  inv_reasoning_effort :: "reasoning_effort option"
  inv_max_output_tokens :: "nat option"
  inv_stop :: "string list"
  inv_response_format :: "response_format option"
  inv_continuation_policy :: continuation_policy
  inv_deadline :: "nat option"
  inv_extensions :: extension_map

definition default_invocation_config :: invocation_config where
  "default_invocation_config =
     \<lparr>inv_model = None, inv_temperature = None, inv_reasoning_effort = None,
      inv_max_output_tokens = None, inv_stop = [], inv_response_format = None,
      inv_continuation_policy = CallerControlled, inv_deadline = None, inv_extensions = []\<rparr>"

record session_config =
  specialist_profile :: "string option"
  session_mode :: "string option"
  permission_profile :: "string option"
  ses_extensions :: extension_map
  connector_ref :: "string option"

definition default_session_config :: session_config where
  "default_session_config =
     \<lparr>specialist_profile = None, session_mode = None, permission_profile = None,
      ses_extensions = [], connector_ref = None\<rparr>"

record channel_defaults =
  def_model :: "string option"
  def_temperature :: "f32 option"
  def_reasoning_effort :: "reasoning_effort option"
  def_max_output_tokens :: "nat option"
  def_stop :: "string list"
  def_response_format :: "response_format option"
  def_continuation_policy :: continuation_policy
  def_extensions :: extension_map

record option_policy =
  supported_invocation :: "config_option list"
  session_immutable :: "config_option list"
  allowed_extension_keys :: "string list"

definition direct_llm :: option_policy where
  "direct_llm =
     \<lparr>supported_invocation = [OptModel, OptTemperature, OptReasoningEffort, OptMaxOutputTokens, OptStop,
        OptResponseFormat, OptContinuationPolicy, OptDeadline, OptExtensions],
      session_immutable = [], allowed_extension_keys = []\<rparr>"

definition external_agent :: option_policy where
  "external_agent =
     \<lparr>supported_invocation = [OptContinuationPolicy, OptDeadline, OptExtensions],
      session_immutable = [], allowed_extension_keys = []\<rparr>"

definition with_extension_keys :: "string list \<Rightarrow> option_policy \<Rightarrow> option_policy" where
  "with_extension_keys keys p = p\<lparr>allowed_extension_keys := allowed_extension_keys p @ keys\<rparr>"

record effective_config =
  eff_model :: "string option"
  eff_temperature :: "f32 option"
  eff_reasoning_effort :: "reasoning_effort option"
  eff_max_output_tokens :: "nat option"
  eff_stop :: "string list"
  eff_response_format :: "response_format option"
  eff_continuation_policy :: continuation_policy
  eff_deadline :: "nat option"
  eff_extensions :: extension_map
  eff_session :: session_config

datatype config_error =
    EmptyExtensionKey
  | ExtensionKeyMissingNamespace
  | ExtensionKeyTooLong nat nat
  | ConfigControlCharacter
  | TooManyExtensions nat nat
  | ExtensionTooDeep nat nat
  | ExtensionsTooLarge nat nat
  | UnknownExtension string
  | ExtensionEncodeFailed
  | UnsupportedOption config_option
  | InvalidNumeric string
  | InvalidModel
  | InvalidStop
  | InvalidSessionLabel
  | ImmutableSessionMismatch string

definition extension_key_try_new :: "string \<Rightarrow> nat \<Rightarrow> (config_error, string) result" where
  "extension_key_try_new s n =
     (if s = [] then Err EmptyExtensionKey
      else if length s > n then Err (ExtensionKeyTooLong (length s) n)
      else if has_control s then Err ConfigControlCharacter
      else if CHR ''.'' \<notin> set s then Err ExtensionKeyMissingNamespace
      else Ok s)"

section \<open>Validation\<close>

definition validate_extension ::
  "json_codec \<Rightarrow> extension_limits \<Rightarrow> option_policy \<Rightarrow> string \<times> versioned_extension \<Rightarrow> nat \<Rightarrow> (config_error, nat) outcome" where
  "validate_extension codec l p kv acc =
     (case kv of (k, v) \<Rightarrow>
        if length k > max_key_bytes l
        then (Some (ExtensionKeyTooLong (length k) (max_key_bytes l)), acc)
        else if k \<notin> set (allowed_extension_keys p) then (Some (UnknownExtension k), acc)
        else if json_depth (ext_value v) > max_value_depth l
        then (Some (ExtensionTooDeep (json_depth (ext_value v)) (max_value_depth l)), acc)
        else (case to_vec codec (ext_value v) of
                None \<Rightarrow> (Some ExtensionEncodeFailed, acc)
              | Some e \<Rightarrow> (None, saturating_add (saturating_add acc (length e)) (length k))))"

definition validate_extensions ::
  "json_codec \<Rightarrow> extension_map \<Rightarrow> extension_limits \<Rightarrow> option_policy \<Rightarrow> config_error option" where
  "validate_extensions codec m l p =
     (if length m > max_keys l then Some (TooManyExtensions (length m) (max_keys l))
      else if m \<noteq> [] \<and> allowed_extension_keys p = [] then Some (UnknownExtension (fst (hd m)))
      else (case for_each (validate_extension codec l p) m 0 of
              (Some e, _) \<Rightarrow> Some e
            | (None, acc) \<Rightarrow>
                if acc > max_serialized_bytes l
                then Some (ExtensionsTooLarge acc (max_serialized_bytes l)) else None))"

definition label_bad :: "nat \<Rightarrow> string \<Rightarrow> bool" where
  "label_bad n s \<longleftrightarrow> s = [] \<or> length s > n \<or> has_control s"

definition validate_session_labels :: "session_config \<Rightarrow> config_error option" where
  "validate_session_labels s =
     (if list_ex (\<lambda>x. case x of Some t \<Rightarrow> label_bad 128 t | None \<Rightarrow> False)
           [specialist_profile s, session_mode s, permission_profile s]
      then Some InvalidSessionLabel else None)"

definition validate_invocation_strings :: "invocation_config \<Rightarrow> config_error option" where
  "validate_invocation_strings i =
     (if (case inv_model i of Some m \<Rightarrow> label_bad 256 m | None \<Rightarrow> False) then Some InvalidModel
      else if list_ex (label_bad 64) (inv_stop i) then Some InvalidStop
      else None)"

definition check_session_match :: "session_config \<Rightarrow> session_config \<Rightarrow> option_policy \<Rightarrow> config_error option" where
  "check_session_match requested attached p =
     (if specialist_profile requested \<noteq> specialist_profile attached
         \<and> (specialist_profile requested \<noteq> None \<or> specialist_profile attached \<noteq> None)
      then Some (ImmutableSessionMismatch ''specialist_profile'')
      else if session_mode requested \<noteq> session_mode attached
         \<and> (session_mode requested \<noteq> None \<or> session_mode attached \<noteq> None)
      then Some (ImmutableSessionMismatch ''mode'')
      else if permission_profile requested \<noteq> permission_profile attached
         \<and> (permission_profile requested \<noteq> None \<or> permission_profile attached \<noteq> None)
      then Some (ImmutableSessionMismatch ''permission_profile'')
      else if list_ex (\<lambda>(k, v). case map_of (ses_extensions attached) k of
                 Some existing \<Rightarrow> existing \<noteq> v | None \<Rightarrow> False) (ses_extensions requested)
      then Some (ImmutableSessionMismatch ''extension'')
      else None)"

section \<open>The merge\<close>

text \<open>
  One \<open>if set { require_supported(..)?; check?; assign }\<close> block of \<open>apply_invocation\<close>.
\<close>

definition override_option ::
  "option_policy \<Rightarrow> config_option \<Rightarrow> bool \<Rightarrow> config_error option \<Rightarrow> (effective_config \<Rightarrow> effective_config)
    \<Rightarrow> effective_config \<Rightarrow> (config_error, effective_config) outcome" where
  "override_option p opt given check f e =
     (if \<not> given then (None, e)
      else if opt \<notin> set (supported_invocation p) then (Some (UnsupportedOption opt), e)
      else (case check of Some err \<Rightarrow> (Some err, e) | None \<Rightarrow> (None, f e)))"

definition temperature_check :: "f32 option \<Rightarrow> config_error option" where
  "temperature_check t =
     (case t of
        Some t \<Rightarrow> if in_zero_two t then None else Some (InvalidNumeric ''temperature'')
      | None \<Rightarrow> None)"

definition apply_invocation ::
  "invocation_config \<Rightarrow> option_policy \<Rightarrow> effective_config \<Rightarrow> (config_error, effective_config) outcome" where
  "apply_invocation i p e =
     and_then (override_option p OptModel (inv_model i \<noteq> None) None (\<lambda>e. e\<lparr>eff_model := inv_model i\<rparr>) e) (\<lambda>e.
     and_then (override_option p OptTemperature (inv_temperature i \<noteq> None) (temperature_check (inv_temperature i))
       (\<lambda>e. e\<lparr>eff_temperature := inv_temperature i\<rparr>) e) (\<lambda>e.
     and_then (override_option p OptReasoningEffort (inv_reasoning_effort i \<noteq> None) None
       (\<lambda>e. e\<lparr>eff_reasoning_effort := inv_reasoning_effort i\<rparr>) e) (\<lambda>e.
     and_then (override_option p OptMaxOutputTokens (inv_max_output_tokens i \<noteq> None) None
       (\<lambda>e. e\<lparr>eff_max_output_tokens := inv_max_output_tokens i\<rparr>) e) (\<lambda>e.
     and_then (override_option p OptStop (inv_stop i \<noteq> []) None (\<lambda>e. e\<lparr>eff_stop := inv_stop i\<rparr>) e) (\<lambda>e.
     and_then (override_option p OptResponseFormat (inv_response_format i \<noteq> None) None
       (\<lambda>e. e\<lparr>eff_response_format := inv_response_format i\<rparr>) e) (\<lambda>e.
     and_then (override_option p OptContinuationPolicy True None
       (\<lambda>e. e\<lparr>eff_continuation_policy := inv_continuation_policy i\<rparr>) e) (\<lambda>e.
     and_then (override_option p OptDeadline (inv_deadline i \<noteq> None) None
       (\<lambda>e. e\<lparr>eff_deadline := inv_deadline i\<rparr>) e) (\<lambda>e.
     override_option p OptExtensions (inv_extensions i \<noteq> []) None
       (\<lambda>e. e\<lparr>eff_extensions := overlay (inv_extensions i) (eff_extensions e)\<rparr>) e))))))))"

definition validate_session ::
  "json_codec \<Rightarrow> extension_limits \<Rightarrow> option_policy \<Rightarrow> session_config option \<Rightarrow> config_error option" where
  "validate_session codec l p s =
     (case s of
        None \<Rightarrow> None
      | Some s \<Rightarrow>
          (case validate_session_labels s of
             Some e \<Rightarrow> Some e
           | None \<Rightarrow> validate_extensions codec (ses_extensions s) l p))"

text \<open>The checks in front of the merge, in the order of the source; the first error wins.\<close>

fun first_error :: "'e option list \<Rightarrow> 'e option" where
  "first_error [] = None"
| "first_error (Some e # es) = Some e"
| "first_error (None # es) = first_error es"

definition merge_checks ::
  "json_codec \<Rightarrow> channel_defaults \<Rightarrow> session_config option \<Rightarrow> session_config option \<Rightarrow> invocation_config
    \<Rightarrow> option_policy \<Rightarrow> extension_limits \<Rightarrow> config_error option" where
  "merge_checks codec d session attached i p l =
     first_error
       [validate_extensions codec (def_extensions d) l p,
        validate_session codec l p session,
        validate_session codec l p attached,
        validate_extensions codec (inv_extensions i) l p,
        validate_invocation_strings i,
        case (session, attached) of
          (Some r, Some a) \<Rightarrow> check_session_match r a p
        | _ \<Rightarrow> None]"

definition merge_base :: "channel_defaults \<Rightarrow> session_config option \<Rightarrow> effective_config" where
  "merge_base d session =
     \<lparr>eff_model = def_model d, eff_temperature = def_temperature d,
      eff_reasoning_effort = def_reasoning_effort d, eff_max_output_tokens = def_max_output_tokens d,
      eff_stop = def_stop d, eff_response_format = def_response_format d,
      eff_continuation_policy = def_continuation_policy d, eff_deadline = None,
      eff_extensions = (case session of Some s \<Rightarrow> overlay (ses_extensions s) (def_extensions d)
                        | None \<Rightarrow> def_extensions d),
      eff_session = (case session of Some s \<Rightarrow> s | None \<Rightarrow> default_session_config)\<rparr>"

definition merge_effective_config ::
  "json_codec \<Rightarrow> channel_defaults \<Rightarrow> session_config option \<Rightarrow> session_config option \<Rightarrow> invocation_config
    \<Rightarrow> option_policy \<Rightarrow> extension_limits \<Rightarrow> (config_error, effective_config) result" where
  "merge_effective_config codec d session attached i p l =
     (case merge_checks codec d session attached i p l of
        Some e \<Rightarrow> Err e
      | None \<Rightarrow>
          (case apply_invocation i p (merge_base d session) of
             (Some e, _) \<Rightarrow> Err e
           | (None, eff) \<Rightarrow>
               (case validate_extensions codec (eff_extensions eff) l p of
                  Some e \<Rightarrow> Err e
                | None \<Rightarrow> Ok eff)))"


section \<open>What a valid configuration is\<close>

text \<open>The extension layer as a specification: how many, which keys, how deep, how large.\<close>

definition extension_ok :: "json_codec \<Rightarrow> extension_limits \<Rightarrow> option_policy \<Rightarrow> string \<times> versioned_extension \<Rightarrow> bool" where
  "extension_ok codec l p kv \<longleftrightarrow>
     length (fst kv) \<le> max_key_bytes l \<and> fst kv \<in> set (allowed_extension_keys p) \<and>
     json_depth (ext_value (snd kv)) \<le> max_value_depth l \<and> to_vec codec (ext_value (snd kv)) \<noteq> None"

definition extension_bytes :: "json_codec \<Rightarrow> extension_map \<Rightarrow> nat" where
  "extension_bytes codec m = sum_list (map (\<lambda>(k, v). length (the (to_vec codec (ext_value v))) + length k) m)"

definition extensions_ok :: "json_codec \<Rightarrow> extension_limits \<Rightarrow> option_policy \<Rightarrow> extension_map \<Rightarrow> bool" where
  "extensions_ok codec l p m \<longleftrightarrow>
     length m \<le> max_keys l \<and> list_all (extension_ok codec l p) m \<and> extension_bytes codec m \<le> max_serialized_bytes l"

lemma saturating_add_min:
  "saturating_add (saturating_add (min a usize_max) b) c = min (a + (b + c)) usize_max"
  by (simp add: saturating_add_def)

lemma validate_extension_eval:
  "validate_extension codec l p (k, v) (min a usize_max) =
     (if extension_ok codec l p (k, v)
      then (None, min (a + (length (the (to_vec codec (ext_value v))) + length k)) usize_max)
      else (fst (validate_extension codec l p (k, v) 0), min a usize_max))"
  "fst (validate_extension codec l p (k, v) n) = None \<longleftrightarrow> extension_ok codec l p (k, v)"
  by (auto simp: validate_extension_def extension_ok_def saturating_add_min split: option.splits)

lemma extensions_loop:
  "(fst (for_each (validate_extension codec l p) m (min a usize_max)) = None \<longleftrightarrow> list_all (extension_ok codec l p) m) \<and>
   (list_all (extension_ok codec l p) m \<longrightarrow>
     for_each (validate_extension codec l p) m (min a usize_max) = (None, min (a + extension_bytes codec m) usize_max))"
proof (induction m arbitrary: a)
  case (Cons x m)
  obtain k v where x: "x = (k, v)" by (cases x)
  show ?case
  proof (cases "extension_ok codec l p x")
    case True
    then show ?thesis using Cons.IH by (simp add: x validate_extension_eval(1) extension_bytes_def add.assoc)
  next
    case False
    then obtain e where "fst (validate_extension codec l p (k, v) 0) = Some e"
      using validate_extension_eval(2) x by (metis not_Some_eq)
    with False show ?thesis by (simp add: x validate_extension_eval(1))
  qed
qed (simp add: extension_bytes_def)

lemma validate_extensions_None:
  assumes "max_serialized_bytes l < usize_max"
  shows "validate_extensions codec m l p = None \<longleftrightarrow> extensions_ok codec l p m"
proof -
  note loop = extensions_loop [of codec l p m 0]
  have "allowed_extension_keys p \<noteq> []" if "list_all (extension_ok codec l p) m" "m \<noteq> []"
    using that by (cases m) (auto simp: extension_ok_def)
  then show ?thesis
    using loop assms
    by (cases "list_all (extension_ok codec l p) m")
      (auto simp: validate_extensions_def extensions_ok_def split: prod.splits option.splits)
qed

text \<open>The options an invocation sets, and what the merge of the layers is.\<close>

definition used_options :: "invocation_config \<Rightarrow> config_option list" where
  "used_options i =
     OptContinuationPolicy #
     (if inv_model i \<noteq> None then [OptModel] else []) @
     (if inv_temperature i \<noteq> None then [OptTemperature] else []) @
     (if inv_reasoning_effort i \<noteq> None then [OptReasoningEffort] else []) @
     (if inv_max_output_tokens i \<noteq> None then [OptMaxOutputTokens] else []) @
     (if inv_stop i \<noteq> [] then [OptStop] else []) @
     (if inv_response_format i \<noteq> None then [OptResponseFormat] else []) @
     (if inv_deadline i \<noteq> None then [OptDeadline] else []) @
     (if inv_extensions i \<noteq> [] then [OptExtensions] else [])"

definition over :: "'a option \<Rightarrow> 'a option \<Rightarrow> 'a option" where
  "over upper lower = (case upper of Some x \<Rightarrow> Some x | None \<Rightarrow> lower)"

definition session_layer :: "session_config option \<Rightarrow> extension_map" where
  "session_layer s = (case s of Some s \<Rightarrow> ses_extensions s | None \<Rightarrow> [])"

definition merged :: "channel_defaults \<Rightarrow> session_config option \<Rightarrow> invocation_config \<Rightarrow> effective_config" where
  "merged d session i =
     \<lparr>eff_model = over (inv_model i) (def_model d),
      eff_temperature = over (inv_temperature i) (def_temperature d),
      eff_reasoning_effort = over (inv_reasoning_effort i) (def_reasoning_effort d),
      eff_max_output_tokens = over (inv_max_output_tokens i) (def_max_output_tokens d),
      eff_stop = (if inv_stop i = [] then def_stop d else inv_stop i),
      eff_response_format = over (inv_response_format i) (def_response_format d),
      eff_continuation_policy = inv_continuation_policy i,
      eff_deadline = inv_deadline i,
      eff_extensions = overlay (inv_extensions i) (overlay (session_layer session) (def_extensions d)),
      eff_session = (case session of Some s \<Rightarrow> s | None \<Rightarrow> default_session_config)\<rparr>"

definition session_ok :: "json_codec \<Rightarrow> extension_limits \<Rightarrow> option_policy \<Rightarrow> session_config \<Rightarrow> bool" where
  "session_ok codec l p s \<longleftrightarrow>
     list_all (\<lambda>x. case x of Some t \<Rightarrow> \<not> label_bad 128 t | None \<Rightarrow> True)
       [specialist_profile s, session_mode s, permission_profile s] \<and>
     extensions_ok codec l p (ses_extensions s)"

definition session_compatible :: "session_config \<Rightarrow> session_config \<Rightarrow> bool" where
  "session_compatible r a \<longleftrightarrow>
     specialist_profile r = specialist_profile a \<and> session_mode r = session_mode a \<and>
     permission_profile r = permission_profile a \<and>
     list_all (\<lambda>(k, v). case map_of (ses_extensions a) k of Some w \<Rightarrow> w = v | None \<Rightarrow> True) (ses_extensions r)"

definition layers_valid ::
  "json_codec \<Rightarrow> channel_defaults \<Rightarrow> session_config option \<Rightarrow> session_config option \<Rightarrow> invocation_config
    \<Rightarrow> option_policy \<Rightarrow> extension_limits \<Rightarrow> bool" where
  "layers_valid codec d session attached i p l \<longleftrightarrow>
     extensions_ok codec l p (def_extensions d) \<and>
     pred_option (session_ok codec l p) session \<and> pred_option (session_ok codec l p) attached \<and>
     extensions_ok codec l p (inv_extensions i) \<and>
     pred_option (\<lambda>m. \<not> label_bad 256 m) (inv_model i) \<and> list_all (\<lambda>s. \<not> label_bad 64 s) (inv_stop i) \<and>
     (case (session, attached) of (Some r, Some a) \<Rightarrow> session_compatible r a | _ \<Rightarrow> True) \<and>
     set (used_options i) \<subseteq> set (supported_invocation p) \<and>
     pred_option in_zero_two (inv_temperature i) \<and>
     extensions_ok codec l p (eff_extensions (merged d session i))"

text \<open>One override step: when it is let through, and what it then does.\<close>

lemma override_ok:
  assumes "given \<Longrightarrow> opt \<in> set (supported_invocation p) \<and> check = None"
  shows "override_option p opt given check f e = (None, if given then f e else e)"
  using assms by (auto simp: override_option_def)

lemma override_okD:
  assumes "fst (and_then (override_option p opt given check f e) k) = None"
  shows "(given \<longrightarrow> opt \<in> set (supported_invocation p) \<and> check = None) \<and> fst (k (if given then f e else e)) = None"
  using assms by (auto simp: override_option_def split: if_splits option.splits)

lemma override_lastD:
  assumes "fst (override_option p opt given check f e) = None"
  shows "given \<longrightarrow> opt \<in> set (supported_invocation p) \<and> check = None"
  using assms by (auto simp: override_option_def split: if_splits option.splits)

lemma over_update:
  "(if x \<noteq> None then e\<lparr>eff_model := x\<rparr> else e) = e\<lparr>eff_model := over x (eff_model e)\<rparr>"
  "(if t \<noteq> None then e\<lparr>eff_temperature := t\<rparr> else e) = e\<lparr>eff_temperature := over t (eff_temperature e)\<rparr>"
  "(if r \<noteq> None then e\<lparr>eff_reasoning_effort := r\<rparr> else e) = e\<lparr>eff_reasoning_effort := over r (eff_reasoning_effort e)\<rparr>"
  "(if n \<noteq> None then e\<lparr>eff_max_output_tokens := n\<rparr> else e) = e\<lparr>eff_max_output_tokens := over n (eff_max_output_tokens e)\<rparr>"
  "(if g \<noteq> None then e\<lparr>eff_response_format := g\<rparr> else e) = e\<lparr>eff_response_format := over g (eff_response_format e)\<rparr>"
  "(if n \<noteq> None then e\<lparr>eff_deadline := n\<rparr> else e) = e\<lparr>eff_deadline := over n (eff_deadline e)\<rparr>"
  "(if ss \<noteq> [] then e\<lparr>eff_stop := ss\<rparr> else e) = e\<lparr>eff_stop := (if ss = [] then eff_stop e else ss)\<rparr>"
  "(if m \<noteq> [] then e\<lparr>eff_extensions := overlay m (eff_extensions e)\<rparr> else e) = e\<lparr>eff_extensions := overlay m (eff_extensions e)\<rparr>"
  by (auto simp: over_def)

lemma temperature_check_None: "temperature_check t = None \<longleftrightarrow> pred_option in_zero_two t"
  by (auto simp: temperature_check_def split: option.splits)

lemma apply_invocation_ok:
  assumes "set (used_options i) \<subseteq> set (supported_invocation p)" and "pred_option in_zero_two (inv_temperature i)"
  shows "apply_invocation i p (merge_base d session) = (None, merged d session i)"
proof -
  have o: "inv_model i \<noteq> None \<Longrightarrow> OptModel \<in> set (supported_invocation p)"
    "inv_temperature i \<noteq> None \<Longrightarrow> OptTemperature \<in> set (supported_invocation p)"
    "inv_reasoning_effort i \<noteq> None \<Longrightarrow> OptReasoningEffort \<in> set (supported_invocation p)"
    "inv_max_output_tokens i \<noteq> None \<Longrightarrow> OptMaxOutputTokens \<in> set (supported_invocation p)"
    "inv_stop i \<noteq> [] \<Longrightarrow> OptStop \<in> set (supported_invocation p)"
    "inv_response_format i \<noteq> None \<Longrightarrow> OptResponseFormat \<in> set (supported_invocation p)"
    "OptContinuationPolicy \<in> set (supported_invocation p)"
    "inv_deadline i \<noteq> None \<Longrightarrow> OptDeadline \<in> set (supported_invocation p)"
    "inv_extensions i \<noteq> [] \<Longrightarrow> OptExtensions \<in> set (supported_invocation p)"
    using assms(1) by (auto simp: used_options_def)
  have t: "temperature_check (inv_temperature i) = None"
    using assms(2) by (simp add: temperature_check_None)
  show ?thesis
    unfolding apply_invocation_def
    by (simp only: override_ok o t over_update simp_thms if_True and_then_simps)
      (simp add: merged_def merge_base_def over_def session_layer_def split: option.split)
qed

lemma apply_invocation_okD:
  assumes "fst (apply_invocation i p e) = None"
  shows "set (used_options i) \<subseteq> set (supported_invocation p) \<and> pred_option in_zero_two (inv_temperature i)"
proof -
  note d = assms [unfolded apply_invocation_def]
  note d = override_okD [OF d] note d1 = conjunct1 [OF d] note d = override_okD [OF conjunct2 [OF d]]
  note d2 = conjunct1 [OF d] note d = override_okD [OF conjunct2 [OF d]]
  note d3 = conjunct1 [OF d] note d = override_okD [OF conjunct2 [OF d]]
  note d4 = conjunct1 [OF d] note d = override_okD [OF conjunct2 [OF d]]
  note d5 = conjunct1 [OF d] note d = override_okD [OF conjunct2 [OF d]]
  note d6 = conjunct1 [OF d] note d = override_okD [OF conjunct2 [OF d]]
  note d7 = conjunct1 [OF d] note d = override_okD [OF conjunct2 [OF d]]
  note d8 = conjunct1 [OF d] note d9 = override_lastD [OF conjunct2 [OF d]]
  have "inv_temperature i \<noteq> None \<longrightarrow> pred_option in_zero_two (inv_temperature i)"
    using d2 by (simp add: temperature_check_None)
  then have t: "pred_option in_zero_two (inv_temperature i)" by (cases "inv_temperature i") auto
  from d1 d2 d3 d4 d5 d6 d7 d8 d9 have "set (used_options i) \<subseteq> set (supported_invocation p)"
    by (auto simp: used_options_def)
  with t show ?thesis by blast
qed

lemma first_error_None: "first_error es = None \<longleftrightarrow> list_all (\<lambda>e. e = None) es"
  by (induction es rule: first_error.induct) auto

lemma validate_session_None:
  assumes "max_serialized_bytes l < usize_max"
  shows "validate_session codec l p s = None \<longleftrightarrow> pred_option (session_ok codec l p) s"
  using validate_extensions_None [OF assms, of codec _ p]
  by (cases s) (auto simp: validate_session_def session_ok_def validate_session_labels_def split: option.splits)

lemma check_session_match_None: "check_session_match r a p = None \<longleftrightarrow> session_compatible r a"
proof -
  have "list_ex (\<lambda>(k, v). case map_of m k of Some w \<Rightarrow> w \<noteq> v | None \<Rightarrow> False) xs
    \<longleftrightarrow> \<not> list_all (\<lambda>(k, v). case map_of m k of Some w \<Rightarrow> w = v | None \<Rightarrow> True) xs" for m :: extension_map and xs
    by (induction xs) (auto split: option.splits)
  then show ?thesis by (auto simp: check_session_match_def session_compatible_def)
qed

lemma validate_invocation_strings_None:
  "validate_invocation_strings i = None \<longleftrightarrow>
     pred_option (\<lambda>m. \<not> label_bad 256 m) (inv_model i) \<and> list_all (\<lambda>s. \<not> label_bad 64 s) (inv_stop i)"
  by (cases "inv_model i") (auto simp: validate_invocation_strings_def list_ex_iff list_all_iff)

lemma merge_checks_None:
  assumes "max_serialized_bytes l < usize_max"
  shows "merge_checks codec d session attached i p l = None \<longleftrightarrow>
     extensions_ok codec l p (def_extensions d) \<and>
     pred_option (session_ok codec l p) session \<and> pred_option (session_ok codec l p) attached \<and>
     extensions_ok codec l p (inv_extensions i) \<and>
     pred_option (\<lambda>m. \<not> label_bad 256 m) (inv_model i) \<and> list_all (\<lambda>s. \<not> label_bad 64 s) (inv_stop i) \<and>
     (case (session, attached) of (Some r, Some a) \<Rightarrow> session_compatible r a | _ \<Rightarrow> True)"
  by (simp add: merge_checks_def first_error_None validate_extensions_None [OF assms] validate_session_None [OF assms]
      validate_invocation_strings_None check_session_match_None split: option.split)

lemma merge_exact:
  assumes "max_serialized_bytes l < usize_max"
  shows "merge_effective_config codec d session attached i p l = Ok e \<longleftrightarrow>
    layers_valid codec d session attached i p l \<and> e = merged d session i"
proof (cases "set (used_options i) \<subseteq> set (supported_invocation p) \<and> pred_option in_zero_two (inv_temperature i)")
  case True
  have "merge_effective_config codec d session attached i p l = Ok e \<longleftrightarrow>
      merge_checks codec d session attached i p l = None \<and>
      validate_extensions codec (eff_extensions (merged d session i)) l p = None \<and> e = merged d session i"
    using apply_invocation_ok [of i p d session] True
    by (cases "merge_checks codec d session attached i p l";
        cases "validate_extensions codec (eff_extensions (merged d session i)) l p")
      (auto simp: merge_effective_config_def)
  with True show ?thesis
    by (simp add: layers_valid_def merge_checks_None [OF assms] validate_extensions_None [OF assms])
next
  case False
  then have "fst (apply_invocation i p (merge_base d session)) \<noteq> None" using apply_invocation_okD by blast
  with False show ?thesis
    by (auto simp: merge_effective_config_def layers_valid_def split: option.splits prod.splits)
qed


section \<open>Properties\<close>

text \<open>
  C30. The merge accepts a request only if every extension layer and the merged one are within the
  limits and on the allow list, every option the invocation sets is supported by the channel, the
  temperature is between zero and two, the labels are well-formed and the session agrees with the
  attached one; it then returns exactly the layered configuration. And every such request that
  sets no option the policy freezes for existing sessions is accepted.
\<close>

theorem merge_effective_config_sound:
  assumes "max_serialized_bytes l < usize_max"
  shows "(merge_effective_config codec d session attached i p l = Ok e \<longrightarrow>
      layers_valid codec d session attached i p l \<and> e = merged d session i) \<and>
    (layers_valid codec d session attached i p l \<and> set (used_options i) \<inter> set (session_immutable p) = {} \<longrightarrow>
      merge_effective_config codec d session attached i p l = Ok (merged d session i))"
  using merge_exact [OF assms] by simp

text \<open>A channel with one allowed extension, and a request that uses it.\<close>

definition seed_policy :: option_policy where
  "seed_policy = with_extension_keys [''openai.seed''] direct_llm"

definition seed_defaults :: channel_defaults where
  "seed_defaults =
     \<lparr>def_model = Some ''m'', def_temperature = None, def_reasoning_effort = None,
      def_max_output_tokens = None, def_stop = [], def_response_format = None,
      def_continuation_policy = CallerControlled,
      def_extensions = [(''openai.seed'', \<lparr>ext_version = 1, ext_value = JNull\<rparr>)]\<rparr>"

definition seed_invocation :: invocation_config where
  "seed_invocation = default_invocation_config\<lparr>inv_temperature := Some (Finite False 1),
     inv_extensions := [(''openai.seed'', \<lparr>ext_version = 2, ext_value = JBool True\<rparr>)]\<rparr>"

definition seed_limits :: extension_limits where
  "seed_limits = \<lparr>max_keys = 2, max_key_bytes = 20, max_value_depth = 2, max_serialized_bytes = 40\<rparr>"

lemma seed_limits_fit: "max_serialized_bytes seed_limits < usize_max"
  by (simp add: seed_limits_def usize_max_def)

lemma seed_valid: "layers_valid ok_codec seed_defaults None None seed_invocation seed_policy seed_limits"
  by (simp add: layers_valid_def extensions_ok_def extension_ok_def extension_bytes_def merged_def session_layer_def
      seed_defaults_def seed_invocation_def seed_policy_def seed_limits_def ok_codec_def with_extension_keys_def
      direct_llm_def used_options_def default_invocation_config_def in_zero_two_def overlay_def)

theorem merge_effective_config_sound_witness:
  "merge_effective_config ok_codec seed_defaults None None seed_invocation seed_policy seed_limits
    = Ok (merged seed_defaults None seed_invocation)"
proof -
  have "set (used_options seed_invocation) \<inter> set (session_immutable seed_policy) = {}" by code_simp
  with merge_effective_config_sound [OF seed_limits_fit] seed_valid show ?thesis by blast
qed

text \<open>
  Later layers win: a configuration that is accepted takes each extension from the
  invocation if it sets it, else from the session, else from the channel defaults, has no
  other, and carries only keys of the channel's allow list; with an empty allow list it
  carries none.
\<close>

theorem extension_precedence:
  assumes "merge_effective_config codec d session attached i p l = Ok e"
    and "max_serialized_bytes l < usize_max"
    and "btree (def_extensions d)" and "btree (session_layer session)" and "btree (inv_extensions i)"
  shows "map_of (eff_extensions e) k =
      over (map_of (inv_extensions i) k) (over (map_of (session_layer session) k) (map_of (def_extensions d) k)) \<and>
    btree (eff_extensions e) \<and> length (eff_extensions e) \<le> max_keys l \<and>
    set (map fst (eff_extensions e)) \<subseteq> set (allowed_extension_keys p)"
proof -
  have e: "e = merged d session i" and ok: "extensions_ok codec l p (eff_extensions e)"
    using assms(1) merge_exact [OF assms(2)] by (auto simp: layers_valid_def)
  show ?thesis
    using ok assms(3-5)
    by (auto simp: e merged_def map_of_overlay overlay_btree over_def extensions_ok_def extension_ok_def list_all_iff
        split: option.split)
qed

theorem extension_precedence_witness:
  "\<exists>e. merge_effective_config ok_codec seed_defaults None None seed_invocation seed_policy seed_limits = Ok e \<and>
     map_option ext_version (map_of (eff_extensions e) ''openai.seed'') = Some 2"
proof -
  let ?e = "merged seed_defaults None seed_invocation"
  have m: "merge_effective_config ok_codec seed_defaults None None seed_invocation seed_policy seed_limits = Ok ?e"
    using merge_exact [OF seed_limits_fit] seed_valid by blast
  have b: "btree (def_extensions seed_defaults)" "btree (session_layer None)" "btree (inv_extensions seed_invocation)"
    by (simp_all add: seed_defaults_def session_layer_def seed_invocation_def default_invocation_config_def)
  show ?thesis
    using m extension_precedence [OF m seed_limits_fit b, of "''openai.seed''"]
    by (intro exI [of _ ?e]) (simp add: over_def seed_invocation_def default_invocation_config_def)
qed

text \<open>
  The set of options documented as frozen for an existing session has no effect at all:
  the merge gives the same answer whatever it contains.
\<close>

theorem session_immutable_ignored:
  "merge_effective_config codec d session attached i (p\<lparr>session_immutable := frozen\<rparr>) l
    = merge_effective_config codec d session attached i p l"
proof -
  have "validate_extension codec l (p\<lparr>session_immutable := frozen\<rparr>) = validate_extension codec l p"
    by (intro ext) (auto simp: validate_extension_def split: prod.splits)
  then have v: "validate_extensions codec m l (p\<lparr>session_immutable := frozen\<rparr>) = validate_extensions codec m l p" for m
    unfolding validate_extensions_def by simp
  have "override_option (p\<lparr>session_immutable := frozen\<rparr>) = override_option p"
    by (intro ext) (simp add: override_option_def)
  then have a: "apply_invocation i (p\<lparr>session_immutable := frozen\<rparr>) = apply_invocation i p"
    by (intro ext) (simp add: apply_invocation_def)
  have c: "check_session_match r s (p\<lparr>session_immutable := frozen\<rparr>) = check_session_match r s p" for r s
    by (simp add: check_session_match_def)
  show ?thesis
    unfolding merge_effective_config_def merge_checks_def validate_session_def v a c ..
qed

end
