(* ===== verification/Transaction.thy ===== *)
theory Transaction
  imports Tool Config
begin

text \<open>
  \<open>crates/monoloop-contracts/src/transaction.rs\<close>, the events, endings and errors of a
  transaction, and \<open>crates/monoloop-loop/src/transaction/lifecycle/terminal.rs\<close>, the
  terminal decision and the payloads built from it. Transaction and exchange ids are the
  text form of their UUIDs. The legacy \<open>Ended\<close> payload is not produced by the runtime
  and is left out.
\<close>

datatype transaction_end_kind =
    TxCompleted
  | ContinuationRequired
  | TxCancelled
  | TxTerminated
  | RuntimeShutdown
  | DeadlineExceeded
  | ChannelOpenFailed
  | EncodingFailed
  | ConnectorFailed
  | InterpretationFailed
  | ToolExchangeFailed
  | EventDeliveryFailed
  | LimitExceeded
  | InvariantFailed

record transaction_usage =
  provider_input_tokens :: "nat option"
  provider_output_tokens :: "nat option"
  provider_exchanges :: nat
  tools_started :: nat
  tools_completed :: nat

definition default_usage :: transaction_usage where
  "default_usage =
     \<lparr>provider_input_tokens = None, provider_output_tokens = None, provider_exchanges = 0,
      tools_started = 0, tools_completed = 0\<rparr>"

record transaction_end_event =
  tx_end_id :: string
  tx_end_session :: "string option"
  tx_end_channel :: string
  tx_end_kind :: transaction_end_kind
  emitted_events :: nat
  tx_end_usage :: transaction_usage
  tx_end_diagnostics :: "safe_diagnostic list"

datatype transaction_event_payload =
    SessionEstablished string
  | CanonicalUnitPayload canonical_unit_event
  | ToolLifecycle tool_lifecycle_event
  | DiagnosticPayload safe_diagnostic
  | EndedEvent transaction_end_event

record transaction_event =
  ev_transaction :: string
  ev_channel :: string
  ev_session :: string
  ev_sequence :: nat
  ev_payload :: transaction_event_payload

datatype terminal_event_delivery =
    DeliveryPublished
  | QueueClosed
  | DeliveryDeadlineExceeded
  | DeliveryLimitExceeded
  | NotAttempted

datatype cleanup_failure_code = TaskPanicked | ProcessReapFailed | CleanupInvariantFailed

datatype cleanup_status =
    CleanupComplete
  | CleanupPending nat nat nat
  | CleanupFailed cleanup_failure_code

record transaction_completion =
  completion_end :: transaction_end_event
  completion_delivery :: terminal_event_delivery
  completion_cleanup :: cleanup_status

datatype admission_error_kind =
    RuntimeShuttingDown
  | UnknownChannel
  | SessionAlreadyActive
  | UnknownTool
  | DuplicateTool
  | InvalidInput
  | InvalidConfiguration
  | CapabilityMismatch
  | CapacityExceeded
  | SpawnFailed

record admission_error =
  admission_kind :: admission_error_kind
  admission_message :: string

definition admission_error_new :: "admission_error_kind \<Rightarrow> string \<Rightarrow> admission_error" where
  "admission_error_new k m = \<lparr>admission_kind = k, admission_message = m\<rparr>"

record admission_receipt =
  receipt_transaction :: string
  receipt_session :: "string option"

section \<open>Terminal payloads\<close>

record terminal_decision =
  decision_kind :: transaction_end_kind

record terminal_proposal =
  proposal_kind :: transaction_end_kind

definition end_event ::
  "string \<Rightarrow> string \<Rightarrow> string option \<Rightarrow> transaction_end_kind \<Rightarrow> nat \<Rightarrow> transaction_end_event" where
  "end_event tx channel session kind n =
     \<lparr>tx_end_id = tx, tx_end_session = session, tx_end_channel = channel, tx_end_kind = kind,
      emitted_events = n, tx_end_usage = default_usage, tx_end_diagnostics = []\<rparr>"

definition build_completion ::
  "transaction_end_event \<Rightarrow> terminal_event_delivery \<Rightarrow> cleanup_status \<Rightarrow> transaction_completion" where
  "build_completion e d c = \<lparr>completion_end = e, completion_delivery = d, completion_cleanup = c\<rparr>"

end
