(* ===== verification/Simulation.thy ===== *)
theory Simulation
  imports Prelude
begin

text \<open>
  Functional refinement, once for all components: an implementation whose operations keep an
  invariant and commute with an abstraction function gives the same answers as its
  specification on every sequence of operations. Nothing here models a line of the
  repository.
\<close>

fun run_ops :: "('o \<Rightarrow> 's \<Rightarrow> 'r \<times> 's) \<Rightarrow> 'o list \<Rightarrow> 's \<Rightarrow> 'r list \<times> 's" where
  "run_ops step [] s = ([], s)"
| "run_ops step (op # ops) s =
     (let (r, s') = step op s; (rs, s'') = run_ops step ops s' in (r # rs, s''))"

locale simulation =
  fixes inv :: "'s \<Rightarrow> bool"
    and abs :: "'s \<Rightarrow> 'a"
    and step :: "'o \<Rightarrow> 's \<Rightarrow> 'r \<times> 's"
    and spec :: "'o \<Rightarrow> 'a \<Rightarrow> 'r \<times> 'a"
  assumes step_inv: "inv s \<Longrightarrow> inv (snd (step op s))"
    and step_abs: "inv s \<Longrightarrow> spec op (abs s) = (fst (step op s), abs (snd (step op s)))"
begin

lemma run_inv: "inv s \<Longrightarrow> inv (snd (run_ops step ops s))"
  by (induction ops arbitrary: s) (auto simp: split_beta Let_def dest: step_inv)

lemma run_abs:
  "inv s \<Longrightarrow> run_ops spec ops (abs s) = (fst (run_ops step ops s), abs (snd (run_ops step ops s)))"
proof (induction ops arbitrary: s)
  case (Cons op ops)
  obtain r s' where st: "step op s = (r, s')" by (cases "step op s")
  then have "inv s'" "spec op (abs s) = (r, abs s')"
    using step_inv [OF Cons.prems, of op] step_abs [OF Cons.prems, of op] by simp_all
  with Cons.IH [of s'] st show ?case by (simp add: split_beta Let_def)
qed simp

text \<open>A property that single operations keep holds after every sequence of them.\<close>

lemma run_keeps:
  assumes "inv s" and "P s" and "list_all Q ops"
    and "\<And>op s. Q op \<Longrightarrow> inv s \<Longrightarrow> P s \<Longrightarrow> P (snd (step op s))"
  shows "P (snd (run_ops step ops s))"
  using assms(1-3)
proof (induction ops arbitrary: s)
  case (Cons op ops)
  obtain r s' where st: "step op s = (r, s')" by (cases "step op s")
  then have "inv s'" "P s'"
    using step_inv [of s op] assms(4) [of op s] Cons.prems by auto
  with Cons.IH [of s'] Cons.prems st show ?case by (simp add: split_beta Let_def)
qed simp

end

end
