(* ===== verification/Delivery.thy ===== *)
theory Delivery
  imports Transaction Simulation
begin

text \<open>
  \<open>crates/monoloop-contracts/src/delivery.rs\<close>: the bounded mailbox that carries a
  transaction's events to its host, and the one-shot completion port. Senders reserve bytes
  with a load and a compare-exchange before they queue an event; a receiver gives them back.
  Every atomic operation is a step of its own, and any number of senders interleave with the
  receiver. The encoded size of an event comes from serde_json and is a parameter. The saturating
  addition of the source compares like the exact one, since the bound is itself a machine number.
\<close>

section \<open>The mailbox\<close>

record delivery_capacities =
  max_event_items :: nat
  max_event_bytes :: nat

datatype delivery_config_error = ZeroItemCapacity | ZeroByteCapacity

definition delivery_limits_try_new :: "nat \<Rightarrow> nat \<Rightarrow> (delivery_config_error, delivery_capacities) result" where
  "delivery_limits_try_new items bytes =
     (if items = 0 then Err ZeroItemCapacity
      else if bytes = 0 then Err ZeroByteCapacity
      else Ok \<lparr>max_event_items = items, max_event_bytes = bytes\<rparr>)"

datatype event_enqueue_error = ItemCapacityExceeded | ByteCapacityExceeded | EventTooLarge | EnqueueClosed

text \<open>
  The byte counter is an integer, so that a subtraction below zero would show. A queued item
  carries the bytes it reserved.
\<close>

record event_mailbox =
  mb_limits :: delivery_capacities
  queued_bytes :: int
  mb_queue :: "(transaction_event \<times> nat) list"
  mb_open :: bool

definition transaction_delivery :: "delivery_capacities \<Rightarrow> (delivery_config_error, event_mailbox) result" where
  "transaction_delivery l =
     (case delivery_limits_try_new (max_event_items l) (max_event_bytes l) of
        Inl e \<Rightarrow> Err e
      | Inr l \<Rightarrow> Ok \<lparr>mb_limits = l, queued_bytes = 0, mb_queue = [], mb_open = True\<rparr>)"

definition estimate_event_bytes :: "(transaction_event \<Rightarrow> string option) \<Rightarrow> transaction_event \<Rightarrow> nat" where
  "estimate_event_bytes encode ev =
     (case encode ev of Some buf \<Rightarrow> max (length buf) 64 | None \<Rightarrow> 256)"

definition release_bytes :: "nat \<Rightarrow> event_mailbox \<Rightarrow> event_mailbox" where
  "release_bytes n mb = mb\<lparr>queued_bytes := queued_bytes mb - int n\<rparr>"

section \<open>One sender\<close>

text \<open>
  Where a call of \<open>try_send\<close> or \<open>send\<close> is; \<open>TrySend\<close> gives up where \<open>WaitSend\<close> waits. A
  state that carries a number has loaded it and is about to compare-exchange.
\<close>

datatype send_mode = TrySend | WaitSend

datatype send_pc =
    CheckSize
  | LoadBytes
  | CasBytes int
  | Enqueue
  | SendDone "event_enqueue_error option"
  | SendCancelled

fun send_step ::
  "send_mode \<Rightarrow> nat \<Rightarrow> transaction_event \<Rightarrow> send_pc \<Rightarrow> event_mailbox \<Rightarrow> (send_pc \<times> event_mailbox) option" where
  "send_step m n ev CheckSize mb =
     Some (if n > max_event_bytes (mb_limits mb) then SendDone (Some EventTooLarge) else LoadBytes, mb)"
| "send_step m n ev LoadBytes mb =
     (if queued_bytes mb + int n > int (max_event_bytes (mb_limits mb))
      then (case m of TrySend \<Rightarrow> Some (SendDone (Some ByteCapacityExceeded), mb) | WaitSend \<Rightarrow> None)
      else Some (CasBytes (queued_bytes mb), mb))"
| "send_step m n ev (CasBytes cur) mb =
     (if queued_bytes mb = cur then Some (Enqueue, mb\<lparr>queued_bytes := cur + int n\<rparr>) else Some (LoadBytes, mb))"
| "send_step m n ev Enqueue mb =
     (if \<not> mb_open mb then Some (SendDone (Some EnqueueClosed), release_bytes n mb)
      else if length (mb_queue mb) \<ge> max_event_items (mb_limits mb)
      then (case m of
              TrySend \<Rightarrow> Some (SendDone (Some ItemCapacityExceeded), release_bytes n mb)
            | WaitSend \<Rightarrow> None)
      else Some (SendDone None, mb\<lparr>mb_queue := mb_queue mb @ [(ev, n)]\<rparr>))"
| "send_step m n ev (SendDone _) mb = None"
| "send_step m n ev SendCancelled mb = None"

text \<open>
  A waiting \<open>send\<close> whose caller drops the future, as the deadlines of the publisher do, gives
  its bytes back if it has them.
\<close>

fun send_cancel :: "nat \<Rightarrow> send_pc \<Rightarrow> event_mailbox \<Rightarrow> (send_pc \<times> event_mailbox) option" where
  "send_cancel n LoadBytes mb = Some (SendCancelled, mb)"
| "send_cancel n Enqueue mb = Some (SendCancelled, release_bytes n mb)"
| "send_cancel n _ mb = None"

text \<open>A call with nobody else around; the fuel is the number of steps.\<close>

fun send_run ::
  "nat \<Rightarrow> send_mode \<Rightarrow> nat \<Rightarrow> transaction_event \<Rightarrow> send_pc \<Rightarrow> event_mailbox \<Rightarrow> send_pc \<times> event_mailbox" where
  "send_run 0 m n ev pc mb = (pc, mb)"
| "send_run (Suc k) m n ev pc mb =
     (case send_step m n ev pc mb of Some (pc', mb') \<Rightarrow> send_run k m n ev pc' mb' | None \<Rightarrow> (pc, mb))"

section \<open>The receiver\<close>

definition mailbox_try_recv :: "event_mailbox \<Rightarrow> transaction_event option \<times> event_mailbox" where
  "mailbox_try_recv mb =
     (case mb_queue mb of
        [] \<Rightarrow> (None, mb)
      | (ev, n) # q \<Rightarrow> (Some ev, release_bytes n (mb\<lparr>mb_queue := q\<rparr>)))"

text \<open>Dropping the receiver drops what is queued, and with it every item's reservation.\<close>

definition receiver_drop :: "event_mailbox \<Rightarrow> event_mailbox" where
  "receiver_drop mb =
     foldl (\<lambda>mb (ev, n). release_bytes n mb) (mb\<lparr>mb_queue := [], mb_open := False\<rparr>) (mb_queue mb)"

section \<open>All senders and the receiver\<close>

text \<open>\<open>accepted\<close> and \<open>received\<close> record what went in and what came out.\<close>

record sender =
  snd_mode :: send_mode
  snd_event :: transaction_event
  snd_pc :: send_pc

record delivery_system =
  sys_mailbox :: event_mailbox
  sys_senders :: "sender list"
  accepted :: "transaction_event list"
  received :: "transaction_event list"

inductive delivery_step :: "(transaction_event \<Rightarrow> nat) \<Rightarrow> delivery_system \<Rightarrow> delivery_system \<Rightarrow> bool" for bytes_of where
  run: "i < length (sys_senders s) \<Longrightarrow> sys_senders s ! i = t \<Longrightarrow>
    send_step (snd_mode t) (bytes_of (snd_event t)) (snd_event t) (snd_pc t) (sys_mailbox s) = Some (pc, mb) \<Longrightarrow>
    delivery_step bytes_of s
      (s\<lparr>sys_mailbox := mb, sys_senders := (sys_senders s)[i := t\<lparr>snd_pc := pc\<rparr>],
         accepted := (if pc = SendDone None then accepted s @ [snd_event t] else accepted s)\<rparr>)"
| cancel: "i < length (sys_senders s) \<Longrightarrow> sys_senders s ! i = t \<Longrightarrow> snd_mode t = WaitSend \<Longrightarrow>
    send_cancel (bytes_of (snd_event t)) (snd_pc t) (sys_mailbox s) = Some (pc, mb) \<Longrightarrow>
    delivery_step bytes_of s (s\<lparr>sys_mailbox := mb, sys_senders := (sys_senders s)[i := t\<lparr>snd_pc := pc\<rparr>]\<rparr>)"
| call: "delivery_step bytes_of s
    (s\<lparr>sys_senders := sys_senders s @ [\<lparr>snd_mode = m, snd_event = ev, snd_pc = CheckSize\<rparr>]\<rparr>)"
| receive: "mailbox_try_recv (sys_mailbox s) = (Some ev, mb) \<Longrightarrow>
    delivery_step bytes_of s (s\<lparr>sys_mailbox := mb, received := received s @ [ev]\<rparr>)"
| drop: "delivery_step bytes_of s (s\<lparr>sys_mailbox := receiver_drop (sys_mailbox s)\<rparr>)"

inductive delivery_reachable ::
  "(transaction_event \<Rightarrow> nat) \<Rightarrow> event_mailbox \<Rightarrow> delivery_system \<Rightarrow> bool" for bytes_of mb where
  start: "delivery_reachable bytes_of mb \<lparr>sys_mailbox = mb, sys_senders = [], accepted = [], received = []\<rparr>"
| step: "delivery_reachable bytes_of mb s \<Longrightarrow> delivery_step bytes_of s s' \<Longrightarrow> delivery_reachable bytes_of mb s'"

section \<open>The completion port\<close>

datatype completion_publish_result = CompletionSent | ReceiverDropped | CompletionInvariantFailed

text \<open>The sender is consumed by its first use; \<open>None\<close> is a port whose sender was taken.\<close>

record completion_port =
  completion_tx :: "unit option"
  completion_rx_alive :: bool
  completions :: "transaction_completion list"

definition completion_new :: completion_port where
  "completion_new = \<lparr>completion_tx = Some (), completion_rx_alive = True, completions = []\<rparr>"

definition completion_send ::
  "transaction_completion \<Rightarrow> completion_port \<Rightarrow> completion_publish_result \<times> completion_port" where
  "completion_send c port =
     (case completion_tx port of
        Some _ \<Rightarrow>
          (let port = port\<lparr>completion_tx := None\<rparr>
           in if completion_rx_alive port
              then (CompletionSent, port\<lparr>completions := completions port @ [c]\<rparr>)
              else (ReceiverDropped, port))
      | None \<Rightarrow> (CompletionInvariantFailed, port))"

section \<open>The invariant\<close>

definition reserved_bytes :: "(transaction_event \<Rightarrow> nat) \<Rightarrow> sender list \<Rightarrow> int" where
  "reserved_bytes bytes_of ts = (\<Sum>t\<leftarrow>ts. if snd_pc t = Enqueue then int (bytes_of (snd_event t)) else 0)"

definition queue_bytes :: "event_mailbox \<Rightarrow> int" where
  "queue_bytes mb = (\<Sum>x\<leftarrow>mb_queue mb. int (snd x))"

fun sender_ok :: "event_mailbox \<Rightarrow> nat \<Rightarrow> send_pc \<Rightarrow> bool" where
  "sender_ok mb n (CasBytes cur) \<longleftrightarrow> cur + int n \<le> int (max_event_bytes (mb_limits mb))"
| "sender_ok mb n _ \<longleftrightarrow> True"

definition mailbox_inv :: "(transaction_event \<Rightarrow> nat) \<Rightarrow> delivery_capacities \<Rightarrow> delivery_system \<Rightarrow> bool" where
  "mailbox_inv bytes_of l s \<longleftrightarrow>
     (case sys_mailbox s of mb \<Rightarrow>
        mb_limits mb = l \<and>
        list_all (\<lambda>t. sender_ok mb (bytes_of (snd_event t)) (snd_pc t)) (sys_senders s) \<and>
        list_all (\<lambda>(ev, n). n = bytes_of ev) (mb_queue mb) \<and>
        queued_bytes mb = queue_bytes mb + reserved_bytes bytes_of (sys_senders s) \<and>
        queued_bytes mb \<le> int (max_event_bytes l) \<and>
        length (mb_queue mb) \<le> max_event_items l \<and>
        (if mb_open mb then accepted s = received s @ map fst (mb_queue mb)
         else mb_queue mb = [] \<and> prefix (received s) (accepted s)))"

lemma reserved_bytes_update:
  assumes "i < length ts" and "ts ! i = t"
  shows "reserved_bytes bytes_of (ts[i := t\<lparr>snd_pc := pc\<rparr>]) = reserved_bytes bytes_of ts
    - (if snd_pc t = Enqueue then int (bytes_of (snd_event t)) else 0)
    + (if pc = Enqueue then int (bytes_of (snd_event t)) else 0)"
  using assms
proof (induction ts arbitrary: i)
  case (Cons u ts)
  then show ?case by (cases i) (auto simp: reserved_bytes_def)
qed simp

lemma reserved_bytes_nonneg: "0 \<le> reserved_bytes bytes_of ts"
  by (induction ts) (auto simp: reserved_bytes_def)

lemma queue_bytes_nonneg: "0 \<le> queue_bytes mb"
  by (auto simp: queue_bytes_def intro!: sum_list_nonneg)

lemma release_bytes_simps [simp, frame_simps]:
  "queued_bytes (release_bytes n mb) = queued_bytes mb - int n"
  "mb_limits (release_bytes n mb) = mb_limits mb"
  "mb_queue (release_bytes n mb) = mb_queue mb"
  "mb_open (release_bytes n mb) = mb_open mb"
  by (simp_all add: release_bytes_def)

lemma sender_ok_limits: "mb_limits mb' = mb_limits mb \<Longrightarrow> sender_ok mb' n pc = sender_ok mb n pc"
  by (cases pc) simp_all

lemma receiver_drop_simps [simp, frame_simps]:
  "mb_limits (receiver_drop mb) = mb_limits mb"
  "mb_queue (receiver_drop mb) = []"
  "\<not> mb_open (receiver_drop mb)"
  "queued_bytes (receiver_drop mb) = queued_bytes mb - queue_bytes mb"
proof -
  let ?f = "\<lambda>mb (ev :: transaction_event, n). release_bytes n mb"
  have keep: "mb_limits (foldl ?f mb q) = mb_limits mb" "mb_queue (foldl ?f mb q) = mb_queue mb"
    "mb_open (foldl ?f mb q) = mb_open mb" for mb q
    by (induction q arbitrary: mb) (simp_all add: split_beta)
  have "queued_bytes (foldl ?f mb q) = queued_bytes mb - (\<Sum>x\<leftarrow>q. int (snd x))" for mb q
    by (induction q arbitrary: mb) (simp_all add: split_beta)
  then show "queued_bytes (receiver_drop mb) = queued_bytes mb - queue_bytes mb"
    by (simp add: receiver_drop_def queue_bytes_def)
  show "mb_limits (receiver_drop mb) = mb_limits mb" "mb_queue (receiver_drop mb) = []"
    "\<not> mb_open (receiver_drop mb)"
    by (simp_all add: receiver_drop_def keep)
qed

text \<open>What one step of a sender does to the counters, the queue and its own reservation.\<close>

lemma send_step_effect:
  assumes "send_step m n ev pc mb = Some (pc', mb')" and "sender_ok mb n pc"
    and "queued_bytes mb \<le> int (max_event_bytes (mb_limits mb))"
    and "length (mb_queue mb) \<le> max_event_items (mb_limits mb)"
  shows "mb_limits mb' = mb_limits mb \<and> mb_open mb' = mb_open mb \<and> sender_ok mb' n pc' \<and>
    mb_queue mb' = mb_queue mb @ (if pc' = SendDone None then [(ev, n)] else []) \<and>
    queued_bytes mb' + (if pc = Enqueue then int n else 0) = queued_bytes mb
      + (if pc' = Enqueue then int n else 0) + (if pc' = SendDone None then int n else 0) \<and>
    queued_bytes mb' \<le> int (max_event_bytes (mb_limits mb)) \<and>
    length (mb_queue mb') \<le> max_event_items (mb_limits mb) \<and>
    (pc' = SendDone None \<longrightarrow> mb_open mb)"
proof (cases pc)
  case (CasBytes cur)
  then show ?thesis using assms by (auto split: if_splits)
next
  case Enqueue
  then show ?thesis using assms by (cases m) (auto split: if_splits)
next
  case LoadBytes
  then show ?thesis using assms by (cases m) (auto split: if_splits)
qed (use assms in \<open>auto split: if_splits\<close>)

lemma send_cancel_effect:
  assumes "send_cancel n pc mb = Some (pc', mb')"
  shows "pc' = SendCancelled" and "mb_limits mb' = mb_limits mb" and "mb_open mb' = mb_open mb"
    and "mb_queue mb' = mb_queue mb"
    and "queued_bytes mb' = queued_bytes mb - (if pc = Enqueue then int n else 0)"
  using assms by (cases pc; auto)+

lemma mailbox_inv_senders:
  assumes "list_all (\<lambda>t. sender_ok mb (bytes_of (snd_event t)) (snd_pc t)) ts" and "mb_limits mb' = mb_limits mb"
    and "i < length ts" and "ts ! i = t" and "sender_ok mb' (bytes_of (snd_event t)) pc"
  shows "list_all (\<lambda>t. sender_ok mb' (bytes_of (snd_event t)) (snd_pc t)) (ts[i := t\<lparr>snd_pc := pc\<rparr>])"
  using assms sender_ok_limits [OF assms(2)]
  by (auto simp: list_all_iff dest!: set_update_subset_insert [THEN subsetD])

lemma mailbox_inv_step:
  assumes "mailbox_inv bytes_of l s" and "delivery_step bytes_of s s'"
  shows "mailbox_inv bytes_of l s'"
  using assms(2)
proof cases
  case (run i t pc mb)
  let ?mb = "sys_mailbox s"
  have ok: "sender_ok ?mb (bytes_of (snd_event t)) (snd_pc t)"
    using assms(1) run(2,3) by (auto simp: mailbox_inv_def list_all_length)
  have "queued_bytes ?mb \<le> int (max_event_bytes (mb_limits ?mb))" "length (mb_queue ?mb) \<le> max_event_items (mb_limits ?mb)"
    using assms(1) by (auto simp: mailbox_inv_def)
  note eff = send_step_effect [OF run(4) ok this]
  have "list_all (\<lambda>t. sender_ok mb (bytes_of (snd_event t)) (snd_pc t)) ((sys_senders s)[i := t\<lparr>snd_pc := pc\<rparr>])"
    using assms(1) eff run(2,3) by (intro mailbox_inv_senders [of ?mb]) (auto simp: mailbox_inv_def)
  then show ?thesis
    using assms(1) eff
    by (cases "pc = SendDone None") (auto simp: mailbox_inv_def run(1) queue_bytes_def reserved_bytes_update [OF run(2,3)])
next
  case (cancel i t pc mb)
  note eff = send_cancel_effect [OF cancel(5)]
  have "list_all (\<lambda>t. sender_ok mb (bytes_of (snd_event t)) (snd_pc t)) ((sys_senders s)[i := t\<lparr>snd_pc := pc\<rparr>])"
    using assms(1) eff cancel(2,3) by (intro mailbox_inv_senders [of "sys_mailbox s"]) (auto simp: mailbox_inv_def)
  then show ?thesis
    using assms(1) eff
    by (auto simp: mailbox_inv_def cancel(1) queue_bytes_def reserved_bytes_update [OF cancel(2,3)])
next
  case (call m ev)
  then show ?thesis using assms(1) by (simp add: mailbox_inv_def reserved_bytes_def)
next
  case (receive ev mb)
  obtain n q where q: "mb_queue (sys_mailbox s) = (ev, n) # q" and mb: "mb = release_bytes n ((sys_mailbox s)\<lparr>mb_queue := q\<rparr>)"
    using receive(2) by (auto simp: mailbox_try_recv_def split: list.splits prod.splits)
  have "sender_ok mb k pc = sender_ok (sys_mailbox s) k pc" for k pc
    by (rule sender_ok_limits) (simp add: mb)
  then show ?thesis
    using assms(1) q by (auto simp: mailbox_inv_def receive(1) queue_bytes_def mb)
next
  case drop
  have "sender_ok (receiver_drop (sys_mailbox s)) k pc = sender_ok (sys_mailbox s) k pc" for k pc
    by (rule sender_ok_limits) simp
  then show ?thesis
    using assms(1) queue_bytes_nonneg [of "sys_mailbox s"]
    by (auto simp: mailbox_inv_def drop queue_bytes_def [of "receiver_drop _"] split: if_splits)
qed

lemma mailbox_inv_reachable:
  assumes "transaction_delivery l = Ok mb" and "delivery_reachable bytes_of mb s"
  shows "mailbox_inv bytes_of l s"
  using assms(2)
proof induction
  case start
  show ?case
    using assms(1)
    by (auto simp: mailbox_inv_def transaction_delivery_def delivery_limits_try_new_def queue_bytes_def reserved_bytes_def
        split: if_splits sum.splits)
qed (rule mailbox_inv_step)

section \<open>Properties\<close>

text \<open>
  C22. The mailbox stays within its capacities under every interleaving of senders, cancelled
  sends and the receiver: the byte counter is exactly what the queued events and the senders
  in the middle of a send hold, it never exceeds the byte capacity nor becomes negative, and
  the queue never exceeds the item capacity. Bytes do not leak: with nothing queued and nobody
  sending the counter is zero.
\<close>

theorem mailbox_within_capacity:
  assumes "transaction_delivery l = Ok mb" and "delivery_reachable bytes_of mb s"
  shows "queued_bytes (sys_mailbox s) =
      (\<Sum>x\<leftarrow>mb_queue (sys_mailbox s). int (bytes_of (fst x))) + reserved_bytes bytes_of (sys_senders s) \<and>
    queued_bytes (sys_mailbox s) \<le> int (max_event_bytes l) \<and> 0 \<le> queued_bytes (sys_mailbox s) \<and>
    length (mb_queue (sys_mailbox s)) \<le> max_event_items l"
proof -
  note inv = mailbox_inv_reachable [OF assms]
  have "\<forall>x \<in> set (mb_queue (sys_mailbox s)). snd x = bytes_of (fst x)"
    using inv by (simp add: mailbox_inv_def list_all_iff split_beta)
  then have "queue_bytes (sys_mailbox s) = (\<Sum>x\<leftarrow>mb_queue (sys_mailbox s). int (bytes_of (fst x)))"
    unfolding queue_bytes_def by (intro arg_cong [of _ _ sum_list] map_cong) auto
  then show ?thesis
    using inv reserved_bytes_nonneg [of bytes_of "sys_senders s"] queue_bytes_nonneg [of "sys_mailbox s"]
    by (simp add: mailbox_inv_def)
qed

text \<open>
  Events arrive in the order they were accepted, none twice and none lost while the host
  listens: what was received is always a prefix of what was accepted, and as long as the
  receiver is there the rest is still queued.
\<close>

theorem mailbox_fifo:
  assumes "transaction_delivery l = Ok mb" and "delivery_reachable bytes_of mb s"
  shows "prefix (received s) (accepted s) \<and>
    (if mb_open (sys_mailbox s) then accepted s = received s @ map fst (mb_queue (sys_mailbox s))
     else mb_queue (sys_mailbox s) = [])"
  using mailbox_inv_reachable [OF assms] by (auto simp: mailbox_inv_def split: if_splits)

text \<open>
  A \<open>try_send\<close> that runs alone ends within four steps, and in the order of the source's
  checks: too large for the mailbox at all, no bytes left, receiver gone, no item slot left,
  accepted. Refused, it leaves the mailbox exactly as it was; accepted, it adds its bytes and
  its event and nothing else.
\<close>

theorem try_send_alone:
  "send_run 4 TrySend n ev CheckSize mb =
     (if n > max_event_bytes (mb_limits mb) then (SendDone (Some EventTooLarge), mb)
      else if queued_bytes mb + int n > int (max_event_bytes (mb_limits mb))
      then (SendDone (Some ByteCapacityExceeded), mb)
      else if \<not> mb_open mb then (SendDone (Some EnqueueClosed), mb)
      else if length (mb_queue mb) \<ge> max_event_items (mb_limits mb) then (SendDone (Some ItemCapacityExceeded), mb)
      else (SendDone None, mb\<lparr>queued_bytes := queued_bytes mb + int n, mb_queue := mb_queue mb @ [(ev, n)]\<rparr>))"
  by (simp add: numeral_eq_Suc release_bytes_def)

text \<open>A mailbox for one small event, one sender that succeeds and the receiver.\<close>

definition tiny_event :: transaction_event where
  "tiny_event =
     \<lparr>ev_transaction = ''t'', ev_channel = ''c'', ev_session = ''s'', ev_sequence = 1, ev_payload = SessionEstablished ''s''\<rparr>"

definition tiny_mailbox :: event_mailbox where
  "tiny_mailbox =
     \<lparr>mb_limits = \<lparr>max_event_items = 1, max_event_bytes = 64\<rparr>, queued_bytes = 0, mb_queue = [], mb_open = True\<rparr>"

definition tiny_system :: "send_pc \<Rightarrow> int \<Rightarrow> (transaction_event \<times> nat) list \<Rightarrow> transaction_event list \<Rightarrow> delivery_system" where
  "tiny_system pc b q acc =
     \<lparr>sys_mailbox = tiny_mailbox\<lparr>queued_bytes := b, mb_queue := q\<rparr>,
      sys_senders = [\<lparr>snd_mode = TrySend, snd_event = tiny_event, snd_pc = pc\<rparr>], accepted = acc, received = []\<rparr>"

lemma tiny_delivery: "transaction_delivery \<lparr>max_event_items = 1, max_event_bytes = 64\<rparr> = Ok tiny_mailbox"
  by (simp add: transaction_delivery_def delivery_limits_try_new_def tiny_mailbox_def)

lemma tiny_step:
  assumes "delivery_reachable bytes_of tiny_mailbox (tiny_system pc b q acc)"
    and "send_step TrySend (bytes_of tiny_event) tiny_event pc (tiny_mailbox\<lparr>queued_bytes := b, mb_queue := q\<rparr>)
      = Some (pc', tiny_mailbox\<lparr>queued_bytes := b', mb_queue := q'\<rparr>)"
    and "acc' = (if pc' = SendDone None then acc @ [tiny_event] else acc)"
  shows "delivery_reachable bytes_of tiny_mailbox (tiny_system pc' b' q' acc')"
proof -
  let ?s = "tiny_system pc b q acc" and ?mb = "tiny_mailbox\<lparr>queued_bytes := b', mb_queue := q'\<rparr>"
  have "delivery_step bytes_of ?s (?s\<lparr>sys_mailbox := ?mb, sys_senders := (sys_senders ?s)[0 := (sys_senders ?s ! 0)\<lparr>snd_pc := pc'\<rparr>],
      accepted := (if pc' = SendDone None then accepted ?s @ [snd_event (sys_senders ?s ! 0)] else accepted ?s)\<rparr>)"
    by (rule delivery_step.run [OF _ refl]) (simp_all add: tiny_system_def assms(2))
  from delivery_reachable.step [OF assms(1) this] show ?thesis
    by (simp add: tiny_system_def assms(3) cong: if_cong)
qed

lemma tiny_reachable:
  "delivery_reachable (\<lambda>_. 64) tiny_mailbox (tiny_system (SendDone None) 64 [(tiny_event, 64)] [tiny_event])"
proof -
  have "tiny_mailbox = tiny_mailbox\<lparr>queued_bytes := 0, mb_queue := []\<rparr>" by (simp add: tiny_mailbox_def)
  then have "delivery_reachable (\<lambda>_. 64) tiny_mailbox (tiny_system CheckSize 0 [] [])"
    using delivery_reachable.step [OF delivery_reachable.start delivery_step.call, of _ tiny_mailbox TrySend tiny_event]
    by (simp add: tiny_system_def)
  then have "delivery_reachable (\<lambda>_. 64) tiny_mailbox (tiny_system LoadBytes 0 [] [])"
    by (rule tiny_step) (simp_all add: tiny_mailbox_def)
  then have "delivery_reachable (\<lambda>_. 64) tiny_mailbox (tiny_system (CasBytes 0) 0 [] [])"
    by (rule tiny_step) (simp_all add: tiny_mailbox_def)
  then have "delivery_reachable (\<lambda>_. 64) tiny_mailbox (tiny_system Enqueue 64 [] [])"
    by (rule tiny_step) (simp_all add: tiny_mailbox_def)
  then show ?thesis
    by (rule tiny_step) (simp_all add: tiny_mailbox_def)
qed

theorem mailbox_within_capacity_witness:
  "case tiny_system (SendDone None) 64 [(tiny_event, 64)] [tiny_event] of s \<Rightarrow>
     delivery_reachable (\<lambda>_. 64) tiny_mailbox s \<and> length (mb_queue (sys_mailbox s)) = 1 \<and>
     queued_bytes (sys_mailbox s) \<le> 64"
  using mailbox_within_capacity [OF tiny_delivery tiny_reachable] tiny_reachable
  by (simp add: tiny_system_def tiny_mailbox_def)

theorem mailbox_fifo_witness:
  "case tiny_system (SendDone None) 64 [(tiny_event, 64)] [tiny_event] of s \<Rightarrow>
     delivery_reachable (\<lambda>_. 64) tiny_mailbox s \<and> accepted s = received s @ [tiny_event]"
  using mailbox_fifo [OF tiny_delivery tiny_reachable] tiny_reachable
  by (simp add: tiny_system_def tiny_mailbox_def)

section \<open>The completion is published once\<close>

datatype completion_op = SendCompletion transaction_completion | DropCompletionReceiver

fun completion_step :: "completion_op \<Rightarrow> completion_port \<Rightarrow> completion_publish_result option \<times> completion_port" where
  "completion_step (SendCompletion c) port = (case completion_send c port of (r, port') \<Rightarrow> (Some r, port'))"
| "completion_step DropCompletionReceiver port = (None, port\<lparr>completion_rx_alive := False\<rparr>)"

lemma completion_consumed:
  "completion_tx port = None \<Longrightarrow>
    (case run_ops completion_step ops port of (rs, port') \<Rightarrow>
       completion_tx port' = None \<and> completions port' = completions port \<and>
       set rs \<subseteq> {None, Some CompletionInvariantFailed})"
proof (induction ops arbitrary: port)
  case (Cons op ops)
  then have "completion_tx (snd (completion_step op port)) = None"
    "completions (snd (completion_step op port)) = completions port"
    "fst (completion_step op port) \<in> {None, Some CompletionInvariantFailed}"
    by (cases op; simp add: completion_send_def)+
  then show ?case
    using Cons.IH [of "snd (completion_step op port)"] by (auto simp: split_beta Let_def)
qed simp

text \<open>
  A completion is published at most once, whenever the host lets go of its receiver: the
  host sees exactly as many completions as sends reported success, never more than one, and
  every send after the first is refused.
\<close>

theorem completion_once:
  "case run_ops completion_step ops completion_new of (rs, port) \<Rightarrow>
     length (completions port) = count_list rs (Some CompletionSent) \<and> length (completions port) \<le> 1 \<and>
     count_list rs (Some CompletionSent) + count_list rs (Some ReceiverDropped) =
       (if list_all ((=) DropCompletionReceiver) ops then 0 else 1)"
proof -
  have "case run_ops completion_step ops port of (rs, port') \<Rightarrow>
      length (completions port') = count_list rs (Some CompletionSent) \<and> length (completions port') \<le> 1 \<and>
      count_list rs (Some CompletionSent) + count_list rs (Some ReceiverDropped) =
        (if list_all ((=) DropCompletionReceiver) ops then 0 else 1)"
    if "completion_tx port = Some ()" "completions port = []" for port
    using that
  proof (induction ops arbitrary: port)
    case (Cons op ops)
    show ?case
    proof (cases op)
      case DropCompletionReceiver
      then show ?thesis
        using Cons.IH [of "port\<lparr>completion_rx_alive := False\<rparr>"] Cons.prems by (auto split: prod.splits)
    next
      case (SendCompletion c)
      let ?p = "snd (completion_send c port)"
      have "completion_tx ?p = None" using Cons.prems by (simp add: completion_send_def Let_def)
      moreover obtain rs port' where r: "run_ops completion_step ops ?p = (rs, port')" by fastforce
      ultimately have *: "completions port' = completions ?p" "set rs \<subseteq> {None, Some CompletionInvariantFailed}"
        using completion_consumed [of ?p ops] by auto
      then have "count_list rs (Some CompletionSent) = 0" "count_list rs (Some ReceiverDropped) = 0"
        by (auto simp: count_list_0_iff)
      with * r SendCompletion Cons.prems show ?thesis
        by (auto simp: completion_send_def Let_def split: if_splits prod.splits)
    qed
  qed simp
  then show ?thesis by (simp add: completion_new_def)
qed

end
