(* ===== verification/Ledger.thy ===== *)
theory Ledger
  imports Delivery Simulation
begin

text \<open>
  \<open>crates/monoloop-loop/src/transaction/lifecycle/ledger.rs\<close>: the ledger of admitted
  transactions with its index of active sessions. Hash maps are association lists. Of the
  handles an entry owns (mailboxes, cancel signal, reservation bundle) the model keeps what
  the code reads of them: whether they are there, the capacities of the delivery mailbox,
  and the channel a reservation counts against.
\<close>

section \<open>Data\<close>

datatype transaction_phase =
    Queued
  | EstablishingSession
  | Running
  | Cancelling
  | Finalizing
  | CompletionPublished
  | CleanupPendingPhase

record ledger_entry =
  entry_id :: string
  entry_channel :: string
  entry_session :: "session_key option"
  entry_phase :: transaction_phase
  entry_terminal :: "terminal_decision option"
  pending_worker_proposal :: "terminal_proposal option"
  event_sequence :: nat
  entry_delivery :: "delivery_capacities option"
  has_completion_tx :: bool
  has_publisher_cmd_tx :: bool
  has_publisher_seal_tx :: bool
  entry_input :: "canonical_message list"
  entry_invocation :: invocation_config
  entry_session_config :: "session_config option"
  entry_effective :: effective_config
  entry_tools :: "string list"
  entry_reservation :: "string option"
  cancel_requested :: bool
  entry_usage :: transaction_usage
  diagnostic_count :: nat

record lifecycle_ledger =
  by_transaction :: "(string \<times> ledger_entry) list"
  by_session :: "(session_key \<times> string) list"

datatype ledger_insert_error =
    DuplicateTransaction
  | LedgerSessionActive
  | DistinctSessionsExceeded
  | UnknownTransaction

section \<open>Operations\<close>

definition ledger_new :: lifecycle_ledger where
  "ledger_new = \<lparr>by_transaction = [], by_session = []\<rparr>"

definition transaction_ids :: "lifecycle_ledger \<Rightarrow> string list" where
  "transaction_ids L = map fst (by_transaction L)"

definition ledger_get :: "string \<Rightarrow> lifecycle_ledger \<Rightarrow> ledger_entry option" where
  "ledger_get i L = map_of (by_transaction L) i"

text \<open>A change through \<open>get_mut\<close>.\<close>

definition ledger_modify :: "string \<Rightarrow> (ledger_entry \<Rightarrow> ledger_entry) \<Rightarrow> lifecycle_ledger \<Rightarrow> lifecycle_ledger" where
  "ledger_modify i f L =
     (case map_of (by_transaction L) i of
        None \<Rightarrow> L
      | Some e \<Rightarrow> L\<lparr>by_transaction := assoc_put i (f e) (by_transaction L)\<rparr>)"

definition session_active :: "session_key \<Rightarrow> lifecycle_ledger \<Rightarrow> bool" where
  "session_active k L \<longleftrightarrow> map_of (by_session L) k \<noteq> None"

definition transaction_for_session :: "session_key \<Rightarrow> lifecycle_ledger \<Rightarrow> string option" where
  "transaction_for_session k L = map_of (by_session L) k"

definition distinct_sessions_on_channel :: "string \<Rightarrow> lifecycle_ledger \<Rightarrow> nat" where
  "distinct_sessions_on_channel c L = length (filter (\<lambda>k. key_channel k = c) (map fst (by_session L)))"

definition at_session_limit :: "nat option \<Rightarrow> string \<Rightarrow> lifecycle_ledger \<Rightarrow> bool" where
  "at_session_limit limit c L =
     (case limit of Some m \<Rightarrow> distinct_sessions_on_channel c L \<ge> m | None \<Rightarrow> False)"

definition insert_queued ::
  "ledger_entry \<Rightarrow> nat option \<Rightarrow> lifecycle_ledger \<Rightarrow> (ledger_insert_error, lifecycle_ledger) outcome" where
  "insert_queued e limit L =
     (if map_of (by_transaction L) (entry_id e) \<noteq> None then (Some DuplicateTransaction, L)
      else (case entry_session e of
              None \<Rightarrow> (None, L\<lparr>by_transaction := assoc_put (entry_id e) e (by_transaction L)\<rparr>)
            | Some k \<Rightarrow>
                if session_active k L then (Some LedgerSessionActive, L)
                else if at_session_limit limit (key_channel k) L then (Some DistinctSessionsExceeded, L)
                else (None, L\<lparr>by_session := assoc_put k (entry_id e) (by_session L),
                              by_transaction := assoc_put (entry_id e) e (by_transaction L)\<rparr>)))"

definition ledger_remove :: "string \<Rightarrow> lifecycle_ledger \<Rightarrow> ledger_entry option \<times> lifecycle_ledger" where
  "ledger_remove i L =
     (case map_of (by_transaction L) i of
        None \<Rightarrow> (None, L)
      | Some e \<Rightarrow>
          (let L = L\<lparr>by_transaction := assoc_del i (by_transaction L)\<rparr>
           in (Some e,
               case entry_session e of
                 Some k \<Rightarrow>
                   if map_of (by_session L) k = Some i
                   then L\<lparr>by_session := assoc_del k (by_session L)\<rparr> else L
               | None \<Rightarrow> L)))"

definition bind_session ::
  "string \<Rightarrow> session_key \<Rightarrow> nat option \<Rightarrow> lifecycle_ledger \<Rightarrow> (ledger_insert_error, lifecycle_ledger) outcome" where
  "bind_session i k limit L =
     (case map_of (by_session L) k of
        Some holder \<Rightarrow> (if holder \<noteq> i then Some LedgerSessionActive else None, L)
      | None \<Rightarrow>
          (case map_of (by_transaction L) i of
             None \<Rightarrow> (Some UnknownTransaction, L)
           | Some e \<Rightarrow>
               (let replacing = (case entry_session e of Some old \<Rightarrow> key_channel old = key_channel k | None \<Rightarrow> False)
                in if \<not> replacing \<and> at_session_limit limit (key_channel k) L
                   then (Some DistinctSessionsExceeded, L)
                   else
                     (let bs = (case entry_session e of Some old \<Rightarrow> assoc_del old (by_session L) | None \<Rightarrow> by_session L)
                      in (None, L\<lparr>by_transaction := assoc_put i (e\<lparr>entry_session := Some k\<rparr>) (by_transaction L),
                                  by_session := assoc_put k i bs\<rparr>)))))"

section \<open>The index is redundant\<close>

text \<open>
  What the ledger promises, without the index: a book that says for each transaction which
  session it holds, if any.
\<close>

type_synonym session_book = "string \<rightharpoonup> session_key option"

datatype ledger_op =
    OpInsert ledger_entry "nat option"
  | OpRemove string
  | OpBind string session_key "nat option"
  | OpModify string "ledger_entry \<Rightarrow> ledger_entry"

definition holds :: "session_book \<Rightarrow> string \<Rightarrow> session_key \<Rightarrow> bool" where
  "holds B i k \<longleftrightarrow> B i = Some (Some k)"

definition held_on :: "string \<Rightarrow> session_book \<Rightarrow> session_key set" where
  "held_on c B = {k. key_channel k = c \<and> (\<exists>i. holds B i k)}"

definition book_full :: "nat option \<Rightarrow> string \<Rightarrow> session_book \<Rightarrow> bool" where
  "book_full limit c B = (case limit of Some m \<Rightarrow> m \<le> card (held_on c B) | None \<Rightarrow> False)"

fun book_step :: "ledger_op \<Rightarrow> session_book \<Rightarrow> ledger_insert_error option \<times> session_book" where
  "book_step (OpInsert e limit) B =
     (if B (entry_id e) \<noteq> None then (Some DuplicateTransaction, B)
      else (case entry_session e of
              None \<Rightarrow> (None, B(entry_id e \<mapsto> None))
            | Some k \<Rightarrow>
                if \<exists>i. holds B i k then (Some LedgerSessionActive, B)
                else if book_full limit (key_channel k) B then (Some DistinctSessionsExceeded, B)
                else (None, B(entry_id e \<mapsto> Some k))))"
| "book_step (OpRemove i) B = (None, B(i := None))"
| "book_step (OpBind i k limit) B =
     (if holds B i k then (None, B)
      else if \<exists>j. holds B j k then (Some LedgerSessionActive, B)
      else (case B i of
              None \<Rightarrow> (Some UnknownTransaction, B)
            | Some s \<Rightarrow>
                if \<not> (\<exists>old. s = Some old \<and> key_channel old = key_channel k) \<and> book_full limit (key_channel k) B
                then (Some DistinctSessionsExceeded, B)
                else (None, B(i \<mapsto> Some k))))"
| "book_step (OpModify i f) B = (None, B)"

fun ledger_step :: "ledger_op \<Rightarrow> lifecycle_ledger \<Rightarrow> ledger_insert_error option \<times> lifecycle_ledger" where
  "ledger_step (OpInsert e limit) L = insert_queued e limit L"
| "ledger_step (OpRemove i) L = (None, snd (ledger_remove i L))"
| "ledger_step (OpBind i k limit) L = bind_session i k limit L"
| "ledger_step (OpModify i f) L = (None, ledger_modify i (\<lambda>e. f e\<lparr>entry_id := entry_id e, entry_session := entry_session e\<rparr>) L)"

definition book :: "lifecycle_ledger \<Rightarrow> session_book" where
  "book L i = map_option entry_session (map_of (by_transaction L) i)"

definition ledger_inv :: "lifecycle_ledger \<Rightarrow> bool" where
  "ledger_inv L \<longleftrightarrow>
     distinct (map fst (by_session L)) \<and>
     (\<forall>k i. map_of (by_session L) k = Some i \<longleftrightarrow> holds (book L) i k) \<and>
     (\<forall>i e. map_of (by_transaction L) i = Some e \<longrightarrow> entry_id e = i)"

lemma ledger_inv_new: "ledger_inv ledger_new"
  by (simp add: ledger_inv_def ledger_new_def holds_def book_def)

lemma book_holder: "holds (book L) i k \<longleftrightarrow> (\<exists>e. map_of (by_transaction L) i = Some e \<and> entry_session e = Some k)"
  by (auto simp: holds_def book_def)

lemma session_indexed:
  assumes "ledger_inv L"
  shows "k \<in> set (map fst (by_session L)) \<longleftrightarrow> (\<exists>i. holds (book L) i k)"
proof -
  have "map_of (by_session L) k \<noteq> None \<longleftrightarrow> (\<exists>i. holds (book L) i k)"
    using assms by (simp add: ledger_inv_def)
  then show ?thesis by (simp only: map_of_fst_None not_not)
qed

lemma session_count:
  assumes "ledger_inv L"
  shows "card (held_on c (book L)) = distinct_sessions_on_channel c L"
proof -
  have "held_on c (book L) = set (filter (\<lambda>k. key_channel k = c) (map fst (by_session L)))"
    using session_indexed [OF assms] by (auto simp: held_on_def simp del: set_map)
  moreover have "distinct (filter (\<lambda>k. key_channel k = c) (map fst (by_session L)))"
    using assms by (simp add: ledger_inv_def)
  ultimately show ?thesis
    unfolding distinct_sessions_on_channel_def by (metis distinct_card)
qed

lemma session_limit: "ledger_inv L \<Longrightarrow> at_session_limit limit c L = book_full limit c (book L)"
  by (auto simp: at_session_limit_def book_full_def session_count split: option.split)

lemma session_active_holder: "ledger_inv L \<Longrightarrow> session_active k L \<longleftrightarrow> (\<exists>i. holds (book L) i k)"
  by (auto simp: session_active_def ledger_inv_def)

lemma holder_unique: "ledger_inv L \<Longrightarrow> holds (book L) i k \<Longrightarrow> holds (book L) j k \<Longrightarrow> i = j"
  unfolding ledger_inv_def by (metis option.inject)

lemma book_insert:
  assumes "ledger_inv L"
  shows "book_step (OpInsert e limit) (book L) = (fst (insert_queued e limit L), book (snd (insert_queued e limit L)))"
  using session_limit [OF assms] session_active_holder [OF assms]
  by (auto simp: insert_queued_def book_def fun_eq_iff map_of_assoc_put split: option.split)

lemma book_remove:
  "book_step (OpRemove i) (book L) = (None, book (snd (ledger_remove i L)))"
  by (auto simp: ledger_remove_def book_def fun_eq_iff map_of_assoc_del Let_def split: option.split)

lemma book_bind:
  assumes "ledger_inv L"
  shows "book_step (OpBind i k limit) (book L) = (fst (bind_session i k limit L), book (snd (bind_session i k limit L)))"
proof (cases "map_of (by_session L) k")
  case None
  then have n: "\<not> holds (book L) j k" for j using assms by (auto simp: ledger_inv_def)
  show ?thesis
    using None n session_limit [OF assms]
    by (auto simp: bind_session_def book_def fun_eq_iff map_of_assoc_put Let_def split: option.split)
next
  case (Some j)
  then have "holds (book L) j k" using assms by (simp add: ledger_inv_def)
  with Some holder_unique [OF assms] show ?thesis by (auto simp: bind_session_def)
qed

lemma book_modify:
  "book (ledger_modify i (\<lambda>e. f e\<lparr>entry_id := entry_id e, entry_session := entry_session e\<rparr>) L) = book L"
  by (auto simp: ledger_modify_def book_def fun_eq_iff map_of_assoc_put split: option.split)

text \<open>Each operation keeps the index in step with the entries.\<close>

declare map_of_eq_Some_iff [simp del]

lemma ledger_invI:
  assumes "distinct (map fst (by_session L))"
    and "\<And>k i. map_of (by_session L) k = Some i \<longleftrightarrow> holds (book L) i k"
    and "\<And>i e. map_of (by_transaction L) i = Some e \<Longrightarrow> entry_id e = i"
  shows "ledger_inv L"
  using assms by (simp add: ledger_inv_def)

lemmas ledger_invD = ledger_inv_def [THEN iffD1, THEN conjunct1]
  ledger_inv_def [THEN iffD1, THEN conjunct2, THEN conjunct1, rule_format]
  ledger_inv_def [THEN iffD1, THEN conjunct2, THEN conjunct2, rule_format]

lemma holds_upd: "holds (B(i := s)) j k \<longleftrightarrow> (if j = i then s = Some (Some k) else holds B j k)"
  by (simp add: holds_def)

lemma index_del:
  assumes "ledger_inv L" and "holds (book L) i k"
  shows "map_of (assoc_del k (by_session L)) k' = Some j \<longleftrightarrow> j \<noteq> i \<and> holds (book L) j k'"
proof -
  have "j \<noteq> i \<Longrightarrow> \<not> holds (book L) j k" using holder_unique [OF assms(1) _ assms(2)] by blast
  moreover have "k' \<noteq> k \<Longrightarrow> \<not> holds (book L) i k'" using assms(2) by (simp add: holds_def)
  ultimately show ?thesis
    using ledger_invD(2) [OF assms(1), of k' j] by (cases "k' = k"; cases "j = i") (simp_all add: map_of_assoc_del)
qed

lemma insert_inv:
  assumes "ledger_inv L"
  shows "ledger_inv (snd (insert_queued e limit L))"
proof (cases "fst (insert_queued e limit L)")
  case None
  note i = ledger_invD [OF assms]
  have new: "map_of (by_transaction L) (entry_id e) = None"
    using None by (auto simp: insert_queued_def split: if_splits)
  show ?thesis
  proof (cases "entry_session e")
    case None
    then show ?thesis
      using new i by (intro ledger_invI) (auto simp: insert_queued_def book_holder map_of_assoc_put split: if_splits)
  next
    case (Some k)
    have free: "map_of (by_session L) k = None" and ok: "\<not> at_session_limit limit (key_channel k) L"
      using None new Some by (auto simp: insert_queued_def session_active_def split: if_splits)
    have "\<not> (\<exists>a. map_of (by_transaction L) j = Some a \<and> entry_session a = Some k)" for j
      using free i(2) [of k j] by (simp add: book_holder)
    then show ?thesis
      using new i Some free ok
      by (intro ledger_invI)
        (auto simp: insert_queued_def session_active_def book_holder map_of_assoc_put assoc_put_distinct
          split: if_splits)
  qed
next
  case (Some err)
  then have "snd (insert_queued e limit L) = L"
    by (auto simp: insert_queued_def split: if_splits option.splits)
  with assms show ?thesis by simp
qed

lemma remove_inv:
  assumes "ledger_inv L"
  shows "ledger_inv (snd (ledger_remove i L))"
proof (cases "map_of (by_transaction L) i")
  case None
  then show ?thesis using assms by (simp add: ledger_remove_def)
next
  case (Some e)
  note v = ledger_invD [OF assms] and e = this
  have b: "book (snd (ledger_remove i L)) = (book L)(i := None)"
    using book_remove [of i L] by simp
  have t: "entry_id a = j" if "map_of (by_transaction (snd (ledger_remove i L))) j = Some a" for j a
    using that v(3) [of j a] e
    by (simp add: ledger_remove_def Let_def map_of_assoc_del split: option.splits if_splits)
  show ?thesis
  proof (cases "entry_session e")
    case None
    then have "by_session (snd (ledger_remove i L)) = by_session L" and "\<not> holds (book L) i k" for k
      using e by (simp_all add: ledger_remove_def Let_def book_holder)
    then show ?thesis using v(1,2) t by (intro ledger_invI) (auto simp: b holds_upd)
  next
    case (Some k)
    then have h: "holds (book L) i k" using e by (simp add: book_holder)
    then have "by_session (snd (ledger_remove i L)) = assoc_del k (by_session L)"
      using e Some v(2) [of k i] by (simp add: ledger_remove_def Let_def)
    then show ?thesis
      using v(1) t by (intro ledger_invI) (auto simp: b holds_upd index_del [OF assms h] assoc_del_distinct)
  qed
qed

lemma bind_inv:
  assumes "ledger_inv L"
  shows "ledger_inv (snd (bind_session i k limit L))"
proof (cases "snd (bind_session i k limit L) = L")
  case True
  with assms show ?thesis by simp
next
  case False
  note v = ledger_invD [OF assms]
  obtain e where e: "map_of (by_transaction L) i = Some e" and free: "map_of (by_session L) k = None"
    using False by (auto simp: bind_session_def split: option.splits)
  let ?bs = "case entry_session e of Some old \<Rightarrow> assoc_del old (by_session L) | None \<Rightarrow> by_session L"
  have r: "snd (bind_session i k limit L)
      = L\<lparr>by_transaction := assoc_put i (e\<lparr>entry_session := Some k\<rparr>) (by_transaction L), by_session := assoc_put k i ?bs\<rparr>"
    using False e free by (auto simp: bind_session_def Let_def split: if_splits)
  have b: "book (snd (bind_session i k limit L)) = (book L)(i \<mapsto> Some k)"
    by (auto simp: r book_def fun_eq_iff map_of_assoc_put)
  have bs: "map_of ?bs k' = Some j \<longleftrightarrow> j \<noteq> i \<and> holds (book L) j k'" for k' j
  proof (cases "entry_session e")
    case None
    then have "\<not> holds (book L) i k'" using e by (simp add: book_holder)
    with None show ?thesis using v(2) by auto
  next
    case (Some old)
    then have "holds (book L) i old" using e by (simp add: book_holder)
    from index_del [OF assms this] Some show ?thesis by simp
  qed
  have n: "\<not> holds (book L) j k" for j using free v(2) [of k j] by simp
  have t: "entry_id a = j" if "map_of (by_transaction (snd (bind_session i k limit L))) j = Some a" for j a
    using that v(3) [of j a] v(3) [OF e] by (auto simp: r map_of_assoc_put split: if_splits)
  have d: "distinct (map fst ?bs)" using v(1) by (auto simp: assoc_del_distinct split: option.split)
  show ?thesis
  proof (rule ledger_invI)
    show "distinct (map fst (by_session (snd (bind_session i k limit L))))"
      using d by (simp add: r assoc_put_distinct)
    show "map_of (by_session (snd (bind_session i k limit L))) k' = Some j
        \<longleftrightarrow> holds (book (snd (bind_session i k limit L))) j k'" for k' j
      using n unfolding b holds_upd by (auto simp: r map_of_assoc_put bs)
  qed (rule t)
qed

lemma modify_inv:
  assumes "ledger_inv L"
  shows "ledger_inv (ledger_modify i (\<lambda>e. f e\<lparr>entry_id := entry_id e, entry_session := entry_session e\<rparr>) L)"
    (is "ledger_inv ?M")
proof (cases "map_of (by_transaction L) i")
  case None
  with assms show ?thesis by (simp add: ledger_modify_def)
next
  case (Some a)
  note v = ledger_invD [OF assms]
  have "by_session ?M = by_session L" by (simp add: ledger_modify_def Some)
  moreover have "entry_id e = j" if "map_of (by_transaction ?M) j = Some e" for j e
    using that v(3) [of j e] v(3) [OF Some] by (auto simp: ledger_modify_def Some map_of_assoc_put split: if_splits)
  ultimately show ?thesis using v(1,2) by (intro ledger_invI) (simp_all only: book_modify)
qed

interpretation ledger: simulation ledger_inv book ledger_step book_step
proof
  show "ledger_inv (snd (ledger_step op L))" if "ledger_inv L" for op L
    using that by (cases op) (simp_all add: insert_inv remove_inv bind_inv modify_inv)
  show "book_step op (book L) = (fst (ledger_step op L), book (snd (ledger_step op L)))" if "ledger_inv L" for op L
    using that book_insert [OF that] book_remove book_bind [OF that]
    by (cases op) (simp_all add: book_modify del: book_step.simps(1-3))
qed

section \<open>Properties\<close>

text \<open>
  C20. The ledger refines the book: on every sequence of insertions, removals, session bindings
  and other changes, from an empty ledger, it gives the same results as the specification
  that has no index, and the sessions its entries hold are those of the book.
\<close>

theorem ledger_refines_book:
  "run_ops book_step ops Map.empty =
     (fst (run_ops ledger_step ops ledger_new), book (snd (run_ops ledger_step ops ledger_new)))"
proof -
  have "book ledger_new = Map.empty" by (simp add: book_def ledger_new_def fun_eq_iff)
  then show ?thesis using ledger.run_abs [OF ledger_inv_new, of ops] by simp
qed

text \<open>
  A session never has two active transactions: in every reachable ledger the index names
  exactly one transaction for an active session, and that transaction's entry, and no other,
  carries the session.
\<close>

theorem session_has_one_transaction:
  "case snd (run_ops ledger_step ops ledger_new) of L \<Rightarrow>
     (session_active k L \<longleftrightarrow> (\<exists>!i. \<exists>e. ledger_get i L = Some e \<and> entry_session e = Some k)) \<and>
     (transaction_for_session k L = Some i \<longleftrightarrow> (\<exists>e. ledger_get i L = Some e \<and> entry_id e = i \<and> entry_session e = Some k))"
proof -
  let ?L = "snd (run_ops ledger_step ops ledger_new)"
  have inv: "ledger_inv ?L" by (rule ledger.run_inv [OF ledger_inv_new])
  have "session_active k ?L \<longleftrightarrow> (\<exists>!i. holds (book ?L) i k)"
    using session_active_holder [OF inv] holder_unique [OF inv] by blast
  moreover have "transaction_for_session k ?L = Some i \<longleftrightarrow> holds (book ?L) i k"
    unfolding transaction_for_session_def by (rule ledger_invD(2) [OF inv])
  moreover have "holds (book ?L) j k \<longleftrightarrow> (\<exists>e. ledger_get j ?L = Some e \<and> entry_id e = j \<and> entry_session e = Some k)" for j
    using ledger_invD(3) [OF inv, of j] by (auto simp: book_holder ledger_get_def)
  ultimately show ?thesis by (simp add: book_holder ledger_get_def)
qed

fun limits_channel :: "string \<Rightarrow> nat \<Rightarrow> ledger_op \<Rightarrow> bool" where
  "limits_channel c m (OpInsert e limit) =
     (case entry_session e of Some k \<Rightarrow> key_channel k \<noteq> c \<or> limit = Some m | None \<Rightarrow> True)"
| "limits_channel c m (OpBind i k limit) = (key_channel k \<noteq> c \<or> limit = Some m)"
| "limits_channel c m _ = True"

lemma held_on_upd:
  "held_on c (B(i := s)) \<subseteq> (case s of Some (Some k) \<Rightarrow> if key_channel k = c then insert k (held_on c B) else held_on c B
     | _ \<Rightarrow> held_on c B)"
  by (auto simp: held_on_def holds_upd split: option.split if_splits)

lemma held_on_rebind:
  assumes "holds B i old" and "\<And>j. j \<noteq> i \<Longrightarrow> \<not> holds B j old" and "old \<noteq> k"
  shows "held_on c (B(i \<mapsto> Some k)) \<subseteq> insert k (held_on c B - {old})"
  using assms by (auto simp: held_on_def holds_upd split: if_splits)

lemma card_insert_bound: "finite A \<Longrightarrow> B \<subseteq> insert x A \<Longrightarrow> card A < m \<Longrightarrow> card B \<le> (m::nat)"
  using card_mono [of "insert x A" B] by (simp add: card_insert_if split: if_splits)

lemma book_step_bound:
  assumes fin: "finite (held_on c B)" and uniq: "\<And>i j k. holds B i k \<Longrightarrow> holds B j k \<Longrightarrow> i = j"
    and "limits_channel c m op" and card: "card (held_on c B) \<le> m"
  shows "card (held_on c (snd (book_step op B))) \<le> m"
proof -
  have keep: "card (held_on c B') \<le> m" if "held_on c B' \<subseteq> held_on c B" for B'
    using card_mono [OF fin that] card by simp
  have other: "card (held_on c (B(i \<mapsto> Some k))) \<le> m" if "key_channel k \<noteq> c" for i k
    using that held_on_upd [of c B i "Some (Some k)"] by (intro keep) simp
  have add: "card (held_on c (B(i \<mapsto> Some k))) \<le> m"
    if "key_channel k \<noteq> c \<or> limit = Some m" "\<not> book_full limit (key_channel k) B" for i k limit
  proof (cases "key_channel k = c")
    case True
    then show ?thesis
      using that held_on_upd [of c B i "Some (Some k)"] card_insert_bound [OF fin, of _ k m]
      by (simp add: book_full_def not_le)
  next
    case False
    then show ?thesis by (rule other)
  qed
  show ?thesis
  proof (cases op)
    case (OpInsert e limit)
    then show ?thesis
      using card add [of _ limit "entry_id e"] held_on_upd [of c B "entry_id e" "Some None"] assms(3)
      by (auto intro: keep simp del: fun_upd_apply split: option.splits)
  next
    case (OpRemove i)
    then show ?thesis using held_on_upd [of c B i None] by (auto intro: keep)
  next
    case (OpBind i k limit)
    show ?thesis
    proof (cases "\<exists>old. B i = Some (Some old) \<and> key_channel old = key_channel k \<and> key_channel k = c \<and> old \<noteq> k")
      case True
      then obtain old where o: "holds B i old" "key_channel old = c" "key_channel k = c" "old \<noteq> k"
        by (auto simp: holds_def)
      then have "old \<in> held_on c B" by (auto simp: held_on_def)
      then have "card (held_on c B - {old}) < m" using fin card card_Diff1_less [OF fin] by fastforce
      then have "card (held_on c (B(i \<mapsto> Some k))) \<le> m"
        using card_insert_bound [OF _ held_on_rebind [OF o(1) _ o(4)], of c m] fin uniq o(1) by blast
      then show ?thesis using card by (simp add: OpBind split: option.split)
    next
      case False
      then show ?thesis
        using card other [of k i] add [of k limit i] assms(3) by (auto simp: OpBind holds_def split: option.split)
    qed
  next
    case (OpModify i f)
    then show ?thesis using card by simp
  qed
qed

text \<open>
  The number of distinct sessions of a channel stays within its limit: if every insertion
  and binding on the channel is made with the limit, no sequence of operations exceeds it.
\<close>

theorem distinct_sessions_bounded:
  assumes "list_all (limits_channel c m) ops"
  shows "distinct_sessions_on_channel c (snd (run_ops ledger_step ops ledger_new)) \<le> m"
proof -
  have "distinct_sessions_on_channel c (snd (ledger_step op L)) \<le> m"
    if "limits_channel c m op" "ledger_inv L" "distinct_sessions_on_channel c L \<le> m" for op L
  proof -
    have "held_on c (book L) \<subseteq> set (map fst (by_session L))"
      using session_indexed [OF that(2)] by (auto simp: held_on_def)
    then have fin: "finite (held_on c (book L))" by (rule finite_subset) simp
    have "book (snd (ledger_step op L)) = snd (book_step op (book L))"
      by (simp add: ledger.step_abs [OF that(2)])
    moreover have "ledger_inv (snd (ledger_step op L))" by (rule ledger.step_inv [OF that(2)])
    moreover have "card (held_on c (snd (book_step op (book L)))) \<le> m"
    proof (rule book_step_bound [OF fin _ that(1)])
      show "holds (book L) i k \<Longrightarrow> holds (book L) j k \<Longrightarrow> i = j" for i j k by (rule holder_unique [OF that(2)])
      show "card (held_on c (book L)) \<le> m" using that(3) session_count [OF that(2)] by simp
    qed
    ultimately show ?thesis by (metis session_count)
  qed
  then show ?thesis
    using ledger.run_keeps [OF ledger_inv_new _ assms, of "\<lambda>L. distinct_sessions_on_channel c L \<le> m"]
    by (simp add: ledger_new_def distinct_sessions_on_channel_def)
qed

text \<open>Two sessions that compete for the only slot of a channel.\<close>

definition plain_entry :: "string \<Rightarrow> session_key option \<Rightarrow> ledger_entry" where
  "plain_entry i s =
     \<lparr>entry_id = i, entry_channel = ''c'', entry_session = s, entry_phase = Queued, entry_terminal = None,
      pending_worker_proposal = None, event_sequence = 0, entry_delivery = None, has_completion_tx = False,
      has_publisher_cmd_tx = False, has_publisher_seal_tx = False, entry_input = [],
      entry_invocation = default_invocation_config, entry_session_config = None,
      entry_effective = merged seed_defaults None default_invocation_config, entry_tools = [],
      entry_reservation = Some ''c'', cancel_requested = False, entry_usage = default_usage, diagnostic_count = 0\<rparr>"

definition competing_ops :: "ledger_op list" where
  "competing_ops =
     [OpInsert (plain_entry ''a'' (Some \<lparr>key_channel = ''c'', key_session = ''s''\<rparr>)) (Some 1),
      OpInsert (plain_entry ''b'' (Some \<lparr>key_channel = ''c'', key_session = ''t''\<rparr>)) (Some 1)]"

theorem distinct_sessions_bounded_witness:
  "fst (run_ops ledger_step competing_ops ledger_new) = [None, Some DistinctSessionsExceeded] \<and>
   distinct_sessions_on_channel ''c'' (snd (run_ops ledger_step competing_ops ledger_new)) \<le> 1"
proof
  show "fst (run_ops ledger_step competing_ops ledger_new) = [None, Some DistinctSessionsExceeded]"
    by (simp add: competing_ops_def insert_queued_def plain_entry_def ledger_new_def session_active_def
        at_session_limit_def distinct_sessions_on_channel_def Let_def)
  have "list_all (limits_channel ''c'' 1) competing_ops"
    by (simp add: competing_ops_def plain_entry_def)
  then show "distinct_sessions_on_channel ''c'' (snd (run_ops ledger_step competing_ops ledger_new)) \<le> 1"
    by (rule distinct_sessions_bounded)
qed

end
