(* ===== verification/Registry.thy ===== *)
theory Registry
  imports Config Tool
begin

text \<open>
  What a runtime is started with: \<open>crates/monoloop-contracts/src/channel.rs\<close>, the
  capability matrix of a channel; \<open>channel_registry.rs\<close>, \<open>host_tools.rs\<close> and
  \<open>resolved_tools.rs\<close> of \<open>crates/monoloop-loop/src/transaction\<close>, the immutable registries
  of channels and host tools and the tool set of one transaction. Of a channel binding the
  model keeps the data and leaves out the factories; of a tool handler it keeps the answers
  to the four capability questions the registry asks.
\<close>

section \<open>Channels\<close>

datatype channel_kind = ExternalAgent | DirectLlm

datatype tool_execution_mode = McpGateway | ModelToolCalls | NoTools

datatype mcp_configuration_capability = McpNone | CreationOnly | Refreshable

datatype session_mode_kind = Stateless | ExternalSession

datatype mcp_reachability = Unreachable | SameLoopbackNamespace | QualifiedRemoteTransport

datatype exchange_mode_kind = RequestResponse | Bidirectional

record channel_capabilities =
  cap_session_mode :: session_mode_kind
  mcp_configuration :: mcp_configuration_capability
  cap_mcp_reachability :: mcp_reachability
  exchange_mode :: exchange_mode_kind
  continuation_policies :: "continuation_policy list"
  supports_distinct_session_concurrency :: bool
  input_dialect :: dialect_descriptor
  output_dialect :: dialect_descriptor
  cap_option_policy :: option_policy

record channel_binding =
  bind_id :: string
  bind_kind :: channel_kind
  bind_tool_mode :: tool_execution_mode
  bind_defaults :: channel_defaults
  bind_capabilities :: channel_capabilities
  bind_limits :: channel_limits

datatype channel_capability_error =
    ZeroLimit
  | DirectLlmRequiresStateless
  | DirectLlmRequiresRequestResponse
  | ExternalAgentRequiresExternalSession
  | McpGatewayRequiresConfiguration
  | McpGatewayRequiresReachability
  | NonMcpMustDisableConfiguration
  | NonMcpMustDisableReachability
  | InlineContinuationRequiresModelTools
  | DistinctSessionConcurrencyRequired
  | DialectMismatch

definition kind_error :: "channel_kind \<Rightarrow> channel_capabilities \<Rightarrow> channel_capability_error option" where
  "kind_error kind caps =
     (case kind of
        DirectLlm \<Rightarrow>
          if cap_session_mode caps \<noteq> Stateless then Some DirectLlmRequiresStateless
          else if exchange_mode caps \<noteq> RequestResponse then Some DirectLlmRequiresRequestResponse
          else None
      | ExternalAgent \<Rightarrow>
          if cap_session_mode caps \<noteq> ExternalSession then Some ExternalAgentRequiresExternalSession else None)"

definition tool_mode_error :: "tool_execution_mode \<Rightarrow> channel_capabilities \<Rightarrow> channel_capability_error option" where
  "tool_mode_error mode caps =
     (if mode = McpGateway
      then
        if mcp_configuration caps = McpNone then Some McpGatewayRequiresConfiguration
        else if cap_mcp_reachability caps = Unreachable then Some McpGatewayRequiresReachability
        else None
      else if mcp_configuration caps \<noteq> McpNone then Some NonMcpMustDisableConfiguration
      else if cap_mcp_reachability caps \<noteq> Unreachable then Some NonMcpMustDisableReachability
      else None)"

definition channel_validate :: "channel_binding \<Rightarrow> channel_capability_error option" where
  "channel_validate b =
     (let caps = bind_capabilities b; l = bind_limits b
      in if ch_max_active_transactions l = 0 \<or> ch_max_distinct_sessions l = 0 \<or> ch_max_encoded_exchange_bytes l = 0
         then Some ZeroLimit
         else
           first_error
             [kind_error (bind_kind b) caps,
              tool_mode_error (bind_tool_mode b) caps,
              if InlineToolContinuation \<in> set (continuation_policies caps) \<and> bind_tool_mode b \<noteq> ModelToolCalls
              then Some InlineContinuationRequiresModelTools else None,
              if \<not> supports_distinct_session_concurrency caps then Some DistinctSessionConcurrencyRequired else None,
              if input_dialect caps \<noteq> output_dialect caps then Some DialectMismatch else None])"

definition send_and_retain_allowed :: "channel_capabilities \<Rightarrow> bool" where
  "send_and_retain_allowed caps \<longleftrightarrow> exchange_mode caps = Bidirectional"

datatype startup_error =
    InvalidConfig string
  | ChannelRegistryError string
  | ChannelCapability channel_capability_error
  | ToolRegistryError string
  | SessionAdapterMismatch string
  | McpBindFailed
  | ExecutorUnavailable
  | StartupInvariantFailed string

fun add_channels ::
  "channel_binding list \<Rightarrow> (string \<times> channel_binding) list \<Rightarrow> (startup_error, (string \<times> channel_binding) list) result" where
  "add_channels [] m = Ok m"
| "add_channels (b # bs) m =
     (case channel_validate b of
        Some e \<Rightarrow> Err (ChannelCapability e)
      | None \<Rightarrow>
          if map_of m (bind_id b) \<noteq> None then Err (ChannelRegistryError ''duplicate ChannelId'')
          else add_channels bs (assoc_put (bind_id b) b m))"

definition channel_registry_build ::
  "channel_binding list \<Rightarrow> (startup_error, (string \<times> channel_binding) list) result" where
  "channel_registry_build bs =
     (if bs = [] then Err (ChannelRegistryError ''at least one Channel is required'') else add_channels bs [])"

section \<open>Host tools\<close>

record registered_tool =
  rt_spec :: tool_spec
  os_process_isolated :: bool
  supports_isolated_kill :: bool
  runtime_owns_abortable_drive :: bool
  supports_abort :: bool

definition registered_try_new :: "registered_tool \<Rightarrow> (startup_error, registered_tool) result" where
  "registered_try_new t =
     (case execution_class (rt_spec t) of
        AbortableAtYield _ \<Rightarrow>
          Err (ToolRegistryError ''AbortableAtYield requires try_new_abortable(AbortableAtYieldHandler)'')
      | ProcessIsolated _ _ \<Rightarrow>
          Err (ToolRegistryError ''ProcessIsolated requires try_new_process_isolated(ProcessIsolatedToolHandler)'')
      | CooperativeInProcess _ \<Rightarrow> Ok t)"

definition registered_try_new_abortable :: "registered_tool \<Rightarrow> (startup_error, registered_tool) result" where
  "registered_try_new_abortable t =
     (case execution_class (rt_spec t) of
        AbortableAtYield _ \<Rightarrow>
          if \<not> runtime_owns_abortable_drive t \<or> \<not> supports_abort t
          then Err (ToolRegistryError ''AbortableAtYieldHandler must expose runtime_owns_abortable_drive + supports_abort'')
          else Ok t
      | _ \<Rightarrow> Err (ToolRegistryError ''try_new_abortable requires ToolExecutionClass::AbortableAtYield''))"

definition registered_try_new_process_isolated :: "registered_tool \<Rightarrow> (startup_error, registered_tool) result" where
  "registered_try_new_process_isolated t =
     (case execution_class (rt_spec t) of
        ProcessIsolated _ _ \<Rightarrow>
          if \<not> os_process_isolated t \<or> \<not> supports_isolated_kill t
          then Err (ToolRegistryError ''ProcessIsolatedToolHandler must expose os_process_isolated + supports_isolated_kill'')
          else Ok t
      | _ \<Rightarrow> Err (ToolRegistryError ''try_new_process_isolated requires ToolExecutionClass::ProcessIsolated''))"

record host_tool_registry =
  tools_by_id :: "(string \<times> registered_tool) list"
  tools_by_name :: "(string \<times> string) list"

definition registry_empty :: host_tool_registry where
  "registry_empty = \<lparr>tools_by_id = [], tools_by_name = []\<rparr>"

definition class_error :: "registered_tool \<Rightarrow> startup_error option" where
  "class_error t =
     (case execution_class (rt_spec t) of
        ProcessIsolated _ _ \<Rightarrow>
          if os_process_isolated t then None
          else Some (ToolRegistryError ''ProcessIsolated entry lacks os_process_isolated handler'')
      | AbortableAtYield _ \<Rightarrow>
          if runtime_owns_abortable_drive t then None
          else Some (ToolRegistryError ''AbortableAtYield entry lacks runtime_owns_abortable_drive handler'')
      | _ \<Rightarrow> None)"

definition schema_len :: "json_codec \<Rightarrow> json \<Rightarrow> nat" where
  "schema_len codec v = (case to_vec codec v of Some e \<Rightarrow> length e | None \<Rightarrow> 0)"

definition register_tool ::
  "json_codec \<Rightarrow> registered_tool \<Rightarrow> host_tool_registry \<Rightarrow> (startup_error, host_tool_registry) outcome" where
  "register_tool codec t r =
     (let s = rt_spec t
      in case class_error t of
           Some e \<Rightarrow> (Some e, r)
         | None \<Rightarrow>
             if schema_len codec (input_schema s) > max_tool_schema_bytes default_transaction_limits
             then (Some (ToolRegistryError ''tool schema too large''), r)
             else if map_of (tools_by_id r) (spec_id s) \<noteq> None then (Some (ToolRegistryError ''duplicate ToolId''), r)
             else if map_of (tools_by_name r) (spec_name s) \<noteq> None then (Some (ToolRegistryError ''duplicate ToolName''), r)
             else (None, \<lparr>tools_by_id = assoc_put (spec_id s) t (tools_by_id r),
                          tools_by_name = assoc_put (spec_name s) (spec_id s) (tools_by_name r)\<rparr>))"

definition tool_registry_build ::
  "json_codec \<Rightarrow> registered_tool list \<Rightarrow> (startup_error, host_tool_registry) result" where
  "tool_registry_build codec ts =
     (case for_each (register_tool codec) ts registry_empty of (Some e, _) \<Rightarrow> Err e | (None, r) \<Rightarrow> Ok r)"

definition registry_get :: "string \<Rightarrow> host_tool_registry \<Rightarrow> registered_tool option" where
  "registry_get i r = map_of (tools_by_id r) i"

definition id_for_name :: "string \<Rightarrow> host_tool_registry \<Rightarrow> string option" where
  "id_for_name n r = map_of (tools_by_name r) n"

definition specs_sorted :: "host_tool_registry \<Rightarrow> tool_spec list" where
  "specs_sorted r =
     map rt_spec (List.map_filter (\<lambda>i. map_of (tools_by_id r) i) (sort (map fst (tools_by_id r))))"

section \<open>The tools of one transaction\<close>

record resolved_tool_set =
  res_by_id :: "(string \<times> registered_tool) list"
  res_by_name :: "(string \<times> string) list"
  res_ordered :: "string list"

definition resolve_tool :: "registered_tool \<Rightarrow> resolved_tool_set \<Rightarrow> resolved_tool_set" where
  "resolve_tool t r =
     \<lparr>res_by_id = assoc_put (spec_id (rt_spec t)) t (res_by_id r),
      res_by_name = assoc_put (spec_name (rt_spec t)) (spec_id (rt_spec t)) (res_by_name r),
      res_ordered = res_ordered r @ [spec_id (rt_spec t)]\<rparr>"

definition from_registered :: "registered_tool list \<Rightarrow> resolved_tool_set" where
  "from_registered ts = fold resolve_tool ts \<lparr>res_by_id = [], res_by_name = [], res_ordered = []\<rparr>"

definition resolved_tools :: "resolved_tool_set \<Rightarrow> registered_tool list" where
  "resolved_tools r = List.map_filter (\<lambda>i. map_of (res_by_id r) i) (res_ordered r)"

definition get_by_name :: "string \<Rightarrow> resolved_tool_set \<Rightarrow> registered_tool option" where
  "get_by_name n r = Option.bind (map_of (res_by_name r) n) (\<lambda>i. map_of (res_by_id r) i)"

section \<open>Registries are what was registered\<close>

abbreviation tool_id :: "registered_tool \<Rightarrow> string" where
  "tool_id t \<equiv> spec_id (rt_spec t)"

abbreviation tool_name :: "registered_tool \<Rightarrow> string" where
  "tool_name t \<equiv> spec_name (rt_spec t)"

lemma add_channels_iff:
  "add_channels bs m = Ok r \<longleftrightarrow>
     list_all (\<lambda>b. channel_validate b = None) bs \<and> distinct (map bind_id bs) \<and>
     list_all (\<lambda>b. map_of m (bind_id b) = None) bs \<and> r = m @ map (\<lambda>b. (bind_id b, b)) bs"
proof (induction bs arbitrary: m)
  case (Cons b bs)
  show ?case
  proof (cases "channel_validate b = None \<and> map_of m (bind_id b) = None")
    case True
    then have "add_channels (b # bs) m = add_channels bs (m @ [(bind_id b, b)])"
      by (simp add: assoc_put_append)
    with True Cons.IH [of "m @ [(bind_id b, b)]"] show ?thesis
      by (auto simp: list_all_iff map_of_fst_None image_iff)
  next
    case False
    then show ?thesis by (auto split: option.splits)
  qed
qed auto

lemma register_tool_ok:
  assumes "register_tool codec t r = (None, r')"
  shows "map_of (tools_by_id r) (tool_id t) = None" and "map_of (tools_by_name r) (tool_name t) = None"
    and "r' = \<lparr>tools_by_id = tools_by_id r @ [(tool_id t, t)], tools_by_name = tools_by_name r @ [(tool_name t, tool_id t)]\<rparr>"
  using assms by (auto simp: register_tool_def Let_def assoc_put_append split: option.splits if_splits)

lemma register_all:
  assumes "for_each (register_tool codec) ts r = (None, r')"
    and "distinct (map fst (tools_by_id r))" and "distinct (map fst (tools_by_name r))"
  shows "r' = \<lparr>tools_by_id = tools_by_id r @ map (\<lambda>t. (tool_id t, t)) ts,
      tools_by_name = tools_by_name r @ map (\<lambda>t. (tool_name t, tool_id t)) ts\<rparr> \<and>
    distinct (map fst (tools_by_id r')) \<and> distinct (map fst (tools_by_name r'))"
  using assms
proof (induction ts arbitrary: r)
  case (Cons t ts)
  from Cons.prems(1) obtain r1 where r1: "register_tool codec t r = (None, r1)"
    and rest: "for_each (register_tool codec) ts r1 = (None, r')"
    by (auto split: prod.splits option.splits)
  note ok = register_tool_ok [OF r1]
  then have "distinct (map fst (tools_by_id r1))" "distinct (map fst (tools_by_name r1))"
    using Cons.prems(2,3) map_of_fst_None [of "tools_by_id r" "tool_id t"]
      map_of_fst_None [of "tools_by_name r" "tool_name t"] by auto
  note ih = Cons.IH [OF rest this]
  have "r' = \<lparr>tools_by_id = tools_by_id r @ map (\<lambda>t. (tool_id t, t)) (t # ts),
      tools_by_name = tools_by_name r @ map (\<lambda>t. (tool_name t, tool_id t)) (t # ts)\<rparr>"
    using conjunct1 [OF ih] by (simp add: ok(3))
  with conjunct2 [OF ih] show ?case by blast
qed simp

lemma registry_build_ok:
  assumes "tool_registry_build codec ts = Ok r"
  shows "tools_by_id r = map (\<lambda>t. (tool_id t, t)) ts" and "tools_by_name r = map (\<lambda>t. (tool_name t, tool_id t)) ts"
    and "distinct (map tool_id ts)" and "distinct (map tool_name ts)"
proof -
  have "for_each (register_tool codec) ts registry_empty = (None, r)"
    using assms by (auto simp: tool_registry_build_def split: prod.splits option.splits)
  from register_all [OF this] show "tools_by_id r = map (\<lambda>t. (tool_id t, t)) ts"
    and "tools_by_name r = map (\<lambda>t. (tool_name t, tool_id t)) ts"
    and "distinct (map tool_id ts)" and "distinct (map tool_name ts)"
    by (auto simp: registry_empty_def comp_def)
qed

lemma from_registered_eq:
  assumes "distinct (map tool_id ts)" and "distinct (map tool_name ts)"
  shows "from_registered ts = \<lparr>res_by_id = map (\<lambda>t. (tool_id t, t)) ts,
    res_by_name = map (\<lambda>t. (tool_name t, tool_id t)) ts, res_ordered = map tool_id ts\<rparr>"
  using assms
proof (induction ts rule: rev_induct)
  case Nil
  then show ?case by (simp add: from_registered_def)
next
  case (snoc t ts)
  then have "map_of (map (\<lambda>t. (tool_id t, t)) ts) (tool_id t) = None"
    "map_of (map (\<lambda>t. (tool_name t, tool_id t)) ts) (tool_name t) = None"
    by (auto simp: map_of_fst_None comp_def)
  with snoc show ?case by (simp add: from_registered_def resolve_tool_def assoc_put_append)
qed

lemma map_of_keyed:
  "distinct (map f ts) \<Longrightarrow> map_of (map (\<lambda>t. (f t, g t)) ts) k = Some v \<longleftrightarrow> (\<exists>t\<in>set ts. f t = k \<and> g t = v)"
  by (auto simp: map_of_eq_Some_iff comp_def)

lemma map_filter_keyed:
  "distinct (map f ts) \<Longrightarrow> set us \<subseteq> set ts \<Longrightarrow> List.map_filter (map_of (map (\<lambda>t. (f t, t)) ts)) (map f us) = us"
proof (induction us)
  case (Cons u us)
  then have "map_of (map (\<lambda>t. (f t, t)) ts) (f u) = Some u" by (auto simp: map_of_keyed)
  with Cons show ?case by simp
qed (simp add: List.map_filter_def)

section \<open>Properties\<close>

text \<open>
  A channel registry is built exactly from a non-empty list of bindings with distinct ids
  that all pass the capability matrix, and it then holds each binding under its id.
\<close>

theorem channel_registry_exact:
  "channel_registry_build bs = Ok m \<longleftrightarrow>
     bs \<noteq> [] \<and> list_all (\<lambda>b. channel_validate b = None) bs \<and> distinct (map bind_id bs) \<and>
     m = map (\<lambda>b. (bind_id b, b)) bs"
  using add_channels_iff [of bs "[]" m] by (auto simp: channel_registry_build_def list_all_iff)

text \<open>
  Tools are resolved faithfully: in the tool set of a transaction that selected distinct
  tools of a registry, a name leads exactly to the selected tool of that name, and the tools
  are listed in the order of the request.
\<close>

theorem resolved_tools_faithful:
  assumes "tool_registry_build codec ts = Ok r"
    and "distinct ids" and "list_all2 (\<lambda>i t. registry_get i r = Some t) ids sel"
  shows "resolved_tools (from_registered sel) = sel \<and>
    (get_by_name n (from_registered sel) = Some t \<longleftrightarrow> t \<in> set sel \<and> tool_name t = n)"
proof -
  note ok = registry_build_ok [OF assms(1)]
  have sel: "map tool_id sel = ids" "set sel \<subseteq> set ts"
    using assms(3) map_of_keyed [OF ok(3), of "\<lambda>t. t"]
    by (auto simp: registry_get_def ok(1) list_all2_conv_all_nth list_eq_iff_nth_eq in_set_conv_nth)
  have di: "distinct (map tool_id sel)" using assms(2) sel(1) by simp
  have dn: "distinct (map tool_name sel)"
    using di sel(2) ok(4) by (auto simp: distinct_map inj_on_def subset_iff)
  note eq = from_registered_eq [OF di dn]
  have "resolved_tools (from_registered sel) = sel"
    unfolding resolved_tools_def eq using map_filter_keyed [OF di] by simp
  moreover have "get_by_name n (from_registered sel) = Some t \<longleftrightarrow> t \<in> set sel \<and> tool_name t = n"
  proof -
    have "t = u" if "t \<in> set sel" "u \<in> set sel" "tool_id t = tool_id u" for t u
      using that di by (auto simp: distinct_map inj_on_def)
    then show ?thesis
      by (auto simp: get_by_name_def eq bind_eq_Some_conv map_of_keyed [OF dn] map_of_keyed [OF di, of "\<lambda>t. t"])
  qed
  ultimately show ?thesis by blast
qed

definition sample_tool :: "string \<Rightarrow> string \<Rightarrow> registered_tool" where
  "sample_tool i n =
     \<lparr>rt_spec = \<lparr>spec_id = i, spec_name = n, spec_description = [], input_schema = JObject [],
        output_contract = \<lparr>success_contract = TextSuccess ''text/plain'', error_data_schema = None\<rparr>,
        spec_limits = default_tool_limits, execution_class = CooperativeInProcess 1\<rparr>,
      os_process_isolated = False, supports_isolated_kill = False, runtime_owns_abortable_drive = False,
      supports_abort = False\<rparr>"

lemma sample_registry:
  "tool_registry_build ok_codec [sample_tool ''a'' ''find'', sample_tool ''b'' ''edit''] =
     Ok \<lparr>tools_by_id = [(''a'', sample_tool ''a'' ''find''), (''b'', sample_tool ''b'' ''edit'')],
         tools_by_name = [(''find'', ''a''), (''edit'', ''b'')]\<rparr>"
  by (simp add: tool_registry_build_def register_tool_def registry_empty_def class_error_def schema_len_def
      sample_tool_def ok_codec_def default_transaction_limits_def Let_def)

theorem resolved_tools_faithful_witness:
  "get_by_name ''edit'' (from_registered [sample_tool ''b'' ''edit'']) = Some (sample_tool ''b'' ''edit'')"
proof -
  have "list_all2 (\<lambda>i t. registry_get i \<lparr>tools_by_id = [(''a'', sample_tool ''a'' ''find''), (''b'', sample_tool ''b'' ''edit'')],
      tools_by_name = [(''find'', ''a''), (''edit'', ''b'')]\<rparr> = Some t) [''b''] [sample_tool ''b'' ''edit'']"
    by (simp add: registry_get_def)
  from resolved_tools_faithful [OF sample_registry _ this, of "''edit''" "sample_tool ''b'' ''edit''"]
  show ?thesis by (simp add: sample_tool_def)
qed

end
