(* ===== verification/Capacity.thy ===== *)
theory Capacity
  imports Assoc
begin

text \<open>
  \<open>crates/monoloop-loop/src/transaction/lifecycle/capacity.rs\<close>: the reservation pool that
  admission takes its permits from. Any number of threads call \<open>try_reserve\<close> and drop
  reservations at the same time; every atomic load, compare-exchange and subtraction is a
  step of its own, and steps of different threads interleave freely. The counters are
  integers, so that a subtraction below zero, which would wrap in the source, shows.
\<close>

section \<open>The pool\<close>

record channel_slot =
  slot_max :: int
  slot_active :: int

record reservation_pool =
  max_global :: int
  max_ledger :: int
  global_active :: int
  ledger_active :: int
  per_channel :: "(string \<times> channel_slot) list"

datatype reservation_pool_error = ZeroGlobal | ZeroChannel

fun pool_channels ::
  "(string \<times> nat) list \<Rightarrow> (string \<times> channel_slot) list \<Rightarrow> (reservation_pool_error, (string \<times> channel_slot) list) result" where
  "pool_channels [] acc = Ok acc"
| "pool_channels ((i, m) # cs) acc =
     (if m = 0 then Err ZeroChannel
      else pool_channels cs (assoc_put i \<lparr>slot_max = int m, slot_active = 0\<rparr> acc))"

definition pool_try_new ::
  "nat \<Rightarrow> (string \<times> nat) list \<Rightarrow> (reservation_pool_error, reservation_pool) result" where
  "pool_try_new m cs =
     (if m = 0 then Err ZeroGlobal
      else (case pool_channels cs [] of
              Inl e \<Rightarrow> Err e
            | Inr slots \<Rightarrow>
                Ok \<lparr>max_global = int m, max_ledger = int m, global_active = 0, ledger_active = 0,
                  per_channel = slots\<rparr>))"

definition channel_active :: "string \<Rightarrow> reservation_pool \<Rightarrow> int" where
  "channel_active c p = (case map_of (per_channel p) c of Some s \<Rightarrow> slot_active s | None \<Rightarrow> 0)"

definition put_channel_active :: "string \<Rightarrow> int \<Rightarrow> reservation_pool \<Rightarrow> reservation_pool" where
  "put_channel_active c n p =
     (case map_of (per_channel p) c of
        Some s \<Rightarrow> p\<lparr>per_channel := assoc_put c (s\<lparr>slot_active := n\<rparr>) (per_channel p)\<rparr>
      | None \<Rightarrow> p)"

section \<open>One thread\<close>

text \<open>
  Where a thread is in \<open>try_reserve\<close> and in the drops. A state that carries a number has
  loaded it and is about to compare-exchange. \<open>Held\<close> is a reservation bundle in use;
  \<open>DropLedger\<close> to \<open>DropGlobal\<close> are the three fields dropped in order.
\<close>

datatype reserve_pc =
    LookUp
  | LoadGlobal
  | CasGlobal int
  | LoadChannel
  | CasChannel int
  | LoadLedger
  | CasLedger int
  | UndoChannel
  | UndoGlobal
  | Held
  | DropLedger
  | DropChannel
  | DropGlobal
  | Refused
  | Released

fun reserve_step :: "string \<Rightarrow> reserve_pc \<Rightarrow> reservation_pool \<Rightarrow> (reserve_pc \<times> reservation_pool) option" where
  "reserve_step c LookUp p =
     Some (if map_of (per_channel p) c = None then Refused else LoadGlobal, p)"
| "reserve_step c LoadGlobal p =
     Some (if global_active p \<ge> max_global p then Refused else CasGlobal (global_active p), p)"
| "reserve_step c (CasGlobal g) p =
     (if global_active p = g then Some (LoadChannel, p\<lparr>global_active := g + 1\<rparr>) else Some (LoadGlobal, p))"
| "reserve_step c LoadChannel p =
     (case map_of (per_channel p) c of
        Some s \<Rightarrow> Some (if slot_active s \<ge> slot_max s then UndoGlobal else CasChannel (slot_active s), p)
      | None \<Rightarrow> None)"
| "reserve_step c (CasChannel n) p =
     (if channel_active c p = n then Some (LoadLedger, put_channel_active c (n + 1) p)
      else Some (LoadChannel, p))"
| "reserve_step c LoadLedger p =
     Some (if ledger_active p \<ge> max_ledger p then UndoChannel else CasLedger (ledger_active p), p)"
| "reserve_step c (CasLedger l) p =
     (if ledger_active p = l then Some (Held, p\<lparr>ledger_active := l + 1\<rparr>) else Some (LoadLedger, p))"
| "reserve_step c UndoChannel p = Some (UndoGlobal, put_channel_active c (channel_active c p - 1) p)"
| "reserve_step c UndoGlobal p = Some (Refused, p\<lparr>global_active := global_active p - 1\<rparr>)"
| "reserve_step c Held p = Some (DropLedger, p)"
| "reserve_step c DropLedger p = Some (DropChannel, p\<lparr>ledger_active := ledger_active p - 1\<rparr>)"
| "reserve_step c DropChannel p = Some (DropGlobal, put_channel_active c (channel_active c p - 1) p)"
| "reserve_step c DropGlobal p = Some (Released, p\<lparr>global_active := global_active p - 1\<rparr>)"
| "reserve_step c Refused p = None"
| "reserve_step c Released p = None"

text \<open>A call with nobody else around, up to its result; the fuel is the number of steps.\<close>

fun reserve_run :: "nat \<Rightarrow> string \<Rightarrow> reserve_pc \<Rightarrow> reservation_pool \<Rightarrow> reserve_pc \<times> reservation_pool" where
  "reserve_run 0 c pc p = (pc, p)"
| "reserve_run (Suc n) c pc p =
     (if pc = Held then (pc, p)
      else (case reserve_step c pc p of Some (pc', p') \<Rightarrow> reserve_run n c pc' p' | None \<Rightarrow> (pc, p)))"

section \<open>All threads\<close>

type_synonym pool_threads = "(string \<times> reserve_pc) list"

inductive pool_step :: "reservation_pool \<times> pool_threads \<Rightarrow> reservation_pool \<times> pool_threads \<Rightarrow> bool" where
  run: "i < length ts \<Longrightarrow> ts ! i = (c, pc) \<Longrightarrow> reserve_step c pc p = Some (pc', p') \<Longrightarrow>
    pool_step (p, ts) (p', ts[i := (c, pc')])"
| call: "pool_step (p, ts) (p, ts @ [(c, LookUp)])"

inductive pool_reachable :: "reservation_pool \<Rightarrow> reservation_pool \<times> pool_threads \<Rightarrow> bool" for p0 where
  start: "pool_reachable p0 (p0, [])"
| step: "pool_reachable p0 s \<Longrightarrow> pool_step s s' \<Longrightarrow> pool_reachable p0 s'"

inductive_cases pool_stepE: "pool_step (p, ts) s'"

section \<open>Permits held\<close>

fun has_global :: "reserve_pc \<Rightarrow> bool" where
  "has_global LoadChannel = True"
| "has_global (CasChannel _) = True"
| "has_global LoadLedger = True"
| "has_global (CasLedger _) = True"
| "has_global UndoChannel = True"
| "has_global UndoGlobal = True"
| "has_global Held = True"
| "has_global DropLedger = True"
| "has_global DropChannel = True"
| "has_global DropGlobal = True"
| "has_global _ = False"

fun has_channel :: "reserve_pc \<Rightarrow> bool" where
  "has_channel LoadLedger = True"
| "has_channel (CasLedger _) = True"
| "has_channel UndoChannel = True"
| "has_channel Held = True"
| "has_channel DropLedger = True"
| "has_channel DropChannel = True"
| "has_channel _ = False"

fun has_ledger :: "reserve_pc \<Rightarrow> bool" where
  "has_ledger Held = True"
| "has_ledger DropLedger = True"
| "has_ledger _ = False"

definition holders :: "(string \<times> reserve_pc \<Rightarrow> bool) \<Rightarrow> pool_threads \<Rightarrow> int" where
  "holders q ts = int (length (filter q ts))"

definition channel_max :: "string \<Rightarrow> reservation_pool \<Rightarrow> int option" where
  "channel_max c p = map_option slot_max (map_of (per_channel p) c)"

text \<open>What a thread knows: the numbers it loaded were below the maximum, and its channel exists.\<close>

fun pc_ok :: "reservation_pool \<Rightarrow> string \<times> reserve_pc \<Rightarrow> bool" where
  "pc_ok p (c, CasGlobal g) \<longleftrightarrow> channel_max c p \<noteq> None \<and> g < max_global p"
| "pc_ok p (c, CasChannel n) \<longleftrightarrow> (case channel_max c p of Some m \<Rightarrow> n < m | None \<Rightarrow> False)"
| "pc_ok p (c, CasLedger l) \<longleftrightarrow> channel_max c p \<noteq> None \<and> l < max_ledger p"
| "pc_ok p (c, LookUp) \<longleftrightarrow> True"
| "pc_ok p (c, Refused) \<longleftrightarrow> True"
| "pc_ok p (c, Released) \<longleftrightarrow> True"
| "pc_ok p (c, _) \<longleftrightarrow> channel_max c p \<noteq> None"

definition channel_holders :: "string \<Rightarrow> pool_threads \<Rightarrow> int" where
  "channel_holders c = holders (\<lambda>x. fst x = c \<and> has_channel (snd x))"

definition pool_inv :: "reservation_pool \<times> pool_threads \<Rightarrow> bool" where
  "pool_inv s \<longleftrightarrow>
     (case s of (p, ts) \<Rightarrow>
        list_all (pc_ok p) ts \<and>
        global_active p = holders (has_global \<circ> snd) ts \<and> global_active p \<le> max_global p \<and>
        ledger_active p = holders (has_ledger \<circ> snd) ts \<and> ledger_active p \<le> max_ledger p \<and>
        (\<forall>c m. channel_max c p = Some m \<longrightarrow>
           channel_active c p = channel_holders c ts \<and> channel_holders c ts \<le> m))"

section \<open>The invariant\<close>

lemma holders_update:
  assumes "i < length ts" and "ts ! i = x"
  shows "holders q (ts[i := y]) = holders q ts - (if q x then 1 else 0) + (if q y then 1 else 0)"
  using assms
proof (induction ts arbitrary: i)
  case (Cons t ts)
  then show ?case by (cases i) (auto simp: holders_def)
qed simp

lemma holders_snoc: "\<not> q y \<Longrightarrow> holders q (ts @ [y]) = holders q ts"
  by (simp add: holders_def)

lemma put_channel_frame [simp, frame_simps]:
  "global_active (put_channel_active c n p) = global_active p"
  "ledger_active (put_channel_active c n p) = ledger_active p"
  "max_global (put_channel_active c n p) = max_global p"
  "max_ledger (put_channel_active c n p) = max_ledger p"
  "channel_max c' (put_channel_active c n p) = channel_max c' p"
  by (auto simp: put_channel_active_def channel_max_def map_of_assoc_put split: option.split)

lemma channel_active_put:
  "channel_max c p \<noteq> None \<Longrightarrow>
    channel_active c' (put_channel_active c n p) = (if c' = c then n else channel_active c' p)"
  by (auto simp: put_channel_active_def channel_active_def channel_max_def map_of_assoc_put split: option.split)

lemma channel_frame [simp, frame_simps]:
  "channel_max c (p\<lparr>global_active := n\<rparr>) = channel_max c p"
  "channel_max c (p\<lparr>ledger_active := n\<rparr>) = channel_max c p"
  "channel_active c (p\<lparr>global_active := n\<rparr>) = channel_active c p"
  "channel_active c (p\<lparr>ledger_active := n\<rparr>) = channel_active c p"
  by (simp_all add: channel_max_def channel_active_def)

lemma pc_ok_shape:
  assumes "max_global p' = max_global p" and "max_ledger p' = max_ledger p"
    and "\<And>c. channel_max c p' = channel_max c p"
  shows "pc_ok p' = pc_ok p"
proof
  fix x
  show "pc_ok p' x = pc_ok p x" using assms by (cases "(p, x)" rule: pc_ok.cases) simp_all
qed

lemma reserve_step_shape:
  assumes "reserve_step c pc p = Some (pc', p')"
  shows "max_global p' = max_global p" and "max_ledger p' = max_ledger p"
    and "channel_max d p' = channel_max d p"
  using assms by (cases pc; auto split: if_splits option.splits)+

lemma load_channel:
  "reserve_step c LoadChannel p =
     (case channel_max c p of
        Some m \<Rightarrow> Some (if channel_active c p \<ge> m then UndoGlobal else CasChannel (channel_active c p), p)
      | None \<Rightarrow> None)"
  by (auto simp: channel_max_def channel_active_def split: option.split)

lemma reserve_step_pc_ok:
  assumes "reserve_step c pc p = Some (pc', p')" and "pc_ok p (c, pc)"
  shows "pc_ok p' (c, pc')"
proof -
  have "pc_ok p (c, pc')"
    using assms
    by (cases pc) (auto simp: load_channel channel_max_def simp del: reserve_step.simps(4)
        split: if_splits option.splits)
  then show ?thesis
    using pc_ok_shape [OF reserve_step_shape [OF assms(1)]] by simp
qed

text \<open>What one step does to the three counters and to the permits of the thread.\<close>

lemma reserve_step_global:
  assumes "reserve_step c pc p = Some (pc', p')" and "pc_ok p (c, pc)" and "global_active p \<le> max_global p"
  shows "global_active p' = global_active p - (if has_global pc then 1 else 0) + (if has_global pc' then 1 else 0)
    \<and> global_active p' \<le> max_global p'"
  using assms by (cases pc) (auto split: if_splits option.splits)

lemma reserve_step_ledger:
  assumes "reserve_step c pc p = Some (pc', p')" and "pc_ok p (c, pc)" and "ledger_active p \<le> max_ledger p"
  shows "ledger_active p' = ledger_active p - (if has_ledger pc then 1 else 0) + (if has_ledger pc' then 1 else 0)
    \<and> ledger_active p' \<le> max_ledger p'"
  using assms by (cases pc) (auto split: if_splits option.splits)

lemma reserve_step_channel:
  assumes "reserve_step c pc p = Some (pc', p')" and "pc_ok p (c, pc)"
    and "channel_max d p = Some m" and "channel_active d p \<le> m"
  shows "channel_active d p' = channel_active d p
      - (if c = d \<and> has_channel pc then 1 else 0) + (if c = d \<and> has_channel pc' then 1 else 0)
    \<and> channel_active d p' \<le> m"
  using assms by (cases pc) (auto simp: channel_active_put split: if_splits option.splits)

lemma pool_inv_step:
  assumes "pool_inv s" and "pool_step s s'"
  shows "pool_inv s'"
  using assms(2)
proof cases
  case (run i ts c pc p pc' p')
  have inv: "list_all (pc_ok p) ts" "global_active p = holders (has_global \<circ> snd) ts"
    "global_active p \<le> max_global p" "ledger_active p = holders (has_ledger \<circ> snd) ts"
    "ledger_active p \<le> max_ledger p"
    and chan: "\<And>d m. channel_max d p = Some m \<Longrightarrow>
      channel_active d p = channel_holders d ts \<and> channel_holders d ts \<le> m"
    using assms(1) run(1) by (auto simp: pool_inv_def)
  have ok: "pc_ok p (c, pc)" using inv(1) run(3,4) by (metis list_all_length)
  note upd = holders_update [OF run(3,4)]
  have "list_all (pc_ok p') (ts[i := (c, pc')])"
    using inv(1) reserve_step_pc_ok [OF run(5) ok] pc_ok_shape [OF reserve_step_shape [OF run(5)]]
    by (auto simp: list_all_iff dest!: set_update_subset_insert [THEN subsetD])
  moreover have "channel_active d p' = channel_holders d (ts[i := (c, pc')]) \<and> channel_holders d (ts[i := (c, pc')]) \<le> m"
    if "channel_max d p' = Some m" for d m
    using reserve_step_channel [OF run(5) ok, of d m] chan [of d m] that reserve_step_shape(3) [OF run(5), of d]
    by (simp add: channel_holders_def upd)
  ultimately show ?thesis
    using reserve_step_global [OF run(5) ok inv(3)] reserve_step_ledger [OF run(5) ok inv(5)] inv
    unfolding run(2) by (simp add: pool_inv_def upd)
next
  case (call p ts c)
  then show ?thesis
    using assms(1) by (simp add: pool_inv_def holders_snoc channel_holders_def)
qed

lemma pool_channels_zero:
  assumes "pool_channels cs acc = Ok slots" and "list_all (\<lambda>(_, s). slot_active s = 0 \<and> 0 < slot_max s) acc"
  shows "list_all (\<lambda>(_, s). slot_active s = 0 \<and> 0 < slot_max s) slots"
  using assms
  by (induction cs acc rule: pool_channels.induct) (simp_all add: assoc_put_all split: if_splits)

lemma pool_inv_start:
  assumes "pool_try_new m cs = Ok p"
  shows "pool_inv (p, [])" and "max_global p = int m" and "max_ledger p = int m"
proof -
  obtain slots where s: "pool_channels cs [] = Ok slots"
    and p: "p = \<lparr>max_global = int m, max_ledger = int m, global_active = 0, ledger_active = 0, per_channel = slots\<rparr>"
    using assms by (auto simp: pool_try_new_def split: if_splits sum.splits)
  have z: "slot_active x = 0 \<and> 0 < slot_max x" if "map_of slots c = Some x" for c x
    using map_of_list_all [OF that pool_channels_zero [OF s]] by simp
  then show "pool_inv (p, [])"
    by (fastforce simp: pool_inv_def p holders_def channel_holders_def channel_max_def channel_active_def)
  show "max_global p = int m" "max_ledger p = int m" by (simp_all add: p)
qed

lemma pool_step_shape:
  assumes "pool_step s s'"
  shows "max_global (fst s') = max_global (fst s)" and "max_ledger (fst s') = max_ledger (fst s)"
    and "channel_max c (fst s') = channel_max c (fst s)"
  using assms by (cases; auto dest: reserve_step_shape)+

lemma pool_reachable_inv:
  assumes "pool_try_new m cs = Ok p0" and "pool_reachable p0 s"
  shows "pool_inv s" and "max_global (fst s) = int m" and "max_ledger (fst s) = int m"
    and "channel_max c (fst s) = channel_max c p0"
  using assms(2)
  by (induction; use pool_inv_start [OF assms(1)] in \<open>auto intro: pool_inv_step simp: pool_step_shape\<close>)+

lemma holders_mono: "(\<And>x. q x \<Longrightarrow> r x) \<Longrightarrow> holders q ts \<le> holders r ts"
  by (induction ts) (auto simp: holders_def)

lemma holders_strict:
  assumes "\<And>x. q x \<Longrightarrow> r x" and "x \<in> set ts" and "r x" and "\<not> q x"
  shows "holders q ts < holders r ts"
  using assms(2)
proof (induction ts)
  case (Cons t ts)
  have "holders q ts \<le> holders r ts" using assms(1) by (rule holders_mono)
  with Cons assms show ?case by (auto simp: holders_def)
qed simp

lemma holders_nonneg: "0 \<le> holders q ts"
  by (simp add: holders_def)

definition at_rest :: "string \<times> reserve_pc \<Rightarrow> bool" where
  "at_rest x \<longleftrightarrow> snd x = Refused \<or> snd x = Released"

lemma holders_at_rest: "list_all at_rest ts \<Longrightarrow> (\<And>x. at_rest x \<Longrightarrow> \<not> q x) \<Longrightarrow> holders q ts = 0"
  by (auto simp: holders_def list_all_iff filter_empty_conv)

text \<open>
  A thread about to take its ledger slot holds a global permit and no ledger slot, so fewer
  ledger slots than global permits are taken, and there is room.
\<close>

lemma ledger_has_room:
  assumes "pool_inv (p, ts)" and "max_ledger p = max_global p" and "(c, LoadLedger) \<in> set ts"
  shows "ledger_active p < max_ledger p"
proof -
  have "holders (has_ledger \<circ> snd) ts < holders (has_global \<circ> snd) ts"
  proof (rule holders_strict [where x = "(c, LoadLedger)"])
    show "(has_ledger \<circ> snd) x \<Longrightarrow> (has_global \<circ> snd) x" for x by (cases "snd x") auto
  qed (use assms(3) in auto)
  then show ?thesis using assms(1,2) by (auto simp: pool_inv_def)
qed

lemma no_undo_channel:
  assumes "pool_try_new m cs = Ok p0" and "pool_reachable p0 s"
  shows "(c, UndoChannel) \<notin> set (snd s)"
  using assms(2)
proof induction
  case (step s s')
  note r = pool_reachable_inv [OF assms(1) step.hyps(1)]
  show ?case
    using step.hyps(2)
  proof cases
    case (run i ts d pc p pc' p')
    have "(d, pc) \<in> set ts" using run(3,4) nth_mem by fastforce
    then have "pc' \<noteq> UndoChannel"
      using run(5) ledger_has_room [of p ts d] r(1-3) run(1)
      by (cases pc) (auto split: if_splits option.splits)
    then show ?thesis
      using step.IH run(1,2) by (auto dest!: set_update_subset_insert [THEN subsetD])
  next
    case (call p ts d)
    then show ?thesis using step.IH by simp
  qed
qed simp

section \<open>Properties\<close>

text \<open>
  C21. However many threads reserve and release at the same time and however their atomic steps
  interleave, the limits hold at every moment: no more than the global maximum of
  reservations is held, no more than its own maximum on any channel, and no counter ever
  leaves the range from zero to its maximum, so none wraps.
\<close>

theorem reservations_within_limits:
  assumes "pool_try_new m cs = Ok p0" and "pool_reachable p0 (p, ts)"
  shows "holders (\<lambda>x. snd x = Held) ts \<le> int m \<and>
    0 \<le> global_active p \<and> global_active p \<le> int m \<and> 0 \<le> ledger_active p \<and> ledger_active p \<le> int m \<and>
    (case channel_max c p0 of
       Some k \<Rightarrow> holders (\<lambda>x. fst x = c \<and> snd x = Held) ts \<le> k \<and>
         0 \<le> channel_active c p \<and> channel_active c p \<le> k
     | None \<Rightarrow> True)"
proof -
  note r = pool_reachable_inv [OF assms]
  have inv: "pool_inv (p, ts)" by (rule r)
  have "holders (\<lambda>x. snd x = Held) ts \<le> holders (has_global \<circ> snd) ts"
    by (rule holders_mono) auto
  moreover have "holders (\<lambda>x. fst x = c \<and> snd x = Held) ts \<le> channel_holders c ts"
    unfolding channel_holders_def by (rule holders_mono) auto
  ultimately show ?thesis
    using inv r(2,3) r(4) [of c] holders_nonneg
    by (auto simp: pool_inv_def channel_holders_def split: option.split intro: order_trans)
qed

definition two_threads :: "reservation_pool \<Rightarrow> reservation_pool \<times> pool_threads" where
  "two_threads p = (p\<lparr>global_active := 1\<rparr>, [(''c'', CasGlobal 0), (''c'', LoadChannel)])"

theorem reservations_within_limits_witness:
  "\<exists>p0 p ts. pool_try_new 1 [(''c'', 1)] = Ok p0 \<and> pool_reachable p0 (p, ts) \<and>
     length ts = 2 \<and> global_active p = 1 \<and> holders (\<lambda>x. snd x = Held) ts \<le> 1"
proof -
  obtain p0 where p0: "pool_try_new 1 [(''c'', 1)] = Ok p0"
    and v: "global_active p0 = 0" "max_global p0 = 1" "map_of (per_channel p0) ''c'' \<noteq> None"
    by (simp add: pool_try_new_def)
  note st = pool_reachable.step
  have "pool_reachable p0 (p0, [(''c'', LookUp)])"
    using st [OF pool_reachable.start call [of p0 "[]" "''c''"]] by simp
  from st [OF this call [of _ _ "''c''"]] have "pool_reachable p0 (p0, [(''c'', LookUp), (''c'', LookUp)])"
    by simp
  from st [OF this run [of 0 _ "''c''" LookUp _ LoadGlobal p0]]
  have "pool_reachable p0 (p0, [(''c'', LoadGlobal), (''c'', LookUp)])" using v by simp
  from st [OF this run [of 1 _ "''c''" LookUp _ LoadGlobal p0]]
  have "pool_reachable p0 (p0, [(''c'', LoadGlobal), (''c'', LoadGlobal)])" using v by simp
  from st [OF this run [of 0 _ "''c''" LoadGlobal _ "CasGlobal 0" p0]]
  have "pool_reachable p0 (p0, [(''c'', CasGlobal 0), (''c'', LoadGlobal)])" using v by simp
  from st [OF this run [of 1 _ "''c''" LoadGlobal _ "CasGlobal 0" p0]]
  have "pool_reachable p0 (p0, [(''c'', CasGlobal 0), (''c'', CasGlobal 0)])" using v by simp
  from st [OF this run [of 1 _ "''c''" "CasGlobal 0" _ LoadChannel "p0\<lparr>global_active := 1\<rparr>"]]
  have r: "pool_reachable p0 (two_threads p0)" using v by (simp add: two_threads_def)
  show ?thesis
    using p0 r reservations_within_limits [OF p0 r [unfolded two_threads_def]]
    unfolding two_threads_def by (intro exI [of _ p0] exI) auto
qed

text \<open>
  Permits do not leak: once every call has been refused or its reservation dropped, all
  counters are back at zero. And the ledger slot, which has the same maximum as the global
  one and is taken last, is never the reason for a refusal.
\<close>

theorem permits_do_not_leak:
  assumes "pool_try_new m cs = Ok p0" and "pool_reachable p0 (p, ts)"
  shows "(c, UndoChannel) \<notin> set ts \<and>
    (list_all at_rest ts \<longrightarrow> global_active p = 0 \<and> ledger_active p = 0 \<and> channel_active c p = 0)"
proof -
  note r = pool_reachable_inv [OF assms]
  have inv: "pool_inv (p, ts)" by (rule r)
  have "(c, UndoChannel) \<notin> set ts" using no_undo_channel [OF assms(1) assms(2), of c] by simp
  moreover have "channel_active c p = 0" if "list_all at_rest ts"
  proof (cases "channel_max c p")
    case None
    then show ?thesis by (simp add: channel_max_def channel_active_def)
  next
    case (Some k)
    have "channel_holders c ts = 0"
      unfolding channel_holders_def by (rule holders_at_rest [OF that]) (auto simp: at_rest_def)
    then show ?thesis using inv Some by (auto simp: pool_inv_def)
  qed
  moreover have "global_active p = 0 \<and> ledger_active p = 0" if "list_all at_rest ts"
  proof -
    have "holders (has_global \<circ> snd) ts = 0" "holders (has_ledger \<circ> snd) ts = 0"
      by (rule holders_at_rest [OF that]; auto simp: at_rest_def)+
    then show ?thesis using inv by (simp add: pool_inv_def)
  qed
  ultimately show ?thesis by blast
qed

theorem permits_do_not_leak_witness:
  "\<exists>p0. pool_try_new 1 [] = Ok p0 \<and> pool_reachable p0 (p0, [(''c'', Refused)]) \<and>
     list_all at_rest [(''c'', Refused)] \<and> global_active p0 = 0 \<and> ledger_active p0 = 0"
proof -
  obtain p0 where p0: "pool_try_new 1 [] = Ok p0" and v: "per_channel p0 = []"
    by (simp add: pool_try_new_def)
  note st = pool_reachable.step
  have "pool_reachable p0 (p0, [(''c'', LookUp)])"
    using st [OF pool_reachable.start call [of p0 "[]" "''c''"]] by simp
  from st [OF this run [of 0 _ "''c''" LookUp _ Refused p0]]
  have r: "pool_reachable p0 (p0, [(''c'', Refused)])" using v by simp
  have rest: "list_all at_rest [(''c'', Refused)]" by (simp add: at_rest_def)
  show ?thesis
    using p0 r rest permits_do_not_leak [OF p0 r, of "''c''"] by blast
qed

definition room :: "string \<Rightarrow> reservation_pool \<Rightarrow> bool" where
  "room c p \<longleftrightarrow>
     (case channel_max c p of Some m \<Rightarrow> channel_active c p < m | None \<Rightarrow> False) \<and>
     global_active p < max_global p \<and> ledger_active p < max_ledger p"

lemma put_channel_undo:
  "put_channel_active c (channel_active c p) (put_channel_active c n p) = p"
  by (auto simp: put_channel_active_def channel_active_def map_of_assoc_put assoc_put_twice assoc_put_same
      split: option.split)

lemma reserve_alone:
  "reserve_run 8 c LookUp p =
     (if room c p
      then (Held, put_channel_active c (channel_active c p + 1)
        (p\<lparr>global_active := global_active p + 1, ledger_active := ledger_active p + 1\<rparr>))
      else (Refused, p))"
proof -
  have e: "reserve_run 8 c LookUp p = reserve_run (Suc (Suc (Suc (Suc (Suc (Suc (Suc (Suc 0)))))))) c LookUp p"
    by (simp add: eval_nat_numeral)
  have gp: "put_channel_active c n (q\<lparr>global_active := g, ledger_active := l\<rparr>)
      = (put_channel_active c n q)\<lparr>global_active := g, ledger_active := l\<rparr>"
    "put_channel_active c n (q\<lparr>global_active := g\<rparr>) = (put_channel_active c n q)\<lparr>global_active := g\<rparr>" for n g l q
    by (auto simp: put_channel_active_def split: option.split)
  show ?thesis
  proof (cases "channel_max c p")
    case None
    then show ?thesis unfolding e by (simp add: room_def channel_max_def)
  next
    case (Some m)
    then have n: "map_of (per_channel p) c \<noteq> None" by (auto simp: channel_max_def)
    have l: "reserve_step c LoadChannel (p\<lparr>global_active := g\<rparr>) =
        Some (if channel_active c p \<ge> m then UndoGlobal else CasChannel (channel_active c p), p\<lparr>global_active := g\<rparr>)" for g
      using Some unfolding load_channel by simp
    show ?thesis
      unfolding e
      using Some n put_channel_undo [of c p]
      by (auto simp: room_def l channel_active_put gp simp del: reserve_step.simps(4))
  qed
qed

text \<open>
  C35. A call that runs alone gives its answer within eight steps: it obtains the bundle exactly
  when the channel exists and global, channel and ledger counts are all below their maxima,
  and a refused call leaves the pool as it was.
\<close>

theorem try_reserve_alone:
  "reserve_run 8 c LookUp p =
     (if room c p
      then (Held, put_channel_active c (channel_active c p + 1)
        (p\<lparr>global_active := global_active p + 1, ledger_active := ledger_active p + 1\<rparr>))
      else (Refused, p))"
  by (rule reserve_alone)

end
