(* ===== verification/Admission.thy ===== *)
theory Admission
  imports Ledger Registry Capacity
begin

text \<open>
  \<open>crates/monoloop-loop/src/transaction/lifecycle/admission.rs\<close>: the synchronous admission
  of a transaction: validation, reservation, the ledger section under its lock, and the
  rollback when the start queue is full. Between the reservation and the lock other threads
  may run; \<open>meanwhile\<close> is what they do to the shared state, the identity when nobody does
  anything. The generated transaction id is an argument.
\<close>

section \<open>Shared state\<close>

datatype runtime_state = Starting | Accepting | Quiescing | Stopped

record runtime_shared =
  sh_state :: runtime_state
  sh_ledger :: lifecycle_ledger
  sh_pool :: reservation_pool
  start_queue :: "string list"
  start_capacity :: nat
  start_closed :: bool
  sh_limits :: transaction_limits

record submit_request =
  sub_channel :: string
  sub_session :: "string option"
  sub_input :: "canonical_message list"
  sub_session_config :: "session_config option"
  sub_invocation :: invocation_config
  sub_tools :: "string list"
  sub_delivery :: delivery_capacities

record admission_env =
  adm_codec :: json_codec
  adm_channels :: "(string \<times> channel_binding) list"
  adm_tools :: host_tool_registry
  adm_max_tools :: nat

section \<open>Validation\<close>

definition rejects_creation_only_tool_reuse :: "admission_env \<Rightarrow> string \<Rightarrow> bool" where
  "rejects_creation_only_tool_reuse env c =
     (case map_of (adm_channels env) c of
        Some b \<Rightarrow> bind_tool_mode b = McpGateway \<and> mcp_configuration (bind_capabilities b) = CreationOnly
      | None \<Rightarrow> False)"

definition max_distinct_sessions :: "admission_env \<Rightarrow> string \<Rightarrow> nat option" where
  "max_distinct_sessions env c =
     map_option (\<lambda>b. ch_max_distinct_sessions (bind_limits b)) (map_of (adm_channels env) c)"

definition defaults_and_policy :: "admission_env \<Rightarrow> string \<Rightarrow> (channel_defaults \<times> option_policy) option" where
  "defaults_and_policy env c =
     map_option (\<lambda>b. (bind_defaults b, cap_option_policy (bind_capabilities b))) (map_of (adm_channels env) c)"

definition check_input :: "json_codec \<Rightarrow> transaction_limits \<Rightarrow> canonical_message list \<Rightarrow> admission_error option" where
  "check_input codec l ms =
     (if length ms > max_messages l
      then Some (admission_error_new InvalidInput ''message count exceeds max_messages'')
      else if list_ex (\<lambda>m. length (message_parts m) > max_content_parts l) ms
      then Some (admission_error_new InvalidInput ''content parts exceed max_content_parts'')
      else (case estimate_canonical_input_bytes codec ms of
              Inr n \<Rightarrow>
                if n > max_input_bytes l
                then Some (admission_error_new InvalidInput ''canonical input exceeds max_input_bytes'')
                else None
            | Inl _ \<Rightarrow> Some (admission_error_new InvalidInput ''canonical input byte estimate failed'')))"

definition check_tool :: "host_tool_registry \<Rightarrow> string \<Rightarrow> string list \<Rightarrow> (admission_error, string list) outcome" where
  "check_tool tools i seen =
     (if i \<in> set seen then (Some (admission_error_new DuplicateTool ''duplicate tool id''), seen)
      else if registry_get i tools = None then (Some (admission_error_new UnknownTool ''unknown tool id''), seen)
      else (None, seen @ [i]))"

definition check_tools :: "host_tool_registry \<Rightarrow> nat \<Rightarrow> string list \<Rightarrow> admission_error option" where
  "check_tools tools n ids =
     (if length ids > n then Some (admission_error_new InvalidConfiguration ''too many tools'')
      else fst (for_each (check_tool tools) ids []))"

text \<open>
  The text of a configuration error in an admission error is the \<open>Display\<close> of the source's
  error type; only its kind is modelled here, as \<open>InvalidConfiguration\<close>.
\<close>

definition check_config ::
  "admission_env \<Rightarrow> (config_error \<Rightarrow> string) \<Rightarrow> submit_request \<Rightarrow> (admission_error, effective_config) result" where
  "check_config env show_error r =
     (case defaults_and_policy env (sub_channel r) of
        None \<Rightarrow> Err (admission_error_new UnknownChannel ''unknown channel'')
      | Some (d, p) \<Rightarrow>
          (case merge_effective_config (adm_codec env) d (sub_session_config r) None (sub_invocation r) p
                  default_extension_limits of
             Inl e \<Rightarrow> Err (admission_error_new InvalidConfiguration (show_error e))
           | Inr eff \<Rightarrow>
               if eff_deadline eff = Some 0
               then Err (admission_error_new InvalidConfiguration ''invocation deadline must be non-zero'')
               else Ok eff))"

definition admit_checks ::
  "admission_env \<Rightarrow> (config_error \<Rightarrow> string) \<Rightarrow> transaction_limits \<Rightarrow> submit_request \<Rightarrow> (admission_error, effective_config) result" where
  "admit_checks env show_error l r =
     (if map_of (adm_channels env) (sub_channel r) = None
      then Err (admission_error_new UnknownChannel ''unknown channel'')
      else if max_event_items (sub_delivery r) > max_event_queue l
      then Err (admission_error_new InvalidConfiguration ''delivery max_event_items exceeds max_event_queue'')
      else if max_event_bytes (sub_delivery r) > max_event_queue_bytes l
      then Err (admission_error_new InvalidConfiguration ''delivery max_event_bytes exceeds max_event_queue_bytes'')
      else (case check_input (adm_codec env) l (sub_input r) of
              Some e \<Rightarrow> Err e
            | None \<Rightarrow>
                (case check_tools (adm_tools env) (adm_max_tools env) (sub_tools r) of
                   Some e \<Rightarrow> Err e
                 | None \<Rightarrow>
                     if sub_session r \<noteq> None \<and> sub_tools r \<noteq> [] \<and> rejects_creation_only_tool_reuse env (sub_channel r)
                     then Err (admission_error_new CapabilityMismatch
                                 ''CreationOnly rejects tool-enabled existing-session reuse'')
                     else check_config env show_error r)))"

section \<open>The ledger section\<close>

text \<open>Dropping a reservation bundle: its three permits, in field order.\<close>

definition release :: "string \<Rightarrow> reservation_pool \<Rightarrow> reservation_pool" where
  "release c p =
     (let p = p\<lparr>ledger_active := ledger_active p - 1\<rparr>;
          p = put_channel_active c (channel_active c p - 1) p
      in p\<lparr>global_active := global_active p - 1\<rparr>)"

definition drop_entry :: "ledger_entry \<Rightarrow> reservation_pool \<Rightarrow> reservation_pool" where
  "drop_entry e p = (case entry_reservation e of Some c \<Rightarrow> release c p | None \<Rightarrow> p)"

definition request_session_key :: "submit_request \<Rightarrow> session_key option" where
  "request_session_key r = map_option (\<lambda>s. \<lparr>key_channel = sub_channel r, key_session = s\<rparr>) (sub_session r)"

definition queued_entry :: "string \<Rightarrow> effective_config \<Rightarrow> submit_request \<Rightarrow> ledger_entry" where
  "queued_entry tx eff r =
     \<lparr>entry_id = tx, entry_channel = sub_channel r, entry_session = request_session_key r,
      entry_phase = Queued, entry_terminal = None, pending_worker_proposal = None, event_sequence = 0,
      entry_delivery = Some (sub_delivery r), has_completion_tx = False, has_publisher_cmd_tx = False,
      has_publisher_seal_tx = False, entry_input = sub_input r, entry_invocation = sub_invocation r,
      entry_session_config = sub_session_config r, entry_effective = eff, entry_tools = sub_tools r,
      entry_reservation = Some (sub_channel r), cancel_requested = False, entry_usage = default_usage,
      diagnostic_count = 0\<rparr>"

fun ledger_error_kind :: "ledger_insert_error \<Rightarrow> admission_error_kind" where
  "ledger_error_kind LedgerSessionActive = SessionAlreadyActive"
| "ledger_error_kind _ = CapacityExceeded"

definition try_send_start :: "string \<Rightarrow> runtime_shared \<Rightarrow> bool \<times> runtime_shared" where
  "try_send_start tx sh =
     (if start_closed sh \<or> length (start_queue sh) \<ge> start_capacity sh then (False, sh)
      else (True, sh\<lparr>start_queue := start_queue sh @ [tx]\<rparr>))"

definition admit_locked ::
  "admission_env \<Rightarrow> string \<Rightarrow> effective_config \<Rightarrow> submit_request \<Rightarrow> runtime_shared
    \<Rightarrow> (admission_error, admission_receipt) result \<times> runtime_shared" where
  "admit_locked env tx eff r sh =
     (let released = sh\<lparr>sh_pool := release (sub_channel r) (sh_pool sh)\<rparr>
      in if sh_state sh \<noteq> Accepting
         then (Err (admission_error_new RuntimeShuttingDown ''runtime not accepting''), released)
         else if (case request_session_key r of Some k \<Rightarrow> session_active k (sh_ledger sh) | None \<Rightarrow> False)
         then (Err (admission_error_new SessionAlreadyActive ''session already active''), released)
         else (case insert_queued (queued_entry tx eff r) (max_distinct_sessions env (sub_channel r)) (sh_ledger sh) of
                 (Some e, _) \<Rightarrow> (Err (admission_error_new (ledger_error_kind e) ''ledger insert failed''), released)
               | (None, L) \<Rightarrow>
                   (case try_send_start tx (sh\<lparr>sh_ledger := L\<rparr>) of
                      (True, sh) \<Rightarrow> (Ok \<lparr>receipt_transaction = tx, receipt_session = sub_session r\<rparr>, sh)
                    | (False, sh) \<Rightarrow>
                        (case ledger_remove tx (sh_ledger sh) of
                           (Some e, L) \<Rightarrow>
                             (Err (admission_error_new SpawnFailed ''supervisor start queue full''),
                              sh\<lparr>sh_ledger := L, sh_pool := drop_entry e (sh_pool sh)\<rparr>)
                         | (None, L) \<Rightarrow>
                             (Err (admission_error_new SpawnFailed ''supervisor start queue full''), sh)))))"

definition admit ::
  "admission_env \<Rightarrow> (config_error \<Rightarrow> string) \<Rightarrow> (runtime_shared \<Rightarrow> runtime_shared) \<Rightarrow> string \<Rightarrow> submit_request
    \<Rightarrow> runtime_shared \<Rightarrow> (admission_error, admission_receipt) result \<times> runtime_shared" where
  "admit env show_error meanwhile tx r sh =
     (if sh_state sh \<noteq> Accepting
      then (Err (admission_error_new RuntimeShuttingDown ''runtime not accepting''), sh)
      else (case admit_checks env show_error (sh_limits sh) r of
              Inl e \<Rightarrow> (Err e, sh)
            | Inr eff \<Rightarrow>
                (case reserve_run 8 (sub_channel r) LookUp (sh_pool sh) of
                   (Held, p) \<Rightarrow> admit_locked env tx eff r (meanwhile (sh\<lparr>sh_pool := p\<rparr>))
                 | (_, p) \<Rightarrow> (Err (admission_error_new CapacityExceeded ''capacity exceeded''), sh\<lparr>sh_pool := p\<rparr>))))"

section \<open>Reservation and rollback undo each other\<close>

definition reserved :: "string \<Rightarrow> reservation_pool \<Rightarrow> reservation_pool" where
  "reserved c p =
     put_channel_active c (channel_active c p + 1)
       (p\<lparr>global_active := global_active p + 1, ledger_active := ledger_active p + 1\<rparr>)"

lemma release_reserved: "room c p \<Longrightarrow> release c (reserved c p) = p"
proof -
  assume "room c p"
  then have m: "channel_max c p \<noteq> None" by (auto simp: room_def split: option.splits)
  have u: "put_channel_active c n (q\<lparr>global_active := g, ledger_active := l\<rparr>)
      = (put_channel_active c n q)\<lparr>global_active := g, ledger_active := l\<rparr>"
    "put_channel_active c n (q\<lparr>ledger_active := l\<rparr>) = (put_channel_active c n q)\<lparr>ledger_active := l\<rparr>"
    "put_channel_active c n (q\<lparr>global_active := g\<rparr>) = (put_channel_active c n q)\<lparr>global_active := g\<rparr>" for n g l q
    by (auto simp: put_channel_active_def split: option.split)
  show ?thesis
    using put_channel_undo [of c p] by (simp add: release_def reserved_def Let_def u channel_active_put m)
qed

lemma assoc_del_put: "map_of xs k = None \<Longrightarrow> assoc_del k (assoc_put k v xs) = xs"
  by (induction xs) (auto simp: assoc_del_def split: if_splits)

lemma insert_queued_ok:
  assumes "insert_queued e limit L = (None, L')"
  shows "map_of (by_transaction L) (entry_id e) = None"
    and "by_transaction L' = by_transaction L @ [(entry_id e, e)]"
    and "ledger_remove (entry_id e) L' = (Some e, L)"
proof -
  show n: "map_of (by_transaction L) (entry_id e) = None"
    using assms by (auto simp: insert_queued_def split: if_splits)
  show "by_transaction L' = by_transaction L @ [(entry_id e, e)]"
    using assms n by (auto simp: insert_queued_def assoc_put_append split: if_splits option.splits)
  show "ledger_remove (entry_id e) L' = (Some e, L)"
    using assms n
    by (auto simp: insert_queued_def ledger_remove_def session_active_def map_of_assoc_put assoc_del_put
        Let_def split: if_splits option.splits)
qed

lemma insert_queued_error: "insert_queued e limit L = (Some err, L') \<Longrightarrow> L' = L"
  by (auto simp: insert_queued_def split: if_splits option.splits)

text \<open>The ledger section, on every branch.\<close>

lemma admit_locked_cases:
  "case admit_locked env tx eff r sh of
     (Inl e, sh') \<Rightarrow> sh' = sh\<lparr>sh_pool := release (sub_channel r) (sh_pool sh)\<rparr>
   | (Inr rc, sh') \<Rightarrow>
       sh_state sh = Accepting \<and> rc = \<lparr>receipt_transaction = tx, receipt_session = sub_session r\<rparr> \<and>
       insert_queued (queued_entry tx eff r) (max_distinct_sessions env (sub_channel r)) (sh_ledger sh)
         = (None, sh_ledger sh') \<and>
       length (start_queue sh) < start_capacity sh \<and>
       sh' = sh\<lparr>sh_ledger := sh_ledger sh', start_queue := start_queue sh @ [tx]\<rparr>"
proof (cases "insert_queued (queued_entry tx eff r) (max_distinct_sessions env (sub_channel r)) (sh_ledger sh)")
  case (Pair e L)
  show ?thesis
  proof (cases e)
    case None
    note ok = insert_queued_ok [OF Pair [unfolded None]]
    have "ledger_remove tx L = (Some (queued_entry tx eff r), sh_ledger sh)"
      using ok(3) by (simp add: queued_entry_def)
    then show ?thesis
      using Pair None by (auto simp: admit_locked_def try_send_start_def drop_entry_def queued_entry_def Let_def)
  next
    case (Some err)
    with Pair show ?thesis by (auto simp: admit_locked_def Let_def)
  qed
qed

lemma admit_cases:
  "case admit env show_error id tx r sh of
     (Inl e, sh') \<Rightarrow> sh' = sh
   | (Inr rc, sh') \<Rightarrow>
       (\<exists>eff. admit_checks env show_error (sh_limits sh) r = Ok eff \<and> room (sub_channel r) (sh_pool sh) \<and>
         sh_state sh = Accepting \<and> rc = \<lparr>receipt_transaction = tx, receipt_session = sub_session r\<rparr> \<and>
         insert_queued (queued_entry tx eff r) (max_distinct_sessions env (sub_channel r)) (sh_ledger sh)
           = (None, sh_ledger sh') \<and>
         length (start_queue sh) < start_capacity sh \<and>
         sh' = sh\<lparr>sh_pool := reserved (sub_channel r) (sh_pool sh), sh_ledger := sh_ledger sh',
                   start_queue := start_queue sh @ [tx]\<rparr>)"
proof (cases "sh_state sh = Accepting \<and> room (sub_channel r) (sh_pool sh)")
  case False
  then show ?thesis
    using reserve_alone [of "sub_channel r" "sh_pool sh"] by (auto simp: admit_def split: sum.split)
next
  case True
  show ?thesis
  proof (cases "admit_checks env show_error (sh_limits sh) r")
    case (Inl e)
    with True show ?thesis by (simp add: admit_def)
  next
    case (Inr eff)
    then have "admit env show_error id tx r sh
        = admit_locked env tx eff r (sh\<lparr>sh_pool := reserved (sub_channel r) (sh_pool sh)\<rparr>)"
      using True reserve_alone [of "sub_channel r" "sh_pool sh"] by (simp add: admit_def reserved_def)
    then show ?thesis
      using admit_locked_cases [where env = env and tx = tx and eff = eff and r = r
          and sh = "sh\<lparr>sh_pool := reserved (sub_channel r) (sh_pool sh)\<rparr>"]
        release_reserved [of "sub_channel r" "sh_pool sh"] True Inr
      by (auto split: sum.splits prod.splits)
  qed
qed

section \<open>Every transaction in the ledger is paid for\<close>

text \<open>
  The runtime as a whole: admissions, transactions that end (their entry is removed and
  dropped), session bindings, changes of an entry that leave its identity alone, start
  commands that are taken from the queue, and changes of the runtime state.
\<close>

definition same_identity :: "(ledger_entry \<Rightarrow> ledger_entry) \<Rightarrow> bool" where
  "same_identity f \<longleftrightarrow>
     (\<forall>e. entry_channel (f e) = entry_channel e \<and> entry_reservation (f e) = entry_reservation e)"

inductive runtime_step ::
  "admission_env \<Rightarrow> (config_error \<Rightarrow> string) \<Rightarrow> runtime_shared \<Rightarrow> runtime_shared \<Rightarrow> bool" for env show_error where
  admission: "runtime_step env show_error sh (snd (admit env show_error id tx r sh))"
| ended: "ledger_remove tx (sh_ledger sh) = (Some e, L) \<Longrightarrow>
    runtime_step env show_error sh (sh\<lparr>sh_ledger := L, sh_pool := drop_entry e (sh_pool sh)\<rparr>)"
| bound: "runtime_step env show_error sh
    (sh\<lparr>sh_ledger := snd (bind_session tx k (max_distinct_sessions env (key_channel k)) (sh_ledger sh))\<rparr>)"
| changed: "same_identity f \<Longrightarrow> runtime_step env show_error sh
    (sh\<lparr>sh_ledger := ledger_modify tx (\<lambda>e. f e\<lparr>entry_id := entry_id e, entry_session := entry_session e\<rparr>) (sh_ledger sh)\<rparr>)"
| started: "start_queue sh = tx # q \<Longrightarrow> runtime_step env show_error sh (sh\<lparr>start_queue := q\<rparr>)"
| state: "runtime_step env show_error sh (sh\<lparr>sh_state := s\<rparr>)"

inductive runtime_reach ::
  "admission_env \<Rightarrow> (config_error \<Rightarrow> string) \<Rightarrow> runtime_shared \<Rightarrow> runtime_shared \<Rightarrow> bool" for env show_error sh0 where
  start: "runtime_reach env show_error sh0 sh0"
| step: "runtime_reach env show_error sh0 sh \<Longrightarrow> runtime_step env show_error sh sh' \<Longrightarrow>
    runtime_reach env show_error sh0 sh'"

definition on_channel :: "string \<Rightarrow> lifecycle_ledger \<Rightarrow> nat" where
  "on_channel c L = length (filter (\<lambda>(_, e). entry_channel e = c) (by_transaction L))"

definition paid :: "reservation_pool \<Rightarrow> ledger_entry \<Rightarrow> bool" where
  "paid p e \<longleftrightarrow> entry_reservation e = Some (entry_channel e) \<and> channel_max (entry_channel e) p \<noteq> None"

definition runtime_inv :: "runtime_shared \<Rightarrow> bool" where
  "runtime_inv sh \<longleftrightarrow>
     ledger_inv (sh_ledger sh) \<and> distinct (map fst (by_transaction (sh_ledger sh))) \<and>
     list_all (\<lambda>(_, e). paid (sh_pool sh) e) (by_transaction (sh_ledger sh)) \<and>
     global_active (sh_pool sh) = int (length (by_transaction (sh_ledger sh))) \<and>
     ledger_active (sh_pool sh) = int (length (by_transaction (sh_ledger sh))) \<and>
     (\<forall>c. channel_max c (sh_pool sh) \<noteq> None \<longrightarrow> channel_active c (sh_pool sh) = int (on_channel c (sh_ledger sh)))"

definition pool_within :: "reservation_pool \<Rightarrow> bool" where
  "pool_within p \<longleftrightarrow> global_active p \<le> max_global p \<and>
     (\<forall>c m. channel_max c p = Some m \<longrightarrow> channel_active c p \<le> m)"

lemma reserved_simps:
  "global_active (reserved c p) = global_active p + 1" "ledger_active (reserved c p) = ledger_active p + 1"
  "max_global (reserved c p) = max_global p" "channel_max d (reserved c p) = channel_max d p"
  "channel_max c p \<noteq> None \<Longrightarrow> channel_active d (reserved c p) = (if d = c then channel_active c p + 1 else channel_active d p)"
  by (simp_all add: reserved_def channel_active_put)

lemma release_simps:
  "global_active (release c p) = global_active p - 1" "ledger_active (release c p) = ledger_active p - 1"
  "max_global (release c p) = max_global p" "channel_max d (release c p) = channel_max d p"
  "channel_max c p \<noteq> None \<Longrightarrow> channel_active d (release c p) = (if d = c then channel_active c p - 1 else channel_active d p)"
  by (simp_all add: release_def Let_def channel_active_put)

lemma paid_pool: "(\<And>d. channel_max d p' = channel_max d p) \<Longrightarrow> paid p' e = paid p e"
  by (simp add: paid_def)

lemma remove_ok:
  assumes "ledger_remove tx L = (Some e, L')"
  shows "map_of (by_transaction L) tx = Some e" and "by_transaction L' = assoc_del tx (by_transaction L)"
  using assms by (auto simp: ledger_remove_def Let_def split: option.splits if_splits)

lemma assoc_del_Cons: "assoc_del k ((a, b) # xs) = (if a = k then assoc_del k xs else (a, b) # assoc_del k xs)"
  by (simp add: assoc_del_def)

lemma assoc_del_absent: "k \<notin> set (map fst xs) \<Longrightarrow> assoc_del k xs = xs"
  by (induction xs) (auto simp: assoc_del_def)

lemma assoc_del_length:
  assumes "distinct (map fst xs)" and "map_of xs k = Some v"
  shows "length (assoc_del k xs) + 1 = length xs"
    and "length (filter (\<lambda>(_, x). q x) (assoc_del k xs)) + (if q v then 1 else 0) = length (filter (\<lambda>(_, x). q x) xs)"
  using assms by (induction xs) (auto simp: assoc_del_Cons assoc_del_absent split: if_splits)

text \<open>Updates of an entry that keep its channel and reservation keep the counts.\<close>

lemma modify_counts:
  assumes "map_of xs i = Some e" and "entry_channel e' = entry_channel e" and "entry_reservation e' = entry_reservation e"
  shows "length (assoc_put i e' xs) = length xs" and "map fst (assoc_put i e' xs) = map fst xs"
    and "length (filter (\<lambda>(_, e). entry_channel e = c) (assoc_put i e' xs)) = length (filter (\<lambda>(_, e). entry_channel e = c) xs)"
    and "list_all (\<lambda>(_, e). paid p e) (assoc_put i e' xs) = list_all (\<lambda>(_, e). paid p e) xs"
proof -
  show "length (assoc_put i e' xs) = length xs" "map fst (assoc_put i e' xs) = map fst xs"
    using assms(1) by (simp_all add: assoc_put_length assoc_put_keys)
  show "length (filter (\<lambda>(_, e). entry_channel e = c) (assoc_put i e' xs)) = length (filter (\<lambda>(_, e). entry_channel e = c) xs)"
    and "list_all (\<lambda>(_, e). paid p e) (assoc_put i e' xs) = list_all (\<lambda>(_, e). paid p e) xs"
    using assms by (induction xs) (auto simp: paid_def split: if_splits)
qed

lemma runtime_inv_entries:
  assumes "runtime_inv sh" and "ledger_inv L'"
    and "by_transaction L' = by_transaction (sh_ledger sh) \<or>
      (\<exists>i e e'. map_of (by_transaction (sh_ledger sh)) i = Some e \<and> entry_channel e' = entry_channel e \<and>
        entry_reservation e' = entry_reservation e \<and> by_transaction L' = assoc_put i e' (by_transaction (sh_ledger sh)))"
  shows "runtime_inv (sh\<lparr>sh_ledger := L'\<rparr>)"
  using assms(3)
proof
  assume "by_transaction L' = by_transaction (sh_ledger sh)"
  then show ?thesis using assms(1,2) by (simp add: runtime_inv_def on_channel_def)
next
  assume "\<exists>i e e'. map_of (by_transaction (sh_ledger sh)) i = Some e \<and> entry_channel e' = entry_channel e \<and>
        entry_reservation e' = entry_reservation e \<and> by_transaction L' = assoc_put i e' (by_transaction (sh_ledger sh))"
  then obtain i e e' where m: "map_of (by_transaction (sh_ledger sh)) i = Some e"
    "entry_channel e' = entry_channel e" "entry_reservation e' = entry_reservation e"
    and L': "by_transaction L' = assoc_put i e' (by_transaction (sh_ledger sh))" by blast
  show ?thesis
    using assms(1,2) modify_counts [OF m] by (simp add: runtime_inv_def on_channel_def L')
qed

lemma runtime_inv_admit:
  assumes "runtime_inv sh" and "room c (sh_pool sh)" and "entry_channel e = c" and "entry_reservation e = Some c"
    and "insert_queued e limit (sh_ledger sh) = (None, L')"
  shows "runtime_inv (sh\<lparr>sh_pool := reserved c (sh_pool sh), sh_ledger := L', start_queue := q\<rparr>)"
proof -
  have m: "channel_max c (sh_pool sh) \<noteq> None" using assms(2) by (auto simp: room_def split: option.splits)
  note ok = insert_queued_ok [OF assms(5)]
  have "ledger_inv L'"
    using insert_inv [of "sh_ledger sh" e limit] assms(1,5) by (simp add: runtime_inv_def)
  moreover have "entry_id e \<notin> set (map fst (by_transaction (sh_ledger sh)))"
    using ok(1) by (simp add: map_of_fst_None)
  moreover have "list_all (\<lambda>(_, e). paid (reserved c (sh_pool sh)) e) (by_transaction (sh_ledger sh))"
    using assms(1) paid_pool [of "reserved c (sh_pool sh)" "sh_pool sh"] by (simp add: runtime_inv_def reserved_simps)
  ultimately show ?thesis
    using assms(1,3,4) m by (simp add: runtime_inv_def ok(2) on_channel_def reserved_simps paid_def)
qed

lemma runtime_inv_ended:
  assumes "runtime_inv sh" and "ledger_remove tx (sh_ledger sh) = (Some e, L')"
  shows "runtime_inv (sh\<lparr>sh_ledger := L', sh_pool := drop_entry e (sh_pool sh)\<rparr>)"
proof -
  note ok = remove_ok [OF assms(2)]
  have d: "distinct (map fst (by_transaction (sh_ledger sh)))" using assms(1) by (simp add: runtime_inv_def)
  have e: "paid (sh_pool sh) e"
    using map_of_list_all [OF ok(1), of "\<lambda>(_, e). paid (sh_pool sh) e"] assms(1) by (simp add: runtime_inv_def)
  then have dr: "drop_entry e (sh_pool sh) = release (entry_channel e) (sh_pool sh)"
    and m: "channel_max (entry_channel e) (sh_pool sh) \<noteq> None"
    by (simp_all add: paid_def drop_entry_def)
  have "ledger_inv L'"
    using remove_inv [of "sh_ledger sh" tx] assms by (simp add: runtime_inv_def)
  moreover have "list_all (\<lambda>(_, e). paid (sh_pool sh) e) (assoc_del tx (by_transaction (sh_ledger sh)))"
    using assms(1) by (auto simp: runtime_inv_def list_all_iff assoc_del_def)
  moreover have "paid (release (entry_channel e) (sh_pool sh)) x = paid (sh_pool sh) x" for x
    by (rule paid_pool) (simp add: release_simps)
  moreover have "int (length (by_transaction L')) = int (length (by_transaction (sh_ledger sh))) - 1"
    using assoc_del_length(1) [OF d ok(1)] by (simp add: ok(2))
  moreover have "int (on_channel c L') = int (on_channel c (sh_ledger sh)) - (if c = entry_channel e then 1 else 0)" for c
    using assoc_del_length(2) [OF d ok(1), of "\<lambda>e. entry_channel e = c"]
    by (auto simp: ok(2) on_channel_def split: if_splits)
  ultimately show ?thesis
    using assms(1) assoc_del_distinct [OF d, of tx] m
    by (simp add: runtime_inv_def ok(2) release_simps dr)
qed

lemma bind_entries:
  "by_transaction (snd (bind_session j k limit L)) = by_transaction L \<or>
   (\<exists>i e e'. map_of (by_transaction L) i = Some e \<and> entry_channel e' = entry_channel e \<and>
     entry_reservation e' = entry_reservation e \<and>
     by_transaction (snd (bind_session j k limit L)) = assoc_put i e' (by_transaction L))"
proof (cases "map_of (by_transaction L) j")
  case (Some e)
  then have "by_transaction (snd (bind_session j k limit L)) = by_transaction L \<or>
      by_transaction (snd (bind_session j k limit L)) = assoc_put j (e\<lparr>entry_session := Some k\<rparr>) (by_transaction L)"
    by (cases "map_of (by_session L) k") (auto simp: bind_session_def Let_def)
  moreover have "entry_channel (e\<lparr>entry_session := Some k\<rparr>) = entry_channel e"
    "entry_reservation (e\<lparr>entry_session := Some k\<rparr>) = entry_reservation e" by simp_all
  ultimately show ?thesis using Some by blast
qed (cases "map_of (by_session L) k"; simp add: bind_session_def)

lemma modify_entries:
  assumes "\<And>e. entry_channel (f e) = entry_channel e" and "\<And>e. entry_reservation (f e) = entry_reservation e"
  shows "by_transaction (ledger_modify j f L) = by_transaction L \<or>
   (\<exists>i e e'. map_of (by_transaction L) i = Some e \<and> entry_channel e' = entry_channel e \<and>
     entry_reservation e' = entry_reservation e \<and>
     by_transaction (ledger_modify j f L) = assoc_put i e' (by_transaction L))"
proof (cases "map_of (by_transaction L) j")
  case (Some e)
  then have "by_transaction (ledger_modify j f L) = assoc_put j (f e) (by_transaction L)"
    by (simp add: ledger_modify_def)
  with Some assms show ?thesis by blast
qed (simp add: ledger_modify_def)

lemma runtime_inv_step:
  assumes "runtime_inv sh" and "pool_within (sh_pool sh)" and "runtime_step env show_error sh sh'"
  shows "runtime_inv sh' \<and> pool_within (sh_pool sh') \<and> max_global (sh_pool sh') = max_global (sh_pool sh) \<and>
    (\<forall>c. channel_max c (sh_pool sh') = channel_max c (sh_pool sh))"
  using assms(3)
proof cases
  case (admission tx r)
  show ?thesis
  proof (cases "admit env show_error id tx r sh")
    case (Pair a b)
    then have b: "sh' = b" using admission by simp
    note c = admit_cases [where env = env and show_error = show_error and tx = tx and r = r and sh = sh, unfolded Pair]
    show ?thesis
    proof (cases a)
      case (Inl e)
      with c b assms(1,2) show ?thesis by simp
    next
      case (Inr rc)
      then obtain eff where rm: "room (sub_channel r) (sh_pool sh)"
        and i: "insert_queued (queued_entry tx eff r) (max_distinct_sessions env (sub_channel r)) (sh_ledger sh)
           = (None, sh_ledger b)"
        and b': "b = sh\<lparr>sh_pool := reserved (sub_channel r) (sh_pool sh), sh_ledger := sh_ledger b,
                   start_queue := start_queue sh @ [tx]\<rparr>"
        using c by auto
      have "runtime_inv b"
        using runtime_inv_admit [OF assms(1) rm _ _ i, of "start_queue sh @ [tx]"] b' by (simp add: queued_entry_def)
      moreover have "sh_pool b = reserved (sub_channel r) (sh_pool sh)" by (subst b') simp
      moreover have "channel_max (sub_channel r) (sh_pool sh) \<noteq> None"
        using rm by (auto simp: room_def split: option.splits)
      ultimately show ?thesis
        using rm assms(2) by (auto simp: b pool_within_def reserved_simps room_def)
    qed
  qed
next
  case (ended tx e L)
  have "paid (sh_pool sh) e"
    using map_of_list_all [OF remove_ok(1) [OF ended(2)], of "\<lambda>(_, e). paid (sh_pool sh) e"] assms(1)
    by (simp add: runtime_inv_def)
  then have "drop_entry e (sh_pool sh) = release (entry_channel e) (sh_pool sh)"
    "channel_max (entry_channel e) (sh_pool sh) \<noteq> None"
    by (simp_all add: paid_def drop_entry_def)
  then show ?thesis
    using runtime_inv_ended [OF assms(1) ended(2)] assms(2)
    by (fastforce simp: ended(1) pool_within_def release_simps)
next
  case (bound tx k)
  let ?L' = "snd (bind_session tx k (max_distinct_sessions env (key_channel k)) (sh_ledger sh))"
  have "ledger_inv ?L'" using bind_inv assms(1) by (simp add: runtime_inv_def)
  then have "runtime_inv (sh\<lparr>sh_ledger := ?L'\<rparr>)"
    by (rule runtime_inv_entries [OF assms(1) _ bind_entries])
  then show ?thesis using assms(2) by (simp add: bound)
next
  case (changed f tx)
  let ?f = "\<lambda>e. f e\<lparr>entry_id := entry_id e, entry_session := entry_session e\<rparr>"
  let ?L' = "ledger_modify tx ?f (sh_ledger sh)"
  have "ledger_inv ?L'" using modify_inv assms(1) by (simp add: runtime_inv_def)
  then have "runtime_inv (sh\<lparr>sh_ledger := ?L'\<rparr>)"
    using changed(2) by (intro runtime_inv_entries [OF assms(1) _ modify_entries]) (simp_all add: same_identity_def)
  then show ?thesis using assms(2) by (simp add: changed)
next
  case (started tx q)
  with assms(1,2) show ?thesis by (simp add: runtime_inv_def)
next
  case (state s)
  with assms(1,2) show ?thesis by (simp add: runtime_inv_def)
qed

lemma check_tools_loop:
  "fst (for_each (check_tool tools) ids seen) = None \<longleftrightarrow>
     distinct ids \<and> list_all (\<lambda>i. i \<notin> set seen \<and> registry_get i tools \<noteq> None) ids"
  by (induction ids arbitrary: seen) (auto simp: check_tool_def list_all_iff)

lemma fresh_pool:
  assumes "pool_try_new m cs = Ok p0"
  shows "global_active p0 = 0" and "ledger_active p0 = 0" and "max_global p0 = int m" and "channel_active c p0 = 0"
    and "channel_max c p0 = Some k \<Longrightarrow> 0 \<le> k"
proof -
  note i = pool_inv_start [OF assms]
  show "global_active p0 = 0" "ledger_active p0 = 0" "max_global p0 = int m"
    using i by (simp_all add: pool_inv_def holders_def)
  show "channel_active c p0 = 0"
    using i(1) by (cases "channel_max c p0")
      (auto simp: pool_inv_def channel_holders_def holders_def channel_max_def channel_active_def)
  show "channel_max c p0 = Some k \<Longrightarrow> 0 \<le> k"
    using i(1) by (auto simp: pool_inv_def channel_holders_def holders_def)
qed

section \<open>Properties\<close>

text \<open>
  C3. Admission is all or nothing: a refused request leaves the shared state exactly as it
  was, whichever check refused it and although it had reserved capacity or even entered the
  ledger by then; an accepted one adds exactly one entry, queued, with its validated
  configuration and its reservation, and appends exactly its start command.
\<close>

theorem admission_all_or_nothing:
  "case admit env show_error id tx r sh of
     (Inl e, sh') \<Rightarrow> sh' = sh
   | (Inr rc, sh') \<Rightarrow>
       receipt_transaction rc = tx \<and> ledger_get tx (sh_ledger sh) = None \<and>
       (\<exists>eff. admit_checks env show_error (sh_limits sh) r = Ok eff \<and>
         (\<forall>i. ledger_get i (sh_ledger sh') =
            (if i = tx then Some (queued_entry tx eff r) else ledger_get i (sh_ledger sh)))) \<and>
       sh_pool sh' = reserved (sub_channel r) (sh_pool sh) \<and> start_queue sh' = start_queue sh @ [tx]"
proof (cases "admit env show_error id tx r sh")
  case (Pair a b)
  note c = admit_cases [where env = env and show_error = show_error and tx = tx and r = r and sh = sh, unfolded Pair]
  show ?thesis
  proof (cases a)
    case (Inl e)
    with c Pair show ?thesis by simp
  next
    case (Inr rc)
    then obtain eff where eff: "admit_checks env show_error (sh_limits sh) r = Ok eff" "receipt_transaction rc = tx"
      and i: "insert_queued (queued_entry tx eff r) (max_distinct_sessions env (sub_channel r)) (sh_ledger sh)
         = (None, sh_ledger b)"
      and b: "b = sh\<lparr>sh_pool := reserved (sub_channel r) (sh_pool sh), sh_ledger := sh_ledger b,
                 start_queue := start_queue sh @ [tx]\<rparr>"
      using c by auto
    have p: "sh_pool b = reserved (sub_channel r) (sh_pool sh)" "start_queue b = start_queue sh @ [tx]"
      by (subst b, simp)+
    have "entry_id (queued_entry tx eff r) = tx" by (simp add: queued_entry_def)
    with insert_queued_ok(1,2) [OF i]
    have "ledger_get tx (sh_ledger sh) = None"
      "\<And>j. ledger_get j (sh_ledger b) = (if j = tx then Some (queued_entry tx eff r) else ledger_get j (sh_ledger sh))"
      by (auto simp: ledger_get_def map_add_def split: option.split)
    with eff p Inr Pair show ?thesis by auto
  qed
qed

text \<open>
  C31. The checks in front of the reservation accept exactly the requests for a known channel
  whose mailbox, input, tools and configuration are all within bounds: the estimated size of
  the whole input, not only of its text, is bounded, the tools are distinct and registered,
  and no deadline is zero.
\<close>

theorem admit_checks_exact:
  "admit_checks env show_error l r = Ok eff \<longleftrightarrow>
     (\<exists>b. map_of (adm_channels env) (sub_channel r) = Some b \<and>
        merge_effective_config (adm_codec env) (bind_defaults b) (sub_session_config r) None (sub_invocation r)
          (cap_option_policy (bind_capabilities b)) default_extension_limits = Ok eff \<and>
        \<not> (sub_session r \<noteq> None \<and> sub_tools r \<noteq> [] \<and> bind_tool_mode b = McpGateway \<and>
            mcp_configuration (bind_capabilities b) = CreationOnly)) \<and>
     eff_deadline eff \<noteq> Some 0 \<and>
     max_event_items (sub_delivery r) \<le> max_event_queue l \<and> max_event_bytes (sub_delivery r) \<le> max_event_queue_bytes l \<and>
     length (sub_input r) \<le> max_messages l \<and>
     list_all (\<lambda>m. length (message_parts m) \<le> max_content_parts l) (sub_input r) \<and>
     (\<exists>n. estimate_canonical_input_bytes (adm_codec env) (sub_input r) = Ok n \<and> n \<le> max_input_bytes l) \<and>
     length (sub_tools r) \<le> adm_max_tools env \<and> distinct (sub_tools r) \<and>
     list_all (\<lambda>i. registry_get i (adm_tools env) \<noteq> None) (sub_tools r)"
proof -
  have t: "check_tools (adm_tools env) (adm_max_tools env) (sub_tools r) = None \<longleftrightarrow>
      length (sub_tools r) \<le> adm_max_tools env \<and> distinct (sub_tools r) \<and>
      list_all (\<lambda>i. registry_get i (adm_tools env) \<noteq> None) (sub_tools r)"
    by (auto simp: check_tools_def check_tools_loop list_all_iff)
  have i: "check_input (adm_codec env) l (sub_input r) = None \<longleftrightarrow>
      length (sub_input r) \<le> max_messages l \<and>
      list_all (\<lambda>m. length (message_parts m) \<le> max_content_parts l) (sub_input r) \<and>
      (\<exists>n. estimate_canonical_input_bytes (adm_codec env) (sub_input r) = Ok n \<and> n \<le> max_input_bytes l)"
  proof -
    have "list_ex (\<lambda>m. length (message_parts m) > max_content_parts l) (sub_input r) \<longleftrightarrow>
        \<not> list_all (\<lambda>m. length (message_parts m) \<le> max_content_parts l) (sub_input r)"
      by (simp add: list_ex_iff list_all_iff not_le)
    then show ?thesis by (auto simp: check_input_def split: sum.splits)
  qed
  have c: "check_config env show_error r = Ok eff \<longleftrightarrow>
      (\<exists>b. map_of (adm_channels env) (sub_channel r) = Some b \<and>
        merge_effective_config (adm_codec env) (bind_defaults b) (sub_session_config r) None (sub_invocation r)
          (cap_option_policy (bind_capabilities b)) default_extension_limits = Ok eff) \<and> eff_deadline eff \<noteq> Some 0"
    by (auto simp: check_config_def defaults_and_policy_def split: option.splits sum.splits)
  show ?thesis
    unfolding t [symmetric] i [symmetric] conj_assoc [symmetric] admit_checks_def
    using t i c
    by (cases "check_input (adm_codec env) l (sub_input r)";
        cases "check_tools (adm_tools env) (adm_max_tools env) (sub_tools r)";
        cases "map_of (adm_channels env) (sub_channel r)")
      (auto simp: rejects_creation_only_tool_reuse_def)
qed

text \<open>
  C4. Capacity is conserved across the whole runtime: whatever requests are admitted, bound to
  sessions, changed and ended, in any order, the ledger never holds more transactions than
  the global maximum nor, on a channel, more than its maximum, and the pool's counters are
  always exactly the numbers of transactions in the ledger.
\<close>

theorem active_transactions_bounded:
  assumes "pool_try_new m cs = Ok p0"
    and "runtime_reach env show_error
      \<lparr>sh_state = Accepting, sh_ledger = ledger_new, sh_pool = p0, start_queue = [], start_capacity = n,
       start_closed = False, sh_limits = l\<rparr> sh"
  shows "length (by_transaction (sh_ledger sh)) \<le> m \<and>
    global_active (sh_pool sh) = int (length (by_transaction (sh_ledger sh))) \<and>
    (case channel_max c p0 of
       Some k \<Rightarrow> int (on_channel c (sh_ledger sh)) \<le> k \<and> channel_active c (sh_pool sh) = int (on_channel c (sh_ledger sh))
     | None \<Rightarrow> on_channel c (sh_ledger sh) = 0)"
proof -
  let ?sh0 = "\<lparr>sh_state = Accepting, sh_ledger = ledger_new, sh_pool = p0, start_queue = [], start_capacity = n,
       start_closed = False, sh_limits = l\<rparr>"
  note z = fresh_pool [OF assms(1)]
  have "runtime_inv sh \<and> pool_within (sh_pool sh) \<and> max_global (sh_pool sh) = int m \<and>
      (\<forall>c. channel_max c (sh_pool sh) = channel_max c p0)"
    using assms(2)
  proof (induction rule: runtime_reach.induct)
    case start
    show ?case using z by (simp add: runtime_inv_def pool_within_def ledger_inv_new on_channel_def) (simp add: ledger_new_def)
  next
    case (step sh sh')
    then show ?case using runtime_inv_step [of sh env show_error sh'] by simp
  qed
  moreover have "on_channel c (sh_ledger sh) = 0" if "runtime_inv sh" "channel_max c (sh_pool sh) = None"
    using that by (auto simp: runtime_inv_def on_channel_def list_all_iff paid_def filter_empty_conv)
  ultimately show ?thesis
    by (fastforce simp: runtime_inv_def pool_within_def split: option.split)
qed

text \<open>A runtime with one channel and one slot, and a plain request.\<close>

definition one_channel :: admission_env where
  "one_channel =
     \<lparr>adm_codec = ok_codec,
      adm_channels = [(''c'', \<lparr>bind_id = ''c'', bind_kind = DirectLlm, bind_tool_mode = NoTools,
        bind_defaults = seed_defaults\<lparr>def_extensions := []\<rparr>,
        bind_capabilities = \<lparr>cap_session_mode = Stateless, mcp_configuration = McpNone, cap_mcp_reachability = Unreachable,
          exchange_mode = RequestResponse, continuation_policies = [], supports_distinct_session_concurrency = True,
          input_dialect = \<lparr>family = Test, dialect_version = [], framing = [], dialect_profile = None\<rparr>,
          output_dialect = \<lparr>family = Test, dialect_version = [], framing = [], dialect_profile = None\<rparr>,
          cap_option_policy = direct_llm\<rparr>,
        bind_limits = default_channel_limits\<rparr>)],
      adm_tools = registry_empty, adm_max_tools = 0\<rparr>"

definition plain_request :: submit_request where
  "plain_request =
     \<lparr>sub_channel = ''c'', sub_session = None, sub_input = [User [''hi''] None], sub_session_config = None,
      sub_invocation = default_invocation_config, sub_tools = [],
      sub_delivery = \<lparr>max_event_items = 1, max_event_bytes = 1\<rparr>\<rparr>"

definition one_slot :: runtime_shared where
  "one_slot =
     \<lparr>sh_state = Accepting, sh_ledger = ledger_new,
      sh_pool = \<lparr>max_global = 1, max_ledger = 1, global_active = 0, ledger_active = 0,
        per_channel = [(''c'', \<lparr>slot_max = 1, slot_active = 0\<rparr>)]\<rparr>,
      start_queue = [], start_capacity = 1, start_closed = False, sh_limits = default_transaction_limits\<rparr>"

lemma plain_request_checked:
  "\<exists>eff. admit_checks one_channel show_error default_transaction_limits plain_request = Ok eff"
proof -
  have l: "max_serialized_bytes default_extension_limits < usize_max"
    by (simp add: default_extension_limits_def usize_max_def)
  let ?d = "seed_defaults\<lparr>def_extensions := []\<rparr>"
  let ?m = "merged ?d None default_invocation_config"
  have "layers_valid ok_codec ?d None None default_invocation_config direct_llm default_extension_limits"
    by (simp add: layers_valid_def extensions_ok_def extension_bytes_def merged_def session_layer_def overlay_def
        default_invocation_config_def direct_llm_def used_options_def default_extension_limits_def seed_defaults_def)
  then have m: "merge_effective_config ok_codec ?d None None default_invocation_config direct_llm
      default_extension_limits = Ok ?m"
    using merge_exact [OF l] by simp
  have d: "eff_deadline ?m = None"
    by (simp add: merged_def default_invocation_config_def)
  show ?thesis
    by (intro exI [of _ ?m])
      (simp add: admit_checks_def check_input_def check_tools_def check_config_def defaults_and_policy_def one_channel_def
        plain_request_def default_transaction_limits_def estimate_canonical_input_bytes_def add_parts_def
        saturating_add_def usize_max_def m d)
qed

theorem active_transactions_bounded_witness:
  "\<exists>sh. runtime_reach one_channel (\<lambda>_. []) one_slot sh \<and> length (by_transaction (sh_ledger sh)) = 1 \<and>
     global_active (sh_pool sh) = int (length (by_transaction (sh_ledger sh)))"
proof -
  let ?sh = "snd (admit one_channel (\<lambda>_. []) id ''t'' plain_request one_slot)"
  obtain eff where e: "admit_checks one_channel (\<lambda>_. []) default_transaction_limits plain_request = Ok eff"
    using plain_request_checked by blast
  have "room ''c'' (sh_pool one_slot)" by (simp add: room_def one_slot_def channel_max_def channel_active_def)
  then have "length (by_transaction (sh_ledger ?sh)) = 1"
    using e reserve_alone [of "''c''" "sh_pool one_slot"]
    by (simp add: admit_def admit_locked_def try_send_start_def insert_queued_def queued_entry_def request_session_key_def
        one_slot_def plain_request_def ledger_new_def Let_def)
  moreover have r: "runtime_reach one_channel (\<lambda>_. []) one_slot ?sh"
    by (rule runtime_reach.step [OF runtime_reach.start runtime_step.admission])
  moreover have "global_active (sh_pool ?sh) = int (length (by_transaction (sh_ledger ?sh)))"
  proof -
    have "one_slot = \<lparr>sh_state = Accepting, sh_ledger = ledger_new, sh_pool = sh_pool one_slot, start_queue = [],
        start_capacity = 1, start_closed = False, sh_limits = default_transaction_limits\<rparr>"
      by (simp add: one_slot_def)
    moreover have "pool_try_new 1 [(''c'', 1)] = Ok (sh_pool one_slot)"
      by (simp add: pool_try_new_def one_slot_def)
    ultimately show ?thesis using active_transactions_bounded r by metis
  qed
  ultimately show ?thesis by blast
qed

end
