(* ===== verification/Session_Identity.thy ===== *)
theory Session_Identity
  imports Transaction
begin

text \<open>
  \<open>crates/monoloop-loop/src/transaction/lifecycle/session_identity.rs\<close>: the identities that
  transaction events and tool actions carry. A transaction or exchange id is the text of its
  UUID, which is what the source formats into the derived identities.
\<close>

definition tool_action_id_for_exchange :: "string \<Rightarrow> string \<Rightarrow> string" where
  "tool_action_id_for_exchange exchange call = exchange @ '':'' @ call"

definition provider_tool_call_id_from_action :: "string \<Rightarrow> string \<Rightarrow> string option" where
  "provider_tool_call_id_from_action exchange action =
     (case strip_prefix (exchange @ '':'') action of
        Some s \<Rightarrow> if s = [] then None else Some s
      | None \<Rightarrow> None)"

definition transaction_scoped_session_id :: "string \<Rightarrow> string" where
  "transaction_scoped_session_id tx =
     (case validated_string (''tx-'' @ tx) of Inr s \<Rightarrow> s | Inl _ \<Rightarrow> ''direct'')"

definition is_transaction_scoped_session :: "string \<Rightarrow> string \<Rightarrow> bool" where
  "is_transaction_scoped_session s tx \<longleftrightarrow> s = ''direct'' \<or> s = transaction_scoped_session_id tx"

definition session_key_for :: "string \<Rightarrow> string option \<Rightarrow> string \<Rightarrow> session_key" where
  "session_key_for channel session tx =
     \<lparr>key_channel = channel,
      key_session = (case session of Some s \<Rightarrow> s | None \<Rightarrow> transaction_scoped_session_id tx)\<rparr>"

text \<open>The resolved identity and the new value of the publisher's session slot.\<close>

definition ensure_session :: "string option \<Rightarrow> string option \<Rightarrow> string \<Rightarrow> string \<times> string option" where
  "ensure_session session preferred tx =
     (case preferred of
        Some s \<Rightarrow>
          (case session of
             None \<Rightarrow> (s, Some s)
           | Some cur \<Rightarrow> if is_transaction_scoped_session cur tx then (s, Some s) else (cur, Some cur))
      | None \<Rightarrow>
          (case session of
             Some s \<Rightarrow> (s, Some s)
           | None \<Rightarrow> (let s = transaction_scoped_session_id tx in (s, Some s))))"

section \<open>Facts\<close>

lemma ensure_session_fixed:
  "\<not> is_transaction_scoped_session s tx \<Longrightarrow> ensure_session (Some s) preferred tx = (s, Some s)"
  by (simp add: ensure_session_def split: option.split)

lemma ensure_session_slot: "snd (ensure_session session preferred tx) = Some (fst (ensure_session session preferred tx))"
  by (simp add: ensure_session_def Let_def split: option.split)

text \<open>
  Tool action identities can be taken apart again: stripping an exchange from an action id
  of that exchange gives back the provider's call id, so that a call id the provider uses
  twice stays distinct; and no action id of one exchange is read as one of another, all
  exchange ids having the length of a UUID.
\<close>

theorem tool_action_id_roundtrip:
  assumes "length exchange = length other" and "call \<noteq> []"
  shows "provider_tool_call_id_from_action other (tool_action_id_for_exchange exchange call) =
    (if other = exchange then Some call else None)"
proof (cases "other = exchange")
  case True
  have "strip_prefix (exchange @ '':'') (exchange @ '':'' @ call) = Some call"
    by (simp add: strip_prefix_Some)
  with True assms(2) show ?thesis
    by (simp add: provider_tool_call_id_from_action_def tool_action_id_for_exchange_def)
next
  case False
  have "strip_prefix (other @ '':'') (exchange @ '':'' @ call) \<noteq> Some r" for r
    using False assms(1) by (simp add: strip_prefix_Some append_eq_append_conv)
  then have "strip_prefix (other @ '':'') (exchange @ '':'' @ call) = None" by auto
  with False show ?thesis
    by (simp add: provider_tool_call_id_from_action_def tool_action_id_for_exchange_def)
qed

theorem tool_action_id_roundtrip_witness:
  "provider_tool_call_id_from_action ''e1'' (tool_action_id_for_exchange ''e1'' ''call'') = Some ''call'' \<and>
   provider_tool_call_id_from_action ''e2'' (tool_action_id_for_exchange ''e1'' ''call'') = None"
  using tool_action_id_roundtrip [of "''e1''" "''e1''" "''call''"]
    tool_action_id_roundtrip [of "''e1''" "''e2''" "''call''"] by simp

text \<open>
  An external session that is called \<open>direct\<close> is taken for a synthetic one, and a later
  claim replaces it, although an authoritative identity is never to be replaced.
\<close>

lemma external_direct_replaced:
  "ensure_session (Some ''direct'') (Some s) tx = (s, Some s)"
  by (simp add: ensure_session_def is_transaction_scoped_session_def)

end
