(* ===== verification/Event_Publisher.thy ===== *)
theory Event_Publisher
  imports Session_Identity Delivery
begin

text \<open>
  \<open>crates/monoloop-loop/src/transaction/lifecycle/event_publisher.rs\<close>: the task that alone
  numbers the events of one transaction. It waits on two channels, the host mailbox and two
  deadlines; what a wait ends with is decided by the rest of the world and arrives here as an
  observation, so that a run is a list of observations. Between two waits the task is a
  function of its state.
\<close>

section \<open>Commands and waits\<close>

datatype event_publisher_command =
    EstablishExternal string
  | PublishCommand transaction_event_payload

text \<open>The reply port and the deadline of a seal show in what is observed.\<close>

record seal_command =
  seal_terminal :: transaction_end_event

record terminal_publication_result =
  result_delivery :: terminal_event_delivery
  result_last_sequence :: nat

text \<open>
  How a wait on the host mailbox ends: the event is committed, the mailbox refuses it, or the
  deadline passes. An ordinary wait may see the seal arrive first; the event then goes on
  under the deadline of the seal.
\<close>

datatype send_end = Sent | SendRefused event_enqueue_error | SendTimedOut

datatype send_wait = NoSeal send_end | SealDuring seal_command send_end

datatype ordinary_seal_outcome =
    OrdinaryCommitted nat
  | OrdinaryFailed terminal_event_delivery

datatype wait_end =
    WaitSealed seal_command ordinary_seal_outcome
  | WaitFailed terminal_event_delivery

definition map_send_err :: "event_enqueue_error \<Rightarrow> terminal_event_delivery" where
  "map_send_err e = (case e of EnqueueClosed \<Rightarrow> QueueClosed | _ \<Rightarrow> DeliveryLimitExceeded)"

definition enqueue_under_deadline :: "send_end \<Rightarrow> terminal_event_delivery option" where
  "enqueue_under_deadline r =
     (case r of
        SendTimedOut \<Rightarrow> Some DeliveryDeadlineExceeded
      | Sent \<Rightarrow> None
      | SendRefused e \<Rightarrow> Some (map_send_err e))"

definition wait_send_or_seal :: "nat \<Rightarrow> send_wait \<Rightarrow> wait_end option" where
  "wait_send_or_seal seq w =
     (case w of
        SealDuring cmd r \<Rightarrow>
          Some (WaitSealed cmd
            (case r of
               SendTimedOut \<Rightarrow> OrdinaryFailed DeliveryDeadlineExceeded
             | Sent \<Rightarrow> OrdinaryCommitted seq
             | SendRefused e \<Rightarrow> OrdinaryFailed (map_send_err e)))
      | NoSeal SendTimedOut \<Rightarrow> Some (WaitFailed DeliveryDeadlineExceeded)
      | NoSeal Sent \<Rightarrow> None
      | NoSeal (SendRefused e) \<Rightarrow> Some (WaitFailed (map_send_err e)))"

section \<open>State\<close>

text \<open>
  Where the task is: in its loop, waiting for the seal after a failure, draining the ordinary
  commands behind the fence, discarding them, sending the terminal event, or returned.
\<close>

datatype publisher_phase =
    InLoop
  | Sticky terminal_event_delivery
  | Fencing seal_command
  | Discarding seal_command terminal_event_delivery
  | Sealing seal_command
  | PublisherReturned terminal_publication_result

record transaction_publisher =
  pub_transaction :: string
  pub_channel :: string
  pub_session :: "string option"
  next_seq :: nat
  last_committed :: nat
  session_established :: bool
  cmd_closed :: bool
  seal_closed :: bool
  admit_open :: bool
  pub_phase :: publisher_phase
  host_events :: "transaction_event list"
  seal_reply :: "terminal_publication_result option"

definition transaction_publisher_new :: "string \<Rightarrow> string \<Rightarrow> string option \<Rightarrow> transaction_publisher" where
  "transaction_publisher_new tx channel session =
     \<lparr>pub_transaction = tx, pub_channel = channel, pub_session = session, next_seq = 1, last_committed = 0,
      session_established = False, cmd_closed = False, seal_closed = False, admit_open = True,
      pub_phase = InLoop, host_events = [], seal_reply = None\<rparr>"

definition make_event :: "string \<Rightarrow> transaction_event_payload \<Rightarrow> transaction_publisher \<Rightarrow> transaction_event" where
  "make_event sid payload p =
     \<lparr>ev_transaction = pub_transaction p, ev_channel = pub_channel p, ev_session = sid,
      ev_sequence = next_seq p, ev_payload = payload\<rparr>"

text \<open>The host mailbox gets an event exactly when the wait on it ends with success.\<close>

definition hand_over :: "send_end \<Rightarrow> transaction_event \<Rightarrow> transaction_publisher \<Rightarrow> transaction_publisher" where
  "hand_over r ev p = (if r = Sent then p\<lparr>host_events := host_events p @ [ev]\<rparr> else p)"

definition commit_sequence :: "nat \<Rightarrow> transaction_publisher \<Rightarrow> transaction_publisher" where
  "commit_sequence seq p = p\<lparr>last_committed := seq, next_seq := saturating_add seq 1\<rparr>"

fun wait_result :: "send_wait \<Rightarrow> send_end" where
  "wait_result (NoSeal r) = r"
| "wait_result (SealDuring _ r) = r"

section \<open>Operations\<close>

definition close_admission :: "transaction_publisher \<Rightarrow> transaction_publisher" where
  "close_admission p = p\<lparr>admit_open := False\<rparr>"

definition return_result :: "terminal_event_delivery \<Rightarrow> transaction_publisher \<Rightarrow> transaction_publisher" where
  "return_result d p =
     p\<lparr>pub_phase := PublisherReturned \<lparr>result_delivery = d, result_last_sequence = last_committed p\<rparr>\<rparr>"

definition reply_sticky :: "terminal_event_delivery \<Rightarrow> transaction_publisher \<Rightarrow> transaction_publisher" where
  "reply_sticky fail p =
     (let r = \<lparr>result_delivery = fail, result_last_sequence = last_committed p\<rparr>
      in p\<lparr>seal_reply := Some r, pub_phase := PublisherReturned r\<rparr>)"

definition apply_ordinary_outcome ::
  "ordinary_seal_outcome \<Rightarrow> transaction_publisher \<Rightarrow> terminal_event_delivery option \<times> transaction_publisher" where
  "apply_ordinary_outcome out p =
     (case out of
        OrdinaryCommitted seq \<Rightarrow> (None, commit_sequence seq p)
      | OrdinaryFailed f \<Rightarrow> (Some f, p))"

text \<open>The entry of the fence, with the failure of the event that was in flight, if any.\<close>

definition enter_fence :: "seal_command \<Rightarrow> terminal_event_delivery option \<Rightarrow> transaction_publisher \<Rightarrow> transaction_publisher" where
  "enter_fence cmd fail p =
     p\<lparr>pub_phase := (case fail of None \<Rightarrow> Fencing cmd | Some f \<Rightarrow> Discarding cmd f)\<rparr>"

definition on_wait_end :: "wait_end \<Rightarrow> transaction_publisher \<Rightarrow> transaction_publisher" where
  "on_wait_end e p =
     (case e of
        WaitSealed cmd ordinary \<Rightarrow>
          (case apply_ordinary_outcome ordinary (close_admission p) of (fail, p) \<Rightarrow> enter_fence cmd fail p)
      | WaitFailed fail \<Rightarrow> p\<lparr>pub_phase := Sticky fail\<rparr>)"

definition bind_established :: "string \<Rightarrow> transaction_publisher \<Rightarrow> transaction_publisher" where
  "bind_established sid p =
     p\<lparr>pub_session := snd (ensure_session (pub_session p) (Some sid) (pub_transaction p)), session_established := True\<rparr>"

definition establish_external :: "string \<Rightarrow> send_wait \<Rightarrow> transaction_publisher \<Rightarrow> wait_end option \<times> transaction_publisher" where
  "establish_external external w p =
     (if session_established p \<or> next_seq p \<noteq> 1 then (None, p)
      else
        (let sid = external; seq = next_seq p;
             p = hand_over (wait_result w) (make_event sid (SessionEstablished external) p) p
         in case wait_send_or_seal seq w of
              None \<Rightarrow> (None, commit_sequence seq (bind_established sid p))
            | Some (WaitSealed cmd ordinary) \<Rightarrow>
                (Some (WaitSealed cmd ordinary),
                 case ordinary of OrdinaryCommitted _ \<Rightarrow> bind_established sid p | OrdinaryFailed _ \<Rightarrow> p)
            | Some (WaitFailed fail) \<Rightarrow> (Some (WaitFailed fail), p)))"

definition publish_ordinary ::
  "transaction_event_payload \<Rightarrow> send_wait \<Rightarrow> transaction_publisher \<Rightarrow> wait_end option \<times> transaction_publisher" where
  "publish_ordinary payload w p =
     (case ensure_session (pub_session p) None (pub_transaction p) of (sid, session) \<Rightarrow>
        (let p = p\<lparr>pub_session := session\<rparr>; seq = next_seq p;
             p = hand_over (wait_result w) (make_event sid payload p) p
         in case wait_send_or_seal seq w of
              None \<Rightarrow> (None, commit_sequence seq p)
            | Some e \<Rightarrow> (Some e, p)))"

definition ordinary_command :: "event_publisher_command \<Rightarrow> send_wait \<Rightarrow> transaction_publisher \<Rightarrow> transaction_publisher" where
  "ordinary_command c w p =
     (case (case c of
              EstablishExternal external \<Rightarrow> establish_external external w p
            | PublishCommand payload \<Rightarrow> publish_ordinary payload w p) of
        (None, p) \<Rightarrow> p
      | (Some e, p) \<Rightarrow> on_wait_end e p)"

text \<open>The body of the drain loop behind the fence: every command under the deadline of the seal.\<close>

definition fence_command ::
  "event_publisher_command \<Rightarrow> send_end \<Rightarrow> transaction_publisher \<Rightarrow> terminal_event_delivery option \<times> transaction_publisher" where
  "fence_command c r p =
     (case c of
        EstablishExternal external \<Rightarrow>
          (if session_established p \<or> next_seq p \<noteq> 1 then (None, p)
           else
             (let sid = external; seq = next_seq p;
                  p = hand_over r (make_event sid (SessionEstablished external) p) p
              in case enqueue_under_deadline r of
                   None \<Rightarrow> (None, commit_sequence seq (bind_established sid p))
                 | Some fail \<Rightarrow> (Some fail, p)))
      | PublishCommand payload \<Rightarrow>
          (case ensure_session (pub_session p) None (pub_transaction p) of (sid, session) \<Rightarrow>
             (let p = p\<lparr>pub_session := session\<rparr>; seq = next_seq p;
                  p = hand_over r (make_event sid payload p) p
              in case enqueue_under_deadline r of
                   None \<Rightarrow> (None, commit_sequence seq p)
                 | Some fail \<Rightarrow> (Some fail, p))))"

definition finish_seal :: "seal_command \<Rightarrow> send_end \<Rightarrow> transaction_publisher \<Rightarrow> transaction_publisher" where
  "finish_seal cmd r p =
     (case ensure_session (pub_session p) (tx_end_session (seal_terminal cmd)) (pub_transaction p) of (sid, session) \<Rightarrow>
        (let p = p\<lparr>pub_session := session\<rparr>; seq = next_seq p;
             terminal = (seal_terminal cmd)\<lparr>emitted_events := seq, tx_end_session := Some sid\<rparr>;
             p = hand_over r (make_event sid (EndedEvent terminal) p) p
         in case enqueue_under_deadline r of
              None \<Rightarrow>
                (let p = p\<lparr>last_committed := seq\<rparr>;
                     res = \<lparr>result_delivery = DeliveryPublished, result_last_sequence = last_committed p\<rparr>
                 in p\<lparr>seal_reply := Some res, pub_phase := PublisherReturned res\<rparr>)
            | Some fail \<Rightarrow>
                (let res = \<lparr>result_delivery = fail, result_last_sequence = last_committed p\<rparr>
                 in p\<lparr>seal_reply := Some res, pub_phase := PublisherReturned res\<rparr>)))"

section \<open>The task\<close>

datatype observation =
    SeesSeal seal_command
  | SeesSealClosed
  | SeesCommand event_publisher_command send_wait
  | SeesCommandsClosed
  | SeesDeadline
  | SeesTerminalSend send_end

definition loop_step :: "observation \<Rightarrow> transaction_publisher \<Rightarrow> transaction_publisher" where
  "loop_step ob p =
     (case ob of
        SeesSeal cmd \<Rightarrow> if seal_closed p then p else enter_fence cmd None (close_admission p)
      | SeesSealClosed \<Rightarrow>
          (if seal_closed p then p
           else
             (let p = close_admission (p\<lparr>seal_closed := True\<rparr>)
              in if cmd_closed p then return_result QueueClosed p else p))
      | SeesCommand c w \<Rightarrow> if cmd_closed p then p else ordinary_command c w p
      | SeesCommandsClosed \<Rightarrow>
          (if cmd_closed p then p
           else
             (let p = p\<lparr>cmd_closed := True\<rparr>
              in if seal_closed p then return_result QueueClosed p else p))
      | _ \<Rightarrow> p)"

definition fence_step :: "seal_command \<Rightarrow> observation \<Rightarrow> transaction_publisher \<Rightarrow> transaction_publisher" where
  "fence_step cmd ob p =
     (case ob of
        SeesDeadline \<Rightarrow> p\<lparr>pub_phase := Discarding cmd DeliveryDeadlineExceeded\<rparr>
      | SeesCommandsClosed \<Rightarrow> p\<lparr>pub_phase := Sealing cmd\<rparr>
      | SeesCommand c w \<Rightarrow>
          (case fence_command c (wait_result w) p of
             (None, p) \<Rightarrow> p
           | (Some fail, p) \<Rightarrow> p\<lparr>pub_phase := Discarding cmd fail\<rparr>)
      | _ \<Rightarrow> p)"

definition publisher_step :: "observation \<Rightarrow> transaction_publisher \<Rightarrow> transaction_publisher" where
  "publisher_step ob p =
     (case pub_phase p of
        InLoop \<Rightarrow> loop_step ob p
      | Sticky fail \<Rightarrow>
          (case ob of
             SeesSeal cmd \<Rightarrow> (close_admission p)\<lparr>pub_phase := Discarding cmd fail\<rparr>
           | SeesSealClosed \<Rightarrow> return_result fail (close_admission p)
           | _ \<Rightarrow> p)
      | Fencing cmd \<Rightarrow> fence_step cmd ob p
      | Discarding cmd fail \<Rightarrow>
          (case ob of
             SeesDeadline \<Rightarrow> reply_sticky fail p
           | SeesCommandsClosed \<Rightarrow> reply_sticky fail p
           | _ \<Rightarrow> p)
      | Sealing cmd \<Rightarrow> (case ob of SeesTerminalSend r \<Rightarrow> finish_seal cmd r p | _ \<Rightarrow> p)
      | PublisherReturned _ \<Rightarrow> p)"

definition run_event_publisher :: "observation list \<Rightarrow> transaction_publisher \<Rightarrow> transaction_publisher" where
  "run_event_publisher obs p = foldl (\<lambda>p ob. publisher_step ob p) p obs"

section \<open>What the commands stand for\<close>

text \<open>
  The specification: the payloads that a list of commands asks for. A session can be
  established only as the very first event.
\<close>

definition add_payload :: "event_publisher_command \<Rightarrow> transaction_event_payload list \<Rightarrow> transaction_event_payload list" where
  "add_payload c xs =
     (case c of
        EstablishExternal e \<Rightarrow> if xs = [] then [SessionEstablished e] else xs
      | PublishCommand x \<Rightarrow> xs @ [x])"

definition asked_for :: "event_publisher_command list \<Rightarrow> transaction_event_payload list" where
  "asked_for cs = foldl (\<lambda>xs c. add_payload c xs) [] cs"

text \<open>The commands the task took from its channel in a run.\<close>

definition takes_command :: "transaction_publisher \<Rightarrow> bool" where
  "takes_command p \<longleftrightarrow>
     (case pub_phase p of
        InLoop \<Rightarrow> \<not> cmd_closed p
      | Fencing _ \<Rightarrow> True
      | Discarding _ _ \<Rightarrow> True
      | _ \<Rightarrow> False)"

fun taken :: "observation \<Rightarrow> transaction_publisher \<Rightarrow> event_publisher_command list" where
  "taken (SeesCommand c w) p = (if takes_command p then [c] else [])"
| "taken ob p = []"

fun taken_commands :: "observation list \<Rightarrow> transaction_publisher \<Rightarrow> event_publisher_command list" where
  "taken_commands [] p = []"
| "taken_commands (ob # obs) p = taken ob p @ taken_commands obs (publisher_step ob p)"

lemma asked_for_snoc [simp]: "asked_for (cs @ [c]) = add_payload c (asked_for cs)"
  by (simp add: asked_for_def)

lemma add_payload_prefix: "prefix xs (add_payload c xs)"
  by (simp add: add_payload_def split: event_publisher_command.split)

section \<open>Single commands\<close>

fun payload_of :: "event_publisher_command \<Rightarrow> transaction_event_payload" where
  "payload_of (EstablishExternal e) = SessionEstablished e"
| "payload_of (PublishCommand x) = x"

fun skipped :: "event_publisher_command \<Rightarrow> transaction_publisher \<Rightarrow> bool" where
  "skipped (EstablishExternal _) p \<longleftrightarrow> session_established p \<or> next_seq p \<noteq> 1"
| "skipped (PublishCommand _) p \<longleftrightarrow> False"

text \<open>The effect of an event that was committed, and of one that was not.\<close>

definition advanced :: "transaction_event_payload \<Rightarrow> transaction_publisher \<Rightarrow> transaction_publisher \<Rightarrow> bool" where
  "advanced x p p' \<longleftrightarrow>
     (\<exists>sid. host_events p' = host_events p @ [make_event sid x p]) \<and>
     last_committed p' = next_seq p \<and> next_seq p' = saturating_add (next_seq p) 1 \<and>
     pub_transaction p' = pub_transaction p \<and> pub_channel p' = pub_channel p \<and> seal_reply p' = seal_reply p"

definition stalled :: "transaction_publisher \<Rightarrow> transaction_publisher \<Rightarrow> bool" where
  "stalled p p' \<longleftrightarrow>
     host_events p' = host_events p \<and> last_committed p' = last_committed p \<and> next_seq p' = next_seq p \<and>
     session_established p' = session_established p \<and>
     pub_transaction p' = pub_transaction p \<and> pub_channel p' = pub_channel p \<and> seal_reply p' = seal_reply p"

lemmas publisher_defs = hand_over_def commit_sequence_def bind_established_def close_admission_def
  enter_fence_def on_wait_end_def apply_ordinary_outcome_def wait_send_or_seal_def enqueue_under_deadline_def
  make_event_def Let_def

lemma ordinary_skipped: "skipped c p \<Longrightarrow> ordinary_command c w p = p"
  by (cases c) (auto simp: ordinary_command_def establish_external_def)

lemma ordinary_sent:
  assumes "\<not> skipped c p" and "wait_result w = Sent"
  shows "advanced (payload_of c) p (ordinary_command c w p) \<and>
    pub_phase (ordinary_command c w p) = (case w of NoSeal _ \<Rightarrow> pub_phase p | SealDuring cmd _ \<Rightarrow> Fencing cmd)"
  using assms
  by (cases c; cases w)
    (auto simp: advanced_def ordinary_command_def establish_external_def publish_ordinary_def publisher_defs split: prod.split)

lemma ordinary_failed:
  assumes "\<not> skipped c p" and "enqueue_under_deadline (wait_result w) = Some f"
  shows "stalled p (ordinary_command c w p) \<and>
    pub_phase (ordinary_command c w p) = (case w of NoSeal _ \<Rightarrow> Sticky f | SealDuring cmd _ \<Rightarrow> Discarding cmd f)"
  using assms
  by (cases c; cases w)
    (auto simp: stalled_def ordinary_command_def establish_external_def publish_ordinary_def publisher_defs
      split: prod.split send_end.splits)

lemma fence_skipped: "skipped c p \<Longrightarrow> fence_command c r p = (None, p)"
  by (cases c) (auto simp: fence_command_def)

lemma fence_sent:
  assumes "\<not> skipped c p" and "r = Sent"
  shows "\<exists>p'. fence_command c r p = (None, p') \<and> advanced (payload_of c) p p' \<and> pub_phase p' = pub_phase p"
  using assms by (cases c) (auto simp: advanced_def fence_command_def publisher_defs split: prod.split)

lemma fence_failed:
  assumes "\<not> skipped c p" and "enqueue_under_deadline r = Some f"
  shows "\<exists>p'. fence_command c r p = (Some f, p') \<and> stalled p p'"
  using assms
  by (cases c) (auto simp: stalled_def fence_command_def publisher_defs split: prod.split send_end.splits)

lemma deadline_not_published: "enqueue_under_deadline r = Some f \<Longrightarrow> f \<noteq> DeliveryPublished"
  by (auto simp: enqueue_under_deadline_def map_send_err_def split: send_end.splits event_enqueue_error.splits)

lemma deadline_Sent: "enqueue_under_deadline r = None \<longleftrightarrow> r = Sent"
  by (simp add: enqueue_under_deadline_def split: send_end.split)

section \<open>The invariant\<close>

definition event_log_ok :: "string \<Rightarrow> string \<Rightarrow> transaction_publisher \<Rightarrow> bool" where
  "event_log_ok tx channel p \<longleftrightarrow>
     pub_transaction p = tx \<and> pub_channel p = channel \<and>
     map ev_sequence (host_events p) = map (\<lambda>i. min (Suc i) usize_max) [0..<length (host_events p)] \<and>
     list_all (\<lambda>ev. ev_transaction ev = tx \<and> ev_channel ev = channel) (host_events p) \<and>
     last_committed p = min (length (host_events p)) usize_max"

definition counting :: "transaction_publisher \<Rightarrow> bool" where
  "counting p \<longleftrightarrow>
     next_seq p = min (Suc (length (host_events p))) usize_max \<and> (session_established p \<longrightarrow> host_events p \<noteq> [])"

abbreviation event_payloads :: "transaction_publisher \<Rightarrow> transaction_event_payload list" where
  "event_payloads p \<equiv> map ev_payload (host_events p)"

definition returned_ok :: "event_publisher_command list \<Rightarrow> transaction_publisher \<Rightarrow> terminal_publication_result \<Rightarrow> bool" where
  "returned_ok cs p r \<longleftrightarrow>
     result_last_sequence r = last_committed p \<and> (seal_reply p = None \<or> seal_reply p = Some r) \<and>
     (if result_delivery r = DeliveryPublished
      then (\<exists>t. event_payloads p = asked_for cs @ [EndedEvent t] \<and> emitted_events t = last_committed p)
      else prefix (event_payloads p) (asked_for cs))"

definition phase_ok :: "event_publisher_command list \<Rightarrow> transaction_publisher \<Rightarrow> bool" where
  "phase_ok cs p \<longleftrightarrow>
     (case pub_phase p of
        PublisherReturned r \<Rightarrow> returned_ok cs p r
      | Sticky f \<Rightarrow> counting p \<and> seal_reply p = None \<and> f \<noteq> DeliveryPublished \<and> prefix (event_payloads p) (asked_for cs)
      | Discarding _ f \<Rightarrow> counting p \<and> seal_reply p = None \<and> f \<noteq> DeliveryPublished \<and> prefix (event_payloads p) (asked_for cs)
      | _ \<Rightarrow> counting p \<and> seal_reply p = None \<and> event_payloads p = asked_for cs)"

definition publisher_inv :: "string \<Rightarrow> string \<Rightarrow> event_publisher_command list \<Rightarrow> transaction_publisher \<Rightarrow> bool" where
  "publisher_inv tx channel cs p \<longleftrightarrow> event_log_ok tx channel p \<and> phase_ok cs p"

lemma usize_max_pos: "1 < usize_max"
  by (simp add: usize_max_def)

lemma numbered_snoc:
  assumes "event_log_ok tx channel p" and "counting p" and "advanced x p p'"
  shows "event_log_ok tx channel p'" and "counting p'" and "event_payloads p' = event_payloads p @ [x]"
    and "seal_reply p' = seal_reply p"
  using assms usize_max_pos
  by (auto simp: event_log_ok_def counting_def advanced_def make_event_def saturating_add_def)

lemma stalled_keeps:
  assumes "stalled p p'"
  shows "event_log_ok tx channel p' = event_log_ok tx channel p" and "counting p' = counting p"
    and "host_events p' = host_events p" and "seal_reply p' = seal_reply p"
  using assms by (auto simp: event_log_ok_def counting_def stalled_def)

lemma skipped_iff:
  "counting p \<Longrightarrow> skipped c p \<longleftrightarrow> (\<exists>e. c = EstablishExternal e) \<and> host_events p \<noteq> []"
  using usize_max_pos by (cases c) (auto simp: counting_def min_def split: if_splits)

lemma add_payload_skipped:
  assumes "counting p" and "event_payloads p = asked_for cs"
  shows "add_payload c (asked_for cs) = (if skipped c p then asked_for cs else asked_for cs @ [payload_of c])"
  using assms skipped_iff [OF assms(1), of c] by (cases c) (auto simp: add_payload_def simp flip: assms(2))

lemma command_outcomes:
  obtains "skipped c p" | "\<not> skipped c p" "r = Sent" | f where "\<not> skipped c p" "enqueue_under_deadline r = Some f"
  using deadline_Sent [of r] by (cases "enqueue_under_deadline r") auto

lemma publisher_frame [simp, frame_simps]:
  "event_log_ok tx channel (p\<lparr>pub_phase := ph\<rparr>) = event_log_ok tx channel p"
  "event_log_ok tx channel (p\<lparr>cmd_closed := b\<rparr>) = event_log_ok tx channel p"
  "event_log_ok tx channel (p\<lparr>seal_closed := b\<rparr>) = event_log_ok tx channel p"
  "event_log_ok tx channel (p\<lparr>admit_open := b\<rparr>) = event_log_ok tx channel p"
  "event_log_ok tx channel (p\<lparr>seal_reply := r\<rparr>) = event_log_ok tx channel p"
  "counting (p\<lparr>pub_phase := ph\<rparr>) = counting p"
  "counting (p\<lparr>cmd_closed := b\<rparr>) = counting p"
  "counting (p\<lparr>seal_closed := b\<rparr>) = counting p"
  "counting (p\<lparr>admit_open := b\<rparr>) = counting p"
  by (simp_all add: event_log_ok_def counting_def)

text \<open>A command keeps the invariant, in the loop and behind the fence.\<close>

lemma command_inv:
  assumes "publisher_inv tx channel cs p" and "pub_phase p = InLoop"
  shows "publisher_inv tx channel (cs @ [c]) (ordinary_command c w p)"
proof -
  have inv: "event_log_ok tx channel p" "counting p" "seal_reply p = None" "event_payloads p = asked_for cs"
    using assms by (simp_all add: publisher_inv_def phase_ok_def)
  note add = add_payload_skipped [OF inv(2,4), of c]
  show ?thesis
  proof (cases rule: command_outcomes [where c = c and p = p and r = "wait_result w"])
    case 1
    then show ?thesis using inv assms(2) add by (simp add: ordinary_skipped publisher_inv_def phase_ok_def)
  next
    case 2
    note adv = numbered_snoc [OF inv(1,2) conjunct1 [OF ordinary_sent [OF 2]]]
    then show ?thesis
      using ordinary_sent [OF 2] inv assms(2) add 2(1)
      by (cases w) (simp_all add: publisher_inv_def phase_ok_def)
  next
    case (3 f)
    note st = stalled_keeps [OF conjunct1 [OF ordinary_failed [OF 3]]]
    have "prefix (event_payloads p) (asked_for (cs @ [c]))" using inv(4) add_payload_prefix by simp
    then show ?thesis
      using ordinary_failed [OF 3] inv st deadline_not_published [OF 3(2)]
      by (cases w) (simp_all add: publisher_inv_def phase_ok_def)
  qed
qed

lemma fence_inv:
  assumes "publisher_inv tx channel cs p" and "pub_phase p = Fencing cmd"
  shows "publisher_inv tx channel (cs @ [c]) (fence_step cmd (SeesCommand c w) p)"
proof -
  have inv: "event_log_ok tx channel p" "counting p" "seal_reply p = None" "event_payloads p = asked_for cs"
    using assms by (simp_all add: publisher_inv_def phase_ok_def)
  note add = add_payload_skipped [OF inv(2,4), of c]
  show ?thesis
  proof (cases rule: command_outcomes [where c = c and p = p and r = "wait_result w"])
    case 1
    then show ?thesis using inv assms(2) add by (simp add: fence_step_def fence_skipped publisher_inv_def phase_ok_def)
  next
    case 2
    then obtain p' where p': "fence_command c (wait_result w) p = (None, p')" "advanced (payload_of c) p p'" "pub_phase p' = pub_phase p"
      using fence_sent by blast
    show ?thesis
      using p' numbered_snoc [OF inv(1,2) p'(2)] inv assms(2) add 2(1)
      by (simp add: fence_step_def publisher_inv_def phase_ok_def)
  next
    case (3 f)
    then obtain p' where p': "fence_command c (wait_result w) p = (Some f, p')" "stalled p p'"
      using fence_failed by blast
    have "prefix (event_payloads p) (asked_for (cs @ [c]))" using inv(4) add_payload_prefix by simp
    then show ?thesis
      using p' stalled_keeps [OF p'(2)] inv deadline_not_published [OF 3(2)]
      by (simp add: fence_step_def publisher_inv_def phase_ok_def)
  qed
qed

lemma finish_inv:
  assumes "publisher_inv tx channel cs p" and "pub_phase p = Sealing cmd"
  shows "publisher_inv tx channel cs (finish_seal cmd r p)"
proof -
  have inv: "event_log_ok tx channel p" "counting p" "seal_reply p = None" "event_payloads p = asked_for cs"
    using assms by (simp_all add: publisher_inv_def phase_ok_def)
  then have "pub_transaction p = tx" by (simp add: event_log_ok_def)
  moreover obtain sid session where "ensure_session (pub_session p) (tx_end_session (seal_terminal cmd)) tx = (sid, session)"
    by fastforce
  ultimately have s: "ensure_session (pub_session p) (tx_end_session (seal_terminal cmd)) (pub_transaction p) = (sid, session)"
    "ensure_session (pub_session p) (tx_end_session (seal_terminal cmd)) tx = (sid, session)" by simp_all
  show ?thesis
  proof (cases "r = Sent")
    case True
    then show ?thesis
      using inv
      by (auto simp: finish_seal_def s enqueue_under_deadline_def hand_over_def make_event_def Let_def publisher_inv_def
          phase_ok_def returned_ok_def event_log_ok_def counting_def min_def)
  next
    case False
    then obtain f where "enqueue_under_deadline r = Some f" using deadline_Sent by blast
    with False show ?thesis
      using inv deadline_not_published [of r f]
      by (simp add: finish_seal_def s hand_over_def Let_def publisher_inv_def phase_ok_def returned_ok_def event_log_ok_def)
  qed
qed

lemma phase_ok_more: "phase_ok cs p \<Longrightarrow> pub_phase p = Discarding cmd f \<Longrightarrow> phase_ok (cs @ [c]) p"
  using add_payload_prefix [of "asked_for cs" c] by (auto simp: phase_ok_def intro: prefix_order.trans)

lemma loop_inv:
  assumes "publisher_inv tx channel cs p" and "pub_phase p = InLoop"
  shows "publisher_inv tx channel (cs @ taken ob p) (publisher_step ob p)"
proof (cases ob)
  case (SeesCommand c w)
  then show ?thesis
    using assms command_inv [OF assms] by (simp add: publisher_step_def loop_step_def takes_command_def)
qed (use assms in \<open>simp_all add: publisher_step_def loop_step_def Let_def return_result_def enter_fence_def
    close_admission_def publisher_inv_def phase_ok_def returned_ok_def\<close>)

lemma publisher_inv_step:
  assumes "publisher_inv tx channel cs p"
  shows "publisher_inv tx channel (cs @ taken ob p) (publisher_step ob p)"
proof (cases "pub_phase p")
  case InLoop
  then show ?thesis by (rule loop_inv [OF assms])
next
  case (Fencing cmd)
  show ?thesis
  proof (cases ob)
    case (SeesCommand c w)
    then show ?thesis using Fencing fence_inv [OF assms Fencing] by (simp add: publisher_step_def takes_command_def)
  qed (use assms Fencing in \<open>simp_all add: publisher_step_def fence_step_def publisher_inv_def phase_ok_def\<close>)
next
  case (Discarding cmd f)
  show ?thesis
    using assms Discarding phase_ok_more [of cs p cmd f]
    by (cases ob) (auto simp: publisher_step_def takes_command_def reply_sticky_def Let_def publisher_inv_def phase_ok_def
        returned_ok_def)
next
  case (Sealing cmd)
  then show ?thesis
    using assms finish_inv [OF assms Sealing] by (cases ob) (simp_all add: publisher_step_def takes_command_def)
next
  case (Sticky f)
  then show ?thesis
    using assms
    by (cases ob) (auto simp: publisher_step_def takes_command_def return_result_def close_admission_def publisher_inv_def
        phase_ok_def returned_ok_def)
next
  case (PublisherReturned r)
  then show ?thesis using assms by (cases ob) (simp_all add: publisher_step_def takes_command_def)
qed

lemma publisher_inv_run:
  "publisher_inv tx channel cs p \<Longrightarrow>
    publisher_inv tx channel (cs @ taken_commands obs p) (run_event_publisher obs p)"
proof (induction obs arbitrary: cs p)
  case (Cons ob obs)
  from Cons.IH [OF publisher_inv_step [OF Cons.prems]] show ?case
    by (simp add: run_event_publisher_def)
qed (simp add: run_event_publisher_def)

lemma publisher_inv_new: "publisher_inv tx channel [] (transaction_publisher_new tx channel session)"
  using usize_max_pos
  by (simp add: publisher_inv_def transaction_publisher_new_def event_log_ok_def phase_ok_def counting_def asked_for_def)

section \<open>Properties\<close>

text \<open>
  The events of a transaction reach the host numbered one, two, three and so on without a
  gap, up to the largest machine number, all under the identities of the transaction and its
  channel, and the last committed sequence number is always their count: in every state, after
  any mix of commands, refused and timed-out sends, seals and closed channels.
\<close>

theorem events_numbered:
  "case run_event_publisher obs (transaction_publisher_new tx channel session) of p \<Rightarrow>
     map ev_sequence (host_events p) = map (\<lambda>i. min (Suc i) usize_max) [0..<length (host_events p)] \<and>
     list_all (\<lambda>ev. ev_transaction ev = tx \<and> ev_channel ev = channel) (host_events p) \<and>
     last_committed p = min (length (host_events p)) usize_max"
  using publisher_inv_run [OF publisher_inv_new, of tx channel obs session]
  by (simp add: publisher_inv_def event_log_ok_def)

text \<open>
  C17. The publisher drops nothing silently. If it reports the terminal event as published, the
  host has every event that the commands it took asked for, in order, and then the terminal
  event, which is last and counts them all including itself. If it reports anything else, the
  host has an initial part of what was asked for and no terminal event. A reply to the seal
  is the result it returns.
\<close>

theorem publisher_lossless:
  "case run_event_publisher obs (transaction_publisher_new tx channel session) of p \<Rightarrow>
   case taken_commands obs (transaction_publisher_new tx channel session) of cs \<Rightarrow>
     (case pub_phase p of
        PublisherReturned r \<Rightarrow>
          result_last_sequence r = last_committed p \<and> (seal_reply p = None \<or> seal_reply p = Some r) \<and>
          (if result_delivery r = DeliveryPublished
           then (\<exists>t. map ev_payload (host_events p) = asked_for cs @ [EndedEvent t] \<and> emitted_events t = last_committed p)
           else prefix (map ev_payload (host_events p)) (asked_for cs))
      | Sticky _ \<Rightarrow> prefix (map ev_payload (host_events p)) (asked_for cs)
      | Discarding _ _ \<Rightarrow> prefix (map ev_payload (host_events p)) (asked_for cs)
      | _ \<Rightarrow> map ev_payload (host_events p) = asked_for cs)"
proof -
  let ?new = "transaction_publisher_new tx channel session"
  have "phase_ok (taken_commands obs ?new) (run_event_publisher obs ?new)"
    using publisher_inv_run [OF publisher_inv_new, of tx channel obs session] by (simp add: publisher_inv_def)
  then show ?thesis
    by (cases "pub_phase (run_event_publisher obs ?new)") (simp_all add: phase_ok_def returned_ok_def)
qed

text \<open>Whether a seal has reached the task.\<close>

fun sealed :: "publisher_phase \<Rightarrow> bool" where
  "sealed (Fencing _) = True"
| "sealed (Discarding _ _) = True"
| "sealed (Sealing _) = True"
| "sealed _ = False"

text \<open>
  C34. A seal is always answered. Once it has reached the task, its deadline alone brings the
  task to an end with a reply, whatever came before and however many commands are still
  queued: the drain loop stops at the deadline, and so do the discarding loop and the send
  of the terminal event, which may also succeed.
\<close>

theorem seal_always_answered:
  assumes "sealed (pub_phase p)"
  shows "\<exists>r. pub_phase (run_event_publisher [SeesDeadline, SeesDeadline, SeesTerminalSend e] p) = PublisherReturned r \<and>
    seal_reply (run_event_publisher [SeesDeadline, SeesDeadline, SeesTerminalSend e] p) = Some r"
  using assms
  by (cases "pub_phase p")
    (auto simp: run_event_publisher_def publisher_step_def fence_step_def reply_sticky_def finish_seal_def hand_over_def Let_def
      split: prod.split option.split)

text \<open>A terminal event as the supervisor proposes it.\<close>

definition plain_end :: transaction_end_event where
  "plain_end =
     \<lparr>tx_end_id = ''t'', tx_end_session = None, tx_end_channel = ''c'', tx_end_kind = TxCompleted,
      emitted_events = 0, tx_end_usage = default_usage, tx_end_diagnostics = []\<rparr>"

theorem seal_always_answered_witness:
  "\<exists>r. seal_reply (run_event_publisher
      [SeesSeal \<lparr>seal_terminal = plain_end\<rparr>, SeesDeadline, SeesDeadline, SeesTerminalSend Sent] (transaction_publisher_new ''t'' ''c'' None)) = Some r"
proof -
  let ?p = "publisher_step (SeesSeal \<lparr>seal_terminal = plain_end\<rparr>) (transaction_publisher_new ''t'' ''c'' None)"
  have "sealed (pub_phase ?p)" by (simp add: publisher_step_def loop_step_def enter_fence_def transaction_publisher_new_def)
  from seal_always_answered [OF this, of Sent] show ?thesis by (auto simp: run_event_publisher_def)
qed

text \<open>
  The session identity under which a session is established need not be the one of the other
  events: the event carries the external identity, while a different authoritative identity
  that the transaction was admitted with stays in force.
\<close>

lemma established_identity_differs:
  "map ev_session (host_events (run_event_publisher
     [SeesCommand (EstablishExternal ''b'') (NoSeal Sent),
      SeesCommand (PublishCommand (SessionEstablished ''x'')) (NoSeal Sent)] (transaction_publisher_new ''t'' ''c'' (Some ''a'')))) = [''b'', ''a'']"
  by (simp add: run_event_publisher_def publisher_step_def loop_step_def ordinary_command_def establish_external_def
      publish_ordinary_def transaction_publisher_new_def publisher_defs ensure_session_def is_transaction_scoped_session_def
      transaction_scoped_session_id_def validated_string_def validate_identity_string_def MAX_IDENTITY_BYTES_def
      saturating_add_def usize_max_def split: option.split)

end
