(* ===== verification/Tool_Capacity.thy ===== *)
theory Tool_Capacity
  imports Assoc
begin

text \<open>
  \<open>crates/monoloop-loop/src/transaction/tool_capacity.rs\<close>: how many tools may run at once, over
  the whole process, in one transaction and for one tool. Taking a permit happens under the
  mutex of the transaction, whose counters others can meanwhile only lower, so it is one step;
  dropping a permit is three, of which only the last takes the mutex. Counters are integers,
  so that a subtraction below zero, which would wrap in the source, shows.
\<close>

section \<open>Counters\<close>

record tool_slot =
  tslot_max :: int
  tslot_active :: int

record tool_capacity =
  shared_max :: int
  shared_active :: int
  txn_max_concurrent :: int
  txn_max_queued :: int
  txn_active :: int
  txn_queued :: int
  per_tool :: "(string \<times> tool_slot) list"

definition tool_capacity_new :: "nat \<Rightarrow> int \<Rightarrow> nat \<Rightarrow> nat \<Rightarrow> tool_capacity" where
  "tool_capacity_new shared active concurrent queued =
     \<lparr>shared_max = max (int shared) 1, shared_active = active,
      txn_max_concurrent = max (int concurrent) 1, txn_max_queued = max (int queued) 1,
      txn_active = 0, txn_queued = 0, per_tool = []\<rparr>"

definition configure_tool :: "string \<times> nat \<Rightarrow> tool_capacity \<Rightarrow> tool_capacity" where
  "configure_tool tm c =
     c\<lparr>per_tool := assoc_put (fst tm) \<lparr>tslot_max = max (int (snd tm)) 1, tslot_active = 0\<rparr> (per_tool c)\<rparr>"

section \<open>Operations\<close>

definition try_enqueue :: "tool_capacity \<Rightarrow> bool \<times> tool_capacity" where
  "try_enqueue c =
     (if txn_queued c \<ge> txn_max_queued c then (False, c) else (True, c\<lparr>txn_queued := txn_queued c + 1\<rparr>))"

definition dequeue :: "tool_capacity \<Rightarrow> tool_capacity" where
  "dequeue c = c\<lparr>txn_queued := txn_queued c - 1\<rparr>"

definition shared_try_acquire :: "tool_capacity \<Rightarrow> bool \<times> tool_capacity" where
  "shared_try_acquire c =
     (if shared_active c \<ge> shared_max c then (False, c) else (True, c\<lparr>shared_active := shared_active c + 1\<rparr>))"

definition slot_of :: "string \<Rightarrow> tool_capacity \<Rightarrow> tool_slot" where
  "slot_of t c = (case map_of (per_tool c) t of Some s \<Rightarrow> s | None \<Rightarrow> \<lparr>tslot_max = 1, tslot_active = 0\<rparr>)"

definition try_acquire :: "string \<Rightarrow> tool_capacity \<Rightarrow> bool \<times> tool_capacity" where
  "try_acquire t c =
     (let slot = slot_of t c;
          c = c\<lparr>per_tool := assoc_put t slot (per_tool c)\<rparr>
      in if tslot_active slot \<ge> tslot_max slot then (False, c)
         else if txn_active c \<ge> txn_max_concurrent c then (False, c)
         else (case shared_try_acquire c of
                 (False, c) \<Rightarrow> (False, c)
               | (True, c) \<Rightarrow>
                   (True, c\<lparr>per_tool := assoc_put t (slot\<lparr>tslot_active := tslot_active slot + 1\<rparr>) (per_tool c),
                            txn_active := txn_active c + 1, txn_queued := txn_queued c - 1\<rparr>)))"

text \<open>The three steps of dropping a permit.\<close>

definition permit_release_shared :: "tool_capacity \<Rightarrow> tool_capacity" where
  "permit_release_shared c = c\<lparr>shared_active := shared_active c - 1\<rparr>"

definition permit_release_txn :: "tool_capacity \<Rightarrow> tool_capacity" where
  "permit_release_txn c = c\<lparr>txn_active := txn_active c - 1\<rparr>"

definition permit_release_tool :: "string \<Rightarrow> tool_capacity \<Rightarrow> tool_capacity" where
  "permit_release_tool t c =
     (case map_of (per_tool c) t of
        Some s \<Rightarrow> c\<lparr>per_tool := assoc_put t (s\<lparr>tslot_active := max (tslot_active s - 1) 0\<rparr>) (per_tool c)\<rparr>
      | None \<Rightarrow> c)"

definition drop_permit :: "string \<Rightarrow> tool_capacity \<Rightarrow> tool_capacity" where
  "drop_permit t c = permit_release_tool t (permit_release_txn (permit_release_shared c))"

section \<open>Many calls at once\<close>

text \<open>
  The state of a transaction's tools: the counters, how many calls hold a place in the queue,
  the permits with the stage of their drop, and how many permits other transactions hold of
  the shared counter.
\<close>

datatype permit_stage = PermitHeld | SharedReleased | TxnReleased

record tool_system =
  ts_capacity :: tool_capacity
  ts_waiting :: nat
  ts_permits :: "(string \<times> permit_stage) list"
  ts_others :: nat

inductive tool_system_step :: "tool_system \<Rightarrow> tool_system \<Rightarrow> bool" where
  enqueue: "try_enqueue (ts_capacity s) = (True, c) \<Longrightarrow>
    tool_system_step s (s\<lparr>ts_capacity := c, ts_waiting := Suc (ts_waiting s)\<rparr>)"
| give_up: "ts_waiting s = Suc n \<Longrightarrow>
    tool_system_step s (s\<lparr>ts_capacity := dequeue (ts_capacity s), ts_waiting := n\<rparr>)"
| refused: "try_acquire t (ts_capacity s) = (False, c) \<Longrightarrow> tool_system_step s (s\<lparr>ts_capacity := c\<rparr>)"
| acquire: "ts_waiting s = Suc n \<Longrightarrow> try_acquire t (ts_capacity s) = (True, c) \<Longrightarrow>
    tool_system_step s (s\<lparr>ts_capacity := c, ts_waiting := n, ts_permits := ts_permits s @ [(t, PermitHeld)]\<rparr>)"
| drop_shared: "i < length (ts_permits s) \<Longrightarrow> ts_permits s ! i = (t, PermitHeld) \<Longrightarrow>
    tool_system_step s (s\<lparr>ts_capacity := permit_release_shared (ts_capacity s),
      ts_permits := (ts_permits s)[i := (t, SharedReleased)]\<rparr>)"
| drop_txn: "i < length (ts_permits s) \<Longrightarrow> ts_permits s ! i = (t, SharedReleased) \<Longrightarrow>
    tool_system_step s (s\<lparr>ts_capacity := permit_release_txn (ts_capacity s),
      ts_permits := (ts_permits s)[i := (t, TxnReleased)]\<rparr>)"
| drop_tool: "ts_permits s = ps @ (t, TxnReleased) # qs \<Longrightarrow>
    tool_system_step s (s\<lparr>ts_capacity := permit_release_tool t (ts_capacity s), ts_permits := ps @ qs\<rparr>)"
| other_acquire: "shared_try_acquire (ts_capacity s) = (True, c) \<Longrightarrow>
    tool_system_step s (s\<lparr>ts_capacity := c, ts_others := Suc (ts_others s)\<rparr>)"
| other_release: "ts_others s = Suc n \<Longrightarrow>
    tool_system_step s (s\<lparr>ts_capacity := permit_release_shared (ts_capacity s), ts_others := n\<rparr>)"

inductive tool_system_reachable :: "tool_capacity \<Rightarrow> nat \<Rightarrow> tool_system \<Rightarrow> bool" for c0 others where
  start: "tool_system_reachable c0 others \<lparr>ts_capacity = c0, ts_waiting = 0, ts_permits = [], ts_others = others\<rparr>"
| step: "tool_system_reachable c0 others s \<Longrightarrow> tool_system_step s s' \<Longrightarrow> tool_system_reachable c0 others s'"

section \<open>The invariant\<close>

definition permits :: "(string \<times> permit_stage \<Rightarrow> bool) \<Rightarrow> tool_system \<Rightarrow> int" where
  "permits q s = int (length (filter q (ts_permits s)))"

definition counters_ok :: "tool_system \<Rightarrow> bool" where
  "counters_ok s \<longleftrightarrow>
     (case ts_capacity s of c \<Rightarrow>
        txn_queued c = int (ts_waiting s) \<and> txn_queued c \<le> txn_max_queued c \<and>
        shared_active c = int (ts_others s) + permits (\<lambda>p. snd p = PermitHeld) s \<and> shared_active c \<le> shared_max c \<and>
        txn_active c = permits (\<lambda>p. snd p \<noteq> TxnReleased) s \<and> txn_active c \<le> txn_max_concurrent c)"

definition slot_ok :: "string \<Rightarrow> tool_system \<Rightarrow> bool" where
  "slot_ok t s \<longleftrightarrow>
     tslot_active (slot_of t (ts_capacity s)) = permits (\<lambda>p. fst p = t) s \<and>
     tslot_active (slot_of t (ts_capacity s)) \<le> tslot_max (slot_of t (ts_capacity s))"

definition tool_capacity_inv :: "tool_system \<Rightarrow> bool" where
  "tool_capacity_inv s \<longleftrightarrow> counters_ok s \<and> (\<forall>t. slot_ok t s)"

lemma slot_of_put: "slot_of t (c\<lparr>per_tool := assoc_put u s (per_tool c)\<rparr>) = (if t = u then s else slot_of t c)"
  by (simp add: slot_of_def map_of_assoc_put)

lemma slot_of_frame [simp, frame_simps]:
  "slot_of t (c\<lparr>shared_active := n\<rparr>) = slot_of t c"
  "slot_of t (c\<lparr>txn_active := n\<rparr>) = slot_of t c"
  "slot_of t (c\<lparr>txn_queued := n\<rparr>) = slot_of t c"
  by (simp_all add: slot_of_def)

lemma permits_update:
  assumes "i < length ps" and "ps ! i = x"
  shows "int (length (filter q (ps[i := y]))) = int (length (filter q ps)) - (if q x then 1 else 0) + (if q y then 1 else 0)"
  using assms
proof (induction ps arbitrary: i)
  case (Cons p ps)
  then show ?case by (cases i) auto
qed simp

lemma try_acquire_frame:
  assumes "try_acquire t c = (b, c')"
  shows "shared_max c' = shared_max c" "txn_max_concurrent c' = txn_max_concurrent c" "txn_max_queued c' = txn_max_queued c"
    "tslot_max (slot_of u c') = tslot_max (slot_of u c)"
    "shared_active c' = shared_active c + (if b then 1 else 0)" "txn_active c' = txn_active c + (if b then 1 else 0)"
    "txn_queued c' = txn_queued c - (if b then 1 else 0)"
    "tslot_active (slot_of u c') = tslot_active (slot_of u c) + (if b \<and> u = t then 1 else 0)"
    "b \<Longrightarrow> shared_active c < shared_max c \<and> txn_active c < txn_max_concurrent c \<and>
      tslot_active (slot_of t c) < tslot_max (slot_of t c)"
  using assms
  by (auto simp: try_acquire_def shared_try_acquire_def Let_def slot_of_def map_of_assoc_put split: if_splits option.splits)

lemma slot_of_release:
  "slot_of u (permit_release_tool t c) =
     (if u = t \<and> map_of (per_tool c) t \<noteq> None
      then (slot_of t c)\<lparr>tslot_active := max (tslot_active (slot_of t c) - 1) 0\<rparr> else slot_of u c)"
  by (auto simp: permit_release_tool_def slot_of_def map_of_assoc_put split: option.split)

lemma permit_release_frame [simp, frame_simps]:
  "shared_max (permit_release_tool t c) = shared_max c" "shared_active (permit_release_tool t c) = shared_active c"
  "txn_max_concurrent (permit_release_tool t c) = txn_max_concurrent c" "txn_active (permit_release_tool t c) = txn_active c"
  "txn_max_queued (permit_release_tool t c) = txn_max_queued c" "txn_queued (permit_release_tool t c) = txn_queued c"
  by (simp_all add: permit_release_tool_def split: option.split)

lemma permits_nonneg: "0 \<le> permits q s"
  by (simp add: permits_def)

lemma slot_ok_drop_tool:
  assumes "slot_ok u s" and "slot_ok t s" and "ts_permits s = ps @ (t, TxnReleased) # qs"
  shows "slot_ok u (s\<lparr>ts_capacity := permit_release_tool t (ts_capacity s), ts_permits := ps @ qs\<rparr>)"
proof -
  have "1 \<le> permits (\<lambda>p. fst p = t) s" by (simp add: permits_def assms(3))
  then have pos: "1 \<le> tslot_active (slot_of t (ts_capacity s))" using assms(2) by (simp add: slot_ok_def)
  then have "map_of (per_tool (ts_capacity s)) t \<noteq> None" by (auto simp: slot_of_def split: option.splits)
  then show ?thesis
    using assms(1) pos by (simp add: slot_ok_def slot_of_release permits_def assms(3) split: if_splits)
qed

lemma counters_ok_step:
  assumes "counters_ok s" and "tool_system_step s s'"
  shows "counters_ok s'"
  using assms(2)
proof cases
  case (acquire n t c)
  then show ?thesis
    using assms(1) try_acquire_frame [OF acquire(3)] by (simp add: counters_ok_def permits_def)
next
  case (refused t c)
  then show ?thesis
    using assms(1) try_acquire_frame(1-7) [OF refused(2)] by (simp add: counters_ok_def permits_def)
next
  case (drop_shared i t)
  then show ?thesis
    using assms(1)
    by (simp add: counters_ok_def permits_def permits_update [OF drop_shared(2,3)] permit_release_shared_def)
next
  case (drop_txn i t)
  then show ?thesis
    using assms(1) by (simp add: counters_ok_def permits_def permits_update [OF drop_txn(2,3)] permit_release_txn_def)
qed (use assms(1) in \<open>auto simp: counters_ok_def permits_def try_enqueue_def dequeue_def shared_try_acquire_def
    permit_release_shared_def split: if_splits\<close>)

lemma slot_ok_step:
  assumes "\<And>t. slot_ok t s" and "tool_system_step s s'"
  shows "slot_ok u s'"
  using assms(2)
proof cases
  case (acquire n t c)
  note f = try_acquire_frame [OF acquire(3)]
  show ?thesis
    using assms(1) [of u] f(9) by (simp add: acquire(1) slot_ok_def permits_def f(4,8)) (auto split: if_splits)
next
  case (refused t c)
  then show ?thesis using assms(1) [of u] try_acquire_frame(4,8) [OF refused(2), of u] by (simp add: slot_ok_def permits_def)
next
  case (drop_tool ps t qs)
  then show ?thesis using slot_ok_drop_tool [OF assms(1) assms(1)] by simp
next
  case (drop_shared i t)
  then show ?thesis
    using assms(1) [of u] by (simp add: slot_ok_def permits_def permits_update [OF drop_shared(2,3)] permit_release_shared_def)
next
  case (drop_txn i t)
  then show ?thesis
    using assms(1) [of u] by (simp add: slot_ok_def permits_def permits_update [OF drop_txn(2,3)] permit_release_txn_def)
qed (use assms(1) [of u] in \<open>auto simp: slot_ok_def permits_def try_enqueue_def dequeue_def shared_try_acquire_def
    permit_release_shared_def split: if_splits\<close>)

lemma tool_inv_step: "tool_capacity_inv s \<Longrightarrow> tool_system_step s s' \<Longrightarrow> tool_capacity_inv s'"
  using counters_ok_step slot_ok_step unfolding tool_capacity_inv_def by blast

text \<open>A transaction's capacity as the dispatcher builds it.\<close>

definition configured :: "nat \<Rightarrow> nat \<Rightarrow> nat \<Rightarrow> nat \<Rightarrow> (string \<times> nat) list \<Rightarrow> tool_capacity" where
  "configured shared others concurrent queued tools =
     fold configure_tool tools (tool_capacity_new shared (int others) concurrent queued)"

lemma configured_fields:
  "shared_max (configured sh o' k q ts) = max (int sh) 1" "shared_active (configured sh o' k q ts) = int o'"
  "txn_max_concurrent (configured sh o' k q ts) = max (int k) 1" "txn_max_queued (configured sh o' k q ts) = max (int q) 1"
  "txn_active (configured sh o' k q ts) = 0" "txn_queued (configured sh o' k q ts) = 0"
  "tslot_active (slot_of t (configured sh o' k q ts)) = 0 \<and> 1 \<le> tslot_max (slot_of t (configured sh o' k q ts))"
proof -
  have *: "shared_max (fold configure_tool ts c) = shared_max c" "shared_active (fold configure_tool ts c) = shared_active c"
    "txn_max_concurrent (fold configure_tool ts c) = txn_max_concurrent c"
    "txn_max_queued (fold configure_tool ts c) = txn_max_queued c"
    "txn_active (fold configure_tool ts c) = txn_active c" "txn_queued (fold configure_tool ts c) = txn_queued c" for c
    by (induction ts arbitrary: c) (simp_all add: configure_tool_def)
  show "shared_max (configured sh o' k q ts) = max (int sh) 1" "shared_active (configured sh o' k q ts) = int o'"
    "txn_max_concurrent (configured sh o' k q ts) = max (int k) 1" "txn_max_queued (configured sh o' k q ts) = max (int q) 1"
    "txn_active (configured sh o' k q ts) = 0" "txn_queued (configured sh o' k q ts) = 0"
    by (simp_all add: configured_def tool_capacity_new_def *)
  have "tslot_active (slot_of t c) = 0 \<and> 1 \<le> tslot_max (slot_of t c) \<Longrightarrow>
      tslot_active (slot_of t (fold configure_tool ts c)) = 0 \<and> 1 \<le> tslot_max (slot_of t (fold configure_tool ts c))" for c
  proof (induction ts arbitrary: c)
    case (Cons x ts)
    then show ?case by (simp add: configure_tool_def slot_of_put)
  qed simp
  then show "tslot_active (slot_of t (configured sh o' k q ts)) = 0 \<and> 1 \<le> tslot_max (slot_of t (configured sh o' k q ts))"
    by (simp add: configured_def tool_capacity_new_def slot_of_def)
qed

lemma tool_inv_reachable:
  assumes "tool_system_reachable (configured shared others k q tools) others s" and "int others \<le> max (int shared) 1"
  shows "tool_capacity_inv s"
  using assms(1)
proof induction
  case start
  then show ?case using assms(2) configured_fields(7) [of _ shared others k q tools]
    by (auto simp: tool_capacity_inv_def counters_ok_def slot_ok_def permits_def configured_fields(1-6)
        intro: order.trans [OF zero_le_one])
qed (rule tool_inv_step)

lemma tool_limits_fixed:
  assumes "tool_system_reachable c0 others s"
  shows "shared_max (ts_capacity s) = shared_max c0 \<and> txn_max_concurrent (ts_capacity s) = txn_max_concurrent c0 \<and>
    txn_max_queued (ts_capacity s) = txn_max_queued c0 \<and> tslot_max (slot_of t (ts_capacity s)) = tslot_max (slot_of t c0)"
  using assms
proof induction
  case (step s s')
  from step.hyps(2) have "shared_max (ts_capacity s') = shared_max (ts_capacity s) \<and>
    txn_max_concurrent (ts_capacity s') = txn_max_concurrent (ts_capacity s) \<and>
    txn_max_queued (ts_capacity s') = txn_max_queued (ts_capacity s) \<and>
    tslot_max (slot_of t (ts_capacity s')) = tslot_max (slot_of t (ts_capacity s))"
    by cases (auto simp: try_enqueue_def dequeue_def shared_try_acquire_def permit_release_shared_def permit_release_txn_def
        slot_of_release dest: try_acquire_frame(1-4) split: if_splits)
  with step.IH show ?case by simp
qed simp

section \<open>Properties\<close>

text \<open>
  Whatever the interleaving of calls, permits that are being dropped and other transactions,
  never more tools run than the process, the transaction and the tool allow, and never more
  calls wait than the queue allows; the counters are exactly the permits and the waiting
  calls, none becomes negative, and when all permits are gone and nobody waits the counters of
  the transaction are zero again.
\<close>

theorem tool_permits_bounded:
  assumes "tool_system_reachable (configured shared others k q tools) others s" and "int others \<le> max (int shared) 1"
  shows "int (length (filter (\<lambda>p. snd p = PermitHeld) (ts_permits s))) + int (ts_others s) \<le> max (int shared) 1 \<and>
    int (length (filter (\<lambda>p. snd p = PermitHeld) (ts_permits s))) \<le> max (int k) 1 \<and>
    int (length (filter (\<lambda>p. fst p = t) (ts_permits s))) \<le> tslot_max (slot_of t (configured shared others k q tools)) \<and>
    txn_queued (ts_capacity s) = int (ts_waiting s) \<and> int (ts_waiting s) \<le> max (int q) 1 \<and>
    (if ts_permits s = [] then txn_active (ts_capacity s) = 0 \<and> shared_active (ts_capacity s) = int (ts_others s)
     else 0 \<le> txn_active (ts_capacity s) \<and> 0 \<le> shared_active (ts_capacity s))"
proof -
  have inv: "tool_capacity_inv s" by (rule tool_inv_reachable [OF assms])
  have lim: "shared_max (ts_capacity s) = max (int shared) 1" "txn_max_concurrent (ts_capacity s) = max (int k) 1"
    "txn_max_queued (ts_capacity s) = max (int q) 1"
    "tslot_max (slot_of t (ts_capacity s)) = tslot_max (slot_of t (configured shared others k q tools))"
    using tool_limits_fixed [OF assms(1), of t] by (simp_all add: configured_fields)
  have "length (filter (\<lambda>p. snd p = PermitHeld) ps) \<le> length (filter (\<lambda>p. snd p \<noteq> TxnReleased) ps)"
    for ps :: "(string \<times> permit_stage) list"
    by (induction ps) auto
  from this [of "ts_permits s"] have "permits (\<lambda>p. snd p = PermitHeld) s \<le> permits (\<lambda>p. snd p \<noteq> TxnReleased) s"
    by (simp add: permits_def)
  moreover have "counters_ok s" "slot_ok t s" using inv by (simp_all add: tool_capacity_inv_def)
  ultimately show ?thesis
    using lim by (simp add: counters_ok_def slot_ok_def permits_def)
qed

theorem tool_permits_bounded_witness:
  "\<exists>s. tool_system_reachable (configured 4 0 2 2 [(''t'', 2)]) 0 s \<and> length (ts_permits s) = 1 \<and>
     int (length (filter (\<lambda>p. fst p = ''t'') (ts_permits s))) \<le> 2"
proof -
  let ?c0 = "configured 4 0 2 2 [(''t'', 2)]"
  let ?s0 = "\<lparr>ts_capacity = ?c0, ts_waiting = 0, ts_permits = [], ts_others = 0\<rparr>"
  have c0: "?c0 = \<lparr>shared_max = 4, shared_active = 0, txn_max_concurrent = 2, txn_max_queued = 2, txn_active = 0,
      txn_queued = 0, per_tool = [(''t'', \<lparr>tslot_max = 2, tslot_active = 0\<rparr>)]\<rparr>"
    by (simp add: configured_def tool_capacity_new_def configure_tool_def)
  let ?c1 = "?c0\<lparr>txn_queued := 1\<rparr>"
  obtain c2 where c2: "try_acquire ''t'' ?c1 = (True, c2)"
    by (simp add: c0 try_acquire_def shared_try_acquire_def slot_of_def Let_def)
  have "tool_system_step ?s0 (?s0\<lparr>ts_capacity := ?c1, ts_waiting := Suc (ts_waiting ?s0)\<rparr>)"
    by (rule tool_system_step.enqueue) (simp add: try_enqueue_def configured_fields)
  from tool_system_reachable.step [OF tool_system_reachable.start this]
  have r1: "tool_system_reachable ?c0 0 (?s0\<lparr>ts_capacity := ?c1, ts_waiting := 1\<rparr>)" by simp
  have "tool_system_step (?s0\<lparr>ts_capacity := ?c1, ts_waiting := 1\<rparr>)
      \<lparr>ts_capacity = c2, ts_waiting = 0, ts_permits = [(''t'', PermitHeld)], ts_others = 0\<rparr>"
    using tool_system_step.acquire [of "?s0\<lparr>ts_capacity := ?c1, ts_waiting := 1\<rparr>" 0 "''t''" c2] c2 by simp
  with r1 have r: "tool_system_reachable ?c0 0 \<lparr>ts_capacity = c2, ts_waiting = 0, ts_permits = [(''t'', PermitHeld)], ts_others = 0\<rparr>"
    by (rule tool_system_reachable.step)
  from tool_permits_bounded [OF r, of "''t''"]
  show ?thesis using r c0 by (intro exI [of _ "\<lparr>ts_capacity = c2, ts_waiting = 0, ts_permits = [(''t'', PermitHeld)], ts_others = 0\<rparr>"]) simp
qed

end
