(* ===== verification/Dispatcher.thy ===== *)
theory Dispatcher
  imports Registry Tool_Capacity
begin

text \<open>
  \<open>crates/monoloop-loop/src/transaction/dispatcher.rs\<close>: the one path on which a linked tool is
  run. The handler of a tool, the clock and the children of the operating system are not code
  of the dispatcher; what it observes of them in one dispatch is the record \<open>dispatch_world\<close>.
  The counter of live processes in the shutdown snapshot is not modelled.
\<close>

section \<open>Data\<close>

record dispatch_request =
  req_exchange :: string
  req_action :: string
  req_tool_name :: string
  req_provider_id :: string
  req_ordinal :: nat
  req_arguments :: string
  req_deadline :: nat

datatype dispatch_outcome =
    DispatchCanonical canonical_tool_result "tool_lifecycle_event list"
  | DispatchRejected string string string "tool_lifecycle_event list"
  | DispatchRuntimeFailed string "string option" string "tool_lifecycle_event list"

record dispatcher_limits =
  lim_concurrent_tools :: nat
  lim_queued_tools :: nat
  lim_payload_bytes :: nat
  lim_output_bytes :: nat

definition default_dispatcher_limits :: dispatcher_limits where
  "default_dispatcher_limits =
     \<lparr>lim_concurrent_tools = 16, lim_queued_tools = 64, lim_payload_bytes = usize_max, lim_output_bytes = usize_max\<rparr>"

definition limits_from_transaction :: "transaction_limits \<Rightarrow> dispatcher_limits" where
  "limits_from_transaction l =
     \<lparr>lim_concurrent_tools = max (max_concurrent_tools_per_transaction l) 1,
      lim_queued_tools = max (max_queued_tools_per_transaction l) 1,
      lim_payload_bytes = max (max_tool_payload_bytes l) 1, lim_output_bytes = max (max_tool_output_bytes l) 1\<rparr>"

record tool_dispatcher =
  disp_transaction :: string
  disp_session :: session_key
  disp_tools :: resolved_tool_set
  disp_max_payload :: nat
  disp_max_output :: nat
  disp_max_error_message :: nat
  disp_max_depth :: nat

text \<open>
  What dispatches share: the capacity counters, the permits parked for calls nobody can join
  any more, and the children that are kept until they are reaped, with the permit each may hold.
\<close>

record dispatch_state =
  ds_capacity :: tool_capacity
  orphan_permits :: "string list"
  owned_children :: "string option list"

definition with_limits_and_spill ::
  "string \<Rightarrow> session_key \<Rightarrow> resolved_tool_set \<Rightarrow> nat \<Rightarrow> int \<Rightarrow> dispatcher_limits \<Rightarrow> tool_dispatcher \<times> tool_capacity" where
  "with_limits_and_spill tx key tools shared active l =
     (\<lparr>disp_transaction = tx, disp_session = key, disp_tools = tools,
       disp_max_payload = max (lim_payload_bytes l) 1, disp_max_output = max (lim_output_bytes l) 1,
       disp_max_error_message = 1024, disp_max_depth = DEFAULT_MAX_JSON_DEPTH\<rparr>,
      fold configure_tool (map (\<lambda>t. (tool_id t, tool_max_concurrent (spec_limits (rt_spec t)))) (resolved_tools tools))
        (tool_capacity_new shared active (lim_concurrent_tools l) (lim_queued_tools l)))"

definition rebind_session :: "session_key \<Rightarrow> tool_dispatcher \<Rightarrow> tool_dispatcher" where
  "rebind_session key d = d\<lparr>disp_session := key\<rparr>"

section \<open>Parking and the guard of a dispatch\<close>

definition park_orphan_permit :: "string \<Rightarrow> dispatch_state \<Rightarrow> dispatch_state" where
  "park_orphan_permit t st = st\<lparr>orphan_permits := orphan_permits st @ [t]\<rparr>"

definition park_child :: "string option \<Rightarrow> dispatch_state \<Rightarrow> dispatch_state" where
  "park_child permit st = st\<lparr>owned_children := owned_children st @ [permit]\<rparr>"

text \<open>Quiescing drops the parked permits; a child keeps its entry until it is reaped.\<close>

definition release_orphans :: "dispatch_state \<Rightarrow> dispatch_state" where
  "release_orphans st = st\<lparr>ds_capacity := fold drop_permit (orphan_permits st) (ds_capacity st), orphan_permits := []\<rparr>"

definition retain_children :: "bool list \<Rightarrow> dispatch_state \<Rightarrow> nat \<times> dispatch_state" where
  "retain_children alive st =
     (let keep = map fst (filter snd (zip (owned_children st) alive));
          reaped = List.map_filter fst (filter (\<lambda>x. \<not> snd x) (zip (owned_children st) alive))
      in (length keep, st\<lparr>owned_children := keep, ds_capacity := fold drop_permit reaped (ds_capacity st)\<rparr>))"

datatype kill_handle = CancelOnly | ProcessChild

record dispatch_guard =
  guard_permit :: "string option"
  guard_kill :: "kill_handle option"

definition drop_guard_permit :: "dispatch_guard \<Rightarrow> dispatch_state \<Rightarrow> dispatch_state" where
  "drop_guard_permit g st =
     (case guard_permit g of Some t \<Rightarrow> st\<lparr>ds_capacity := drop_permit t (ds_capacity st)\<rparr> | None \<Rightarrow> st)"

text \<open>\<open>has_join\<close>: only a child of the operating system that is still alive is unfinished work.\<close>

definition has_join :: "bool \<Rightarrow> kill_handle option \<Rightarrow> bool" where
  "has_join alive k \<longleftrightarrow> k = Some ProcessChild \<and> alive"

definition release_if_idle :: "bool \<Rightarrow> dispatch_guard \<Rightarrow> dispatch_state \<Rightarrow> dispatch_guard \<times> dispatch_state" where
  "release_if_idle alive g st =
     (if has_join alive (guard_kill g) then (g, st)
      else (g\<lparr>guard_kill := None, guard_permit := None\<rparr>, drop_guard_permit g st))"

definition guard_drop :: "bool \<Rightarrow> dispatch_guard \<Rightarrow> dispatch_state \<Rightarrow> dispatch_state" where
  "guard_drop alive g st =
     (if has_join alive (guard_kill g) then park_child (guard_permit g) st else drop_guard_permit g st)"

definition park_guard_permit :: "dispatch_guard \<Rightarrow> dispatch_state \<Rightarrow> dispatch_guard \<times> dispatch_state" where
  "park_guard_permit g st =
     (case guard_permit g of
        Some t \<Rightarrow> (g\<lparr>guard_permit := None\<rparr>, park_orphan_permit t st)
      | None \<Rightarrow> (g, st))"

section \<open>The world of one dispatch\<close>

datatype tool_start_error = StartCapacityExceeded | StartRejected string

datatype tool_start =
    StartPanicked
  | StartFailed tool_start_error
  | StartOk "kill_handle option" bool

record tool_call_context =
  ctx_transaction :: string
  ctx_session :: session_key
  ctx_exchange :: "string option"
  ctx_action :: string
  ctx_tool :: string
  ctx_deadline :: nat

text \<open>
  How a termination goes: what completion arrives in the grace period, whether the join after
  the kill succeeds, and what completion arrives after it. \<open>None\<close> is a wait that times out.
\<close>

record termination_world =
  in_grace :: "tool_completion option"
  killed_joined :: bool
  after_kill :: "tool_completion option"

text \<open>A completion comes by itself, or the call is cancelled or runs into its deadline.\<close>

datatype execution_end =
    Finished tool_completion
  | Interrupted termination_world

record dispatch_world =
  world_meanwhile :: "(tool_capacity \<Rightarrow> tool_capacity) list"
  world_now :: nat
  world_start :: "tool_call \<Rightarrow> tool_call_context \<Rightarrow> tool_start"
  world_unowned_completes :: bool
  world_end :: execution_end
  alive_at_release :: bool
  alive_at_drop :: bool

section \<open>Termination\<close>

definition join_ok :: "kill_handle option \<Rightarrow> termination_world \<Rightarrow> bool" where
  "join_ok kill w \<longleftrightarrow> kill \<noteq> Some ProcessChild \<or> killed_joined w"

definition await_tool_termination ::
  "kill_handle option \<Rightarrow> tool_execution_class \<Rightarrow> termination_world \<Rightarrow> tool_completion" where
  "await_tool_termination kill policy w =
     (case policy of
        AbortableAtYield _ \<Rightarrow>
          (if \<not> join_ok kill w then CompletionRuntimeFailed TerminationFailed
           else (case in_grace w of Some c \<Rightarrow> c | None \<Rightarrow> CompletionRuntimeFailed ToolDeadlineExceeded))
      | CooperativeInProcess _ \<Rightarrow>
          (case in_grace w of Some c \<Rightarrow> c | None \<Rightarrow> CompletionRuntimeFailed ToolDeadlineExceeded)
      | ProcessIsolated _ _ \<Rightarrow>
          (case in_grace w of
             Some c \<Rightarrow> c
           | None \<Rightarrow>
               if \<not> join_ok kill w then CompletionRuntimeFailed TerminationFailed
               else (case after_kill w of Some c \<Rightarrow> c | None \<Rightarrow> CompletionRuntimeFailed TerminationFailed)))"

definition await_tool_termination_driven :: "tool_execution_class \<Rightarrow> termination_world \<Rightarrow> tool_completion" where
  "await_tool_termination_driven policy w =
     (case policy of
        ProcessIsolated _ _ \<Rightarrow>
          (case in_grace w of
             Some c \<Rightarrow> c
           | None \<Rightarrow> (case after_kill w of Some c \<Rightarrow> c | None \<Rightarrow> CompletionRuntimeFailed TerminationFailed))
      | _ \<Rightarrow> (case in_grace w of Some c \<Rightarrow> c | None \<Rightarrow> CompletionRuntimeFailed ToolDeadlineExceeded))"

definition run_execution :: "bool \<Rightarrow> kill_handle option \<Rightarrow> tool_execution_class \<Rightarrow> execution_end \<Rightarrow> tool_completion" where
  "run_execution driven kill policy e =
     (case e of
        Finished c \<Rightarrow> c
      | Interrupted w \<Rightarrow>
          if driven then await_tool_termination_driven policy w else await_tool_termination kill policy w)"

section \<open>Dispatch\<close>

definition reject_input :: "string \<Rightarrow> input_validation_failure \<Rightarrow> dispatch_outcome" where
  "reject_input action f =
     (case f of
        OversizedInput \<Rightarrow> DispatchRejected action ''oversized_input'' ''tool input exceeds limit'' []
      | InvalidJson \<Rightarrow> DispatchRejected action ''invalid_json'' ''tool arguments are not valid JSON'' []
      | DepthExceeded \<Rightarrow> DispatchRejected action ''json_depth_exceeded'' ''tool arguments too deep'' []
      | SchemaInvalid \<Rightarrow> DispatchRejected action ''schema_invalid'' ''tool arguments fail input schema'' [])"

text \<open>The bounded spin on the concurrency limits; others work on the counters between attempts.\<close>

fun acquire_within :: "string \<Rightarrow> (tool_capacity \<Rightarrow> tool_capacity) list \<Rightarrow> tool_capacity \<Rightarrow> bool \<times> tool_capacity" where
  "acquire_within t [] c = (False, c)"
| "acquire_within t (m # ms) c =
     (case try_acquire t (m c) of
        (True, c) \<Rightarrow> (True, c)
      | (False, c) \<Rightarrow> acquire_within t ms c)"

definition supports_required_termination :: "registered_tool \<Rightarrow> bool" where
  "supports_required_termination t =
     (case execution_class (rt_spec t) of
        AbortableAtYield _ \<Rightarrow> runtime_owns_abortable_drive t \<and> supports_abort t
      | ProcessIsolated _ _ \<Rightarrow> os_process_isolated t \<and> supports_isolated_kill t
      | CooperativeInProcess _ \<Rightarrow> True)"

definition ownership_ok :: "tool_execution_class \<Rightarrow> kill_handle option \<Rightarrow> bool \<Rightarrow> bool" where
  "ownership_ok policy kill driven =
     (case policy of
        AbortableAtYield _ \<Rightarrow> kill = Some CancelOnly \<and> driven
      | ProcessIsolated _ _ \<Rightarrow> kill = Some ProcessChild \<and> driven
      | CooperativeInProcess _ \<Rightarrow> True)"

definition runtime_error_code :: "tool_runtime_error \<Rightarrow> string" where
  "runtime_error_code e =
     (case e of
        Panicked \<Rightarrow> ''panicked''
      | CompletionLost \<Rightarrow> ''completion_lost''
      | OutputContractViolated \<Rightarrow> ''output_contract_violated''
      | TerminationFailed \<Rightarrow> ''termination_failed''
      | ToolDeadlineExceeded \<Rightarrow> ''deadline_exceeded'')"

definition make_result :: "tool_dispatcher \<Rightarrow> dispatch_request \<Rightarrow> string \<Rightarrow> canonical_tool_result_outcome \<Rightarrow> canonical_tool_result" where
  "make_result d r tid out =
     \<lparr>result_transaction = disp_transaction d, result_session = disp_session d, result_exchange = req_exchange r,
      result_action = req_action r, result_tool = tid, result_provider_id = req_provider_id r,
      result_ordinal = req_ordinal r, result_outcome = out\<rparr>"

text \<open>The report of a completion that has been checked against the output contract.\<close>

definition report_completion ::
  "json_codec \<Rightarrow> schema_checker \<Rightarrow> tool_dispatcher \<Rightarrow> dispatch_request \<Rightarrow> tool_spec \<Rightarrow> tool_lifecycle_event list
    \<Rightarrow> tool_completion \<Rightarrow> dispatch_outcome" where
  "report_completion codec chk d r spec lifecycle completion =
     (let failed = (\<lambda>code. DispatchRuntimeFailed (req_action r) (Some (spec_id spec)) code
                      (lifecycle @ [ToolRuntimeFailed (req_action r) (spec_id spec) code]));
          canonical = (\<lambda>out. let res = make_result d r (spec_id spec) out
                             in DispatchCanonical res (lifecycle @ [ToolCompleted res]))
      in case validate_tool_completion codec chk completion (output_contract spec)
                (min (tool_max_output_bytes (spec_limits spec)) (disp_max_output d)) (disp_max_error_message d) (disp_max_depth d) of
           Inl _ \<Rightarrow> failed ''output_contract_violated''
         | Inr (CompletionSucceeded out) \<Rightarrow> canonical (ResultSucceeded out)
         | Inr (CompletionDomainFailed err) \<Rightarrow> canonical (ResultDomainFailed err)
         | Inr (CompletionRuntimeFailed e) \<Rightarrow> failed (runtime_error_code e))"

text \<open>From a started handler to the report, with the guard of the permit.\<close>

definition after_start ::
  "json_codec \<Rightarrow> schema_checker \<Rightarrow> tool_dispatcher \<Rightarrow> dispatch_request \<Rightarrow> tool_spec \<Rightarrow> tool_lifecycle_event list
    \<Rightarrow> dispatch_world \<Rightarrow> kill_handle option \<Rightarrow> bool \<Rightarrow> dispatch_guard \<Rightarrow> dispatch_state \<Rightarrow> dispatch_outcome \<times> dispatch_state" where
  "after_start codec chk d r spec lifecycle w kill driven g st =
     (let policy = execution_class spec; g = g\<lparr>guard_kill := kill\<rparr>
      in if \<not> ownership_ok policy kill driven
         then
           (let (g, st) = (if world_unowned_completes w then release_if_idle (alive_at_release w) g st
                           else park_guard_permit g st)
            in (DispatchRuntimeFailed (req_action r) (Some (spec_id spec)) ''missing_kill_handle''
                  (lifecycle @ [ToolRuntimeFailed (req_action r) (spec_id spec) ''missing_kill_handle'']),
                guard_drop (alive_at_drop w) g st))
         else
           (let completion = run_execution driven kill policy (world_end w);
                cooperative_deadline = ((case policy of CooperativeInProcess _ \<Rightarrow> True | _ \<Rightarrow> False)
                  \<and> completion = CompletionRuntimeFailed ToolDeadlineExceeded);
                (g, st) = (if cooperative_deadline \<and> kill \<noteq> Some ProcessChild then park_guard_permit g st else (g, st));
                (g, st) = release_if_idle (alive_at_release w) g st
            in (report_completion codec chk d r spec lifecycle completion, guard_drop (alive_at_drop w) g st)))"

definition dispatch_acquired ::
  "json_codec \<Rightarrow> schema_checker \<Rightarrow> tool_dispatcher \<Rightarrow> dispatch_request \<Rightarrow> registered_tool \<Rightarrow> json
    \<Rightarrow> dispatch_world \<Rightarrow> dispatch_state \<Rightarrow> dispatch_outcome \<times> dispatch_state" where
  "dispatch_acquired codec chk d r t arguments w st =
     (let spec = rt_spec t; action = req_action r; tid = spec_id spec;
          g = \<lparr>guard_permit = Some tid, guard_kill = None\<rparr>;
          lifecycle = [ToolStarted action tid (req_tool_name r) (req_provider_id r) (req_ordinal r)];
          call = \<lparr>call_tool_name = req_tool_name r, call_tool_id = tid, call_provider_id = req_provider_id r,
                  call_tool_arguments = arguments, call_ordinal = req_ordinal r\<rparr>;
          dropped = guard_drop (alive_at_drop w) g st
      in if world_now w \<ge> req_deadline r
         then (DispatchRuntimeFailed action (Some tid) ''transaction_deadline_exceeded'' [], dropped)
         else
           (let context = \<lparr>ctx_transaction = disp_transaction d, ctx_session = disp_session d,
                  ctx_exchange = Some (req_exchange r), ctx_action = action, ctx_tool = tid,
                  ctx_deadline = min (world_now w + execution_deadline (spec_limits spec)) (req_deadline r)\<rparr>
            in if \<not> supports_required_termination t
               then (DispatchRuntimeFailed action (Some tid) ''missing_kill_handle''
                       (lifecycle @ [ToolRuntimeFailed action tid ''missing_kill_handle'']), dropped)
               else (case world_start w call context of
                       StartPanicked \<Rightarrow>
                         (DispatchRuntimeFailed action (Some tid) ''panicked''
                            (lifecycle @ [ToolRuntimeFailed action tid ''tool_panicked'']), dropped)
                     | StartFailed StartCapacityExceeded \<Rightarrow>
                         (DispatchRejected action ''tool_capacity_exceeded'' ''handler capacity exceeded'' lifecycle, dropped)
                     | StartFailed (StartRejected reason) \<Rightarrow>
                         (DispatchRuntimeFailed action (Some tid) (''start_rejected:'' @ reason)
                            (lifecycle @ [ToolRuntimeFailed action tid ''tool_start_rejected'']), dropped)
                     | StartOk kill driven \<Rightarrow> after_start codec chk d r spec lifecycle w kill driven g st)))"

definition acquired_dropped ::
  "tool_dispatcher \<Rightarrow> dispatch_request \<Rightarrow> registered_tool \<Rightarrow> json \<Rightarrow> dispatch_world \<Rightarrow> dispatch_state \<Rightarrow> dispatch_state option" where
  "acquired_dropped d r t arguments w st =
     (let spec = rt_spec t; tid = spec_id spec;
          call = \<lparr>call_tool_name = req_tool_name r, call_tool_id = tid, call_provider_id = req_provider_id r,
                  call_tool_arguments = arguments, call_ordinal = req_ordinal r\<rparr>;
          context = \<lparr>ctx_transaction = disp_transaction d, ctx_session = disp_session d,
                  ctx_exchange = Some (req_exchange r), ctx_action = req_action r, ctx_tool = tid,
                  ctx_deadline = min (world_now w + execution_deadline (spec_limits spec)) (req_deadline r)\<rparr>
      in if world_now w \<ge> req_deadline r \<or> \<not> supports_required_termination t then None
         else case world_start w call context of
                StartOk kill _ \<Rightarrow> Some (guard_drop (alive_at_drop w) \<lparr>guard_permit = Some tid, guard_kill = kill\<rparr> st)
              | _ \<Rightarrow> None)"

definition dispatch_with_cancel ::
  "json_codec \<Rightarrow> schema_checker \<Rightarrow> tool_dispatcher \<Rightarrow> dispatch_request \<Rightarrow> dispatch_world \<Rightarrow> dispatch_state
    \<Rightarrow> dispatch_outcome \<times> dispatch_state" where
  "dispatch_with_cancel codec chk d r w st =
     (case get_by_name (req_tool_name r) (disp_tools d) of
        None \<Rightarrow> (DispatchRejected (req_action r) ''tool_not_allowed'' ''tool not in resolved set'' [], st)
      | Some t \<Rightarrow>
          (case try_enqueue (ds_capacity st) of
             (False, _) \<Rightarrow> (DispatchRejected (req_action r) ''tool_queue_full'' ''per-transaction tool queue full'' [], st)
           | (True, c) \<Rightarrow>
               (case validate_tool_input codec chk (req_arguments r) (input_schema (rt_spec t))
                       (min (tool_max_input_bytes (spec_limits (rt_spec t))) (disp_max_payload d)) (disp_max_depth d) of
                  Inl f \<Rightarrow> (reject_input (req_action r) f, st\<lparr>ds_capacity := dequeue c\<rparr>)
                | Inr arguments \<Rightarrow>
                    (case acquire_within (tool_id t) (world_meanwhile w) c of
                       (False, c) \<Rightarrow>
                         (DispatchRejected (req_action r) ''tool_capacity_exceeded'' ''tool concurrency capacity exceeded'' [],
                          st\<lparr>ds_capacity := dequeue c\<rparr>)
                     | (True, c) \<Rightarrow> dispatch_acquired codec chk d r t arguments w (st\<lparr>ds_capacity := c\<rparr>)))))"

text \<open>
  The task of a dispatch can be aborted wherever it awaits: behind one of the attempts to acquire
  a permit, or from the start of the handler on, when the guard is dropped with the permit and the
  handle of the call. \<open>None\<close> means that the dispatch returns before it awaits there.
\<close>

datatype drop_point = DropWaiting nat | DropRunning

definition dispatch_dropped ::
  "json_codec \<Rightarrow> schema_checker \<Rightarrow> tool_dispatcher \<Rightarrow> dispatch_request \<Rightarrow> dispatch_world \<Rightarrow> drop_point \<Rightarrow> dispatch_state
    \<Rightarrow> dispatch_state option" where
  "dispatch_dropped codec chk d r w at st =
     (case get_by_name (req_tool_name r) (disp_tools d) of
        None \<Rightarrow> None
      | Some t \<Rightarrow>
          (case try_enqueue (ds_capacity st) of
             (False, _) \<Rightarrow> None
           | (True, c) \<Rightarrow>
               (case validate_tool_input codec chk (req_arguments r) (input_schema (rt_spec t))
                       (min (tool_max_input_bytes (spec_limits (rt_spec t))) (disp_max_payload d)) (disp_max_depth d) of
                  Inl _ \<Rightarrow> None
                | Inr arguments \<Rightarrow>
                    (case at of
                       DropWaiting k \<Rightarrow>
                         (case acquire_within (tool_id t) (take k (world_meanwhile w)) c of
                            (True, _) \<Rightarrow> None
                          | (False, c) \<Rightarrow> if k = 0 \<or> length (world_meanwhile w) < k then None else Some (st\<lparr>ds_capacity := c\<rparr>))
                     | DropRunning \<Rightarrow>
                         (case acquire_within (tool_id t) (world_meanwhile w) c of
                            (False, _) \<Rightarrow> None
                          | (True, c) \<Rightarrow> acquired_dropped d r t arguments w (st\<lparr>ds_capacity := c\<rparr>))))))"

section \<open>Permits are accounted for\<close>

definition parked_permits :: "dispatch_state \<Rightarrow> int" where
  "parked_permits st = int (length (orphan_permits st)) + int (length (filter (\<lambda>p. p \<noteq> None) (owned_children st)))"

text \<open>
  The permits in use that are neither parked nor in the hands of the running dispatch, by the
  counter of the transaction and by the shared one, and the length of the queue.
\<close>

definition balance :: "string option \<Rightarrow> dispatch_state \<Rightarrow> int \<times> int \<times> int" where
  "balance permit st =
     (case (if permit = None then 0 else 1) + parked_permits st of held \<Rightarrow>
        (txn_active (ds_capacity st) - held, shared_active (ds_capacity st) - held, txn_queued (ds_capacity st)))"

lemma drop_permit_counters [simp]:
  "txn_active (drop_permit t c) = txn_active c - 1" "shared_active (drop_permit t c) = shared_active c - 1"
  "txn_queued (drop_permit t c) = txn_queued c"
  by (simp_all add: drop_permit_def permit_release_txn_def permit_release_shared_def)

lemma balance_drop: "balance None (drop_guard_permit g st) = balance (guard_permit g) st"
  by (simp add: balance_def drop_guard_permit_def parked_permits_def split: option.split)

lemma balance_guard_drop: "balance None (guard_drop alive g st) = balance (guard_permit g) st"
  using balance_drop [of g st]
  by (auto simp: guard_drop_def park_child_def balance_def parked_permits_def)

lemma balance_release:
  "balance (guard_permit (fst (release_if_idle alive g st))) (snd (release_if_idle alive g st)) = balance (guard_permit g) st"
  using balance_drop [of g st] by (simp add: release_if_idle_def)

lemma balance_park:
  "balance (guard_permit (fst (park_guard_permit g st))) (snd (park_guard_permit g st)) = balance (guard_permit g) st"
  by (simp add: park_guard_permit_def park_orphan_permit_def balance_def parked_permits_def split: option.split)

lemma balance_after_start:
  "balance None (snd (after_start codec chk d r spec lifecycle w kill driven g st)) = balance (guard_permit g) st"
  by (simp add: after_start_def Let_def split_beta balance_guard_drop balance_release balance_park)

lemma balance_acquired:
  "balance None (snd (dispatch_acquired codec chk d r t arguments w st)) = balance (Some (tool_id t)) st"
  by (simp add: dispatch_acquired_def Let_def balance_guard_drop balance_after_start
      split: tool_start.split tool_start_error.split)

lemma acquire_within_alone:
  assumes "acquire_within t (replicate n id) c = (b, c')"
  shows "txn_active c' = txn_active c + (if b then 1 else 0)" "shared_active c' = shared_active c + (if b then 1 else 0)"
    "txn_queued c' = txn_queued c - (if b then 1 else 0)"
proof -
  have "txn_active c' = txn_active c + (if b then 1 else 0) \<and> shared_active c' = shared_active c + (if b then 1 else 0) \<and>
    txn_queued c' = txn_queued c - (if b then 1 else 0)"
    using assms
  proof (induction n arbitrary: c)
    case (Suc n)
    obtain b1 c1 where a: "try_acquire t c = (b1, c1)" by fastforce
    show ?case using Suc.IH [of c1] Suc.prems try_acquire_frame(5-7) [OF a] by (cases b1) (auto simp: a)
  qed simp
  then show "txn_active c' = txn_active c + (if b then 1 else 0)" "shared_active c' = shared_active c + (if b then 1 else 0)"
    "txn_queued c' = txn_queued c - (if b then 1 else 0)" by auto
qed

section \<open>Properties\<close>

lemma dispatch_balance:
  "balance None (snd (dispatch_with_cancel codec chk d r (w\<lparr>world_meanwhile := replicate n id\<rparr>) st)) = balance None st"
proof (cases "get_by_name (req_tool_name r) (disp_tools d)")
  case None
  then show ?thesis by (simp add: dispatch_with_cancel_def)
next
  case (Some t)
  let ?c = "ds_capacity st" and ?q = "(ds_capacity st)\<lparr>txn_queued := txn_queued (ds_capacity st) + 1\<rparr>"
  obtain b c' where a: "acquire_within (tool_id t) (replicate n id) ?q = (b, c')" by fastforce
  have "balance None (st\<lparr>ds_capacity := dequeue ?q\<rparr>) = balance None st"
    "\<not> b \<Longrightarrow> balance None (st\<lparr>ds_capacity := dequeue c'\<rparr>) = balance None st"
    "b \<Longrightarrow> balance (Some (tool_id t)) (st\<lparr>ds_capacity := c'\<rparr>) = balance None st"
    using acquire_within_alone [OF a] by (auto simp: balance_def parked_permits_def dequeue_def)
  then show ?thesis
    using Some a
    by (cases b) (auto simp: dispatch_with_cancel_def try_enqueue_def balance_acquired split: sum.split)
qed

lemma balance_acquired_dropped:
  "acquired_dropped d r t arguments w st = Some st' \<Longrightarrow> balance None st' = balance (Some (tool_id t)) st"
  by (auto simp: acquired_dropped_def Let_def balance_guard_drop split: if_splits tool_start.splits)

lemma dropped_running_balance:
  assumes "dispatch_dropped codec chk d r (w\<lparr>world_meanwhile := replicate n id\<rparr>) DropRunning st = Some st'"
  shows "balance None st' = balance None st"
proof -
  let ?q = "(ds_capacity st)\<lparr>txn_queued := txn_queued (ds_capacity st) + 1\<rparr>"
  from assms obtain t arguments c' where a: "acquire_within (tool_id t) (replicate n id) ?q = (True, c')"
    and d: "acquired_dropped d r t arguments (w\<lparr>world_meanwhile := replicate n id\<rparr>) (st\<lparr>ds_capacity := c'\<rparr>) = Some st'"
    by (auto simp: dispatch_dropped_def try_enqueue_def split: option.splits sum.splits prod.splits bool.splits if_splits)
  have "balance (Some (tool_id t)) (st\<lparr>ds_capacity := c'\<rparr>) = balance None st"
    using acquire_within_alone [OF a] by (auto simp: balance_def parked_permits_def)
  with balance_acquired_dropped [OF d] show ?thesis by simp
qed

definition permits_conserved :: "dispatch_state \<Rightarrow> dispatch_state \<Rightarrow> bool" where
  "permits_conserved st st' \<longleftrightarrow>
     txn_queued (ds_capacity st') = txn_queued (ds_capacity st) \<and>
     txn_active (ds_capacity st') - parked_permits st' = txn_active (ds_capacity st) - parked_permits st \<and>
     shared_active (ds_capacity st') - parked_permits st' = shared_active (ds_capacity st) - parked_permits st"

lemma balance_conserved: "balance None st' = balance None st \<Longrightarrow> permits_conserved st st'"
  by (simp add: balance_def permits_conserved_def)

text \<open>
  C23. A dispatch that runs while no other one changes the capacity leaks no permit. Whether it
  returns, on any of its paths, or its task is aborted from the start of the handler on: afterwards the
  queue is as long as before, and the permits in use are those from before and those the dispatch
  parked, because a call that does not end still occupies capacity.
\<close>

theorem dispatch_conserves_permits:
  "let w = w0\<lparr>world_meanwhile := replicate n id\<rparr>
   in permits_conserved st (snd (dispatch_with_cancel codec chk d r w st)) \<and>
      (case dispatch_dropped codec chk d r w DropRunning st of Some st' \<Rightarrow> permits_conserved st st' | None \<Rightarrow> True)"
  using dispatch_balance [where w = w0 and n = n] dropped_running_balance [where w = w0 and n = n]
  by (auto simp: Let_def balance_conserved split: option.split)

text \<open>
  A dispatch that is aborted while it waits for a permit does not give its place in the queue back:
  nothing holds that place but the future that is dropped.
\<close>

lemma dropped_waiting_leaks:
  assumes "dispatch_dropped codec chk d r (w\<lparr>world_meanwhile := replicate n id\<rparr>) (DropWaiting k) st = Some st'"
  shows "txn_queued (ds_capacity st') = txn_queued (ds_capacity st) + 1 \<and> orphan_permits st' = orphan_permits st"
proof -
  let ?q = "(ds_capacity st)\<lparr>txn_queued := txn_queued (ds_capacity st) + 1\<rparr>"
  from assms obtain t c' where "acquire_within (tool_id t) (replicate (min k n) id) ?q = (False, c')" "st' = st\<lparr>ds_capacity := c'\<rparr>"
    by (auto simp: dispatch_dropped_def try_enqueue_def min.commute split: option.splits sum.splits prod.splits bool.splits if_splits)
  with acquire_within_alone(3) [of "tool_id t" "min k n" ?q False c'] show ?thesis by simp
qed

section \<open>What a result rests on\<close>

definition started_event :: "dispatch_request \<Rightarrow> registered_tool \<Rightarrow> tool_lifecycle_event" where
  "started_event r t = ToolStarted (req_action r) (tool_id t) (req_tool_name r) (req_provider_id r) (req_ordinal r)"

definition started_call :: "dispatch_request \<Rightarrow> registered_tool \<Rightarrow> json \<Rightarrow> tool_call" where
  "started_call r t v =
     \<lparr>call_tool_name = req_tool_name r, call_tool_id = tool_id t, call_provider_id = req_provider_id r,
      call_tool_arguments = v, call_ordinal = req_ordinal r\<rparr>"

text \<open>A completion that the output contract of the tool accepts as it is.\<close>

definition accepted_completion ::
  "json_codec \<Rightarrow> schema_checker \<Rightarrow> tool_dispatcher \<Rightarrow> tool_spec \<Rightarrow> tool_completion \<Rightarrow> bool" where
  "accepted_completion codec chk d spec c \<longleftrightarrow>
     validate_tool_completion codec chk c (output_contract spec)
       (min (tool_max_output_bytes (spec_limits spec)) (disp_max_output d)) (disp_max_error_message d) (disp_max_depth d) = Ok c"

fun completion_outcome :: "tool_completion \<Rightarrow> canonical_tool_result_outcome option" where
  "completion_outcome (CompletionSucceeded out) = Some (ResultSucceeded out)"
| "completion_outcome (CompletionDomainFailed err) = Some (ResultDomainFailed err)"
| "completion_outcome (CompletionRuntimeFailed _) = None"

lemma validated_unchanged: "validate_tool_completion codec chk c contract m e k = Ok c' \<Longrightarrow> c' = c"
  by (auto simp: validate_tool_completion_def split: tool_completion.splits option.splits)

lemma report_canonical:
  assumes "report_completion codec chk d r spec l c = DispatchCanonical res l'"
  shows "accepted_completion codec chk d spec c \<and> completion_outcome c = Some (result_outcome res) \<and>
    res = make_result d r (spec_id spec) (result_outcome res) \<and> l' = l @ [ToolCompleted res]"
  using assms validated_unchanged
  by (fastforce simp: report_completion_def accepted_completion_def make_result_def Let_def
      split: sum.splits tool_completion.splits)

lemma after_start_canonical:
  assumes "after_start codec chk d r spec l w kill driven g st = (DispatchCanonical res l', st')"
  shows "ownership_ok (execution_class spec) kill driven \<and>
    report_completion codec chk d r spec l (run_execution driven kill (execution_class spec) (world_end w)) = DispatchCanonical res l'"
  using assms by (auto simp: after_start_def Let_def split_beta split: if_splits)

lemma acquired_canonical:
  assumes "dispatch_acquired codec chk d r t v w st = (DispatchCanonical res l, st')"
  shows "\<exists>kill driven ctx. world_start w (started_call r t v) ctx = StartOk kill driven \<and> ctx_deadline ctx \<le> req_deadline r \<and>
    world_now w < req_deadline r \<and> supports_required_termination t \<and> ownership_ok (execution_class (rt_spec t)) kill driven \<and>
    report_completion codec chk d r (rt_spec t) [started_event r t]
      (run_execution driven kill (execution_class (rt_spec t)) (world_end w)) = DispatchCanonical res l"
proof -
  let ?ctx = "\<lparr>ctx_transaction = disp_transaction d, ctx_session = disp_session d,
                  ctx_exchange = Some (req_exchange r), ctx_action = req_action r, ctx_tool = tool_id t,
                  ctx_deadline = min (world_now w + execution_deadline (spec_limits (rt_spec t))) (req_deadline r)\<rparr>"
  have g: "world_now w < req_deadline r" "supports_required_termination t"
    using assms by (auto simp: dispatch_acquired_def Let_def split: if_splits)
  then obtain kill driven where s: "world_start w (started_call r t v) ?ctx = StartOk kill driven"
    using assms
    by (cases "world_start w (started_call r t v) ?ctx")
      (auto simp: dispatch_acquired_def started_call_def Let_def split: tool_start_error.splits)
  then show ?thesis
    using assms g after_start_canonical [of codec chk d r "rt_spec t" "[started_event r t]" w kill driven
        "\<lparr>guard_permit = Some (tool_id t), guard_kill = None\<rparr>" st res l st']
    by (intro exI [of _ kill] exI [of _ driven] exI [of _ ?ctx])
      (simp add: dispatch_acquired_def started_call_def started_event_def Let_def)
qed

text \<open>
  C12. There is one way to a tool result, and it is checked at both ends: a canonical result
  exists only for a tool of the transaction's own set, whose arguments passed validation within
  the smaller of the two size limits, that was started before the transaction deadline with a
  deadline no later than it, under ownership that fits its execution class, and whose completion
  passed the output contract. The result is that completion, under the identities of the
  request, and the lifecycle is exactly a start and this completion.
\<close>

theorem dispatch_result_validated:
  "case dispatch_with_cancel codec chk d r w st of (out, st') \<Rightarrow>
     (case out of
        DispatchCanonical res lifecycle \<Rightarrow>
          (\<exists>t v kill driven ctx c.
             get_by_name (req_tool_name r) (disp_tools d) = Some t \<and>
             validate_tool_input codec chk (req_arguments r) (input_schema (rt_spec t))
               (min (tool_max_input_bytes (spec_limits (rt_spec t))) (disp_max_payload d)) (disp_max_depth d) = Ok v \<and>
             world_start w (started_call r t v) ctx = StartOk kill driven \<and> ctx_deadline ctx \<le> req_deadline r \<and>
             world_now w < req_deadline r \<and> ownership_ok (execution_class (rt_spec t)) kill driven \<and>
             c = run_execution driven kill (execution_class (rt_spec t)) (world_end w) \<and>
             accepted_completion codec chk d (rt_spec t) c \<and> completion_outcome c = Some (result_outcome res) \<and>
             res = make_result d r (tool_id t) (result_outcome res) \<and>
             lifecycle = [started_event r t, ToolCompleted res])
      | _ \<Rightarrow> True)"
proof (cases "dispatch_with_cancel codec chk d r w st")
  case (Pair out st')
  show ?thesis
  proof (cases out)
    case (DispatchCanonical res l)
    obtain t v c where t: "get_by_name (req_tool_name r) (disp_tools d) = Some t"
      and v: "validate_tool_input codec chk (req_arguments r) (input_schema (rt_spec t))
        (min (tool_max_input_bytes (spec_limits (rt_spec t))) (disp_max_payload d)) (disp_max_depth d) = Ok v"
      and a: "dispatch_acquired codec chk d r t v w (st\<lparr>ds_capacity := c\<rparr>) = (DispatchCanonical res l, st')"
      using Pair DispatchCanonical
      by (auto simp: dispatch_with_cancel_def reject_input_def
          split: option.splits prod.splits bool.splits sum.splits input_validation_failure.splits)
    from acquired_canonical [OF a] report_canonical [of codec chk d r "rt_spec t" "[started_event r t]" _ res l]
    show ?thesis unfolding Pair DispatchCanonical using t v by fastforce
  qed (simp_all add: Pair)
qed

definition lifecycle_ok :: "dispatch_request \<Rightarrow> dispatch_world \<Rightarrow> dispatch_outcome \<Rightarrow> bool" where
  "lifecycle_ok r w out =
     (case out of
        DispatchCanonical res l \<Rightarrow> (\<exists>t. l = [started_event r t, ToolCompleted res])
      | DispatchRejected a code msg l \<Rightarrow>
          l = [] \<or> (\<exists>t v ctx. l = [started_event r t] \<and> world_start w (started_call r t v) ctx = StartFailed StartCapacityExceeded)
      | DispatchRuntimeFailed a tid code l \<Rightarrow>
          l = [] \<or> (\<exists>t code'. l = [started_event r t, ToolRuntimeFailed (req_action r) (tool_id t) code']))"

lemma lifecycle_report: "lifecycle_ok r w (report_completion codec chk d r (rt_spec t) [started_event r t] c)"
  by (auto simp: report_completion_def lifecycle_ok_def Let_def split: sum.split tool_completion.split)

lemma lifecycle_after_start:
  "lifecycle_ok r w (fst (after_start codec chk d r (rt_spec t) [started_event r t] w' kill driven g st))"
  using lifecycle_report [of r w codec chk d t]
  by (auto simp: after_start_def Let_def split_beta) (auto simp: lifecycle_ok_def)

lemma lifecycle_acquired: "lifecycle_ok r w (fst (dispatch_acquired codec chk d r t v w st))"
  using lifecycle_after_start [of r w codec chk d t]
  by (auto simp: dispatch_acquired_def Let_def started_event_def started_call_def
      split: tool_start.split tool_start_error.split)
    (auto simp: lifecycle_ok_def started_event_def started_call_def)

text \<open>
  The lifecycle of a dispatch has one of three shapes: empty, a start with its completion,
  or a start with a runtime failure of the same action and tool. There is one exception: when
  the handler itself reports that it is at capacity, the dispatch is rejected with a start
  event that nothing ends.
\<close>

theorem dispatch_lifecycle_shape:
  "case dispatch_with_cancel codec chk d r w st of (out, st') \<Rightarrow>
     (case out of
        DispatchCanonical res l \<Rightarrow> (\<exists>t. l = [started_event r t, ToolCompleted res])
      | DispatchRejected a code msg l \<Rightarrow>
          l = [] \<or> (\<exists>t v ctx. l = [started_event r t] \<and> world_start w (started_call r t v) ctx = StartFailed StartCapacityExceeded)
      | DispatchRuntimeFailed a tid code l \<Rightarrow>
          l = [] \<or> (\<exists>t code'. l = [started_event r t, ToolRuntimeFailed (req_action r) (tool_id t) code']))"
proof -
  have "lifecycle_ok r w (fst (dispatch_with_cancel codec chk d r w st))"
    using lifecycle_acquired
    by (auto simp: dispatch_with_cancel_def split: option.split prod.split bool.split sum.split)
      (auto simp: lifecycle_ok_def reject_input_def split: input_validation_failure.split)
  then show ?thesis unfolding lifecycle_ok_def by (simp add: split_beta)
qed

end
