(* ===== verification/Cancel.thy ===== *)
theory Cancel
  imports Prelude
begin

text \<open>
  The two cancellation signals: \<open>crates/monoloop-loop/src/transaction/sticky_cancel.rs\<close>, used by
  the transaction lifecycle, and \<open>ToolExecutionControl\<close> of \<open>tool_handler.rs\<close>, used by running
  tools. Both are a flag and a tokio \<open>Notify\<close>. A call of \<open>notify_waiters\<close> wakes the \<open>notified\<close>
  futures that exist by then and leaves nothing behind for later ones, so the model counts the
  calls, and a future remembers the count at its creation. Any number of threads cancel while
  one waits; every atomic access is a step of its own.
\<close>

section \<open>The signal\<close>

record cancel_signal =
  cancel_flag :: bool
  notify_calls :: nat

definition signal_new :: cancel_signal where
  "signal_new = \<lparr>cancel_flag = False, notify_calls = 0\<rparr>"

datatype canceller_pc = StoreFlag | NotifyWaiters | CancelReturned

fun cancel_step :: "canceller_pc \<Rightarrow> cancel_signal \<Rightarrow> (canceller_pc \<times> cancel_signal) option" where
  "cancel_step StoreFlag s = Some (NotifyWaiters, s\<lparr>cancel_flag := True\<rparr>)"
| "cancel_step NotifyWaiters s = Some (CancelReturned, s\<lparr>notify_calls := Suc (notify_calls s)\<rparr>)"
| "cancel_step CancelReturned s = None"

section \<open>Waiting\<close>

text \<open>\<open>None\<close> is a wait that cannot go on yet. The number is that of the future.\<close>

datatype waiter_pc = Subscribe | CheckFlag nat | AwaitNotified nat | RecheckFlag | WaiterReturned

fun sticky_step :: "waiter_pc \<Rightarrow> cancel_signal \<Rightarrow> waiter_pc option" where
  "sticky_step Subscribe s = Some (CheckFlag (notify_calls s))"
| "sticky_step (CheckFlag n) s = Some (if cancel_flag s then WaiterReturned else AwaitNotified n)"
| "sticky_step (AwaitNotified n) s = (if notify_calls s > n then Some RecheckFlag else None)"
| "sticky_step RecheckFlag s = Some (if cancel_flag s then WaiterReturned else Subscribe)"
| "sticky_step WaiterReturned s = None"

text \<open>The control of a tool checks the flag first and creates its future afterwards.\<close>

fun control_step :: "waiter_pc \<Rightarrow> cancel_signal \<Rightarrow> waiter_pc option" where
  "control_step RecheckFlag s = Some (if cancel_flag s then WaiterReturned else Subscribe)"
| "control_step Subscribe s = Some (AwaitNotified (notify_calls s))"
| "control_step (AwaitNotified n) s = (if notify_calls s > n then Some RecheckFlag else None)"
| "control_step _ s = None"

text \<open>A waiter that goes on as long as it can, at most the given number of steps.\<close>

fun waiter_run :: "(waiter_pc \<Rightarrow> cancel_signal \<Rightarrow> waiter_pc option) \<Rightarrow> nat \<Rightarrow> waiter_pc \<Rightarrow> cancel_signal \<Rightarrow> waiter_pc" where
  "waiter_run st 0 w s = w"
| "waiter_run st (Suc k) w s = (case st w s of Some w' \<Rightarrow> waiter_run st k w' s | None \<Rightarrow> w)"

section \<open>Waiter and cancellers together\<close>

type_synonym cancel_system = "cancel_signal \<times> canceller_pc list \<times> waiter_pc"

inductive cancel_system_step ::
  "(waiter_pc \<Rightarrow> cancel_signal \<Rightarrow> waiter_pc option) \<Rightarrow> cancel_system \<Rightarrow> cancel_system \<Rightarrow> bool" for st where
  cancel: "i < length cs \<Longrightarrow> cancel_step (cs ! i) s = Some (pc, s') \<Longrightarrow>
    cancel_system_step st (s, cs, w) (s', cs[i := pc], w)"
| call: "cancel_system_step st (s, cs, w) (s, cs @ [StoreFlag], w)"
| wait: "st w s = Some w' \<Longrightarrow> cancel_system_step st (s, cs, w) (s, cs, w')"

inductive cancel_reachable ::
  "(waiter_pc \<Rightarrow> cancel_signal \<Rightarrow> waiter_pc option) \<Rightarrow> waiter_pc \<Rightarrow> cancel_system \<Rightarrow> bool" for st w0 where
  start: "cancel_reachable st w0 (signal_new, [], w0)"
| step: "cancel_reachable st w0 x \<Longrightarrow> cancel_system_step st x y \<Longrightarrow> cancel_reachable st w0 y"

section \<open>A wakeup is never lost\<close>

text \<open>
  A future that was created before the flag was set either sees a later notification or the
  thread that set the flag is still about to send it.
\<close>

fun sticky_inv :: "cancel_system \<Rightarrow> bool" where
  "sticky_inv (s, cs, w) \<longleftrightarrow>
     (case w of
        CheckFlag n \<Rightarrow> n \<le> notify_calls s
      | AwaitNotified n \<Rightarrow>
          n \<le> notify_calls s \<and> (notify_calls s = n \<longrightarrow> cancel_flag s \<longrightarrow> NotifyWaiters \<in> set cs)
      | _ \<Rightarrow> True)"

lemma sticky_inv_step:
  assumes "sticky_inv x" and "cancel_system_step sticky_step x y"
  shows "sticky_inv y"
  using assms(2)
proof cases
  case (cancel i cs s pc s' w)
  show ?thesis
  proof (cases "cs ! i")
    case StoreFlag
    then have "NotifyWaiters \<in> set (cs[i := NotifyWaiters])" using cancel(3) by (simp add: set_update_memI)
    then show ?thesis
      using assms(1) cancel StoreFlag by (auto split: waiter_pc.splits)
  qed (use assms(1) cancel in \<open>auto split: waiter_pc.splits\<close>)
next
  case (call s cs w)
  then show ?thesis using assms(1) by (auto split: waiter_pc.splits)
next
  case (wait w s w' cs)
  then show ?thesis using assms(1) by (cases w) (auto split: if_splits)
qed

lemma sticky_inv_reachable: "cancel_reachable sticky_step Subscribe x \<Longrightarrow> sticky_inv x"
proof (induction rule: cancel_reachable.induct)
  case start
  show ?case by simp
qed (rule sticky_inv_step)

section \<open>Properties\<close>

text \<open>
  C33. A sticky cancellation is never lost: whenever the flag is set and no canceller is still in
  the middle of its call, a waiter returns within four steps of its own, wherever it was when
  the cancellation came, also if it began to wait long after.
\<close>

theorem sticky_cancel_not_lost:
  assumes "cancel_reachable sticky_step Subscribe (s, cs, w)" and "cancel_flag s" and "list_all ((\<noteq>) NotifyWaiters) cs"
  shows "waiter_run sticky_step 4 w s = WaiterReturned"
proof -
  have "NotifyWaiters \<notin> set cs" using assms(3) by (auto simp: list_all_iff)
  then show ?thesis
    using sticky_inv_reachable [OF assms(1)] assms(2)
    by (cases w) (auto simp: numeral_eq_Suc split: option.split)
qed

theorem sticky_cancel_not_lost_witness:
  "waiter_run sticky_step 4 Subscribe \<lparr>cancel_flag = True, notify_calls = 1\<rparr> = WaiterReturned"
proof -
  have "cancel_reachable sticky_step Subscribe (signal_new, [StoreFlag], Subscribe)"
    using cancel_reachable.step [OF cancel_reachable.start cancel_system_step.call] by fastforce
  from cancel_reachable.step [OF this cancel_system_step.cancel [of 0]]
  have "cancel_reachable sticky_step Subscribe (signal_new\<lparr>cancel_flag := True\<rparr>, [NotifyWaiters], Subscribe)" by simp
  from cancel_reachable.step [OF this cancel_system_step.cancel [of 0]]
  have "cancel_reachable sticky_step Subscribe
      (signal_new\<lparr>cancel_flag := True, notify_calls := Suc 0\<rparr>, [CancelReturned], Subscribe)"
    by (simp add: signal_new_def)
  from sticky_cancel_not_lost [OF this] show ?thesis by (simp add: signal_new_def)
qed

text \<open>
  The control of a running tool loses cancellations: there is a run in which the
  cancellation has returned, its flag is set, and the waiter waits for a notification that
  has already been sent, with no step left to make. It checks the flag before it creates the
  future, and the call falls in between.
\<close>

theorem control_cancel_lost:
  "\<exists>s w. cancel_reachable control_step RecheckFlag (s, [CancelReturned], w) \<and>
     cancel_flag s \<and> w \<noteq> WaiterReturned \<and> control_step w s = None"
proof -
  let ?st = control_step
  have "cancel_reachable ?st RecheckFlag (signal_new, [StoreFlag], RecheckFlag)"
    using cancel_reachable.step [OF cancel_reachable.start cancel_system_step.call] by fastforce
  then have "cancel_reachable ?st RecheckFlag (signal_new, [StoreFlag], Subscribe)"
    by (rule cancel_reachable.step) (rule cancel_system_step.wait, simp add: signal_new_def)
  from cancel_reachable.step [OF this cancel_system_step.cancel [of 0]]
  have "cancel_reachable ?st RecheckFlag (signal_new\<lparr>cancel_flag := True\<rparr>, [NotifyWaiters], Subscribe)" by simp
  from cancel_reachable.step [OF this cancel_system_step.cancel [of 0]]
  have "cancel_reachable ?st RecheckFlag (\<lparr>cancel_flag = True, notify_calls = 1\<rparr>, [CancelReturned], Subscribe)"
    by (simp add: signal_new_def)
  then have "cancel_reachable ?st RecheckFlag (\<lparr>cancel_flag = True, notify_calls = 1\<rparr>, [CancelReturned], AwaitNotified 1)"
    by (rule cancel_reachable.step) (rule cancel_system_step.wait, simp)
  then show ?thesis by fastforce
qed

end
