(* ===== verification/Encoder.thy ===== *)
theory Encoder
  imports Config Tool
begin

text \<open>
  The outbound encoders: \<open>crates/monoloop-contracts/src/encoder.rs\<close>, and in
  \<open>crates/monoloop-loop/src/transaction/\<close> the chat completions encoder of \<open>openai_encoder.rs\<close>
  and the prompt encoders of \<open>acp_encoder.rs\<close>. A JSON object is serde_json's map, sorted by
  key; how a 32-bit float prints as a JSON number is a parameter. \<open>to_string\<close> and \<open>to_vec\<close>
  write the same text.
\<close>

section \<open>Contract\<close>

datatype exchange_input_policy = SendAndFinish | SendAndRetain

record encoded_exchange =
  exchange_bytes :: string
  required_input_dialect :: dialect_descriptor
  input_policy :: exchange_input_policy

datatype encoding_error =
    EmptyContinuationContext
  | EncodeUnsupported string
  | EncodeLimitExceeded
  | EncodeInvalidConfiguration
  | UnrepresentableInput

record initial_encode_request =
  ini_input :: "canonical_message list"
  ini_config :: effective_config
  ini_tools :: "tool_spec list"

record continuation_encode_request =
  con_context :: "canonical_message list"
  con_results :: "canonical_tool_result list"
  con_config :: effective_config
  con_tools :: "tool_spec list"

definition continuation_context_try_new :: "canonical_message list \<Rightarrow> (encoding_error, canonical_message list) result" where
  "continuation_context_try_new ms = (if ms = [] then Err EmptyContinuationContext else Ok ms)"

definition json_map :: "(string \<times> json) list \<Rightarrow> json" where
  "json_map kvs = JObject (overlay kvs [])"

section \<open>Chat completions\<close>

record openai_encoder_options =
  use_max_completion_tokens :: bool
  allow_reasoning_effort :: bool
  opt_max_encoded_bytes :: nat

definition default_openai_options :: openai_encoder_options where
  "default_openai_options =
     \<lparr>use_max_completion_tokens = False, allow_reasoning_effort = False, opt_max_encoded_bytes = 4 * 1024 * 1024\<rparr>"

definition openai_dialect :: dialect_descriptor where
  "openai_dialect =
     \<lparr>family = OpenAiChatCompletions, dialect_version = ''v1'', framing = ''sse'', dialect_profile = Some ''openai_chat_completions''\<rparr>"

definition join_text :: "string list \<Rightarrow> string" where
  "join_text parts = concat parts"

definition encode_call :: "json_codec \<Rightarrow> tool_call_input \<Rightarrow> json" where
  "encode_call codec c =
     json_map [(''id'', JString (call_id c)), (''type'', JString ''function''),
       (''function'', json_map [(''name'', JString (call_name c)),
          (''arguments'', JString (unwrap_or ''{}'' (to_vec codec (call_arguments c))))])]"

definition named :: "string option \<Rightarrow> (string \<times> json) list" where
  "named n = (case n of Some n \<Rightarrow> [(''name'', JString n)] | None \<Rightarrow> [])"

definition encode_message :: "json_codec \<Rightarrow> canonical_message \<Rightarrow> json" where
  "encode_message codec m =
     (case m of
        System content name \<Rightarrow>
          json_map ([(''role'', JString ''system''), (''content'', JString (join_text content))] @ named name)
      | User content name \<Rightarrow>
          json_map ([(''role'', JString ''user''), (''content'', JString (join_text content))] @ named name)
      | Assistant content calls \<Rightarrow>
          json_map ([(''role'', JString ''assistant''),
            (''content'', if content = [] then JNull else JString (join_text content))] @
            (if calls = [] then [] else [(''tool_calls'', JArray (map (encode_call codec) calls))]))
      | ToolResult i content \<Rightarrow>
          json_map [(''role'', JString ''tool''), (''tool_call_id'', JString i), (''content'', JString (join_text content))])"

definition encode_messages :: "json_codec \<Rightarrow> canonical_message list \<Rightarrow> json" where
  "encode_messages codec ms = JArray (map (encode_message codec) ms)"

definition openai_extension_fields :: "string list" where
  "openai_extension_fields =
     [''seed'', ''user'', ''top_p'', ''n'', ''frequency_penalty'', ''presence_penalty'', ''logit_bias'', ''logprobs'',
      ''top_logprobs'', ''metadata'']"

definition encode_openai_extension ::
  "string \<times> versioned_extension \<Rightarrow> (string \<times> json) list \<Rightarrow> (encoding_error, (string \<times> json) list) outcome" where
  "encode_openai_extension ke body =
     (case strip_prefix ''openai.'' (fst ke) of
        None \<Rightarrow> (Some (EncodeUnsupported ''non-openai extension''), body)
      | Some field \<Rightarrow>
          if field \<in> set openai_extension_fields
          then (if map_of body field \<noteq> None then (Some (EncodeUnsupported ''extension overrides body field''), body)
                else (None, btree_insert field (ext_value (snd ke)) body))
          else (Some (EncodeUnsupported ''openai extension field''), body))"

definition encode_openai_extensions ::
  "extension_map \<Rightarrow> (string \<times> json) list \<Rightarrow> (encoding_error, (string \<times> json) list) outcome" where
  "encode_openai_extensions exts body = for_each encode_openai_extension exts body"

definition reasoning_label :: "reasoning_effort \<Rightarrow> string" where
  "reasoning_label e = (case e of Low \<Rightarrow> ''low'' | Medium \<Rightarrow> ''medium'' | High \<Rightarrow> ''high'')"

definition tool_definition :: "tool_spec \<Rightarrow> json" where
  "tool_definition t =
     json_map [(''type'', JString ''function''),
       (''function'', json_map [(''name'', JString (spec_name t)), (''description'', JString (spec_description t)),
          (''parameters'', input_schema t)])]"

text \<open>The fields that come from the configuration, in front of the extensions.\<close>

definition config_fields :: "(f32 \<Rightarrow> json) \<Rightarrow> openai_encoder_options \<Rightarrow> effective_config \<Rightarrow> (string \<times> json) list" where
  "config_fields num opts cfg =
     (case eff_temperature cfg of Some t \<Rightarrow> [(''temperature'', num t)] | None \<Rightarrow> []) @
     (case eff_max_output_tokens cfg of
        Some n \<Rightarrow> [(if use_max_completion_tokens opts then ''max_completion_tokens'' else ''max_tokens'', JNumber (PosInt n))]
      | None \<Rightarrow> []) @
     (if eff_stop cfg = [] then [] else [(''stop'', JArray (map JString (eff_stop cfg)))]) @
     (case eff_response_format cfg of
        Some PlainText \<Rightarrow> [(''response_format'', json_map [(''type'', JString ''text'')])]
      | Some JsonObject \<Rightarrow> [(''response_format'', json_map [(''type'', JString ''json_object'')])]
      | None \<Rightarrow> [])"

definition openai_body ::
  "(f32 \<Rightarrow> json) \<Rightarrow> openai_encoder_options \<Rightarrow> json \<Rightarrow> tool_spec list \<Rightarrow> effective_config
    \<Rightarrow> (encoding_error, (string \<times> json) list) result" where
  "openai_body num opts messages tools cfg =
     (case eff_model cfg of
        None \<Rightarrow> Err EncodeInvalidConfiguration
      | Some model \<Rightarrow>
          (let body = overlay ([(''model'', JString model), (''messages'', messages), (''stream'', JBool True)]
                        @ config_fields num opts cfg) []
           in if eff_reasoning_effort cfg \<noteq> None \<and> \<not> allow_reasoning_effort opts
              then Err (EncodeUnsupported ''reasoning_effort'')
              else
                (let body = (case eff_reasoning_effort cfg of
                               Some e \<Rightarrow> btree_insert ''reasoning_effort'' (JString (reasoning_label e)) body
                             | None \<Rightarrow> body)
                 in case encode_openai_extensions (eff_extensions cfg) body of
                      (Some e, _) \<Rightarrow> Err e
                    | (None, body) \<Rightarrow>
                        Ok (if tools = [] then body else btree_insert ''tools'' (JArray (map tool_definition tools)) body))))"

definition bounded_exchange :: "nat \<Rightarrow> dialect_descriptor \<Rightarrow> string \<Rightarrow> (encoding_error, encoded_exchange) result" where
  "bounded_exchange m d bytes =
     (if length bytes > m then Err EncodeLimitExceeded
      else Ok \<lparr>exchange_bytes = bytes, required_input_dialect = d, input_policy = SendAndFinish\<rparr>)"

definition encode_body ::
  "json_codec \<Rightarrow> (f32 \<Rightarrow> json) \<Rightarrow> openai_encoder_options \<Rightarrow> json \<Rightarrow> tool_spec list \<Rightarrow> effective_config
    \<Rightarrow> (encoding_error, encoded_exchange) result" where
  "encode_body codec num opts messages tools cfg =
     (case openai_body num opts messages tools cfg of
        Inl e \<Rightarrow> Err e
      | Inr body \<Rightarrow>
          (case to_vec codec (JObject body) of
             None \<Rightarrow> Err UnrepresentableInput
           | Some bytes \<Rightarrow> bounded_exchange (opt_max_encoded_bytes opts) openai_dialect bytes))"

definition openai_encode_initial ::
  "json_codec \<Rightarrow> (f32 \<Rightarrow> json) \<Rightarrow> openai_encoder_options \<Rightarrow> initial_encode_request \<Rightarrow> (encoding_error, encoded_exchange) result" where
  "openai_encode_initial codec num opts r =
     encode_body codec num opts (encode_messages codec (ini_input r)) (ini_tools r) (ini_config r)"

definition openai_encode_continuation ::
  "json_codec \<Rightarrow> (f32 \<Rightarrow> json) \<Rightarrow> openai_encoder_options \<Rightarrow> continuation_encode_request
    \<Rightarrow> (encoding_error, encoded_exchange) result" where
  "openai_encode_continuation codec num opts r =
     encode_body codec num opts (encode_messages codec (con_context r)) (con_tools r) (con_config r)"

section \<open>Prompts for external agents\<close>

datatype acp_prompt_wire_shape = ParamsObject | MethodEnvelope | PlainTextShape

record acp_prompt_encoder =
  acp_shape :: acp_prompt_wire_shape
  acp_dialect :: dialect_descriptor
  acp_max_encoded_bytes :: nat

definition acp_grok :: acp_prompt_encoder where
  "acp_grok =
     \<lparr>acp_shape = ParamsObject,
      acp_dialect = \<lparr>family = Acp, dialect_version = ''1'', framing = ''json_rpc'', dialect_profile = Some ''grok_build''\<rparr>,
      acp_max_encoded_bytes = 1024 * 1024\<rparr>"

definition acp_plain :: "dialect_family \<Rightarrow> string \<Rightarrow> acp_prompt_encoder" where
  "acp_plain f profile =
     \<lparr>acp_shape = PlainTextShape,
      acp_dialect = \<lparr>family = f, dialect_version = ''1'', framing = ''ndjson'', dialect_profile = Some profile\<rparr>,
      acp_max_encoded_bytes = 1024 * 1024\<rparr>"

definition acp_cursor :: acp_prompt_encoder where
  "acp_cursor = acp_plain CursorAcp ''cursor''"

definition acp_codex :: acp_prompt_encoder where
  "acp_codex = acp_plain CodexAcp ''codex''"

definition acp_agy :: acp_prompt_encoder where
  "acp_agy = acp_plain AgyAcp ''antigravity''"

definition push_part :: "string \<Rightarrow> string \<Rightarrow> string" where
  "push_part part text = (if text = [] then text else text @ [CHR 0x0A]) @ part"

definition collect_user_text :: "canonical_message list \<Rightarrow> (encoding_error, string) result" where
  "collect_user_text ms =
     (let text = fold (\<lambda>m. fold push_part (message_parts m)) ms []
      in if trim text = [] then Err UnrepresentableInput else Ok text)"

definition encode_acp_extension ::
  "string \<times> versioned_extension \<Rightarrow> (string \<times> json) list \<Rightarrow> (encoding_error, (string \<times> json) list) outcome" where
  "encode_acp_extension ke meta =
     (case or_else (strip_prefix ''acp.meta.'' (fst ke)) (strip_prefix ''x.ai.'' (fst ke)) of
        None \<Rightarrow> (Some (EncodeUnsupported ''non-acp extension''), meta)
      | Some field \<Rightarrow>
          if map_of meta field \<noteq> None then (Some (EncodeUnsupported ''duplicate extension meta key''), meta)
          else (None, btree_insert field (ext_value (snd ke)) meta))"

definition encode_acp_extension_meta :: "extension_map \<Rightarrow> (encoding_error, (string \<times> json) list option) result" where
  "encode_acp_extension_meta exts =
     (if exts = [] then Ok None
      else (case for_each encode_acp_extension exts [] of
              (Some e, _) \<Rightarrow> Err e
            | (None, meta) \<Rightarrow> Ok (Some meta)))"

definition prompt_params :: "string \<Rightarrow> (string \<times> json) list option \<Rightarrow> json" where
  "prompt_params text meta =
     json_map ([(''prompt'', JArray [json_map [(''type'', JString ''text''), (''text'', JString text)]])] @
       (case meta of Some m \<Rightarrow> [(''_meta'', JObject m)] | None \<Rightarrow> []))"

definition acp_encode_initial ::
  "json_codec \<Rightarrow> acp_prompt_encoder \<Rightarrow> initial_encode_request \<Rightarrow> (encoding_error, encoded_exchange) result" where
  "acp_encode_initial codec enc r =
     (case collect_user_text (ini_input r) of
        Inl e \<Rightarrow> Err e
      | Inr text \<Rightarrow>
          if ini_tools r \<noteq> []
          then Err (EncodeUnsupported ''non-empty tools require MCP gateway for external-agent ACP profiles'')
          else (case encode_acp_extension_meta (eff_extensions (ini_config r)) of
                  Inl e \<Rightarrow> Err e
                | Inr meta \<Rightarrow>
                    (case (case acp_shape enc of
                             PlainTextShape \<Rightarrow>
                               if meta \<noteq> None then Err (EncodeUnsupported ''plain-text ACP shape cannot encode extensions'')
                               else Ok (Some text)
                           | ParamsObject \<Rightarrow> Ok (to_vec codec (prompt_params text meta))
                           | MethodEnvelope \<Rightarrow>
                               Ok (to_vec codec (json_map [(''method'', JString ''session/prompt''),
                                 (''params'', prompt_params text meta)]))) of
                       Inl e \<Rightarrow> Err e
                     | Inr None \<Rightarrow> Err UnrepresentableInput
                     | Inr (Some bytes) \<Rightarrow> bounded_exchange (acp_max_encoded_bytes enc) (acp_dialect enc) bytes)))"

definition acp_encode_continuation ::
  "acp_prompt_encoder \<Rightarrow> continuation_encode_request \<Rightarrow> (encoding_error, encoded_exchange) result" where
  "acp_encode_continuation enc r = Err (EncodeUnsupported ''ACP external agents do not encode model tool continuations'')"

record headless_prompt_encoder =
  headless_dialect :: dialect_descriptor
  headless_max_encoded_bytes :: nat

definition headless_encode_initial ::
  "headless_prompt_encoder \<Rightarrow> initial_encode_request \<Rightarrow> (encoding_error, encoded_exchange) result" where
  "headless_encode_initial enc r =
     (if ini_tools r \<noteq> [] then Err (EncodeUnsupported ''headless CLI profiles reject Monoloop-linked tools (MCP None)'')
      else if eff_extensions (ini_config r) \<noteq> []
      then Err (EncodeUnsupported ''headless CLI encoder cannot encode extensions'')
      else (case collect_user_text (ini_input r) of
              Inl e \<Rightarrow> Err e
            | Inr text \<Rightarrow> bounded_exchange (headless_max_encoded_bytes enc) (headless_dialect enc) text))"

definition headless_encode_continuation ::
  "headless_prompt_encoder \<Rightarrow> continuation_encode_request \<Rightarrow> (encoding_error, encoded_exchange) result" where
  "headless_encode_continuation enc r = Err (EncodeUnsupported ''headless CLI has no tool continuation encoding'')"

section \<open>What every encoder promises\<close>

text \<open>
  The contract of the encoder port that the exchange code relies on: a bounded body, stamped
  with the encoder's dialect, that finishes the request.
\<close>

locale outbound_encoder =
  fixes encode_initial :: "initial_encode_request \<Rightarrow> (encoding_error, encoded_exchange) result"
    and encode_continuation :: "continuation_encode_request \<Rightarrow> (encoding_error, encoded_exchange) result"
    and dialect :: dialect_descriptor
    and max_bytes :: nat
  assumes initial_contract: "encode_initial r = Ok e \<Longrightarrow>
      length (exchange_bytes e) \<le> max_bytes \<and> required_input_dialect e = dialect \<and> input_policy e = SendAndFinish"
    and continuation_contract: "encode_continuation c = Ok e \<Longrightarrow>
      length (exchange_bytes e) \<le> max_bytes \<and> required_input_dialect e = dialect \<and> input_policy e = SendAndFinish"
begin

definition encodes :: "encoded_exchange \<Rightarrow> bool" where
  "encodes e \<longleftrightarrow> (\<exists>r. encode_initial r = Ok e) \<or> (\<exists>c. encode_continuation c = Ok e)"

lemma encodes_contract:
  "encodes e \<Longrightarrow> length (exchange_bytes e) \<le> max_bytes \<and> required_input_dialect e = dialect \<and> input_policy e = SendAndFinish"
  using initial_contract continuation_contract by (auto simp: encodes_def)

text \<open>All the exchanges of a transaction together.\<close>

lemma exchanges_bounded:
  "list_all encodes es \<Longrightarrow> sum_list (map (length \<circ> exchange_bytes) es) \<le> length es * max_bytes"
proof (induction es)
  case (Cons e es)
  then show ?case using encodes_contract [of e] by simp
qed simp

end

lemma bounded_exchange_ok:
  "bounded_exchange m d bytes = Ok e \<longleftrightarrow>
     length bytes \<le> m \<and> e = \<lparr>exchange_bytes = bytes, required_input_dialect = d, input_policy = SendAndFinish\<rparr>"
  by (auto simp: bounded_exchange_def)

interpretation openai: outbound_encoder "openai_encode_initial codec num opts" "openai_encode_continuation codec num opts"
    openai_dialect "opt_max_encoded_bytes opts" for codec num opts
  by unfold_locales
    (auto simp: openai_encode_initial_def openai_encode_continuation_def encode_body_def bounded_exchange_ok
      split: sum.splits option.splits)

interpretation acp: outbound_encoder "acp_encode_initial codec enc" "acp_encode_continuation enc"
    "acp_dialect enc" "acp_max_encoded_bytes enc" for codec enc
  by unfold_locales
    (auto simp: acp_encode_initial_def acp_encode_continuation_def bounded_exchange_ok
      split: sum.splits option.splits if_splits acp_prompt_wire_shape.splits)

interpretation headless: outbound_encoder "headless_encode_initial enc" "headless_encode_continuation enc"
    "headless_dialect enc" "headless_max_encoded_bytes enc" for enc
  by unfold_locales
    (auto simp: headless_encode_initial_def headless_encode_continuation_def bounded_exchange_ok split: sum.splits if_splits)

section \<open>Nothing is dropped\<close>

lemma openai_extension_loop:
  assumes "for_each encode_openai_extension exts body = (None, body')" and "btree body"
  shows "btree body' \<and> (\<forall>f v. map_of body f = Some v \<longrightarrow> map_of body' f = Some v) \<and>
    (\<forall>f. f \<notin> set openai_extension_fields \<longrightarrow> map_of body' f = map_of body f) \<and>
    list_all (\<lambda>(k, e). \<exists>f. k = ''openai.'' @ f \<and> map_of body' f = Some (ext_value e)) exts"
  using assms
proof (induction exts arbitrary: body)
  case (Cons ke exts)
  obtain f where f: "strip_prefix ''openai.'' (fst ke) = Some f" "f \<in> set openai_extension_fields" "map_of body f = None"
    and r: "for_each encode_openai_extension exts (btree_insert f (ext_value (snd ke)) body) = (None, body')"
    using Cons.prems(1) by (auto simp: encode_openai_extension_def [of ke body] split: option.splits if_splits)
  note ih = Cons.IH [OF r btree_btree_insert [OF Cons.prems(2)]]
  have "map_of body' f = Some (ext_value (snd ke))"
    using ih Cons.prems(2) by (simp add: map_of_btree_insert)
  moreover have "fst ke = ''openai.'' @ f" using f(1) by (simp only: strip_prefix_Some)
  moreover have "map_of body' g = Some v" if "map_of body g = Some v" for g v
    using ih that f(3) Cons.prems(2) by (cases "g = f") (auto simp: map_of_btree_insert)
  ultimately show ?case
    using ih f(2) Cons.prems(2) by (auto simp: map_of_btree_insert case_prod_beta)
qed simp

lemma acp_extension_loop:
  assumes "for_each encode_acp_extension exts meta = (None, meta')" and "btree meta"
  shows "btree meta' \<and> (\<forall>f v. map_of meta f = Some v \<longrightarrow> map_of meta' f = Some v) \<and>
    list_all (\<lambda>(k, e). \<exists>f. (k = ''acp.meta.'' @ f \<or> k = ''x.ai.'' @ f) \<and> map_of meta' f = Some (ext_value e)) exts"
  using assms
proof (induction exts arbitrary: meta)
  case (Cons ke exts)
  obtain f where f: "or_else (strip_prefix ''acp.meta.'' (fst ke)) (strip_prefix ''x.ai.'' (fst ke)) = Some f" "map_of meta f = None"
    and r: "for_each encode_acp_extension exts (btree_insert f (ext_value (snd ke)) meta) = (None, meta')"
    using Cons.prems(1) by (auto simp: encode_acp_extension_def [of ke meta] split: option.splits if_splits)
  note ih = Cons.IH [OF r btree_btree_insert [OF Cons.prems(2)]]
  have "map_of meta' f = Some (ext_value (snd ke))"
    using ih Cons.prems(2) by (simp add: map_of_btree_insert)
  moreover have "fst ke = ''acp.meta.'' @ f \<or> fst ke = ''x.ai.'' @ f"
    using f(1) unfolding or_else_def by (auto simp only: strip_prefix_Some split: option.splits)
  moreover have "map_of meta' g = Some v" if "map_of meta g = Some v" for g v
    using ih that f(2) Cons.prems(2) by (cases "g = f") (auto simp: map_of_btree_insert)
  ultimately show ?case
    using ih Cons.prems(2) by (auto simp: case_prod_beta)
qed simp

text \<open>Inserting one after the other, the last one wins.\<close>

lemma map_of_overlay_last:
  "btree base \<Longrightarrow> map_of (overlay kvs base) k = (case map_of (rev kvs) k of Some v \<Rightarrow> Some v | None \<Rightarrow> map_of base k)"
proof (induction kvs arbitrary: base)
  case (Cons x kvs)
  obtain a b where x: "x = (a, b)" by (cases x)
  have "map_of (overlay (x # kvs) base) k = map_of (overlay kvs (btree_insert a b base)) k"
    by (simp add: overlay_def x)
  with Cons.IH [of "btree_insert a b base"] Cons.prems show ?case
    by (auto simp: x map_of_btree_insert map_add_def split: option.split)
qed simp

text \<open>What a reader of the body finds in a message, and what the message says.\<close>

record read_view =
  view_role :: "string option"
  view_content :: "string option"
  view_name :: "string option"
  view_answers :: "string option"
  view_calls :: "(string option \<times> string option \<times> string option) list"

definition read_call :: "json \<Rightarrow> string option \<times> string option \<times> string option" where
  "read_call j =
     (get_str ''id'' j, Option.bind (jget ''function'' j) (get_str ''name''), Option.bind (jget ''function'' j) (get_str ''arguments''))"

definition read_message :: "json \<Rightarrow> read_view" where
  "read_message j =
     \<lparr>view_role = get_str ''role'' j, view_content = get_str ''content'' j, view_name = get_str ''name'' j,
      view_answers = get_str ''tool_call_id'' j, view_calls = map read_call (unwrap_or [] (get_array ''tool_calls'' j))\<rparr>"

definition call_view :: "json_codec \<Rightarrow> tool_call_input \<Rightarrow> string option \<times> string option \<times> string option" where
  "call_view codec c =
     (Some (call_id c), Some (call_name c), Some (unwrap_or ''{}'' (to_vec codec (call_arguments c))))"

fun message_view :: "json_codec \<Rightarrow> canonical_message \<Rightarrow> read_view" where
  "message_view codec (System parts name) =
     \<lparr>view_role = Some ''system'', view_content = Some (concat parts), view_name = name, view_answers = None, view_calls = []\<rparr>"
| "message_view codec (User parts name) =
     \<lparr>view_role = Some ''user'', view_content = Some (concat parts), view_name = name, view_answers = None, view_calls = []\<rparr>"
| "message_view codec (Assistant parts calls) =
     \<lparr>view_role = Some ''assistant'', view_content = (if parts = [] then None else Some (concat parts)), view_name = None,
      view_answers = None, view_calls = map (call_view codec) calls\<rparr>"
| "message_view codec (ToolResult i parts) =
     \<lparr>view_role = Some ''tool'', view_content = Some (concat parts), view_name = None, view_answers = Some i, view_calls = []\<rparr>"

lemma jget_json_map: "jget k (json_map kvs) = map_of (rev kvs) k"
  by (simp add: json_map_def map_of_overlay_last split: option.split)

lemma read_encoded_call: "read_call (encode_call codec c) = call_view codec c"
  by (simp add: read_call_def encode_call_def call_view_def get_str_def jget_json_map)

lemma read_encoded_message: "read_message (encode_message codec m) = message_view codec m"
proof (cases m)
  case (System parts name)
  then show ?thesis
    by (cases name) (simp_all add: read_message_def encode_message_def get_str_def get_array_def jget_json_map named_def join_text_def)
next
  case (User parts name)
  then show ?thesis
    by (cases name) (simp_all add: read_message_def encode_message_def get_str_def get_array_def jget_json_map named_def join_text_def)
next
  case (Assistant parts calls)
  then show ?thesis
    by (simp add: read_message_def encode_message_def get_str_def get_array_def jget_json_map join_text_def
        read_encoded_call comp_def)
next
  case (ToolResult i parts)
  then show ?thesis
    by (simp add: read_message_def encode_message_def get_str_def get_array_def jget_json_map join_text_def)
qed

text \<open>The fields of a body in front of the extensions.\<close>

definition format_field :: "response_format \<Rightarrow> json" where
  "format_field f = json_map [(''type'', JString (case f of PlainText \<Rightarrow> ''text'' | JsonObject \<Rightarrow> ''json_object''))]"

definition fixed_fields ::
  "(f32 \<Rightarrow> json) \<Rightarrow> openai_encoder_options \<Rightarrow> json \<Rightarrow> effective_config \<Rightarrow> string \<Rightarrow> json option" where
  "fixed_fields num opts messages cfg =
     Map.empty(''model'' := map_option JString (eff_model cfg), ''messages'' := Some messages, ''stream'' := Some (JBool True),
       ''temperature'' := map_option num (eff_temperature cfg),
       (if use_max_completion_tokens opts then ''max_completion_tokens'' else ''max_tokens'') :=
         map_option (JNumber \<circ> PosInt) (eff_max_output_tokens cfg),
       ''stop'' := (if eff_stop cfg = [] then None else Some (JArray (map JString (eff_stop cfg)))),
       ''response_format'' := map_option format_field (eff_response_format cfg),
       ''reasoning_effort'' := map_option (JString \<circ> reasoning_label) (eff_reasoning_effort cfg))"

lemma config_fields_map:
  "map_of (rev (config_fields num opts cfg)) =
     Map.empty(''temperature'' := map_option num (eff_temperature cfg),
       (if use_max_completion_tokens opts then ''max_completion_tokens'' else ''max_tokens'') :=
         map_option (JNumber \<circ> PosInt) (eff_max_output_tokens cfg),
       ''stop'' := (if eff_stop cfg = [] then None else Some (JArray (map JString (eff_stop cfg)))),
       ''response_format'' := map_option format_field (eff_response_format cfg))"
proof -
  have f: "(case eff_response_format cfg of
        Some PlainText \<Rightarrow> [(''response_format'', json_map [(''type'', JString ''text'')])]
      | Some JsonObject \<Rightarrow> [(''response_format'', json_map [(''type'', JString ''json_object'')])]
      | None \<Rightarrow> []) = (case map_option format_field (eff_response_format cfg) of Some v \<Rightarrow> [(''response_format'', v)] | None \<Rightarrow> [])"
    by (cases "eff_response_format cfg"; cases "the (eff_response_format cfg)") (simp_all add: format_field_def)
  show ?thesis
    unfolding config_fields_def f
    by (cases "eff_temperature cfg"; cases "eff_max_output_tokens cfg"; cases "eff_stop cfg = []";
        cases "eff_response_format cfg")
      (simp_all add: fun_eq_iff map_add_def)
qed

lemma body_base:
  assumes "eff_model cfg = Some model"
  shows "map_of (case eff_reasoning_effort cfg of
        Some e \<Rightarrow> btree_insert ''reasoning_effort'' (JString (reasoning_label e))
          (overlay ([(''model'', JString model), (''messages'', messages), (''stream'', JBool True)] @ config_fields num opts cfg) [])
      | None \<Rightarrow> overlay ([(''model'', JString model), (''messages'', messages), (''stream'', JBool True)] @ config_fields num opts cfg) [])
    = fixed_fields num opts messages cfg"
proof -
  let ?base = "overlay ([(''model'', JString model), (''messages'', messages), (''stream'', JBool True)] @ config_fields num opts cfg) []"
  have "btree ?base" by (rule overlay_btree) simp
  moreover have "map_of ?base = (fixed_fields num opts messages cfg)(''reasoning_effort'' := None)"
    by (rule ext) (simp add: map_of_overlay_last config_fields_map map_add_def fixed_fields_def assms split: option.split)
  ultimately show ?thesis
    by (cases "eff_reasoning_effort cfg") (auto simp: fun_eq_iff map_of_btree_insert fixed_fields_def)
qed

lemma openai_body_fields:
  assumes "openai_body num opts messages tools cfg = Ok body"
  shows "eff_model cfg \<noteq> None \<and>
    (\<forall>k. k \<notin> set openai_extension_fields \<longrightarrow>
       map_of body k = ((fixed_fields num opts messages cfg)
         (''tools'' := if tools = [] then None else Some (JArray (map tool_definition tools)))) k) \<and>
    list_all (\<lambda>(k, e). \<exists>f. k = ''openai.'' @ f \<and> map_of body f = Some (ext_value e)) (eff_extensions cfg)"
proof -
  obtain model where m: "eff_model cfg = Some model"
    using assms by (auto simp: openai_body_def split: option.splits)
  let ?base = "overlay ([(''model'', JString model), (''messages'', messages), (''stream'', JBool True)] @ config_fields num opts cfg) []"
  let ?b = "case eff_reasoning_effort cfg of Some e \<Rightarrow> btree_insert ''reasoning_effort'' (JString (reasoning_label e)) ?base | None \<Rightarrow> ?base"
  obtain b' where b': "encode_openai_extensions (eff_extensions cfg) ?b = (None, b')"
    and body: "body = (if tools = [] then b' else btree_insert ''tools'' (JArray (map tool_definition tools)) b')"
    using assms by (auto simp: openai_body_def m Let_def split: if_splits prod.splits option.splits)
  have "btree ?base" by (rule overlay_btree) simp
  then have b: "btree ?b" by (simp split: option.split)
  note fields = body_base [OF m, of messages num opts]
  note loop = openai_extension_loop [OF b' [unfolded encode_openai_extensions_def] b]
  have no_tools: "map_of b' ''tools'' = None"
    using loop fields by (simp add: openai_extension_fields_def fixed_fields_def)
  have "list_all (\<lambda>(k, e). \<exists>f. k = ''openai.'' @ f \<and> map_of body f = Some (ext_value e)) (eff_extensions cfg)"
    using loop no_tools by (fastforce simp: body list_all_iff map_of_btree_insert)
  moreover have "map_of body k = ((fixed_fields num opts messages cfg)
      (''tools'' := if tools = [] then None else Some (JArray (map tool_definition tools)))) k"
    if "k \<notin> set openai_extension_fields" for k
    using that loop fields no_tools by (simp add: body map_of_btree_insert)
  ultimately show ?thesis using m by simp
qed

lemma openai_extension_known:
  "for_each encode_openai_extension exts body = (None, body') \<Longrightarrow>
    list_all (\<lambda>(k, x). \<exists>f. k = ''openai.'' @ f \<and> f \<in> set openai_extension_fields) exts"
proof (induction exts arbitrary: body)
  case (Cons ke exts)
  obtain f where f: "strip_prefix ''openai.'' (fst ke) = Some f" "f \<in> set openai_extension_fields"
    and r: "for_each encode_openai_extension exts (btree_insert f (ext_value (snd ke)) body) = (None, body')"
    using Cons.prems by (auto simp: encode_openai_extension_def [of ke body] split: option.splits if_splits)
  from f(1) have "fst ke = ''openai.'' @ f" by (simp only: strip_prefix_Some)
  with f(2) Cons.IH [OF r] show ?case by (cases ke) auto
qed simp

lemma openai_body_extensions:
  assumes "openai_body num opts messages tools cfg = Ok body"
  shows "list_all (\<lambda>(k, x). \<exists>f. k = ''openai.'' @ f \<and> f \<in> set openai_extension_fields \<and> map_of body f = Some (ext_value x))
    (eff_extensions cfg)"
proof -
  obtain b b' where "for_each encode_openai_extension (eff_extensions cfg) b = (None, b')"
    using assms by (auto simp: openai_body_def encode_openai_extensions_def Let_def split: option.splits if_splits prod.splits)
  then have "list_all (\<lambda>(k, x). \<exists>f. k = ''openai.'' @ f \<and> f \<in> set openai_extension_fields) (eff_extensions cfg)"
    by (rule openai_extension_known)
  with openai_body_fields [OF assms] show ?thesis by (fastforce simp: list_all_iff)
qed

section \<open>Properties\<close>

text \<open>
  C39. A chat completions body carries the request: if an initial or continuation request is
  encoded, the bytes are those of a JSON object with the model, the stream flag, the tools, the
  temperature, the token limit, the stop sequences, the response format and the reasoning effort of
  the request, each present exactly when configured; with one message for every message of the
  request in order, from which its role, text, name, tool calls and the call it answers can be
  read back; and with the value of every extension under its own field, which is never one of
  the others. The versions of the extensions are not represented.
\<close>

theorem openai_body_faithful:
  assumes "openai_encode_initial codec num opts r = Ok e \<and> ms = ini_input r \<and> tools = ini_tools r \<and> cfg = ini_config r \<or>
    openai_encode_continuation codec num opts c = Ok e \<and> ms = con_context c \<and> tools = con_tools c \<and> cfg = con_config c"
  shows "\<exists>body js. to_vec codec (JObject body) = Some (exchange_bytes e) \<and> eff_model cfg \<noteq> None \<and>
    (\<forall>k. k \<notin> set openai_extension_fields \<longrightarrow>
       map_of body k = ((fixed_fields num opts (JArray js) cfg)
         (''tools'' := if tools = [] then None else Some (JArray (map tool_definition tools)))) k) \<and>
    map read_message js = map (message_view codec) ms \<and>
    list_all (\<lambda>(k, x). \<exists>f. k = ''openai.'' @ f \<and> f \<in> set openai_extension_fields \<and> map_of body f = Some (ext_value x))
      (eff_extensions cfg)"
proof -
  have "encode_body codec num opts (encode_messages codec ms) tools cfg = Ok e"
    using assms by (auto simp: openai_encode_initial_def openai_encode_continuation_def)
  then obtain body where b: "openai_body num opts (encode_messages codec ms) tools cfg = Ok body"
    "to_vec codec (JObject body) = Some (exchange_bytes e)"
    by (auto simp: encode_body_def bounded_exchange_ok split: sum.splits option.splits)
  have "map read_message (map (encode_message codec) ms) = map (message_view codec) ms"
    by (simp add: read_encoded_message)
  with openai_body_fields [OF b(1)] openai_body_extensions [OF b(1)] b(2) show ?thesis
    unfolding encode_messages_def by (intro exI [of _ body] exI [of _ "map (encode_message codec) ms"]) blast
qed

definition sample_config :: effective_config where
  "sample_config =
     (merge_base \<lparr>def_model = Some ''m'', def_temperature = None, def_reasoning_effort = None, def_max_output_tokens = None,
        def_stop = [], def_response_format = None, def_continuation_policy = CallerControlled, def_extensions = []\<rparr> None)
     \<lparr>eff_extensions := [(''openai.seed'', \<lparr>ext_version = 1, ext_value = JNumber (PosInt 7)\<rparr>)]\<rparr>"

theorem openai_body_faithful_witness:
  "\<exists>e body. openai_encode_initial ok_codec (\<lambda>_. JNull) default_openai_options
      \<lparr>ini_input = [User [''hi''] None], ini_config = sample_config, ini_tools = []\<rparr> = Ok e \<and>
     to_vec ok_codec (JObject body) = Some (exchange_bytes e) \<and>
     map_of body ''model'' = Some (JString ''m'') \<and> map_of body ''seed'' = Some (JNumber (PosInt 7))"
proof -
  let ?r = "\<lparr>ini_input = [User [''hi''] None], ini_config = sample_config, ini_tools = []\<rparr>"
  have "strip_prefix ''openai.'' ''openai.seed'' = Some ''seed''" by code_simp
  then obtain e where e: "openai_encode_initial ok_codec (\<lambda>_. JNull) default_openai_options ?r = Ok e"
    by (simp add: openai_encode_initial_def encode_body_def openai_body_def sample_config_def merge_base_def config_fields_def
        default_openai_options_def bounded_exchange_def ok_codec_def Let_def
        encode_openai_extensions_def encode_openai_extension_def openai_extension_fields_def overlay_def)
  then have "openai_encode_initial ok_codec (\<lambda>_. JNull) default_openai_options ?r = Ok e \<and> ini_input ?r = ini_input ?r \<and>
      ini_tools ?r = ini_tools ?r \<and> sample_config = ini_config ?r \<or> False" by simp
  with openai_body_faithful [of ok_codec "\<lambda>_. JNull" default_openai_options ?r e "ini_input ?r" "ini_tools ?r" sample_config]
  obtain body js where b: "to_vec ok_codec (JObject body) = Some (exchange_bytes e)"
    "\<forall>k. k \<notin> set openai_extension_fields \<longrightarrow>
       map_of body k = ((fixed_fields (\<lambda>_. JNull) default_openai_options (JArray js) sample_config)
         (''tools'' := None)) k"
    "list_all (\<lambda>(k, x). \<exists>f. k = ''openai.'' @ f \<and> f \<in> set openai_extension_fields \<and> map_of body f = Some (ext_value x))
      (eff_extensions sample_config)"
    by auto
  have "map_of body ''model'' = Some (JString ''m'')"
    using b(2) by (simp add: openai_extension_fields_def fixed_fields_def sample_config_def merge_base_def)
  moreover have "map_of body ''seed'' = Some (JNumber (PosInt 7))" using b(3) by (simp add: sample_config_def)
  ultimately show ?thesis using e b(1) by blast
qed

fun joined_parts :: "string list \<Rightarrow> string" where
  "joined_parts [] = []"
| "joined_parts [p] = p"
| "joined_parts (p # ps) = p @ CHR 0x0A # joined_parts ps"

lemma joined_parts_snoc: "ps \<noteq> [] \<Longrightarrow> joined_parts (ps @ [p]) = joined_parts ps @ CHR 0x0A # p"
  by (induction ps rule: joined_parts.induct) auto

lemma joined_parts_Nil: "list_all ((\<noteq>) []) ps \<Longrightarrow> joined_parts ps = [] \<longleftrightarrow> ps = []"
  by (induction ps rule: joined_parts.induct) auto

lemma push_parts:
  assumes "list_all ((\<noteq>) []) (qs @ ps)"
  shows "fold push_part ps (joined_parts qs) = joined_parts (qs @ ps)"
  using assms
proof (induction ps arbitrary: qs)
  case (Cons p ps)
  have "push_part p (joined_parts qs) = joined_parts (qs @ [p])"
    using Cons.prems joined_parts_Nil [of qs] by (cases "qs = []") (simp_all add: push_part_def joined_parts_snoc)
  then show ?case using Cons.IH [of "qs @ [p]"] Cons.prems by simp
qed simp

lemma collect_text:
  assumes "list_all (\<lambda>m. list_all ((\<noteq>) []) (message_parts m)) ms"
  shows "fold (\<lambda>m. fold push_part (message_parts m)) ms [] = joined_parts (concat (map message_parts ms))"
proof -
  have "fold (\<lambda>m. fold push_part (message_parts m)) ms t = fold push_part (concat (map message_parts ms)) t" for t
    by (induction ms arbitrary: t) (simp_all add: fold_append)
  moreover have "list_all ((\<noteq>) []) (concat (map message_parts ms))" using assms by (auto simp: list_all_iff)
  ultimately show ?thesis using push_parts [of "[]" "concat (map message_parts ms)"] by simp
qed

text \<open>
  A prompt for an external agent is exactly the text of the request: all text parts of all
  messages in order, one per line. It is refused exactly when that is blank; and an exchange is
  encoded only without tools, and only with every extension represented in its metadata.
\<close>

theorem acp_prompt_faithful:
  assumes "list_all (\<lambda>m. list_all ((\<noteq>) []) (message_parts m)) (ini_input r)" and "acp_encode_initial codec enc r = Ok e"
  shows "\<exists>meta. ini_tools r = [] \<and> trim (joined_parts (concat (map message_parts (ini_input r)))) \<noteq> [] \<and>
    (case acp_shape enc of
       PlainTextShape \<Rightarrow> eff_extensions (ini_config r) = [] \<and>
         exchange_bytes e = joined_parts (concat (map message_parts (ini_input r)))
     | ParamsObject \<Rightarrow>
         to_vec codec (prompt_params (joined_parts (concat (map message_parts (ini_input r)))) meta) = Some (exchange_bytes e)
     | MethodEnvelope \<Rightarrow>
         to_vec codec (json_map [(''method'', JString ''session/prompt''),
           (''params'', prompt_params (joined_parts (concat (map message_parts (ini_input r)))) meta)]) = Some (exchange_bytes e)) \<and>
    list_all (\<lambda>(k, x). \<exists>f. (k = ''acp.meta.'' @ f \<or> k = ''x.ai.'' @ f) \<and>
      (case meta of Some m \<Rightarrow> map_of m f = Some (ext_value x) | None \<Rightarrow> False)) (eff_extensions (ini_config r)) \<and>
    length (exchange_bytes e) \<le> acp_max_encoded_bytes enc \<and> required_input_dialect e = acp_dialect enc"
proof -
  let ?t = "joined_parts (concat (map message_parts (ini_input r)))"
  have t: "collect_user_text (ini_input r) = (if trim ?t = [] then Err UnrepresentableInput else Ok ?t)"
    by (simp add: collect_user_text_def collect_text [OF assms(1)])
  then have g: "trim ?t \<noteq> []" "ini_tools r = []"
    using assms(2) by (auto simp: acp_encode_initial_def split: if_splits)
  then obtain meta where meta: "encode_acp_extension_meta (eff_extensions (ini_config r)) = Ok meta"
    using assms(2) t by (auto simp: acp_encode_initial_def split: sum.splits)
  have ext: "list_all (\<lambda>(k, x). \<exists>f. (k = ''acp.meta.'' @ f \<or> k = ''x.ai.'' @ f) \<and>
      (case meta of Some m \<Rightarrow> map_of m f = Some (ext_value x) | None \<Rightarrow> False)) (eff_extensions (ini_config r))"
  proof (cases "eff_extensions (ini_config r) = []")
    case False
    then obtain m where "for_each encode_acp_extension (eff_extensions (ini_config r)) [] = (None, m)" "meta = Some m"
      using meta by (auto simp: encode_acp_extension_meta_def split: prod.splits option.splits)
    then show ?thesis using acp_extension_loop [of "eff_extensions (ini_config r)" "[]" m] by simp
  qed simp
  have "meta = None \<Longrightarrow> eff_extensions (ini_config r) = []"
    using meta by (auto simp: encode_acp_extension_meta_def split: if_splits prod.splits option.splits)
  with assms(2) g t meta ext show ?thesis
    by (intro exI [of _ meta])
      (auto simp: acp_encode_initial_def bounded_exchange_ok split: acp_prompt_wire_shape.splits option.splits if_splits)
qed

theorem acp_prompt_faithful_witness:
  "\<exists>e. acp_encode_initial ok_codec acp_cursor
      \<lparr>ini_input = [User [''hi'', ''there''] None], ini_config = sample_config\<lparr>eff_extensions := []\<rparr>, ini_tools = []\<rparr> = Ok e \<and>
    exchange_bytes e = ''hi'' @ CHR 0x0A # ''there''"
proof -
  let ?r = "\<lparr>ini_input = [User [''hi'', ''there''] None], ini_config = sample_config\<lparr>eff_extensions := []\<rparr>, ini_tools = []\<rparr>"
  have t: "trim (''hi'' @ CHR 0x0A # ''there'') \<noteq> []" by code_simp
  then obtain e where e: "acp_encode_initial ok_codec acp_cursor ?r = Ok e"
    by (simp add: acp_encode_initial_def collect_user_text_def push_part_def encode_acp_extension_meta_def acp_cursor_def
        acp_plain_def bounded_exchange_def Let_def)
  have "list_all (\<lambda>m. list_all ((\<noteq>) []) (message_parts m)) (ini_input ?r)" by simp
  from acp_prompt_faithful [OF this e] e show ?thesis by (auto simp: acp_cursor_def acp_plain_def)
qed

text \<open>
  The exchanges a transaction sends are bounded: whatever chat completions bodies are encoded,
  each finishes its request in the encoder's dialect, and together they are no longer than
  their number times the configured maximum.
\<close>

theorem openai_exchanges_bounded:
  assumes "list_all (\<lambda>e. \<exists>r. openai_encode_initial codec num opts r = Ok e) es"
  shows "sum_list (map (length \<circ> exchange_bytes) es) \<le> length es * opt_max_encoded_bytes opts \<and>
    list_all (\<lambda>e. required_input_dialect e = openai_dialect \<and> input_policy e = SendAndFinish) es"
proof -
  have "list_all (openai.encodes codec num opts) es"
    using assms by (auto simp: list_all_iff openai.encodes_def)
  then show ?thesis
    using openai.exchanges_bounded [of codec num opts es] openai.encodes_contract by (auto simp: list_all_iff)
qed

theorem openai_exchanges_bounded_witness:
  "\<exists>e. openai_encode_initial ok_codec (\<lambda>_. JNull) default_openai_options
      \<lparr>ini_input = [User [''hi''] None], ini_config = sample_config\<lparr>eff_extensions := []\<rparr>, ini_tools = []\<rparr> = Ok e \<and>
    sum_list (map (length \<circ> exchange_bytes) [e]) \<le> 4 * 1024 * 1024"
proof -
  let ?r = "\<lparr>ini_input = [User [''hi''] None], ini_config = sample_config\<lparr>eff_extensions := []\<rparr>, ini_tools = []\<rparr>"
  obtain e where e: "openai_encode_initial ok_codec (\<lambda>_. JNull) default_openai_options ?r = Ok e"
    by (simp add: openai_encode_initial_def encode_body_def openai_body_def sample_config_def merge_base_def
        encode_openai_extensions_def default_openai_options_def bounded_exchange_def ok_codec_def Let_def)
  then have "list_all (\<lambda>e. \<exists>r. openai_encode_initial ok_codec (\<lambda>_. JNull) default_openai_options r = Ok e) [e]" by auto
  from openai_exchanges_bounded [OF this] e show ?thesis by (auto simp: default_openai_options_def)
qed

end
