(* ===== verification/Task_Supervisor.thy ===== *)
theory Task_Supervisor
  imports Input Simulation Assoc
begin

text \<open>
  \<open>crates/monoloop-loop/src/transaction/lifecycle/task_supervisor.rs\<close>: the owner of every task
  of the runtime. A task is registered under an identity of its own, in an index by transaction
  and in an index by the identity the executor gave it, and stays registered until its join has
  been observed, aborted or not. The executor is not code of the repository: which task
  finishes next and how is chosen from outside, and the identity it gives to a new task is the
  value of a parameter at the identities that are in use.
\<close>

section \<open>Data\<close>

datatype task_class =
    TransactionCoordinator string
  | EventPublisher string
  | ConnectorOwner string string
  | InterpreterOwner string string
  | ToolWorker string string
  | LoopRuntimeTask string
  | McpRequest string
  | Finalizer string
  | RuntimeService

fun class_transaction :: "task_class \<Rightarrow> string option" where
  "class_transaction (TransactionCoordinator t) = Some t"
| "class_transaction (EventPublisher t) = Some t"
| "class_transaction (ConnectorOwner t _) = Some t"
| "class_transaction (InterpreterOwner t _) = Some t"
| "class_transaction (ToolWorker t _) = Some t"
| "class_transaction (LoopRuntimeTask t) = Some t"
| "class_transaction (McpRequest t) = Some t"
| "class_transaction (Finalizer t) = Some t"
| "class_transaction RuntimeService = None"

datatype task_exit = ExitCompleted | ExitCancelled | ExitPanicked

record task_meta =
  meta_class :: task_class
  abort_requested :: bool
  meta_tokio :: nat

text \<open>
  The set of joins holds, for every task whose end has not been observed, the identity the
  executor gave it and the identity its future returns.
\<close>

record task_supervisor =
  joins :: "(nat \<times> nat) list"
  metas :: "(nat \<times> task_meta) list"
  tasks_by_transaction :: "(string \<times> nat list) list"
  by_tokio_id :: "(nat \<times> nat) list"
  next_task_id :: nat

text \<open>How a join ends: with what the wrapper around the future returns, or with a join error.\<close>

datatype join_result =
    Joined nat nat task_exit
  | JoinFailed nat bool

section \<open>Operations\<close>

definition tasks_new :: task_supervisor where
  "tasks_new = \<lparr>joins = [], metas = [], tasks_by_transaction = [], by_tokio_id = [], next_task_id = 1\<rparr>"

definition registered_count :: "task_supervisor \<Rightarrow> nat" where
  "registered_count ts = length (metas ts)"

definition tasks_empty :: "task_supervisor \<Rightarrow> bool" where
  "tasks_empty ts \<longleftrightarrow> metas ts = [] \<and> joins ts = []"

definition tasks_for :: "string \<Rightarrow> task_supervisor \<Rightarrow> nat list" where
  "tasks_for tx ts = (case map_of (tasks_by_transaction ts) tx of Some s \<Rightarrow> s | None \<Rightarrow> [])"

definition set_insert :: "nat \<Rightarrow> nat list \<Rightarrow> nat list" where
  "set_insert i s = (if i \<in> set s then s else s @ [i])"

definition task_spawn :: "(nat list \<Rightarrow> nat) \<Rightarrow> task_class \<Rightarrow> task_supervisor \<Rightarrow> nat \<times> task_supervisor" where
  "task_spawn tokio c ts =
     (let i = next_task_id ts;
          t = tokio (map fst (joins ts));
          ts = ts\<lparr>next_task_id := saturating_add i 1, joins := joins ts @ [(t, i)]\<rparr>;
          ts = (case class_transaction c of
                  Some tx \<Rightarrow> ts\<lparr>tasks_by_transaction :=
                               assoc_put tx (set_insert i (tasks_for tx ts)) (tasks_by_transaction ts)\<rparr>
                | None \<Rightarrow> ts);
          ts = ts\<lparr>by_tokio_id := assoc_put t i (by_tokio_id ts)\<rparr>
      in (i, ts\<lparr>metas := assoc_put i \<lparr>meta_class = c, abort_requested = False, meta_tokio = t\<rparr> (metas ts)\<rparr>))"

definition task_abort :: "nat \<Rightarrow> task_supervisor \<Rightarrow> task_supervisor" where
  "task_abort i ts =
     (case map_of (metas ts) i of
        Some m \<Rightarrow> ts\<lparr>metas := assoc_put i (m\<lparr>abort_requested := True\<rparr>) (metas ts)\<rparr>
      | None \<Rightarrow> ts)"

definition abort_each :: "nat list \<Rightarrow> task_supervisor \<Rightarrow> task_supervisor" where
  "abort_each is ts = fold task_abort is ts"

definition abort_transaction :: "string \<Rightarrow> task_supervisor \<Rightarrow> task_supervisor" where
  "abort_transaction tx ts = abort_each (tasks_for tx ts) ts"

fun keeps_completion :: "task_class \<Rightarrow> bool" where
  "keeps_completion (Finalizer _) = True"
| "keeps_completion (EventPublisher _) = True"
| "keeps_completion _ = False"

fun is_finalizer :: "task_class \<Rightarrow> bool" where
  "is_finalizer (Finalizer _) = True"
| "is_finalizer _ = False"

definition task_is :: "(task_class \<Rightarrow> bool) \<Rightarrow> task_supervisor \<Rightarrow> nat \<Rightarrow> bool" where
  "task_is p ts i = (case map_of (metas ts) i of Some m \<Rightarrow> p (meta_class m) | None \<Rightarrow> False)"

definition abort_transaction_residuals :: "string \<Rightarrow> task_supervisor \<Rightarrow> task_supervisor" where
  "abort_transaction_residuals tx ts =
     fold (\<lambda>i ts. if task_is keeps_completion ts i then ts else task_abort i ts) (tasks_for tx ts) ts"

definition abort_transaction_except_finalizer :: "string \<Rightarrow> task_supervisor \<Rightarrow> task_supervisor" where
  "abort_transaction_except_finalizer tx ts =
     fold (\<lambda>i ts. if task_is is_finalizer ts i then ts else task_abort i ts) (tasks_for tx ts) ts"

definition abort_all :: "task_supervisor \<Rightarrow> task_supervisor" where
  "abort_all ts = abort_each (map fst (metas ts)) ts"

definition deregister :: "nat \<Rightarrow> task_supervisor \<Rightarrow> task_class option \<times> task_supervisor" where
  "deregister i ts =
     (case map_of (metas ts) i of
        None \<Rightarrow> (None, ts)
      | Some m \<Rightarrow>
          (let ts = ts\<lparr>metas := assoc_del i (metas ts), by_tokio_id := assoc_del (meta_tokio m) (by_tokio_id ts)\<rparr>;
               ts = (case class_transaction (meta_class m) of
                       None \<Rightarrow> ts
                     | Some tx \<Rightarrow>
                         (case map_of (tasks_by_transaction ts) tx of
                            None \<Rightarrow> ts
                          | Some s \<Rightarrow>
                              (let s = filter (\<lambda>j. j \<noteq> i) s
                               in ts\<lparr>tasks_by_transaction :=
                                       (if s = [] then assoc_del tx (tasks_by_transaction ts)
                                        else assoc_put tx s (tasks_by_transaction ts))\<rparr>)))
           in (Some (meta_class m), ts)))"

definition find_finished_meta :: "(nat \<Rightarrow> bool) \<Rightarrow> task_supervisor \<Rightarrow> nat option" where
  "find_finished_meta finished ts = map_option fst (List.find (\<lambda>(_, m). finished (meta_tokio m)) (metas ts))"

definition reap_finished ::
  "(nat \<Rightarrow> bool) \<Rightarrow> join_result \<Rightarrow> task_supervisor \<Rightarrow> (nat \<times> task_class \<times> task_exit) option \<times> task_supervisor" where
  "reap_finished finished r ts =
     (case r of
        Joined t i exit \<Rightarrow>
          (let ts = ts\<lparr>by_tokio_id := assoc_del t (by_tokio_id ts)\<rparr>;
               requested = (case map_of (metas ts) i of Some m \<Rightarrow> abort_requested m | None \<Rightarrow> False);
               exit = (if requested \<and> exit = ExitCompleted then ExitCancelled else exit)
           in (case deregister i ts of
                 (Some c, ts) \<Rightarrow> (Some (i, c, exit), ts)
               | (None, ts) \<Rightarrow> (None, ts)))
      | JoinFailed t cancelled \<Rightarrow>
          (let exit = (if cancelled then ExitCancelled else ExitPanicked)
           in (case map_of (by_tokio_id ts) t of
                 Some i \<Rightarrow>
                   (case deregister i (ts\<lparr>by_tokio_id := assoc_del t (by_tokio_id ts)\<rparr>) of
                      (Some c, ts) \<Rightarrow> (Some (i, c, exit), ts)
                    | (None, ts) \<Rightarrow> (None, ts))
               | None \<Rightarrow>
                   (case find_finished_meta finished ts of
                      None \<Rightarrow> (None, ts)
                    | Some i \<Rightarrow>
                        (case deregister i ts of
                           (Some c, ts) \<Rightarrow> (Some (i, c, exit), ts)
                         | (None, ts) \<Rightarrow> (None, ts))))))"

text \<open>
  The executor hands over the join of one task that has finished: a number selects the join in
  the set, counted around, and an ending says how the task ended. An empty set has none.
\<close>

datatype task_ending = Returned task_exit | TornDown bool

definition without :: "nat \<Rightarrow> 'a list \<Rightarrow> 'a list" where
  "without k xs = take k xs @ drop (Suc k) xs"

definition take_join :: "nat \<Rightarrow> task_ending \<Rightarrow> task_supervisor \<Rightarrow> (join_result \<times> task_supervisor) option" where
  "take_join k how ts =
     (if joins ts = [] then None
      else (let k = k mod length (joins ts);
                (t, i) = joins ts ! k
            in Some (case how of Returned exit \<Rightarrow> Joined t i exit | TornDown cancelled \<Rightarrow> JoinFailed t cancelled,
                     ts\<lparr>joins := without k (joins ts)\<rparr>)))"

definition join_next ::
  "(nat \<Rightarrow> bool) \<Rightarrow> nat \<times> task_ending \<Rightarrow> task_supervisor \<Rightarrow> (nat \<times> task_class \<times> task_exit) option \<times> task_supervisor" where
  "join_next finished = (\<lambda>(k, how) ts.
     (case take_join k how ts of
        None \<Rightarrow> (None, ts)
      | Some (r, ts) \<Rightarrow> reap_finished finished r ts))"

fun try_reap_finished ::
  "(nat \<Rightarrow> bool) \<Rightarrow> (nat \<times> task_ending) list \<Rightarrow> task_supervisor \<Rightarrow> (nat \<times> task_class \<times> task_exit) list \<times> task_supervisor" where
  "try_reap_finished finished [] ts = ([], ts)"
| "try_reap_finished finished (e # es) ts =
     (let (item, ts) = join_next finished e ts;
          (items, ts) = try_reap_finished finished es ts
      in (case item of Some x \<Rightarrow> x # items | None \<Rightarrow> items, ts))"

text \<open>
  \<open>abort_and_drain\<close> joins tasks until nothing is left or two seconds have passed, which the list
  of endings decides by its length.
\<close>

fun drain_joins :: "(nat \<Rightarrow> bool) \<Rightarrow> (nat \<times> task_ending) list \<Rightarrow> task_supervisor \<Rightarrow> bool \<times> task_supervisor" where
  "drain_joins finished es ts =
     (if joins ts = [] then (True, ts)
      else (case es of
              [] \<Rightarrow> (False, ts)
            | e # es \<Rightarrow>
                (case join_next finished e ts of
                   (Some _, ts) \<Rightarrow> drain_joins finished es ts
                 | (None, ts) \<Rightarrow> (True, ts))))"

definition abort_and_drain :: "(nat \<Rightarrow> bool) \<Rightarrow> (nat \<times> task_ending) list \<Rightarrow> task_supervisor \<Rightarrow> bool \<times> task_supervisor" where
  "abort_and_drain finished es ts =
     (case drain_joins finished es (abort_all ts) of
        (False, ts) \<Rightarrow> (False, ts)
      | (True, ts) \<Rightarrow> (True, ts\<lparr>metas := [], tasks_by_transaction := [], by_tokio_id := []\<rparr>))"

section \<open>A list of live tasks\<close>

text \<open>
  The specification has no index and no executor: the tasks that are registered, in the order
  of their start, each with its class and whether it has been asked to stop.
\<close>

type_synonym live_tasks = "(nat \<times> task_class \<times> bool) list"

datatype task_op =
    SpawnTask task_class
  | AbortTask nat
  | AbortTransaction string
  | AbortResiduals string
  | AbortExceptFinalizer string
  | AbortAll
  | ObserveEnd nat task_ending
  | DrainAll "(nat \<times> task_ending) list"

datatype task_answer =
    Started nat
  | EndSeen "(nat \<times> task_class \<times> task_exit) option"
  | DrainAnswer bool
  | NoAnswer

fun task_step ::
  "(nat list \<Rightarrow> nat) \<Rightarrow> (nat \<Rightarrow> bool) \<Rightarrow> task_op \<Rightarrow> task_supervisor \<Rightarrow> task_answer \<times> task_supervisor" where
  "task_step tokio finished (SpawnTask c) ts = (let (i, ts) = task_spawn tokio c ts in (Started i, ts))"
| "task_step tokio finished (AbortTask i) ts = (NoAnswer, task_abort i ts)"
| "task_step tokio finished (AbortTransaction tx) ts = (NoAnswer, abort_transaction tx ts)"
| "task_step tokio finished (AbortResiduals tx) ts = (NoAnswer, abort_transaction_residuals tx ts)"
| "task_step tokio finished (AbortExceptFinalizer tx) ts = (NoAnswer, abort_transaction_except_finalizer tx ts)"
| "task_step tokio finished AbortAll ts = (NoAnswer, abort_all ts)"
| "task_step tokio finished (ObserveEnd k how) ts =
     (let (item, ts) = join_next finished (k, how) ts in (EndSeen item, ts))"
| "task_step tokio finished (DrainAll es) ts =
     (let (b, ts) = abort_and_drain finished es ts in (DrainAnswer b, ts))"

definition stop_where :: "(nat \<Rightarrow> task_class \<Rightarrow> bool) \<Rightarrow> live_tasks \<Rightarrow> live_tasks" where
  "stop_where p = map (\<lambda>(i, c, a). (i, c, a \<or> p i c))"

fun seen_exit :: "task_ending \<Rightarrow> bool \<Rightarrow> task_exit" where
  "seen_exit (Returned e) a = (if a \<and> e = ExitCompleted then ExitCancelled else e)"
| "seen_exit (TornDown cancelled) a = (if cancelled then ExitCancelled else ExitPanicked)"

definition end_live :: "nat \<times> task_ending \<Rightarrow> live_tasks \<Rightarrow> (nat \<times> task_class \<times> task_exit) option \<times> live_tasks" where
  "end_live = (\<lambda>(k, how) l.
     (if l = [] then (None, l)
      else (let k = k mod length l; (i, c, a) = l ! k
            in (Some (i, c, seen_exit how a), without k l))))"

fun drain_live :: "(nat \<times> task_ending) list \<Rightarrow> live_tasks \<Rightarrow> live_tasks" where
  "drain_live [] l = l"
| "drain_live (e # es) l = drain_live es (snd (end_live e l))"

fun live_step :: "task_op \<Rightarrow> nat \<times> live_tasks \<Rightarrow> task_answer \<times> nat \<times> live_tasks" where
  "live_step (SpawnTask c) (n, l) = (Started n, n + 1, l @ [(n, c, False)])"
| "live_step (AbortTask i) (n, l) = (NoAnswer, n, stop_where (\<lambda>j c. j = i) l)"
| "live_step (AbortTransaction tx) (n, l) = (NoAnswer, n, stop_where (\<lambda>j c. class_transaction c = Some tx) l)"
| "live_step (AbortResiduals tx) (n, l) =
     (NoAnswer, n, stop_where (\<lambda>j c. class_transaction c = Some tx \<and> \<not> keeps_completion c) l)"
| "live_step (AbortExceptFinalizer tx) (n, l) =
     (NoAnswer, n, stop_where (\<lambda>j c. class_transaction c = Some tx \<and> \<not> is_finalizer c) l)"
| "live_step AbortAll (n, l) = (NoAnswer, n, stop_where (\<lambda>j c. True) l)"
| "live_step (ObserveEnd k how) (n, l) = (let (item, l) = end_live (k, how) l in (EndSeen item, n, l))"
| "live_step (DrainAll es) (n, l) =
     (let l = drain_live es (stop_where (\<lambda>j c. True) l) in (DrainAnswer (l = []), n, l))"

definition live :: "task_supervisor \<Rightarrow> live_tasks" where
  "live ts = map (\<lambda>(i, m). (i, meta_class m, abort_requested m)) (metas ts)"

definition live_of :: "string \<Rightarrow> live_tasks \<Rightarrow> nat set" where
  "live_of tx l = set (map fst (filter (\<lambda>(_, c, _). class_transaction c = Some tx) l))"

text \<open>The joins are the registered tasks, and the two indexes say nothing else.\<close>

definition tasks_good :: "task_supervisor \<Rightarrow> bool" where
  "tasks_good ts \<longleftrightarrow>
     distinct (map fst (metas ts)) \<and> distinct (map fst (joins ts)) \<and>
     joins ts = map (\<lambda>(i, m). (meta_tokio m, i)) (metas ts) \<and>
     map_of (by_tokio_id ts) = map_of (joins ts) \<and>
     (\<forall>tx. set (tasks_for tx ts) = live_of tx (live ts)) \<and>
     (\<forall>tx. map_of (tasks_by_transaction ts) tx \<noteq> Some []) \<and>
     (\<forall>i\<in>set (map fst (metas ts)). i < next_task_id ts)"

lemma tasks_good_new: "tasks_good tasks_new"
  by (simp add: tasks_good_def tasks_new_def live_def live_of_def tasks_for_def)

lemma live_of_metas:
  "live_of tx (live ts) = {i. \<exists>m. (i, m) \<in> set (metas ts) \<and> class_transaction (meta_class m) = Some tx}"
  by (force simp: live_of_def live_def)

subsection \<open>Stopping\<close>

definition stop_marked :: "(nat \<Rightarrow> task_meta \<Rightarrow> bool) \<Rightarrow> task_supervisor \<Rightarrow> task_supervisor" where
  "stop_marked p ts =
     ts\<lparr>metas := map (\<lambda>(i, m). (i, if p i m then m\<lparr>abort_requested := True\<rparr> else m)) (metas ts)\<rparr>"

lemma assoc_put_map:
  "distinct (map fst xs) \<Longrightarrow> map_of xs k = Some w \<Longrightarrow>
    assoc_put k v xs = map (\<lambda>(i, x). (i, if i = k then v else x)) xs"
proof (induction xs)
  case (Cons a xs)
  have "k \<notin> fst ` set xs \<Longrightarrow> map (\<lambda>(i, x). (i, if i = k then v else x)) xs = xs"
    by (rule map_idI) force
  with Cons show ?case by (cases a) (auto split: if_splits)
qed simp

lemma abort_stopmarked:
  assumes "distinct (map fst (metas ts))"
  shows "task_abort i ts = stop_marked (\<lambda>j m. j = i) ts"
proof (cases "map_of (metas ts) i")
  case None
  then have "map (\<lambda>(j, m). (j, if j = i then m\<lparr>abort_requested := True\<rparr> else m)) (metas ts) = metas ts"
    by (intro map_idI) (force simp: map_of_fst_None)
  with None show ?thesis by (simp add: task_abort_def stop_marked_def)
next
  case (Some m)
  have "map (\<lambda>(j, x). (j, if j = i then m\<lparr>abort_requested := True\<rparr> else x)) (metas ts)
      = map (\<lambda>(j, x). (j, if j = i then x\<lparr>abort_requested := True\<rparr> else x)) (metas ts)"
    using Some assms by (intro map_cong) (auto dest: eq_key_imp_eq_value)
  with Some assms show ?thesis by (simp add: task_abort_def stop_marked_def assoc_put_map)
qed

lemma stopmarked_keys: "map fst (metas (stop_marked p ts)) = map fst (metas ts)"
  by (simp add: stop_marked_def split_beta comp_def)

lemma stopmarked_stopmarked: "stop_marked p (stop_marked q ts) = stop_marked (\<lambda>i m. q i m \<or> p i (if q i m then m\<lparr>abort_requested := True\<rparr> else m)) ts"
  by (simp add: stop_marked_def comp_def split_beta)

lemma stopmarked_cong: "(\<And>i m. (i, m) \<in> set (metas ts) \<Longrightarrow> p i m = q i m) \<Longrightarrow> stop_marked p ts = stop_marked q ts"
  by (auto simp: stop_marked_def intro!: arg_cong [where f = "\<lambda>x. ts\<lparr>metas := x\<rparr>"] map_cong)

lemma map_of_key_map: "map_of (map (\<lambda>(i, m). (i, f i m)) xs) k = map_option (f k) (map_of xs k)"
  by (induction xs) auto

lemma task_is_stopmarked: "task_is p (stop_marked q ts) i = task_is p ts i"
  by (cases "map_of (metas ts) i") (simp_all add: task_is_def stop_marked_def map_of_key_map)

lemma abort_fold_stopmarked:
  assumes "distinct (map fst (metas ts))"
  shows "fold (\<lambda>i ts. if task_is p ts i then ts else task_abort i ts) is ts
    = stop_marked (\<lambda>j m. j \<in> set is \<and> \<not> p (meta_class m)) ts"
  using assms
proof (induction "is" arbitrary: ts)
  case Nil
  show ?case by (simp add: stop_marked_def split_beta)
next
  case (Cons i "is")
  let ?ts = "if task_is p ts i then ts else task_abort i ts"
  have m: "?ts = stop_marked (\<lambda>j m. j = i \<and> \<not> p (meta_class m)) ts"
  proof (cases "task_is p ts i")
    case True
    with Cons.prems have "\<forall>m. (i, m) \<in> set (metas ts) \<longrightarrow> p (meta_class m)"
      by (auto simp: task_is_def split: option.splits dest: eq_key_imp_eq_value)
    then have "map (\<lambda>(j, m). (j, if j = i \<and> \<not> p (meta_class m) then m\<lparr>abort_requested := True\<rparr> else m)) (metas ts) = metas ts"
      by (intro map_idI) auto
    with True show ?thesis by (simp add: stop_marked_def)
  next
    case False
    with Cons.prems have "\<forall>m. (i, m) \<in> set (metas ts) \<longrightarrow> \<not> p (meta_class m)"
      by (auto simp: task_is_def split: option.splits dest: eq_key_imp_eq_value)
    then have "stop_marked (\<lambda>j m. j = i) ts = stop_marked (\<lambda>j m. j = i \<and> \<not> p (meta_class m)) ts"
      by (auto simp: stop_marked_def intro!: arg_cong [where f = "\<lambda>x. ts\<lparr>metas := x\<rparr>"] map_cong)
    with False Cons.prems show ?thesis by (simp add: abort_stopmarked)
  qed
  have "distinct (map fst (metas ?ts))" using Cons.prems by (simp only: m stopmarked_keys)
  from Cons.IH [OF this] have "fold (\<lambda>i ts. if task_is p ts i then ts else task_abort i ts) (i # is) ts
      = stop_marked (\<lambda>j m. j \<in> set is \<and> \<not> p (meta_class m)) (stop_marked (\<lambda>j m. j = i \<and> \<not> p (meta_class m)) ts)"
    by (simp only: fold.simps comp_apply m)
  also have "\<dots> = stop_marked (\<lambda>j m. j \<in> set (i # is) \<and> \<not> p (meta_class m)) ts"
    unfolding stopmarked_stopmarked by (rule stopmarked_cong) auto
  finally show ?case .
qed

lemma no_task_is [simp]: "task_is (\<lambda>_. False) ts i = False"
  by (simp add: task_is_def split: option.splits)

lemma abort_each_stopmarked:
  "distinct (map fst (metas ts)) \<Longrightarrow> abort_each is ts = stop_marked (\<lambda>j m. j \<in> set is) ts"
  using abort_fold_stopmarked [of ts "\<lambda>_. False" "is"] by (simp add: abort_each_def)

lemma live_stopmarked: "live (stop_marked (\<lambda>i m. p i (meta_class m)) ts) = stop_where p (live ts)"
  unfolding live_def stop_marked_def stop_where_def by (auto simp: split_beta)

lemma live_of_stop [simp]: "live_of tx (stop_where p l) = live_of tx l"
  by (simp add: live_of_def stop_where_def filter_map comp_def split_beta)

lemma stopmarked_good:
  assumes "tasks_good ts"
  shows "tasks_good (stop_marked (\<lambda>i m. p i (meta_class m)) ts)"
proof -
  let ?ts = "stop_marked (\<lambda>i m. p i (meta_class m)) ts"
  have "joins ?ts = joins ts" "tasks_by_transaction ?ts = tasks_by_transaction ts"
    "by_tokio_id ?ts = by_tokio_id ts" "next_task_id ?ts = next_task_id ts"
    by (simp_all add: stop_marked_def)
  moreover from this have "tasks_for tx ?ts = tasks_for tx ts" for tx by (simp add: tasks_for_def)
  moreover have "map (\<lambda>(i, m). (meta_tokio m, i)) (metas ?ts) = map (\<lambda>(i, m). (meta_tokio m, i)) (metas ts)"
    by (simp add: stop_marked_def split_beta comp_def if_distrib cong: if_cong)
  ultimately show ?thesis
    using assms unfolding tasks_good_def live_stopmarked stopmarked_keys live_of_stop by metis
qed

lemma stopmarked_live_set: "(i, m) \<in> set (metas ts) \<Longrightarrow> tasks_good ts \<Longrightarrow>
    i \<in> set (tasks_for tx ts) \<longleftrightarrow> class_transaction (meta_class m) = Some tx"
  by (auto simp: tasks_good_def live_of_metas dest: eq_key_imp_eq_value)

lemma aborts_stopmarked:
  assumes "tasks_good ts"
  shows "abort_transaction tx ts = stop_marked (\<lambda>i m. class_transaction (meta_class m) = Some tx) ts"
    and "abort_transaction_residuals tx ts
      = stop_marked (\<lambda>i m. class_transaction (meta_class m) = Some tx \<and> \<not> keeps_completion (meta_class m)) ts"
    and "abort_transaction_except_finalizer tx ts
      = stop_marked (\<lambda>i m. class_transaction (meta_class m) = Some tx \<and> \<not> is_finalizer (meta_class m)) ts"
    and "abort_all ts = stop_marked (\<lambda>i m. True) ts"
proof -
  have d: "distinct (map fst (metas ts))" using assms by (simp add: tasks_good_def)
  show "abort_transaction tx ts = stop_marked (\<lambda>i m. class_transaction (meta_class m) = Some tx) ts"
    unfolding abort_transaction_def abort_each_stopmarked [OF d] by (rule stopmarked_cong) (simp add: stopmarked_live_set assms)
  show "abort_transaction_residuals tx ts
      = stop_marked (\<lambda>i m. class_transaction (meta_class m) = Some tx \<and> \<not> keeps_completion (meta_class m)) ts"
    unfolding abort_transaction_residuals_def abort_fold_stopmarked [OF d]
    by (rule stopmarked_cong) (simp add: stopmarked_live_set assms)
  show "abort_transaction_except_finalizer tx ts
      = stop_marked (\<lambda>i m. class_transaction (meta_class m) = Some tx \<and> \<not> is_finalizer (meta_class m)) ts"
    unfolding abort_transaction_except_finalizer_def abort_fold_stopmarked [OF d]
    by (rule stopmarked_cong) (simp add: stopmarked_live_set assms)
  show "abort_all ts = stop_marked (\<lambda>i m. True) ts"
    unfolding abort_all_def abort_each_stopmarked [OF d] by (rule stopmarked_cong) force
qed

subsection \<open>Starting and ending\<close>

lemma tasks_forI: "map_of (tasks_by_transaction ts) tx \<noteq> Some [] \<Longrightarrow>
    tasks_for tx ts = [] \<longleftrightarrow> map_of (tasks_by_transaction ts) tx = None"
  by (auto simp: tasks_for_def split: option.splits)

lemma spawn_good:
  assumes "tasks_good ts" "next_task_id ts < usize_max" "tokio (map fst (joins ts)) \<notin> set (map fst (joins ts))"
  shows "tasks_good (snd (task_spawn tokio c ts)) \<and> fst (task_spawn tokio c ts) = next_task_id ts
    \<and> next_task_id (snd (task_spawn tokio c ts)) = next_task_id ts + 1
    \<and> live (snd (task_spawn tokio c ts)) = live ts @ [(next_task_id ts, c, False)]"
proof -
  let ?i = "next_task_id ts" and ?t = "tokio (map fst (joins ts))" and ?ts = "snd (task_spawn tokio c ts)"
  let ?m = "\<lparr>meta_class = c, abort_requested = False, meta_tokio = ?t\<rparr>"
  have new: "?i \<notin> set (map fst (metas ts))" using assms(1) by (auto simp: tasks_good_def)
  then have "map_of (metas ts) ?i = None" by (simp only: map_of_fst_None) simp
  then have m: "metas ?ts = metas ts @ [(?i, ?m)]"
    by (simp add: task_spawn_def Let_def assoc_put_append split: option.split)
  have j: "joins ?ts = joins ts @ [(?t, ?i)]"
    by (simp add: task_spawn_def Let_def split: option.split)
  have n: "next_task_id ?ts = ?i + 1"
    using assms(2) by (simp add: task_spawn_def Let_def saturating_add_def split: option.split)
  have b: "by_tokio_id ?ts = assoc_put ?t ?i (by_tokio_id ts)"
    by (simp add: task_spawn_def Let_def split: option.split)
  have f: "tasks_for tx ?ts = (if class_transaction c = Some tx then set_insert ?i (tasks_for tx ts) else tasks_for tx ts)" for tx
    by (auto simp: task_spawn_def Let_def tasks_for_def map_of_assoc_put split: option.splits)
  have e: "map_of (tasks_by_transaction ?ts) tx \<noteq> Some []" for tx
    using assms(1) by (auto simp: task_spawn_def Let_def map_of_assoc_put set_insert_def tasks_good_def split: option.splits if_splits)
  have l: "live ?ts = live ts @ [(?i, c, False)]" by (simp add: live_def m)
  have "set (tasks_for tx ?ts) = live_of tx (live ?ts)" for tx
    using assms(1) by (auto simp: f l live_of_def tasks_good_def set_insert_def)
  moreover have "map_of (by_tokio_id ?ts) = map_of (joins ?ts)"
  proof -
    have "map_of (by_tokio_id ts) = map_of (joins ts)" using assms(1) unfolding tasks_good_def by blast
    moreover have "map_of (joins ts) ?t = None" using assms(3) by (simp add: map_of_eq_None_iff)
    ultimately show ?thesis by (auto simp: b j map_of_assoc_put map_add_def fun_eq_iff split: option.split)
  qed
  ultimately have "tasks_good ?ts"
    using assms(1,3) new e unfolding tasks_good_def by (auto simp: m j n less_Suc_eq)
  with n l show ?thesis by (simp add: task_spawn_def Let_def)
qed

lemma assoc_del_nth:
  "distinct (map fst xs) \<Longrightarrow> k < length xs \<Longrightarrow> assoc_del (fst (xs ! k)) xs = without k xs"
proof (induction xs arbitrary: k)
  case (Cons a xs)
  show ?case
  proof (cases k)
    case 0
    have "filter (\<lambda>(k', _). k' \<noteq> fst a) xs = xs" using Cons.prems by (intro filter_True) (auto simp: split_beta image_iff)
    with 0 show ?thesis by (cases a) (simp add: assoc_del_def without_def)
  next
    case (Suc j)
    with Cons show ?thesis by (cases a) (force simp: assoc_del_def without_def in_set_conv_nth)
  qed
qed simp

lemma map_without: "map f (without k xs) = without k (map f xs)"
  by (simp add: without_def take_map drop_map)

lemma set_without: "set (without k xs) \<subseteq> set xs"
  by (auto simp: without_def dest: in_set_takeD in_set_dropD)

lemma distinct_without: "distinct xs \<Longrightarrow> distinct (without k xs)"
  using set_take_disj_set_drop_if_distinct [of xs k "Suc k"] by (simp add: without_def)

text \<open>Taking a task out of the registry and both indexes.\<close>

lemma deregister_good:
  assumes "tasks_good ts" "k < length (metas ts)" "metas ts ! k = (i, m)"
    and "map_of (by_tokio_id ts') = (map_of (by_tokio_id ts))(meta_tokio m := None) \<or> by_tokio_id ts' = by_tokio_id ts"
    and "metas ts' = metas ts" "tasks_by_transaction ts' = tasks_by_transaction ts" "next_task_id ts' = next_task_id ts"
    and "joins ts' = without k (joins ts)"
  shows "fst (deregister i ts') = Some (meta_class m) \<and> tasks_good (snd (deregister i ts'))
    \<and> live (snd (deregister i ts')) = without k (live ts) \<and> next_task_id (snd (deregister i ts')) = next_task_id ts"
proof -
  let ?ts = "snd (deregister i ts')"
  have d: "distinct (map fst (metas ts))" "distinct (map fst (joins ts))"
    and js: "joins ts = map (\<lambda>(i, m). (meta_tokio m, i)) (metas ts)"
    using assms(1) unfolding tasks_good_def by blast+
  have mi: "map_of (metas ts) i = Some m" using assms(2,3) d(1) by (metis map_of_is_SomeI nth_mem)
  have jk: "joins ts ! k = (meta_tokio m, i)" and lk: "k < length (joins ts)" using assms(2,3) js by simp_all
  have M: "metas ?ts = without k (metas ts)"
    using assoc_del_nth [OF d(1) assms(2)] assms(3,5) mi
    by (simp add: deregister_def Let_def split: option.split)
  have J: "joins ?ts = without k (joins ts)"
    using assms(5,8) mi by (simp add: deregister_def Let_def split: option.split)
  have N: "next_task_id ?ts = next_task_id ts"
    using assms(5,7) mi by (simp add: deregister_def Let_def split: option.split)
  have L: "live ?ts = without k (live ts)" by (simp add: live_def M map_without)
  have "by_tokio_id ?ts = assoc_del (meta_tokio m) (by_tokio_id ts')"
    using assms(5) mi by (simp add: deregister_def Let_def split: option.split)
  then have "map_of (by_tokio_id ?ts) = (map_of (joins ts))(meta_tokio m := None)"
    using assms(1,4) by (auto simp: map_of_assoc_del tasks_good_def fun_eq_iff)
  moreover have "map_of (joins ?ts) = (map_of (joins ts))(meta_tokio m := None)"
    unfolding J assoc_del_nth [OF d(2) lk, symmetric] jk by (auto simp: fun_eq_iff map_of_assoc_del)
  ultimately have B: "map_of (by_tokio_id ?ts) = map_of (joins ?ts)" by simp
  have T: "tasks_for tx ?ts = (if class_transaction (meta_class m) = Some tx then filter (\<lambda>j. j \<noteq> i) (tasks_for tx ts)
      else tasks_for tx ts)" "map_of (tasks_by_transaction ?ts) tx \<noteq> Some []" for tx
    using assms(1,5,6) mi
    by (auto simp: deregister_def Let_def tasks_for_def map_of_assoc_put map_of_assoc_del tasks_good_def split: option.splits if_splits)
  have "set (tasks_for tx ?ts) = live_of tx (live ?ts)" for tx
  proof -
    have del: "metas ?ts = assoc_del i (metas ts)"
      using assoc_del_nth [OF d(1) assms(2)] assms(3) M by simp
    have "set (tasks_for tx ts) = live_of tx (live ts)" using assms(1) by (simp add: tasks_good_def)
    moreover have "class_transaction (meta_class m) \<noteq> Some tx \<Longrightarrow> i \<notin> live_of tx (live ts)"
      using mi d(1) by (auto simp: live_of_metas dest: eq_key_imp_eq_value map_of_SomeD)
    ultimately show ?thesis
      unfolding live_of_metas del T(1) by (auto simp: assoc_del_def)
  qed
  moreover have "\<forall>j\<in>set (map fst (metas ?ts)). j < next_task_id ?ts"
    using set_without [of k "metas ts"] assms(1) unfolding tasks_good_def M N by auto
  moreover have "joins ?ts = map (\<lambda>(i, m). (meta_tokio m, i)) (metas ?ts)" by (simp only: M J js map_without)
  moreover have "distinct (map fst (metas ?ts))" "distinct (map fst (joins ?ts))"
    using d by (simp_all only: M J map_without distinct_without)
  ultimately have "tasks_good ?ts" using B T(2) unfolding tasks_good_def by blast
  moreover have "fst (deregister i ts') = Some (meta_class m)"
    using assms(5) mi by (simp add: deregister_def Let_def)
  ultimately show ?thesis using L N by blast
qed

lemma take_join_good:
  assumes "tasks_good ts" "joins ts \<noteq> []"
  obtains i m where "metas ts ! (k mod length (joins ts)) = (i, m)" "k mod length (joins ts) < length (metas ts)"
    "joins ts ! (k mod length (joins ts)) = (meta_tokio m, i)"
proof -
  let ?k = "k mod length (joins ts)"
  have js: "joins ts = map (\<lambda>(i, m). (meta_tokio m, i)) (metas ts)" using assms(1) unfolding tasks_good_def by blast
  then have "length (joins ts) = length (metas ts)" by simp
  moreover from this have "?k < length (metas ts)" using assms(2) by (metis length_greater_0_conv mod_less_divisor)
  ultimately show ?thesis using that [of "fst (metas ts ! ?k)" "snd (metas ts ! ?k)"] by (simp add: js split_beta)
qed

lemma live_length: "tasks_good ts \<Longrightarrow> length (live ts) = length (joins ts)"
  by (simp add: live_def tasks_good_def)

lemma join_next_good:
  assumes good: "tasks_good ts"
  shows "tasks_good (snd (join_next finished e ts)) \<and> fst (join_next finished e ts) = fst (end_live e (live ts))
    \<and> live (snd (join_next finished e ts)) = snd (end_live e (live ts))
    \<and> next_task_id (snd (join_next finished e ts)) = next_task_id ts"
proof (cases "joins ts = []")
  case True
  then have "live ts = []" using live_length [OF good] by simp
  with True good show ?thesis by (cases e) (simp add: join_next_def take_join_def end_live_def)
next
  case False
  obtain k how where e: "e = (k, how)" by (cases e)
  let ?k = "k mod length (joins ts)"
  obtain i m where m: "metas ts ! ?k = (i, m)" "?k < length (metas ts)" "joins ts ! ?k = (meta_tokio m, i)"
    using take_join_good [OF good False] .
  have l: "live ts \<noteq> []" "length (live ts) = length (joins ts)" "live ts ! ?k = (i, meta_class m, abort_requested m)"
    using live_length [OF good] False m by (auto simp: live_def)
  have d: "distinct (map fst (metas ts))" "map_of (by_tokio_id ts) = map_of (joins ts)" "distinct (map fst (joins ts))"
    using good unfolding tasks_good_def by blast+
  have mi: "map_of (metas ts) i = Some m" using m d(1) by (metis map_of_is_SomeI nth_mem)
  have ji: "map_of (joins ts) (meta_tokio m) = Some i"
    using m d(3) False by (metis map_of_is_SomeI mod_less_divisor length_greater_0_conv nth_mem)
  let ?ts = "ts\<lparr>joins := without ?k (joins ts), by_tokio_id := assoc_del (meta_tokio m) (by_tokio_id ts)\<rparr>"
  have dr: "fst (deregister i ?ts) = Some (meta_class m) \<and> tasks_good (snd (deregister i ?ts))
    \<and> live (snd (deregister i ?ts)) = without ?k (live ts) \<and> next_task_id (snd (deregister i ?ts)) = next_task_id ts"
    by (rule deregister_good [OF good m(2,1)]) (simp_all add: fun_eq_iff map_of_assoc_del)
  then obtain ts' where ts': "deregister i ?ts = (Some (meta_class m), ts')" "tasks_good ts'"
    "live ts' = without ?k (live ts)" "next_task_id ts' = next_task_id ts" by (cases "deregister i ?ts") auto
  show ?thesis
  proof (cases how)
    case (Returned x)
    with ts' False m l mi show ?thesis
      by (simp add: e join_next_def take_join_def end_live_def reap_finished_def Let_def)
  next
    case (TornDown b)
    with ts' False m l ji d(2) show ?thesis
      by (simp add: e join_next_def take_join_def end_live_def reap_finished_def Let_def)
  qed
qed

lemma drain_joins_good:
  assumes "tasks_good ts"
  shows "tasks_good (snd (drain_joins finished es ts)) \<and> live (snd (drain_joins finished es ts)) = drain_live es (live ts)
    \<and> next_task_id (snd (drain_joins finished es ts)) = next_task_id ts
    \<and> (fst (drain_joins finished es ts) \<longleftrightarrow> drain_live es (live ts) = [])"
  using assms
proof (induction es arbitrary: ts)
  case Nil
  then show ?case using live_length [of ts] by (cases "live ts") auto
next
  case (Cons e es)
  show ?case
  proof (cases "joins ts = []")
    case True
    then have "live ts = []" using live_length [OF Cons.prems] by simp
    moreover have "drain_live es [] = []" by (induction es) (auto simp: end_live_def split_beta)
    ultimately show ?thesis using True Cons.prems by (cases e) (simp add: end_live_def)
  next
    case False
    then have ne: "live ts \<noteq> []" using live_length [OF Cons.prems] by auto
    then obtain x l where x: "end_live e (live ts) = (Some x, l)"
      by (cases e) (auto simp: end_live_def Let_def split_beta)
    with join_next_good [OF Cons.prems, of finished e] obtain ts' where
      "join_next finished e ts = (Some x, ts')" "tasks_good ts'" "live ts' = l" "next_task_id ts' = next_task_id ts"
      by (cases "join_next finished e ts") auto
    with Cons.IH [of ts'] False x show ?thesis by simp
  qed
qed

lemma abort_all_good:
  assumes "tasks_good ts"
  shows "tasks_good (abort_all ts) \<and> live (abort_all ts) = stop_where (\<lambda>_ _. True) (live ts)
    \<and> next_task_id (abort_all ts) = next_task_id ts"
  using stopmarked_good [OF assms, of "\<lambda>_ _. True"] live_stopmarked [of "\<lambda>_ _. True" ts] aborts_stopmarked(4) [OF assms]
  by (simp add: stop_marked_def)

lemma abort_and_drain_good:
  assumes "tasks_good ts"
  shows "tasks_good (snd (abort_and_drain finished es ts))
    \<and> live (snd (abort_and_drain finished es ts)) = drain_live es (stop_where (\<lambda>_ _. True) (live ts))
    \<and> next_task_id (snd (abort_and_drain finished es ts)) = next_task_id ts
    \<and> (fst (abort_and_drain finished es ts) \<longleftrightarrow> drain_live es (stop_where (\<lambda>_ _. True) (live ts)) = [])"
proof -
  obtain b ts' where r: "drain_joins finished es (abort_all ts) = (b, ts')" by (cases "drain_joins finished es (abort_all ts)")
  have g: "tasks_good ts'" "live ts' = drain_live es (stop_where (\<lambda>_ _. True) (live ts))" "next_task_id ts' = next_task_id ts"
    "b \<longleftrightarrow> drain_live es (stop_where (\<lambda>_ _. True) (live ts)) = []"
    using drain_joins_good [of "abort_all ts" finished es] abort_all_good [OF assms] r by auto
  show ?thesis
  proof (cases b)
    case True
    with g live_length [of ts'] have "live ts' = []" "joins ts' = []" by auto
    then have "tasks_good (ts'\<lparr>metas := [], tasks_by_transaction := [], by_tokio_id := []\<rparr>)"
      by (simp add: tasks_good_def tasks_for_def live_def live_of_def)
    with True g r show ?thesis by (simp add: abort_and_drain_def live_def)
  next
    case False
    with g r show ?thesis by (simp add: abort_and_drain_def)
  qed
qed

section \<open>The task registry refines the list\<close>

definition live_state :: "task_supervisor \<Rightarrow> nat \<times> live_tasks" where
  "live_state ts = (next_task_id ts, live ts)"

lemma task_step_good:
  assumes "tasks_good ts" "next_task_id ts < usize_max" "\<And>ids. tokio ids \<notin> set ids"
  shows "tasks_good (snd (task_step tokio finished op ts))
    \<and> next_task_id (snd (task_step tokio finished op ts)) \<le> next_task_id ts + 1
    \<and> live_step op (live_state ts) = (fst (task_step tokio finished op ts), live_state (snd (task_step tokio finished op ts)))"
proof (cases op)
  case (SpawnTask c)
  with spawn_good [where tokio = tokio and c = c, OF assms(1,2) assms(3)] show ?thesis by (simp add: live_state_def split_beta)
next
  case (AbortTask i)
  have "distinct (map fst (metas ts))" using assms(1) by (simp add: tasks_good_def)
  with AbortTask stopmarked_good [OF assms(1), of "\<lambda>j _. j = i"] live_stopmarked [of "\<lambda>j _. j = i" ts] show ?thesis
    by (simp add: live_state_def abort_stopmarked stop_marked_def)
next
  case (AbortTransaction tx)
  let ?p = "\<lambda>(j::nat) c. class_transaction c = Some tx"
  from AbortTransaction stopmarked_good [OF assms(1), of ?p] live_stopmarked [of ?p ts] show ?thesis
    by (simp add: live_state_def aborts_stopmarked [OF assms(1)] stop_marked_def)
next
  case (AbortResiduals tx)
  let ?p = "\<lambda>(j::nat) c. class_transaction c = Some tx \<and> \<not> keeps_completion c"
  from AbortResiduals stopmarked_good [OF assms(1), of ?p] live_stopmarked [of ?p ts] show ?thesis
    by (simp add: live_state_def aborts_stopmarked [OF assms(1)] stop_marked_def)
next
  case (AbortExceptFinalizer tx)
  let ?p = "\<lambda>(j::nat) c. class_transaction c = Some tx \<and> \<not> is_finalizer c"
  from AbortExceptFinalizer stopmarked_good [OF assms(1), of ?p] live_stopmarked [of ?p ts] show ?thesis
    by (simp add: live_state_def aborts_stopmarked [OF assms(1)] stop_marked_def)
next
  case AbortAll
  with abort_all_good [OF assms(1)] show ?thesis by (simp add: live_state_def)
next
  case (ObserveEnd k how)
  with join_next_good [OF assms(1), of finished "(k, how)"] show ?thesis by (simp add: live_state_def split_beta)
next
  case (DrainAll es)
  with abort_and_drain_good [OF assms(1), of finished es] show ?thesis by (simp add: live_state_def split_beta Let_def)
qed

lemma task_runs_good:
  assumes "tasks_good ts" "next_task_id ts + length ops \<le> usize_max" "\<And>ids. tokio ids \<notin> set ids"
  shows "tasks_good (snd (run_ops (task_step tokio finished) ops ts))
    \<and> run_ops live_step ops (live_state ts)
      = (fst (run_ops (task_step tokio finished) ops ts), live_state (snd (run_ops (task_step tokio finished) ops ts)))"
  using assms(1,2)
proof (induction ops arbitrary: ts)
  case (Cons op ops)
  let ?r = "task_step tokio finished op ts"
  have "tasks_good (snd ?r)" "next_task_id (snd ?r) \<le> next_task_id ts + 1"
    "live_step op (live_state ts) = (fst ?r, live_state (snd ?r))"
    using task_step_good [OF Cons.prems(1) _ assms(3), of finished op] Cons.prems(2) by auto
  with Cons.IH [of "snd ?r"] Cons.prems(2) show ?case by (simp add: split_beta Let_def)
qed simp

text \<open>
  C27. Whatever is started, aborted, joined and drained in whatever order, and however tasks end,
  the task supervisor gives the answers of a plain list of live tasks, and at every moment its
  counts and indexes are those of the list: it is empty exactly when no task is live, the
  tasks of a transaction are exactly the live tasks of that transaction, no index keeps
  anything of a task whose join has been seen, and an abort never removes a task. The executor
  is assumed not to give out an identity that is still in use, and the counter of identities
  not to have come to its end.
\<close>

theorem task_supervisor_refines_list:
  assumes "\<And>ids. tokio ids \<notin> set ids" and "length ops < usize_max"
  shows "case run_ops (task_step tokio finished) ops tasks_new of (answers, ts) \<Rightarrow>
    run_ops live_step ops (1, []) = (answers, next_task_id ts, live ts)
    \<and> registered_count ts = length (live ts)
    \<and> (tasks_empty ts \<longleftrightarrow> live ts = [])
    \<and> (\<forall>tx. set (tasks_for tx ts) = live_of tx (live ts))
    \<and> dom (map_of (by_tokio_id ts)) = set (map fst (joins ts))
    \<and> dom (map_of (tasks_by_transaction ts)) = {tx. live_of tx (live ts) \<noteq> {}}"
proof -
  let ?r = "run_ops (task_step tokio finished) ops tasks_new"
  have new: "live_state tasks_new = (1, [])" "next_task_id tasks_new = 1"
    by (simp_all add: live_state_def tasks_new_def live_def)
  have r: "tasks_good (snd ?r)" "run_ops live_step ops (1, []) = (fst ?r, live_state (snd ?r))"
    using task_runs_good [OF tasks_good_new _ assms(1), of ops finished] assms(2) new by auto
  let ?ts = "snd ?r"
  have g: "map_of (tasks_by_transaction ?ts) tx \<noteq> Some []" "set (tasks_for tx ?ts) = live_of tx (live ?ts)"
    "joins ?ts = map (\<lambda>(i, m). (meta_tokio m, i)) (metas ?ts)" "map_of (by_tokio_id ?ts) = map_of (joins ?ts)" for tx
    using r(1) unfolding tasks_good_def by blast+
  have "tx \<in> dom (map_of (tasks_by_transaction ?ts)) \<longleftrightarrow> live_of tx (live ?ts) \<noteq> {}" for tx
    using tasks_forI [OF g(1), of tx] g(2) [of tx] by (auto simp: domIff)
  then have "dom (map_of (tasks_by_transaction ?ts)) = {tx. live_of tx (live ?ts) \<noteq> {}}" by blast
  moreover have "dom (map_of (by_tokio_id ?ts)) = set (map fst (joins ?ts))"
    by (simp add: g(4) dom_map_of_conv_image_fst)
  moreover have "registered_count ?ts = length (live ?ts)" "tasks_empty ?ts \<longleftrightarrow> live ?ts = []"
    by (simp_all add: registered_count_def tasks_empty_def live_def g(3))
  ultimately show ?thesis using g(2) r(2) by (simp add: split_beta live_state_def)
qed

definition unused_id :: "nat list \<Rightarrow> nat" where
  "unused_id ids = sum_list ids + 1"

lemma unused_id_fresh: "unused_id ids \<notin> set ids"
  using member_le_sum_list [of _ ids] by (force simp: unused_id_def)

theorem task_supervisor_refines_list_witness:
  "\<exists>ts. run_ops (task_step unused_id (\<lambda>_. False))
      [SpawnTask (TransactionCoordinator ''t''), SpawnTask (Finalizer ''t''), AbortResiduals ''t'', ObserveEnd 0 (TornDown True)]
      tasks_new
    = ([Started 1, Started 2, NoAnswer, EndSeen (Some (1, TransactionCoordinator ''t'', ExitCancelled))], ts)
    \<and> live ts = [(2, Finalizer ''t'', False)] \<and> \<not> tasks_empty ts"
proof -
  let ?ops = "[SpawnTask (TransactionCoordinator ''t''), SpawnTask (Finalizer ''t''), AbortResiduals ''t'', ObserveEnd 0 (TornDown True)]"
  have n: "length ?ops < usize_max" by (simp add: usize_max_def)
  have spec: "run_ops live_step ?ops (1, [])
      = ([Started 1, Started 2, NoAnswer, EndSeen (Some (1, TransactionCoordinator ''t'', ExitCancelled))],
         3, [(2, Finalizer ''t'', False)])"
    by (simp add: stop_where_def end_live_def without_def)
  show ?thesis
    using task_supervisor_refines_list [OF unused_id_fresh n, of "\<lambda>_. False"] unfolding spec
    by (auto simp: split_beta)
qed

end
