(* ===== verification/Supervisor.thy ===== *)
theory Supervisor
  imports Admission Dispatcher Task_Supervisor
begin

text \<open>
  \<open>crates/monoloop-loop/src/transaction/lifecycle/supervisor.rs\<close> and the shutdown side of
  \<open>owner.rs\<close>: the task that starts transactions, decides how they end, spawns the finalizer that
  sends the one completion, takes rows out of the ledger and stops the runtime when nothing is
  owned any more. Finalizers are tasks of their own and run between the steps of the
  supervisor. What the channels deliver, which task ends and how, the answer to a seal, the
  passing of the grace period and the life of child processes are chosen from outside. The
  gates that tests hold are left out.
\<close>

section \<open>Data\<close>

datatype control_command =
    CancelCommand string
  | ForceTerminate string
  | BeginShutdown
  | StopSupervisor

record shutdown_report =
  rep_published :: nat
  rep_receiver_dropped :: nat
  rep_invariant_failed :: nat
  rep_shutdown_terminals :: nat

record shutdown_snapshot =
  snap_generation :: nat
  snap_ledger_entries :: nat
  snap_owned_tasks :: nat
  snap_owned_processes :: nat
  snap_mcp_routes :: nat
  snap_published :: nat

text \<open>
  A finalizer between its waits: before it has read the row, with the seal sender it was given;
  waiting for the answer to the seal, with what it took from the row; at its end.
\<close>

record finalizer_data =
  fd_channel :: string
  fd_session :: "string option"
  fd_kind :: transaction_end_kind
  fd_sender :: bool
  fd_seal :: bool

datatype finalizer_pc =
    FinStart string bool
  | FinSeal string finalizer_data
  | FinDone string

fun fin_transaction :: "finalizer_pc \<Rightarrow> string" where
  "fin_transaction (FinStart tx _) = tx"
| "fin_transaction (FinSeal tx _) = tx"
| "fin_transaction (FinDone tx) = tx"

text \<open>
  The state the supervisor and the finalizers share. The last three fields are the history the
  theorems speak about: the completions that were handed to a sender, the transactions that
  were admitted, and whether all tasks were ever aborted at once.
\<close>

record supervisor_state =
  sv_shared :: runtime_shared
  sv_tasks :: task_supervisor
  sv_stopping :: bool
  sv_finalizers :: "(nat \<times> finalizer_pc) list"
  sv_tools :: dispatch_state
  sv_process_leases :: nat
  sv_mcp_routes :: "nat option"
  n_published :: nat
  n_receiver_dropped :: nat
  n_invariant_failed :: nat
  n_shutdown_terminals :: nat
  sv_owned_tasks :: nat
  sv_connector_owners :: int
  shutdown_generation :: nat
  sv_report :: "shutdown_report option"
  drain_complete :: bool
  sv_sent :: "(string \<times> transaction_completion) list"
  sv_admitted :: "string list"
  sv_forced :: bool

abbreviation sv_ledger :: "supervisor_state \<Rightarrow> lifecycle_ledger" where
  "sv_ledger s \<equiv> sh_ledger (sv_shared s)"

definition put_ledger :: "lifecycle_ledger \<Rightarrow> supervisor_state \<Rightarrow> supervisor_state" where
  "put_ledger L s = s\<lparr>sv_shared := (sv_shared s)\<lparr>sh_ledger := L\<rparr>\<rparr>"

definition on_row :: "string \<Rightarrow> (ledger_entry \<Rightarrow> ledger_entry) \<Rightarrow> supervisor_state \<Rightarrow> supervisor_state" where
  "on_row tx f s = put_ledger (ledger_modify tx f (sv_ledger s)) s"

definition on_tasks :: "(task_supervisor \<Rightarrow> task_supervisor) \<Rightarrow> supervisor_state \<Rightarrow> supervisor_state" where
  "on_tasks f s = s\<lparr>sv_tasks := f (sv_tasks s)\<rparr>"

definition snapshot_shutdown :: "(nat \<Rightarrow> bool) \<Rightarrow> supervisor_state \<Rightarrow> shutdown_snapshot" where
  "snapshot_shutdown alive s =
     \<lparr>snap_generation = shutdown_generation s,
      snap_ledger_entries = length (by_transaction (sv_ledger s)),
      snap_owned_tasks = sv_owned_tasks s,
      snap_owned_processes = max (length (filter alive [0..<length (owned_children (sv_tools s))])) (sv_process_leases s),
      snap_mcp_routes = (case sv_mcp_routes s of Some n \<Rightarrow> n | None \<Rightarrow> 0),
      snap_published = n_published s\<rparr>"

definition final_report :: "supervisor_state \<Rightarrow> shutdown_report" where
  "final_report s =
     \<lparr>rep_published = n_published s, rep_receiver_dropped = n_receiver_dropped s,
      rep_invariant_failed = n_invariant_failed s, rep_shutdown_terminals = n_shutdown_terminals s\<rparr>"

section \<open>The terminal decision\<close>

definition decide :: "terminal_proposal \<Rightarrow> bool \<Rightarrow> ledger_entry \<Rightarrow> ledger_entry" where
  "decide p force e =
     (let e = e\<lparr>pending_worker_proposal := None\<rparr>;
          e = (case entry_terminal e of
                 Some d \<Rightarrow>
                   if force \<and> decision_kind d = TxCancelled \<and> proposal_kind p = TxTerminated
                   then e\<lparr>entry_terminal := Some \<lparr>decision_kind = TxTerminated\<rparr>\<rparr> else e
               | None \<Rightarrow> e\<lparr>entry_terminal := Some \<lparr>decision_kind = proposal_kind p\<rparr>, entry_phase := Finalizing\<rparr>)
      in e\<lparr>cancel_requested := True, has_publisher_seal_tx := False\<rparr>)"

definition spawn_finalizer :: "(nat list \<Rightarrow> nat) \<Rightarrow> string \<Rightarrow> bool \<Rightarrow> supervisor_state \<Rightarrow> supervisor_state" where
  "spawn_finalizer tokio tx seal s =
     (let (i, ts) = task_spawn tokio (Finalizer tx) (sv_tasks s)
      in s\<lparr>sv_tasks := ts, sv_finalizers := assoc_put i (FinStart tx seal) (sv_finalizers s)\<rparr>)"

definition accept_terminal ::
  "(nat list \<Rightarrow> nat) \<Rightarrow> string \<Rightarrow> terminal_proposal \<Rightarrow> bool \<Rightarrow> supervisor_state \<Rightarrow> supervisor_state" where
  "accept_terminal tokio tx p force s =
     (case ledger_get tx (sv_ledger s) of
        None \<Rightarrow> s
      | Some e \<Rightarrow>
          (let s' = on_row tx (decide p force) s
           in if entry_terminal e = None then spawn_finalizer tokio tx (has_publisher_seal_tx e) s' else s'))"

section \<open>Finalizers\<close>

definition fin_begin :: "string \<Rightarrow> bool \<Rightarrow> supervisor_state \<Rightarrow> finalizer_pc \<times> supervisor_state" where
  "fin_begin tx seal s =
     (case ledger_get tx (sv_ledger s) of
        None \<Rightarrow> (FinDone tx, s)
      | Some e \<Rightarrow>
          (let kind = (case entry_terminal e of Some d \<Rightarrow> decision_kind d | None \<Rightarrow> InvariantFailed);
               e' = (if \<not> has_completion_tx e \<and> entry_delivery e \<noteq> None
                     then e\<lparr>entry_delivery := None, has_completion_tx := True\<rparr> else e)
           in (FinSeal tx
                 \<lparr>fd_channel = entry_channel e, fd_session = map_option key_session (entry_session e),
                  fd_kind = kind, fd_sender = has_completion_tx e', fd_seal = seal\<rparr>,
               on_row tx (\<lambda>_. e'\<lparr>entry_phase := CleanupPendingPhase, has_publisher_cmd_tx := False, has_completion_tx := False\<rparr>) s)))"

datatype seal_outcome =
    SealReply terminal_event_delivery nat
  | SealReplyTimeout
  | SealChannelClosed
  | SealChannelFull

fun seal_delivery :: "seal_outcome \<Rightarrow> terminal_event_delivery \<times> nat" where
  "seal_delivery (SealReply d n) = (d, n)"
| "seal_delivery SealReplyTimeout = (DeliveryDeadlineExceeded, 0)"
| "seal_delivery SealChannelClosed = (QueueClosed, 0)"
| "seal_delivery SealChannelFull = (DeliveryDeadlineExceeded, 0)"

definition truncated_kind :: "terminal_event_delivery \<Rightarrow> transaction_end_kind \<Rightarrow> transaction_end_kind" where
  "truncated_kind d k =
     (if d \<in> {DeliveryLimitExceeded, DeliveryDeadlineExceeded, QueueClosed} \<and> k \<in> {TxCompleted, ContinuationRequired}
      then EventDeliveryFailed else k)"

definition count_completion :: "completion_publish_result \<Rightarrow> supervisor_state \<Rightarrow> supervisor_state" where
  "count_completion r s =
     (case r of
        CompletionSent \<Rightarrow> s\<lparr>n_published := n_published s + 1\<rparr>
      | ReceiverDropped \<Rightarrow> s\<lparr>n_published := n_published s + 1, n_receiver_dropped := n_receiver_dropped s + 1\<rparr>
      | CompletionInvariantFailed \<Rightarrow> s\<lparr>n_invariant_failed := n_invariant_failed s + 1\<rparr>)"

definition fin_finish ::
  "seal_outcome \<Rightarrow> completion_publish_result \<Rightarrow> string \<Rightarrow> finalizer_data \<Rightarrow> supervisor_state \<Rightarrow> supervisor_state" where
  "fin_finish outcome r tx d s =
     (let (delivery, last_seq) = (if fd_seal d then seal_delivery outcome else (NotAttempted, 0));
          kind = truncated_kind delivery (fd_kind d);
          s = (if kind \<noteq> fd_kind d then on_row tx (\<lambda>e. e\<lparr>entry_terminal := Some \<lparr>decision_kind = kind\<rparr>\<rparr>) s else s);
          s = on_row tx (\<lambda>e. e\<lparr>event_sequence := last_seq\<rparr>) s;
          completion = build_completion (end_event tx (fd_channel d) (fd_session d) kind last_seq) delivery
            (CleanupPending (sv_owned_tasks s) (sv_process_leases s) (length (orphan_permits (sv_tools s))))
      in if fd_sender d then count_completion r (s\<lparr>sv_sent := sv_sent s @ [(tx, completion)]\<rparr>)
         else s\<lparr>n_invariant_failed := n_invariant_failed s + 1\<rparr>)"

definition finalizer_step ::
  "seal_outcome \<Rightarrow> completion_publish_result \<Rightarrow> nat \<Rightarrow> supervisor_state \<Rightarrow> supervisor_state" where
  "finalizer_step outcome r i s =
     (case map_of (sv_finalizers s) i of
        Some (FinStart tx seal) \<Rightarrow>
          (let (pc, s) = fin_begin tx seal s in s\<lparr>sv_finalizers := assoc_put i pc (sv_finalizers s)\<rparr>)
      | Some (FinSeal tx d) \<Rightarrow>
          (let s = fin_finish outcome r tx d s in s\<lparr>sv_finalizers := assoc_put i (FinDone tx) (sv_finalizers s)\<rparr>)
      | _ \<Rightarrow> s)"

section \<open>Rows that are done\<close>

definition remove_row :: "string \<Rightarrow> supervisor_state \<Rightarrow> supervisor_state" where
  "remove_row tx s =
     (case ledger_remove tx (sv_ledger s) of
        (Some e, L) \<Rightarrow> s\<lparr>sv_shared := (sv_shared s)\<lparr>sh_ledger := L, sh_pool := drop_entry e (sh_pool (sv_shared s))\<rparr>\<rparr>
      | (None, _) \<Rightarrow> s)"

definition try_remove_tombstone :: "string \<Rightarrow> supervisor_state \<Rightarrow> supervisor_state" where
  "try_remove_tombstone tx s =
     (case ledger_get tx (sv_ledger s) of
        None \<Rightarrow> s
      | Some e \<Rightarrow> if entry_phase e \<in> {CleanupPendingPhase, Finalizing} then remove_row tx s else s)"

definition force_remove_tombstone :: "string \<Rightarrow> supervisor_state \<Rightarrow> supervisor_state" where
  "force_remove_tombstone = remove_row"

section \<open>Start\<close>

definition MAX_TX_DEADLINE :: nat where
  "MAX_TX_DEADLINE = 365 * 24 * 3600 * 1000"

definition transaction_budget :: "nat \<Rightarrow> effective_config \<Rightarrow> nat" where
  "transaction_budget default_deadline eff =
     (let ceiling = min default_deadline MAX_TX_DEADLINE
      in min (min (case eff_deadline eff of Some d \<Rightarrow> d | None \<Rightarrow> ceiling) ceiling) MAX_TX_DEADLINE)"

definition handle_start :: "(nat list \<Rightarrow> nat) \<Rightarrow> string \<Rightarrow> supervisor_state \<Rightarrow> supervisor_state" where
  "handle_start tokio tx s =
     (case ledger_get tx (sv_ledger s) of
        None \<Rightarrow> s
      | Some e \<Rightarrow>
          if entry_phase e \<noteq> Queued \<or> entry_delivery e = None then s
          else (let s = on_row tx (\<lambda>e. e\<lparr>entry_delivery := None, has_completion_tx := True, entry_phase := Running\<rparr>) s;
                    s = on_row tx (\<lambda>e. e\<lparr>has_publisher_cmd_tx := True, has_publisher_seal_tx := True\<rparr>) s;
                    s = on_tasks (\<lambda>ts. snd (task_spawn tokio (EventPublisher tx) ts)) s
                in on_tasks (\<lambda>ts. snd (task_spawn tokio (TransactionCoordinator tx) ts)) s))"

section \<open>Task exits\<close>

fun is_connector_owner :: "task_class \<Rightarrow> bool" where
  "is_connector_owner (ConnectorOwner _ _) = True"
| "is_connector_owner _ = False"

fun is_coordinator :: "task_class \<Rightarrow> bool" where
  "is_coordinator (TransactionCoordinator _) = True"
| "is_coordinator _ = False"

definition note_connector_owner_spawn :: "task_class \<Rightarrow> supervisor_state \<Rightarrow> supervisor_state" where
  "note_connector_owner_spawn c s =
     (if is_connector_owner c then s\<lparr>sv_connector_owners := sv_connector_owners s + 1\<rparr> else s)"

definition note_connector_owner_exit :: "task_class \<Rightarrow> supervisor_state \<Rightarrow> supervisor_state" where
  "note_connector_owner_exit c s =
     (if is_connector_owner c then s\<lparr>sv_connector_owners := sv_connector_owners s - 1\<rparr> else s)"

definition invented_kind :: "task_exit \<Rightarrow> bool \<Rightarrow> bool \<Rightarrow> transaction_end_kind" where
  "invented_kind exit quiescing cancelled =
     (if exit = ExitPanicked then InvariantFailed
      else if quiescing then RuntimeShutdown
      else if cancelled \<or> exit = ExitCancelled then TxCancelled
      else InvariantFailed)"

definition recover_terminal ::
  "(nat list \<Rightarrow> nat) \<Rightarrow> string \<Rightarrow> task_exit \<Rightarrow> supervisor_state \<Rightarrow> supervisor_state" where
  "recover_terminal tokio tx exit s =
     (case ledger_get tx (sv_ledger s) of
        None \<Rightarrow> s
      | Some e \<Rightarrow>
          if entry_terminal e \<noteq> None then s
          else (let p = (case pending_worker_proposal e of
                           Some p \<Rightarrow> p
                         | None \<Rightarrow> \<lparr>proposal_kind = invented_kind exit (sh_state (sv_shared s) = Quiescing) (cancel_requested e)\<rparr>);
                    s = on_row tx (\<lambda>e. e\<lparr>pending_worker_proposal := None\<rparr>) s
                in accept_terminal tokio tx p False s))"

definition on_task_exit ::
  "(nat list \<Rightarrow> nat) \<Rightarrow> task_class \<Rightarrow> task_exit \<Rightarrow> supervisor_state \<Rightarrow> supervisor_state" where
  "on_task_exit tokio c exit s =
     (case class_transaction c of
        None \<Rightarrow> s
      | Some tx \<Rightarrow>
          (let s = (if is_coordinator c then recover_terminal tokio tx exit s else s)
           in if tasks_for tx (sv_tasks s) = [] then try_remove_tombstone tx s
              else if is_finalizer c then on_tasks (abort_transaction tx) s
              else s))"

section \<open>Shutdown\<close>

definition leave_accepting :: "runtime_state \<Rightarrow> runtime_state" where
  "leave_accepting st = (if st \<in> {Accepting, Starting} then Quiescing else st)"

definition to_quiescing :: "supervisor_state \<Rightarrow> supervisor_state" where
  "to_quiescing s = s\<lparr>sv_shared := (sv_shared s)\<lparr>sh_state := leave_accepting (sh_state (sv_shared s))\<rparr>\<rparr>"

definition signal_mcp_shutdown :: "supervisor_state \<Rightarrow> supervisor_state" where
  "signal_mcp_shutdown s = s\<lparr>sv_mcp_routes := None\<rparr>"

definition shut_down_transaction :: "(nat list \<Rightarrow> nat) \<Rightarrow> string \<Rightarrow> supervisor_state \<Rightarrow> supervisor_state" where
  "shut_down_transaction tokio tx s =
     (if (case ledger_get tx (sv_ledger s) of Some e \<Rightarrow> entry_terminal e \<noteq> None | None \<Rightarrow> False)
      then on_tasks (abort_transaction_residuals tx) (on_row tx (\<lambda>e. e\<lparr>cancel_requested := True\<rparr>) s)
      else accept_terminal tokio tx \<lparr>proposal_kind = RuntimeShutdown\<rparr> False
             (s\<lparr>n_shutdown_terminals := n_shutdown_terminals s + 1\<rparr>))"

definition begin_shutdown_inner :: "(nat list \<Rightarrow> nat) \<Rightarrow> supervisor_state \<Rightarrow> supervisor_state" where
  "begin_shutdown_inner tokio s =
     (let s = to_quiescing s;
          ids = transaction_ids (sv_ledger s);
          s = signal_mcp_shutdown (s\<lparr>sv_stopping := True\<rparr>)
      in fold (shut_down_transaction tokio) ids s)"

definition force_abort :: "supervisor_state \<Rightarrow> supervisor_state" where
  "force_abort s = (on_tasks abort_all s)\<lparr>sv_forced := True\<rparr>"

fun control_received :: "(nat list \<Rightarrow> nat) \<Rightarrow> control_command \<Rightarrow> supervisor_state \<Rightarrow> supervisor_state" where
  "control_received tokio (CancelCommand tx) s = accept_terminal tokio tx \<lparr>proposal_kind = TxCancelled\<rparr> False s"
| "control_received tokio (ForceTerminate tx) s = accept_terminal tokio tx \<lparr>proposal_kind = TxTerminated\<rparr> True s"
| "control_received tokio BeginShutdown s = begin_shutdown_inner tokio s"
| "control_received tokio StopSupervisor s = force_abort (begin_shutdown_inner tokio s)"

definition worker_exited :: "(nat list \<Rightarrow> nat) \<Rightarrow> string \<times> terminal_proposal \<Rightarrow> supervisor_state \<Rightarrow> supervisor_state" where
  "worker_exited tokio = (\<lambda>(tx, p). accept_terminal tokio tx p False)"

section \<open>Joins\<close>

text \<open>
  The executor hands over the join of a task that has ended. A finalizer ends when it has come
  to the end of its body, or at one of its waits when it has been aborted; about every other
  task nothing is assumed.
\<close>

definition may_end :: "nat \<Rightarrow> task_ending \<Rightarrow> supervisor_state \<Rightarrow> bool" where
  "may_end k how s =
     (let js = joins (sv_tasks s)
      in if js = [] then False
         else (let i = snd (js ! (k mod length js))
               in (case map_of (sv_finalizers s) i of
                     None \<Rightarrow> True
                   | Some (FinDone _) \<Rightarrow>
                       how = Returned ExitCompleted
                       \<or> how = TornDown True \<and> (case map_of (metas (sv_tasks s)) i of Some m \<Rightarrow> abort_requested m | None \<Rightarrow> False)
                   | Some _ \<Rightarrow>
                       how = TornDown True \<and> (case map_of (metas (sv_tasks s)) i of Some m \<Rightarrow> abort_requested m | None \<Rightarrow> False))))"

definition observe_end ::
  "(nat \<Rightarrow> bool) \<Rightarrow> nat \<times> task_ending \<Rightarrow> supervisor_state \<Rightarrow> (nat \<times> task_class \<times> task_exit) option \<times> supervisor_state" where
  "observe_end finished = (\<lambda>(k, how) s.
     (if may_end k how s
      then (let (item, ts) = join_next finished (k, how) (sv_tasks s);
                s = s\<lparr>sv_tasks := ts\<rparr>
            in (item, case item of Some (i, _, _) \<Rightarrow> s\<lparr>sv_finalizers := assoc_del i (sv_finalizers s)\<rparr> | None \<Rightarrow> s))
      else (None, s)))"

fun observe_ends ::
  "(nat \<Rightarrow> bool) \<Rightarrow> (nat \<times> task_ending) list \<Rightarrow> supervisor_state \<Rightarrow> (nat \<times> task_class \<times> task_exit) list \<times> supervisor_state" where
  "observe_ends finished [] s = ([], s)"
| "observe_ends finished (e # es) s =
     (let (item, s) = observe_end finished e s;
          (items, s) = observe_ends finished es s
      in (case item of Some x \<Rightarrow> x # items | None \<Rightarrow> items, s))"

definition handle_exit :: "(nat list \<Rightarrow> nat) \<Rightarrow> nat \<times> task_class \<times> task_exit \<Rightarrow> supervisor_state \<Rightarrow> supervisor_state" where
  "handle_exit tokio = (\<lambda>(_, c, x) s. on_task_exit tokio c x (note_connector_owner_exit c s))"

definition reap ::
  "(nat list \<Rightarrow> nat) \<Rightarrow> (nat \<Rightarrow> bool) \<Rightarrow> (nat \<times> task_ending) list \<Rightarrow> (string \<times> terminal_proposal) list
    \<Rightarrow> supervisor_state \<Rightarrow> supervisor_state" where
  "reap tokio finished es msgs s =
     (let (items, s) = observe_ends finished es s
      in fold (handle_exit tokio) items (fold (worker_exited tokio) msgs s))"

definition register_spawn :: "(nat list \<Rightarrow> nat) \<Rightarrow> task_class \<Rightarrow> supervisor_state \<Rightarrow> supervisor_state" where
  "register_spawn tokio c s = on_tasks (\<lambda>ts. snd (task_spawn tokio c ts)) (note_connector_owner_spawn c s)"

definition store_owned_tasks :: "supervisor_state \<Rightarrow> supervisor_state" where
  "store_owned_tasks s = s\<lparr>sv_owned_tasks := registered_count (sv_tasks s)\<rparr>"

section \<open>Quiescing and stopping\<close>

definition poll_children :: "(nat \<Rightarrow> bool) \<Rightarrow> supervisor_state \<Rightarrow> supervisor_state" where
  "poll_children alive s =
     s\<lparr>sv_tools := snd (retain_children (map alive [0..<length (owned_children (sv_tools s))]) (sv_tools s))\<rparr>"

definition shutdown_progress :: "(nat \<Rightarrow> bool) \<Rightarrow> supervisor_state \<Rightarrow> supervisor_state" where
  "shutdown_progress alive s = poll_children alive (s\<lparr>sv_tools := release_orphans (sv_tools s)\<rparr>)"

definition clear_idle :: "string \<Rightarrow> supervisor_state \<Rightarrow> supervisor_state" where
  "clear_idle tx s = (if tasks_for tx (sv_tasks s) = [] then try_remove_tombstone tx s else s)"

definition past_grace :: "string \<Rightarrow> supervisor_state \<Rightarrow> supervisor_state" where
  "past_grace tx s =
     (let s = on_tasks (abort_transaction_except_finalizer tx) s
      in if tasks_for tx (sv_tasks s) = [] then force_remove_tombstone tx s else s)"

definition quiesce :: "(nat \<Rightarrow> bool) \<Rightarrow> bool \<Rightarrow> supervisor_state \<Rightarrow> supervisor_state" where
  "quiesce alive grace_over s =
     (let s = shutdown_progress alive s;
          ids = transaction_ids (sv_ledger s);
          s = fold (\<lambda>tx. on_tasks (abort_transaction_residuals tx)) ids s;
          s = fold clear_idle ids s
      in if grace_over then fold past_grace (transaction_ids (sv_ledger s)) s else s)"

definition ledger_empty :: "supervisor_state \<Rightarrow> bool" where
  "ledger_empty s \<longleftrightarrow> by_transaction (sv_ledger s) = []"

definition nothing_owned :: "supervisor_state \<Rightarrow> bool" where
  "nothing_owned s \<longleftrightarrow> ledger_empty s \<and> tasks_empty (sv_tasks s) \<and> owned_children (sv_tools s) = []"

definition drain_tasks :: "(nat \<Rightarrow> bool) \<Rightarrow> (nat \<times> task_ending) list \<Rightarrow> supervisor_state \<Rightarrow> bool \<times> supervisor_state" where
  "drain_tasks finished es s =
     (let (b, ts) = abort_and_drain finished es (sv_tasks s)
      in (b, s\<lparr>sv_tasks := ts, sv_finalizers := filter (\<lambda>(i, _). i \<in> set (map fst (metas ts))) (sv_finalizers s)\<rparr>))"

definition finish_stop :: "supervisor_state \<Rightarrow> supervisor_state" where
  "finish_stop s =
     (let s = s\<lparr>sv_owned_tasks := 0, sv_connector_owners := 0\<rparr>
      in s\<lparr>sv_report := Some (final_report s), drain_complete := True\<rparr>)"

text \<open>What one lap of the loop takes from outside, up to its wait.\<close>

record lap_inputs =
  in_worker :: "(string \<times> terminal_proposal) list"
  in_control :: "control_command list"
  in_ended :: "(nat \<times> task_ending) list"
  in_spawn :: "task_class list"
  in_grace_over :: bool
  in_late_worker :: "(string \<times> terminal_proposal) list"
  in_drained :: "(nat \<times> task_ending) list"
  in_finished :: "nat \<Rightarrow> bool"
  in_alive :: "nat \<Rightarrow> nat \<Rightarrow> bool"

definition try_stop :: "(nat list \<Rightarrow> nat) \<Rightarrow> lap_inputs \<Rightarrow> supervisor_state \<Rightarrow> supervisor_state" where
  "try_stop tokio inp s =
     (if \<not> (sv_stopping s \<and> ledger_empty s) then s
      else (let s = fold (worker_exited tokio) (in_late_worker inp) s
            in if \<not> ledger_empty s then s
               else (let s = poll_children (in_alive inp 2) (shutdown_progress (in_alive inp 1) s)
                     in if nothing_owned s then finish_stop s
                        else (case drain_tasks (in_finished inp) (in_drained inp) s of
                                (True, s) \<Rightarrow>
                                  (let s = poll_children (in_alive inp 4) (shutdown_progress (in_alive inp 3) s)
                                   in if nothing_owned s then finish_stop s else s)
                              | (False, s) \<Rightarrow> store_owned_tasks s))))"

definition lap_head :: "(nat list \<Rightarrow> nat) \<Rightarrow> lap_inputs \<Rightarrow> supervisor_state \<Rightarrow> supervisor_state" where
  "lap_head tokio inp s =
     (let s = fold (worker_exited tokio) (in_worker inp) s;
          s = fold (control_received tokio) (in_control inp) s;
          s = reap tokio (in_finished inp) (in_ended inp) [] s;
          s = fold (register_spawn tokio) (in_spawn inp) s;
          s = store_owned_tasks s;
          s = (if \<not> sv_stopping s \<and> sh_state (sv_shared s) = Quiescing then begin_shutdown_inner tokio s else s);
          s = (if sv_stopping s then quiesce (in_alive inp 0) (in_grace_over inp) s else s)
      in try_stop tokio inp s)"

datatype select_event =
    SelControl "control_command option"
  | SelWorker "(string \<times> terminal_proposal) option"
  | SelStart "string option"
  | SelSpawn "task_class option"
  | SelTick
  | SelWake
  | SelJoin "(string \<times> terminal_proposal) list" "nat \<times> task_ending"

definition start_received :: "(nat list \<Rightarrow> nat) \<Rightarrow> string \<Rightarrow> supervisor_state \<Rightarrow> supervisor_state" where
  "start_received tokio tx s =
     (if sh_state (sv_shared s) = Accepting then handle_start tokio tx s
      else if sv_stopping s then accept_terminal tokio tx \<lparr>proposal_kind = RuntimeShutdown\<rparr> False s
      else s)"

fun select_step :: "(nat list \<Rightarrow> nat) \<Rightarrow> (nat \<Rightarrow> bool) \<Rightarrow> select_event \<Rightarrow> supervisor_state \<Rightarrow> supervisor_state" where
  "select_step tokio finished (SelControl None) s = force_abort (begin_shutdown_inner tokio s)"
| "select_step tokio finished (SelControl (Some c)) s = control_received tokio c s"
| "select_step tokio finished (SelWorker None) s = s"
| "select_step tokio finished (SelWorker (Some m)) s = worker_exited tokio m s"
| "select_step tokio finished (SelStart None) s = s"
| "select_step tokio finished (SelStart (Some tx)) s = start_received tokio tx s"
| "select_step tokio finished (SelSpawn (Some c)) s = register_spawn tokio c s"
| "select_step tokio finished (SelSpawn None) s = begin_shutdown_inner tokio s"
| "select_step tokio finished SelTick s = s"
| "select_step tokio finished SelWake s =
     (if sh_state (sv_shared s) = Quiescing then begin_shutdown_inner tokio s else s)"
| "select_step tokio finished (SelJoin msgs e) s = reap tokio finished [e] msgs s"

definition supervisor_lap :: "(nat list \<Rightarrow> nat) \<Rightarrow> lap_inputs \<times> select_event \<Rightarrow> supervisor_state \<Rightarrow> supervisor_state" where
  "supervisor_lap tokio = (\<lambda>(inp, sel) s.
     (if drain_complete s then s
      else (let s = lap_head tokio inp s
            in if drain_complete s then s else select_step tokio (in_finished inp) sel s)))"

definition run_supervisor :: "(nat list \<Rightarrow> nat) \<Rightarrow> (lap_inputs \<times> select_event) list \<Rightarrow> supervisor_state \<Rightarrow> supervisor_state" where
  "run_supervisor tokio laps s = fold (supervisor_lap tokio) laps s"

section \<open>The owner\<close>

definition owner_begin_shutdown :: "supervisor_state \<Rightarrow> nat \<times> supervisor_state" where
  "owner_begin_shutdown s =
     (let s = to_quiescing s
      in if shutdown_generation s = 0 then (1, s\<lparr>shutdown_generation := 1\<rparr>) else (shutdown_generation s, s))"

datatype transaction_selector = SelectTransaction string | SelectSession session_key

datatype termination_disposition =
    TerminationAccepted
  | TerminationNotFound
  | AlreadyTerminal
  | ControlCapacityExceeded
  | RuntimeClosed

datatype control_send = ControlSent | ControlFull | ControlClosed

definition terminate ::
  "transaction_selector \<Rightarrow> bool \<Rightarrow> control_send \<Rightarrow> supervisor_state \<Rightarrow> termination_disposition \<times> control_command option" where
  "terminate sel force sent s =
     (case (case sel of SelectTransaction tx \<Rightarrow> Some tx | SelectSession k \<Rightarrow> transaction_for_session k (sv_ledger s)) of
        None \<Rightarrow> (TerminationNotFound, None)
      | Some tx \<Rightarrow>
          (case ledger_get tx (sv_ledger s) of
             None \<Rightarrow> (TerminationNotFound, None)
           | Some e \<Rightarrow>
               if (case entry_terminal e of Some d \<Rightarrow> \<not> (force \<and> decision_kind d = TxCancelled) | None \<Rightarrow> False)
               then (AlreadyTerminal, None)
               else (case sent of
                       ControlSent \<Rightarrow> (TerminationAccepted, Some (if force then ForceTerminate tx else CancelCommand tx))
                     | ControlFull \<Rightarrow> (ControlCapacityExceeded, None)
                     | ControlClosed \<Rightarrow> (RuntimeClosed, None))))"

text \<open>
  \<open>wait_stopped\<close>: the deadline may pass while the supervisor drains, or while the thread of the
  executor ends; the state becomes \<open>Stopped\<close> only after both.
\<close>

datatype stop_wait = DrainTimedOut | ThreadTimedOut | ThreadJoined

definition wait_stopped ::
  "(nat \<Rightarrow> bool) \<Rightarrow> stop_wait \<Rightarrow> supervisor_state \<Rightarrow> shutdown_report option \<times> shutdown_snapshot option \<times> supervisor_state" where
  "wait_stopped alive w s =
     (let s = (if sh_state (sv_shared s) = Accepting then snd (owner_begin_shutdown s) else s);
          report = (case sv_report s of Some r \<Rightarrow> r | None \<Rightarrow> final_report s)
      in if sh_state (sv_shared s) = Stopped then (Some report, None, s)
         else if w = DrainTimedOut \<or> \<not> drain_complete s then (None, Some (snapshot_shutdown alive s), s)
         else if w = ThreadTimedOut then (None, Some (snapshot_shutdown alive s), s)
         else (Some report, None, s\<lparr>sv_shared := (sv_shared s)\<lparr>sh_state := Stopped\<rparr>\<rparr>))"

end
