(* ===== verification/Supervisor_Runs.thy ===== *)
theory Supervisor_Runs
  imports Supervisor
begin

text \<open>
  The runs of the supervisor with everything that happens beside it, the invariant of their
  states, and what follows from it: one completion for every admission, decisions that are not
  changed afterwards, and a stop that leaves nothing behind.
\<close>

section \<open>Runs\<close>

text \<open>
  The steps of the supervisor, one for each thing a lap does, and the steps of everything else:
  admission, finalizers, coordinators, the owner. The supervisor takes steps until it has
  returned; the others may take theirs between any two of them. A worker asks for tasks of its
  own kinds only, never for a finalizer.
\<close>

definition row :: "string \<Rightarrow> supervisor_state \<Rightarrow> ledger_entry option" where
  "row tx s = ledger_get tx (sv_ledger s)"

inductive supervisor_step ::
  "(nat list \<Rightarrow> nat) \<Rightarrow> admission_env \<Rightarrow> (config_error \<Rightarrow> string) \<Rightarrow> supervisor_state \<Rightarrow> supervisor_state \<Rightarrow> bool"
  for tokio env show_error where
  worker: "\<not> drain_complete s \<Longrightarrow> supervisor_step tokio env show_error s (worker_exited tokio m s)"
| control: "\<not> drain_complete s \<Longrightarrow> supervisor_step tokio env show_error s (control_received tokio c s)"
| control_closed: "\<not> drain_complete s \<Longrightarrow> supervisor_step tokio env show_error s (force_abort (begin_shutdown_inner tokio s))"
| shutdown: "\<not> drain_complete s \<Longrightarrow> supervisor_step tokio env show_error s (begin_shutdown_inner tokio s)"
| reaped: "\<not> drain_complete s \<Longrightarrow> supervisor_step tokio env show_error s (reap tokio finished es msgs s)"
| spawned: "\<not> drain_complete s \<Longrightarrow> \<not> is_finalizer c \<Longrightarrow> supervisor_step tokio env show_error s (register_spawn tokio c s)"
| started: "\<not> drain_complete s \<Longrightarrow> supervisor_step tokio env show_error s (start_received tokio tx s)"
| counted: "\<not> drain_complete s \<Longrightarrow> supervisor_step tokio env show_error s (store_owned_tasks s)"
| progress: "\<not> drain_complete s \<Longrightarrow> supervisor_step tokio env show_error s (shutdown_progress alive s)"
| polled: "\<not> drain_complete s \<Longrightarrow> supervisor_step tokio env show_error s (poll_children alive s)"
| residuals: "\<not> drain_complete s \<Longrightarrow> supervisor_step tokio env show_error s (on_tasks (abort_transaction_residuals tx) s)"
| idle: "\<not> drain_complete s \<Longrightarrow> supervisor_step tokio env show_error s (clear_idle tx s)"
| grace: "\<not> drain_complete s \<Longrightarrow> sv_stopping s \<Longrightarrow> supervisor_step tokio env show_error s (past_grace tx s)"
| drained: "\<not> drain_complete s \<Longrightarrow> ledger_empty s \<Longrightarrow>
    supervisor_step tokio env show_error s (snd (drain_tasks finished es s))"
| stop: "\<not> drain_complete s \<Longrightarrow> sv_stopping s \<Longrightarrow> nothing_owned s \<Longrightarrow>
    supervisor_step tokio env show_error s (finish_stop s)"
| finalizer: "supervisor_step tokio env show_error s (finalizer_step outcome r i s)"
| admission: "admit env show_error id tx q (sv_shared s) = (Ok receipt, sh) \<Longrightarrow>
    supervisor_step tokio env show_error s (s\<lparr>sv_shared := sh, sv_admitted := sv_admitted s @ [tx]\<rparr>)"
| refusal: "admit env show_error id tx q (sv_shared s) = (Err e, sh) \<Longrightarrow>
    supervisor_step tokio env show_error s (s\<lparr>sv_shared := sh\<rparr>)"
| proposal: "supervisor_step tokio env show_error s (on_row tx (\<lambda>e. e\<lparr>pending_worker_proposal := Some p\<rparr>) s)"
| binding: "supervisor_step tokio env show_error s 
    (put_ledger (snd (bind_session tx k (max_distinct_sessions env (key_channel k)) (sv_ledger s))) s)"
| start_taken: "start_queue (sv_shared s) = tx # rest \<Longrightarrow>
    supervisor_step tokio env show_error s (s\<lparr>sv_shared := (sv_shared s)\<lparr>start_queue := rest\<rparr>\<rparr>)"
| tools: "\<not> drain_complete s \<Longrightarrow> supervisor_step tokio env show_error s (s\<lparr>sv_tools := t, sv_process_leases := n\<rparr>)"
| routes: "supervisor_step tokio env show_error s (s\<lparr>sv_mcp_routes := r\<rparr>)"
| owner_shutdown: "supervisor_step tokio env show_error s (snd (owner_begin_shutdown s))"
| owner_wait: "supervisor_step tokio env show_error s (snd (snd (wait_stopped alive w s)))"

inductive supervisor_reach ::
  "(nat list \<Rightarrow> nat) \<Rightarrow> admission_env \<Rightarrow> (config_error \<Rightarrow> string) \<Rightarrow> supervisor_state \<Rightarrow> supervisor_state \<Rightarrow> bool"
  for tokio env show_error s0 where
  start: "supervisor_reach tokio env show_error s0 s0"
| step: "supervisor_reach tokio env show_error s0 s \<Longrightarrow> supervisor_step tokio env show_error s s' \<Longrightarrow>
    supervisor_reach tokio env show_error s0 s'"

definition supervisor_new :: "runtime_shared \<Rightarrow> dispatch_state \<Rightarrow> nat option \<Rightarrow> supervisor_state" where
  "supervisor_new sh tools routes =
     \<lparr>sv_shared = sh, sv_tasks = tasks_new, sv_stopping = False, sv_finalizers = [], sv_tools = tools,
      sv_process_leases = 0, sv_mcp_routes = routes, n_published = 0, n_receiver_dropped = 0,
      n_invariant_failed = 0, n_shutdown_terminals = 0, sv_owned_tasks = 0, sv_connector_owners = 0,
      shutdown_generation = 0, sv_report = None, drain_complete = False, sv_sent = [], sv_admitted = [],
      sv_forced = False\<rparr>"

section \<open>The invariant\<close>

text \<open>
  The sender of a completion is a token. An admitted transaction brings one, in the delivery of
  its row; the start of the transaction moves it within the row; its finalizer takes it out and
  uses it up. There is a finalizer for a row exactly when the decision has been made and the
  finalizer has not ended.
\<close>

definition entry_token :: "ledger_entry \<Rightarrow> bool" where
  "entry_token e \<longleftrightarrow> entry_delivery e \<noteq> None \<or> has_completion_tx e"

definition fin_of :: "string \<Rightarrow> supervisor_state \<Rightarrow> finalizer_pc option" where
  "fin_of tx s = map_of (map (\<lambda>(_, pc). (fin_transaction pc, pc)) (sv_finalizers s)) tx"

fun pc_token :: "finalizer_pc option \<Rightarrow> nat" where
  "pc_token (Some (FinSeal _ d)) = (if fd_sender d then 1 else 0)"
| "pc_token _ = 0"

definition row_token :: "ledger_entry option \<Rightarrow> nat" where
  "row_token r = (case r of Some e \<Rightarrow> if entry_token e then 1 else 0 | None \<Rightarrow> 0)"

definition tokens :: "string \<Rightarrow> supervisor_state \<Rightarrow> nat" where
  "tokens tx s = row_token (row tx s) + pc_token (fin_of tx s)"

definition sent_count :: "string \<Rightarrow> supervisor_state \<Rightarrow> nat" where
  "sent_count tx s = length (filter (\<lambda>(t, _). t = tx) (sv_sent s))"

definition admitted_count :: "string \<Rightarrow> supervisor_state \<Rightarrow> nat" where
  "admitted_count tx s = length (filter (\<lambda>t. t = tx) (sv_admitted s))"

definition row_ok :: "bool \<Rightarrow> finalizer_pc option \<Rightarrow> ledger_entry \<Rightarrow> bool" where
  "row_ok forced pc e \<longleftrightarrow>
     (case entry_terminal e of
        None \<Rightarrow> pc = None \<and> entry_token e \<and> entry_phase e \<notin> {Finalizing, CleanupPendingPhase}
      | Some _ \<Rightarrow>
          (case pc of
             Some (FinStart _ _) \<Rightarrow> entry_token e
           | Some (FinSeal _ d) \<Rightarrow> fd_sender d \<and> \<not> entry_token e
           | Some (FinDone _) \<Rightarrow> \<not> entry_token e
           | None \<Rightarrow> forced \<or> \<not> entry_token e))
     \<and> (has_completion_tx e \<longrightarrow> entry_delivery e = None)"

definition finalizers_ok :: "supervisor_state \<Rightarrow> bool" where
  "finalizers_ok s \<longleftrightarrow>
     distinct (map fst (sv_finalizers s)) \<and> distinct (map (\<lambda>(_, pc). fin_transaction pc) (sv_finalizers s)) \<and>
     (\<forall>i tx. (\<exists>pc. (i, pc) \<in> set (sv_finalizers s) \<and> fin_transaction pc = tx)
        \<longleftrightarrow> (\<exists>a. (i, Finalizer tx, a) \<in> set (live (sv_tasks s)))) \<and>
     (\<not> sv_forced s \<longrightarrow> (\<forall>i tx. (i, Finalizer tx, True) \<notin> set (live (sv_tasks s))))"

definition rows_ok :: "supervisor_state \<Rightarrow> bool" where
  "rows_ok s \<longleftrightarrow>
     (\<forall>tx. case row tx s of
             None \<Rightarrow> fin_of tx s = None
           | Some e \<Rightarrow> row_ok (sv_forced s) (fin_of tx s) e \<and> (sv_stopping s \<longrightarrow> entry_terminal e \<noteq> None))"

definition counts_ok :: "supervisor_state \<Rightarrow> bool" where
  "counts_ok s \<longleftrightarrow>
     (\<forall>tx. sent_count tx s + tokens tx s \<le> admitted_count tx s \<and>
           (\<not> sv_forced s \<longrightarrow> sent_count tx s + tokens tx s = admitted_count tx s))"

definition stop_ok :: "supervisor_state \<Rightarrow> bool" where
  "stop_ok s \<longleftrightarrow>
     (sv_stopping s \<longrightarrow> sh_state (sv_shared s) \<in> {Quiescing, Stopped}) \<and>
     (sh_state (sv_shared s) = Stopped \<longrightarrow> drain_complete s) \<and>
     (drain_complete s \<longrightarrow> sv_stopping s \<and> nothing_owned s)"

definition supervisor_inv :: "supervisor_state \<Rightarrow> bool" where
  "supervisor_inv s \<longleftrightarrow> tasks_good (sv_tasks s) \<and> finalizers_ok s \<and> rows_ok s \<and> counts_ok s \<and> stop_ok s"

text \<open>The invariant is kept as long as the counter of task identities has not come to its end.\<close>

definition keeps :: "(supervisor_state \<Rightarrow> supervisor_state) \<Rightarrow> bool" where
  "keeps f \<longleftrightarrow>
     (\<forall>s. next_task_id (sv_tasks (f s)) < usize_max \<longrightarrow>
        next_task_id (sv_tasks s) < usize_max \<and> (supervisor_inv s \<longrightarrow> \<not> drain_complete s \<longrightarrow>
          supervisor_inv (f s) \<and> \<not> drain_complete (f s)))"

lemma keepsI:
  assumes "\<And>s. next_task_id (sv_tasks (f s)) < usize_max \<Longrightarrow> next_task_id (sv_tasks s) < usize_max"
    and "\<And>s. supervisor_inv s \<Longrightarrow> \<not> drain_complete s \<Longrightarrow> next_task_id (sv_tasks (f s)) < usize_max \<Longrightarrow>
      next_task_id (sv_tasks s) < usize_max \<Longrightarrow> supervisor_inv (f s) \<and> \<not> drain_complete (f s)"
  shows "keeps f"
  using assms unfolding keeps_def by blast

lemma keepsD:
  "keeps f \<Longrightarrow> next_task_id (sv_tasks (f s)) < usize_max \<Longrightarrow> next_task_id (sv_tasks s) < usize_max"
  "keeps f \<Longrightarrow> next_task_id (sv_tasks (f s)) < usize_max \<Longrightarrow> supervisor_inv s \<Longrightarrow> \<not> drain_complete s \<Longrightarrow>
    supervisor_inv (f s) \<and> \<not> drain_complete (f s)"
  unfolding keeps_def by blast+

lemma keeps_comp: "keeps f \<Longrightarrow> keeps g \<Longrightarrow> keeps (\<lambda>s. g (f s))"
  unfolding keeps_def by blast

lemma keeps_id: "keeps (\<lambda>s. s)"
  by (simp add: keeps_def)

lemma keeps_fold: "(\<And>x. keeps (f x)) \<Longrightarrow> keeps (fold f xs)"
proof (induction xs)
  case (Cons x xs)
  then show ?case using keeps_comp [of "f x" "fold f xs"] by (simp add: comp_def)
qed (simp add: keeps_def)

lemma keeps_if:
  assumes "keeps f" "keeps g"
  shows "keeps (\<lambda>s. if P s then f s else g s)"
proof (rule keepsI)
  fix s
  assume n: "next_task_id (sv_tasks (if P s then f s else g s)) < usize_max"
  show "next_task_id (sv_tasks s) < usize_max"
    using n keepsD(1) [OF assms(1), of s] keepsD(1) [OF assms(2), of s] by (cases "P s") auto
next
  fix s
  assume i: "supervisor_inv s" "\<not> drain_complete s" and n: "next_task_id (sv_tasks (if P s then f s else g s)) < usize_max"
  show "supervisor_inv (if P s then f s else g s) \<and> \<not> drain_complete (if P s then f s else g s)"
    using n keepsD(2) [OF assms(1) _ i] keepsD(2) [OF assms(2) _ i] by (cases "P s") auto
qed

subsection \<open>Frames\<close>

lemma on_row_fields [simp]:
  "sv_tasks (on_row tx f s) = sv_tasks s" "sv_stopping (on_row tx f s) = sv_stopping s"
  "sv_finalizers (on_row tx f s) = sv_finalizers s" "sv_tools (on_row tx f s) = sv_tools s"
  "sv_sent (on_row tx f s) = sv_sent s" "sv_admitted (on_row tx f s) = sv_admitted s"
  "sv_forced (on_row tx f s) = sv_forced s" "drain_complete (on_row tx f s) = drain_complete s"
  "sh_state (sv_shared (on_row tx f s)) = sh_state (sv_shared s)"
  by (simp_all add: on_row_def put_ledger_def)

lemma on_tasks_fields [simp]:
  "sv_tasks (on_tasks g s) = g (sv_tasks s)" "sv_stopping (on_tasks g s) = sv_stopping s"
  "sv_finalizers (on_tasks g s) = sv_finalizers s" "sv_tools (on_tasks g s) = sv_tools s"
  "sv_sent (on_tasks g s) = sv_sent s" "sv_admitted (on_tasks g s) = sv_admitted s"
  "sv_forced (on_tasks g s) = sv_forced s" "drain_complete (on_tasks g s) = drain_complete s"
  "sv_shared (on_tasks g s) = sv_shared s" "row tx (on_tasks g s) = row tx s" "fin_of tx (on_tasks g s) = fin_of tx s"
  by (simp_all add: on_tasks_def row_def fin_of_def)

lemma row_on_row: "row t (on_row tx f s) = (if t = tx then map_option f (row tx s) else row t s)"
  by (auto simp: row_def on_row_def put_ledger_def ledger_modify_def ledger_get_def map_of_assoc_put split: option.split)

lemma row_remove: "row t (remove_row tx s) = (if t = tx then None else row t s)"
  by (auto simp: row_def remove_row_def ledger_remove_def ledger_get_def map_of_assoc_del Let_def split: option.split)

lemma remove_fields [simp]:
  "sv_tasks (remove_row tx s) = sv_tasks s" "sv_stopping (remove_row tx s) = sv_stopping s"
  "sv_finalizers (remove_row tx s) = sv_finalizers s" "sv_tools (remove_row tx s) = sv_tools s"
  "sv_sent (remove_row tx s) = sv_sent s" "sv_admitted (remove_row tx s) = sv_admitted s"
  "sv_forced (remove_row tx s) = sv_forced s" "drain_complete (remove_row tx s) = drain_complete s"
  "sh_state (sv_shared (remove_row tx s)) = sh_state (sv_shared s)"
  by (auto simp: remove_row_def ledger_remove_def Let_def split: option.split prod.split)

lemma ledger_empty_row: "ledger_empty s \<longleftrightarrow> (\<forall>tx. row tx s = None)"
  by (cases "by_transaction (sv_ledger s)") (auto simp: ledger_empty_def row_def ledger_get_def)

text \<open>Two states that look the same to the invariant.\<close>

definition same_row :: "ledger_entry option \<Rightarrow> ledger_entry option \<Rightarrow> bool" where
  "same_row r r' \<longleftrightarrow>
     (case (r, r') of
        (Some e, Some e') \<Rightarrow>
          (entry_terminal e' = None \<longleftrightarrow> entry_terminal e = None)
          \<and> (entry_delivery e' = None \<longleftrightarrow> entry_delivery e = None)
          \<and> has_completion_tx e' = has_completion_tx e \<and> entry_phase e' = entry_phase e
      | (None, None) \<Rightarrow> True
      | _ \<Rightarrow> False)"

definition looks_same :: "supervisor_state \<Rightarrow> supervisor_state \<Rightarrow> bool" where
  "looks_same s s' \<longleftrightarrow>
     sv_tasks s' = sv_tasks s \<and> sv_finalizers s' = sv_finalizers s \<and> sv_sent s' = sv_sent s
     \<and> sv_admitted s' = sv_admitted s \<and> sv_forced s' = sv_forced s \<and> sv_stopping s' = sv_stopping s
     \<and> sh_state (sv_shared s') = sh_state (sv_shared s) \<and> drain_complete s' = drain_complete s
     \<and> (drain_complete s \<longrightarrow> owned_children (sv_tools s') = owned_children (sv_tools s))
     \<and> (\<forall>tx. same_row (row tx s) (row tx s'))"

lemma same_row_refl [simp]: "same_row r r"
  by (simp add: same_row_def split: option.split)

lemma same_rowD:
  assumes "same_row (Some e) (Some e')"
  shows "entry_terminal e' = None \<longleftrightarrow> entry_terminal e = None" "entry_token e' = entry_token e"
    "has_completion_tx e' = has_completion_tx e" "entry_delivery e' = None \<longleftrightarrow> entry_delivery e = None"
    "entry_phase e' = entry_phase e"
  using assms unfolding same_row_def entry_token_def by simp_all

lemma same_row_cases:
  assumes "same_row r r'"
  obtains "r = None" "r' = None" | e e' where "r = Some e" "r' = Some e'" "same_row (Some e) (Some e')"
  using assms by (cases r; cases r') (auto simp: same_row_def)

lemma same_row_ok:
  assumes "same_row (Some e) (Some e')"
  shows "row_ok forced pc e' = row_ok forced pc e"
proof (cases "entry_terminal e")
  case None
  with same_rowD [OF assms] show ?thesis by (simp add: row_ok_def)
next
  case (Some d)
  with same_rowD [OF assms] obtain d' where "entry_terminal e' = Some d'" by auto
  with Some show ?thesis by (simp only: row_ok_def option.case same_rowD [OF assms])
qed

lemma same_row_token: "same_row r r' \<Longrightarrow> row_token r' = row_token r"
  by (erule same_row_cases) (auto simp: row_token_def same_rowD(2))

lemma looks_same_inv:
  assumes same: "looks_same s s'" and inv: "supervisor_inv s"
  shows "supervisor_inv s'"
proof -
  have fin: "fin_of tx s' = fin_of tx s" for tx using same by (simp add: fin_of_def looks_same_def)
  have rows: "same_row (row tx s) (row tx s')" for tx using same by (simp add: looks_same_def)
  have "finalizers_ok s'" using inv same unfolding supervisor_inv_def finalizers_ok_def looks_same_def by simp
  moreover have "rows_ok s'"
    unfolding rows_ok_def
  proof
    fix tx
    have "case row tx s of None \<Rightarrow> fin_of tx s = None
        | Some e \<Rightarrow> row_ok (sv_forced s) (fin_of tx s) e \<and> (sv_stopping s \<longrightarrow> entry_terminal e \<noteq> None)"
      using inv by (simp add: supervisor_inv_def rows_ok_def)
    moreover have "sv_forced s' = sv_forced s" "sv_stopping s' = sv_stopping s" using same by (simp_all add: looks_same_def)
    ultimately show "case row tx s' of None \<Rightarrow> fin_of tx s' = None
        | Some e \<Rightarrow> row_ok (sv_forced s') (fin_of tx s') e \<and> (sv_stopping s' \<longrightarrow> entry_terminal e \<noteq> None)"
      by (cases rule: same_row_cases [OF rows [of tx]]) (auto simp: fin same_row_ok same_rowD(1))
  qed
  moreover have "tokens tx s' = tokens tx s" for tx by (simp add: tokens_def fin same_row_token [OF rows])
  then have "counts_ok s'" using inv same by (simp add: supervisor_inv_def counts_ok_def looks_same_def sent_count_def admitted_count_def)
  moreover have "ledger_empty s' = ledger_empty s"
    unfolding ledger_empty_row using rows by (metis same_row_cases option.distinct(1))
  then have "stop_ok s'" using inv same by (auto simp: supervisor_inv_def stop_ok_def nothing_owned_def looks_same_def)
  ultimately show ?thesis using inv same by (simp add: supervisor_inv_def looks_same_def)
qed

lemma state_change_inv:
  assumes "supervisor_inv s" "stop_ok s'"
    and "sv_tasks s' = sv_tasks s" "sv_finalizers s' = sv_finalizers s" "sv_sent s' = sv_sent s" "sv_admitted s' = sv_admitted s"
      "sv_forced s' = sv_forced s" "sv_stopping s' = sv_stopping s" "\<And>t. row t s' = row t s"
  shows "supervisor_inv s'"
proof -
  have fin: "fin_of t s' = fin_of t s" for t by (simp add: fin_of_def assms(4))
  show ?thesis
    using assms(1,2) unfolding supervisor_inv_def finalizers_ok_def rows_ok_def counts_ok_def tokens_def sent_count_def
      admitted_count_def fin assms(3-9) by blast
qed

lemma keeps_looks_same:
  assumes "\<And>s. \<not> drain_complete s \<Longrightarrow> looks_same s (f s)" "\<And>s. sv_tasks (f s) = sv_tasks s"
  shows "keeps f"
proof (rule keepsI)
  show "next_task_id (sv_tasks (f s)) < usize_max \<Longrightarrow> next_task_id (sv_tasks s) < usize_max" for s
    by (simp add: assms(2))
  fix s assume "supervisor_inv s" "\<not> drain_complete s"
  with assms(1) [of s] show "supervisor_inv (f s) \<and> \<not> drain_complete (f s)"
    using looks_same_inv [of s "f s"] by (auto simp: looks_same_def)
qed

lemma on_row_looks_same:
  assumes "\<And>e. same_row (Some e) (Some (f e))"
  shows "looks_same s (on_row tx f s)"
  using assms by (cases "row tx s") (auto simp: looks_same_def row_on_row)

subsection \<open>Finalizers and their tasks\<close>

lemma fin_of_iff:
  assumes "finalizers_ok s"
  shows "fin_of tx s = Some pc \<longleftrightarrow> (\<exists>i. (i, pc) \<in> set (sv_finalizers s) \<and> fin_transaction pc = tx)"
proof -
  let ?l = "map (\<lambda>(_, pc). (fin_transaction pc, pc)) (sv_finalizers s)"
  have "map fst ?l = map (\<lambda>(_, pc). fin_transaction pc) (sv_finalizers s)" by (simp add: split_beta)
  moreover have "distinct (map (\<lambda>(_, pc). fin_transaction pc) (sv_finalizers s))" using assms unfolding finalizers_ok_def by blast
  ultimately have "distinct (map fst ?l)" by (simp only:)
  then have "fin_of tx s = Some pc \<longleftrightarrow> (tx, pc) \<in> set ?l" unfolding fin_of_def by (rule map_of_eq_Some_iff)
  then show ?thesis by auto
qed

lemma fin_of_task:
  assumes "finalizers_ok s"
  shows "fin_of tx s = None \<longleftrightarrow> (\<forall>i a. (i, Finalizer tx, a) \<notin> set (live (sv_tasks s)))"
proof -
  have "fin_of tx s = None \<longleftrightarrow> (\<forall>i pc. (i, pc) \<in> set (sv_finalizers s) \<longrightarrow> fin_transaction pc \<noteq> tx)"
    using fin_of_iff [OF assms, of tx] by (metis not_Some_eq)
  then show ?thesis using assms unfolding finalizers_ok_def by blast
qed

lemma fin_of_cong: "sv_finalizers s' = sv_finalizers s \<Longrightarrow> fin_of tx s' = fin_of tx s"
  by (simp add: fin_of_def)

lemma stop_where_mem: "(i, c, a) \<in> set (stop_where p l) \<longleftrightarrow> (\<exists>b. (i, c, b) \<in> set l \<and> a = (b \<or> p i c))"
proof -
  have "(i, c, a) \<in> set (stop_where p l) \<longleftrightarrow> (\<exists>x\<in>set l. (i, c, a) = (case x of (i, c, a) \<Rightarrow> (i, c, a \<or> p i c)))"
    by (simp only: stop_where_def set_map image_iff)
  then show ?thesis by (simp only: Bex_def split_paired_Ex case_prod_conv prod.inject) blast
qed

lemma finalizers_ok_stop:
  assumes "finalizers_ok s" "live (sv_tasks s') = stop_where p (live (sv_tasks s))"
    and "sv_finalizers s' = sv_finalizers s" "sv_forced s \<longrightarrow> sv_forced s'"
    and "\<And>i tx. \<not> sv_forced s' \<Longrightarrow> (i, Finalizer tx, False) \<in> set (live (sv_tasks s)) \<Longrightarrow> \<not> p i (Finalizer tx)"
  shows "finalizers_ok s'"
proof -
  have mem: "(i, c, a) \<in> set (live (sv_tasks s')) \<longleftrightarrow> (\<exists>b. (i, c, b) \<in> set (live (sv_tasks s)) \<and> a = (b \<or> p i c))" for i c a
    by (simp only: assms(2) stop_where_mem)
  have ex: "(\<exists>a. (i, c, a) \<in> set (live (sv_tasks s'))) \<longleftrightarrow> (\<exists>a. (i, c, a) \<in> set (live (sv_tasks s)))" for i c
    by (auto simp: mem)
  have "(i, Finalizer tx, True) \<notin> set (live (sv_tasks s'))" if "\<not> sv_forced s'" for i tx
  proof
    assume "(i, Finalizer tx, True) \<in> set (live (sv_tasks s'))"
    then obtain b where b: "(i, Finalizer tx, b) \<in> set (live (sv_tasks s))" "b \<or> p i (Finalizer tx)" by (auto simp: mem)
    moreover have "(i, Finalizer tx, True) \<notin> set (live (sv_tasks s))"
      using assms(1,4) that unfolding finalizers_ok_def by blast
    ultimately show False using assms(5) [OF that, of i tx] by (cases b) auto
  qed
  with assms(1,3) show ?thesis unfolding finalizers_ok_def ex by simp
qed

lemma rows_okD:
  assumes "rows_ok s"
  shows "row tx s = None \<Longrightarrow> fin_of tx s = None"
    and "row tx s = Some e \<Longrightarrow> row_ok (sv_forced s) (fin_of tx s) e"
    and "row tx s = Some e \<Longrightarrow> sv_stopping s \<Longrightarrow> entry_terminal e \<noteq> None"
  using assms [unfolded rows_ok_def, THEN spec, of tx] by auto

lemma rows_okI:
  assumes "\<And>tx. row tx s = None \<Longrightarrow> fin_of tx s = None"
    and "\<And>tx e. row tx s = Some e \<Longrightarrow> row_ok (sv_forced s) (fin_of tx s) e"
    and "\<And>tx e. row tx s = Some e \<Longrightarrow> sv_stopping s \<Longrightarrow> entry_terminal e \<noteq> None"
  shows "rows_ok s"
  unfolding rows_ok_def
proof
  fix tx
  show "case row tx s of None \<Rightarrow> fin_of tx s = None
      | Some e \<Rightarrow> row_ok (sv_forced s) (fin_of tx s) e \<and> (sv_stopping s \<longrightarrow> entry_terminal e \<noteq> None)"
    using assms [of tx] by (cases "row tx s") simp_all
qed

text \<open>What every change of the tasks alone has to keep.\<close>

lemma tasks_change_inv:
  assumes "supervisor_inv s" "\<not> drain_complete s"
    and "sv_finalizers s' = sv_finalizers s" "sv_sent s' = sv_sent s" "sv_admitted s' = sv_admitted s"
    and "sv_forced s' \<longleftrightarrow> sv_forced s \<or> f" "sv_stopping s' = sv_stopping s" "sv_shared s' = sv_shared s" "drain_complete s' = drain_complete s"
    and "tasks_good (sv_tasks s')" "finalizers_ok s'"
  shows "supervisor_inv s' \<and> \<not> drain_complete s'"
proof -
  have fin: "fin_of tx s' = fin_of tx s" for tx by (rule fin_of_cong) fact
  have row: "row tx s' = row tx s" for tx by (simp add: row_def assms(8))
  have "row_ok b pc e \<Longrightarrow> row_ok (b \<or> f) pc e" for b pc e
    by (auto simp: row_ok_def split: option.splits finalizer_pc.splits)
  moreover have "rows_ok s" using assms(1) by (simp add: supervisor_inv_def)
  ultimately have "rows_ok s'" using rows_okD [of s] by (intro rows_okI) (simp_all add: fin row assms(6,7))
  moreover have "counts_ok s'"
    using assms(1,4,5,6) by (simp add: supervisor_inv_def counts_ok_def tokens_def fin row sent_count_def admitted_count_def)
  moreover have "stop_ok s'" using assms(1,2,7,8,9) by (auto simp: supervisor_inv_def stop_ok_def)
  ultimately show ?thesis using assms(2,9,10,11) by (simp add: supervisor_inv_def)
qed

lemma keeps_aborts:
  assumes "\<And>ts. tasks_good ts \<Longrightarrow> g ts = stop_marked (\<lambda>i m. p (meta_class m)) ts"
    and "\<And>tx. \<not> p (Finalizer tx)" and "\<And>ts. next_task_id (g ts) = next_task_id ts"
  shows "keeps (on_tasks g)"
proof (rule keepsI)
  show "next_task_id (sv_tasks (on_tasks g s)) < usize_max \<Longrightarrow> next_task_id (sv_tasks s) < usize_max" for s
    by (simp add: assms(3))
  fix s
  assume i: "supervisor_inv s" "\<not> drain_complete s"
  then have good: "tasks_good (sv_tasks s)" "finalizers_ok s" by (simp_all add: supervisor_inv_def)
  have l: "live (g (sv_tasks s)) = stop_where (\<lambda>_. p) (live (sv_tasks s))"
    using live_stopmarked [of "\<lambda>_. p" "sv_tasks s"] by (simp add: assms(1) [OF good(1)])
  have "tasks_good (g (sv_tasks s))" using stopmarked_good [OF good(1), of "\<lambda>_. p"] by (simp add: assms(1) [OF good(1)])
  moreover have "finalizers_ok (on_tasks g s)"
    by (rule finalizers_ok_stop [where p = "\<lambda>_. p", OF good(2)]) (simp_all add: l assms(2))
  ultimately show "supervisor_inv (on_tasks g s) \<and> \<not> drain_complete (on_tasks g s)"
    using i by (intro tasks_change_inv [where f = False]) simp_all
qed

lemma abort_next [simp]:
  "next_task_id (task_abort i ts) = next_task_id ts"
  "next_task_id (abort_each is ts) = next_task_id ts"
  "next_task_id (abort_transaction tx ts) = next_task_id ts"
  "next_task_id (abort_transaction_residuals tx ts) = next_task_id ts"
  "next_task_id (abort_transaction_except_finalizer tx ts) = next_task_id ts"
  "next_task_id (abort_all ts) = next_task_id ts"
proof -
  show one: "next_task_id (task_abort i ts) = next_task_id ts" for i ts
    by (simp add: task_abort_def split: option.split)
  have all: "next_task_id (fold (\<lambda>i ts. if task_is p ts i then ts else task_abort i ts) is ts) = next_task_id ts" for p "is" ts
    by (induction "is" arbitrary: ts) (simp_all add: one)
  show each: "next_task_id (abort_each is ts) = next_task_id ts" for "is" ts
    using all [of "\<lambda>_. False" "is" ts] by (simp add: abort_each_def)
  show "next_task_id (abort_transaction tx ts) = next_task_id ts" by (simp add: abort_transaction_def each)
  show "next_task_id (abort_transaction_residuals tx ts) = next_task_id ts"
    by (simp add: abort_transaction_residuals_def all)
  show "next_task_id (abort_transaction_except_finalizer tx ts) = next_task_id ts"
    by (simp add: abort_transaction_except_finalizer_def all)
  show "next_task_id (abort_all ts) = next_task_id ts" by (simp add: abort_all_def each)
qed

lemma keeps_residuals: "keeps (on_tasks (abort_transaction_residuals tx))"
  by (rule keeps_aborts [where p = "\<lambda>c. class_transaction c = Some tx \<and> \<not> keeps_completion c"])
    (simp_all add: aborts_stopmarked)

lemma keeps_except_finalizer: "keeps (on_tasks (abort_transaction_except_finalizer tx))"
  by (rule keeps_aborts [where p = "\<lambda>c. class_transaction c = Some tx \<and> \<not> is_finalizer c"])
    (simp_all add: aborts_stopmarked)

lemma keeps_force_abort: "keeps force_abort"
proof (rule keepsI)
  show "next_task_id (sv_tasks (force_abort s)) < usize_max \<Longrightarrow> next_task_id (sv_tasks s) < usize_max" for s
    by (simp add: force_abort_def)
  fix s
  assume i: "supervisor_inv s" "\<not> drain_complete s"
  then have good: "tasks_good (sv_tasks s)" "finalizers_ok s" by (simp_all add: supervisor_inv_def)
  have a: "tasks_good (abort_all (sv_tasks s))" "live (abort_all (sv_tasks s)) = stop_where (\<lambda>_ _. True) (live (sv_tasks s))"
    using abort_all_good [OF good(1)] by simp_all
  have "finalizers_ok (force_abort s)"
    by (rule finalizers_ok_stop [where p = "\<lambda>_ _. True", OF good(2)]) (simp_all add: a force_abort_def)
  with a i show "supervisor_inv (force_abort s) \<and> \<not> drain_complete (force_abort s)"
    by (intro tasks_change_inv [where f = True]) (simp_all add: force_abort_def)
qed

subsection \<open>Starting tasks\<close>

definition executor_fresh :: "(nat list \<Rightarrow> nat) \<Rightarrow> bool" where
  "executor_fresh tokio \<longleftrightarrow> (\<forall>ids. tokio ids \<notin> set ids)"

lemma spawn_next:
  "next_task_id (snd (task_spawn tokio c ts)) < usize_max \<Longrightarrow> next_task_id ts < usize_max"
  by (simp add: task_spawn_def Let_def saturating_add_def split: option.splits)

lemma spawn_live:
  assumes "executor_fresh tokio" "tasks_good ts" "next_task_id ts < usize_max"
  shows "tasks_good (snd (task_spawn tokio c ts))" "fst (task_spawn tokio c ts) = next_task_id ts"
    "live (snd (task_spawn tokio c ts)) = live ts @ [(next_task_id ts, c, False)]"
  using spawn_good [where tokio = tokio and c = c, OF assms(2,3) assms(1) [unfolded executor_fresh_def, THEN spec]] by blast+

lemma keeps_spawn:
  assumes "executor_fresh tokio" "\<not> is_finalizer c"
  shows "keeps (on_tasks (\<lambda>ts. snd (task_spawn tokio c ts)))"
proof (rule keepsI)
  show "next_task_id (sv_tasks (on_tasks (\<lambda>ts. snd (task_spawn tokio c ts)) s)) < usize_max \<Longrightarrow> next_task_id (sv_tasks s) < usize_max" for s
    by (simp add: spawn_next)
  fix s
  assume i: "supervisor_inv s" "\<not> drain_complete s" "next_task_id (sv_tasks s) < usize_max"
  then have good: "tasks_good (sv_tasks s)" "finalizers_ok s" by (simp_all add: supervisor_inv_def)
  note spawned = spawn_live [OF assms(1) good(1) i(3), of c]
  have "Finalizer tx \<noteq> c" for tx using assms(2) by auto
  then have "finalizers_ok (on_tasks (\<lambda>ts. snd (task_spawn tokio c ts)) s)"
    using good(2) unfolding finalizers_ok_def by (simp add: spawned)
  with spawned(1) i show "supervisor_inv (on_tasks (\<lambda>ts. snd (task_spawn tokio c ts)) s)
      \<and> \<not> drain_complete (on_tasks (\<lambda>ts. snd (task_spawn tokio c ts)) s)"
    by (intro tasks_change_inv [where f = False]) simp_all
qed

subsection \<open>The decision\<close>

lemma decide_fields:
  "entry_delivery (decide p force e) = entry_delivery e" "has_completion_tx (decide p force e) = has_completion_tx e"
  "entry_terminal (decide p force e) \<noteq> None"
  "entry_terminal e \<noteq> None \<Longrightarrow> entry_phase (decide p force e) = entry_phase e"
  by (auto simp: decide_def Let_def split: option.split)

lemma decide_token: "entry_token (decide p force e) = entry_token e"
  by (simp add: entry_token_def decide_fields)

lemma decide_same_row: "entry_terminal e \<noteq> None \<Longrightarrow> same_row (Some e) (Some (decide p force e))"
  unfolding same_row_def by (simp add: decide_fields)

text \<open>A transaction that is decided and whose finalizer has ended gets no other one.\<close>

definition settled :: "string \<Rightarrow> supervisor_state \<Rightarrow> bool" where
  "settled tx s \<longleftrightarrow> fin_of tx s = None \<and> (\<forall>e. row tx s = Some e \<longrightarrow> entry_terminal e \<noteq> None)"

lemma fin_of_spawn:
  "finalizers_ok s \<Longrightarrow> fin_of tx s = None \<Longrightarrow> sv_finalizers s' = sv_finalizers s @ [(i, FinStart tx seal)] \<Longrightarrow>
    fin_of t s' = (if t = tx then Some (FinStart tx seal) else fin_of t s)"
  by (auto simp: fin_of_def map_add_def split: option.split)

lemma finalizer_ids_live:
  assumes "tasks_good (sv_tasks s)" "finalizers_ok s" "(i, pc) \<in> set (sv_finalizers s)"
  shows "i < next_task_id (sv_tasks s)"
proof -
  have "\<exists>a. (i, Finalizer (fin_transaction pc), a) \<in> set (live (sv_tasks s))"
    using assms(2,3) unfolding finalizers_ok_def by blast
  then have "i \<in> set (map fst (metas (sv_tasks s)))" by (force simp: live_def)
  then show ?thesis using assms(1) unfolding tasks_good_def by blast
qed

lemma spawn_finalizer_inv:
  assumes fresh: "executor_fresh tokio" and inv: "supervisor_inv s" and run: "\<not> drain_complete s"
    and n: "next_task_id (sv_tasks s) < usize_max" and e: "row tx s = Some e" "entry_terminal e = None"
  shows "supervisor_inv (spawn_finalizer tokio tx seal (on_row tx (decide p force) s))
    \<and> \<not> drain_complete (spawn_finalizer tokio tx seal (on_row tx (decide p force) s))"
proof -
  let ?s = "spawn_finalizer tokio tx seal (on_row tx (decide p force) s)" and ?n = "next_task_id (sv_tasks s)"
  have good: "tasks_good (sv_tasks s)" "finalizers_ok s" "rows_ok s" "counts_ok s" "stop_ok s"
    using inv by (simp_all add: supervisor_inv_def)
  note spawned = spawn_live [OF fresh good(1) n, of "Finalizer tx"]
  have none: "fin_of tx s = None" using rows_okD(2) [OF good(3) e(1)] e(2) by (simp add: row_ok_def)
  have "map_of (sv_finalizers s) ?n = None"
    using finalizer_ids_live [OF good(1,2)] by (fastforce simp: map_of_eq_None_iff)
  then have fins: "sv_finalizers ?s = sv_finalizers s @ [(?n, FinStart tx seal)]"
    using spawned(2) by (simp add: spawn_finalizer_def split_beta assoc_put_append)
  have tasks: "sv_tasks ?s = snd (task_spawn tokio (Finalizer tx) (sv_tasks s))"
    by (simp add: spawn_finalizer_def split_beta)
  have fields: "sv_sent ?s = sv_sent s" "sv_admitted ?s = sv_admitted s" "sv_forced ?s = sv_forced s"
    "sv_stopping ?s = sv_stopping s" "drain_complete ?s = drain_complete s"
    "sh_state (sv_shared ?s) = sh_state (sv_shared s)"
    by (simp_all add: spawn_finalizer_def split_beta)
  have row: "row t ?s = (if t = tx then Some (decide p force e) else row t s)" for t
    using row_on_row [of t tx "decide p force" s] e by (simp add: spawn_finalizer_def split_beta row_def)
  have fin: "fin_of t ?s = (if t = tx then Some (FinStart tx seal) else fin_of t s)" for t
    by (rule fin_of_spawn [OF good(2) none fins])
  have "finalizers_ok ?s"
  proof -
    have live: "live (sv_tasks ?s) = live (sv_tasks s) @ [(?n, Finalizer tx, False)]" by (simp add: tasks spawned(3))
    have new: "?n \<notin> fst ` set (sv_finalizers s)" using finalizer_ids_live [OF good(1,2)] by fastforce
    have other: "tx \<notin> (\<lambda>(_, pc). fin_transaction pc) ` set (sv_finalizers s)"
      using fin_of_iff [OF good(2), of tx] none by auto
    have match: "(\<exists>pc. (i, pc) \<in> set (sv_finalizers s) \<and> fin_transaction pc = t)
        \<longleftrightarrow> (\<exists>a. (i, Finalizer t, a) \<in> set (live (sv_tasks s)))" for i t
      using good(2) unfolding finalizers_ok_def by blast
    have d: "distinct (map fst (sv_finalizers s))" "distinct (map (\<lambda>(_, pc). fin_transaction pc) (sv_finalizers s))"
      "\<not> sv_forced s \<Longrightarrow> (i, Finalizer t, True) \<notin> set (live (sv_tasks s))" for i t
      using good(2) unfolding finalizers_ok_def by blast+
    have "(\<exists>pc. (i, pc) \<in> set (sv_finalizers ?s) \<and> fin_transaction pc = t)
        \<longleftrightarrow> (\<exists>a. (i, Finalizer t, a) \<in> set (live (sv_tasks ?s)))" for i t
      using match [of i t] by (auto simp: fins live)
    moreover have "distinct (map fst (sv_finalizers ?s))" "distinct (map (\<lambda>(_, pc). fin_transaction pc) (sv_finalizers ?s))"
      using d(1,2) new other by (simp_all add: fins)
    moreover have "\<not> sv_forced ?s \<longrightarrow> (\<forall>i t. (i, Finalizer t, True) \<notin> set (live (sv_tasks ?s)))"
      using d(3) by (simp add: live fields)
    ultimately show ?thesis unfolding finalizers_ok_def by blast
  qed
  moreover have "row_ok (sv_forced s) (fin_of tx s) e" by (rule rows_okD(2) [OF good(3) e(1)])
  then have tok: "row_ok (sv_forced s) (Some (FinStart tx seal)) (decide p force e)" "entry_token e"
    using e(2) decide_fields(3) [of p force e]
    by (auto simp: row_ok_def decide_token decide_fields(1,2) not_None_eq split: option.split)
  have "rows_ok ?s"
    using rows_okD [OF good(3)] tok(1) decide_fields(3) [of p force e]
    by (intro rows_okI) (auto simp: row fin fields split: if_splits)
  moreover have "tokens t ?s = tokens t s" for t
    using none e(1) by (simp add: tokens_def row fin row_token_def decide_token)
  then have "counts_ok ?s" using good(4) by (simp add: counts_ok_def fields sent_count_def admitted_count_def)
  moreover have "stop_ok ?s" using good(5) run by (auto simp: stop_ok_def fields)
  ultimately show ?thesis using spawned(1) run by (simp add: supervisor_inv_def tasks fields)
qed

lemma keeps_accept_terminal:
  assumes fresh: "executor_fresh tokio"
  shows "keeps (accept_terminal tokio tx p force)"
proof (rule keepsI)
  fix s
  assume n: "next_task_id (sv_tasks (accept_terminal tokio tx p force s)) < usize_max"
  have "sv_tasks (accept_terminal tokio tx p force s) = sv_tasks s
      \<or> sv_tasks (accept_terminal tokio tx p force s) = snd (task_spawn tokio (Finalizer tx) (sv_tasks s))"
    by (simp add: accept_terminal_def spawn_finalizer_def split_beta Let_def split: option.split)
  with n spawn_next [of tokio "Finalizer tx" "sv_tasks s"] show "next_task_id (sv_tasks s) < usize_max" by metis
next
  fix s
  assume i: "supervisor_inv s" "\<not> drain_complete s" "next_task_id (sv_tasks s) < usize_max"
  show "supervisor_inv (accept_terminal tokio tx p force s) \<and> \<not> drain_complete (accept_terminal tokio tx p force s)"
  proof (cases "row tx s")
    case None
    with i show ?thesis by (simp add: accept_terminal_def row_def)
  next
    case (Some e)
    show ?thesis
    proof (cases "entry_terminal e")
      case None
      with Some spawn_finalizer_inv [OF fresh i(1,2,3) Some None] show ?thesis
        by (simp add: accept_terminal_def row_def Let_def)
    next
      case (Some d)
      then have "looks_same s (on_row tx (decide p force) s)"
        using \<open>row tx s = Some e\<close> decide_same_row [of e p force] by (auto simp: looks_same_def row_on_row)
      then have "supervisor_inv (on_row tx (decide p force) s)" by (rule looks_same_inv) fact
      with Some \<open>row tx s = Some e\<close> i show ?thesis by (simp add: accept_terminal_def row_def Let_def)
    qed
  qed
qed

lemma spawn_finalizer_fields [simp]:
  "row t (spawn_finalizer tokio tx seal s) = row t s" "sv_shared (spawn_finalizer tokio tx seal s) = sv_shared s"
  by (simp_all add: spawn_finalizer_def split_beta row_def)

lemma fin_of_put_other:
  "map_of (map (\<lambda>(_, pc). (fin_transaction pc, pc)) l) t = None \<Longrightarrow> fin_transaction pc \<noteq> t \<Longrightarrow>
    map_of (map (\<lambda>(_, pc). (fin_transaction pc, pc)) (assoc_put i pc l)) t = None"
  by (induction l) (auto split: if_splits)

lemma spawn_finalizer_other: "fin_of t s = None \<Longrightarrow> t \<noteq> tx \<Longrightarrow> fin_of t (spawn_finalizer tokio tx seal s) = None"
  using fin_of_put_other [of "sv_finalizers s" t "FinStart tx seal"]
  by (auto simp: fin_of_def spawn_finalizer_def split_beta)

lemma accept_terminal_row:
  "row t (accept_terminal tokio tx p force s) = (if t = tx then map_option (decide p force) (row tx s) else row t s)"
  by (cases "row tx s") (auto simp: accept_terminal_def row_def [symmetric] Let_def row_on_row)

lemma accept_terminal_settled:
  assumes "settled t s"
  shows "settled t (accept_terminal tokio tx p force s)"
proof -
  have "fin_of t (accept_terminal tokio tx p force s) = None"
  proof (cases "row tx s")
    case None
    with assms show ?thesis by (simp add: accept_terminal_def row_def settled_def)
  next
    case (Some e)
    have on: "fin_of t (on_row tx (decide p force) s) = None" using assms by (simp add: settled_def fin_of_def)
    show ?thesis
    proof (cases "entry_terminal e")
      case None
      with assms Some have "t \<noteq> tx" by (auto simp: settled_def)
      with on Some None show ?thesis by (simp add: accept_terminal_def row_def spawn_finalizer_other Let_def)
    next
      case (Some d)
      with \<open>row tx s = Some e\<close> on show ?thesis by (simp add: accept_terminal_def row_def Let_def)
    qed
  qed
  then show ?thesis using assms decide_fields(3) by (auto simp: settled_def accept_terminal_row)
qed

subsection \<open>Rows that leave\<close>

lemma no_tasks_no_finalizer:
  assumes "tasks_good (sv_tasks s)" "finalizers_ok s" "tasks_for tx (sv_tasks s) = []"
  shows "fin_of tx s = None"
proof -
  have "live_of tx (live (sv_tasks s)) = {}" using assms(1,3) unfolding tasks_good_def by (metis list.set(1))
  then have "(i, Finalizer tx, a) \<notin> set (live (sv_tasks s))" for i a
    unfolding live_of_def set_map set_filter by (metis (mono_tags, lifting) case_prod_conv class_transaction.simps(8) empty_iff image_eqI mem_Collect_eq)
  then show ?thesis by (simp add: fin_of_task [OF assms(2)])
qed

lemma counts_ok_less:
  assumes "counts_ok s" "sv_admitted s' = sv_admitted s" "sv_forced s \<Longrightarrow> sv_forced s'"
    and "\<And>t. sent_count t s' + tokens t s' \<le> sent_count t s + tokens t s"
    and "\<And>t. \<not> sv_forced s' \<Longrightarrow> sent_count t s' + tokens t s' = sent_count t s + tokens t s"
  shows "counts_ok s'"
  unfolding counts_ok_def
proof
  fix t
  have a: "admitted_count t s' = admitted_count t s" using assms(2) by (simp add: admitted_count_def)
  have c: "sent_count t s + tokens t s \<le> admitted_count t s"
    "\<not> sv_forced s \<Longrightarrow> sent_count t s + tokens t s = admitted_count t s"
    using assms(1) by (simp_all add: counts_ok_def)
  show "sent_count t s' + tokens t s' \<le> admitted_count t s'
      \<and> (\<not> sv_forced s' \<longrightarrow> sent_count t s' + tokens t s' = admitted_count t s')"
    using a c assms(3) assms(4) [of t] assms(5) [of t] by fastforce
qed

lemma remove_row_inv:
  assumes inv: "supervisor_inv s" and run: "\<not> drain_complete s"
    and none: "fin_of tx s = None" and e: "row tx s = Some e" "entry_terminal e \<noteq> None"
  shows "supervisor_inv (remove_row tx s)"
proof -
  let ?s = "remove_row tx s"
  have good: "tasks_good (sv_tasks s)" "finalizers_ok s" "rows_ok s" "counts_ok s" "stop_ok s"
    using inv by (simp_all add: supervisor_inv_def)
  have fin: "fin_of t ?s = fin_of t s" for t by (simp add: fin_of_def)
  have "finalizers_ok ?s" using good(2) by (simp add: finalizers_ok_def)
  moreover have "rows_ok ?s"
    using rows_okD [OF good(3)] none by (intro rows_okI) (auto simp: row_remove fin split: if_splits)
  moreover have "sv_forced s \<or> \<not> entry_token e"
    using rows_okD(2) [OF good(3) e(1)] e(2) none by (auto simp: row_ok_def)
  then have "tokens t ?s \<le> tokens t s" "\<not> sv_forced s \<Longrightarrow> tokens t ?s = tokens t s" for t
    using e by (auto simp: tokens_def row_remove fin row_token_def)
  then have "counts_ok ?s" by (intro counts_ok_less [OF good(4)]) (simp_all add: sent_count_def)
  moreover have "stop_ok ?s" using good(5) run by (auto simp: stop_ok_def)
  ultimately show ?thesis using good(1) by (simp add: supervisor_inv_def)
qed

lemma try_remove_inv:
  assumes inv: "supervisor_inv s" and run: "\<not> drain_complete s" and idle: "tasks_for tx (sv_tasks s) = []"
  shows "supervisor_inv (try_remove_tombstone tx s) \<and> \<not> drain_complete (try_remove_tombstone tx s)"
proof (cases "row tx s")
  case None
  with assms show ?thesis by (simp add: try_remove_tombstone_def row_def)
next
  case (Some e)
  have good: "tasks_good (sv_tasks s)" "finalizers_ok s" "rows_ok s" using inv by (simp_all add: supervisor_inv_def)
  have "entry_phase e \<in> {CleanupPendingPhase, Finalizing} \<Longrightarrow> entry_terminal e \<noteq> None"
    using rows_okD(2) [OF good(3) Some] by (cases "entry_terminal e") (auto simp: row_ok_def)
  then show ?thesis
    using Some assms remove_row_inv [OF inv run no_tasks_no_finalizer [OF good(1,2) idle] Some]
    by (auto simp: try_remove_tombstone_def row_def)
qed

lemma force_remove_inv:
  assumes inv: "supervisor_inv s" and run: "\<not> drain_complete s" and idle: "tasks_for tx (sv_tasks s) = []" "sv_stopping s"
  shows "supervisor_inv (force_remove_tombstone tx s) \<and> \<not> drain_complete (force_remove_tombstone tx s)"
proof (cases "row tx s")
  case None
  then have "remove_row tx s = s" by (simp add: remove_row_def ledger_remove_def row_def ledger_get_def)
  with assms show ?thesis by (simp add: force_remove_tombstone_def)
next
  case (Some e)
  have good: "tasks_good (sv_tasks s)" "finalizers_ok s" "rows_ok s" using inv by (simp_all add: supervisor_inv_def)
  with assms remove_row_inv [OF inv run no_tasks_no_finalizer [OF good(1,2) idle(1)] Some]
    rows_okD(3) [OF good(3) Some] show ?thesis by (simp add: force_remove_tombstone_def)
qed

lemma try_remove_fields [simp]:
  "sv_tasks (try_remove_tombstone tx s) = sv_tasks s" "sv_stopping (try_remove_tombstone tx s) = sv_stopping s"
  "sv_finalizers (try_remove_tombstone tx s) = sv_finalizers s"
  by (simp_all add: try_remove_tombstone_def split: option.split)

lemma keeps_clear_idle: "keeps (clear_idle tx)"
  by (rule keepsI) (auto simp: clear_idle_def dest: try_remove_inv split: if_splits)

lemma keeps_past_grace: "keeps (\<lambda>s. if sv_stopping s then past_grace tx s else s)"
proof (rule keepsI)
  show "next_task_id (sv_tasks (if sv_stopping s then past_grace tx s else s)) < usize_max \<Longrightarrow> next_task_id (sv_tasks s) < usize_max" for s
    by (simp add: past_grace_def Let_def force_remove_tombstone_def split: if_splits)
  fix s
  assume i: "supervisor_inv s" "\<not> drain_complete s" "next_task_id (sv_tasks s) < usize_max"
  let ?s = "on_tasks (abort_transaction_except_finalizer tx) s"
  have "supervisor_inv ?s \<and> \<not> drain_complete ?s"
    using keepsD(2) [OF keeps_except_finalizer _ i(1,2), of tx] i(3) by simp
  with i force_remove_inv [of ?s tx]
  show "supervisor_inv (if sv_stopping s then past_grace tx s else s) \<and> \<not> drain_complete (if sv_stopping s then past_grace tx s else s)"
    by (simp add: past_grace_def Let_def)
qed

subsection \<open>Joins\<close>

text \<open>What the end of a task is to the supervisor.\<close>

lemma observe_end_effect:
  assumes good: "tasks_good (sv_tasks s)"
  obtains "observe_end finished e s = (None, s)"
  | k i c a x where "k < length (live (sv_tasks s))" "live (sv_tasks s) ! k = (i, c, a)"
      "observe_end finished e s = (Some (i, c, x), s\<lparr>sv_tasks := sv_tasks (snd (observe_end finished e s)),
         sv_finalizers := assoc_del i (sv_finalizers s)\<rparr>)"
      "tasks_good (sv_tasks (snd (observe_end finished e s)))"
      "live (sv_tasks (snd (observe_end finished e s))) = without k (live (sv_tasks s))"
      "next_task_id (sv_tasks (snd (observe_end finished e s))) = next_task_id (sv_tasks s)"
      "\<And>pc. map_of (sv_finalizers s) i = Some pc \<Longrightarrow> a \<or> (\<exists>tx. pc = FinDone tx)"
proof (cases "may_end (fst e) (snd e) s")
  case False
  then have "observe_end finished e s = (None, s)" by (cases e) (simp add: observe_end_def)
  then show ?thesis by (rule that(1))
next
  case True
  obtain n how where e: "e = (n, how)" by (cases e)
  let ?ts = "sv_tasks s"
  from True have ne: "joins ?ts \<noteq> []" by (auto simp: may_end_def Let_def e split: if_splits)
  then have ll: "live ?ts \<noteq> []" "length (live ?ts) = length (joins ?ts)" using live_length [OF good] by auto
  let ?k = "n mod length (live ?ts)"
  obtain i c a where l: "live ?ts ! ?k = (i, c, a)" by (cases "live ?ts ! ?k")
  have k: "?k < length (live ?ts)" using ll(1) by simp
  note j = join_next_good [OF good, of finished e]
  have el: "end_live e (live ?ts) = (Some (i, c, seen_exit how a), without ?k (live ?ts))"
    using ll(1) l by (simp add: e end_live_def Let_def)
  then obtain ts where ts: "join_next finished e ?ts = (Some (i, c, seen_exit how a), ts)" "tasks_good ts"
    "live ts = without ?k (live ?ts)" "next_task_id ts = next_task_id ?ts"
    using j by (cases "join_next finished e ?ts") auto
  have o: "observe_end finished e s
      = (Some (i, c, seen_exit how a), s\<lparr>sv_tasks := ts, sv_finalizers := assoc_del i (sv_finalizers s)\<rparr>)"
    using True ts(1) by (simp add: e observe_end_def)
  have js: "joins ?ts = map (\<lambda>(i, m). (meta_tokio m, i)) (metas ?ts)" "distinct (map fst (metas ?ts))"
    using good unfolding tasks_good_def by blast+
  have mk: "?k < length (metas ?ts)" using k by (simp add: live_def)
  obtain m where m: "metas ?ts ! ?k = (i, m)" "abort_requested m = a"
    using l mk by (cases "metas ?ts ! ?k") (simp add: live_def)
  have ji: "snd (joins ?ts ! ?k) = i" using m mk by (simp add: js)
  have mi: "map_of (metas ?ts) i = Some m" using m mk js(2) by (metis map_of_is_SomeI nth_mem)
  have "a \<or> (\<exists>tx. pc = FinDone tx)" if "map_of (sv_finalizers s) i = Some pc" for pc
    using True ne that ji ll(2) mi m(2) by (cases pc) (auto simp: may_end_def Let_def e)
  then show ?thesis using that(2) [OF k l, of "seen_exit how a"] o ts by simp
qed

lemma assoc_del_mem: "(j, x) \<in> set (assoc_del i xs) \<longleftrightarrow> (j, x) \<in> set xs \<and> j \<noteq> i"
  by (auto simp: assoc_del_def)

lemma live_distinct: "tasks_good ts \<Longrightarrow> distinct (map fst (live ts))"
  by (simp add: tasks_good_def live_def split_beta comp_def)

text \<open>One task has ended; a finalizer only at its end, unless everything was aborted.\<close>

definition task_ended :: "nat \<Rightarrow> supervisor_state \<Rightarrow> supervisor_state \<Rightarrow> bool" where
  "task_ended i s s' \<longleftrightarrow>
     sv_finalizers s' = assoc_del i (sv_finalizers s) \<and> sv_forced s' = sv_forced s \<and> sv_sent s' = sv_sent s \<and>
     sv_admitted s' = sv_admitted s \<and> sv_stopping s' = sv_stopping s \<and> sv_shared s' = sv_shared s \<and>
     drain_complete s' = drain_complete s \<and> tasks_good (sv_tasks s') \<and>
     live (sv_tasks s') = assoc_del i (live (sv_tasks s)) \<and>
     (\<forall>pc. (i, pc) \<in> set (sv_finalizers s) \<longrightarrow> sv_forced s \<or> (\<exists>tx. pc = FinDone tx))"

definition owns_finalizer :: "nat \<Rightarrow> string \<Rightarrow> supervisor_state \<Rightarrow> bool" where
  "owns_finalizer i tx s \<longleftrightarrow> (\<exists>pc. (i, pc) \<in> set (sv_finalizers s) \<and> fin_transaction pc = tx)"

lemma ended_finalizers_ok:
  assumes "task_ended i s s'" "finalizers_ok s"
  shows "finalizers_ok s'"
proof -
  have live: "(j, y) \<in> set (live (sv_tasks s')) \<longleftrightarrow> (j, y) \<in> set (live (sv_tasks s)) \<and> j \<noteq> i" for j y
    using assms(1) by (simp add: task_ended_def assoc_del_mem)
  have s': "sv_finalizers s' = assoc_del i (sv_finalizers s)" "sv_forced s' = sv_forced s"
    using assms(1) by (simp_all add: task_ended_def)
  have "distinct (map fst (sv_finalizers s'))" "distinct (map (\<lambda>(_, pc). fin_transaction pc) (sv_finalizers s'))"
    using assms(2) unfolding finalizers_ok_def s' assoc_del_def by (blast intro: distinct_map_filter)+
  moreover have "(\<exists>pc. (j, pc) \<in> set (sv_finalizers s') \<and> fin_transaction pc = t)
      \<longleftrightarrow> (\<exists>a. (j, Finalizer t, a) \<in> set (live (sv_tasks s')))" for j t
    using assms(2) unfolding finalizers_ok_def live s' assoc_del_mem by blast
  moreover have "\<not> sv_forced s' \<longrightarrow> (\<forall>j t. (j, Finalizer t, True) \<notin> set (live (sv_tasks s')))"
    using assms(2) unfolding finalizers_ok_def live s' by blast
  ultimately show ?thesis unfolding finalizers_ok_def by blast
qed

lemma ended_fin_of:
  assumes "task_ended i s s'" "finalizers_ok s"
  shows "fin_of t s' = (if owns_finalizer i t s then None else fin_of t s)"
proof -
  have s': "sv_finalizers s' = assoc_del i (sv_finalizers s)" using assms(1) by (simp add: task_ended_def)
  have iff: "fin_of t s' = Some pc \<longleftrightarrow> (\<exists>j. (j, pc) \<in> set (sv_finalizers s) \<and> j \<noteq> i \<and> fin_transaction pc = t)" for pc
    by (simp add: fin_of_iff [OF ended_finalizers_ok [OF assms]] s' assoc_del_mem)
  have d: "distinct (map (\<lambda>(_, pc). fin_transaction pc) (sv_finalizers s))" using assms(2) unfolding finalizers_ok_def by blast
  have same: "x = y" if "x \<in> set (sv_finalizers s)" "y \<in> set (sv_finalizers s)"
    "(\<lambda>(_, pc). fin_transaction pc) x = (\<lambda>(_, pc). fin_transaction pc) y" for x y
    using d that unfolding distinct_map inj_on_def by blast
  show ?thesis
  proof (cases "owns_finalizer i t s")
    case True
    then obtain pc where pc: "(i, pc) \<in> set (sv_finalizers s)" "fin_transaction pc = t" by (auto simp: owns_finalizer_def)
    have "fin_of t s' \<noteq> Some pc'" for pc'
      unfolding iff using same [OF pc(1)] pc(2) by force
    with True show ?thesis by (metis not_Some_eq)
  next
    case False
    then have "fin_of t s' = Some pc \<longleftrightarrow> fin_of t s = Some pc" for pc
      by (auto simp: iff fin_of_iff [OF assms(2)] owns_finalizer_def)
    with False show ?thesis by (metis not_Some_eq)
  qed
qed

lemma ended_row:
  assumes "task_ended i s s'" "finalizers_ok s" "rows_ok s" "owns_finalizer i t s"
  obtains e where "row t s = Some e" "entry_terminal e \<noteq> None" "sv_forced s \<or> \<not> entry_token e"
    "sv_forced s \<or> pc_token (fin_of t s) = 0"
proof -
  obtain pc where pc: "(i, pc) \<in> set (sv_finalizers s)" "fin_transaction pc = t" using assms(4) by (auto simp: owns_finalizer_def)
  then have f: "fin_of t s = Some pc" by (auto simp: fin_of_iff [OF assms(2)])
  then obtain e where e: "row t s = Some e" using rows_okD(1) [OF assms(3), of t] by (cases "row t s") auto
  have "row_ok (sv_forced s) (Some pc) e" using rows_okD(2) [OF assms(3) e] f by simp
  moreover have "sv_forced s \<or> (\<exists>tx. pc = FinDone tx)" using assms(1) pc(1) unfolding task_ended_def by blast
  ultimately show ?thesis using that [OF e] f by (auto simp: row_ok_def split: option.splits)
qed

lemma task_ended_inv:
  assumes ended: "task_ended i s s'" and inv: "supervisor_inv s" and run: "\<not> drain_complete s"
  shows "supervisor_inv s'"
proof -
  have good: "finalizers_ok s" "rows_ok s" "counts_ok s" "stop_ok s" using inv by (simp_all add: supervisor_inv_def)
  note fin = ended_fin_of [OF ended good(1)]
  have s': "sv_forced s' = sv_forced s" "sv_sent s' = sv_sent s" "sv_stopping s' = sv_stopping s"
    "drain_complete s' = drain_complete s" "sv_shared s' = sv_shared s" and row: "row t s' = row t s" for t
    using ended by (simp_all add: task_ended_def row_def)
  have "rows_ok s'"
  proof (rule rows_okI)
    show "row t s' = None \<Longrightarrow> fin_of t s' = None" for t using rows_okD(1) [OF good(2), of t] by (simp add: row fin)
    show "row t s' = Some e \<Longrightarrow> sv_stopping s' \<Longrightarrow> entry_terminal e \<noteq> None" for t e
      using rows_okD(3) [OF good(2), of t e] by (simp add: row s')
    fix t e assume e: "row t s' = Some e"
    then have r: "row_ok (sv_forced s) (fin_of t s) e" using rows_okD(2) [OF good(2)] by (simp add: row)
    show "row_ok (sv_forced s') (fin_of t s') e"
    proof (cases "owns_finalizer i t s")
      case True
      obtain e' where "row t s = Some e'" "entry_terminal e' \<noteq> None" "sv_forced s \<or> \<not> entry_token e'"
        using ended_row [OF ended good(1,2) True] by metis
      with e r True show ?thesis by (auto simp: row fin s' row_ok_def)
    next
      case False
      with r show ?thesis by (simp add: fin s')
    qed
  qed
  moreover have "counts_ok s'"
  proof (rule counts_ok_less [OF good(3)])
    fix t
    have "pc_token (fin_of t s') \<le> pc_token (fin_of t s)" by (simp add: fin)
    then show "sent_count t s' + tokens t s' \<le> sent_count t s + tokens t s" by (simp add: sent_count_def s' tokens_def row)
    assume "\<not> sv_forced s'"
    then have "pc_token (fin_of t s') = pc_token (fin_of t s)"
      by (cases "owns_finalizer i t s") (auto simp: fin s' elim: ended_row [OF ended good(1,2)])
    then show "sent_count t s' + tokens t s' = sent_count t s + tokens t s" by (simp add: sent_count_def s' tokens_def row)
  qed (use ended in \<open>simp_all add: task_ended_def\<close>)
  moreover have "stop_ok s'" using good(4) run by (auto simp: stop_ok_def s')
  ultimately show ?thesis
    using ended ended_finalizers_ok [OF ended good(1)] by (simp add: supervisor_inv_def task_ended_def)
qed

lemma observe_end_inv:
  assumes inv: "supervisor_inv s" and run: "\<not> drain_complete s"
  shows "supervisor_inv (snd (observe_end finished e s)) \<and> \<not> drain_complete (snd (observe_end finished e s))
    \<and> next_task_id (sv_tasks (snd (observe_end finished e s))) = next_task_id (sv_tasks s)
    \<and> (\<forall>i tx x. fst (observe_end finished e s) = Some (i, Finalizer tx, x) \<longrightarrow> settled tx (snd (observe_end finished e s)))"
proof -
  let ?s = "snd (observe_end finished e s)"
  have good: "tasks_good (sv_tasks s)" "finalizers_ok s" "rows_ok s" using inv by (simp_all add: supervisor_inv_def)
  show ?thesis
  proof (cases rule: observe_end_effect [OF good(1), of finished e])
    case 1
    with inv run show ?thesis by simp
  next
    case (2 k i c a x)
    have mem: "(i, c, a) \<in> set (live (sv_tasks s))" using 2(1,2) by (metis nth_mem)
    have d: "distinct (map fst (sv_finalizers s))" using good(2) unfolding finalizers_ok_def by blast
    have "sv_forced s \<or> (\<exists>tx. pc = FinDone tx)" if pc: "(i, pc) \<in> set (sv_finalizers s)" for pc
    proof -
      obtain b where "(i, Finalizer (fin_transaction pc), b) \<in> set (live (sv_tasks s))"
        using good(2) pc unfolding finalizers_ok_def by blast
      with mem have "(Finalizer (fin_transaction pc), a) = (c, a)"
        using live_distinct [OF good(1)] by (metis eq_key_imp_eq_value prod.inject)
      with mem have "a \<Longrightarrow> sv_forced s" using good(2) unfolding finalizers_ok_def by auto
      moreover have "a \<or> (\<exists>tx. pc = FinDone tx)" using 2(7) [of pc] pc d by simp
      ultimately show ?thesis by blast
    qed
    moreover have "live (sv_tasks ?s) = assoc_del i (live (sv_tasks s))"
      using assoc_del_nth [OF live_distinct [OF good(1)] 2(1)] 2(2,5) by simp
    ultimately have ended: "task_ended i s ?s"
      unfolding task_ended_def using 2(4) by (subst (1 2 3 4 5 6 7) 2(3)) simp
    have "settled tx ?s" if "c = Finalizer tx" for tx
    proof -
      have o: "owns_finalizer i tx s" using good(2) mem that unfolding finalizers_ok_def owns_finalizer_def by blast
      have "row tx ?s = row tx s" using ended by (simp add: task_ended_def row_def)
      moreover have "fin_of tx ?s = None" using ended_fin_of [OF ended good(2), of tx] o by simp
      moreover obtain e' where "row tx s = Some e'" "entry_terminal e' \<noteq> None" using ended_row [OF ended good(2,3) o] by metis
      ultimately show ?thesis by (simp add: settled_def)
    qed
    moreover have "drain_complete ?s = drain_complete s" using ended by (simp add: task_ended_def)
    moreover have "fst (observe_end finished e s) = Some (i, c, x)" by (subst 2(3)) simp
    ultimately show ?thesis using task_ended_inv [OF ended inv run] run 2(6) by simp
  qed
qed

lemma fin_of_del: "fin_of t s = None \<Longrightarrow> sv_finalizers s' = assoc_del i (sv_finalizers s) \<Longrightarrow> fin_of t s' = None"
  unfolding fin_of_def map_of_eq_None_iff by (auto simp: assoc_del_def)

lemma observe_end_settled:
  assumes "tasks_good (sv_tasks s)" "settled t s"
  shows "settled t (snd (observe_end finished e s))"
proof (cases rule: observe_end_effect [OF assms(1), of finished e])
  case 1
  with assms(2) show ?thesis by simp
next
  case (2 k i c a x)
  have "sv_finalizers (snd (observe_end finished e s)) = assoc_del i (sv_finalizers s)"
    "sv_shared (snd (observe_end finished e s)) = sv_shared s" by (subst 2(3), simp)+
  with assms(2) fin_of_del [of t s "snd (observe_end finished e s)" i] show ?thesis by (simp add: settled_def row_def)
qed

lemma observe_ends_inv:
  assumes "supervisor_inv s" "\<not> drain_complete s"
  shows "supervisor_inv (snd (observe_ends finished es s)) \<and> \<not> drain_complete (snd (observe_ends finished es s))
    \<and> next_task_id (sv_tasks (snd (observe_ends finished es s))) = next_task_id (sv_tasks s)
    \<and> (\<forall>t. settled t s \<longrightarrow> settled t (snd (observe_ends finished es s)))
    \<and> (\<forall>i tx x. (i, Finalizer tx, x) \<in> set (fst (observe_ends finished es s)) \<longrightarrow> settled tx (snd (observe_ends finished es s)))"
  using assms
proof (induction es arbitrary: s)
  case (Cons e es)
  have good: "tasks_good (sv_tasks s)" using Cons.prems(1) by (simp add: supervisor_inv_def)
  obtain item s' where o: "observe_end finished e s = (item, s')" by (cases "observe_end finished e s")
  note one = observe_end_inv [OF Cons.prems, of finished e, unfolded o fst_conv snd_conv]
  have step: "settled t s \<Longrightarrow> settled t s'" for t using observe_end_settled [OF good, of t finished e] o by simp
  obtain items s'' where r: "observe_ends finished es s' = (items, s'')" by (cases "observe_ends finished es s'")
  note rest = Cons.IH [of s', unfolded r fst_conv snd_conv]
  have all: "observe_ends finished (e # es) s = (case item of Some x \<Rightarrow> x # items | None \<Rightarrow> items, s'')" by (simp add: o r)
  have rest': "supervisor_inv s''" "\<not> drain_complete s''" "next_task_id (sv_tasks s'') = next_task_id (sv_tasks s)"
    "\<And>t. settled t s' \<Longrightarrow> settled t s''" "\<And>i tx x. (i, Finalizer tx, x) \<in> set items \<Longrightarrow> settled tx s''"
    using rest one by metis+
  have "settled tx s''" if "(i, Finalizer tx, x) \<in> set (case item of Some x \<Rightarrow> x # items | None \<Rightarrow> items)" for i tx x
  proof (cases "(i, Finalizer tx, x) \<in> set items")
    case False
    with that have "item = Some (i, Finalizer tx, x)" by (cases item) auto
    with one have "settled tx s'" by blast
    then show ?thesis by (rule rest'(4))
  qed (rule rest'(5))
  then show ?case unfolding all fst_conv snd_conv using rest' step by blast
qed simp

lemma keeps_row:
  assumes "\<And>e. same_row (Some e) (Some (f e))"
  shows "keeps (on_row tx f)"
  by (rule keeps_looks_same) (auto intro: on_row_looks_same assms)

lemma on_row_settled:
  "settled t s \<Longrightarrow> (\<And>e. entry_terminal e \<noteq> None \<Longrightarrow> entry_terminal (f e) \<noteq> None) \<Longrightarrow> settled t (on_row tx f s)"
  by (auto simp: settled_def row_on_row fin_of_def)

lemma recover_terminal_unfold:
  "recover_terminal tokio tx exit s =
     (case row tx s of
        None \<Rightarrow> s
      | Some e \<Rightarrow>
          if entry_terminal e \<noteq> None then s
          else accept_terminal tokio tx
            (case pending_worker_proposal e of Some p \<Rightarrow> p
             | None \<Rightarrow> \<lparr>proposal_kind = invented_kind exit (sh_state (sv_shared s) = Quiescing) (cancel_requested e)\<rparr>) False
            (on_row tx (\<lambda>e. e\<lparr>pending_worker_proposal := None\<rparr>) s))"
  by (simp add: recover_terminal_def row_def Let_def split: option.split)

lemma keeps_recover_terminal:
  assumes "executor_fresh tokio"
  shows "keeps (recover_terminal tokio tx exit)"
proof (rule keepsI)
  have k: "keeps (\<lambda>s. accept_terminal tokio tx p False (on_row tx (\<lambda>e. e\<lparr>pending_worker_proposal := None\<rparr>) s))" for p
    by (rule keeps_comp [OF keeps_row keeps_accept_terminal [OF assms]]) (simp add: same_row_def)
  show "next_task_id (sv_tasks (recover_terminal tokio tx exit s)) < usize_max \<Longrightarrow> next_task_id (sv_tasks s) < usize_max" for s
    using keepsD(1) [OF k, of _ s] by (cases "row tx s"; cases "entry_terminal (the (row tx s))") (simp_all add: recover_terminal_unfold)
  show "supervisor_inv s \<Longrightarrow> \<not> drain_complete s \<Longrightarrow> next_task_id (sv_tasks (recover_terminal tokio tx exit s)) < usize_max \<Longrightarrow>
      next_task_id (sv_tasks s) < usize_max \<Longrightarrow>
      supervisor_inv (recover_terminal tokio tx exit s) \<and> \<not> drain_complete (recover_terminal tokio tx exit s)" for s
    using keepsD(2) [OF k, of _ s] unfolding recover_terminal_unfold
    by (cases "row tx s"; cases "entry_terminal (the (row tx s))") simp_all
qed

lemma recover_terminal_settled: "settled t s \<Longrightarrow> settled t (recover_terminal tokio tx exit s)"
  using accept_terminal_settled [OF on_row_settled [of t s "\<lambda>e. e\<lparr>pending_worker_proposal := None\<rparr>" tx]]
  by (simp add: recover_terminal_unfold split: option.split)

lemma remove_row_settled: "settled t s \<Longrightarrow> settled t (try_remove_tombstone tx s)"
  by (auto simp: settled_def try_remove_tombstone_def row_remove fin_of_def row_def [symmetric] split: option.split)

lemma on_tasks_settled [simp]: "settled t (on_tasks g s) = settled t s"
  by (simp add: settled_def)

lemma on_task_exit_settled: "settled t s \<Longrightarrow> settled t (on_task_exit tokio c x s)"
  by (simp add: on_task_exit_def Let_def recover_terminal_settled remove_row_settled split: option.split)

lemma abort_transaction_inv:
  assumes inv: "supervisor_inv s" "\<not> drain_complete s" and none: "fin_of tx s = None"
  shows "supervisor_inv (on_tasks (abort_transaction tx) s) \<and> \<not> drain_complete (on_tasks (abort_transaction tx) s)"
proof -
  let ?p = "\<lambda>(_::nat) c. class_transaction c = Some tx"
  have good: "tasks_good (sv_tasks s)" "finalizers_ok s" using inv(1) by (simp_all add: supervisor_inv_def)
  have l: "live (abort_transaction tx (sv_tasks s)) = stop_where ?p (live (sv_tasks s))"
    using live_stopmarked [of ?p "sv_tasks s"] by (simp add: aborts_stopmarked [OF good(1)])
  have "tasks_good (abort_transaction tx (sv_tasks s))"
    using stopmarked_good [OF good(1), of ?p] by (simp add: aborts_stopmarked [OF good(1)])
  moreover have "finalizers_ok (on_tasks (abort_transaction tx) s)"
    by (rule finalizers_ok_stop [where p = ?p, OF good(2)])
      (use none fin_of_task [OF good(2), of tx] in \<open>auto simp: l\<close>)
  ultimately show ?thesis using inv by (intro tasks_change_inv [where f = False]) simp_all
qed

lemma on_task_exit_inv:
  assumes fresh: "executor_fresh tokio" and inv: "supervisor_inv s" "\<not> drain_complete s"
    and n: "next_task_id (sv_tasks (on_task_exit tokio c x s)) < usize_max"
    and fin: "\<And>tx. c = Finalizer tx \<Longrightarrow> settled tx s"
  shows "supervisor_inv (on_task_exit tokio c x s) \<and> \<not> drain_complete (on_task_exit tokio c x s)"
proof (cases "class_transaction c")
  case None
  with inv show ?thesis by (simp add: on_task_exit_def)
next
  case (Some tx)
  let ?s = "if is_coordinator c then recover_terminal tokio tx x s else s"
  have k: "keeps (\<lambda>s. if is_coordinator c then recover_terminal tokio tx x s else s)"
    by (intro keeps_if keeps_recover_terminal fresh keeps_id)
  have n': "next_task_id (sv_tasks ?s) < usize_max"
    using n Some by (simp add: on_task_exit_def Let_def split: if_splits)
  have s: "supervisor_inv ?s" "\<not> drain_complete ?s" using keepsD(2) [OF k _ inv] n' by blast+
  show ?thesis
  proof (cases "is_finalizer c")
    case True
    then have "c = Finalizer tx" "\<not> is_coordinator c" using Some by (cases c; simp)+
    then have "fin_of tx s = None" using fin by (simp add: settled_def)
    with Some True \<open>\<not> is_coordinator c\<close> try_remove_inv [OF inv, of tx] abort_transaction_inv [OF inv, of tx] show ?thesis
      by (simp add: on_task_exit_def)
  next
    case False
    with Some s try_remove_inv [OF s, of tx] show ?thesis by (simp add: on_task_exit_def Let_def)
  qed
qed

lemma on_task_exit_next:
  assumes "executor_fresh tokio" "next_task_id (sv_tasks (on_task_exit tokio c x s)) < usize_max"
  shows "next_task_id (sv_tasks s) < usize_max"
proof (cases "class_transaction c")
  case (Some tx)
  have "next_task_id (sv_tasks (if is_coordinator c then recover_terminal tokio tx x s else s)) < usize_max"
    using assms(2) Some by (simp add: on_task_exit_def Let_def split: if_splits)
  then show ?thesis using keepsD(1) [OF keeps_recover_terminal [OF assms(1)], of tx x s] by (simp split: if_splits)
qed (use assms in \<open>simp add: on_task_exit_def\<close>)

lemma keeps_note_exit: "keeps (note_connector_owner_exit c)"
  by (rule keeps_looks_same) (simp_all add: looks_same_def note_connector_owner_exit_def row_def)

lemma note_exit_fields [simp]:
  "sv_tasks (note_connector_owner_exit c s) = sv_tasks s" "settled t (note_connector_owner_exit c s) = settled t s"
  by (simp_all add: note_connector_owner_exit_def settled_def row_def fin_of_def)

lemma handle_exit_next:
  "executor_fresh tokio \<Longrightarrow> next_task_id (sv_tasks (handle_exit tokio x s)) < usize_max \<Longrightarrow> next_task_id (sv_tasks s) < usize_max"
  using on_task_exit_next [of tokio _ _ "note_connector_owner_exit _ s"] by (cases x) (auto simp: handle_exit_def)

lemma handle_exits_next:
  "executor_fresh tokio \<Longrightarrow> next_task_id (sv_tasks (fold (handle_exit tokio) xs s)) < usize_max \<Longrightarrow> next_task_id (sv_tasks s) < usize_max"
  by (induction xs arbitrary: s) (auto dest: handle_exit_next)

lemma handle_exits_inv:
  assumes "executor_fresh tokio" "supervisor_inv s" "\<not> drain_complete s"
    and "next_task_id (sv_tasks (fold (handle_exit tokio) xs s)) < usize_max"
    and "\<And>i tx x. (i, Finalizer tx, x) \<in> set xs \<Longrightarrow> settled tx s"
  shows "supervisor_inv (fold (handle_exit tokio) xs s) \<and> \<not> drain_complete (fold (handle_exit tokio) xs s)"
  using assms(2-5)
proof (induction xs arbitrary: s)
  case (Cons a xs)
  obtain i c x where a: "a = (i, c, x)" by (cases a)
  let ?n = "note_connector_owner_exit c s" and ?s = "handle_exit tokio a s"
  have n: "next_task_id (sv_tasks ?s) < usize_max" using handle_exits_next [OF assms(1), of xs ?s] Cons.prems(3) by simp
  then have n': "next_task_id (sv_tasks s) < usize_max" by (rule handle_exit_next [OF assms(1)])
  have "supervisor_inv ?n" "\<not> drain_complete ?n"
    using keepsD(2) [OF keeps_note_exit _ Cons.prems(1,2), of c] n' by simp_all
  then have "supervisor_inv ?s \<and> \<not> drain_complete ?s"
    using on_task_exit_inv [OF assms(1), of ?n c x] n Cons.prems(4) by (auto simp: handle_exit_def a)
  moreover have "settled t s \<Longrightarrow> settled t ?s" for t
    using on_task_exit_settled [of t ?n] by (simp add: handle_exit_def a)
  then have "(i, Finalizer tx, x) \<in> set xs \<Longrightarrow> settled tx ?s" for i tx x using Cons.prems(4) by (meson list.set_intros(2))
  ultimately show ?case using Cons.IH [of ?s] Cons.prems(3) by simp
qed simp

lemma worker_exited_settled: "settled t s \<Longrightarrow> settled t (fold (worker_exited tokio) msgs s)"
  by (induction msgs arbitrary: s) (auto simp: worker_exited_def accept_terminal_settled split_beta)

lemma keeps_worker_exited: "executor_fresh tokio \<Longrightarrow> keeps (worker_exited tokio m)"
  by (simp add: worker_exited_def split_beta keeps_accept_terminal)

text \<open>
  The counter is not read by a join, so its bound carries over in every state, not only in good
  ones.
\<close>

lemma deregister_next: "next_task_id (snd (deregister i ts)) = next_task_id ts"
  by (simp add: deregister_def Let_def split: option.split)

lemma join_next_next: "next_task_id (snd (join_next finished e ts)) = next_task_id ts"
  by (auto simp: join_next_def take_join_def reap_finished_def Let_def split_beta deregister_next
      split: option.split join_result.split prod.split)

lemma observe_end_next: "next_task_id (sv_tasks (snd (observe_end finished e s))) = next_task_id (sv_tasks s)"
  using join_next_next [of finished e "sv_tasks s"]
  by (cases e) (simp add: observe_end_def split_beta Let_def split: option.split)

lemma observe_ends_next: "next_task_id (sv_tasks (snd (observe_ends finished es s))) = next_task_id (sv_tasks s)"
  by (induction es arbitrary: s) (simp_all add: split_beta observe_end_next)

lemma keeps_reap:
  assumes fresh: "executor_fresh tokio"
  shows "keeps (reap tokio finished es msgs)"
proof (rule keepsI)
  have unfold: "reap tokio finished es msgs s = fold (handle_exit tokio) (fst (observe_ends finished es s))
      (fold (worker_exited tokio) msgs (snd (observe_ends finished es s)))" for s
    by (simp add: reap_def split_beta)
  have kw: "keeps (fold (worker_exited tokio) msgs)" by (intro keeps_fold keeps_worker_exited fresh)
  show n: "next_task_id (sv_tasks (reap tokio finished es msgs s)) < usize_max \<Longrightarrow> next_task_id (sv_tasks s) < usize_max" for s
    using handle_exits_next [OF fresh] keepsD(1) [OF kw] by (metis unfold observe_ends_next)
  fix s
  assume i: "supervisor_inv s" "\<not> drain_complete s" and n: "next_task_id (sv_tasks (reap tokio finished es msgs s)) < usize_max"
  let ?o = "snd (observe_ends finished es s)"
  let ?w = "fold (worker_exited tokio) msgs ?o"
  have o: "supervisor_inv ?o" "\<not> drain_complete ?o"
    "\<And>i tx x. (i, Finalizer tx, x) \<in> set (fst (observe_ends finished es s)) \<Longrightarrow> settled tx ?o"
    using observe_ends_inv [OF i, of finished es] by blast+
  have "next_task_id (sv_tasks ?w) < usize_max" using n handle_exits_next [OF fresh] by (metis unfold)
  then have "supervisor_inv ?w" "\<not> drain_complete ?w" using keepsD(2) [OF kw _ o(1,2)] by blast+
  then show "supervisor_inv (reap tokio finished es msgs s) \<and> \<not> drain_complete (reap tokio finished es msgs s)"
    unfolding unfold
    by (rule handle_exits_inv [OF fresh]) (use n o(3) worker_exited_settled in \<open>auto simp: unfold\<close>)
qed

subsection \<open>Shutdown\<close>

lemma keeps_to_quiescing: "keeps to_quiescing"
proof (rule keepsI)
  show "next_task_id (sv_tasks (to_quiescing s)) < usize_max \<Longrightarrow> next_task_id (sv_tasks s) < usize_max" for s
    by (simp add: to_quiescing_def)
  fix s assume i: "supervisor_inv s" "\<not> drain_complete s"
  then have "stop_ok (to_quiescing s)" by (auto simp: supervisor_inv_def stop_ok_def to_quiescing_def leave_accepting_def)
  then have "supervisor_inv (to_quiescing s)"
    by (rule state_change_inv [OF i(1)]) (simp_all add: to_quiescing_def row_def)
  with i(2) show "supervisor_inv (to_quiescing s) \<and> \<not> drain_complete (to_quiescing s)" by (simp add: to_quiescing_def)
qed

definition all_decided :: "string set \<Rightarrow> supervisor_state \<Rightarrow> bool" where
  "all_decided T s \<longleftrightarrow> (\<forall>tx e. tx \<in> T \<longrightarrow> row tx s = Some e \<longrightarrow> entry_terminal e \<noteq> None)"

lemma shut_down_unfold:
  "shut_down_transaction tokio tx s =
     (case row tx s of
        Some e \<Rightarrow> if entry_terminal e \<noteq> None
          then on_tasks (abort_transaction_residuals tx) (on_row tx (\<lambda>e. e\<lparr>cancel_requested := True\<rparr>) s)
          else accept_terminal tokio tx \<lparr>proposal_kind = RuntimeShutdown\<rparr> False (s\<lparr>n_shutdown_terminals := n_shutdown_terminals s + 1\<rparr>)
      | None \<Rightarrow> accept_terminal tokio tx \<lparr>proposal_kind = RuntimeShutdown\<rparr> False (s\<lparr>n_shutdown_terminals := n_shutdown_terminals s + 1\<rparr>))"
  by (simp add: shut_down_transaction_def row_def split: option.split)

lemma keeps_shut_down:
  assumes "executor_fresh tokio"
  shows "keeps (shut_down_transaction tokio tx)"
proof -
  have c: "keeps (\<lambda>s. on_tasks (abort_transaction_residuals tx) (on_row tx (\<lambda>e. e\<lparr>cancel_requested := True\<rparr>) s))"
    by (rule keeps_comp [OF keeps_row keeps_residuals]) (simp add: same_row_def)
  have n: "keeps (\<lambda>s. s\<lparr>n_shutdown_terminals := n_shutdown_terminals s + 1\<rparr>)"
    by (rule keeps_looks_same) (simp_all add: looks_same_def row_def)
  have a: "keeps (\<lambda>s. accept_terminal tokio tx \<lparr>proposal_kind = RuntimeShutdown\<rparr> False (s\<lparr>n_shutdown_terminals := n_shutdown_terminals s + 1\<rparr>))"
    by (rule keeps_comp [OF n keeps_accept_terminal [OF assms]])
  show ?thesis unfolding shut_down_transaction_def by (rule keeps_if [OF c a])
qed

lemma shut_down_decides:
  "all_decided T s \<Longrightarrow> all_decided (insert tx T) (shut_down_transaction tokio tx s)"
  using decide_fields(3)
  by (auto simp: all_decided_def shut_down_unfold accept_terminal_row row_on_row split: option.splits if_splits)
    (auto simp: row_def)

lemma shut_down_all_decides:
  "all_decided T s \<Longrightarrow> all_decided (T \<union> set ids) (fold (shut_down_transaction tokio) ids s)"
proof (induction ids arbitrary: s T)
  case (Cons tx ids)
  from Cons.IH [OF shut_down_decides [OF Cons.prems]] show ?case by simp
qed simp

lemma stopping_commutes:
  "on_row tx f (s\<lparr>sv_stopping := b\<rparr>) = (on_row tx f s)\<lparr>sv_stopping := b\<rparr>"
  "on_tasks g (s\<lparr>sv_stopping := b\<rparr>) = (on_tasks g s)\<lparr>sv_stopping := b\<rparr>"
  "accept_terminal tokio tx p force (s\<lparr>sv_stopping := b\<rparr>) = (accept_terminal tokio tx p force s)\<lparr>sv_stopping := b\<rparr>"
proof -
  show r: "on_row tx f (s\<lparr>sv_stopping := b\<rparr>) = (on_row tx f s)\<lparr>sv_stopping := b\<rparr>" for f s
    by (simp add: on_row_def put_ledger_def)
  show "on_tasks g (s\<lparr>sv_stopping := b\<rparr>) = (on_tasks g s)\<lparr>sv_stopping := b\<rparr>"
    by (simp add: on_tasks_def)
  have "spawn_finalizer tokio tx seal (s\<lparr>sv_stopping := b\<rparr>) = (spawn_finalizer tokio tx seal s)\<lparr>sv_stopping := b\<rparr>" for seal s
    by (simp add: spawn_finalizer_def split_beta)
  then show "accept_terminal tokio tx p force (s\<lparr>sv_stopping := b\<rparr>) = (accept_terminal tokio tx p force s)\<lparr>sv_stopping := b\<rparr>"
    by (simp add: accept_terminal_def r Let_def split: option.split)
qed

lemma shut_down_stopping:
  "shut_down_transaction tokio tx (s\<lparr>sv_stopping := b\<rparr>) = (shut_down_transaction tokio tx s)\<lparr>sv_stopping := b\<rparr>"
proof -
  have swap: "(s\<lparr>sv_stopping := b\<rparr>)\<lparr>n_shutdown_terminals := n\<rparr> = (s\<lparr>n_shutdown_terminals := n\<rparr>)\<lparr>sv_stopping := b\<rparr>" for n by simp
  show ?thesis by (simp add: shut_down_transaction_def stopping_commutes(1,2)) (simp only: swap stopping_commutes(3) simp_thms)
qed

lemma fold_stopping:
  "fold (shut_down_transaction tokio) ids (s\<lparr>sv_stopping := b\<rparr>) = (fold (shut_down_transaction tokio) ids s)\<lparr>sv_stopping := b\<rparr>"
  by (induction ids arbitrary: s) (simp_all add: shut_down_stopping)

lemma begin_shutdown_unfold:
  "begin_shutdown_inner tokio s =
     (fold (shut_down_transaction tokio) (transaction_ids (sv_ledger s)) (signal_mcp_shutdown (to_quiescing s)))\<lparr>sv_stopping := True\<rparr>"
proof -
  have "signal_mcp_shutdown ((to_quiescing s)\<lparr>sv_stopping := True\<rparr>) = (signal_mcp_shutdown (to_quiescing s))\<lparr>sv_stopping := True\<rparr>"
    by (simp add: signal_mcp_shutdown_def)
  moreover have "sv_ledger (to_quiescing s) = sv_ledger s" by (simp add: to_quiescing_def)
  ultimately show ?thesis by (simp add: begin_shutdown_inner_def Let_def fold_stopping)
qed

lemma shut_down_keeps_state [simp]:
  "sh_state (sv_shared (fold (shut_down_transaction tokio) ids s)) = sh_state (sv_shared s)"
proof (induction ids arbitrary: s)
  case (Cons tx ids)
  have "sh_state (sv_shared (accept_terminal tokio tx p force s)) = sh_state (sv_shared s)" for p force s
    by (simp add: accept_terminal_def Let_def split: option.split)
  then have "sh_state (sv_shared (shut_down_transaction tokio tx s)) = sh_state (sv_shared s)"
    by (simp add: shut_down_transaction_def)
  with Cons.IH show ?case by simp
qed simp

lemma stop_flag_inv:
  assumes "supervisor_inv s" "\<not> drain_complete s" "all_decided UNIV s" "sh_state (sv_shared s) \<in> {Quiescing, Stopped}"
  shows "supervisor_inv (s\<lparr>sv_stopping := True\<rparr>) \<and> \<not> drain_complete (s\<lparr>sv_stopping := True\<rparr>)"
proof -
  let ?s = "s\<lparr>sv_stopping := True\<rparr>"
  have f: "row t ?s = row t s" "fin_of t ?s = fin_of t s" "tokens t ?s = tokens t s"
    "sent_count t ?s = sent_count t s" "admitted_count t ?s = admitted_count t s" for t
    by (simp_all add: row_def fin_of_def tokens_def sent_count_def admitted_count_def)
  have "rows_ok ?s"
    using assms(1,3) rows_okD [of s] by (intro rows_okI) (auto simp: supervisor_inv_def f all_decided_def)
  moreover have "finalizers_ok ?s" using assms(1) by (simp add: supervisor_inv_def finalizers_ok_def)
  moreover have "counts_ok ?s" using assms(1) by (simp add: supervisor_inv_def counts_ok_def f)
  moreover have "stop_ok ?s" using assms(1,2,4) by (auto simp: supervisor_inv_def stop_ok_def)
  ultimately show ?thesis using assms(1,2) by (simp add: supervisor_inv_def)
qed

lemma row_in_ids: "row tx s \<noteq> None \<Longrightarrow> tx \<in> set (transaction_ids (sv_ledger s))"
  by (auto simp: row_def ledger_get_def transaction_ids_def dest!: map_of_SomeD intro: rev_image_eqI)

lemma keeps_begin_shutdown:
  assumes fresh: "executor_fresh tokio"
  shows "keeps (begin_shutdown_inner tokio)"
proof (rule keepsI)
  have km: "keeps signal_mcp_shutdown" by (rule keeps_looks_same) (simp_all add: looks_same_def signal_mcp_shutdown_def row_def)
  have k: "keeps (\<lambda>s. fold (shut_down_transaction tokio) ids (signal_mcp_shutdown (to_quiescing s)))" for ids
    using keeps_comp [OF keeps_comp [OF keeps_to_quiescing km] keeps_fold [of "shut_down_transaction tokio" ids]] keeps_shut_down [OF fresh] by blast
  show n: "next_task_id (sv_tasks (begin_shutdown_inner tokio s)) < usize_max \<Longrightarrow> next_task_id (sv_tasks s) < usize_max" for s
    using keepsD(1) [OF k, of "transaction_ids (sv_ledger s)" s] by (simp add: begin_shutdown_unfold)
  fix s
  assume i: "supervisor_inv s" "\<not> drain_complete s" and n: "next_task_id (sv_tasks (begin_shutdown_inner tokio s)) < usize_max"
  let ?q = "signal_mcp_shutdown (to_quiescing s)" and ?ids = "transaction_ids (sv_ledger s)"
  let ?f = "fold (shut_down_transaction tokio) ?ids ?q"
  have inv: "supervisor_inv ?f" "\<not> drain_complete ?f"
    using keepsD(2) [OF k _ i, of ?ids] n by (simp_all add: begin_shutdown_unfold)
  have rq: "row t ?q = row t s" for t by (simp add: row_def signal_mcp_shutdown_def to_quiescing_def)
  then have "all_decided (- set ?ids) ?q" using row_in_ids [of _ s] by (fastforce simp: all_decided_def)
  then have "all_decided UNIV ?f" using shut_down_all_decides [of "- set ?ids" ?q ?ids tokio] by simp
  moreover have "sh_state (sv_shared ?f) \<in> {Quiescing, Stopped}"
    by (cases "sh_state (sv_shared s)") (simp_all add: signal_mcp_shutdown_def to_quiescing_def leave_accepting_def)
  ultimately show "supervisor_inv (begin_shutdown_inner tokio s) \<and> \<not> drain_complete (begin_shutdown_inner tokio s)"
    using stop_flag_inv [OF inv] by (simp add: begin_shutdown_unfold)
qed

subsection \<open>Finalizers\<close>

lemma key_map_mem: "(j, x) \<in> set (map (\<lambda>(j, y). (j, f j y)) xs) \<longleftrightarrow> (\<exists>y. (j, y) \<in> set xs \<and> x = f j y)"
  by (induction xs) auto

lemma fin_of_put:
  assumes ok: "finalizers_ok s" and pc: "(i, pc) \<in> set (sv_finalizers s)" "fin_transaction pc' = fin_transaction pc"
    and s': "sv_finalizers s' = assoc_put i pc' (sv_finalizers s)" "sv_tasks s' = sv_tasks s" "sv_forced s' = sv_forced s"
  shows "finalizers_ok s'" "fin_of t s' = (if t = fin_transaction pc then Some pc' else fin_of t s)"
proof -
  have d: "distinct (map fst (sv_finalizers s))" "distinct (map (\<lambda>(_, pc). fin_transaction pc) (sv_finalizers s))"
    using ok unfolding finalizers_ok_def by blast+
  have put: "sv_finalizers s' = map (\<lambda>(j, x). (j, if j = i then pc' else x)) (sv_finalizers s)"
    unfolding s' by (rule assoc_put_map [OF d(1) map_of_is_SomeI [OF d(1) pc(1)]])
  have at: "x = pc" if "(i, x) \<in> set (sv_finalizers s)" for x using d(1) pc(1) that by (metis eq_key_imp_eq_value)
  have "map (\<lambda>(_, pc). fin_transaction pc) (sv_finalizers s') = map (\<lambda>(_, pc). fin_transaction pc) (sv_finalizers s)"
    using at pc(2) by (auto simp: put)
  moreover have "map fst (sv_finalizers s') = map fst (sv_finalizers s)" by (simp add: put split_beta comp_def)
  moreover have mem: "(j, x) \<in> set (sv_finalizers s') \<longleftrightarrow> (if j = i then x = pc' else (j, x) \<in> set (sv_finalizers s))" for j x
    unfolding put key_map_mem using pc(1) by auto
  have "(\<exists>x. (j, x) \<in> set (sv_finalizers s') \<and> fin_transaction x = t) \<longleftrightarrow> (\<exists>x. (j, x) \<in> set (sv_finalizers s) \<and> fin_transaction x = t)" for j t
  proof (cases "j = i")
    case True
    have "(\<exists>x. (i, x) \<in> set (sv_finalizers s) \<and> fin_transaction x = t) \<longleftrightarrow> fin_transaction pc = t" using at pc(1) by blast
    moreover have "(i, x) \<in> set (sv_finalizers s') \<longleftrightarrow> x = pc'" for x using mem [of i x] by (simp only: if_True simp_thms)
    ultimately show ?thesis unfolding True using pc(2) by auto
  next
    case False
    then have "(j, x) \<in> set (sv_finalizers s') \<longleftrightarrow> (j, x) \<in> set (sv_finalizers s)" for x using mem [of j x] by (simp only: if_False)
    then show ?thesis by (simp only:)
  qed
  ultimately show ok': "finalizers_ok s'" using ok unfolding finalizers_ok_def s'(2,3) by simp
  have uniq: "fin_of (fin_transaction pc) s = Some pc" using pc(1) by (auto simp: fin_of_iff [OF ok])
  have "fin_of t s' = Some x \<longleftrightarrow> (if t = fin_transaction pc then x = pc' else fin_of t s = Some x)" for x
  proof (cases "t = fin_transaction pc")
    case True
    have "fin_of t s' = Some pc'" using pc(2) True mem [of i pc'] by (auto simp: fin_of_iff [OF ok'])
    with True show ?thesis by auto
  next
    case False
    have "(j, x) \<in> set (sv_finalizers s') \<and> fin_transaction x = t \<longleftrightarrow> (j, x) \<in> set (sv_finalizers s) \<and> fin_transaction x = t" for j
      using at [of x] pc(2) False by (cases "j = i") (auto simp: mem)
    with False show ?thesis by (simp only: fin_of_iff [OF ok'] fin_of_iff [OF ok] if_False)
  qed
  then show "fin_of t s' = (if t = fin_transaction pc then Some pc' else fin_of t s)" by (metis not_Some_eq)
qed

text \<open>A finalizer moves on: what has to be shown of its own row is all there is to show.\<close>

lemma finalizer_moves_inv:
  assumes inv: "supervisor_inv s" and run: "\<not> drain_complete s"
    and pc: "(i, pc) \<in> set (sv_finalizers s)" "fin_transaction pc = tx" "fin_transaction pc' = tx"
    and s': "sv_finalizers s' = assoc_put i pc' (sv_finalizers s)" "sv_tasks s' = sv_tasks s" "sv_forced s' = sv_forced s"
      "sv_admitted s' = sv_admitted s" "sv_stopping s' = sv_stopping s" "drain_complete s' = drain_complete s"
      "sh_state (sv_shared s') = sh_state (sv_shared s)"
    and other: "\<And>t. t \<noteq> tx \<Longrightarrow> row t s' = row t s" "\<And>t. t \<noteq> tx \<Longrightarrow> sent_count t s' = sent_count t s"
    and own: "\<And>e. row tx s = Some e \<Longrightarrow> entry_terminal e \<noteq> None \<Longrightarrow> row_ok (sv_forced s) (Some pc) e \<Longrightarrow>
      \<exists>e'. row tx s' = Some e' \<and> entry_terminal e' \<noteq> None \<and> row_ok (sv_forced s) (Some pc') e'
        \<and> sent_count tx s' + row_token (Some e') + pc_token (Some pc') = sent_count tx s + row_token (Some e) + pc_token (Some pc)"
  shows "supervisor_inv s'"
proof -
  have good: "tasks_good (sv_tasks s)" "finalizers_ok s" "rows_ok s" "counts_ok s" "stop_ok s"
    using inv by (simp_all add: supervisor_inv_def)
  have pc': "fin_transaction pc' = fin_transaction pc" using pc by simp
  note fin = fin_of_put [OF good(2) pc(1) pc' s'(1,2,3)]
  have f: "fin_of tx s = Some pc" using pc by (auto simp: fin_of_iff [OF good(2)])
  obtain e where e: "row tx s = Some e" using rows_okD(1) [OF good(3), of tx] f by (cases "row tx s") auto
  have r: "row_ok (sv_forced s) (Some pc) e" using rows_okD(2) [OF good(3) e] f by simp
  then have "entry_terminal e \<noteq> None" by (cases "entry_terminal e") (auto simp: row_ok_def)
  then obtain e' where e': "row tx s' = Some e'" "entry_terminal e' \<noteq> None" "row_ok (sv_forced s) (Some pc') e'"
    "sent_count tx s' + row_token (Some e') + pc_token (Some pc') = sent_count tx s + row_token (Some e) + pc_token (Some pc)"
    using own [OF e _ r] by blast
  have "rows_ok s'"
  proof (rule rows_okI)
    fix t
    show "row t s' = None \<Longrightarrow> fin_of t s' = None" using rows_okD(1) [OF good(3), of t] e' other(1) [of t] by (cases "t = tx") (auto simp: fin(2) pc)
    fix x assume x: "row t s' = Some x"
    show "row_ok (sv_forced s') (fin_of t s') x"
      using rows_okD(2) [OF good(3), of t x] x e' other(1) [of t] by (cases "t = tx") (auto simp: fin(2) pc s')
    show "sv_stopping s' \<Longrightarrow> entry_terminal x \<noteq> None"
      using rows_okD(3) [OF good(3), of t x] x e' other(1) [of t] by (cases "t = tx") (auto simp: s')
  qed
  moreover have "sent_count t s' + tokens t s' = sent_count t s + tokens t s" for t
    using e e' f other by (cases "t = tx") (simp_all add: tokens_def fin(2) pc)
  then have "counts_ok s'" by (intro counts_ok_less [OF good(4)]) (simp_all add: s')
  moreover have "stop_ok s'" using good(5) run by (auto simp: stop_ok_def s')
  ultimately show ?thesis using good(1) fin(1) by (simp add: supervisor_inv_def s')
qed

lemma no_finalizer_when_drained:
  assumes "supervisor_inv s" "drain_complete s"
  shows "sv_finalizers s = []"
proof -
  have "live (sv_tasks s) = []" "finalizers_ok s"
    using assms by (simp_all add: supervisor_inv_def stop_ok_def nothing_owned_def tasks_empty_def live_def)
  then have "\<not> (\<exists>i pc. (i, pc) \<in> set (sv_finalizers s))" unfolding finalizers_ok_def by simp blast
  then show ?thesis by (cases "sv_finalizers s") auto
qed

lemma fin_finish_fields:
  "sv_tasks (fin_finish outcome r tx d s) = sv_tasks s" "sv_finalizers (fin_finish outcome r tx d s) = sv_finalizers s"
  "sv_forced (fin_finish outcome r tx d s) = sv_forced s" "sv_admitted (fin_finish outcome r tx d s) = sv_admitted s"
  "sv_stopping (fin_finish outcome r tx d s) = sv_stopping s" "drain_complete (fin_finish outcome r tx d s) = drain_complete s"
  "sh_state (sv_shared (fin_finish outcome r tx d s)) = sh_state (sv_shared s)"
  by (simp_all add: fin_finish_def count_completion_def Let_def split_beta split: completion_publish_result.split)

lemma count_completion_row [simp]: "row t (count_completion r s) = row t s" "sv_sent (count_completion r s) = sv_sent s"
  by (simp_all add: count_completion_def row_def split: completion_publish_result.split)

lemma fin_finish_row:
  "row t (fin_finish outcome r tx d s) =
     (if t = tx then map_option (\<lambda>e. (if truncated_kind (if fd_seal d then fst (seal_delivery outcome) else NotAttempted) (fd_kind d) \<noteq> fd_kind d
        then e\<lparr>entry_terminal := Some \<lparr>decision_kind = truncated_kind (if fd_seal d then fst (seal_delivery outcome) else NotAttempted) (fd_kind d)\<rparr>\<rparr> else e)
        \<lparr>event_sequence := if fd_seal d then snd (seal_delivery outcome) else 0\<rparr>) (row tx s)
      else row t s)"
proof -
  have "row t (s\<lparr>sv_sent := x\<rparr>) = row t s" "row t (s\<lparr>n_invariant_failed := n\<rparr>) = row t s" for t x n s
    by (simp_all add: row_def)
  then show ?thesis
    by (cases "row tx s"; cases "fd_seal d") (simp_all add: fin_finish_def Let_def split_beta row_on_row)
qed

lemma fin_finish_sent:
  "sent_count t (fin_finish outcome r tx d s) = sent_count t s + (if t = tx \<and> fd_sender d then 1 else 0)"
  by (simp add: fin_finish_def Let_def split_beta sent_count_def)

definition taken_row :: "ledger_entry \<Rightarrow> ledger_entry" where
  "taken_row e =
     (if \<not> has_completion_tx e \<and> entry_delivery e \<noteq> None then e\<lparr>entry_delivery := None, has_completion_tx := True\<rparr> else e)
       \<lparr>entry_phase := CleanupPendingPhase, has_publisher_cmd_tx := False, has_completion_tx := False\<rparr>"

lemma taken_row_fields:
  "entry_terminal (taken_row e) = entry_terminal e"
  "(has_completion_tx e \<longrightarrow> entry_delivery e = None) \<Longrightarrow> \<not> entry_token (taken_row e)" "\<not> has_completion_tx (taken_row e)"
  by (auto simp: taken_row_def entry_token_def)

lemma fin_begin_row:
  assumes "row tx s = Some e"
  obtains d where "fin_begin tx seal s = (FinSeal tx d, on_row tx (\<lambda>_. taken_row e) s)" "fd_sender d \<longleftrightarrow> entry_token e"
  using assms by (auto simp: fin_begin_def row_def Let_def taken_row_def entry_token_def)

lemma fin_start_inv:
  assumes inv: "supervisor_inv s" and run: "\<not> drain_complete s" and pc: "map_of (sv_finalizers s) i = Some (FinStart tx seal)"
  shows "supervisor_inv (finalizer_step outcome r i s)"
proof -
  have mem: "(i, FinStart tx seal) \<in> set (sv_finalizers s)" using pc by (rule map_of_SomeD)
  have good: "finalizers_ok s" "rows_ok s" using inv by (simp_all add: supervisor_inv_def)
  have "fin_of tx s = Some (FinStart tx seal)" using mem by (auto simp: fin_of_iff [OF good(1)])
  then obtain e where e: "row tx s = Some e" using rows_okD(1) [OF good(2), of tx] by (cases "row tx s") auto
  obtain d where b: "fin_begin tx seal s = (FinSeal tx d, on_row tx (\<lambda>_. taken_row e) s)" "fd_sender d \<longleftrightarrow> entry_token e"
    using fin_begin_row [OF e] .
  let ?s = "(on_row tx (\<lambda>_. taken_row e) s)\<lparr>sv_finalizers := assoc_put i (FinSeal tx d) (sv_finalizers s)\<rparr>"
  have up: "row t ?s = (if t = tx then Some (taken_row e) else row t s)" "sent_count t ?s = sent_count t s" for t
    using row_on_row [of t tx "\<lambda>_. taken_row e" s] e by (simp_all add: row_def sent_count_def)
  have step: "finalizer_step outcome r i s = ?s" using pc b(1) by (simp add: finalizer_step_def)
  show ?thesis unfolding step
  proof (rule finalizer_moves_inv [OF inv run mem, where tx = tx and pc' = "FinSeal tx d"])
    fix e' assume e': "row tx s = Some e'" "entry_terminal e' \<noteq> None" "row_ok (sv_forced s) (Some (FinStart tx seal)) e'"
    then have tok: "e' = e" "entry_token e" "has_completion_tx e \<longrightarrow> entry_delivery e = None" using e by (auto simp: row_ok_def)
    have "row_ok (sv_forced s) (Some (FinSeal tx d)) (taken_row e)"
      using tok e'(2) b(2) taken_row_fields [of e] by (auto simp: row_ok_def)
    then show "\<exists>e''. row tx ?s = Some e'' \<and> entry_terminal e'' \<noteq> None \<and> row_ok (sv_forced s) (Some (FinSeal tx d)) e''
        \<and> sent_count tx ?s + row_token (Some e'') + pc_token (Some (FinSeal tx d))
          = sent_count tx s + row_token (Some e') + pc_token (Some (FinStart tx seal))"
      using tok e'(2) b(2) taken_row_fields [of e] by (simp add: up row_token_def)
  qed (simp_all add: up)
qed

lemma fin_seal_inv:
  assumes inv: "supervisor_inv s" and run: "\<not> drain_complete s" and pc: "map_of (sv_finalizers s) i = Some (FinSeal tx d)"
  shows "supervisor_inv (finalizer_step outcome r i s)"
proof -
  have mem: "(i, FinSeal tx d) \<in> set (sv_finalizers s)" using pc by (rule map_of_SomeD)
  let ?f = "fin_finish outcome r tx d s"
  let ?s = "?f\<lparr>sv_finalizers := assoc_put i (FinDone tx) (sv_finalizers s)\<rparr>"
  have step: "finalizer_step outcome r i s = ?s" using pc by (simp add: finalizer_step_def fin_finish_fields)
  have up: "row t ?s = row t ?f" "sent_count t ?s = sent_count t ?f" for t by (simp_all add: row_def sent_count_def)
  show ?thesis unfolding step
  proof (rule finalizer_moves_inv [OF inv run mem, where tx = tx and pc' = "FinDone tx"])
    fix e assume e: "row tx s = Some e" "entry_terminal e \<noteq> None" "row_ok (sv_forced s) (Some (FinSeal tx d)) e"
    then have tok: "fd_sender d" "\<not> entry_token e" by (auto simp: row_ok_def)
    obtain e' where e': "row tx ?f = Some e'" "entry_delivery e' = entry_delivery e" "has_completion_tx e' = has_completion_tx e"
      "entry_terminal e' \<noteq> None" using e by (simp add: fin_finish_row)
    then have "\<not> entry_token e'" using tok by (simp add: entry_token_def)
    with e' tok show "\<exists>e'. row tx ?s = Some e' \<and> entry_terminal e' \<noteq> None \<and> row_ok (sv_forced s) (Some (FinDone tx)) e'
        \<and> sent_count tx ?s + row_token (Some e') + pc_token (Some (FinDone tx))
          = sent_count tx s + row_token (Some e) + pc_token (Some (FinSeal tx d))"
      by (intro exI [of _ e']) (auto simp: up fin_finish_sent row_ok_def row_token_def entry_token_def)
  qed (simp_all add: fin_finish_fields up fin_finish_row fin_finish_sent)
qed

lemma finalizer_step_inv:
  assumes inv: "supervisor_inv s"
  shows "supervisor_inv (finalizer_step outcome r i s)"
proof (cases "drain_complete s")
  case True
  with no_finalizer_when_drained [OF inv] inv show ?thesis by (simp add: finalizer_step_def)
next
  case False
  with inv fin_start_inv [OF inv False] fin_seal_inv [OF inv False] show ?thesis
  proof (cases "map_of (sv_finalizers s) i")
    case (Some pc)
    with inv fin_start_inv [OF inv False] fin_seal_inv [OF inv False] show ?thesis
      by (cases pc) (simp_all add: finalizer_step_def)
  qed (simp add: finalizer_step_def)
qed

subsection \<open>Everything else\<close>

lemma row_change_inv:
  assumes inv: "supervisor_inv s" "\<not> drain_complete s" and e: "row tx s = Some e"
    and f: "entry_terminal (f e) = entry_terminal e" "entry_token (f e) = entry_token e"
      "entry_phase (f e) \<notin> {Finalizing, CleanupPendingPhase}" "has_completion_tx (f e) \<longrightarrow> entry_delivery (f e) = None"
  shows "supervisor_inv (on_row tx f s)"
proof -
  let ?s = "on_row tx f s"
  have good: "rows_ok s" using inv(1) by (simp add: supervisor_inv_def)
  have fin: "fin_of t ?s = fin_of t s" for t by (simp add: fin_of_def)
  have row: "row t ?s = (if t = tx then Some (f e) else row t s)" for t using e by (simp add: row_on_row)
  have own: "row_ok (sv_forced s) (fin_of tx s) (f e)"
    using rows_okD(2) [OF good e] f(3,4) unfolding row_ok_def f(1,2) by (cases "entry_terminal e") auto
  have "rows_ok ?s"
    using rows_okD [OF good] own rows_okD(3) [OF good e] f(1) e by (intro rows_okI) (auto simp: row fin split: if_splits)
  moreover have "tokens t ?s = tokens t s" for t by (simp add: tokens_def row fin row_token_def f(2) e)
  then have "counts_ok ?s" using inv(1) by (simp add: supervisor_inv_def counts_ok_def sent_count_def admitted_count_def)
  moreover have "stop_ok ?s" using inv by (auto simp: supervisor_inv_def stop_ok_def)
  ultimately show ?thesis using inv(1) by (simp add: supervisor_inv_def finalizers_ok_def)
qed

lemma keeps_handle_start:
  assumes fresh: "executor_fresh tokio"
  shows "keeps (handle_start tokio tx)"
proof (rule keepsI)
  let ?f = "\<lambda>e. e\<lparr>entry_delivery := None, has_completion_tx := True, entry_phase := Running\<rparr>"
  have k: "keeps (\<lambda>s. on_tasks (\<lambda>ts. snd (task_spawn tokio (TransactionCoordinator tx) ts))
      (on_tasks (\<lambda>ts. snd (task_spawn tokio (EventPublisher tx) ts))
        (on_row tx (\<lambda>e. e\<lparr>has_publisher_cmd_tx := True, has_publisher_seal_tx := True\<rparr>) s)))"
    by (intro keeps_comp [OF keeps_comp [OF keeps_row keeps_spawn] keeps_spawn] fresh) (simp_all add: same_row_def)
  have u: "handle_start tokio tx s = (case row tx s of None \<Rightarrow> s
      | Some e \<Rightarrow> if entry_phase e \<noteq> Queued \<or> entry_delivery e = None then s
          else on_tasks (\<lambda>ts. snd (task_spawn tokio (TransactionCoordinator tx) ts))
            (on_tasks (\<lambda>ts. snd (task_spawn tokio (EventPublisher tx) ts))
              (on_row tx (\<lambda>e. e\<lparr>has_publisher_cmd_tx := True, has_publisher_seal_tx := True\<rparr>) (on_row tx ?f s))))" for s
    by (simp add: handle_start_def row_def Let_def split: option.split)
  show "next_task_id (sv_tasks (handle_start tokio tx s)) < usize_max \<Longrightarrow> next_task_id (sv_tasks s) < usize_max" for s
    using keepsD(1) [OF k, of "on_row tx ?f s"] by (simp add: u split: option.splits if_splits)
  fix s
  assume i: "supervisor_inv s" "\<not> drain_complete s" and n: "next_task_id (sv_tasks (handle_start tokio tx s)) < usize_max"
  show "supervisor_inv (handle_start tokio tx s) \<and> \<not> drain_complete (handle_start tokio tx s)"
  proof (cases "row tx s")
    case (Some e)
    show ?thesis
    proof (cases "entry_phase e \<noteq> Queued \<or> entry_delivery e = None")
      case False
      then have "supervisor_inv (on_row tx ?f s)"
        by (intro row_change_inv [OF i Some]) (auto simp: entry_token_def)
      moreover have hs: "handle_start tokio tx s = on_tasks (\<lambda>ts. snd (task_spawn tokio (TransactionCoordinator tx) ts))
            (on_tasks (\<lambda>ts. snd (task_spawn tokio (EventPublisher tx) ts))
              (on_row tx (\<lambda>e. e\<lparr>has_publisher_cmd_tx := True, has_publisher_seal_tx := True\<rparr>) (on_row tx ?f s)))"
        using Some False by (auto simp: u)
      ultimately show ?thesis using keepsD(2) [OF k, of "on_row tx ?f s"] n i(2) unfolding hs by simp
    qed (use Some i in \<open>simp add: u\<close>)
  qed (use i in \<open>simp add: u\<close>)
qed

lemma keeps_start_received: "executor_fresh tokio \<Longrightarrow> keeps (start_received tokio tx)"
  unfolding start_received_def by (intro keeps_if keeps_handle_start keeps_accept_terminal keeps_id)

lemma keeps_control:
  assumes "executor_fresh tokio"
  shows "keeps (control_received tokio c)"
proof -
  have "keeps (\<lambda>s. force_abort (begin_shutdown_inner tokio s))"
    by (rule keeps_comp [OF keeps_begin_shutdown [OF assms] keeps_force_abort])
  moreover have "control_received tokio (CancelCommand tx) = accept_terminal tokio tx \<lparr>proposal_kind = TxCancelled\<rparr> False"
    "control_received tokio (ForceTerminate tx) = accept_terminal tokio tx \<lparr>proposal_kind = TxTerminated\<rparr> True"
    "control_received tokio BeginShutdown = begin_shutdown_inner tokio"
    "control_received tokio StopSupervisor = (\<lambda>s. force_abort (begin_shutdown_inner tokio s))" for tx
    by (simp_all add: fun_eq_iff)
  ultimately show ?thesis by (cases c) (simp_all only: keeps_accept_terminal [OF assms] keeps_begin_shutdown [OF assms])
qed

lemma keeps_register_spawn:
  assumes "executor_fresh tokio" "\<not> is_finalizer c"
  shows "keeps (register_spawn tokio c)"
proof -
  have "keeps (note_connector_owner_spawn c)"
    by (rule keeps_looks_same) (simp_all add: looks_same_def note_connector_owner_spawn_def row_def)
  from keeps_comp [OF this keeps_spawn [OF assms]] show ?thesis by (simp add: register_spawn_def keeps_def)
qed

lemma keeps_tools: "keeps store_owned_tasks" "keeps (poll_children alive)" "keeps (shutdown_progress alive)"
proof -
  show "keeps store_owned_tasks" "keeps (poll_children alive)"
    by (rule keeps_looks_same; simp add: looks_same_def store_owned_tasks_def poll_children_def row_def)+
  show "keeps (shutdown_progress alive)"
    by (rule keeps_looks_same) (simp_all add: looks_same_def shutdown_progress_def poll_children_def row_def)
qed

lemma ledger_empty_no_finalizers:
  assumes "supervisor_inv s" "ledger_empty s"
  shows "sv_finalizers s = []"
proof -
  have good: "finalizers_ok s" "rows_ok s" using assms(1) by (simp_all add: supervisor_inv_def)
  have "fin_of tx s = None" for tx using rows_okD(1) [OF good(2)] assms(2) by (simp add: ledger_empty_row)
  then have "(i, pc) \<notin> set (sv_finalizers s)" for i pc using fin_of_iff [OF good(1), of "fin_transaction pc" pc] by auto
  then show ?thesis by (cases "sv_finalizers s") auto
qed

lemma set_end_live: "set (snd (end_live e l)) \<subseteq> set l"
  by (cases e) (auto simp: end_live_def Let_def split_beta dest: set_without [THEN subsetD])

lemma set_drain_live: "set (drain_live es l) \<subseteq> set l"
  by (induction es arbitrary: l) (auto dest: set_end_live [THEN subsetD])

lemma drain_tasks_inv:
  assumes inv: "supervisor_inv s" "\<not> drain_complete s" and empty: "ledger_empty s"
  shows "supervisor_inv (snd (drain_tasks finished es s)) \<and> \<not> drain_complete (snd (drain_tasks finished es s))"
    "next_task_id (sv_tasks (snd (drain_tasks finished es s))) = next_task_id (sv_tasks s)"
proof -
  let ?s = "snd (drain_tasks finished es s)"
  have good: "tasks_good (sv_tasks s)" "finalizers_ok s" using inv(1) by (simp_all add: supervisor_inv_def)
  note none = ledger_empty_no_finalizers [OF inv(1) empty]
  note d = abort_and_drain_good [OF good(1), of finished es]
  have ts: "sv_tasks ?s = snd (abort_and_drain finished es (sv_tasks s))" by (simp add: drain_tasks_def split_beta)
  have other: "(i, Finalizer tx, a) \<notin> set (live (sv_tasks s))" for i tx a
    using good(2) none unfolding finalizers_ok_def by (metis empty_iff list.set(1))
  have "(i, Finalizer tx, a) \<notin> set (live (sv_tasks ?s))" for i tx a
  proof
    assume "(i, Finalizer tx, a) \<in> set (live (sv_tasks ?s))"
    then have "(i, Finalizer tx, a) \<in> set (stop_where (\<lambda>_ _. True) (live (sv_tasks s)))" using d ts set_drain_live by fastforce
    then show False using other by (simp add: stop_where_mem)
  qed
  then have "finalizers_ok ?s" using none by (simp add: finalizers_ok_def drain_tasks_def split_beta)
  then show "supervisor_inv ?s \<and> \<not> drain_complete ?s"
    using inv d ts none by (intro tasks_change_inv [where f = False]) (simp_all add: drain_tasks_def split_beta)
  show "next_task_id (sv_tasks ?s) = next_task_id (sv_tasks s)" using d ts by simp
qed

lemma admission_inv:
  assumes inv: "supervisor_inv s" and ok: "admit env show_error id tx q (sv_shared s) = (Ok receipt, sh)"
  shows "supervisor_inv (s\<lparr>sv_shared := sh, sv_admitted := sv_admitted s @ [tx]\<rparr>)"
proof -
  let ?s = "s\<lparr>sv_shared := sh, sv_admitted := sv_admitted s @ [tx]\<rparr>"
  have good: "tasks_good (sv_tasks s)" "finalizers_ok s" "rows_ok s" "counts_ok s" "stop_ok s"
    using inv by (simp_all add: supervisor_inv_def)
  obtain eff where a: "sh_state (sv_shared s) = Accepting" "sh_state sh = Accepting"
    "insert_queued (queued_entry tx eff q) (max_distinct_sessions env (sub_channel q)) (sv_ledger s) = (None, sh_ledger sh)"
    using admit_cases [where env = env and show_error = show_error and tx = tx and r = q and sh = "sv_shared s"] ok
    by (auto dest: arg_cong [where f = sh_state])
  let ?e = "queued_entry tx eff q"
  have new: "row tx s = None" "row t ?s = (if t = tx then Some ?e else row t s)" for t
    using insert_queued_ok(1,2) [OF a(3)]
    by (auto simp: row_def ledger_get_def queued_entry_def map_add_def split: option.splits)
  have run: "\<not> sv_stopping s" "\<not> drain_complete s" using good(5) a(1) by (auto simp: stop_ok_def)
  have fin: "fin_of t ?s = fin_of t s" for t by (simp add: fin_of_def)
  have e: "entry_token ?e" "row_ok f None ?e" for f by (simp_all add: queued_entry_def entry_token_def row_ok_def)
  have none: "fin_of tx s = None" by (rule rows_okD(1) [OF good(3) new(1)])
  have "rows_ok ?s"
    using rows_okD [OF good(3)] e(2) none run by (intro rows_okI) (auto simp: new(2) fin split: if_splits)
  moreover have "sent_count t ?s + tokens t ?s = sent_count t s + tokens t s + (if t = tx then 1 else 0)" for t
    using new e none by (simp add: tokens_def fin row_token_def sent_count_def)
  moreover have "admitted_count t ?s = admitted_count t s + (if t = tx then 1 else 0)" for t by (simp add: admitted_count_def)
  ultimately have "rows_ok ?s" "counts_ok ?s" using good(4) by (simp_all add: counts_ok_def)
  moreover have "finalizers_ok ?s" using good(2) by (simp add: finalizers_ok_def)
  moreover have "stop_ok ?s" using run a(2) by (simp add: stop_ok_def)
  ultimately show ?thesis using good(1) by (simp add: supervisor_inv_def)
qed

lemma refusal_same: "admit env show_error id tx q sh = (Err e, sh') \<Longrightarrow> sh' = sh"
  using admit_cases [where env = env and show_error = show_error and tx = tx and r = q and sh = sh] by simp

lemma bind_same_row: "same_row (row t s) (row t (put_ledger (snd (bind_session tx k limit (sv_ledger s))) s))"
  by (auto simp: row_def put_ledger_def ledger_get_def bind_session_def same_row_def map_of_assoc_put Let_def split: option.split)

lemma put_ledger_fields [simp]:
  "sv_tasks (put_ledger L s) = sv_tasks s" "sv_finalizers (put_ledger L s) = sv_finalizers s" "sv_sent (put_ledger L s) = sv_sent s"
  "sv_admitted (put_ledger L s) = sv_admitted s" "sv_forced (put_ledger L s) = sv_forced s" "sv_stopping (put_ledger L s) = sv_stopping s"
  "sv_tools (put_ledger L s) = sv_tools s" "drain_complete (put_ledger L s) = drain_complete s"
  "sh_state (sv_shared (put_ledger L s)) = sh_state (sv_shared s)"
  by (simp_all add: put_ledger_def)

lemma owner_inv:
  assumes "supervisor_inv s"
  shows "supervisor_inv (to_quiescing s)" "supervisor_inv (snd (owner_begin_shutdown s))"
    "supervisor_inv (snd (snd (wait_stopped alive w s)))"
proof -
  show q: "supervisor_inv (to_quiescing s)"
  proof (cases "drain_complete s")
    case True
    then have "sh_state (sv_shared s) \<in> {Quiescing, Stopped}" using assms by (auto simp: supervisor_inv_def stop_ok_def)
    then have "to_quiescing s = s" by (auto simp: to_quiescing_def leave_accepting_def)
    with assms show ?thesis by simp
  next
    case False
    then have "stop_ok (to_quiescing s)"
      using assms by (auto simp: supervisor_inv_def stop_ok_def to_quiescing_def leave_accepting_def)
    then show ?thesis by (rule state_change_inv [OF assms]) (simp_all add: to_quiescing_def row_def)
  qed
  have g: "supervisor_inv (s\<lparr>shutdown_generation := n\<rparr>)" if "supervisor_inv s" for s n
    by (rule looks_same_inv [OF _ that]) (simp add: looks_same_def row_def)
  show b: "supervisor_inv (snd (owner_begin_shutdown s))" using g [OF q] q by (simp add: owner_begin_shutdown_def Let_def)
  have stopped: "supervisor_inv (s\<lparr>sv_shared := (sv_shared s)\<lparr>sh_state := Stopped\<rparr>\<rparr>)" if i: "supervisor_inv s" "drain_complete s" for s
  proof (rule state_change_inv [OF i(1)])
    show "stop_ok (s\<lparr>sv_shared := (sv_shared s)\<lparr>sh_state := Stopped\<rparr>\<rparr>)"
      using i by (auto simp: supervisor_inv_def stop_ok_def nothing_owned_def ledger_empty_def)
  qed (simp_all add: row_def)
  show "supervisor_inv (snd (snd (wait_stopped alive w s)))"
    using b assms stopped [OF b] stopped [OF assms] by (simp add: wait_stopped_def Let_def)
qed

lemma finish_stop_inv:
  assumes "supervisor_inv s" "sv_stopping s" "nothing_owned s"
  shows "supervisor_inv (finish_stop s)"
proof (rule state_change_inv [OF assms(1)])
  show "stop_ok (finish_stop s)"
    using assms by (auto simp: supervisor_inv_def stop_ok_def finish_stop_def Let_def nothing_owned_def ledger_empty_def)
qed (simp_all add: finish_stop_def Let_def row_def)

lemma abort_and_drain_next: "next_task_id (snd (abort_and_drain finished es ts)) = next_task_id ts"
proof -
  have "next_task_id (snd (drain_joins finished es ts)) = next_task_id ts" for ts
  proof (induction es arbitrary: ts)
    case (Cons e es)
    then show ?case using join_next_next [of finished e ts] by (auto split: option.split prod.split)
  qed simp
  from this [of "abort_all ts"] show ?thesis
    by (cases "drain_joins finished es (abort_all ts)"; cases "fst (drain_joins finished es (abort_all ts))")
      (simp_all add: abort_and_drain_def del: drain_joins.simps)
qed

lemma supervisor_step_inv:
  assumes fresh: "executor_fresh tokio" and step: "supervisor_step tokio env show_error s s'"
    and n: "next_task_id (sv_tasks s') < usize_max"
  shows "next_task_id (sv_tasks s) < usize_max \<and> (supervisor_inv s \<longrightarrow> supervisor_inv s')"
proof -
  have kept: "keeps f \<Longrightarrow> s' = f s \<Longrightarrow> \<not> drain_complete s \<Longrightarrow> ?thesis" for f
    using n by (auto simp: keeps_def)
  have same: "looks_same s s' \<Longrightarrow> ?thesis" using looks_same_inv [of s s'] n by (auto simp: looks_same_def)
  have fin_tasks: "sv_tasks (finalizer_step outcome r i s) = sv_tasks s" for outcome r i
    by (auto simp: finalizer_step_def fin_begin_def fin_finish_fields Let_def split_beta split: option.split finalizer_pc.split)
  from step show ?thesis
  proof cases
    case (worker m) then show ?thesis using kept [OF keeps_worker_exited [OF fresh]] by blast
  next
    case (control c) then show ?thesis using kept [OF keeps_control [OF fresh]] by blast
  next
    case control_closed then show ?thesis using kept [OF keeps_comp [OF keeps_begin_shutdown [OF fresh] keeps_force_abort]] by blast
  next
    case shutdown then show ?thesis using kept [OF keeps_begin_shutdown [OF fresh]] by blast
  next
    case (reaped finished es msgs) then show ?thesis using kept [OF keeps_reap [OF fresh]] by blast
  next
    case (spawned c) then show ?thesis using kept [OF keeps_register_spawn [OF fresh]] by blast
  next
    case (started tx) then show ?thesis using kept [OF keeps_start_received [OF fresh]] by blast
  next
    case counted then show ?thesis using kept [OF keeps_tools(1)] by blast
  next
    case (progress alive) then show ?thesis using kept [OF keeps_tools(3)] by blast
  next
    case (polled alive) then show ?thesis using kept [OF keeps_tools(2)] by blast
  next
    case (residuals tx) then show ?thesis using kept [OF keeps_residuals] by blast
  next
    case (idle tx) then show ?thesis using kept [OF keeps_clear_idle] by blast
  next
    case (grace tx) then show ?thesis using kept [OF keeps_past_grace [of tx]] by simp
  next
    case (drained finished es)
    then show ?thesis using abort_and_drain_next [of finished es "sv_tasks s"] drain_tasks_inv(1) [of s finished es] n
      by (auto simp: drain_tasks_def split_beta)
  next
    case stop then show ?thesis using finish_stop_inv [of s] n by (simp add: finish_stop_def Let_def)
  next
    case (finalizer outcome r i) then show ?thesis using finalizer_step_inv [of s outcome r i] n fin_tasks by simp
  next
    case (admission tx q receipt sh) then show ?thesis using admission_inv [of s env show_error tx q receipt sh] n by simp
  next
    case (refusal tx q e sh) then show ?thesis using refusal_same [of env show_error tx q "sv_shared s" e sh] n by auto
  next
    case (proposal tx p)
    show ?thesis unfolding proposal
      by (rule same [unfolded proposal]) (rule on_row_looks_same, simp add: same_row_def)
  next
    case (binding tx k) then show ?thesis using same bind_same_row [of _ s tx k "max_distinct_sessions env (key_channel k)"] by (simp add: looks_same_def)
  next
    case (start_taken tx rest) then show ?thesis using same by (simp add: looks_same_def row_def)
  next
    case (tools t m) then show ?thesis using same by (simp add: looks_same_def row_def)
  next
    case (routes r) then show ?thesis using same by (simp add: looks_same_def row_def)
  next
    case owner_shutdown
    have "sv_tasks (snd (owner_begin_shutdown s)) = sv_tasks s" by (simp add: owner_begin_shutdown_def to_quiescing_def Let_def)
    with owner_shutdown show ?thesis using owner_inv(2) [of s] n by simp
  next
    case (owner_wait alive w)
    have "sv_tasks (snd (snd (wait_stopped alive w s))) = sv_tasks s"
      by (simp add: wait_stopped_def owner_begin_shutdown_def to_quiescing_def Let_def)
    with owner_wait show ?thesis using owner_inv(3) [of s alive w] n by simp
  qed
qed

lemma supervisor_new_inv:
  assumes "by_transaction (sh_ledger sh) = []" "sh_state sh \<noteq> Stopped"
  shows "supervisor_inv (supervisor_new sh tools routes)"
proof -
  have "row tx (supervisor_new sh tools routes) = None" for tx
    using assms(1) by (simp add: row_def supervisor_new_def ledger_get_def)
  moreover have "live tasks_new = []" by (simp add: tasks_new_def live_def)
  ultimately show ?thesis
    using assms(2) by (simp add: supervisor_inv_def finalizers_ok_def rows_ok_def counts_ok_def stop_ok_def tokens_def
        row_token_def sent_count_def admitted_count_def fin_of_def) (simp add: supervisor_new_def tasks_good_new)
qed

lemma supervisor_reach_inv:
  assumes "executor_fresh tokio" "by_transaction (sh_ledger sh) = []" "sh_state sh \<noteq> Stopped"
    and "supervisor_reach tokio env show_error (supervisor_new sh tools routes) s" "next_task_id (sv_tasks s) < usize_max"
  shows "supervisor_inv s"
  using assms(4,5)
proof (induction rule: supervisor_reach.induct)
  case start
  show ?case by (rule supervisor_new_inv [OF assms(2,3)])
next
  case (step s s')
  with supervisor_step_inv [OF assms(1) step(2)] show ?case by blast
qed


end
