(* ===== verification/Shutdown.thy ===== *)
theory Shutdown
  imports Supervisor_Runs
begin

text \<open>
  What the invariant of the supervisor gives: one completion for every admission, a stop that
  leaves nothing behind, the laps of the loop as sequences of the steps these theorems quantify
  over, the limits of admission under the supervisor, and what a forced stop loses.
\<close>

section \<open>One completion for every admission\<close>

text \<open>
  C2. However admissions, cancellations, forced terminations, shutdown, panicking or aborted
  tasks, late messages and the steps of the finalizers are interleaved, no admitted transaction
  is ever sent more than one completion; and as long as nobody has forced the supervisor to
  abort all tasks, a transaction that has left the ledger has been sent exactly one for every
  time it was admitted, and one that is still there at most one less.
\<close>

theorem one_completion_per_admission:
  assumes "executor_fresh tokio" and "by_transaction (sh_ledger sh) = []" and "sh_state sh \<noteq> Stopped"
    and "supervisor_reach tokio env show_error (supervisor_new sh tools routes) s"
    and "next_task_id (sv_tasks s) < usize_max"
  shows "sent_count tx s \<le> admitted_count tx s
    \<and> (\<not> sv_forced s \<longrightarrow> row tx s = None \<longrightarrow> sent_count tx s = admitted_count tx s)
    \<and> (\<not> sv_forced s \<longrightarrow> admitted_count tx s \<le> sent_count tx s + 1)"
proof -
  have inv: "rows_ok s" "counts_ok s"
    using supervisor_reach_inv [OF assms] by (simp_all add: supervisor_inv_def)
  have le: "sent_count tx s + tokens tx s \<le> admitted_count tx s"
    and eq: "\<not> sv_forced s \<Longrightarrow> sent_count tx s + tokens tx s = admitted_count tx s"
    using inv(2) by (simp_all add: counts_ok_def)
  have gone: "row tx s = None \<Longrightarrow> tokens tx s = 0"
    using rows_okD(1) [OF inv(1), of tx] by (simp add: tokens_def row_token_def)
  have "pc_token (fin_of tx s) \<le> 1" by (cases "fin_of tx s" rule: pc_token.cases) simp_all
  moreover have "row_token (row tx s) \<le> 1" by (simp add: row_token_def split: option.split)
  moreover have "pc_token (fin_of tx s) = 1 \<Longrightarrow> row_token (row tx s) = 0"
    using rows_okD [OF inv(1), of tx]
    by (cases "fin_of tx s" rule: pc_token.cases; cases "row tx s")
      (auto simp: row_token_def row_ok_def split: option.splits)
  ultimately have "tokens tx s \<le> 1" by (auto simp: tokens_def le_Suc_eq)
  with le eq gone show ?thesis by fastforce
qed

text \<open>
  C6. The runtime reports that it has drained, and is called stopped, only when it owns nothing:
  the ledger is empty, every join of every task has been observed, no index holds anything of a
  task, every child process has been reaped, and, unless all tasks were aborted by force, every
  transaction that was ever admitted has been sent its completion.
\<close>

theorem stopped_owns_nothing:
  assumes "executor_fresh tokio" and "by_transaction (sh_ledger sh) = []" and "sh_state sh \<noteq> Stopped"
    and "supervisor_reach tokio env show_error (supervisor_new sh tools routes) s"
    and "next_task_id (sv_tasks s) < usize_max"
    and "drain_complete s \<or> sh_state (sv_shared s) = Stopped"
  shows "drain_complete s \<and> by_transaction (sv_ledger s) = [] \<and> joins (sv_tasks s) = [] \<and> metas (sv_tasks s) = []
    \<and> (\<forall>tx. tasks_for tx (sv_tasks s) = []) \<and> owned_children (sv_tools s) = [] \<and> sv_finalizers s = []
    \<and> (\<not> sv_forced s \<longrightarrow> (\<forall>tx. sent_count tx s = admitted_count tx s))"
proof -
  have inv: "supervisor_inv s" by (rule supervisor_reach_inv [OF assms(1-5)])
  then have d: "drain_complete s" using assms(6) by (auto simp: supervisor_inv_def stop_ok_def)
  with inv have own: "nothing_owned s" by (simp add: supervisor_inv_def stop_ok_def)
  have fin: "sv_finalizers s = []" by (rule no_finalizer_when_drained [OF inv d])
  have good: "tasks_good (sv_tasks s)" "counts_ok s" using inv by (simp_all add: supervisor_inv_def)
  have "row tx s = None" for tx using own by (simp add: nothing_owned_def ledger_empty_row)
  then have "tokens tx s = 0" for tx by (simp add: tokens_def row_token_def fin_of_def fin)
  then have "\<not> sv_forced s \<longrightarrow> (\<forall>tx. sent_count tx s = admitted_count tx s)" using good(2) by (simp add: counts_ok_def)
  moreover have "set (tasks_for tx (sv_tasks s)) = {}" for tx
    using good(1) own unfolding tasks_good_def by (simp add: nothing_owned_def tasks_empty_def live_def live_of_def)
  ultimately show ?thesis using own d fin by (simp add: nothing_owned_def ledger_empty_def tasks_empty_def)
qed

section \<open>Laps\<close>

text \<open>No handler ends the loop by itself.\<close>

definition goes_on :: "(supervisor_state \<Rightarrow> supervisor_state) \<Rightarrow> bool" where
  "goes_on f \<longleftrightarrow> (\<forall>s. drain_complete (f s) = drain_complete s)"

lemma goes_onD: "goes_on f \<Longrightarrow> drain_complete (f s) = drain_complete s"
  by (simp add: goes_on_def)

lemma goes_on_fold: "(\<And>x. goes_on (f x)) \<Longrightarrow> goes_on (fold f xs)"
  by (induction xs) (simp_all add: goes_on_def)

lemma goes_on_accept: "goes_on (accept_terminal tokio tx p force)"
  by (simp add: goes_on_def accept_terminal_def spawn_finalizer_def Let_def split_beta split: option.split)

lemma goes_on_begin_shutdown: "goes_on (begin_shutdown_inner tokio)"
proof -
  have "goes_on (shut_down_transaction tokio tx)" for tx
    using goes_onD [OF goes_on_accept] by (simp add: goes_on_def shut_down_transaction_def)
  then have "goes_on (fold (shut_down_transaction tokio) ids)" for ids by (rule goes_on_fold)
  then show ?thesis by (simp add: goes_on_def begin_shutdown_unfold signal_mcp_shutdown_def to_quiescing_def)
qed

lemma goes_on_control: "goes_on (control_received tokio c)"
  using goes_onD [OF goes_on_accept] goes_onD [OF goes_on_begin_shutdown]
  by (cases c) (simp_all add: goes_on_def force_abort_def)

lemma goes_on_worker: "goes_on (worker_exited tokio m)"
  by (simp add: worker_exited_def split_beta goes_on_accept)

lemma goes_on_try_remove: "goes_on (try_remove_tombstone tx)"
  by (simp add: goes_on_def try_remove_tombstone_def split: option.split)

lemma goes_on_exit: "goes_on (handle_exit tokio x)"
proof -
  have "goes_on (recover_terminal tokio tx exit)" for tx exit
    using goes_onD [OF goes_on_accept] by (simp add: goes_on_def recover_terminal_unfold split: option.split)
  then have "goes_on (on_task_exit tokio c exit)" for c exit
    using goes_onD [OF goes_on_try_remove] by (simp add: goes_on_def on_task_exit_def Let_def split: option.split)
  then show ?thesis by (simp add: goes_on_def handle_exit_def note_connector_owner_exit_def split_beta)
qed

lemma goes_on_reap: "goes_on (reap tokio finished es msgs)"
proof -
  have "drain_complete (snd (observe_end finished e s)) = drain_complete s" for e s
    by (cases e) (simp add: observe_end_def Let_def split_beta split: option.split)
  then have "drain_complete (snd (observe_ends finished es s)) = drain_complete s" for s
    by (induction es arbitrary: s) (simp_all add: split_beta)
  moreover have "goes_on (fold (handle_exit tokio) items)" "goes_on (fold (worker_exited tokio) msgs)" for items
    by (rule goes_on_fold, rule goes_on_exit goes_on_worker)+
  ultimately show ?thesis by (simp add: goes_on_def reap_def split_beta)
qed

lemma goes_on_spawn: "goes_on (register_spawn tokio c)"
  by (simp add: goes_on_def register_spawn_def note_connector_owner_spawn_def)

lemma goes_on_tools: "goes_on store_owned_tasks" "goes_on (poll_children alive)" "goes_on (shutdown_progress alive)"
  by (simp_all add: goes_on_def store_owned_tasks_def poll_children_def shutdown_progress_def)

lemma goes_on_quiet: "goes_on (on_tasks g)" "goes_on (clear_idle tx)" "goes_on (past_grace tx)"
  using goes_onD [OF goes_on_try_remove]
  by (simp_all add: goes_on_def clear_idle_def past_grace_def force_remove_tombstone_def Let_def)

text \<open>A function that is a step of the supervisor, and compositions of such functions.\<close>

definition stepping ::
  "(nat list \<Rightarrow> nat) \<Rightarrow> admission_env \<Rightarrow> (config_error \<Rightarrow> string) \<Rightarrow> (supervisor_state \<Rightarrow> supervisor_state) \<Rightarrow> bool" where
  "stepping tokio env show_error f \<longleftrightarrow>
     (\<forall>s0 s. supervisor_reach tokio env show_error s0 s \<longrightarrow> \<not> drain_complete s \<longrightarrow>
        supervisor_reach tokio env show_error s0 (f s) \<and> \<not> drain_complete (f s))"

lemma steppingI:
  "goes_on f \<Longrightarrow> (\<And>s. \<not> drain_complete s \<Longrightarrow> supervisor_step tokio env show_error s (f s)) \<Longrightarrow> stepping tokio env show_error f"
  unfolding stepping_def goes_on_def by (blast intro: supervisor_reach.step)

lemma steppingD:
  "stepping tokio env show_error f \<Longrightarrow> supervisor_reach tokio env show_error s0 s \<Longrightarrow> \<not> drain_complete s \<Longrightarrow>
    supervisor_reach tokio env show_error s0 (f s) \<and> \<not> drain_complete (f s)"
  unfolding stepping_def by blast

lemma stepping_comp:
  "stepping tokio env show_error f \<Longrightarrow> stepping tokio env show_error g \<Longrightarrow> stepping tokio env show_error (\<lambda>s. g (f s))"
  unfolding stepping_def by blast

lemma stepping_if:
  "stepping tokio env show_error f \<Longrightarrow> stepping tokio env show_error g \<Longrightarrow>
    stepping tokio env show_error (\<lambda>s. if P s then f s else g s)"
  unfolding stepping_def by (simp split: if_split)

lemma stepping_id: "stepping tokio env show_error (\<lambda>s. s)"
  by (simp add: stepping_def)

lemma stepping_fold:
  "(\<And>x. x \<in> set xs \<Longrightarrow> stepping tokio env show_error (f x)) \<Longrightarrow> stepping tokio env show_error (fold f xs)"
proof (induction xs)
  case (Cons x xs)
  have "stepping tokio env show_error (\<lambda>s. fold f xs (f x s))"
    by (rule stepping_comp) (use Cons in auto)
  then show ?case by (simp add: comp_def)
qed (simp add: stepping_def)

lemma stepping_handlers:
  "stepping tokio env show_error (worker_exited tokio m)" "stepping tokio env show_error (control_received tokio c)"
  "stepping tokio env show_error (reap tokio finished es msgs)" "stepping tokio env show_error store_owned_tasks"
  "stepping tokio env show_error (begin_shutdown_inner tokio)" "stepping tokio env show_error (shutdown_progress alive)"
  "stepping tokio env show_error (poll_children alive)" "stepping tokio env show_error (on_tasks (abort_transaction_residuals tx))"
  "stepping tokio env show_error (clear_idle tx)"
  "\<not> is_finalizer class \<Longrightarrow> stepping tokio env show_error (register_spawn tokio class)"
  by (rule steppingI; simp add: goes_on_worker goes_on_control goes_on_reap goes_on_tools goes_on_begin_shutdown
      goes_on_quiet goes_on_spawn supervisor_step.worker supervisor_step.control supervisor_step.reaped supervisor_step.counted
      supervisor_step.shutdown supervisor_step.progress supervisor_step.polled supervisor_step.residuals supervisor_step.idle
      supervisor_step.spawned)+

lemma stepping_past_grace: "stepping tokio env show_error (\<lambda>s. if sv_stopping s then past_grace tx s else s)"
  unfolding stepping_def
  using supervisor_reach.step [OF _ supervisor_step.grace] goes_onD [OF goes_on_quiet(3)] by simp

lemma stopping_kept [simp]:
  "sv_stopping (past_grace tx s) = sv_stopping s" "sv_stopping (clear_idle tx s) = sv_stopping s"
  "sv_stopping (shutdown_progress alive s) = sv_stopping s" "sv_stopping (poll_children alive s) = sv_stopping s"
  by (simp_all add: past_grace_def clear_idle_def force_remove_tombstone_def shutdown_progress_def poll_children_def Let_def)

lemma stopping_kept_fold: "(\<And>x s. sv_stopping (f x s) = sv_stopping s) \<Longrightarrow> sv_stopping (fold f xs s) = sv_stopping s"
  by (induction xs arbitrary: s) simp_all

lemma past_graces:
  "sv_stopping s \<Longrightarrow> fold past_grace ids s = fold (\<lambda>tx s. if sv_stopping s then past_grace tx s else s) ids s"
  by (induction ids arbitrary: s) simp_all

lemma quiesce_steps:
  assumes "supervisor_reach tokio env show_error s0 s" "\<not> drain_complete s" "sv_stopping s"
  shows "supervisor_reach tokio env show_error s0 (quiesce alive grace_over s) \<and> \<not> drain_complete (quiesce alive grace_over s)
    \<and> sv_stopping (quiesce alive grace_over s)"
proof -
  let ?p = "shutdown_progress alive s"
  let ?ids = "transaction_ids (sv_ledger ?p)"
  let ?q = "fold clear_idle ?ids (fold (\<lambda>tx. on_tasks (abort_transaction_residuals tx)) ?ids ?p)"
  have "stepping tokio env show_error (\<lambda>s. fold clear_idle ?ids (fold (\<lambda>tx. on_tasks (abort_transaction_residuals tx)) ?ids (shutdown_progress alive s)))"
    by (intro stepping_comp [OF stepping_comp [OF stepping_handlers(6)]] stepping_fold stepping_handlers)
  from steppingD [OF this assms(1,2)]
  have q: "supervisor_reach tokio env show_error s0 ?q" "\<not> drain_complete ?q" by simp_all
  have st: "sv_stopping ?q" using assms(3) by (simp add: stopping_kept_fold)
  have "stepping tokio env show_error (fold (\<lambda>tx s. if sv_stopping s then past_grace tx s else s) ids)" for ids
    by (intro stepping_fold stepping_past_grace)
  from steppingD [OF this q] show ?thesis
    using q st past_graces [OF st] by (simp add: quiesce_def Let_def stopping_kept_fold)
qed

lemma try_stop_steps:
  assumes reach: "supervisor_reach tokio env show_error s0 s" and run: "\<not> drain_complete s"
  shows "supervisor_reach tokio env show_error s0 (try_stop tokio inp s)"
proof (cases "sv_stopping s \<and> ledger_empty s")
  case False
  with reach show ?thesis by (simp add: try_stop_def)
next
  case True
  let ?w = "fold (worker_exited tokio) (in_late_worker inp) s"
  have "stepping tokio env show_error (fold (worker_exited tokio) (in_late_worker inp))"
    by (intro stepping_fold stepping_handlers)
  from steppingD [OF this reach run] have w: "supervisor_reach tokio env show_error s0 ?w" "\<not> drain_complete ?w" by simp_all
  have keeps_stopping: "sv_stopping (worker_exited tokio m s) = sv_stopping s" for m s
    by (simp add: worker_exited_def split_beta accept_terminal_def spawn_finalizer_def Let_def split: option.split)
  have st: "sv_stopping ?w" using True by (simp add: stopping_kept_fold keeps_stopping)
  have poll: "supervisor_reach tokio env show_error s0 (poll_children a (shutdown_progress b s))
      \<and> \<not> drain_complete (poll_children a (shutdown_progress b s))"
    if "supervisor_reach tokio env show_error s0 s" "\<not> drain_complete s" for a b s
    using steppingD [OF stepping_comp [OF stepping_handlers(6) stepping_handlers(7)] that] .
  have stop: "supervisor_reach tokio env show_error s0 (finish_stop s)"
    if "supervisor_reach tokio env show_error s0 s" "\<not> drain_complete s" "sv_stopping s" "nothing_owned s" for s
    using supervisor_reach.step [OF that(1) supervisor_step.stop] that by blast
  let ?p = "poll_children (in_alive inp 2) (shutdown_progress (in_alive inp 1) ?w)"
  obtain b d where d: "drain_tasks (in_finished inp) (in_drained inp) ?p = (b, d)" by (cases "drain_tasks (in_finished inp) (in_drained inp) ?p")
  have le: "ledger_empty ?p = ledger_empty ?w" by (simp add: poll_children_def shutdown_progress_def ledger_empty_def)
  have dr: "supervisor_reach tokio env show_error s0 d" "\<not> drain_complete d" "sv_stopping d" if "ledger_empty ?w"
  proof -
    have p: "supervisor_reach tokio env show_error s0 ?p" "\<not> drain_complete ?p" using poll [OF w] by blast+
    have "supervisor_step tokio env show_error ?p (snd (drain_tasks (in_finished inp) (in_drained inp) ?p))"
      by (rule supervisor_step.drained) (use p that le in auto)
    then show "supervisor_reach tokio env show_error s0 d" using supervisor_reach.step [OF p(1)] d by simp
    show "\<not> drain_complete d" "sv_stopping d" using d p(2) st by (auto simp: drain_tasks_def split_beta)
  qed
  show ?thesis
    using True w st d poll [OF w] stop [of ?p] dr stop [of "poll_children (in_alive inp 4) (shutdown_progress (in_alive inp 3) d)"]
      poll [of d] steppingD [OF stepping_handlers(4), of tokio env show_error s0 d]
    by (simp add: try_stop_def Let_def split: bool.split)
qed

definition no_finalizer_asked :: "lap_inputs \<times> select_event \<Rightarrow> bool" where
  "no_finalizer_asked = (\<lambda>(inp, sel). list_all (\<lambda>c. \<not> is_finalizer c) (in_spawn inp)
     \<and> (case sel of SelSpawn (Some c) \<Rightarrow> \<not> is_finalizer c | _ \<Rightarrow> True))"

lemma select_steps:
  assumes "case sel of SelSpawn (Some c) \<Rightarrow> \<not> is_finalizer c | _ \<Rightarrow> True"
    and reach: "supervisor_reach tokio env show_error s0 s" and run: "\<not> drain_complete s"
  shows "supervisor_reach tokio env show_error s0 (select_step tokio finished sel s)"
proof -
  note one = supervisor_reach.step [OF reach]
  show ?thesis
  proof (cases "(tokio, finished, sel, s)" rule: select_step.cases)
    case 1 then show ?thesis using one [OF supervisor_step.control_closed [OF run]] by simp
  next
    case (2 _ _ c) then show ?thesis using one [OF supervisor_step.control [OF run]] by simp
  next
    case (4 _ _ m) then show ?thesis using one [OF supervisor_step.worker [OF run]] by simp
  next
    case (6 _ _ tx) then show ?thesis using one [OF supervisor_step.started [OF run]] by simp
  next
    case (7 _ _ c) then show ?thesis using one [OF supervisor_step.spawned [OF run]] assms(1) by simp
  next
    case (11 _ _ msgs e) then show ?thesis using one [OF supervisor_step.reaped [OF run]] by simp
  qed (use reach one [OF supervisor_step.shutdown [OF run]] in simp_all)
qed

text \<open>
  C28. The loop itself is one of the runs the theorems of this component quantify over: every lap,
  with its drains, its quiescing part, its attempt to stop and the branch its wait ends with, is a
  sequence of the steps of the supervisor, whatever the queues deliver.
\<close>

theorem laps_are_steps:
  assumes "list_all no_finalizer_asked laps"
  shows "supervisor_reach tokio env show_error s (run_supervisor tokio laps s)"
  using assms unfolding run_supervisor_def
proof (induction laps rule: rev_induct)
  case Nil
  show ?case by (simp add: supervisor_reach.start)
next
  case (snoc lap laps)
  obtain inp sel where lap: "lap = (inp, sel)" by (cases lap)
  let ?s = "fold (supervisor_lap tokio) laps s"
  have reach: "supervisor_reach tokio env show_error s ?s" using snoc by simp
  have asked: "list_all (\<lambda>c. \<not> is_finalizer c) (in_spawn inp)" "case sel of SelSpawn (Some c) \<Rightarrow> \<not> is_finalizer c | _ \<Rightarrow> True"
    using snoc.prems by (simp_all add: lap no_finalizer_asked_def)
  show ?case
  proof (cases "drain_complete ?s")
    case True
    with reach show ?thesis by (simp add: lap supervisor_lap_def)
  next
    case False
    let ?f = "\<lambda>s. store_owned_tasks (fold (register_spawn tokio) (in_spawn inp)
      (reap tokio (in_finished inp) (in_ended inp) [] (fold (control_received tokio) (in_control inp) (fold (worker_exited tokio) (in_worker inp) s))))"
    let ?g = "\<lambda>s. if \<not> sv_stopping s \<and> sh_state (sv_shared s) = Quiescing then begin_shutdown_inner tokio s else s"
    have k: "stepping tokio env show_error (fold (worker_exited tokio) (in_worker inp))"
      "stepping tokio env show_error (fold (control_received tokio) (in_control inp))"
      "stepping tokio env show_error (fold (register_spawn tokio) (in_spawn inp))"
      by (rule stepping_fold, use asked(1) in \<open>simp add: stepping_handlers list_all_iff\<close>)+
    have kg: "stepping tokio env show_error ?g" by (rule stepping_if [OF stepping_handlers(5) stepping_id])
    note f = stepping_comp [OF stepping_comp [OF stepping_comp [OF stepping_comp [OF k(1) k(2)] stepping_handlers(3)] k(3)] stepping_handlers(4)]
    have "stepping tokio env show_error (\<lambda>s. ?g (?f s))" by (rule stepping_comp [OF f kg])
    from steppingD [OF this reach False]
    have h: "supervisor_reach tokio env show_error s (?g (?f ?s))" "\<not> drain_complete (?g (?f ?s))" by blast+
    let ?q = "if sv_stopping (?g (?f ?s)) then quiesce (in_alive inp 0) (in_grace_over inp) (?g (?f ?s)) else ?g (?f ?s)"
    have q: "supervisor_reach tokio env show_error s ?q" "\<not> drain_complete ?q"
      using quiesce_steps [OF h, of "in_alive inp 0" "in_grace_over inp"] h by (simp_all split: if_split)
    have "supervisor_reach tokio env show_error s (lap_head tokio inp ?s)"
      using try_stop_steps [OF q, of inp] by (simp only: lap_head_def Let_def)
    then show ?thesis using False select_steps [OF asked(2)] by (simp add: lap supervisor_lap_def Let_def)
  qed
qed

section \<open>A run\<close>

definition no_tools :: dispatch_state where
  "no_tools = \<lparr>ds_capacity = tool_capacity_new 1 0 1 1, orphan_permits = [], owned_children = []\<rparr>"

definition fresh_runtime :: supervisor_state where
  "fresh_runtime = supervisor_new one_slot no_tools None"

lemma executor_fresh_unused: "executor_fresh unused_id"
  by (simp add: executor_fresh_def unused_id_fresh)

abbreviation runs_to :: "supervisor_state \<Rightarrow> bool" where
  "runs_to s \<equiv> supervisor_reach unused_id one_channel (\<lambda>_. []) fresh_runtime s"

text \<open>One transaction is admitted.\<close>

lemma one_admitted:
  obtains eff sh where "runs_to (fresh_runtime\<lparr>sv_shared := sh, sv_admitted := [''t'']\<rparr>)"
    "by_transaction (sh_ledger sh) = [(''t'', queued_entry ''t'' eff plain_request)]" "by_session (sh_ledger sh) = []"
    "sh_state sh = Accepting"
proof -
  obtain eff where e: "admit_checks one_channel (\<lambda>_. []) default_transaction_limits plain_request = Ok eff"
    using plain_request_checked by blast
  have "room ''c'' (sh_pool one_slot)" by (simp add: room_def one_slot_def channel_max_def channel_active_def)
  then obtain sh where a: "admit one_channel (\<lambda>_. []) id ''t'' plain_request one_slot
      = (Ok \<lparr>receipt_transaction = ''t'', receipt_session = None\<rparr>, sh)"
    "by_transaction (sh_ledger sh) = [(''t'', queued_entry ''t'' eff plain_request)]" "by_session (sh_ledger sh) = []" "sh_state sh = Accepting"
    using e reserve_alone [of "''c''" "sh_pool one_slot"]
    by (simp add: admit_def admit_locked_def try_send_start_def insert_queued_def queued_entry_def request_session_key_def
        one_slot_def plain_request_def ledger_new_def Let_def)
  have "supervisor_step unused_id one_channel (\<lambda>_. []) fresh_runtime (fresh_runtime\<lparr>sv_shared := sh, sv_admitted := [''t'']\<rparr>)"
    using supervisor_step.admission [of one_channel "\<lambda>_. []" "''t''" plain_request fresh_runtime] a(1)
    by (simp add: fresh_runtime_def supervisor_new_def)
  with that [OF supervisor_reach.step [OF supervisor_reach.start]] a show ?thesis by blast
qed

lemmas run_defs =
  fresh_runtime_def supervisor_new_def tasks_new_def accept_terminal_def spawn_finalizer_def task_spawn_def decide_def
  finalizer_step_def fin_begin_def fin_finish_def on_row_def put_ledger_def ledger_get_def ledger_modify_def Let_def
  on_tasks_def tasks_for_def set_insert_def

definition cancelled :: "supervisor_state \<Rightarrow> supervisor_state" where
  "cancelled s = finalizer_step SealReplyTimeout CompletionSent 1
     (finalizer_step SealReplyTimeout CompletionSent 1 (control_received unused_id (CancelCommand ''t'') s))"

lemma cancelled_run:
  obtains s where "runs_to s" "sv_admitted s = [''t'']" "sent_count ''t'' s = 1" "row ''t'' s = None" "\<not> sv_forced s"
    "next_task_id (sv_tasks s) = 2" "nothing_owned s" "\<not> drain_complete s"
proof -
  obtain eff sh where a: "runs_to (fresh_runtime\<lparr>sv_shared := sh, sv_admitted := [''t'']\<rparr>)"
    "by_transaction (sh_ledger sh) = [(''t'', queued_entry ''t'' eff plain_request)]" "by_session (sh_ledger sh) = []" "sh_state sh = Accepting"
    using one_admitted .
  let ?s1 = "fresh_runtime\<lparr>sv_shared := sh, sv_admitted := [''t'']\<rparr>"
  let ?s2 = "cancelled ?s1"
  let ?s3 = "reap unused_id (\<lambda>_. False) [(0, Returned ExitCompleted)] [] ?s2"
  have r2: "runs_to ?s2"
    unfolding cancelled_def
    by (intro supervisor_reach.step [OF _ supervisor_step.finalizer] supervisor_reach.step [OF a(1) supervisor_step.control])
      (simp add: fresh_runtime_def supervisor_new_def)
  have s2: "sv_tasks ?s2 = \<lparr>joins = [(1, 1)], metas = [(1, \<lparr>meta_class = Finalizer ''t'', abort_requested = False, meta_tokio = 1\<rparr>)],
      tasks_by_transaction = [(''t'', [1])], by_tokio_id = [(1, 1)], next_task_id = 2\<rparr>"
    "sv_finalizers ?s2 = [(1, FinDone ''t'')]" "sent_count ''t'' ?s2 = 1" "sv_admitted ?s2 = [''t'']" "\<not> sv_forced ?s2"
    "\<not> drain_complete ?s2" "owned_children (sv_tools ?s2) = []"
    "\<exists>e. by_transaction (sv_ledger ?s2) = [(''t'', e)] \<and> entry_phase e = CleanupPendingPhase"
    using a(2,3,4) by (simp_all add: cancelled_def run_defs queued_entry_def plain_request_def unused_id_def saturating_add_def
        usize_max_def sent_count_def no_tools_def count_completion_def truncated_kind_def)
  from s2(8) obtain e where e: "by_transaction (sv_ledger ?s2) = [(''t'', e)]" "entry_phase e = CleanupPendingPhase" by blast
  let ?o = "?s2\<lparr>sv_tasks := \<lparr>joins = [], metas = [], tasks_by_transaction = [], by_tokio_id = [], next_task_id = 2\<rparr>, sv_finalizers := []\<rparr>"
  have "may_end 0 (Returned ExitCompleted) ?s2" by (simp add: may_end_def s2)
  moreover have "join_next (\<lambda>_. False) (0, Returned ExitCompleted) (sv_tasks ?s2)
      = (Some (1, Finalizer ''t'', ExitCompleted), \<lparr>joins = [], metas = [], tasks_by_transaction = [], by_tokio_id = [], next_task_id = 2\<rparr>)"
    by (simp add: s2 join_next_def take_join_def reap_finished_def deregister_def without_def assoc_del_def)
  ultimately have "observe_end (\<lambda>_. False) (0, Returned ExitCompleted) ?s2 = (Some (1, Finalizer ''t'', ExitCompleted), ?o)"
    by (simp add: observe_end_def s2 assoc_del_def)
  then have s3: "?s3 = remove_row ''t'' ?o"
    using e by (simp add: reap_def handle_exit_def note_connector_owner_exit_def on_task_exit_def tasks_for_def
        try_remove_tombstone_def ledger_get_def)
  have empty: "row t ?s3 = None" for t unfolding s3 row_remove using e by (simp add: row_def ledger_get_def)
  show ?thesis
  proof (rule that)
    show "runs_to ?s3" by (rule supervisor_reach.step [OF r2 supervisor_step.reaped]) (simp add: s2)
    show "row ''t'' ?s3 = None" by (rule empty)
    show "nothing_owned ?s3" unfolding nothing_owned_def ledger_empty_row
      by (simp add: empty, simp add: s3 s2 tasks_empty_def)
  qed (use s2 in \<open>simp_all add: s3 sent_count_def\<close>)
qed

theorem one_completion_per_admission_witness:
  "\<exists>s. runs_to s \<and> sv_admitted s = [''t''] \<and> row ''t'' s = None \<and> sent_count ''t'' s = 1 \<and> admitted_count ''t'' s = 1"
proof -
  obtain s where s: "runs_to s" "sv_admitted s = [''t'']" "row ''t'' s = None" "\<not> sv_forced s" "next_task_id (sv_tasks s) = 2"
    using cancelled_run by metis
  have "sent_count ''t'' s = admitted_count ''t'' s"
    using one_completion_per_admission [of unused_id one_slot one_channel "\<lambda>_. []" no_tools None s "''t''"] s executor_fresh_unused
    by (simp add: fresh_runtime_def one_slot_def ledger_new_def usize_max_def)
  moreover have "admitted_count ''t'' s = 1" using s(2) by (simp add: admitted_count_def)
  ultimately show ?thesis using s by auto
qed

theorem stopped_owns_nothing_witness:
  "\<exists>s. runs_to s \<and> drain_complete s \<and> joins (sv_tasks s) = [] \<and> sv_admitted s = [''t''] \<and> sent_count ''t'' s = admitted_count ''t'' s"
proof -
  obtain s where s: "runs_to s" "sv_admitted s = [''t'']" "\<not> sv_forced s" "next_task_id (sv_tasks s) = 2" "nothing_owned s" "\<not> drain_complete s"
    using cancelled_run by metis
  let ?b = "begin_shutdown_inner unused_id s" and ?f = "finish_stop (begin_shutdown_inner unused_id s)"
  have empty: "transaction_ids (sv_ledger s) = []" using s(5) by (simp add: nothing_owned_def ledger_empty_def transaction_ids_def)
  have b: "?b = (signal_mcp_shutdown (to_quiescing s))\<lparr>sv_stopping := True\<rparr>" by (simp add: begin_shutdown_unfold empty)
  have "runs_to ?b" by (rule supervisor_reach.step [OF s(1) supervisor_step.shutdown [OF s(6)]])
  moreover have "\<not> drain_complete ?b" "sv_stopping ?b" "nothing_owned ?b"
    using s(5,6) by (simp_all add: b signal_mcp_shutdown_def to_quiescing_def nothing_owned_def ledger_empty_def)
  ultimately have r: "runs_to ?f" by (rule supervisor_reach.step [OF _ supervisor_step.stop])
  have f: "drain_complete ?f" "sv_admitted ?f = [''t'']" "\<not> sv_forced ?f" "next_task_id (sv_tasks ?f) = 2"
    using s by (simp_all add: b finish_stop_def Let_def signal_mcp_shutdown_def to_quiescing_def)
  have "joins (sv_tasks ?f) = [] \<and> sent_count ''t'' ?f = admitted_count ''t'' ?f"
    using stopped_owns_nothing [of unused_id one_slot one_channel "\<lambda>_. []" no_tools None ?f] r f executor_fresh_unused
    by (simp add: fresh_runtime_def one_slot_def ledger_new_def usize_max_def)
  with r f show ?thesis by blast
qed

theorem laps_are_steps_witness:
  "\<exists>inp. in_control inp = [BeginShutdown] \<and> runs_to (run_supervisor unused_id [(inp, SelTick)] fresh_runtime)"
proof -
  let ?inp = "\<lparr>in_worker = [], in_control = [BeginShutdown], in_ended = [], in_spawn = [RuntimeService], in_grace_over = False,
    in_late_worker = [], in_drained = [], in_finished = (\<lambda>_. False), in_alive = (\<lambda>_ _. True)\<rparr>"
  have "list_all no_finalizer_asked [(?inp, SelTick)]" by (simp add: no_finalizer_asked_def)
  from laps_are_steps [OF this] show ?thesis by (intro exI [of _ ?inp]) simp
qed

section \<open>The limits of admission under the supervisor\<close>

text \<open>
  What a step does to the part of the state that admission works on is a run of the runtime of
  \<open>Admission\<close>.
\<close>

definition admission_run ::
  "admission_env \<Rightarrow> (config_error \<Rightarrow> string) \<Rightarrow> supervisor_state \<Rightarrow> supervisor_state \<Rightarrow> bool" where
  "admission_run env show_error s s' \<longleftrightarrow> runtime_reach env show_error (sv_shared s) (sv_shared s')"

lemma runtime_reach_trans:
  assumes "runtime_reach env show_error a b" "runtime_reach env show_error b c"
  shows "runtime_reach env show_error a c"
  using assms(2,1) by (induction rule: runtime_reach.induct) (auto intro: runtime_reach.step)

lemma admission_run_refl: "sv_shared s' = sv_shared s \<Longrightarrow> admission_run env show_error s s'"
  by (simp add: admission_run_def runtime_reach.start)

lemma admission_run_trans:
  "admission_run env show_error a b \<Longrightarrow> admission_run env show_error b c \<Longrightarrow> admission_run env show_error a c"
  unfolding admission_run_def by (rule runtime_reach_trans)

lemma admission_run_fold:
  "(\<And>x s. admission_run env show_error s (f x s)) \<Longrightarrow> admission_run env show_error s (fold f xs s)"
proof (induction xs arbitrary: s)
  case (Cons x xs)
  from admission_run_trans [OF Cons.prems Cons.IH [OF Cons.prems]] show ?case by simp
qed (simp add: admission_run_refl)

definition keeps_identity :: "(ledger_entry \<Rightarrow> ledger_entry) \<Rightarrow> bool" where
  "keeps_identity f \<longleftrightarrow> same_identity f \<and> (\<forall>e. entry_id (f e) = entry_id e \<and> entry_session (f e) = entry_session e)"

lemma admission_run_row:
  assumes "keeps_identity f"
  shows "admission_run env show_error s (on_row tx f s)"
proof -
  have "f e\<lparr>entry_id := entry_id e, entry_session := entry_session e\<rparr> = f e" for e
    using assms by (simp add: keeps_identity_def)
  then have "runtime_step env show_error (sv_shared s) ((sv_shared s)\<lparr>sh_ledger := ledger_modify tx f (sv_ledger s)\<rparr>)"
    using runtime_step.changed [of f env show_error "sv_shared s" tx] assms by (simp add: keeps_identity_def)
  from runtime_reach.step [OF runtime_reach.start this] show ?thesis by (simp add: admission_run_def on_row_def put_ledger_def)
qed

lemma admission_run_remove: "admission_run env show_error s (remove_row tx s)"
proof (cases "ledger_remove tx (sv_ledger s)")
  case (Pair r L)
  show ?thesis
  proof (cases r)
    case (Some e)
    with Pair runtime_reach.step [OF runtime_reach.start runtime_step.ended [of tx "sv_shared s" e L]] show ?thesis
      by (simp add: admission_run_def remove_row_def)
  qed (use Pair in \<open>simp add: remove_row_def admission_run_refl\<close>)
qed

lemma admission_run_state:
  "sv_shared s' = (sv_shared s)\<lparr>sh_state := x\<rparr> \<Longrightarrow> admission_run env show_error s s'"
  unfolding admission_run_def using runtime_reach.step [OF runtime_reach.start runtime_step.state] by metis

lemma keeps_identity_decide: "keeps_identity (decide p force)"
  by (simp add: keeps_identity_def same_identity_def decide_def Let_def split: option.split)

lemma admission_run_accept: "admission_run env show_error s (accept_terminal tokio tx p force s)"
proof -
  have r: "admission_run env show_error s (on_row tx (decide p force) s)" by (rule admission_run_row [OF keeps_identity_decide])
  have "admission_run env show_error s (spawn_finalizer tokio tx seal (on_row tx (decide p force) s))" for seal
    by (rule admission_run_trans [OF r admission_run_refl]) simp
  with r show ?thesis by (auto simp: accept_terminal_def Let_def admission_run_refl split: option.split)
qed

lemma admission_run_tasks: "admission_run env show_error s (on_tasks g s)"
  by (rule admission_run_refl) simp

lemma admission_run_shutdown: "admission_run env show_error s (begin_shutdown_inner tokio s)"
proof -
  have one: "admission_run env show_error s (shut_down_transaction tokio tx s)" for tx s
  proof -
    have c: "keeps_identity (\<lambda>e. e\<lparr>cancel_requested := True\<rparr>)" by (simp add: keeps_identity_def same_identity_def)
    have "admission_run env show_error s (s\<lparr>n_shutdown_terminals := n\<rparr>)" for n by (rule admission_run_refl) simp
    with admission_run_trans [OF admission_run_row [OF c] admission_run_tasks] admission_run_trans [OF _ admission_run_accept]
    show ?thesis by (simp add: shut_down_transaction_def)
  qed
  have "sv_shared (signal_mcp_shutdown (to_quiescing s)) = (sv_shared s)\<lparr>sh_state := leave_accepting (sh_state (sv_shared s))\<rparr>"
    by (simp add: signal_mcp_shutdown_def to_quiescing_def)
  from admission_run_trans [OF admission_run_state [OF this] admission_run_fold [OF one]]
  show ?thesis by (auto simp: begin_shutdown_unfold admission_run_def)
qed

lemma admission_run_try_remove: "admission_run env show_error s (try_remove_tombstone tx s)"
  using admission_run_remove by (simp add: try_remove_tombstone_def admission_run_refl split: option.split)

lemma admission_run_exit: "admission_run env show_error s (handle_exit tokio x s)"
proof -
  have p: "keeps_identity (\<lambda>e. e\<lparr>pending_worker_proposal := None\<rparr>)" by (simp add: keeps_identity_def same_identity_def)
  have "admission_run env show_error s (recover_terminal tokio tx exit s)" for tx exit s
    using admission_run_trans [OF admission_run_row [OF p] admission_run_accept]
    by (simp add: recover_terminal_unfold admission_run_refl split: option.split)
  then have "admission_run env show_error s (if b then recover_terminal tokio tx exit s else s)" for tx exit s b
    by (simp add: admission_run_refl)
  then have "admission_run env show_error s (on_task_exit tokio c exit s)" for c exit s
    using admission_run_trans [OF _ admission_run_try_remove] admission_run_trans [OF _ admission_run_tasks]
    by (simp add: on_task_exit_def Let_def admission_run_refl split: option.split)
  moreover have "admission_run env show_error s (note_connector_owner_exit c s)" for c
    by (rule admission_run_refl) (simp add: note_connector_owner_exit_def)
  ultimately show ?thesis using admission_run_trans by (simp add: handle_exit_def split_beta) blast
qed

lemma admission_run_reap: "admission_run env show_error s (reap tokio finished es msgs s)"
proof -
  have "sv_shared (snd (observe_end finished e s)) = sv_shared s" for e s
    by (cases e) (simp add: observe_end_def Let_def split_beta split: option.split)
  then have "sv_shared (snd (observe_ends finished es s)) = sv_shared s"
    by (induction es arbitrary: s) (simp_all add: split_beta)
  then have o: "admission_run env show_error s (snd (observe_ends finished es s))" by (rule admission_run_refl)
  have "admission_run env show_error s (worker_exited tokio m s)" for m s
    by (simp add: worker_exited_def split_beta admission_run_accept)
  from admission_run_trans [OF admission_run_trans [OF o admission_run_fold [OF this]] admission_run_fold [OF admission_run_exit]]
  show ?thesis by (simp add: reap_def split_beta)
qed

lemma on_row_cong: "(\<And>e. row tx s = Some e \<Longrightarrow> f e = g e) \<Longrightarrow> on_row tx f s = on_row tx g s"
  by (simp add: on_row_def put_ledger_def ledger_modify_def row_def ledger_get_def split: option.split)

lemma admission_run_finalizer: "admission_run env show_error s (finalizer_step outcome r i s)"
proof -
  have up: "admission_run env show_error s (s\<lparr>sv_finalizers := x\<rparr>)" for s x by (rule admission_run_refl) simp
  have b: "admission_run env show_error s (snd (fin_begin tx seal s))" for tx seal
  proof (cases "row tx s")
    case None
    then show ?thesis by (simp add: fin_begin_def row_def admission_run_refl)
  next
    case (Some e)
    obtain d where d: "fin_begin tx seal s = (FinSeal tx d, on_row tx (\<lambda>_. taken_row e) s)" using fin_begin_row [OF Some] .
    have "on_row tx (\<lambda>_. taken_row e) s = on_row tx taken_row s" by (rule on_row_cong) (simp add: Some)
    moreover have "keeps_identity taken_row" by (simp add: keeps_identity_def same_identity_def taken_row_def)
    ultimately show ?thesis using admission_run_row by (simp add: d)
  qed
  have f: "admission_run env show_error s (fin_finish outcome r tx d s)" for tx d
  proof -
    have c: "admission_run env show_error s (count_completion r s)" for s
      by (rule admission_run_refl) (simp add: count_completion_def split: completion_publish_result.split)
    have t: "admission_run env show_error s (on_row tx (\<lambda>e. e\<lparr>entry_terminal := k\<rparr>) s)"
      "admission_run env show_error s (on_row tx (\<lambda>e. e\<lparr>event_sequence := n\<rparr>) s)" for s k n
      by (rule admission_run_row, simp add: keeps_identity_def same_identity_def)+
    have g: "admission_run env show_error s (s\<lparr>sv_sent := x\<rparr>)" "admission_run env show_error s (s\<lparr>n_invariant_failed := n\<rparr>)" for s x n
      by (rule admission_run_refl, simp)+
    let ?d = "if fd_seal d then seal_delivery outcome else (NotAttempted, 0)"
    let ?k = "truncated_kind (fst ?d) (fd_kind d)"
    let ?s1 = "if ?k \<noteq> fd_kind d then on_row tx (\<lambda>e. e\<lparr>entry_terminal := Some \<lparr>decision_kind = ?k\<rparr>\<rparr>) s else s"
    have "admission_run env show_error s ?s1" using t(1) by (simp add: admission_run_refl)
    then have "admission_run env show_error s (on_row tx (\<lambda>e. e\<lparr>event_sequence := snd ?d\<rparr>) ?s1)" by (rule admission_run_trans) (rule t)
    from admission_run_trans [OF admission_run_trans [OF this g(1)] c] admission_run_trans [OF this g(2)]
    show ?thesis by (simp add: fin_finish_def Let_def split_beta)
  qed
  show ?thesis
    using admission_run_trans [OF b up] admission_run_trans [OF f up]
    by (simp add: finalizer_step_def Let_def split_beta admission_run_refl split: option.split finalizer_pc.split)
qed

lemma admission_run_start: "admission_run env show_error s (start_received tokio tx s)"
proof -
  have a: "keeps_identity (\<lambda>e. e\<lparr>entry_delivery := None, has_completion_tx := True, entry_phase := Running\<rparr>)"
    "keeps_identity (\<lambda>e. e\<lparr>has_publisher_cmd_tx := True, has_publisher_seal_tx := True\<rparr>)"
    by (simp_all add: keeps_identity_def same_identity_def)
  note rows = admission_run_trans [OF admission_run_row [OF a(1)] admission_run_row [OF a(2)]]
  note all = admission_run_trans [OF admission_run_trans [OF rows admission_run_tasks] admission_run_tasks]
  have "admission_run env show_error s (handle_start tokio tx s)"
    by (simp add: handle_start_def Let_def all admission_run_refl split: option.split)
  then show ?thesis by (simp add: start_received_def admission_run_accept admission_run_refl)
qed

lemma admission_run_control: "admission_run env show_error s (control_received tokio c s)"
proof -
  have "admission_run env show_error s (force_abort s)" for s by (rule admission_run_refl) (simp add: force_abort_def)
  from admission_run_trans [OF admission_run_shutdown this] show ?thesis
    by (cases c) (simp_all add: admission_run_accept admission_run_shutdown)
qed

lemma supervisor_step_admission:
  assumes "supervisor_step tokio env show_error s s'"
  shows "admission_run env show_error s s'"
  using assms
proof cases
  case (worker m) then show ?thesis by (simp add: worker_exited_def split_beta admission_run_accept)
next
  case (control c) then show ?thesis by (simp add: admission_run_control)
next
  case control_closed then show ?thesis using admission_run_control [of env show_error s tokio StopSupervisor] by simp
next
  case shutdown then show ?thesis by (simp add: admission_run_shutdown)
next
  case (reaped finished es msgs) then show ?thesis by (simp add: admission_run_reap)
next
  case (started tx) then show ?thesis by (simp add: admission_run_start)
next
  case (idle tx) then show ?thesis by (simp add: clear_idle_def admission_run_try_remove admission_run_refl)
next
  case (grace tx)
  then show ?thesis
    using admission_run_tasks admission_run_trans [OF admission_run_tasks admission_run_remove]
    by (simp add: past_grace_def Let_def force_remove_tombstone_def)
next
  case (finalizer outcome r i) then show ?thesis by (simp add: admission_run_finalizer)
next
  case (admission tx q receipt sh)
  then show ?thesis
    using runtime_reach.step [OF runtime_reach.start runtime_step.admission [of env show_error "sv_shared s" tx q]]
    by (simp add: admission_run_def)
next
  case (refusal tx q e sh)
  then show ?thesis
    using runtime_reach.step [OF runtime_reach.start runtime_step.admission [of env show_error "sv_shared s" tx q]]
    by (simp add: admission_run_def)
next
  case (proposal tx p)
  have "keeps_identity (\<lambda>e. e\<lparr>pending_worker_proposal := Some p\<rparr>)" by (simp add: keeps_identity_def same_identity_def)
  with proposal show ?thesis using admission_run_row by simp
next
  case (binding tx k)
  then show ?thesis
    using runtime_reach.step [OF runtime_reach.start runtime_step.bound [of env show_error "sv_shared s" tx k]]
    by (simp add: admission_run_def put_ledger_def)
next
  case (start_taken tx rest)
  then show ?thesis
    using runtime_reach.step [OF runtime_reach.start runtime_step.started [of "sv_shared s" tx rest]]
    by (simp add: admission_run_def)
next
  case owner_shutdown
  show ?thesis by (rule admission_run_state [where x = "leave_accepting (sh_state (sv_shared s))"]) (simp add: owner_shutdown owner_begin_shutdown_def to_quiescing_def Let_def)
next
  case (owner_wait alive w)
  have q: "admission_run env show_error s (snd (owner_begin_shutdown s))"
    by (rule admission_run_state [where x = "leave_accepting (sh_state (sv_shared s))"]) (simp add: owner_begin_shutdown_def to_quiescing_def Let_def)
  have "admission_run env show_error t (t\<lparr>sv_shared := (sv_shared t)\<lparr>sh_state := Stopped\<rparr>\<rparr>)" for t
    by (rule admission_run_state) simp
  with q admission_run_trans [OF q] owner_wait show ?thesis by (simp add: wait_stopped_def Let_def admission_run_refl)
qed (auto intro!: admission_run_refl simp: register_spawn_def note_connector_owner_spawn_def store_owned_tasks_def
    shutdown_progress_def poll_children_def drain_tasks_def finish_stop_def split_beta Let_def)

lemma supervisor_reach_admission:
  "supervisor_reach tokio env show_error s0 s \<Longrightarrow> admission_run env show_error s0 s"
  by (induction rule: supervisor_reach.induct) (auto intro: admission_run_refl admission_run_trans supervisor_step_admission)

lemma reach_capacity:
  assumes "runtime_reach env show_error sh0 sh" "pool_try_new m cs = Ok (sh_pool sh0)" "sh_ledger sh0 = ledger_new"
  shows "runtime_inv sh \<and> pool_within (sh_pool sh) \<and> max_global (sh_pool sh) = int m
    \<and> (\<forall>c. channel_max c (sh_pool sh) = channel_max c (sh_pool sh0))"
  using assms(1)
proof (induction rule: runtime_reach.induct)
  case start
  show ?case using fresh_pool [OF assms(2)] assms(3)
    by (simp add: runtime_inv_def pool_within_def ledger_inv_new on_channel_def) (simp add: ledger_new_def)
next
  case (step sh sh')
  then show ?case using runtime_inv_step [of sh env show_error sh'] by simp
qed

text \<open>
  The supervisor and everything beside it keep the capacity of the runtime exact: at every
  moment the counters of the pool are the numbers of rows in the ledger and within the limits of
  admission, whatever ends a transaction, and when the runtime has drained every reservation has
  been given back.
\<close>

theorem reservations_returned:
  assumes "pool_try_new m cs = Ok (sh_pool sh)" and "sh_ledger sh = ledger_new" and "sh_state sh \<noteq> Stopped"
    and "executor_fresh tokio" and "supervisor_reach tokio env show_error (supervisor_new sh tools routes) s"
    and "next_task_id (sv_tasks s) < usize_max"
  shows "length (by_transaction (sv_ledger s)) \<le> m
    \<and> global_active (sh_pool (sv_shared s)) = int (length (by_transaction (sv_ledger s)))
    \<and> ledger_active (sh_pool (sv_shared s)) = int (length (by_transaction (sv_ledger s)))
    \<and> (channel_max c (sh_pool sh) \<noteq> None \<longrightarrow> channel_active c (sh_pool (sv_shared s)) = int (on_channel c (sv_ledger s)))
    \<and> (drain_complete s \<longrightarrow> global_active (sh_pool (sv_shared s)) = 0
        \<and> (channel_max c (sh_pool sh) \<noteq> None \<longrightarrow> channel_active c (sh_pool (sv_shared s)) = 0))"
proof -
  have "runtime_reach env show_error sh (sv_shared s)"
    using supervisor_reach_admission [OF assms(5)] by (simp add: admission_run_def supervisor_new_def)
  note cap = reach_capacity [OF this assms(1,2)]
  have "supervisor_inv s"
    using supervisor_reach_inv [OF assms(4) _ assms(3) assms(5,6)] assms(2) by (simp add: ledger_new_def)
  then have "drain_complete s \<longrightarrow> by_transaction (sv_ledger s) = []"
    by (simp add: supervisor_inv_def stop_ok_def nothing_owned_def ledger_empty_def)
  with cap show ?thesis by (auto simp: runtime_inv_def pool_within_def on_channel_def)
qed

theorem reservations_returned_witness:
  "\<exists>s. runs_to s \<and> sv_admitted s = [''t''] \<and> global_active (sh_pool (sv_shared s)) = int (length (by_transaction (sv_ledger s)))"
proof -
  obtain s where s: "runs_to s" "sv_admitted s = [''t'']" "next_task_id (sv_tasks s) = 2" using cancelled_run by metis
  have "pool_try_new 1 [(''c'', 1)] = Ok (sh_pool one_slot)" by (simp add: pool_try_new_def one_slot_def)
  from reservations_returned [OF this, of unused_id one_channel "\<lambda>_. []" no_tools None s] s executor_fresh_unused
  show ?thesis by (auto simp: fresh_runtime_def one_slot_def usize_max_def)
qed

section \<open>A forced stop\<close>

text \<open>
  Stopping by force loses completions. When the owner is dropped while a transaction is in the
  ledger, the supervisor is told to stop at once: it decides the transaction, spawns its finalizer
  and aborts all tasks, the new finalizer among them. If the executor drops that task before it
  has run, the row is removed, the runtime reports that it has drained, and no completion was ever
  sent for the admitted transaction.
\<close>

theorem forced_stop_loses_completion:
  "\<exists>s. runs_to s \<and> drain_complete s \<and> sv_admitted s = [''t''] \<and> sent_count ''t'' s = 0"
proof -
  obtain eff sh where a: "runs_to (fresh_runtime\<lparr>sv_shared := sh, sv_admitted := [''t'']\<rparr>)"
    "by_transaction (sh_ledger sh) = [(''t'', queued_entry ''t'' eff plain_request)]" "by_session (sh_ledger sh) = []" "sh_state sh = Accepting"
    using one_admitted .
  let ?s1 = "fresh_runtime\<lparr>sv_shared := sh, sv_admitted := [''t'']\<rparr>"
  let ?s2 = "control_received unused_id StopSupervisor ?s1"
  let ?s3 = "reap unused_id (\<lambda>_. False) [(0, TornDown True)] [] ?s2"
  have r2: "runs_to ?s2" by (rule supervisor_reach.step [OF a(1) supervisor_step.control]) (simp add: fresh_runtime_def supervisor_new_def)
  have s2: "sv_tasks ?s2 = \<lparr>joins = [(1, 1)], metas = [(1, \<lparr>meta_class = Finalizer ''t'', abort_requested = True, meta_tokio = 1\<rparr>)],
      tasks_by_transaction = [(''t'', [1])], by_tokio_id = [(1, 1)], next_task_id = 2\<rparr>"
    "sv_finalizers ?s2 = [(1, FinStart ''t'' False)]" "sv_sent ?s2 = []" "sv_admitted ?s2 = [''t'']" "sv_stopping ?s2"
    "\<not> drain_complete ?s2" "owned_children (sv_tools ?s2) = []"
    "\<exists>e. by_transaction (sv_ledger ?s2) = [(''t'', e)] \<and> entry_phase e = Finalizing"
    using a(2,3,4) by (simp_all add: begin_shutdown_unfold transaction_ids_def to_quiescing_def signal_mcp_shutdown_def
        shut_down_transaction_def force_abort_def abort_all_def abort_each_def task_abort_def run_defs queued_entry_def
        plain_request_def unused_id_def saturating_add_def usize_max_def no_tools_def)
  from s2(8) obtain e where e: "by_transaction (sv_ledger ?s2) = [(''t'', e)]" "entry_phase e = Finalizing" by blast
  let ?o = "?s2\<lparr>sv_tasks := \<lparr>joins = [], metas = [], tasks_by_transaction = [], by_tokio_id = [], next_task_id = 2\<rparr>, sv_finalizers := []\<rparr>"
  have "may_end 0 (TornDown True) ?s2" by (simp add: may_end_def s2 del: control_received.simps)
  moreover have "join_next (\<lambda>_. False) (0, TornDown True) (sv_tasks ?s2)
      = (Some (1, Finalizer ''t'', ExitCancelled), \<lparr>joins = [], metas = [], tasks_by_transaction = [], by_tokio_id = [], next_task_id = 2\<rparr>)"
    by (simp add: s2 join_next_def take_join_def reap_finished_def deregister_def without_def assoc_del_def del: control_received.simps)
  ultimately have "observe_end (\<lambda>_. False) (0, TornDown True) ?s2 = (Some (1, Finalizer ''t'', ExitCancelled), ?o)"
    by (simp add: observe_end_def s2 assoc_del_def del: control_received.simps)
  then have s3: "?s3 = remove_row ''t'' ?o"
    using e by (simp add: reap_def handle_exit_def note_connector_owner_exit_def on_task_exit_def tasks_for_def
        try_remove_tombstone_def ledger_get_def del: control_received.simps)
  have empty: "row t ?s3 = None" for t unfolding s3 row_remove using e by (simp add: row_def ledger_get_def del: control_received.simps)
  have r3: "runs_to ?s3" by (rule supervisor_reach.step [OF r2 supervisor_step.reaped]) (simp add: s2 del: control_received.simps)
  have "nothing_owned ?s3" unfolding nothing_owned_def ledger_empty_row
    by (simp add: empty del: control_received.simps, simp add: s3 s2 tasks_empty_def del: control_received.simps)
  then have "runs_to (finish_stop ?s3)"
    by (intro supervisor_reach.step [OF r3 supervisor_step.stop]) (simp_all add: s3 s2 del: control_received.simps)
  moreover have "drain_complete (finish_stop ?s3)" "sv_admitted (finish_stop ?s3) = [''t'']" "sent_count ''t'' (finish_stop ?s3) = 0"
    by (simp_all add: finish_stop_def Let_def sent_count_def s3 s2 del: control_received.simps)
  ultimately show ?thesis by blast
qed

end
