(* ===== verification/Mcp.thy ===== *)
theory Mcp
  imports Dispatcher Session_Identity "HOL-Library.Word"
begin

text \<open>
  The capabilities of the MCP gateway: \<open>transaction/mcp/binding.rs\<close> with the tokens and the route
  table, \<open>transaction/mcp/handler.rs\<close> with the handler of one capability, and the descriptor of
  \<open>monoloop-connector/src/session.rs\<close>.

  The state of a binding is an atomic that the route table and every clone of the handler share,
  and that outlives the route. It is a cell of the table, and a binding has its address. The
  dispatcher of a binding is shared with the coordinator, which rebinds it; a binding has its
  address in a heap of dispatchers. The random bytes of a token are an argument.
\<close>

unbundle bit_operations_syntax

section \<open>Tokens\<close>

type_synonym capability_token = "8 word list"

definition hex_nibble :: "char \<Rightarrow> 8 word option" where
  "hex_nibble c =
     (let b = word_of_nat (byte c)
      in if 48 \<le> byte c \<and> byte c \<le> 57 then Some (b - 48)
         else if 97 \<le> byte c \<and> byte c \<le> 102 then Some (b - 97 + 10)
         else if 65 \<le> byte c \<and> byte c \<le> 70 then Some (b - 65 + 10)
         else None)"

definition hex_char :: "8 word \<Rightarrow> char" where
  "hex_char n = (if n \<le> 9 then char_of (unat (48 + n)) else if n \<le> 15 then char_of (unat (97 + n - 10)) else CHR ''0'')"

definition is_ascii_hexdigit :: "char \<Rightarrow> bool" where
  "is_ascii_hexdigit c \<longleftrightarrow>
     48 \<le> byte c \<and> byte c \<le> 57 \<or> 97 \<le> byte c \<and> byte c \<le> 102 \<or> 65 \<le> byte c \<and> byte c \<le> 70"

fun hex_bytes :: "string \<Rightarrow> 8 word list option" where
  "hex_bytes (a # b # s) =
     (case hex_nibble a of
        None \<Rightarrow> None
      | Some hi \<Rightarrow>
          (case hex_nibble b of
             None \<Rightarrow> None
           | Some lo \<Rightarrow> map_option ((#) (push_bit 4 hi OR lo)) (hex_bytes s)))"
| "hex_bytes _ = Some []"

definition from_hex :: "string \<Rightarrow> capability_token option" where
  "from_hex s = (if length s \<noteq> 64 \<or> \<not> list_all is_ascii_hexdigit s then None else hex_bytes s)"

definition to_hex :: "capability_token \<Rightarrow> string" where
  "to_hex t = concat (map (\<lambda>b. [hex_char (drop_bit 4 b), hex_char (b AND 0x0f)]) t)"

datatype mcp_install_error =
  EntropyUnavailable | UnknownCapability | StateConflict | RoutesExceeded | InvalidDescriptor

definition generate_token :: "capability_token option \<Rightarrow> (mcp_install_error, capability_token) result" where
  "generate_token entropy =
     (case entropy of
        None \<Rightarrow> Err EntropyUnavailable
      | Some bytes \<Rightarrow> if bytes = replicate 32 0 then Err EntropyUnavailable else Ok bytes)"

section \<open>Descriptors\<close>

record mcp_server_descriptor =
  server_name :: string
  protocol_version :: string
  capability_url :: string

definition descriptor_try_new :: "string \<Rightarrow> string \<Rightarrow> string \<Rightarrow> mcp_server_descriptor option" where
  "descriptor_try_new name version url =
     (if name = [] \<or> length name > 128 \<or> has_control name then None
      else if version = [] \<or> length version > 64 \<or> has_control version then None
      else if url = [] \<or> length url > 512 then None
      else Some \<lparr>server_name = name, protocol_version = version, capability_url = url\<rparr>)"

section \<open>The route table\<close>

datatype mcp_binding_state = McpPending | McpActive | McpRevoked

record mcp_binding =
  mb_token :: capability_token
  mb_transaction :: string
  mb_cell :: nat
  mb_dispatcher :: nat
  mb_tools :: resolved_tool_set
  mb_exchange :: string
  mb_deadline :: nat

record pending_mcp_binding =
  pending_token :: capability_token
  pending_descriptor :: mcp_server_descriptor
  pending_transaction :: string
  pending_dispatcher :: nat

record mcp_table =
  max_routes :: nat
  routes :: "(capability_token \<times> mcp_binding) list"
  state_cells :: "mcp_binding_state list"

definition route_table_new :: "nat \<Rightarrow> mcp_table" where
  "route_table_new n = \<lparr>max_routes = max n 1, routes = [], state_cells = []\<rparr>"

definition binding_state :: "mcp_binding \<Rightarrow> mcp_table \<Rightarrow> mcp_binding_state" where
  "binding_state b t = state_cells t ! mb_cell b"

definition is_active :: "mcp_binding \<Rightarrow> mcp_table \<Rightarrow> bool" where
  "is_active b t \<longleftrightarrow> binding_state b t = McpActive"

definition trim_end_slash :: "string \<Rightarrow> string" where
  "trim_end_slash s = rev (dropWhile (\<lambda>c. c = CHR ''/'') (rev s))"

text \<open>The atomic of a binding is made before the lock is taken; where the table is full it is dropped with the binding.\<close>

definition install_pending_with_deadline ::
  "string \<Rightarrow> resolved_tool_set \<Rightarrow> nat \<Rightarrow> string \<Rightarrow> string \<Rightarrow> nat \<Rightarrow> capability_token option \<Rightarrow> mcp_table
    \<Rightarrow> (mcp_install_error, pending_mcp_binding) result \<times> mcp_table" where
  "install_pending_with_deadline tx tools dispatcher exchange base_url deadline entropy t =
     (case generate_token entropy of
        Inl e \<Rightarrow> (Err e, t)
      | Inr token \<Rightarrow>
          if length (routes t) \<ge> max_routes t then (Err RoutesExceeded, t)
          else
            (let b = \<lparr>mb_token = token, mb_transaction = tx, mb_cell = length (state_cells t), mb_dispatcher = dispatcher,
                      mb_tools = tools, mb_exchange = exchange, mb_deadline = deadline\<rparr>;
                 t = t\<lparr>routes := assoc_put token b (routes t), state_cells := state_cells t @ [McpPending]\<rparr>
             in case descriptor_try_new ''monoloop'' ''2024-11-05'' (trim_end_slash base_url @ ''/mcp/'' @ to_hex token) of
                  None \<Rightarrow> (Err InvalidDescriptor, t)
                | Some d \<Rightarrow>
                    (Ok \<lparr>pending_token = token, pending_descriptor = d, pending_transaction = tx,
                         pending_dispatcher = dispatcher\<rparr>, t)))"

text \<open>Without a deadline of its own a binding lives for a year from now, in milliseconds.\<close>

definition install_pending ::
  "string \<Rightarrow> resolved_tool_set \<Rightarrow> nat \<Rightarrow> string \<Rightarrow> string \<Rightarrow> nat \<Rightarrow> capability_token option \<Rightarrow> mcp_table
    \<Rightarrow> (mcp_install_error, pending_mcp_binding) result \<times> mcp_table" where
  "install_pending tx tools dispatcher exchange base_url now entropy t =
     install_pending_with_deadline tx tools dispatcher exchange base_url (now + 365 * 24 * 3600 * 1000) entropy t"

definition activate :: "capability_token \<Rightarrow> mcp_table \<Rightarrow> (mcp_install_error, unit) result \<times> mcp_table" where
  "activate token t =
     (case map_of (routes t) token of
        None \<Rightarrow> (Err UnknownCapability, t)
      | Some b \<Rightarrow>
          (case binding_state b t of
             McpPending \<Rightarrow> (Ok (), t\<lparr>state_cells := (state_cells t)[mb_cell b := McpActive]\<rparr>)
           | McpActive \<Rightarrow> (Ok (), t)
           | McpRevoked \<Rightarrow> (Err StateConflict, t)))"

definition revoke :: "capability_token \<Rightarrow> mcp_table \<Rightarrow> bool \<times> mcp_table" where
  "revoke token t =
     (case map_of (routes t) token of
        Some b \<Rightarrow>
          (True, t\<lparr>routes := assoc_del token (routes t), state_cells := (state_cells t)[mb_cell b := McpRevoked]\<rparr>)
      | None \<Rightarrow> (False, t))"

definition revoke_all :: "mcp_table \<Rightarrow> string list \<times> mcp_table" where
  "revoke_all t =
     (map (\<lambda>(token, _). to_hex token) (routes t),
      t\<lparr>routes := [], state_cells := fold (\<lambda>(_, b) cs. cs[mb_cell b := McpRevoked]) (routes t) (state_cells t)\<rparr>)"

definition get_route :: "capability_token \<Rightarrow> mcp_table \<Rightarrow> mcp_binding option" where
  "get_route token t = map_of (routes t) token"

definition get_by_hex :: "string \<Rightarrow> mcp_table \<Rightarrow> mcp_binding option" where
  "get_by_hex hex t = Option.bind (from_hex hex) (\<lambda>token. get_route token t)"

definition state_of :: "capability_token \<Rightarrow> mcp_table \<Rightarrow> mcp_binding_state option" where
  "state_of token t = map_option (\<lambda>b. binding_state b t) (get_route token t)"

section \<open>The handler of a capability\<close>

record mcp_tool =
  mcp_tool_name :: string
  mcp_tool_description :: string
  mcp_tool_schema :: "(string \<times> json) list"

definition tool_definitions_from_resolved :: "resolved_tool_set \<Rightarrow> mcp_tool list" where
  "tool_definitions_from_resolved tools =
     map (\<lambda>t. \<lparr>mcp_tool_name = tool_name t, mcp_tool_description = spec_description (rt_spec t),
              mcp_tool_schema = (case input_schema (rt_spec t) of JObject m \<Rightarrow> m | _ \<Rightarrow> [])\<rparr>) (resolved_tools tools)"

datatype mcp_error = McpInvalidRequest string | McpInvalidParams string | McpMethodNotFound string | McpInternalError string

datatype call_tool_result = CallSuccess string | CallError string

definition ensure_active :: "mcp_binding \<Rightarrow> mcp_table \<Rightarrow> mcp_error option" where
  "ensure_active b t = (if is_active b t then None else Some (McpInvalidRequest ''MCP capability is not active''))"

definition list_tool_defs :: "mcp_binding \<Rightarrow> mcp_table \<Rightarrow> (mcp_error, mcp_tool list) result" where
  "list_tool_defs b t =
     (case ensure_active b t of Some e \<Rightarrow> Err e | None \<Rightarrow> Ok (tool_definitions_from_resolved (mb_tools b)))"

definition get_tool :: "string \<Rightarrow> mcp_binding \<Rightarrow> mcp_table \<Rightarrow> mcp_tool option" where
  "get_tool name b t =
     (if is_active b t then find (\<lambda>d. mcp_tool_name d = name) (tool_definitions_from_resolved (mb_tools b)) else None)"

definition map_dispatch_to_call_result :: "json_codec \<Rightarrow> dispatch_outcome \<Rightarrow> (mcp_error, call_tool_result) result" where
  "map_dispatch_to_call_result codec out =
     (case out of
        DispatchCanonical r _ \<Rightarrow>
          (case result_outcome r of
             ResultSucceeded (JsonOutput v) \<Rightarrow> Ok (CallSuccess (to_json_string codec v))
           | ResultSucceeded (TextOutput s) \<Rightarrow> Ok (CallSuccess s)
           | ResultDomainFailed e \<Rightarrow> Ok (CallError (tool_error_code e @ '': '' @ tool_error_message e)))
      | DispatchRejected _ code message _ \<Rightarrow> Ok (CallError (code @ '': '' @ message))
      | DispatchRuntimeFailed _ _ code _ \<Rightarrow> Err (McpInternalError (''tool runtime failure: '' @ code)))"

text \<open>The checks in front of a dispatch, and the request that is dispatched.\<close>

definition mcp_request ::
  "json_codec \<Rightarrow> mcp_binding \<Rightarrow> mcp_table \<Rightarrow> string \<Rightarrow> string \<Rightarrow> (string \<times> json) list option \<Rightarrow> (mcp_error, dispatch_request) result" where
  "mcp_request codec b t uuid name arguments =
     (case ensure_active b t of
        Some e \<Rightarrow> Err e
      | None \<Rightarrow>
          (case validated_string name of
             Inl _ \<Rightarrow> Err (McpInvalidParams ''invalid tool name'')
           | Inr n \<Rightarrow>
               if map_of (res_by_name (mb_tools b)) n = None then Err (McpMethodNotFound ''tool not in resolved set'')
               else Ok \<lparr>req_exchange = mb_exchange b, req_action = ''mcp:'' @ mb_transaction b @ '':'' @ name, req_tool_name = n,
                        req_provider_id = ''mcp-'' @ uuid, req_ordinal = 0,
                        req_arguments = to_json_string codec (JObject (unwrap_or [] arguments)), req_deadline = mb_deadline b\<rparr>))"

definition call_tool_direct ::
  "json_codec \<Rightarrow> schema_checker \<Rightarrow> tool_dispatcher list \<Rightarrow> mcp_binding \<Rightarrow> mcp_table \<Rightarrow> string \<Rightarrow> string
    \<Rightarrow> (string \<times> json) list option \<Rightarrow> dispatch_world \<Rightarrow> dispatch_state
    \<Rightarrow> (mcp_error, call_tool_result) result \<times> dispatch_state" where
  "call_tool_direct codec chk heap b t uuid name arguments w st =
     (case mcp_request codec b t uuid name arguments of
        Inl e \<Rightarrow> (Err e, st)
      | Inr r \<Rightarrow>
          (case dispatch_with_cancel codec chk (heap ! mb_dispatcher b) r w st of
             (out, st) \<Rightarrow> (map_dispatch_to_call_result codec out, st)))"

section \<open>Tokens and their text\<close>

lemma small_words: "n \<le> (15 :: 8 word) \<Longrightarrow> \<exists>k < 16. n = word_of_nat k"
  by (intro exI [of _ "unat n"]) (simp add: word_le_nat_alt)

lemma nibble_char: "n \<le> 15 \<Longrightarrow> is_ascii_hexdigit (hex_char n) \<and> hex_nibble (hex_char n) = Some n"
proof -
  assume "n \<le> 15"
  then obtain k where "k \<in> set [0..<16]" and n: "n = word_of_nat k" using small_words by force
  then have "k \<in> {0, 1, 2, 3, 4, 5, 6, 7, 8, 9, 10, 11, 12, 13, 14, 15}" by (simp add: numeral_eq_Suc)
  then show ?thesis
    by (auto simp: n is_ascii_hexdigit_def hex_char_def hex_nibble_def byte_def)
qed

lemma byte_halves:
  "drop_bit 4 b \<le> (15 :: 8 word)" "b AND 15 \<le> (15 :: 8 word)" "push_bit 4 (drop_bit 4 b) OR (b AND 15) = (b :: 8 word)"
proof -
  have "unat (drop_bit 4 b) \<le> 15" using unsigned_less [of b, where ?'a = nat] by (subst unat_drop_bit_eq) (simp add: drop_bit_eq_div)
  then show "drop_bit 4 b \<le> 15" by (simp add: word_le_nat_alt)
  have mask: "b AND 15 = take_bit 4 b" using take_bit_eq_mask [of 4 b] by (simp add: mask_eq_exp_minus_1)
  then have "unat (b AND 15) = take_bit 4 (unat b)" by (simp add: unsigned_take_bit_eq)
  then show "b AND 15 \<le> 15" using take_bit_nat_less_exp [of 4 "unat b"] by (simp add: word_le_nat_alt)
  show "push_bit 4 (drop_bit 4 b) OR (b AND 15) = b"
    unfolding mask by (auto intro!: bit_word_eqI simp: bit_simps)
qed

lemma to_hex_simps [simp]:
  "to_hex [] = []"
  "to_hex (b # t) = hex_char (drop_bit 4 b) # hex_char (b AND 15) # to_hex t"
  by (simp_all add: to_hex_def)

lemma to_hex_digits: "length (to_hex t) = 2 * length t" "list_all is_ascii_hexdigit (to_hex t)"
  by (induction t) (auto simp: nibble_char byte_halves)

lemma hex_bytes_to_hex: "hex_bytes (to_hex t) = Some t"
  by (induction t) (simp_all add: nibble_char byte_halves)

lemma from_to_hex: "length t = 32 \<Longrightarrow> from_hex (to_hex t) = Some t"
  by (simp add: from_hex_def to_hex_digits hex_bytes_to_hex)

lemma nibble_text:
  assumes "hex_nibble c = Some n"
  shows "n \<le> 15 \<and> hex_char n = to_ascii_lower c"
proof -
  have "48 \<le> byte c \<and> byte c \<le> 57 \<or> 97 \<le> byte c \<and> byte c \<le> 102 \<or> 65 \<le> byte c \<and> byte c \<le> 70"
    using assms by (auto simp: hex_nibble_def Let_def split: if_splits)
  then have "byte c \<in> {48, 49, 50, 51, 52, 53, 54, 55, 56, 57, 97, 98, 99, 100, 101, 102, 65, 66, 67, 68, 69, 70}"
    unfolding insert_iff empty_iff by presburger
  moreover have "c = char_of (byte c)" by (simp add: byte_def)
  ultimately have "c \<in> char_of ` {48, 49, 50, 51, 52, 53, 54, 55, 56, 57, 97, 98, 99, 100, 101, 102, 65, 66, 67, 68, 69, 70 :: nat}"
    by (metis image_eqI)
  then show ?thesis
    using assms by (auto simp: hex_nibble_def hex_char_def to_ascii_lower_def is_ascii_uppercase_def byte_def)
qed

lemma halves_joined:
  assumes "hi \<le> (15 :: 8 word)" and "lo \<le> 15"
  shows "drop_bit 4 (push_bit 4 hi OR lo) = hi" "(push_bit 4 hi OR lo) AND 15 = lo"
proof -
  have m: "x \<le> 15 \<Longrightarrow> take_bit 4 x = x" for x :: "8 word"
    using take_bit_nat_eq_self_iff [of 4 "unat x"] by (simp add: word_le_nat_alt word_unat_eq_iff unsigned_take_bit_eq)
  show "(push_bit 4 hi OR lo) AND 15 = lo"
    using m [OF assms(2)] take_bit_eq_mask [of 4 "push_bit 4 hi OR lo"]
    by (simp add: mask_eq_exp_minus_1 take_bit_or take_bit_push_bit)
  have "drop_bit 4 (push_bit 4 (take_bit 4 hi) OR take_bit 4 lo) = take_bit 4 hi"
    by (auto intro!: bit_word_eqI simp: bit_simps)
  with m assms show "drop_bit 4 (push_bit 4 hi OR lo) = hi" by simp
qed

lemma hex_bytes_text:
  "hex_bytes s = Some t \<Longrightarrow> even (length s) \<Longrightarrow> 2 * length t = length s \<and> to_hex t = to_ascii_lowercase s"
proof (induction s arbitrary: t rule: hex_bytes.induct)
  case (1 a b s)
  then obtain hi lo u where "hex_nibble a = Some hi" "hex_nibble b = Some lo" "hex_bytes s = Some u" "t = (push_bit 4 hi OR lo) # u"
    by (auto split: option.splits)
  with 1 nibble_text [of a hi] nibble_text [of b lo] show ?case
    by (simp add: halves_joined to_ascii_lowercase_def del: drop_bit_or)
qed (auto simp: to_ascii_lowercase_def)

text \<open>
  The text of a token in a URL. Every token is read back from its text; every text that is read
  as a token is the text of that token up to upper case; so two tokens never share a URL, and a
  request that spells the token differently reaches the same route.
\<close>

theorem capability_hex_roundtrip:
  "(length t = 32 \<longrightarrow> from_hex (to_hex t) = Some t)
   \<and> (from_hex s = Some t \<longrightarrow> length t = 32 \<and> to_hex t = to_ascii_lowercase s)"
proof -
  have "length s = 64 \<and> hex_bytes s = Some t" if "from_hex s = Some t" using that by (auto simp: from_hex_def split: if_splits)
  then show ?thesis using from_to_hex [of t] hex_bytes_text [of s t] by fastforce
qed

definition sample_token :: capability_token where
  "sample_token = replicate 31 0 @ [0xAB]"

theorem capability_hex_roundtrip_witness:
  "from_hex (to_hex sample_token) = Some sample_token \<and> to_hex sample_token = replicate 62 CHR ''0'' @ ''ab''"
proof -
  have digits: "char_of (48 :: nat) = CHR ''0''" "char_of (97 :: nat) = CHR ''a''" "char_of (98 :: nat) = CHR ''b''" by code_simp+
  have zeros: "to_hex (replicate n 0) = replicate (2 * n) CHR ''0''" for n by (induction n) (simp_all add: hex_char_def digits)
  have "to_hex (t @ u) = to_hex t @ to_hex u" for t u by (simp add: to_hex_def)
  then have "to_hex sample_token = replicate 62 CHR ''0'' @ ''ab''"
    using zeros [of 31] by (simp add: sample_token_def hex_char_def digits)
  with capability_hex_roundtrip [of sample_token "to_hex sample_token"] show ?thesis by (simp add: sample_token_def)
qed

section \<open>Routes\<close>

text \<open>The table stays within its bound, and a binding gets a cell of its own.\<close>

definition table_wf :: "mcp_table \<Rightarrow> bool" where
  "table_wf t \<longleftrightarrow> length (routes t) \<le> max_routes t \<and> list_all (\<lambda>(_, b). mb_cell b < length (state_cells t)) (routes t)"

lemma install_table:
  assumes "install_pending_with_deadline tx tools d x url dl entropy t = (r, t')"
  shows "t' = t \<or>
    (\<exists>token b. length (routes t) < max_routes t \<and> mb_cell b = length (state_cells t) \<and>
       t' = t\<lparr>routes := assoc_put token b (routes t), state_cells := state_cells t @ [McpPending]\<rparr>)"
proof (cases "generate_token entropy")
  case (Inr token)
  define b where "b = \<lparr>mb_token = token, mb_transaction = tx, mb_cell = length (state_cells t), mb_dispatcher = d,
    mb_tools = tools, mb_exchange = x, mb_deadline = dl\<rparr>"
  then have "mb_cell b = length (state_cells t)" by simp
  moreover have "t' = t \<or> length (routes t) < max_routes t \<and>
      t' = t\<lparr>routes := assoc_put token b (routes t), state_cells := state_cells t @ [McpPending]\<rparr>"
    using Inr assms unfolding install_pending_with_deadline_def Let_def b_def by (auto split: if_splits option.splits)
  ultimately show ?thesis by blast
qed (use assms in \<open>simp add: install_pending_with_deadline_def\<close>)

lemma install_wf:
  assumes "install_pending_with_deadline tx tools d x url dl entropy t = (r, t')" and "table_wf t"
  shows "table_wf t'"
proof -
  have "list_all (\<lambda>(_, b). mb_cell b < length (state_cells t @ [McpPending])) (routes t)"
    using assms(2) by (auto simp: table_wf_def list_all_iff)
  then show ?thesis
    using install_table [OF assms(1)] assms(2)
    by (elim disjE exE) (auto simp: table_wf_def assoc_put_length intro!: assoc_put_all)
qed

lemma activate_wf: "activate token t = (r, t') \<Longrightarrow> table_wf t \<Longrightarrow> table_wf t'"
  by (auto simp: activate_def table_wf_def split: option.splits mcp_binding_state.splits)

lemma revoke_wf: "revoke token t = (r, t') \<Longrightarrow> table_wf t \<Longrightarrow> table_wf t'"
  by (auto simp: revoke_def table_wf_def assoc_del_def list_all_iff intro: le_trans [OF length_filter_le] split: option.splits)

lemma revoke_all_cells:
  "length (fold (\<lambda>(_, b) cs. cs[mb_cell b := McpRevoked]) rs cs) = length cs"
  "c < length cs \<Longrightarrow> fold (\<lambda>(_, b) cs. cs[mb_cell b := McpRevoked]) rs cs ! c
     = (if \<exists>x \<in> set rs. mb_cell (snd x) = c then McpRevoked else cs ! c)"
  by (induction rs arbitrary: cs) (simp_all add: nth_list_update split_beta)

lemma revoked_unreachable: "revoke token t = (r, t') \<Longrightarrow> get_by_hex (to_hex token) t' = None \<or> length token \<noteq> 32"
  by (auto simp: revoke_def get_by_hex_def get_route_def from_to_hex map_of_assoc_del split: option.splits)

text \<open>
  A descriptor that cannot be built is reported as an error, but the route it was built for
  stays in the table with no token for anyone to revoke it by. Addresses of the listener are far
  shorter than that takes.
\<close>

lemma plain_labels: "\<not> has_control ''monoloop''" "\<not> has_control ''2024-11-05''"
  by code_simp+

lemma descriptor_fits:
  "length url \<le> 443 \<Longrightarrow> length token = 32
    \<Longrightarrow> descriptor_try_new ''monoloop'' ''2024-11-05'' (trim_end_slash url @ ''/mcp/'' @ to_hex token) \<noteq> None"
  using length_dropWhile_le [of "\<lambda>c. c = CHR ''/''" "rev url"]
  by (simp add: descriptor_try_new_def trim_end_slash_def to_hex_digits plain_labels del: has_control.simps)

lemma failed_install_keeps_route:
  "case install_pending_with_deadline ''t'' (from_registered []) 0 ''x'' (replicate 600 CHR ''a'') 9 (Some sample_token) (route_table_new 4) of
     (r, t) \<Rightarrow> r = Err InvalidDescriptor \<and> length (routes t) = 1"
proof -
  have "last sample_token \<noteq> last (replicate 32 0)" by (simp add: sample_token_def)
  then have "sample_token \<noteq> replicate 32 0" by metis
  moreover have "trim_end_slash (replicate 600 CHR ''a'') = replicate 600 CHR ''a''"
    by (simp add: trim_end_slash_def dropWhile_eq_self_iff)
  ultimately show ?thesis
    by (simp add: install_pending_with_deadline_def generate_token_def route_table_new_def descriptor_try_new_def to_hex_digits plain_labels
        del: has_control.simps)
qed

lemma mcp_request_checked:
  "mcp_request codec b t uuid name arguments = Ok q
    \<Longrightarrow> is_active b t \<and> req_exchange q = mb_exchange b \<and> req_deadline q = mb_deadline b
       \<and> map_of (res_by_name (mb_tools b)) (req_tool_name q) \<noteq> None"
  by (auto simp: mcp_request_def ensure_active_def split: if_splits sum.splits)

end
