(* ===== verification/Exchange.thy ===== *)
theory Exchange
  imports Engine_Invariants Encoder Transaction
begin

text \<open>
  One exchange with a provider: \<open>transaction/lifecycle/exchange.rs\<close>, \<open>task_spawner.rs\<close> and the ends
  of a connection from \<open>monoloop-connector/src/handles.rs\<close>.

  An exchange spawns three tasks: the owner of the connection, the pump that carries the bytes of
  the provider to the interpreter, and the collector of the canonical units. What the connector,
  the executor, the clock and the host do is an \<open>exchange_world\<close>: how every wait ends, the results
  of \<open>receive\<close> in order, and how far the collector has come. The interpretation is the run of
  \<open>Engine\<close> on the commands that the pump sends. An encoder is the function that it computes.

  The trace of an exchange is what it does to the connection and to its children, in order.
\<close>

section \<open>Outcomes\<close>

datatype connection_end_kind = RemoteEof | ConnCancelled | ConnTerminated | TransportFailure | LocalShutdown

datatype connector_error_kind =
    ConfigurationInvalid | DialectUnavailable | CredentialUnavailable | ConnectionFailed | WriteFailed | ReadFailed
  | RemoteClosed | ConnDeadlineExceeded | ErrCancelled | ErrTerminated | LocalResourceFailed | InvariantViolation
  | SessionFailed | ProtocolFailed

record direct_exchange_outcome =
  xo_units :: "canonical_unit_event list"
  xo_terminal :: transaction_end_kind
  xo_exchange :: string
  xo_external_session :: "string option"
  encoded_input_bytes :: nat
  received_output_bytes :: nat

definition failed_outcome :: "string \<Rightarrow> transaction_end_kind \<Rightarrow> direct_exchange_outcome" where
  "failed_outcome xid kind =
     \<lparr>xo_units = [], xo_terminal = kind, xo_exchange = xid, xo_external_session = None,
      encoded_input_bytes = 0, received_output_bytes = 0\<rparr>"

datatype exchange_failure =
    FailChannelOpen | FailEncoding | FailConnector | FailInterpretation | FailCancelled | FailTerminated
  | FailLimit | FailDeadline | FailInvariant | FailSpawn

fun to_terminal :: "exchange_failure \<Rightarrow> transaction_end_kind" where
  "to_terminal FailCancelled = TxCancelled"
| "to_terminal FailTerminated = TxTerminated"
| "to_terminal FailLimit = LimitExceeded"
| "to_terminal FailDeadline = DeadlineExceeded"
| "to_terminal FailInvariant = InvariantFailed"
| "to_terminal FailSpawn = InvariantFailed"
| "to_terminal FailChannelOpen = ChannelOpenFailed"
| "to_terminal FailEncoding = EncodingFailed"
| "to_terminal FailConnector = ConnectorFailed"
| "to_terminal FailInterpretation = InterpretationFailed"

definition reconcile_terminals :: "connection_end_kind \<Rightarrow> interpretation_end_kind \<Rightarrow> exchange_failure option" where
  "reconcile_terminals conn interp =
     (case conn of
        ConnCancelled \<Rightarrow> Some FailCancelled
      | ConnTerminated \<Rightarrow> Some FailTerminated
      | TransportFailure \<Rightarrow> Some FailConnector
      | _ \<Rightarrow>
          (case interp of
             EndComplete \<Rightarrow> None
           | EndCancelled \<Rightarrow> Some FailCancelled
           | EndTerminated \<Rightarrow> Some FailTerminated
           | EndTransportFailed \<Rightarrow> Some FailConnector
           | _ \<Rightarrow> Some FailInterpretation))"

definition estimate_retained_unit_bytes :: "canonical_unit_event \<Rightarrow> nat" where
  "estimate_retained_unit_bytes ev =
     saturating_add
       (case snapshot_unit (event_snapshot ev) of
          Text t \<Rightarrow> length (sentence_content t)
        | Structure s \<Rightarrow> length (atom_content s)
        | Tool t \<Rightarrow>
            saturating_add (case event_request_payload t of Some p \<Rightarrow> length p | None \<Rightarrow> 0)
              (case event_result_payload t of Some p \<Rightarrow> length p | None \<Rightarrow> 0)
        | Diagnostic d \<Rightarrow> length (diagnostic_message d)
        | _ \<Rightarrow> 32) 128"

section \<open>Spawning through the supervisor\<close>

datatype spawn_answer = SpawnAccepted | SpawnBusy | SpawnRejected | SpawnOrphaned

text \<open>What becomes of a request in the queue of the supervisor, and of the reply to it.\<close>

datatype spawn_send = SpawnQueueTakes | SpawnQueueFull | SpawnQueueClosed

definition spawn_boxed :: "spawn_send \<Rightarrow> bool \<Rightarrow> spawn_answer" where
  "spawn_boxed q replied =
     (case q of
        SpawnQueueTakes \<Rightarrow> if replied then SpawnAccepted else SpawnOrphaned
      | SpawnQueueFull \<Rightarrow> SpawnBusy
      | SpawnQueueClosed \<Rightarrow> SpawnRejected)"

text \<open>The attempts left and, for every attempt, whether it is cancelled and what becomes of it.\<close>

fun spawn_with_busy_retry :: "nat \<Rightarrow> (bool \<times> spawn_send \<times> bool) list \<Rightarrow> spawn_answer" where
  "spawn_with_busy_retry n [] = SpawnRejected"
| "spawn_with_busy_retry n ((cancelled, q, replied) # ws) =
     (if cancelled then SpawnRejected
      else case spawn_boxed q replied of
             SpawnBusy \<Rightarrow> (case n of 0 \<Rightarrow> SpawnBusy | Suc m \<Rightarrow> spawn_with_busy_retry m ws)
           | a \<Rightarrow> a)"

definition try_spawn_owned :: "spawn_send \<Rightarrow> spawn_answer" where
  "try_spawn_owned q = (case q of SpawnQueueTakes \<Rightarrow> SpawnAccepted | SpawnQueueFull \<Rightarrow> SpawnBusy | SpawnQueueClosed \<Rightarrow> SpawnRejected)"

section \<open>The pump and the collector\<close>

datatype receive_result = Chunk string | OutputEnd | OutputError connector_error_kind

text \<open>
  The pump up to the last result of \<open>receive\<close> there is, each with whether the interpreter still
  takes what is pushed: the commands it sends, the bytes it counts and whether it reports the
  limit. The counter is an atomic \<open>usize\<close> that wraps, the test saturates.
\<close>

fun pump :: "nat \<Rightarrow> (receive_result \<times> bool) list \<Rightarrow> nat \<Rightarrow> input_cmd list \<times> nat \<times> bool" where
  "pump max_out [] received = ([], received, False)"
| "pump max_out ((Chunk b, taken) # rs) received =
     (let received' = (received + length b) mod (usize_max + 1)
      in if saturating_add received (length b) > max_out then ([TransportFailed], received', True)
         else if taken then (case pump max_out rs received' of (cmds, n, limited) \<Rightarrow> (Bytes b # cmds, n, limited))
         else ([], received', False))"
| "pump max_out ((OutputEnd, taken) # rs) received = ([FinishClean], received, False)"
| "pump max_out ((OutputError e, taken) # rs) received =
     ([if e = ErrCancelled \<or> e = ErrTerminated then Cancel else TransportFailed], received, False)"

fun collect_units :: "nat \<Rightarrow> nat \<Rightarrow> interpreter_output_event list \<Rightarrow> canonical_unit_event list \<times> bool" where
  "collect_units max_retained retained [] = ([], False)"
| "collect_units max_retained retained (Unit u # evs) =
     (let retained' = saturating_add retained (estimate_retained_unit_bytes u)
      in if retained' > max_retained then ([], True)
         else (case collect_units max_retained retained' evs of (us, limited) \<Rightarrow> (u # us, limited)))"
| "collect_units max_retained retained (Ended e # evs) = ([], False)"

section \<open>The exchange\<close>

record opened_connection =
  opened_id :: string
  opened_session :: "string option"
  opened_dialect :: dialect_binding

datatype open_end = OpenCancelled | OpenOk opened_connection | OpenRefused | OpenTimedOut

datatype prompt_proceed = ProceedOk | ProceedDistinctSessions | ProceedFailed | ProceedDropped

datatype select_end = SeesCancel | SeesUnitLimit | SeesOutputLimit | SeesDeadline | SeesEnds connection_end_kind bool

text \<open>
  \<open>SeesEnds\<close> has the end of the connection and whether the interpretation dropped its completion.
  The interpreter publishes until \<open>receiver_limit\<close> events are taken, when there is such a limit, and
  the collector has seen \<open>collected\<close> of them when the exchange reads what it collected.
\<close>

record exchange_world =
  expired :: bool
  owner_spawn :: spawn_answer
  open_ends :: open_end
  interpretation_env :: engine_env
  interpretation_name :: string
  pump_spawn :: spawn_answer
  receives :: "(receive_result \<times> bool) list"
  gate_gone :: bool
  cancelled_at_gate :: bool
  send_fails :: bool
  finish_fails :: bool
  units_spawn :: spawn_answer
  receiver_limit :: "nat option"
  collected :: nat
  select_ends :: select_end

datatype exchange_action =
    OwnerRegistered
  | ConnectionOpened
  | PumpRegistered
  | SessionReported "string option"
  | PromptAllowed
  | BodySent string
  | InputFinished
  | CollectorRegistered
  | ConnectionTerminated
  | ChildrenAwaited bool bool bool

text \<open>
  The prompt gate of the coordinator, when there is one, answers the session that the open
  connection reports and may change the state of the runtime. A gate that is cancelled here runs
  to its end all the same.
\<close>

type_synonym 's prompt_gate = "(string option \<Rightarrow> 's \<Rightarrow> prompt_proceed \<times> 's) option"

record encoded_exchange_ok =
  ok_units :: "canonical_unit_event list"
  ok_session :: "string option"
  ok_input_bytes :: nat
  ok_output_bytes :: nat

type_synonym 's exchange_end = "(exchange_failure, encoded_exchange_ok) result \<times> exchange_action list \<times> 's"

text \<open>The commands of the pump and the interpretation they lead to.\<close>

definition pumped :: "nat \<Rightarrow> exchange_world \<Rightarrow> input_cmd list \<times> nat \<times> bool" where
  "pumped max_out w = pump max_out (receives w) 0"

definition interpretation_request :: "exchange_world \<Rightarrow> opened_connection \<Rightarrow> start_interpretation" where
  "interpretation_request w c =
     \<lparr>req_interpretation_id = interpretation_name w, req_connection_id = opened_id c, req_session_id = opened_session c,
      req_dialect = opened_dialect c, req_limits = default_interpretation_limits\<rparr>"

definition interpreted :: "nat \<Rightarrow> exchange_world \<Rightarrow> opened_connection \<Rightarrow> interpretation_end option \<times> owner" where
  "interpreted max_out w c =
     run (interpretation_env w) (fst (pumped max_out w)) (owner_new (interpretation_request w c) (receiver_limit w))"

definition interpretation_ended :: "bool \<Rightarrow> interpretation_end option \<Rightarrow> interpretation_end_kind" where
  "interpretation_ended dropped e = (case e of Some r \<Rightarrow> if dropped then EndInvariantFailed else end_kind r | None \<Rightarrow> EndInvariantFailed)"

definition fail_cleanup :: "bool \<Rightarrow> bool \<Rightarrow> exchange_failure \<Rightarrow> exchange_action list \<Rightarrow> 's \<Rightarrow> 's exchange_end" where
  "fail_cleanup has_pump has_units f tr s = (Err f, tr @ [ConnectionTerminated, ChildrenAwaited True has_pump has_units], s)"

text \<open>From the registered collector to the result.\<close>

definition await_ends ::
  "nat \<Rightarrow> nat \<Rightarrow> nat \<Rightarrow> opened_connection \<Rightarrow> exchange_world \<Rightarrow> exchange_action list \<Rightarrow> 's \<Rightarrow> 's exchange_end" where
  "await_ends max_retained max_out input_bytes c w tr s =
     (let (e, ow) = interpreted max_out w c;
          ok = \<lparr>ok_units = fst (collect_units max_retained 0 (take (collected w) (sent (own_pub ow)))),
                ok_session = opened_session c, ok_input_bytes = input_bytes, ok_output_bytes = fst (snd (pumped max_out w))\<rparr>
      in case select_ends w of
           SeesCancel \<Rightarrow> fail_cleanup True True FailCancelled tr s
         | SeesUnitLimit \<Rightarrow> fail_cleanup True True FailLimit tr s
         | SeesOutputLimit \<Rightarrow> fail_cleanup True True FailLimit tr s
         | SeesDeadline \<Rightarrow> fail_cleanup True True FailDeadline tr s
         | SeesEnds conn dropped \<Rightarrow>
             (case reconcile_terminals conn (interpretation_ended dropped e) of
                Some f \<Rightarrow> (Err f, tr @ [ChildrenAwaited True True True], s)
              | None \<Rightarrow> (Ok ok, tr @ [ChildrenAwaited True True True], s)))"

text \<open>From the prompt to the registered collector.\<close>

definition send_prompt ::
  "nat \<Rightarrow> nat \<Rightarrow> encoded_exchange \<Rightarrow> opened_connection \<Rightarrow> exchange_world \<Rightarrow> exchange_action list \<Rightarrow> 's \<Rightarrow> 's exchange_end" where
  "send_prompt max_retained max_out enc c w tr s =
     (let body = exchange_bytes enc
      in if body \<noteq> [] \<and> send_fails w then fail_cleanup True False FailConnector tr s
         else
           (let tr = (if body = [] then tr else tr @ [BodySent body])
            in if input_policy enc = SendAndFinish \<and> finish_fails w then fail_cleanup True False FailConnector tr s
               else
                 (let tr = (if input_policy enc = SendAndFinish then tr @ [InputFinished] else tr)
                  in case units_spawn w of
                       SpawnAccepted \<Rightarrow> await_ends max_retained max_out (length body) c w (tr @ [CollectorRegistered]) s
                     | _ \<Rightarrow> fail_cleanup True False FailSpawn tr s)))"

definition pass_gate ::
  "nat \<Rightarrow> nat \<Rightarrow> encoded_exchange \<Rightarrow> 's prompt_gate \<Rightarrow> opened_connection \<Rightarrow> exchange_world \<Rightarrow> exchange_action list \<Rightarrow> 's
    \<Rightarrow> 's exchange_end" where
  "pass_gate max_retained max_out enc gate c w tr s =
     (case gate of
        None \<Rightarrow> send_prompt max_retained max_out enc c w tr s
      | Some g \<Rightarrow>
          if gate_gone w then fail_cleanup True False FailInvariant tr s
          else
            (let (answer, s) = g (opened_session c) s; tr = tr @ [SessionReported (opened_session c)]
             in if cancelled_at_gate w then fail_cleanup True False FailCancelled (tr @ [ConnectionTerminated]) s
                else case answer of
                       ProceedOk \<Rightarrow> send_prompt max_retained max_out enc c w (tr @ [PromptAllowed]) s
                     | ProceedDistinctSessions \<Rightarrow> fail_cleanup True False FailLimit tr s
                     | _ \<Rightarrow> fail_cleanup True False FailInvariant tr s))"

definition run_encoded_exchange ::
  "nat \<Rightarrow> nat \<Rightarrow> encoded_exchange \<Rightarrow> 's prompt_gate \<Rightarrow> exchange_world \<Rightarrow> 's \<Rightarrow> 's exchange_end" where
  "run_encoded_exchange max_retained max_out enc gate w s =
     (if expired w then (Err FailDeadline, [], s)
      else case owner_spawn w of
             SpawnAccepted \<Rightarrow>
               (let tr = [OwnerRegistered]
                in case open_ends w of
                     OpenCancelled \<Rightarrow> fail_cleanup False False FailCancelled tr s
                   | OpenRefused \<Rightarrow> fail_cleanup False False FailChannelOpen tr s
                   | OpenTimedOut \<Rightarrow> fail_cleanup False False FailDeadline tr s
                   | OpenOk c \<Rightarrow>
                       (let tr = tr @ [ConnectionOpened]
                        in case start (interpretation_env w) (interpretation_request w c) (receiver_limit w) [] of
                             Inl _ \<Rightarrow> fail_cleanup False False FailInterpretation tr s
                           | Inr _ \<Rightarrow>
                               (case pump_spawn w of
                                  SpawnAccepted \<Rightarrow>
                                    pass_gate max_retained max_out enc gate c w (tr @ [PumpRegistered]) s
                                | _ \<Rightarrow> fail_cleanup False False FailSpawn tr s)))
           | SpawnOrphaned \<Rightarrow> (Err FailSpawn, [ConnectionTerminated, ChildrenAwaited False False False], s)
           | _ \<Rightarrow> (Err FailSpawn, [ConnectionTerminated], s))"

section \<open>Initial and continuation exchanges\<close>

record exchange_limits =
  xl_encoded :: nat
  xl_retained :: nat
  xl_remaining_input :: nat
  xl_remaining_output :: nat

type_synonym encoder_result = "(encoding_error, encoded_exchange) result"

definition budget_exceeded :: "exchange_limits \<Rightarrow> encoded_exchange \<Rightarrow> bool" where
  "budget_exceeded l enc \<longleftrightarrow>
     xl_remaining_input l = 0 \<or> length (exchange_bytes enc) > xl_remaining_input l \<or> xl_remaining_output l = 0"

definition exchange_run_inner ::
  "exchange_limits \<Rightarrow> encoder_result \<Rightarrow> 's prompt_gate \<Rightarrow> exchange_world \<Rightarrow> 's \<Rightarrow> 's exchange_end" where
  "exchange_run_inner l encoding gate w s =
     (case encoding of
        Inl _ \<Rightarrow> (Err FailEncoding, [], s)
      | Inr enc \<Rightarrow>
          if length (exchange_bytes enc) > xl_encoded l then (Err FailEncoding, [], s)
          else if budget_exceeded l enc then (Err FailLimit, [], s)
          else run_encoded_exchange (xl_retained l) (xl_remaining_output l) enc gate w s)"

definition exchange_outcome :: "string \<Rightarrow> (exchange_failure, encoded_exchange_ok) result \<Rightarrow> direct_exchange_outcome" where
  "exchange_outcome xid r =
     (case r of
        Inr ok \<Rightarrow>
          \<lparr>xo_units = ok_units ok, xo_terminal = TxCompleted, xo_exchange = xid, xo_external_session = ok_session ok,
           encoded_input_bytes = ok_input_bytes ok, received_output_bytes = ok_output_bytes ok\<rparr>
      | Inl f \<Rightarrow> failed_outcome xid (to_terminal f))"

definition run_direct_llm_exchange ::
  "string \<Rightarrow> exchange_limits \<Rightarrow> encoder_result \<Rightarrow> 's prompt_gate \<Rightarrow> exchange_world \<Rightarrow> 's
    \<Rightarrow> direct_exchange_outcome \<times> exchange_action list \<times> 's" where
  "run_direct_llm_exchange xid l encoding gate w s =
     (case exchange_run_inner l encoding gate w s of (r, tr, s) \<Rightarrow> (exchange_outcome xid r, tr, s))"

definition run_direct_llm_continuation ::
  "string \<Rightarrow> nat \<Rightarrow> exchange_limits \<Rightarrow> encoder_result \<Rightarrow> exchange_world \<Rightarrow> direct_exchange_outcome \<times> exchange_action list" where
  "run_direct_llm_continuation xid max_context l encoding w =
     (case encoding of
        Inl _ \<Rightarrow> (failed_outcome xid EncodingFailed, [])
      | Inr enc \<Rightarrow>
          if length (exchange_bytes enc) > max_context then (failed_outcome xid LimitExceeded, [])
          else if length (exchange_bytes enc) > xl_encoded l then (failed_outcome xid EncodingFailed, [])
          else if budget_exceeded l enc then (failed_outcome xid LimitExceeded, [])
          else (case run_encoded_exchange (xl_retained l) (xl_remaining_output l) enc None w () of
                  (r, tr, _) \<Rightarrow> (exchange_outcome xid r, tr)))"

section \<open>Facts about pump and collector\<close>

fun units_in :: "interpreter_output_event list \<Rightarrow> canonical_unit_event list" where
  "units_in [] = []"
| "units_in (Unit u # evs) = u # units_in evs"
| "units_in (Ended e # evs) = []"

lemma saturating_add_le: "saturating_add a b \<le> m \<Longrightarrow> m < usize_max \<Longrightarrow> a + b \<le> m"
  by (simp add: saturating_add_def split: if_splits)

text \<open>A pump that ends the interpretation cleanly has passed on the whole output, within its bound.\<close>

lemma pump_clean:
  assumes "pump m rs r = (cmds, n, limited)" and "FinishClean \<in> set cmds" and "r \<le> m" and "m < usize_max"
  shows "\<exists>chunks t rest. rs = map (\<lambda>b. (Chunk b, True)) chunks @ (OutputEnd, t) # rest
    \<and> cmds = map Bytes chunks @ [FinishClean] \<and> n = r + length (concat chunks) \<and> n \<le> m"
  using assms
proof (induction m rs r arbitrary: cmds n limited rule: pump.induct)
  case (2 m b taken rs r)
  let ?r = "(r + length b) mod (usize_max + 1)"
  from 2(2,3) have le: "saturating_add r (length b) \<le> m" and taken
    by (auto simp: Let_def split: if_splits)
  then have sum: "r + length b \<le> m" and r: "?r = r + length b"
    using saturating_add_le [OF le 2(5)] 2(5) by simp_all
  obtain cmds' n' l' where p: "pump m rs ?r = (cmds', n', l')" by (metis prod.exhaust)
  with 2(2) le \<open>taken\<close> have eq: "cmds = Bytes b # cmds'" "n = n'" by (simp_all add: Let_def)
  with 2(3) have "FinishClean \<in> set cmds'" by simp
  from 2(1) [OF refl _ _ p this] le \<open>taken\<close> sum 2(5) r
  obtain chunks t rest where "rs = map (\<lambda>b. (Chunk b, True)) chunks @ (OutputEnd, t) # rest"
    "cmds' = map Bytes chunks @ [FinishClean]" "n' = r + length b + length (concat chunks)" "n' \<le> m"
    by auto
  with eq \<open>taken\<close> show ?case by (intro exI [of _ "b # chunks"] exI [of _ t] exI [of _ rest]) simp
qed (auto split: if_splits)

lemma collect_prefix: "prefix (fst (collect_units m r evs)) (units_in evs)"
  by (induction m r evs rule: collect_units.induct) (auto simp: Let_def split: prod.split)

lemma collect_all:
  "r + sum_list (map estimate_retained_unit_bytes (units_in evs)) \<le> m \<Longrightarrow> m < usize_max
    \<Longrightarrow> fst (collect_units m r evs) = units_in evs"
proof (induction m r evs rule: collect_units.induct)
  case (2 m r u evs)
  then have "saturating_add r (estimate_retained_unit_bytes u) = r + estimate_retained_unit_bytes u"
    by (simp add: saturating_add_def)
  with 2 show ?case by (auto simp: Let_def split: prod.split)
qed simp_all

lemma units_in_take: "prefix (units_in (take k evs)) (units_in evs)"
proof (induction evs arbitrary: k)
  case (Cons e evs)
  then show ?case by (cases k; cases e) simp_all
qed simp

text \<open>An interpretation is complete only when it was told that its input has ended.\<close>

lemma ingest_end_not_complete [simp]: "ingest_end_kind k \<noteq> EndComplete"
  by (cases k) simp_all

lemma seal_end_not_complete [simp]: "seal_end_kind k \<noteq> EndComplete"
  by (cases k) simp_all

lemma finish_kind: "finish k ow = (Some e, ow') \<Longrightarrow> end_kind e = k"
  by (auto simp: finish_def Let_def split: if_splits)

lemma complete_needs_finish:
  "run env cmds ow = (Some e, ow') \<Longrightarrow> end_kind e = EndComplete \<Longrightarrow> FinishClean \<in> set cmds"
proof (induction env cmds ow rule: run.induct)
  case (2 env b cmds ow)
  then show ?case by (auto split: if_splits prod.splits option.splits dest: finish_kind)
qed (auto simp: abort_def dest: finish_kind)

section \<open>Traces\<close>

text \<open>
  The children that are awaited at the end of a trace are those that were registered.
\<close>

definition children_awaited :: "exchange_action list \<Rightarrow> bool" where
  "children_awaited tr \<longleftrightarrow> tr \<noteq> []
     \<and> last tr = ChildrenAwaited True (PumpRegistered \<in> set tr) (CollectorRegistered \<in> set tr)"

definition bodies_sent :: "exchange_action list \<Rightarrow> string list" where
  "bodies_sent tr = concat (map (\<lambda>a. case a of BodySent b \<Rightarrow> [b] | _ \<Rightarrow> []) tr)"

text \<open>
  What a part of an exchange adds to its trace: it ends in a cleanup, and fails without having
  terminated the connection only when it has seen both ends, of connection and interpretation.
\<close>

definition well_ended :: "exchange_world \<Rightarrow> 's exchange_end \<Rightarrow> bool" where
  "well_ended w x \<longleftrightarrow>
     (case x of (r, tr, s) \<Rightarrow>
        children_awaited tr
        \<and> (\<forall>f. r = Err f \<longrightarrow> ConnectionTerminated \<in> set tr \<or>
             CollectorRegistered \<in> set tr \<and> (\<exists>conn dropped. select_ends w = SeesEnds conn dropped))
        \<and> (\<forall>ok. r = Ok ok \<longrightarrow> CollectorRegistered \<in> set tr))"

lemma well_ended_fail [simp]:
  "well_ended w (fail_cleanup p u f tr s) \<longleftrightarrow> p = (PumpRegistered \<in> set tr) \<and> u = (CollectorRegistered \<in> set tr)"
  by (auto simp: well_ended_def fail_cleanup_def children_awaited_def)

lemma well_ended_await:
  "PumpRegistered \<in> set tr \<Longrightarrow> CollectorRegistered \<in> set tr \<Longrightarrow> well_ended w (await_ends mr mo n c w tr s)"
  by (auto simp: await_ends_def Let_def split: prod.split select_end.split option.split)
    (auto simp: well_ended_def children_awaited_def)

lemma well_ended_prompt:
  "PumpRegistered \<in> set tr \<Longrightarrow> CollectorRegistered \<notin> set tr \<Longrightarrow> well_ended w (send_prompt mr mo enc c w tr s)"
  unfolding send_prompt_def Let_def
  by (auto intro!: well_ended_await split: spawn_answer.split)

lemma well_ended_gate:
  "PumpRegistered \<in> set tr \<Longrightarrow> CollectorRegistered \<notin> set tr \<Longrightarrow> well_ended w (pass_gate mr mo enc gate c w tr s)"
  unfolding pass_gate_def Let_def
  by (auto intro!: well_ended_prompt split: prompt_proceed.split option.split prod.split)

lemma well_ended_exchange:
  "OwnerRegistered \<in> set (fst (snd (run_encoded_exchange mr mo enc gate w s)))
    \<Longrightarrow> well_ended w (run_encoded_exchange mr mo enc gate w s)"
  unfolding run_encoded_exchange_def Let_def
  by (auto intro!: well_ended_gate split: open_end.split spawn_answer.splits sum.split if_splits)

definition exchange_trace :: "'s exchange_end \<Rightarrow> exchange_action list" where
  "exchange_trace x = fst (snd x)"

lemma bodies_sent_simps [simp]:
  "bodies_sent [] = []"
  "bodies_sent (a # tr) = (case a of BodySent b \<Rightarrow> b # bodies_sent tr | _ \<Rightarrow> bodies_sent tr)"
  "bodies_sent (tr @ tr') = bodies_sent tr @ bodies_sent tr'"
  by (simp_all add: bodies_sent_def split: exchange_action.split)

lemma trace_cleanup [simp]:
  "exchange_trace (fail_cleanup p u f tr s) = tr @ [ConnectionTerminated, ChildrenAwaited True p u]"
  by (simp add: fail_cleanup_def exchange_trace_def)

lemma trace_await: "bodies_sent (exchange_trace (await_ends mr mo n c w tr s)) = bodies_sent tr"
  by (auto simp: await_ends_def Let_def split: prod.split select_end.split option.split)
    (auto simp: exchange_trace_def)

lemma trace_prompt:
  "bodies_sent (exchange_trace (send_prompt mr mo enc c w tr s)) \<in> {bodies_sent tr, bodies_sent tr @ [exchange_bytes enc]}"
  by (auto simp: send_prompt_def Let_def trace_await split: spawn_answer.split)

lemma trace_gate:
  assumes "bodies_sent tr = []"
  shows "bodies_sent (exchange_trace (pass_gate mr mo enc gate c w tr s)) = [] \<or>
    bodies_sent (exchange_trace (pass_gate mr mo enc gate c w tr s)) = [exchange_bytes enc]
      \<and> (\<forall>g. gate = Some g \<longrightarrow> fst (g (opened_session c) s) = ProceedOk \<and> \<not> cancelled_at_gate w)"
proof (cases gate)
  case None
  with trace_prompt [of mr mo enc c w tr s] assms show ?thesis by (auto simp: pass_gate_def)
next
  case (Some g)
  obtain answer s' where g: "g (opened_session c) s = (answer, s')" by (metis prod.exhaust)
  with Some assms trace_prompt [of mr mo enc c w "tr @ [SessionReported (opened_session c), PromptAllowed]" s'] show ?thesis
    by (auto simp: pass_gate_def Let_def split: prompt_proceed.split)
qed

lemma exchange_bodies:
  "bodies_sent (exchange_trace (run_encoded_exchange mr mo enc gate w s)) = [] \<or>
   bodies_sent (exchange_trace (run_encoded_exchange mr mo enc gate w s)) = [exchange_bytes enc] \<and>
     (\<forall>g. gate = Some g \<longrightarrow> (\<exists>c. open_ends w = OpenOk c \<and> fst (g (opened_session c) s) = ProceedOk \<and> \<not> cancelled_at_gate w))"
proof (cases "open_ends w")
  case (OpenOk c)
  then show ?thesis
    using trace_gate [of "[OwnerRegistered, ConnectionOpened, PumpRegistered]" mr mo enc gate c w s]
    by (auto simp: run_encoded_exchange_def Let_def split: spawn_answer.split sum.split)
      (simp_all add: exchange_trace_def)
qed (auto simp: run_encoded_exchange_def Let_def exchange_trace_def fail_cleanup_def split: spawn_answer.split)

text \<open>Only the gate touches the state, and an exchange that got past it leaves the state that the gate left.\<close>

lemma prompt_state [simp]: "snd (snd (send_prompt mr mo enc c w tr s)) = s"
  by (auto simp: send_prompt_def await_ends_def fail_cleanup_def Let_def split: spawn_answer.split select_end.split option.split prod.split)

lemma gate_state:
  "snd (snd (pass_gate mr mo enc gate c w tr s)) =
     (case gate of None \<Rightarrow> s | Some g \<Rightarrow> if gate_gone w then s else snd (g (opened_session c) s))"
  by (auto simp: pass_gate_def Let_def split_beta fail_cleanup_def split: option.split prompt_proceed.split)

lemma exchange_state:
  "snd (snd (run_encoded_exchange mr mo enc gate w s)) = s \<or>
   (\<exists>c g. open_ends w = OpenOk c \<and> gate = Some g \<and> snd (snd (run_encoded_exchange mr mo enc gate w s)) = snd (g (opened_session c) s))"
  by (auto simp: run_encoded_exchange_def Let_def fail_cleanup_def gate_state split: spawn_answer.split open_end.split sum.split option.split)

lemma gate_prompted:
  assumes "pass_gate mr mo enc (Some g) c w tr s = (r, tr', s')" and "bodies_sent tr = []"
    and "bodies_sent tr' \<noteq> [] \<or> (\<exists>ok. r = Ok ok)"
  shows "g (opened_session c) s = (ProceedOk, s')"
proof -
  obtain answer s0 where g: "g (opened_session c) s = (answer, s0)" by (metis prod.exhaust)
  then have "answer = ProceedOk" "\<not> gate_gone w"
    using assms by (auto simp: pass_gate_def fail_cleanup_def Let_def split: if_splits prompt_proceed.splits)
  moreover have "s' = s0" using gate_state [of mr mo enc "Some g" c w tr s] assms(1) g calculation by simp
  ultimately show ?thesis using g by simp
qed

lemma exchange_prompted:
  assumes "run_encoded_exchange mr mo enc (Some g) w s = (r, tr, s')" and "bodies_sent tr \<noteq> [] \<or> (\<exists>ok. r = Ok ok)"
  obtains c where "open_ends w = OpenOk c" "g (opened_session c) s = (ProceedOk, s')"
proof -
  have "\<exists>c. open_ends w = OpenOk c \<and>
      pass_gate mr mo enc (Some g) c w [OwnerRegistered, ConnectionOpened, PumpRegistered] s = (r, tr, s')"
    using assms unfolding run_encoded_exchange_def fail_cleanup_def Let_def
    by (auto split: if_splits spawn_answer.splits open_end.splits sum.splits)
  then show thesis using gate_prompted [OF _ _ assms(2)] that by fastforce
qed

text \<open>
  C14. However an exchange ends, nothing is left behind and nothing is said too early: once the owner
  of the connection is registered, the last thing the exchange does is to await exactly the
  children it registered. A failed exchange that had not expired before it began has terminated the
  connection, whatever the failure (a cancellation, a limit, the deadline, a refused spawn, gate or
  send), unless it failed because of how the connection and the interpretation both ended by
  themselves. The body is sent at most once and unchanged, and behind a prompt gate only if the gate
  has allowed the prompt for the session that the connection reports.
\<close>

theorem exchange_cleans_up:
  assumes "run_encoded_exchange max_retained max_out enc gate w s = (r, tr, s')"
  shows "(OwnerRegistered \<in> set tr \<longrightarrow> children_awaited tr)
    \<and> (\<forall>f. r = Err f \<longrightarrow> expired w \<or> ConnectionTerminated \<in> set tr \<or>
         CollectorRegistered \<in> set tr \<and> (\<exists>conn dropped. select_ends w = SeesEnds conn dropped))
    \<and> (\<forall>ok. r = Ok ok \<longrightarrow> CollectorRegistered \<in> set tr)
    \<and> (bodies_sent tr = [] \<or>
       bodies_sent tr = [exchange_bytes enc] \<and>
       (\<forall>g. gate = Some g \<longrightarrow>
          (\<exists>c. open_ends w = OpenOk c \<and> fst (g (opened_session c) s) = ProceedOk \<and> \<not> cancelled_at_gate w)))"
proof -
  let ?x = "run_encoded_exchange max_retained max_out enc gate w s"
  have tr: "exchange_trace ?x = tr" by (simp add: assms exchange_trace_def)
  have good: "OwnerRegistered \<in> set tr \<longrightarrow> well_ended w ?x"
    using well_ended_exchange [of max_retained max_out enc gate w s] by (simp add: assms)
  have early: "OwnerRegistered \<notin> set tr \<longrightarrow> (\<exists>f. r = Err f) \<and> (expired w \<or> ConnectionTerminated \<in> set tr)"
    using assms unfolding run_encoded_exchange_def fail_cleanup_def Let_def
    by (auto split: if_splits spawn_answer.splits open_end.splits sum.splits
        simp: pass_gate_def send_prompt_def await_ends_def fail_cleanup_def Let_def
        split: option.splits prod.splits prompt_proceed.splits select_end.splits)
  note body = exchange_bodies [of max_retained max_out enc gate w s, unfolded tr]
  show ?thesis
  proof (cases "OwnerRegistered \<in> set tr")
    case True
    with good body show ?thesis by (simp add: assms well_ended_def)
  next
    case False
    with early body show ?thesis by auto
  qed
qed

section \<open>Completed exchanges\<close>

lemma await_ok:
  assumes "await_ends mr mo n c w tr s = (Ok ok, tr', s')"
  obtains e ow kind dropped where "interpreted mo w c = (Some e, ow)" "end_kind e = EndComplete"
    "select_ends w = SeesEnds kind dropped" "kind = RemoteEof \<or> kind = LocalShutdown"
    "ok = \<lparr>ok_units = fst (collect_units mr 0 (take (collected w) (sent (own_pub ow)))),
      ok_session = opened_session c, ok_input_bytes = n, ok_output_bytes = fst (snd (pumped mo w))\<rparr>"
proof -
  obtain e ow where i: "interpreted mo w c = (e, ow)" by (metis prod.exhaust)
  obtain conn dropped where k: "select_ends w = SeesEnds conn dropped" "reconcile_terminals conn (interpretation_ended dropped e) = None"
    using assms unfolding await_ends_def fail_cleanup_def Let_def i by (auto split: select_end.splits option.splits)
  then have "interpretation_ended dropped e = EndComplete" and kind: "conn = RemoteEof \<or> conn = LocalShutdown"
    by (auto simp: reconcile_terminals_def split: connection_end_kind.splits interpretation_end_kind.splits)
  then obtain r where "e = Some r" "end_kind r = EndComplete"
    by (auto simp: interpretation_ended_def split: option.splits if_splits)
  then show thesis
    using assms i that k kind unfolding await_ends_def fail_cleanup_def Let_def
    by (auto split: select_end.splits option.splits)
qed

lemma prompt_ok:
  "send_prompt mr mo enc c w tr s = (Ok ok, tr', s')
    \<Longrightarrow> \<exists>tr0. await_ends mr mo (length (exchange_bytes enc)) c w tr0 s = (Ok ok, tr', s')"
  by (auto simp: send_prompt_def fail_cleanup_def Let_def split: if_splits spawn_answer.splits)

lemma gate_ok:
  assumes "pass_gate mr mo enc gate c w tr s = (Ok ok, tr', s')"
  shows "\<exists>tr0 s0. send_prompt mr mo enc c w tr0 s0 = (Ok ok, tr', s')"
proof (cases gate)
  case None
  with assms show ?thesis by (auto simp: pass_gate_def)
next
  case (Some g)
  obtain answer s0 where "g (opened_session c) s = (answer, s0)" by (metis prod.exhaust)
  with Some assms show ?thesis
    by (auto simp: pass_gate_def fail_cleanup_def Let_def split: if_splits prompt_proceed.splits)
qed

lemma exchange_ok:
  assumes "run_encoded_exchange mr mo enc gate w s = (Ok ok, tr', s')"
  obtains c tr0 s0 where "open_ends w = OpenOk c" "await_ends mr mo (length (exchange_bytes enc)) c w tr0 s0 = (Ok ok, tr', s')"
proof -
  have "\<exists>c tr0. open_ends w = OpenOk c \<and> pass_gate mr mo enc gate c w tr0 s = (Ok ok, tr', s')"
    using assms unfolding run_encoded_exchange_def fail_cleanup_def Let_def
    by (auto split: if_splits spawn_answer.splits open_end.splits sum.splits)
  with gate_ok prompt_ok that show thesis by meson
qed

text \<open>What stands behind an exchange that went well.\<close>

lemma exchange_complete:
  assumes "run_encoded_exchange mr mo enc gate w s = (Ok ok, tr, s')" and "mo < usize_max"
  obtains c e ow kind dropped chunks t rest where "open_ends w = OpenOk c"
    "select_ends w = SeesEnds kind dropped" "kind = RemoteEof \<or> kind = LocalShutdown"
    "receives w = map (\<lambda>b. (Chunk b, True)) chunks @ (OutputEnd, t) # rest" "length (concat chunks) \<le> mo"
    "run (interpretation_env w) (map Bytes chunks @ [FinishClean]) (owner_new (interpretation_request w c) (receiver_limit w)) = (Some e, ow)"
    "end_kind e = EndComplete"
    "ok = \<lparr>ok_units = fst (collect_units mr 0 (take (collected w) (sent (own_pub ow)))), ok_session = opened_session c,
      ok_input_bytes = length (exchange_bytes enc), ok_output_bytes = length (concat chunks)\<rparr>"
proof -
  obtain c tr0 s0 where c: "open_ends w = OpenOk c" and a: "await_ends mr mo (length (exchange_bytes enc)) c w tr0 s0 = (Ok ok, tr, s')"
    using exchange_ok [OF assms(1)] .
  obtain e ow kind dropped where i: "interpreted mo w c = (Some e, ow)" "end_kind e = EndComplete"
    and k: "select_ends w = SeesEnds kind dropped" "kind = RemoteEof \<or> kind = LocalShutdown"
    and ok: "ok = \<lparr>ok_units = fst (collect_units mr 0 (take (collected w) (sent (own_pub ow)))),
      ok_session = opened_session c, ok_input_bytes = length (exchange_bytes enc), ok_output_bytes = fst (snd (pumped mo w))\<rparr>"
    using await_ok [OF a] .
  obtain cmds n lim where p: "pumped mo w = (cmds, n, lim)" by (metis prod.exhaust)
  have "FinishClean \<in> set cmds" using complete_needs_finish i p unfolding interpreted_def by fastforce
  with pump_clean [of mo "receives w" 0 cmds n lim] p assms(2)
  obtain chunks t rest where s: "receives w = map (\<lambda>b. (Chunk b, True)) chunks @ (OutputEnd, t) # rest"
    "cmds = map Bytes chunks @ [FinishClean]" "n = length (concat chunks)" "n \<le> mo"
    by (auto simp: pumped_def)
  with c i k ok p show thesis by (intro that) (auto simp: interpreted_def)
qed

lemma exchange_usage:
  assumes "run_encoded_exchange mr mo enc gate w s = (Ok ok, tr, s')" and "mo < usize_max"
  shows "ok_input_bytes ok = length (exchange_bytes enc) \<and> ok_output_bytes ok \<le> mo"
  using exchange_complete [OF assms] by fastforce

text \<open>A completed exchange has an encoded request within its limits and went well.\<close>

lemma completed_exchange_ran:
  assumes "run_direct_llm_exchange xid l encoding gate w s = (out, tr, s')" and "xo_terminal out = TxCompleted"
  obtains enc ok s0 where "encoding = Ok enc" "length (exchange_bytes enc) \<le> xl_encoded l" "\<not> budget_exceeded l enc"
    "run_encoded_exchange (xl_retained l) (xl_remaining_output l) enc gate w s = (Ok ok, tr, s0)"
    "out = exchange_outcome xid (Ok ok)"
proof -
  have "to_terminal f \<noteq> TxCompleted" for f by (cases f) simp_all
  with assms that show thesis
    by (auto simp: run_direct_llm_exchange_def exchange_run_inner_def exchange_outcome_def failed_outcome_def
        split: sum.splits if_splits prod.splits)
qed

text \<open>
  C15. An exchange that reports completion has done all of it. The request was encoded, is within the
  bound of an exchange and within what is left of the provider budget; the provider ended its
  output; every byte of it, no more than what is left of the output budget, went in order to one
  interpretation, which was told of the end and completed; and the units are an initial part of
  the units of that interpretation, all of them when the collector has seen all events and they
  fit into what may be retained.
\<close>

theorem completed_exchange_sound:
  assumes "run_direct_llm_exchange xid l encoding gate w s = (out, tr, s')" and "xo_terminal out = TxCompleted"
    and "xl_remaining_output l < usize_max"
  shows "\<exists>enc c chunks t rest report ow.
    encoding = Ok enc \<and> encoded_input_bytes out = length (exchange_bytes enc)
    \<and> encoded_input_bytes out \<le> xl_encoded l \<and> encoded_input_bytes out \<le> xl_remaining_input l
    \<and> open_ends w = OpenOk c \<and> xo_external_session out = opened_session c
    \<and> receives w = map (\<lambda>b. (Chunk b, True)) chunks @ (OutputEnd, t) # rest
    \<and> received_output_bytes out = length (concat chunks) \<and> received_output_bytes out \<le> xl_remaining_output l
    \<and> run (interpretation_env w) (map Bytes chunks @ [FinishClean]) (owner_new (interpretation_request w c) (receiver_limit w))
        = (Some report, ow) \<and> end_kind report = EndComplete
    \<and> prefix (xo_units out) (units_in (sent (own_pub ow)))
    \<and> (length (sent (own_pub ow)) \<le> collected w \<longrightarrow> xl_retained l < usize_max
        \<longrightarrow> sum_list (map estimate_retained_unit_bytes (units_in (sent (own_pub ow)))) \<le> xl_retained l
        \<longrightarrow> xo_units out = units_in (sent (own_pub ow)))"
proof -
  obtain enc ok s0 where enc: "encoding = Ok enc" "length (exchange_bytes enc) \<le> xl_encoded l" "\<not> budget_exceeded l enc"
    and r: "run_encoded_exchange (xl_retained l) (xl_remaining_output l) enc gate w s = (Ok ok, tr, s0)"
    and out: "out = exchange_outcome xid (Ok ok)"
    using completed_exchange_ran [OF assms(1,2)] .
  obtain c e ow chunks t rest where c: "open_ends w = OpenOk c"
    and s: "receives w = map (\<lambda>b. (Chunk b, True)) chunks @ (OutputEnd, t) # rest" "length (concat chunks) \<le> xl_remaining_output l"
    and i: "run (interpretation_env w) (map Bytes chunks @ [FinishClean]) (owner_new (interpretation_request w c) (receiver_limit w))
      = (Some e, ow)" "end_kind e = EndComplete"
    and ok: "ok = \<lparr>ok_units = fst (collect_units (xl_retained l) 0 (take (collected w) (sent (own_pub ow)))),
      ok_session = opened_session c, ok_input_bytes = length (exchange_bytes enc), ok_output_bytes = length (concat chunks)\<rparr>"
    using exchange_complete [OF r assms(3)] by metis
  have "prefix (ok_units ok) (units_in (sent (own_pub ow)))"
    by (simp add: ok prefix_order.trans [OF collect_prefix units_in_take])
  moreover have "length (sent (own_pub ow)) \<le> collected w \<longrightarrow> xl_retained l < usize_max
        \<longrightarrow> sum_list (map estimate_retained_unit_bytes (units_in (sent (own_pub ow)))) \<le> xl_retained l
        \<longrightarrow> ok_units ok = units_in (sent (own_pub ow))"
    by (simp add: ok collect_all)
  ultimately show ?thesis
    using enc c i s
    by (intro exI [of _ enc] exI [of _ c] exI [of _ chunks] exI [of _ t] exI [of _ rest] exI [of _ e] exI [of _ ow])
      (auto simp: out ok exchange_outcome_def budget_exceeded_def)
qed

section \<open>Witnesses\<close>

definition test_connection :: opened_connection where
  "test_connection = \<lparr>opened_id = ''c'', opened_session = Some ''e'', opened_dialect = dialect_of Test\<rparr>"

definition good_world :: exchange_world where
  "good_world =
     \<lparr>expired = False, owner_spawn = SpawnAccepted, open_ends = OpenOk test_connection,
      interpretation_env = plain_env hello_codec, interpretation_name = ''i'', pump_spawn = SpawnAccepted,
      receives = [(Chunk ''a'', True), (OutputEnd, True)], gate_gone = False, cancelled_at_gate = False,
      send_fails = False, finish_fails = False, units_spawn = SpawnAccepted, receiver_limit = None, collected = 9,
      select_ends = SeesEnds RemoteEof False\<rparr>"

definition small_exchange :: encoded_exchange where
  "small_exchange = \<lparr>exchange_bytes = ''q'', required_input_dialect = openai_dialect, input_policy = SendAndFinish\<rparr>"

definition wide_limits :: exchange_limits where
  "wide_limits = \<lparr>xl_encoded = 9, xl_retained = 1000, xl_remaining_input = 9, xl_remaining_output = 9\<rparr>"

definition seven :: "string option \<Rightarrow> nat \<Rightarrow> prompt_proceed \<times> nat" where
  "seven e n = (ProceedOk, n + 7)"

lemma good_commands: "pumped 9 good_world = ([Bytes ''a'', FinishClean], 1, False)"
  by (simp add: pumped_def good_world_def saturating_add_def usize_max_def)

lemma pushed_a:
  "split_valid_utf8 ''a'' = (''a'', [])" "from_utf8_lossy ''a'' = ''a''" "buffered_bytes (segmenter assembly_default) = 0"
  "fst (assembly_push ''a'' None None assembly_default) = []"
  "map fst (fst (assembly_seal (snd (assembly_push ''a'' None None assembly_default)))) = [''a'']"
  by code_simp+

lemma good_run:
  "map_option end_kind (fst (interpreted 9 good_world test_connection)) = Some EndComplete"
  "map (\<lambda>u. snapshot_unit (event_snapshot u)) (units_in (sent (own_pub (snd (interpreted 9 good_world test_connection)))))
     = [Text \<lparr>sentence_id = ''s-'' @ nat_str 1, sentence_channel = PublicResponse, paragraph_id = None, sentence_ordinal = 1,
          sentence_content = ''a''\<rparr>]"
proof -
  obtain asm where p: "assembly_push ''a'' None None assembly_default = ([], asm)" using pushed_a(4) by (metis prod.collapse)
  obtain meta asm' where q: "assembly_seal asm = ([(''a'', meta)], asm')" using pushed_a(5) by (cases "assembly_seal asm") (auto simp: p)
  note defs = interpretation_request_def good_world_def test_connection_def owner_new_def ingest_bytes_def
    ingest_dialect_def own_family_def dialect_of_def own_limits_def default_interpretation_limits_def ingest_test_text_def on_text_def
    seal_clean_def seal_text_channels_def seal_channel_def emit_sentence_def own_publish_def publish_def publisher_new_def finish_def
    next_lane_ordinal_def snapshot_def plain_env_def Let_def
  show "map_option end_kind (fst (interpreted 9 good_world test_connection)) = Some EndComplete"
    unfolding interpreted_def good_commands by (simp add: defs p q pushed_a)
  show "map (\<lambda>u. snapshot_unit (event_snapshot u)) (units_in (sent (own_pub (snd (interpreted 9 good_world test_connection)))))
     = [Text \<lparr>sentence_id = ''s-'' @ nat_str 1, sentence_channel = PublicResponse, paragraph_id = None, sentence_ordinal = 1,
          sentence_content = ''a''\<rparr>]"
    unfolding interpreted_def good_commands by (simp add: defs p q pushed_a)
qed

theorem exchange_cleans_up_witness:
  "case run_encoded_exchange 1000 9 small_exchange (Some seven) (good_world\<lparr>select_ends := SeesDeadline\<rparr>) 1 of (r, tr, s) \<Rightarrow>
     r = Err FailDeadline \<and> children_awaited tr \<and> ConnectionTerminated \<in> set tr \<and> bodies_sent tr \<in> {[], [''q'']}"
proof -
  obtain r tr s where x: "run_encoded_exchange 1000 9 small_exchange (Some seven) (good_world\<lparr>select_ends := SeesDeadline\<rparr>) 1 = (r, tr, s)"
    by (metis prod.exhaust)
  have "OwnerRegistered \<in> set tr" and "r = Err FailDeadline" and "\<not> expired (good_world\<lparr>select_ends := SeesDeadline\<rparr>)"
    using x by (auto simp: run_encoded_exchange_def pass_gate_def send_prompt_def await_ends_def seven_def good_world_def
        small_exchange_def test_connection_def start_def supports_def supported_family_def interpretation_request_def
        dialect_of_def validate_dialect_def fail_cleanup_def Let_def split: prod.splits option.splits)
  moreover have "exchange_bytes small_exchange = ''q''" by (simp add: small_exchange_def)
  ultimately show ?thesis using exchange_cleans_up [OF x] unfolding x by auto
qed

lemma good_encoded:
  assumes "case gate of None \<Rightarrow> s' = s | Some g \<Rightarrow> g (Some ''e'') s = (ProceedOk, s')"
  shows "\<exists>tr. run_encoded_exchange mr 9 small_exchange gate (good_world\<lparr>collected := k\<rparr>) s =
      (Ok \<lparr>ok_units = fst (collect_units mr 0 (take k (sent (own_pub (snd (interpreted 9 good_world test_connection)))))),
           ok_session = Some ''e'', ok_input_bytes = 1, ok_output_bytes = 1\<rparr>, tr, s') \<and> bodies_sent tr = [''q'']"
proof -
  obtain e ow where i: "interpreted 9 good_world test_connection = (Some e, ow)" "end_kind e = EndComplete"
    using good_run(1) by (metis (no_types, lifting) map_option_eq_Some prod.collapse)
  have same: "interpreted 9 (good_world\<lparr>collected := k\<rparr>) test_connection = (Some e, ow)" "pumped 9 (good_world\<lparr>collected := k\<rparr>) = pumped 9 good_world"
    using i(1) by (simp_all add: interpreted_def pumped_def interpretation_request_def)
  obtain x where st: "start (interpretation_env good_world) (interpretation_request (good_world\<lparr>collected := k\<rparr>) test_connection)
      (receiver_limit good_world) [] = Inr x"
    by (auto simp: start_def supports_def supported_family_def interpretation_request_def test_connection_def dialect_of_def
        validate_dialect_def Let_def)
  have f: "expired good_world = False" "owner_spawn good_world = SpawnAccepted" "open_ends good_world = OpenOk test_connection"
    "pump_spawn good_world = SpawnAccepted" "send_fails good_world = False" "finish_fails good_world = False"
    "gate_gone good_world = False" "cancelled_at_gate good_world = False"
    "units_spawn good_world = SpawnAccepted" "select_ends good_world = SeesEnds RemoteEof False" "opened_session test_connection = Some ''e''"
    by (simp_all add: good_world_def test_connection_def)
  show ?thesis
    using assms
    by (cases gate) (simp_all add: run_encoded_exchange_def pass_gate_def send_prompt_def await_ends_def small_exchange_def
        good_commands same i interpretation_ended_def reconcile_terminals_def Let_def f st)
qed

lemma good_exchange:
  assumes "xl_remaining_output l = 9" and "1 \<le> xl_encoded l" and "1 \<le> xl_remaining_input l"
    and "case gate of None \<Rightarrow> s' = s | Some g \<Rightarrow> g (Some ''e'') s = (ProceedOk, s')"
  shows "\<exists>tr. run_direct_llm_exchange xid l (Ok small_exchange) gate (good_world\<lparr>collected := k\<rparr>) s =
      (\<lparr>xo_units = fst (collect_units (xl_retained l) 0 (take k (sent (own_pub (snd (interpreted 9 good_world test_connection)))))),
        xo_terminal = TxCompleted, xo_exchange = xid, xo_external_session = Some ''e'', encoded_input_bytes = 1,
        received_output_bytes = 1\<rparr>, tr, s') \<and> bodies_sent tr = [''q'']"
proof -
  have "length (exchange_bytes small_exchange) = 1" by (simp add: small_exchange_def)
  then show ?thesis
    using assms(1-3) good_encoded [OF assms(4), of "xl_retained l" k]
    by (auto simp: run_direct_llm_exchange_def exchange_run_inner_def budget_exceeded_def exchange_outcome_def)
qed

lemma wide_exchange:
  "\<exists>tr. run_direct_llm_exchange ''x'' wide_limits (Ok small_exchange) None (good_world\<lparr>collected := k\<rparr>) () =
      (\<lparr>xo_units = fst (collect_units 1000 0 (take k (sent (own_pub (snd (interpreted 9 good_world test_connection)))))),
        xo_terminal = TxCompleted, xo_exchange = ''x'', xo_external_session = Some ''e'', encoded_input_bytes = 1,
        received_output_bytes = 1\<rparr>, tr, ())"
  using good_exchange [where l = wide_limits and gate = None and s = "()" and s' = "()" and xid = "''x''" and k = k] by (auto simp: wide_limits_def)

theorem completed_exchange_sound_witness:
  "case run_direct_llm_exchange ''x'' wide_limits (Ok small_exchange) None good_world () of (out, tr, s) \<Rightarrow>
     xo_terminal out = TxCompleted \<and> encoded_input_bytes out \<le> 9 \<and> received_output_bytes out \<le> 9"
proof -
  obtain out tr s where x: "run_direct_llm_exchange ''x'' wide_limits (Ok small_exchange) None good_world () = (out, tr, s)" by (metis prod.exhaust)
  have "good_world\<lparr>collected := 9\<rparr> = good_world" by (simp add: good_world_def)
  with x wide_exchange [of 9] have fin: "xo_terminal out = TxCompleted" by simp
  from completed_exchange_sound [OF x fin] fin show ?thesis
    unfolding x by (auto simp: wide_limits_def usize_max_def)
qed

text \<open>
  Completion does not wait for the collector. Its children are awaited only for the cleanup
  grace, and the limit of retained units is looked at only until both ends have come in: a
  collector that is behind leaves the exchange complete with fewer units than were interpreted.
\<close>

lemma completed_without_units:
  "case fst (run_direct_llm_exchange ''x'' wide_limits (Ok small_exchange) None (good_world\<lparr>collected := 0\<rparr>) ()) of out \<Rightarrow>
     xo_terminal out = TxCompleted \<and> xo_units out = []"
  "length (units_in (sent (own_pub (snd (interpreted 9 good_world test_connection))))) = 1"
  using wide_exchange [of 0] arg_cong [where f = length, OF good_run(2)] by auto

end
