(* ===== verification/Mcp_Gateway.thy ===== *)
theory Mcp_Gateway
  imports Mcp Exchange
begin

text \<open>
  The HTTP side of the MCP gateway: \<open>transaction/mcp/gateway.rs\<close> and
  \<open>transaction/lifecycle/mcp_request_owner.rs\<close>, at the grain of their atomic operations.

  A request is a program counter over the gateway: the lookup of its route, the hand-over to its
  owner, the second lookup inside the owned task, the global permit, the service of its
  capability, the permit of that service, and the handling. Requests, installations, activations,
  revocations and dropped tasks interleave in any way. The HTTP and MCP libraries are what a step
  is told: how the body and the handling end, and which calls the library makes on the handler.
\<close>

section \<open>State\<close>

record mcp_gateway_limits =
  max_global_requests :: nat
  max_per_capability_requests :: nat
  request_duration :: nat

definition default_gateway_limits :: mcp_gateway_limits where
  "default_gateway_limits =
     \<lparr>max_global_requests = 64, max_per_capability_requests = 8, request_duration = 30 * 1000\<rparr>"

definition validated_limits :: "mcp_gateway_limits \<Rightarrow> (mcp_install_error, mcp_gateway_limits) result" where
  "validated_limits l =
     (if max_global_requests l = 0 \<or> max_per_capability_requests l = 0 \<or> request_duration l = 0 then Err InvalidDescriptor
      else Ok l)"

record capability_service =
  svc_binding :: mcp_binding
  svc_cancelled :: bool
  svc_permits :: nat

text \<open>The services of the map are shared with the requests that hold one, so they are on a heap.\<close>

record gateway_state =
  gw_table :: mcp_table
  gw_services :: "(string \<times> nat) list"
  service_heap :: "capability_service list"
  request_permits :: nat
  gw_max_per_capability :: nat
  gw_base_url :: string

definition prepare_gateway :: "bool \<Rightarrow> string \<Rightarrow> nat \<Rightarrow> mcp_gateway_limits \<Rightarrow> (mcp_install_error, gateway_state) result" where
  "prepare_gateway loopback local_addr n limits =
     (case validated_limits limits of
        Inl e \<Rightarrow> Err e
      | Inr l \<Rightarrow>
          if \<not> loopback then Err InvalidDescriptor
          else Ok \<lparr>gw_table = route_table_new n, gw_services = [], service_heap = [],
                   request_permits = max_global_requests l, gw_max_per_capability = max_per_capability_requests l,
                   gw_base_url = ''http://'' @ local_addr\<rparr>)"

definition drop_capability_service :: "string \<Rightarrow> gateway_state \<Rightarrow> gateway_state" where
  "drop_capability_service hex g =
     (let key = (case from_hex hex of Some t \<Rightarrow> to_hex t | None \<Rightarrow> to_ascii_lowercase hex)
      in case map_of (gw_services g) key of
           None \<Rightarrow> g
         | Some a \<Rightarrow>
             g\<lparr>gw_services := assoc_del key (gw_services g),
               service_heap := (service_heap g)[a := (service_heap g ! a)\<lparr>svc_cancelled := True\<rparr>]\<rparr>)"

section \<open>The handle\<close>

definition gateway_install ::
  "string \<Rightarrow> resolved_tool_set \<Rightarrow> nat \<Rightarrow> string \<Rightarrow> nat \<Rightarrow> capability_token option \<Rightarrow> gateway_state
    \<Rightarrow> (mcp_install_error, pending_mcp_binding) result \<times> gateway_state" where
  "gateway_install tx tools dispatcher exchange deadline entropy g =
     (case install_pending_with_deadline tx tools dispatcher exchange (gw_base_url g) deadline entropy (gw_table g) of
        (r, t) \<Rightarrow> (r, g\<lparr>gw_table := t\<rparr>))"

definition gateway_activate :: "capability_token \<Rightarrow> gateway_state \<Rightarrow> (mcp_install_error, unit) result \<times> gateway_state" where
  "gateway_activate token g = (case activate token (gw_table g) of (r, t) \<Rightarrow> (r, g\<lparr>gw_table := t\<rparr>))"

text \<open>The route is removed under one lock and the service under another; the two are two steps of the relation below.\<close>

definition gateway_revoke :: "capability_token \<Rightarrow> gateway_state \<Rightarrow> bool \<times> gateway_state" where
  "gateway_revoke token g =
     (case revoke token (gw_table g) of
        (removed, t) \<Rightarrow> (removed, (if removed then drop_capability_service (to_hex token) else id) (g\<lparr>gw_table := t\<rparr>)))"

definition revoke_all_services :: "gateway_state \<Rightarrow> gateway_state" where
  "revoke_all_services g =
     (case revoke_all (gw_table g) of (hexes, t) \<Rightarrow> fold drop_capability_service hexes (g\<lparr>gw_table := t\<rparr>))"

section \<open>Requests\<close>

datatype http_response =
    UnknownCapabilityResponse
  | GatewayBusyResponse
  | CapabilityBusyResponse
  | BodyTooLargeResponse
  | TimeoutResponse
  | UnavailableResponse string
  | HandledResponse string

datatype mcp_request_pc =
    Arrived string
  | RouteFound string mcp_binding
  | OwnedWork string mcp_binding
  | RouteChecked string mcp_binding
  | HasGlobal string mcp_binding
  | HasService nat
  | Handling nat
  | Answered http_response

text \<open>What the outside decides: the answer of the supervisor to the spawn, and how body and handling end.\<close>

datatype request_choice =
    Runs
  | OwnerAnswers spawn_answer
  | BodyFails
  | TimesOut
  | HandlesWith string

definition release_permits :: "nat \<Rightarrow> gateway_state \<Rightarrow> gateway_state" where
  "release_permits a g =
     g\<lparr>service_heap := (service_heap g)[a := (service_heap g ! a)\<lparr>svc_permits := svc_permits (service_heap g ! a) + 1\<rparr>],
       request_permits := request_permits g + 1\<rparr>"

definition enter_service :: "string \<Rightarrow> mcp_binding \<Rightarrow> gateway_state \<Rightarrow> nat \<times> gateway_state" where
  "enter_service hex b g =
     (case map_of (gw_services g) hex of
        Some a \<Rightarrow> (a, g)
      | None \<Rightarrow>
          (length (service_heap g),
           g\<lparr>gw_services := assoc_put hex (length (service_heap g)) (gw_services g),
             service_heap := service_heap g @ [\<lparr>svc_binding = b, svc_cancelled = False, svc_permits = gw_max_per_capability g\<rparr>]\<rparr>))"

fun request_step :: "request_choice \<Rightarrow> mcp_request_pc \<Rightarrow> gateway_state \<Rightarrow> mcp_request_pc \<times> gateway_state" where
  "request_step c (Arrived seg) g =
     (case from_hex seg of
        None \<Rightarrow> (Answered UnknownCapabilityResponse, g)
      | Some t \<Rightarrow>
          (case get_by_hex (to_hex t) (gw_table g) of
             None \<Rightarrow> (Answered UnknownCapabilityResponse, drop_capability_service (to_hex t) g)
           | Some b \<Rightarrow> (RouteFound (to_hex t) b, g)))"
| "request_step c (RouteFound hex b) g =
     (case c of
        OwnerAnswers a \<Rightarrow>
          if a = SpawnAccepted then (OwnedWork hex b, g)
          else (Answered (UnavailableResponse ''mcp request spawn unavailable''), g)
      | _ \<Rightarrow> (OwnedWork hex b, g))"
| "request_step c (OwnedWork hex b) g =
     (case get_by_hex hex (gw_table g) of
        None \<Rightarrow> (Answered UnknownCapabilityResponse, drop_capability_service hex g)
      | Some _ \<Rightarrow> (RouteChecked hex b, g))"
| "request_step c (RouteChecked hex b) g =
     (if request_permits g = 0 then (Answered GatewayBusyResponse, g)
      else (HasGlobal hex b, g\<lparr>request_permits := request_permits g - 1\<rparr>))"
| "request_step c (HasGlobal hex b) g = (case enter_service hex b g of (a, g) \<Rightarrow> (HasService a, g))"
| "request_step c (HasService a) g =
     (if svc_permits (service_heap g ! a) = 0
      then (Answered CapabilityBusyResponse, g\<lparr>request_permits := request_permits g + 1\<rparr>)
      else (Handling a, g\<lparr>service_heap := (service_heap g)[a :=
              (service_heap g ! a)\<lparr>svc_permits := svc_permits (service_heap g ! a) - 1\<rparr>]\<rparr>))"
| "request_step c (Handling a) g =
     (Answered (case c of BodyFails \<Rightarrow> BodyTooLargeResponse | HandlesWith s \<Rightarrow> HandledResponse s | _ \<Rightarrow> TimeoutResponse),
      release_permits a g)"
| "request_step c (Answered r) g = (Answered r, g)"

text \<open>A task that is dropped releases what it holds.\<close>

fun request_drop :: "mcp_request_pc \<Rightarrow> gateway_state \<Rightarrow> mcp_request_pc \<times> gateway_state" where
  "request_drop (HasGlobal hex b) g =
     (Answered (UnavailableResponse ''mcp request task dropped''), g\<lparr>request_permits := request_permits g + 1\<rparr>)"
| "request_drop (HasService a) g =
     (Answered (UnavailableResponse ''mcp request task dropped''), g\<lparr>request_permits := request_permits g + 1\<rparr>)"
| "request_drop (Handling a) g = (Answered (UnavailableResponse ''mcp request task dropped''), release_permits a g)"
| "request_drop (Answered r) g = (Answered r, g)"
| "request_drop pc g = (Answered (UnavailableResponse ''mcp request task dropped''), g)"

text \<open>The path that the handler sees. Whether the HTTP library takes the new path is an argument.\<close>

definition rewrite_path :: "(string \<Rightarrow> bool) \<Rightarrow> string \<Rightarrow> string option \<Rightarrow> string \<Rightarrow> string" where
  "rewrite_path parses path query hex =
     (let new_path = (case strip_prefix (''/mcp/'' @ hex) path of
                        Some rest \<Rightarrow> if rest = [] then ''/'' else rest
                      | None \<Rightarrow> path);
          pq = (case query of Some q \<Rightarrow> new_path @ ''?'' @ q | None \<Rightarrow> new_path)
      in if parses pq then pq else (case query of Some q \<Rightarrow> path @ ''?'' @ q | None \<Rightarrow> path))"

section \<open>Runs\<close>

datatype mcp_log = Activated nat | Revoked nat | Admitted mcp_binding dispatch_request | Refused mcp_binding mcp_error

record mcp_system =
  sys_gateway :: gateway_state
  sys_requests :: "mcp_request_pc list"
  sys_log :: "mcp_log list"

definition revoked_cell :: "capability_token \<Rightarrow> mcp_table \<Rightarrow> mcp_log list" where
  "revoked_cell token t = (case map_of (routes t) token of Some b \<Rightarrow> [Revoked (mb_cell b)] | None \<Rightarrow> [])"

definition activated_cell :: "capability_token \<Rightarrow> mcp_table \<Rightarrow> mcp_log list" where
  "activated_cell token t =
     (case map_of (routes t) token of
        Some b \<Rightarrow> if binding_state b t = McpPending then [Activated (mb_cell b)] else []
      | None \<Rightarrow> [])"

inductive mcp_step :: "json_codec \<Rightarrow> mcp_system \<Rightarrow> mcp_system \<Rightarrow> bool" for codec where
  Install: "gateway_install tx tools d x dl entropy g = (r, g') \<Longrightarrow>
    mcp_step codec \<lparr>sys_gateway = g, sys_requests = rs, sys_log = l\<rparr> \<lparr>sys_gateway = g', sys_requests = rs, sys_log = l\<rparr>"
| Activate: "gateway_activate token g = (r, g') \<Longrightarrow>
    mcp_step codec \<lparr>sys_gateway = g, sys_requests = rs, sys_log = l\<rparr>
      \<lparr>sys_gateway = g', sys_requests = rs, sys_log = l @ activated_cell token (gw_table g)\<rparr>"
| RevokeRoute: "revoke token (gw_table g) = (removed, t) \<Longrightarrow>
    mcp_step codec \<lparr>sys_gateway = g, sys_requests = rs, sys_log = l\<rparr>
      \<lparr>sys_gateway = g\<lparr>gw_table := t\<rparr>, sys_requests = rs, sys_log = l @ revoked_cell token (gw_table g)\<rparr>"
| RevokeAllRoutes: "revoke_all (gw_table g) = (hexes, t) \<Longrightarrow>
    mcp_step codec \<lparr>sys_gateway = g, sys_requests = rs, sys_log = l\<rparr>
      \<lparr>sys_gateway = g\<lparr>gw_table := t\<rparr>, sys_requests = rs,
       sys_log = l @ map (\<lambda>(_, b). Revoked (mb_cell b)) (routes (gw_table g))\<rparr>"
| DropService: "mcp_step codec \<lparr>sys_gateway = g, sys_requests = rs, sys_log = l\<rparr>
    \<lparr>sys_gateway = drop_capability_service hex g, sys_requests = rs, sys_log = l\<rparr>"
| Arrive: "mcp_step codec \<lparr>sys_gateway = g, sys_requests = rs, sys_log = l\<rparr>
    \<lparr>sys_gateway = g, sys_requests = rs @ [Arrived seg], sys_log = l\<rparr>"
| Request: "i < length rs \<Longrightarrow> request_step c (rs ! i) g = (pc, g') \<Longrightarrow>
    mcp_step codec \<lparr>sys_gateway = g, sys_requests = rs, sys_log = l\<rparr>
      \<lparr>sys_gateway = g', sys_requests = rs[i := pc], sys_log = l\<rparr>"
| DropRequest: "i < length rs \<Longrightarrow> request_drop (rs ! i) g = (pc, g') \<Longrightarrow>
    mcp_step codec \<lparr>sys_gateway = g, sys_requests = rs, sys_log = l\<rparr>
      \<lparr>sys_gateway = g', sys_requests = rs[i := pc], sys_log = l\<rparr>"
| CallTool: "i < length rs \<Longrightarrow> rs ! i = Handling a \<Longrightarrow> b = svc_binding (service_heap g ! a) \<Longrightarrow>
    mcp_step codec \<lparr>sys_gateway = g, sys_requests = rs, sys_log = l\<rparr>
      \<lparr>sys_gateway = g, sys_requests = rs,
       sys_log = l @ [case mcp_request codec b (gw_table g) uuid name arguments of Inr q \<Rightarrow> Admitted b q | Inl e \<Rightarrow> Refused b e]\<rparr>"

definition mcp_start :: "gateway_state \<Rightarrow> mcp_system" where
  "mcp_start g = \<lparr>sys_gateway = g, sys_requests = [], sys_log = []\<rparr>"

inductive mcp_reachable :: "json_codec \<Rightarrow> gateway_state \<Rightarrow> mcp_system \<Rightarrow> bool" for codec g0 where
  Start: "mcp_reachable codec g0 (mcp_start g0)"
| Step: "mcp_reachable codec g0 s \<Longrightarrow> mcp_step codec s s' \<Longrightarrow> mcp_reachable codec g0 s'"

section \<open>Calls within activation\<close>

text \<open>What the log says of a cell, and the table refines it.\<close>

definition logged_state :: "mcp_log list \<Rightarrow> nat \<Rightarrow> mcp_binding_state" where
  "logged_state l c =
     (if Revoked c \<in> set l then McpRevoked else if Activated c \<in> set l then McpActive else McpPending)"

definition entry_ok :: "mcp_log list \<Rightarrow> mcp_log \<Rightarrow> bool" where
  "entry_ok l x =
     (case x of
        Admitted b q \<Rightarrow>
          logged_state l (mb_cell b) = McpActive \<and> req_exchange q = mb_exchange b \<and> req_deadline q = mb_deadline b \<and>
          map_of (res_by_name (mb_tools b)) (req_tool_name q) \<noteq> None \<and>
          req_action q = ''mcp:'' @ mb_transaction b @ '':'' @ req_tool_name q
      | _ \<Rightarrow> True)"

definition admitted_ok :: "mcp_log list \<Rightarrow> bool" where
  "admitted_ok l \<longleftrightarrow> (\<forall>i < length l. entry_ok (take i l) (l ! i))"

definition cells_logged :: "mcp_table \<Rightarrow> mcp_log list \<Rightarrow> bool" where
  "cells_logged t l \<longleftrightarrow>
     (\<forall>c < length (state_cells t). state_cells t ! c = logged_state l c) \<and>
     (\<forall>c \<ge> length (state_cells t). logged_state l c = McpPending)"

fun pc_binding :: "mcp_request_pc \<Rightarrow> mcp_binding option" where
  "pc_binding (RouteFound hex b) = Some b"
| "pc_binding (OwnedWork hex b) = Some b"
| "pc_binding (RouteChecked hex b) = Some b"
| "pc_binding (HasGlobal hex b) = Some b"
| "pc_binding _ = None"

fun pc_service :: "mcp_request_pc \<Rightarrow> nat option" where
  "pc_service (HasService a) = Some a"
| "pc_service (Handling a) = Some a"
| "pc_service _ = None"

text \<open>Addresses of cells and services are always allocated.\<close>

definition pc_wf :: "nat \<Rightarrow> nat \<Rightarrow> mcp_request_pc \<Rightarrow> bool" where
  "pc_wf cells heap pc \<longleftrightarrow> pred_option (\<lambda>b. mb_cell b < cells) (pc_binding pc) \<and> pred_option (\<lambda>a. a < heap) (pc_service pc)"

definition gateway_wf :: "gateway_state \<Rightarrow> bool" where
  "gateway_wf g \<longleftrightarrow> table_wf (gw_table g) \<and>
     list_all (\<lambda>svc. mb_cell (svc_binding svc) < length (state_cells (gw_table g))) (service_heap g) \<and>
     list_all (\<lambda>(_, a). a < length (service_heap g)) (gw_services g)"

lemma wf_service: "gateway_wf g \<Longrightarrow> map_of (gw_services g) hex = Some a \<Longrightarrow> a < length (service_heap g)"
  by (auto simp: gateway_wf_def list_all_iff dest!: map_of_SomeD)

lemma wf_route: "gateway_wf g \<Longrightarrow> get_by_hex hex (gw_table g) = Some b \<Longrightarrow> mb_cell b < length (state_cells (gw_table g))"
  by (auto simp: gateway_wf_def table_wf_def get_by_hex_def get_route_def list_all_iff bind_eq_Some_conv dest!: map_of_SomeD)

lemma wf_update_service:
  assumes "gateway_wf g" and "svc_binding svc = svc_binding (service_heap g ! a)"
  shows "gateway_wf (g\<lparr>service_heap := (service_heap g)[a := svc]\<rparr>)"
proof (cases "a < length (service_heap g)")
  case True
  with assms have "mb_cell (svc_binding svc) < length (state_cells (gw_table g))" by (simp add: gateway_wf_def list_all_length)
  with assms(1) True show ?thesis by (auto simp: gateway_wf_def list_all_length nth_list_update)
qed (use assms in \<open>simp add: list_update_beyond\<close>)

lemma drop_service_frame [simp]:
  "gw_table (drop_capability_service hex g) = gw_table g"
  "request_permits (drop_capability_service hex g) = request_permits g"
  "gw_max_per_capability (drop_capability_service hex g) = gw_max_per_capability g"
  "length (service_heap (drop_capability_service hex g)) = length (service_heap g)"
  by (simp_all add: drop_capability_service_def Let_def split: option.split)

lemma nth_update_field: "f v = f (xs ! i) \<Longrightarrow> f (xs[i := v] ! j) = f (xs ! j)"
  by (cases "i < length xs") (auto simp: nth_list_update list_update_beyond)

lemma drop_service_permits [simp]:
  "svc_permits (service_heap (drop_capability_service hex g) ! a) = svc_permits (service_heap g ! a)"
  by (simp add: drop_capability_service_def Let_def nth_update_field [where f = svc_permits] split: option.split)

lemma drop_service_wf:
  assumes "gateway_wf g"
  shows "gateway_wf (drop_capability_service hex g)"
proof -
  have "gateway_wf (g\<lparr>gw_services := assoc_del key (gw_services g)\<rparr>)" for key
    using assms by (auto simp: gateway_wf_def assoc_del_def list_all_iff)
  from wf_update_service [OF this] show ?thesis
    using assms by (auto simp: drop_capability_service_def Let_def split: option.split)
qed

lemma enter_service_wf:
  assumes "gateway_wf g" and "mb_cell b < length (state_cells (gw_table g))" and "enter_service hex b g = (a, g')"
  shows "gateway_wf g' \<and> a < length (service_heap g') \<and> length (service_heap g) \<le> length (service_heap g') \<and>
    gw_table g' = gw_table g \<and> request_permits g' = request_permits g \<and> gw_max_per_capability g' = gw_max_per_capability g"
proof (cases "map_of (gw_services g) hex")
  case None
  then have g': "g' = g\<lparr>gw_services := assoc_put hex (length (service_heap g)) (gw_services g),
      service_heap := service_heap g @ [\<lparr>svc_binding = b, svc_cancelled = False, svc_permits = gw_max_per_capability g\<rparr>]\<rparr>"
    and a: "a = length (service_heap g)"
    using assms(3) by (auto simp: enter_service_def)
  have "list_all (\<lambda>(_, a). a < Suc (length (service_heap g))) (gw_services g)"
    using assms(1) by (auto simp: gateway_wf_def list_all_iff)
  then have "list_all (\<lambda>(_, a). a < Suc (length (service_heap g))) (assoc_put hex (length (service_heap g)) (gw_services g))"
    by (rule assoc_put_all) simp
  with assms(1,2) show ?thesis by (simp add: g' a gateway_wf_def)
qed (use assms wf_service in \<open>auto simp: enter_service_def\<close>)

definition system_wf :: "mcp_system \<Rightarrow> bool" where
  "system_wf s \<longleftrightarrow> gateway_wf (sys_gateway s) \<and>
     list_all (pc_wf (length (state_cells (gw_table (sys_gateway s)))) (length (service_heap (sys_gateway s)))) (sys_requests s)"

text \<open>What one step of a request does to the gateway.\<close>

lemma request_step_wf:
  assumes "gateway_wf g" and "pc_wf (length (state_cells (gw_table g))) (length (service_heap g)) pc"
    and "request_step c pc g = (pc', g')"
  shows "gateway_wf g' \<and> gw_table g' = gw_table g \<and> length (service_heap g) \<le> length (service_heap g') \<and>
    gw_max_per_capability g' = gw_max_per_capability g \<and>
    pc_wf (length (state_cells (gw_table g'))) (length (service_heap g')) pc'"
proof (cases pc)
  case (Arrived seg)
  with assms show ?thesis by (auto simp: pc_wf_def drop_service_wf wf_route split: option.splits)
next
  case (OwnedWork hex b)
  with assms show ?thesis by (auto simp: pc_wf_def drop_service_wf split: option.splits)
next
  case (HasGlobal hex b)
  then obtain a where "enter_service hex b g = (a, g')" "pc' = HasService a"
    using assms(3) by (auto split: prod.splits)
  with HasGlobal assms enter_service_wf [of g b hex a g'] show ?thesis by (simp add: pc_wf_def)
next
  case (HasService a)
  with assms wf_update_service [OF assms(1), of _ a] show ?thesis
    by (auto simp: pc_wf_def gateway_wf_def split: if_splits)
next
  case (Handling a)
  with assms wf_update_service [OF assms(1), of _ a] show ?thesis
    by (auto simp: pc_wf_def release_permits_def gateway_wf_def)
qed (use assms in \<open>auto simp: pc_wf_def gateway_wf_def split: if_splits request_choice.splits\<close>)

lemma request_drop_wf:
  assumes "gateway_wf g" and "request_drop pc g = (pc', g')"
  shows "gateway_wf g' \<and> gw_table g' = gw_table g \<and> length (service_heap g) = length (service_heap g') \<and>
    gw_max_per_capability g' = gw_max_per_capability g \<and> (\<exists>r. pc' = Answered r)"
  using assms wf_update_service [OF assms(1)]
  by (cases pc) (auto simp: release_permits_def gateway_wf_def)

lemma pc_wf_mono: "pc_wf m n pc \<Longrightarrow> m \<le> m' \<Longrightarrow> n \<le> n' \<Longrightarrow> pc_wf m' n' pc"
  by (cases pc) (auto simp: pc_wf_def)

lemma pcs_wf_mono: "list_all (pc_wf m n) rs \<Longrightarrow> m \<le> m' \<Longrightarrow> n \<le> n' \<Longrightarrow> list_all (pc_wf m' n') rs"
  by (auto simp: list_all_iff intro: pc_wf_mono)

lemma list_all_update: "list_all P rs \<Longrightarrow> P x \<Longrightarrow> list_all P (rs[i := x])"
  by (auto simp: list_all_iff dest: set_update_subset_insert [THEN subsetD])

lemma table_wf_gateway:
  assumes "gateway_wf g" and "table_wf t" and "length (state_cells (gw_table g)) \<le> length (state_cells t)"
  shows "gateway_wf (g\<lparr>gw_table := t\<rparr>)"
  using assms by (auto simp: gateway_wf_def list_all_iff)

lemma step_wf:
  assumes "mcp_step codec s s'" and "system_wf s"
  shows "system_wf s'"
  using assms
proof (induction rule: mcp_step.induct)
  case (Install tx tools d x dl entropy g r g' rs l)
  then obtain t where t: "install_pending_with_deadline tx tools d x (gw_base_url g) dl entropy (gw_table g) = (r, t)"
    "g' = g\<lparr>gw_table := t\<rparr>"
    by (auto simp: gateway_install_def split: prod.splits)
  with Install have "table_wf t" using install_wf [OF t(1)] by (simp add: system_wf_def gateway_wf_def)
  moreover have "length (state_cells (gw_table g)) \<le> length (state_cells t)" using install_table [OF t(1)] by auto
  ultimately show ?case
    using Install t by (auto simp: system_wf_def intro: table_wf_gateway pcs_wf_mono)
next
  case (Activate token g r g' rs l)
  then obtain t where t: "activate token (gw_table g) = (r, t)" "g' = g\<lparr>gw_table := t\<rparr>"
    by (auto simp: gateway_activate_def split: prod.splits)
  moreover have "length (state_cells t) = length (state_cells (gw_table g))"
    using t(1) by (auto simp: activate_def split: option.splits mcp_binding_state.splits)
  ultimately show ?case
    using Activate activate_wf [OF t(1)] by (auto simp: system_wf_def gateway_wf_def)
next
  case (RevokeRoute token g removed t rs l)
  moreover have "length (state_cells t) = length (state_cells (gw_table g))"
    using RevokeRoute by (auto simp: revoke_def split: option.splits)
  ultimately show ?case using revoke_wf [OF RevokeRoute(1)] by (auto simp: system_wf_def gateway_wf_def)
next
  case (RevokeAllRoutes g hexes t rs l)
  then have "t = (gw_table g)\<lparr>routes := [], state_cells := fold (\<lambda>(_, b) cs. cs[mb_cell b := McpRevoked])
      (routes (gw_table g)) (state_cells (gw_table g))\<rparr>"
    by (auto simp: revoke_all_def)
  with RevokeAllRoutes show ?case by (auto simp: system_wf_def gateway_wf_def table_wf_def revoke_all_cells)
next
  case (Request i rs c g pc g' l)
  then have "pc_wf (length (state_cells (gw_table g))) (length (service_heap g)) (rs ! i)"
    by (simp add: system_wf_def list_all_length)
  with Request request_step_wf [of g "rs ! i" c pc g'] show ?case
    by (auto simp: system_wf_def intro!: list_all_update elim!: pcs_wf_mono)
next
  case (DropRequest i rs g pc g' l)
  with request_drop_wf [of g "rs ! i" pc g'] show ?case
    by (auto simp: system_wf_def pc_wf_def intro!: list_all_update)
qed (auto simp: system_wf_def drop_service_wf pc_wf_def)

lemma logged_append:
  "logged_state (l @ l') c =
     (if Revoked c \<in> set l' then McpRevoked
      else if logged_state l c = McpPending \<and> Activated c \<in> set l' then McpActive else logged_state l c)"
  by (auto simp: logged_state_def)

lemma admitted_snoc: "admitted_ok (l @ [x]) \<longleftrightarrow> admitted_ok l \<and> entry_ok l x"
  by (auto simp: admitted_ok_def nth_append less_Suc_eq)

lemma admitted_append: "admitted_ok l \<Longrightarrow> \<forall>b q. Admitted b q \<notin> set l' \<Longrightarrow> admitted_ok (l @ l')"
proof (induction l' rule: rev_induct)
  case (snoc x l')
  then have "entry_ok (l @ l') x" by (cases x) (auto simp: entry_ok_def)
  with snoc admitted_snoc [of "l @ l'" x] show ?case by simp
qed simp

lemma install_logged:
  "install_pending_with_deadline tx tools d x url dl entropy t = (r, t') \<Longrightarrow> cells_logged t l \<Longrightarrow> cells_logged t' l"
  by (drule install_table) (auto simp: cells_logged_def nth_append less_Suc_eq)

lemma activate_logged:
  assumes "activate token t = (r, t')" and "table_wf t" and "cells_logged t l"
  shows "cells_logged t' (l @ activated_cell token t)"
proof (cases "map_of (routes t) token")
  case (Some b)
  then have "mb_cell b < length (state_cells t)" using assms(2) by (auto simp: table_wf_def list_all_iff dest!: map_of_SomeD)
  with Some assms show ?thesis
    by (auto simp: activate_def activated_cell_def cells_logged_def logged_append binding_state_def nth_list_update
        split: mcp_binding_state.splits)
qed (use assms in \<open>auto simp: activate_def activated_cell_def\<close>)

lemma revoke_logged:
  assumes "revoke token t = (r, t')" and "table_wf t" and "cells_logged t l"
  shows "cells_logged t' (l @ revoked_cell token t)"
proof (cases "map_of (routes t) token")
  case (Some b)
  then have "mb_cell b < length (state_cells t)" using assms(2) by (auto simp: table_wf_def list_all_iff dest!: map_of_SomeD)
  with Some assms show ?thesis
    by (auto simp: revoke_def revoked_cell_def cells_logged_def logged_append nth_list_update)
qed (use assms in \<open>auto simp: revoke_def revoked_cell_def\<close>)

lemma revoke_all_logged:
  assumes "revoke_all t = (hexes, t')" and "table_wf t" and "cells_logged t l"
  shows "cells_logged t' (l @ map (\<lambda>(_, b). Revoked (mb_cell b)) (routes t))"
proof -
  let ?l' = "map (\<lambda>(_, b). Revoked (mb_cell b)) (routes t)"
  have "Revoked c \<in> set ?l' \<longleftrightarrow> (\<exists>x \<in> set (routes t). mb_cell (snd x) = c)" "Activated c \<notin> set ?l'" for c
    by force+
  then have L: "logged_state (l @ ?l') c = (if \<exists>x \<in> set (routes t). mb_cell (snd x) = c then McpRevoked else logged_state l c)" for c
    by (simp only: logged_append) simp
  have wf: "x \<in> set (routes t) \<Longrightarrow> mb_cell (snd x) < length (state_cells t)" for x
    using assms(2) by (auto simp: table_wf_def list_all_iff)
  have t': "state_cells t' = fold (\<lambda>(_, b) cs. cs[mb_cell b := McpRevoked]) (routes t) (state_cells t)"
    using assms(1) by (auto simp: revoke_all_def)
  show ?thesis
    using assms(3) wf unfolding cells_logged_def t' L by (fastforce simp: revoke_all_cells)
qed

definition log_inv :: "mcp_system \<Rightarrow> bool" where
  "log_inv s \<longleftrightarrow> cells_logged (gw_table (sys_gateway s)) (sys_log s) \<and> admitted_ok (sys_log s)"

lemma step_log:
  assumes "mcp_step codec s s'" and "system_wf s" and "log_inv s"
  shows "log_inv s'"
  using assms
proof (induction rule: mcp_step.induct)
  case (Install tx tools d x dl entropy g r g' rs l)
  then show ?case by (auto simp: gateway_install_def log_inv_def intro: install_logged split: prod.splits)
next
  case (Activate token g r g' rs l)
  then obtain t where t: "activate token (gw_table g) = (r, t)" "g' = g\<lparr>gw_table := t\<rparr>"
    by (auto simp: gateway_activate_def split: prod.splits)
  have "\<forall>b q. Admitted b q \<notin> set (activated_cell token (gw_table g))" by (auto simp: activated_cell_def split: option.splits)
  with Activate t activate_logged [OF t(1)] show ?case
    by (auto simp: log_inv_def system_wf_def gateway_wf_def intro: admitted_append)
next
  case (RevokeRoute token g removed t rs l)
  moreover have "\<forall>b q. Admitted b q \<notin> set (revoked_cell token (gw_table g))" by (auto simp: revoked_cell_def split: option.splits)
  ultimately show ?case using revoke_logged [OF RevokeRoute(1)]
    by (auto simp: log_inv_def system_wf_def gateway_wf_def intro: admitted_append)
next
  case (RevokeAllRoutes g hexes t rs l)
  moreover have "\<forall>b q. Admitted b q \<notin> set (map (\<lambda>(_, b). Revoked (mb_cell b)) (routes (gw_table g)))" by auto
  ultimately show ?case using revoke_all_logged [OF RevokeAllRoutes(1)]
    by (auto simp: log_inv_def system_wf_def gateway_wf_def intro: admitted_append)
next
  case (Request i rs c g pc g' l)
  then have "pc_wf (length (state_cells (gw_table g))) (length (service_heap g)) (rs ! i)"
    by (simp add: system_wf_def list_all_length)
  with Request request_step_wf [of g "rs ! i" c pc g'] show ?case by (simp add: log_inv_def system_wf_def)
next
  case (DropRequest i rs g pc g' l)
  with request_drop_wf [of g "rs ! i" pc g'] show ?case by (simp add: log_inv_def system_wf_def)
next
  case (CallTool i rs a b g l uuid name arguments)
  have "pc_wf (length (state_cells (gw_table g))) (length (service_heap g)) (Handling a)"
    using CallTool by (auto simp: system_wf_def list_all_length)
  then have cell: "mb_cell b < length (state_cells (gw_table g))"
    using CallTool by (auto simp: system_wf_def gateway_wf_def pc_wf_def list_all_length)
  show ?case
  proof (cases "mcp_request codec b (gw_table g) uuid name arguments")
    case (Inl e)
    then show ?thesis
      using CallTool by (auto simp: log_inv_def cells_logged_def logged_append intro!: admitted_append)
  next
    case (Inr q)
    then have q: "is_active b (gw_table g)" "req_exchange q = mb_exchange b" "req_deadline q = mb_deadline b"
      "map_of (res_by_name (mb_tools b)) (req_tool_name q) \<noteq> None"
      using mcp_request_checked by blast+
    have "req_action q = ''mcp:'' @ mb_transaction b @ '':'' @ req_tool_name q"
      using Inr by (auto simp: mcp_request_def validated_string_def split: option.splits sum.splits if_splits)
    moreover from q have "logged_state l (mb_cell b) = McpActive"
      using CallTool cell by (auto simp: log_inv_def cells_logged_def is_active_def binding_state_def)
    ultimately show ?thesis
      using q Inr CallTool by (auto simp: log_inv_def cells_logged_def logged_append admitted_snoc entry_ok_def)
  qed
qed (auto simp: log_inv_def)

lemma prepared_gateway:
  assumes "prepare_gateway lb addr n lim = Ok g"
  shows "gateway_wf g" "gw_table g = route_table_new n" "service_heap g = []" "request_permits g = max_global_requests lim"
    "gw_max_per_capability g = max_per_capability_requests lim"
  using assms
  by (auto simp: prepare_gateway_def validated_limits_def gateway_wf_def table_wf_def route_table_new_def split: if_splits)

lemma reachable_wf:
  assumes "mcp_reachable codec g0 s" and "prepare_gateway lb addr n lim = Ok g0"
  shows "system_wf s \<and> log_inv s"
  using assms(1)
proof induction
  case Start
  from prepared_gateway [OF assms(2)] show ?case
    by (auto simp: mcp_start_def system_wf_def log_inv_def cells_logged_def admitted_ok_def logged_state_def route_table_new_def)
qed (auto intro: step_wf step_log)

text \<open>
  C11. A capability admits a call only while it is active. Whatever requests, installations,
  activations, revocations and dropped tasks do in between, and also when the request found its
  route and its service before the revocation: every admitted call comes after the activation of
  its binding and not after its revocation, names a tool of the binding, and runs under its
  exchange and deadline and as an action of its transaction and that tool.
\<close>

theorem mcp_calls_within_activation:
  assumes "prepare_gateway lb addr n lim = Ok g0" and "mcp_reachable codec g0 s" and "sys_log s = l1 @ Admitted b q # l2"
  shows "Activated (mb_cell b) \<in> set l1 \<and> Revoked (mb_cell b) \<notin> set l1 \<and> req_exchange q = mb_exchange b \<and>
    req_deadline q = mb_deadline b \<and> map_of (res_by_name (mb_tools b)) (req_tool_name q) \<noteq> None \<and>
    req_action q = ''mcp:'' @ mb_transaction b @ '':'' @ req_tool_name q"
proof -
  have "admitted_ok (l1 @ Admitted b q # l2)"
    using reachable_wf [OF assms(2,1)] assms(3) by (simp add: log_inv_def)
  then have "entry_ok (take (length l1) (l1 @ Admitted b q # l2)) ((l1 @ Admitted b q # l2) ! length l1)"
    unfolding admitted_ok_def by (rule allE [of _ "length l1"]) simp
  then have "logged_state l1 (mb_cell b) = McpActive" "req_exchange q = mb_exchange b" "req_deadline q = mb_deadline b"
    "map_of (res_by_name (mb_tools b)) (req_tool_name q) \<noteq> None"
    "req_action q = ''mcp:'' @ mb_transaction b @ '':'' @ req_tool_name q"
    by (simp_all add: entry_ok_def)
  then show ?thesis by (auto simp: logged_state_def split: if_splits)
qed

section \<open>Permits\<close>

fun holds_global :: "mcp_request_pc \<Rightarrow> bool" where
  "holds_global (HasGlobal hex b) = True"
| "holds_global (HasService a) = True"
| "holds_global (Handling a) = True"
| "holds_global _ = False"

abbreviation requests_with :: "(mcp_request_pc \<Rightarrow> bool) \<Rightarrow> mcp_request_pc list \<Rightarrow> nat" where
  "requests_with P rs \<equiv> length (filter P rs)"

definition permits_exact :: "nat \<Rightarrow> nat \<Rightarrow> gateway_state \<Rightarrow> mcp_request_pc list \<Rightarrow> bool" where
  "permits_exact M K g rs \<longleftrightarrow>
     request_permits g + requests_with holds_global rs = M \<and> gw_max_per_capability g = K \<and>
     (\<forall>a < length (service_heap g). svc_permits (service_heap g ! a) + requests_with ((=) (Handling a)) rs = K) \<and>
     (\<forall>a \<ge> length (service_heap g). Handling a \<notin> set rs)"

lemma requests_update:
  "i < length rs \<Longrightarrow> requests_with P (rs[i := x]) + (if P (rs ! i) then 1 else 0) = requests_with P rs + (if P x then 1 else 0)"
proof (induction rs arbitrary: i)
  case (Cons y rs)
  then show ?case by (cases i) (auto split: if_splits)
qed simp

lemma requests_update_set: "Handling a \<notin> set rs \<Longrightarrow> x \<noteq> Handling a \<Longrightarrow> Handling a \<notin> set (rs[i := x])"
  using set_update_subset_insert [of rs i x] by blast

text \<open>A step that leaves the permits alone and neither starts nor ends a handling.\<close>

lemma permits_quiet:
  assumes "permits_exact M K g rs" and "i < length rs" and "request_permits g' = request_permits g"
    and "gw_max_per_capability g' = gw_max_per_capability g"
    and "length (service_heap g') = length (service_heap g)"
    and "\<And>a. svc_permits (service_heap g' ! a) = svc_permits (service_heap g ! a)"
    and "holds_global pc = holds_global (rs ! i)" and "\<And>a. pc \<noteq> Handling a" and "\<And>a. rs ! i \<noteq> Handling a"
  shows "permits_exact M K g' (rs[i := pc])"
proof -
  have "requests_with holds_global (rs[i := pc]) = requests_with holds_global rs"
    using requests_update [OF assms(2), of holds_global pc] assms(7) by simp
  moreover have "requests_with ((=) (Handling a)) (rs[i := pc]) = requests_with ((=) (Handling a)) rs" for a
    using requests_update [OF assms(2), of "(=) (Handling a)" pc] assms(8,9) by (metis add_right_cancel)
  ultimately show ?thesis
    using assms requests_update_set [of _ rs pc i] by (auto simp: permits_exact_def)
qed

text \<open>Giving the permits of a request back, wherever it stands.\<close>

lemma permits_answered:
  assumes "permits_exact M K g rs" and "i < length rs" and "pc = Answered r"
  shows "rs ! i = HasService a \<or> rs ! i = HasGlobal hex b
      \<Longrightarrow> permits_exact M K (g\<lparr>request_permits := request_permits g + 1\<rparr>) (rs[i := pc])"
    and "rs ! i = Handling a \<Longrightarrow> permits_exact M K (release_permits a g) (rs[i := pc])"
proof -
  note G = requests_update [OF assms(2), of holds_global pc] and H = requests_update [OF assms(2), of "(=) (Handling x)" pc for x]
  { assume "rs ! i = HasService a \<or> rs ! i = HasGlobal hex b"
    then show "permits_exact M K (g\<lparr>request_permits := request_permits g + 1\<rparr>) (rs[i := pc])"
      using assms G H requests_update_set [of _ rs pc i] by (auto simp: permits_exact_def) }
  { assume h: "rs ! i = Handling a"
    then have "a < length (service_heap g)"
      using assms(1,2) nth_mem [of i rs] by (auto simp: permits_exact_def not_less [symmetric] simp del: nth_mem)
    moreover have "requests_with ((=) (Handling x)) rs = (if x = a then Suc else id) (requests_with ((=) (Handling x)) (rs[i := pc]))" for x
      using H [of x] h assms(3) by (auto split: if_splits)
    ultimately show "permits_exact M K (release_permits a g) (rs[i := pc])"
      using assms G h requests_update_set [of _ rs pc i]
      by (auto simp: permits_exact_def release_permits_def nth_list_update) }
qed

lemma permits_handling:
  assumes "permits_exact M K g rs" and "i < length rs" and "rs ! i = HasService a" and "a < length (service_heap g)"
    and "svc_permits (service_heap g ! a) \<noteq> 0"
  shows "permits_exact M K (g\<lparr>service_heap := (service_heap g)[a :=
      (service_heap g ! a)\<lparr>svc_permits := svc_permits (service_heap g ! a) - 1\<rparr>]\<rparr>) (rs[i := Handling a])"
proof -
  have "requests_with holds_global (rs[i := Handling a]) = requests_with holds_global rs"
    using requests_update [OF assms(2), of holds_global "Handling a"] assms(3) by simp
  moreover have "requests_with ((=) (Handling x)) (rs[i := Handling a])
      = (if x = a then Suc else id) (requests_with ((=) (Handling x)) rs)" for x
    using requests_update [OF assms(2), of "(=) (Handling x)" "Handling a"] assms(3) by (auto split: if_splits)
  ultimately show ?thesis
    using assms requests_update_set [of _ rs "Handling a" i] by (auto simp: permits_exact_def nth_list_update)
qed

lemma permits_enter:
  assumes "permits_exact M K g rs" and "i < length rs" and "rs ! i = HasGlobal hex b" and "enter_service hex b g = (a, g')"
  shows "permits_exact M K g' (rs[i := HasService a])"
proof -
  have "requests_with ((=) (Handling (length (service_heap g)))) rs = 0"
    using assms(1) by (auto simp: permits_exact_def filter_empty_conv)
  then have "permits_exact M K g' rs"
    using assms(1,4) by (auto simp: enter_service_def permits_exact_def nth_append less_Suc_eq split: option.splits)
  from permits_quiet [OF this assms(2), of g' "HasService a"] assms(3) show ?thesis by simp
qed

lemma permits_request_step:
  assumes "permits_exact M K g rs" and "i < length rs" and "pc_wf n (length (service_heap g)) (rs ! i)"
    and "request_step c (rs ! i) g = (pc, g')"
  shows "permits_exact M K g' (rs[i := pc])"
proof (cases "rs ! i")
  case (RouteChecked hex b)
  have "requests_with holds_global (rs[i := HasGlobal hex b]) = Suc (requests_with holds_global rs)"
    "requests_with ((=) (Handling a)) (rs[i := HasGlobal hex b]) = requests_with ((=) (Handling a)) rs" for a
    using requests_update [OF assms(2), of holds_global "HasGlobal hex b"]
      requests_update [OF assms(2), of "(=) (Handling a)" "HasGlobal hex b"] RouteChecked by simp_all
  with RouteChecked assms show ?thesis
    using permits_quiet [OF assms(1,2), of g pc] requests_update_set [of _ rs "HasGlobal hex b" i]
    by (auto simp: permits_exact_def split: if_splits)
next
  case (HasService a)
  with assms show ?thesis
    using permits_handling [OF assms(1,2)] permits_answered(1) [OF assms(1,2)]
    by (auto simp: pc_wf_def split: if_splits)
next
  case (HasGlobal hex b)
  with assms(4) permits_enter [OF assms(1,2)] show ?thesis by (auto split: prod.splits)
next
  case (Handling a)
  with assms(4) permits_answered(2) [OF assms(1,2)] show ?thesis by auto
qed (use assms(4) in \<open>auto intro!: permits_quiet [OF assms(1,2)] split: option.splits if_splits request_choice.splits\<close>)

lemma permits_request_drop:
  assumes "permits_exact M K g rs" and "i < length rs" and "request_drop (rs ! i) g = (pc, g')"
  shows "permits_exact M K g' (rs[i := pc])"
proof (cases "rs ! i")
  case (Answered r)
  with assms list_update_id [of rs i] show ?thesis by auto
qed (use assms(3) permits_answered [OF assms(1,2)] permits_quiet [OF assms(1,2), of g] in auto)

lemma permits_step:
  assumes "mcp_step codec s s'" and "system_wf s" and "permits_exact M K (sys_gateway s) (sys_requests s)"
  shows "permits_exact M K (sys_gateway s') (sys_requests s')"
  using assms
proof (induction rule: mcp_step.induct)
  case (Request i rs c g pc g' l)
  then have "pc_wf (length (state_cells (gw_table g))) (length (service_heap g)) (rs ! i)"
    by (simp add: system_wf_def list_all_length)
  with Request show ?case by (auto intro: permits_request_step)
next
  case (DropRequest i rs g pc g' l)
  then show ?case by (auto intro: permits_request_drop)
qed (auto simp: permits_exact_def gateway_install_def gateway_activate_def split: prod.splits)

lemma reachable_permits:
  assumes "mcp_reachable codec g0 s" and "prepare_gateway lb addr n lim = Ok g0"
  shows "permits_exact (max_global_requests lim) (max_per_capability_requests lim) (sys_gateway s) (sys_requests s)"
  using assms(1)
proof induction
  case Start
  from prepared_gateway [OF assms(2)] show ?case by (simp add: mcp_start_def permits_exact_def)
next
  case (Step s s')
  then show ?case using reachable_wf [OF Step(1) assms(2)] by (auto intro: permits_step)
qed

lemma step_routes:
  assumes "mcp_step codec s s'" and "system_wf s"
  shows "max_routes (gw_table (sys_gateway s')) = max_routes (gw_table (sys_gateway s))"
  using assms
proof (induction rule: mcp_step.induct)
  case (Install tx tools d x dl entropy g r g' rs l)
  then show ?case by (auto simp: gateway_install_def dest!: install_table split: prod.splits)
next
  case (Request i rs c g pc g' l)
  then have "pc_wf (length (state_cells (gw_table g))) (length (service_heap g)) (rs ! i)"
    by (simp add: system_wf_def list_all_length)
  with Request request_step_wf [of g "rs ! i" c pc g'] show ?case by (simp add: system_wf_def)
next
  case (DropRequest i rs g pc g' l)
  with request_drop_wf [of g "rs ! i" pc g'] show ?case by (simp add: system_wf_def)
qed (auto simp: gateway_activate_def activate_def revoke_def revoke_all_def split: prod.splits option.splits mcp_binding_state.splits)

lemma reachable_routes:
  assumes "mcp_reachable codec g0 s" and "prepare_gateway lb addr n lim = Ok g0"
  shows "max_routes (gw_table (sys_gateway s)) = max n 1"
  using assms(1)
proof induction
  case Start
  from prepared_gateway [OF assms(2)] show ?case by (simp add: mcp_start_def route_table_new_def)
next
  case (Step s s')
  then show ?case using reachable_wf [OF Step(1) assms(2)] step_routes by auto
qed

lemma requests_handling: "requests_with (\<lambda>pc. \<exists>a. pc = Handling a) rs \<le> requests_with holds_global rs"
  by (induction rs) auto

text \<open>
  C24. The gateway is bounded. At every moment at most the configured number of requests is being
  handled, at most the configured number by one service, and there are at most as many routes as
  it was prepared for; and no permit is lost: when all requests are answered, dropped tasks
  included, every permit is back.
\<close>

theorem mcp_requests_bounded:
  assumes "prepare_gateway lb addr n lim = Ok g0" and "mcp_reachable codec g0 s"
  shows "requests_with (\<lambda>pc. \<exists>a. pc = Handling a) (sys_requests s) \<le> max_global_requests lim
    \<and> (\<forall>a. requests_with ((=) (Handling a)) (sys_requests s) \<le> max_per_capability_requests lim)
    \<and> length (routes (gw_table (sys_gateway s))) \<le> max n 1
    \<and> (list_all (\<lambda>pc. \<exists>r. pc = Answered r) (sys_requests s) \<longrightarrow>
         request_permits (sys_gateway s) = max_global_requests lim \<and>
         list_all (\<lambda>svc. svc_permits svc = max_per_capability_requests lim) (service_heap (sys_gateway s)))"
proof -
  have p: "permits_exact (max_global_requests lim) (max_per_capability_requests lim) (sys_gateway s) (sys_requests s)"
    using reachable_permits assms by blast
  have "requests_with ((=) (Handling a)) (sys_requests s) \<le> max_per_capability_requests lim" for a
  proof (cases "a < length (service_heap (sys_gateway s))")
    case True
    with p have "svc_permits (service_heap (sys_gateway s) ! a) + requests_with ((=) (Handling a)) (sys_requests s) = max_per_capability_requests lim"
      by (simp add: permits_exact_def)
    then show ?thesis by simp
  next
    case False
    with p have "filter ((=) (Handling a)) (sys_requests s) = []" by (auto simp: permits_exact_def filter_empty_conv)
    then show ?thesis by simp
  qed
  moreover have "requests_with (\<lambda>pc. \<exists>a. pc = Handling a) (sys_requests s) \<le> max_global_requests lim"
    using p requests_handling [of "sys_requests s"] by (auto simp: permits_exact_def)
  moreover have "length (routes (gw_table (sys_gateway s))) \<le> max n 1"
    using reachable_wf [OF assms(2,1)] reachable_routes [OF assms(2,1)] by (simp add: system_wf_def gateway_wf_def table_wf_def)
  moreover
  { assume all_done: "list_all (\<lambda>pc. \<exists>r. pc = Answered r) (sys_requests s)"
    then have "filter holds_global (sys_requests s) = []" "filter ((=) (Handling a)) (sys_requests s) = []" for a
      by (auto simp: filter_empty_conv list_all_iff)
    with p have "request_permits (sys_gateway s) = max_global_requests lim"
      "list_all (\<lambda>svc. svc_permits svc = max_per_capability_requests lim) (service_heap (sys_gateway s))"
      by (simp_all add: permits_exact_def list_all_length) }
  ultimately show ?thesis by blast
qed

text \<open>A request never waits inside the gateway: seven steps of its own answer it.\<close>

fun request_run :: "request_choice list \<Rightarrow> mcp_request_pc \<Rightarrow> gateway_state \<Rightarrow> mcp_request_pc \<times> gateway_state" where
  "request_run [] pc g = (pc, g)"
| "request_run (c # cs) pc g = (case request_step c pc g of (pc, g) \<Rightarrow> request_run cs pc g)"

fun steps_left :: "mcp_request_pc \<Rightarrow> nat" where
  "steps_left (Arrived _) = 7"
| "steps_left (RouteFound _ _) = 6"
| "steps_left (OwnedWork _ _) = 5"
| "steps_left (RouteChecked _ _) = 4"
| "steps_left (HasGlobal _ _) = 3"
| "steps_left (HasService _) = 2"
| "steps_left (Handling _) = 1"
| "steps_left (Answered _) = 0"

lemma step_progress: "steps_left pc \<noteq> 0 \<Longrightarrow> steps_left (fst (request_step c pc g)) < steps_left pc"
  by (cases pc) (auto split: option.split request_choice.split prod.split)

lemma request_answered: "steps_left pc \<le> length cs \<Longrightarrow> \<exists>r. fst (request_run cs pc g) = Answered r"
proof (induction cs arbitrary: pc g)
  case Nil
  then show ?case by (cases pc) auto
next
  case (Cons c cs)
  then have "steps_left (fst (request_step c pc g)) \<le> length cs"
    using step_progress [of pc c g] by (cases "steps_left pc = 0") (cases pc, auto)
  with Cons.IH show ?case by (simp add: split_beta)
qed

section \<open>A run\<close>

definition small_limits :: mcp_gateway_limits where
  "small_limits = \<lparr>max_global_requests = 2, max_per_capability_requests = 1, request_duration = 9\<rparr>"

definition named_tools :: resolved_tool_set where
  "named_tools = \<lparr>res_by_id = [], res_by_name = [(''f'', ''a'')], res_ordered = []\<rparr>"

definition sample_binding :: mcp_binding where
  "sample_binding = \<lparr>mb_token = sample_token, mb_transaction = ''t'', mb_cell = 0, mb_dispatcher = 0, mb_tools = named_tools,
     mb_exchange = ''x'', mb_deadline = 9\<rparr>"

definition run_gateway :: "nat \<Rightarrow> mcp_binding_state list \<Rightarrow> capability_service list \<Rightarrow> gateway_state" where
  "run_gateway free cells svcs =
     \<lparr>gw_table = \<lparr>max_routes = 4, routes = (if cells = [] then [] else [(sample_token, sample_binding)]), state_cells = cells\<rparr>,
      gw_services = (if svcs = [] then [] else [(to_hex sample_token, 0)]), service_heap = svcs, request_permits = free,
      gw_max_per_capability = 1, gw_base_url = ''http://h''\<rparr>"

definition sample_request :: dispatch_request where
  "sample_request = \<lparr>req_exchange = ''x'', req_action = ''mcp:t:f'', req_tool_name = ''f'', req_provider_id = ''mcp-u'',
     req_ordinal = 0, req_arguments = ''{}'', req_deadline = 9\<rparr>"

definition printing_codec :: json_codec where
  "printing_codec = \<lparr>from_slice = (\<lambda>_. Err []), from_str = (\<lambda>_. None), to_json_string = (\<lambda>_. ''{}''), to_vec = (\<lambda>_. None)\<rparr>"

lemma sample_facts:
  "length sample_token = 32" "from_hex (to_hex sample_token) = Some sample_token" "sample_token \<noteq> replicate 32 0"
proof -
  show "length sample_token = 32" by (simp add: sample_token_def)
  then show "from_hex (to_hex sample_token) = Some sample_token" by (rule from_to_hex)
  have "last sample_token \<noteq> last (replicate 32 0)" by (simp add: sample_token_def)
  then show "sample_token \<noteq> replicate 32 0" by metis
qed

lemma prepared_sample: "prepare_gateway True ''h'' 4 small_limits = Ok (run_gateway 2 [] [])"
  by (simp add: prepare_gateway_def validated_limits_def small_limits_def run_gateway_def route_table_new_def)

lemma sample_install:
  "gateway_install ''t'' named_tools 0 ''x'' 9 (Some sample_token) (run_gateway 2 [] [])
    = (fst (gateway_install ''t'' named_tools 0 ''x'' 9 (Some sample_token) (run_gateway 2 [] [])), run_gateway 2 [McpPending] [])"
  by (simp add: gateway_install_def install_pending_with_deadline_def generate_token_def sample_facts run_gateway_def Let_def
      sample_binding_def split: option.split)

lemma sample_request_ok: "mcp_request printing_codec sample_binding (gw_table (run_gateway n (McpActive # cs) svcs)) ''u'' ''f'' None = Ok sample_request"
proof -
  have "validated_string ''f'' = Ok ''f''" by code_simp
  then show ?thesis
    by (simp add: mcp_request_def ensure_active_def is_active_def binding_state_def run_gateway_def sample_binding_def named_tools_def
        printing_codec_def sample_request_def)
qed

definition sample_service :: "nat \<Rightarrow> capability_service" where
  "sample_service n = \<lparr>svc_binding = sample_binding, svc_cancelled = False, svc_permits = n\<rparr>"

definition sample_state :: "gateway_state \<Rightarrow> mcp_request_pc list \<Rightarrow> mcp_log list \<Rightarrow> mcp_system" where
  "sample_state g rs l = \<lparr>sys_gateway = g, sys_requests = rs, sys_log = l\<rparr>"

lemma sample_run:
  "mcp_reachable printing_codec (run_gateway 2 [] [])
     (sample_state (run_gateway 1 [McpActive] [sample_service 0]) [Handling 0] [Activated 0, Admitted sample_binding sample_request])"
proof -
  let ?R = "mcp_reachable printing_codec (run_gateway 2 [] [])"
  let ?h = "to_hex sample_token" and ?b = sample_binding
  note step = mcp_reachable.Step [of printing_codec "run_gateway 2 [] []"]
  note request = mcp_step.Request [of 0]
  have "?R (sample_state (run_gateway 2 [] []) [] [])"
    using mcp_reachable.Start [of printing_codec "run_gateway 2 [] []"] by (simp add: mcp_start_def sample_state_def)
  from step [OF this [unfolded sample_state_def] mcp_step.Install [OF sample_install]]
  have a: "?R (sample_state (run_gateway 2 [McpPending] []) [] [])" by (simp add: sample_state_def)
  have "gateway_activate sample_token (run_gateway 2 [McpPending] []) = (Ok (), run_gateway 2 [McpActive] [])"
    by (simp add: gateway_activate_def activate_def run_gateway_def binding_state_def sample_binding_def)
  from step [OF a [unfolded sample_state_def] mcp_step.Activate [OF this]]
  have "?R (sample_state (run_gateway 2 [McpActive] []) [] [Activated 0])"
    by (simp add: sample_state_def activated_cell_def run_gateway_def binding_state_def sample_binding_def)
  from step [OF this [unfolded sample_state_def] mcp_step.Arrive [of _ _ _ _ ?h]]
  have b: "?R (sample_state (run_gateway 2 [McpActive] []) [Arrived ?h] [Activated 0])" by (simp add: sample_state_def)
  have one: "?R (sample_state g [pc] l) \<Longrightarrow> request_step Runs pc g = (pc', g') \<Longrightarrow> ?R (sample_state g' [pc'] l)" for g pc l pc' g'
    using step [OF _ request [of "[pc]" Runs g pc' g' _ l]] by (simp add: sample_state_def)
  have found: "get_by_hex ?h (gw_table (run_gateway n (c # cs) svcs)) = Some ?b" for n c cs svcs
    by (simp add: get_by_hex_def get_route_def sample_facts run_gateway_def)
  have steps: "request_step Runs (Arrived ?h) (run_gateway 2 [McpActive] []) = (RouteFound ?h ?b, run_gateway 2 [McpActive] [])"
    "request_step Runs (RouteFound ?h ?b) (run_gateway 2 [McpActive] []) = (OwnedWork ?h ?b, run_gateway 2 [McpActive] [])"
    "request_step Runs (OwnedWork ?h ?b) (run_gateway 2 [McpActive] []) = (RouteChecked ?h ?b, run_gateway 2 [McpActive] [])"
    "request_step Runs (RouteChecked ?h ?b) (run_gateway 2 [McpActive] []) = (HasGlobal ?h ?b, run_gateway 1 [McpActive] [])"
    "request_step Runs (HasGlobal ?h ?b) (run_gateway 1 [McpActive] []) = (HasService 0, run_gateway 1 [McpActive] [sample_service 1])"
    "request_step Runs (HasService 0) (run_gateway 1 [McpActive] [sample_service 1]) = (Handling 0, run_gateway 1 [McpActive] [sample_service 0])"
    using found by (simp_all add: sample_facts) (simp_all add: run_gateway_def enter_service_def sample_service_def)
  have c: "?R (sample_state (run_gateway 1 [McpActive] [sample_service 0]) [Handling 0] [Activated 0])"
    by (rule one [OF one [OF one [OF one [OF one [OF one [OF b steps(1)] steps(2)] steps(3)] steps(4)] steps(5)] steps(6)])
  have "svc_binding (service_heap (run_gateway 1 [McpActive] [sample_service 0]) ! 0) = ?b"
    by (simp add: run_gateway_def sample_service_def)
  with step [OF c [unfolded sample_state_def] mcp_step.CallTool [of 0 _ 0 ?b _ _ _ "''u''" "''f''" None]]
  show ?thesis by (simp add: sample_state_def sample_request_ok)
qed

theorem mcp_calls_within_activation_witness:
  "Activated 0 \<in> set [Activated 0] \<and> req_exchange sample_request = mb_exchange sample_binding
   \<and> map_of (res_by_name (mb_tools sample_binding)) (req_tool_name sample_request) \<noteq> None
   \<and> req_action sample_request = ''mcp:'' @ mb_transaction sample_binding @ '':'' @ req_tool_name sample_request"
  using mcp_calls_within_activation [OF prepared_sample sample_run, of "[Activated 0]" sample_binding sample_request "[]"]
  by (simp add: sample_state_def)

theorem mcp_requests_bounded_witness:
  "\<exists>s. mcp_reachable printing_codec (run_gateway 2 [] []) s \<and> Handling 0 \<in> set (sys_requests s)
     \<and> requests_with (\<lambda>pc. \<exists>a. pc = Handling a) (sys_requests s) \<le> max_global_requests small_limits
     \<and> requests_with ((=) (Handling 0)) (sys_requests s) \<le> max_per_capability_requests small_limits"
proof -
  have "Handling 0 \<in> set (sys_requests (sample_state g [Handling 0] l))" for g l by (simp add: sample_state_def)
  with mcp_requests_bounded [OF prepared_sample sample_run] sample_run show ?thesis by blast
qed

section \<open>Edges\<close>

text \<open>The path of a request that spells its token in lower case is stripped; one with upper case letters reaches the handler as it is.\<close>

lemma canonical_path_rewritten:
  "rewrite_path (\<lambda>_. True) (''/mcp/'' @ to_hex t @ rest) None (to_hex t) = (if rest = [] then ''/'' else rest)"
  using strip_prefix_Some [of "''/mcp/'' @ to_hex t" "''/mcp/'' @ to_hex t @ rest" rest]
  by (simp add: rewrite_path_def Let_def)

lemma other_spelling_kept:
  assumes "from_hex seg = Some t" and "seg \<noteq> to_hex t"
  shows "rewrite_path (\<lambda>_. True) (''/mcp/'' @ seg) None (to_hex t) = ''/mcp/'' @ seg"
proof -
  have "length seg = length (to_hex t)"
    using assms(1) hex_bytes_text [of seg t] by (auto simp: from_hex_def to_hex_digits split: if_splits)
  then have "strip_prefix (''/mcp/'' @ to_hex t) (''/mcp/'' @ seg) = None"
    using assms(2) strip_prefix_Some [of "''/mcp/'' @ to_hex t" "''/mcp/'' @ seg"]
    by (cases "strip_prefix (''/mcp/'' @ to_hex t) (''/mcp/'' @ seg)") auto
  then show ?thesis by (simp add: rewrite_path_def Let_def)
qed

text \<open>
  A request that passed the second lookup enters a service although its route is gone: the
  service is made again after the revocation removed it, and stays in the map with no route.
\<close>

lemma service_outlives_route:
  "case gateway_revoke sample_token (run_gateway 1 [McpActive] []) of
     (removed, g) \<Rightarrow> removed \<and> routes (gw_table g) = [] \<and>
       gw_services (snd (request_step Runs (HasGlobal (to_hex sample_token) sample_binding) g)) = [(to_hex sample_token, 0)]"
  by (simp add: gateway_revoke_def revoke_def run_gateway_def assoc_del_def drop_capability_service_def Let_def sample_facts
      enter_service_def)

end
