(* ===== verification/Loop_Runtime.thy ===== *)
theory Loop_Runtime
  imports Canonical Decimal Assoc
begin

text \<open>
  \<open>crates/monoloop-loop/src/runtime.rs\<close> with \<open>registry.rs\<close>, \<open>tools.rs\<close>, \<open>subscription.rs\<close> and
  \<open>monoloop-contracts/src/loop_types.rs\<close>: the loop that reads canonical events from its
  subscription, dispatches tool requests and reports their results. The tool registry, the
  tool runtime and the generator of identities are a parameter, the world; the host that reads
  the output may stop after any number of events. What the select of the loop ends with is an
  observation, so that a run is a list of observations.
\<close>

section \<open>Contract types\<close>

record loop_limits =
  max_tool_actions :: nat
  max_concurrent_executions :: nat
  max_queued_ready :: nat
  max_output_queue :: nat
  max_dedup_entries :: nat

definition default_loop_limits :: loop_limits where
  "default_loop_limits =
     \<lparr>max_tool_actions = 1024, max_concurrent_executions = 32, max_queued_ready = 256,
      max_output_queue = 4096, max_dedup_entries = 4096\<rparr>"

record loop_scope =
  scope_run :: string
  scope_loop :: string
  accepted_interpretation_ids :: "string list"
  accepted_connection_ids :: "string list"
  accepted_external_session_ids :: "string list"
  accept_all_in_run :: bool

definition scope_single :: "string \<Rightarrow> string \<Rightarrow> string \<Rightarrow> string \<Rightarrow> string option \<Rightarrow> loop_scope" where
  "scope_single run loop interp conn session =
     \<lparr>scope_run = run, scope_loop = loop, accepted_interpretation_ids = [interp],
      accepted_connection_ids = [conn],
      accepted_external_session_ids = (case session of Some s \<Rightarrow> [s] | None \<Rightarrow> []),
      accept_all_in_run = False\<rparr>"

datatype tool_unavailable_reason = NoRegisteredTool | ToolNotFound | ToolDenied

definition reason_debug :: "tool_unavailable_reason \<Rightarrow> string" where
  "reason_debug r =
     (case r of NoRegisteredTool \<Rightarrow> ''NoRegisteredTool'' | ToolNotFound \<Rightarrow> ''NotFound'' | ToolDenied \<Rightarrow> ''Denied'')"

datatype outbound_tool_outcome =
    OutboundSuccess | OutboundUnavailable | OutboundRejected | ExecutionFailed | OutboundCancelled | ExecutionLost

record outbound_tool_result =
  outbound_result_id :: string
  out_run :: string
  out_loop :: string
  source_interpretation_id :: string
  source_connection_id :: string
  out_session :: "string option"
  out_action :: string
  out_generation :: nat
  out_execution :: "string option"
  out_outcome :: outbound_tool_outcome
  out_payload :: string
  source_unit_id :: string

datatype loop_end_kind =
    Drained | LoopCancelled | SubscriptionLost | OutputFailed | LoopInvariantFailed | ConfigurationFailed

record loop_end =
  le_run :: string
  le_loop :: string
  le_kind :: loop_end_kind
  delivery_events_received :: nat
  duplicate_events :: nat
  le_tools_unavailable :: nat
  outbound_results_emitted :: nat
  le_diagnostics :: "string list"

datatype loop_output_event =
    ToolDispatchRequested string nat
  | ToolUnavailableEvent string tool_unavailable_reason
  | OutboundResult outbound_tool_result
  | LoopDiagnostic string
  | LoopEnded loop_end

section \<open>Registry, runtime and subscription\<close>

record resolve_tool_request =
  resolve_action :: string
  resolve_name :: string
  resolve_payload :: string

datatype tool_resolution = ToolAvailable string | ResolvedUnavailable tool_unavailable_reason

definition empty_registry_resolve :: "resolve_tool_request \<Rightarrow> (string, tool_resolution) result" where
  "empty_registry_resolve r = Ok (ResolvedUnavailable NoRegisteredTool)"

record start_tool_execution =
  start_execution :: string
  start_action :: string
  start_name :: string
  start_payload :: string
  start_generation :: nat

record tool_runtime_terminal =
  terminal_outcome_of :: outbound_tool_outcome
  terminal_payload :: string

text \<open>
  A started execution: no completion handle, a handle whose sender is dropped, or a handle that
  yields a terminal.
\<close>

datatype tool_execution_handle = NoCompletion | CompletionDropped | CompletesWith tool_runtime_terminal

definition no_tool_runtime_start :: "start_tool_execution \<Rightarrow> (string, tool_execution_handle) result" where
  "no_tool_runtime_start r = Err ''NoToolRuntime.start must never be called with EmptyToolRegistry''"

text \<open>The answers of registry and runtime may change from call to call.\<close>

record loop_world =
  world_resolve :: "nat \<Rightarrow> resolve_tool_request \<Rightarrow> (string, tool_resolution) result"
  world_start_tool :: "nat \<Rightarrow> start_tool_execution \<Rightarrow> (string, tool_execution_handle) result"
  world_uuid :: "nat \<Rightarrow> string"

record delivered_event =
  delivery_sequence :: nat
  delivered :: interpreter_output_event

datatype subscription_status = SubOpened | SubClosing | SubGap nat "nat option" | SubLost

section \<open>State\<close>

datatype action_state = ObservedWaiting | ActionRequestReady | ActionUnavailable | ActionIncomplete

record action_record =
  rec_action :: string
  rec_unit :: string
  last_generation :: nat
  rec_state :: action_state
  dispatched :: bool

text \<open>
  The owner, with the output the host has taken, the number of events it still takes, the calls
  made of the world, and the end handed to the completion.
\<close>

record loop_owner =
  lo_run :: string
  lo_loop :: string
  lo_scope :: loop_scope
  lo_limits :: loop_limits
  last_seq :: nat
  actions :: "(string \<times> action_record) list"
  dedup :: "(string \<times> nat) list"
  delivery_events :: nat
  duplicates :: nat
  tools_unavailable :: nat
  outbound_results :: nat
  lo_diagnostics :: "string list"
  loop_ended :: bool
  loop_out :: "loop_output_event list"
  out_takes :: "nat option"
  resolve_calls :: nat
  runtime_starts :: "start_tool_execution list"
  uuid_draws :: nat
  completion_end :: "loop_end option"

definition prepare_loop :: "string \<Rightarrow> string \<Rightarrow> loop_scope \<Rightarrow> loop_limits \<Rightarrow> nat option \<Rightarrow> loop_owner" where
  "prepare_loop run loop scope limits takes =
     \<lparr>lo_run = run, lo_loop = loop, lo_scope = scope, lo_limits = limits, last_seq = 0, actions = [], dedup = [],
      delivery_events = 0, duplicates = 0, tools_unavailable = 0, outbound_results = 0, lo_diagnostics = [],
      loop_ended = False, loop_out = [], out_takes = takes, resolve_calls = 0, runtime_starts = [],
      uuid_draws = 0, completion_end = None\<rparr>"

section \<open>Operations\<close>

definition in_scope :: "loop_scope \<Rightarrow> canonical_unit_snapshot \<Rightarrow> bool" where
  "in_scope sc snap \<longleftrightarrow>
     (if accept_all_in_run sc then True
      else if accepted_interpretation_ids sc \<noteq> [] \<and> snapshot_interpretation snap \<notin> set (accepted_interpretation_ids sc) then False
      else if accepted_connection_ids sc \<noteq> [] \<and> snapshot_connection snap \<notin> set (accepted_connection_ids sc) then False
      else if accepted_external_session_ids sc \<noteq> []
           then (case snapshot_session snap of
                   Some ext \<Rightarrow> ext \<in> set (accepted_external_session_ids sc)
                 | None \<Rightarrow> False)
      else True)"

definition loop_diag :: "string \<Rightarrow> loop_owner \<Rightarrow> loop_owner" where
  "loop_diag m ow =
     (if length (lo_diagnostics ow) < 32 then ow\<lparr>lo_diagnostics := lo_diagnostics ow @ [m]\<rparr> else ow)"

text \<open>A send to the host fails when the host has let go of the receiver.\<close>

definition loop_emit :: "loop_output_event \<Rightarrow> loop_owner \<Rightarrow> (loop_end_kind, loop_owner) outcome" where
  "loop_emit e ow =
     (if out_takes ow = Some 0 then (Some OutputFailed, ow)
      else (None, ow\<lparr>loop_out := loop_out ow @ [e], out_takes := map_option (\<lambda>n. n - 1) (out_takes ow)\<rparr>))"

definition put_action :: "string \<Rightarrow> action_record \<Rightarrow> loop_owner \<Rightarrow> loop_owner" where
  "put_action key r ow = ow\<lparr>actions := assoc_put key r (actions ow)\<rparr>"

definition action_entry :: "string \<Rightarrow> action_record \<Rightarrow> loop_owner \<Rightarrow> action_record" where
  "action_entry key new ow = (case map_of (actions ow) key of Some r \<Rightarrow> r | None \<Rightarrow> new)"

definition new_action :: "string \<Rightarrow> string \<Rightarrow> action_state \<Rightarrow> action_record" where
  "new_action action unit s =
     \<lparr>rec_action = action, rec_unit = unit, last_generation = 0, rec_state = s, dispatched = False\<rparr>"

definition track_waiting :: "string \<Rightarrow> string \<Rightarrow> string \<Rightarrow> nat \<Rightarrow> loop_owner \<Rightarrow> loop_owner" where
  "track_waiting key action unit generation ow =
     (let r = action_entry key (new_action action unit ObservedWaiting) ow
      in if generation < last_generation r then put_action key r ow
         else
           (let r = r\<lparr>last_generation := generation\<rparr>
            in put_action key
                 (if rec_state r \<noteq> ActionUnavailable \<and> \<not> dispatched r then r\<lparr>rec_state := ObservedWaiting\<rparr> else r) ow))"

definition track_incomplete :: "string \<Rightarrow> string \<Rightarrow> string \<Rightarrow> nat \<Rightarrow> loop_owner \<Rightarrow> loop_owner" where
  "track_incomplete key action unit generation ow =
     (let r = action_entry key (new_action action unit ActionIncomplete) ow
      in put_action key
           (if last_generation r \<le> generation
            then r\<lparr>last_generation := generation, rec_state := ActionIncomplete\<rparr> else r) ow)"

definition send_result ::
  "loop_world \<Rightarrow> canonical_unit_snapshot \<Rightarrow> string \<Rightarrow> nat \<Rightarrow> string option \<Rightarrow> outbound_tool_outcome \<Rightarrow> string
    \<Rightarrow> loop_owner \<Rightarrow> (loop_end_kind, loop_owner) outcome" where
  "send_result w snap action generation execution outcome payload ow =
     loop_emit
       (OutboundResult
          \<lparr>outbound_result_id = world_uuid w (uuid_draws ow), out_run = lo_run ow, out_loop = lo_loop ow,
           source_interpretation_id = snapshot_interpretation snap, source_connection_id = snapshot_connection snap,
           out_session = snapshot_session snap, out_action = action, out_generation = generation,
           out_execution = execution, out_outcome = outcome, out_payload = payload, source_unit_id = unit_id snap\<rparr>)
       (ow\<lparr>uuid_draws := uuid_draws ow + 1\<rparr>)"

definition report_unavailable ::
  "loop_world \<Rightarrow> canonical_unit_snapshot \<Rightarrow> string \<Rightarrow> string \<Rightarrow> nat \<Rightarrow> tool_unavailable_reason
    \<Rightarrow> loop_owner \<Rightarrow> (loop_end_kind, loop_owner) outcome" where
  "report_unavailable w snap key action generation reason ow =
     (let r = the (map_of (actions ow) key);
          ow = (put_action key (r\<lparr>rec_state := ActionUnavailable\<rparr>) ow)\<lparr>tools_unavailable := tools_unavailable ow + 1\<rparr>
      in and_then (loop_emit (ToolUnavailableEvent action reason) ow)
           (\<lambda>ow. send_result w snap action generation None OutboundUnavailable (reason_debug reason)
                    (ow\<lparr>outbound_results := outbound_results ow + 1\<rparr>)))"

definition await_completion :: "tool_execution_handle \<Rightarrow> tool_runtime_terminal" where
  "await_completion h =
     (case h of
        CompletesWith t \<Rightarrow> t
      | CompletionDropped \<Rightarrow> \<lparr>terminal_outcome_of = ExecutionLost, terminal_payload = ''completion lost''\<rparr>
      | NoCompletion \<Rightarrow> \<lparr>terminal_outcome_of = ExecutionFailed, terminal_payload = ''runtime returned no completion''\<rparr>)"

definition execute_tool ::
  "loop_world \<Rightarrow> canonical_unit_snapshot \<Rightarrow> string \<Rightarrow> nat \<Rightarrow> string \<Rightarrow> string \<Rightarrow> loop_owner
    \<Rightarrow> (loop_end_kind, loop_owner) outcome" where
  "execute_tool w snap action generation name payload ow =
     (let execution = world_uuid w (uuid_draws ow);
          request = \<lparr>start_execution = execution, start_action = action, start_name = name,
                     start_payload = payload, start_generation = generation\<rparr>;
          answer = world_start_tool w (length (runtime_starts ow)) request;
          ow = ow\<lparr>uuid_draws := uuid_draws ow + 1, runtime_starts := runtime_starts ow @ [request]\<rparr>
      in case answer of
           Inl e \<Rightarrow>
             and_then (send_result w snap action generation None ExecutionFailed e
                         (loop_diag (''tool runtime start failed: tool runtime: '' @ e) ow))
               (\<lambda>ow. (None, ow\<lparr>outbound_results := outbound_results ow + 1\<rparr>))
         | Inr h \<Rightarrow>
             (let t = await_completion h
              in send_result w snap action generation (Some execution) (terminal_outcome_of t) (terminal_payload t)
                   (ow\<lparr>outbound_results := outbound_results ow + 1\<rparr>)))"

text \<open>From the mark that the action is dispatched to its result.\<close>

definition dispatch_action ::
  "loop_world \<Rightarrow> canonical_unit_snapshot \<Rightarrow> string \<Rightarrow> string \<Rightarrow> nat \<Rightarrow> string \<Rightarrow> string \<Rightarrow> loop_owner
    \<Rightarrow> (loop_end_kind, loop_owner) outcome" where
  "dispatch_action w snap key action generation name payload ow =
     and_then (loop_emit (ToolDispatchRequested action generation) ow)
       (\<lambda>ow.
          let answer = world_resolve w (resolve_calls ow)
                \<lparr>resolve_action = action, resolve_name = name, resolve_payload = payload\<rparr>;
              ow = ow\<lparr>resolve_calls := resolve_calls ow + 1\<rparr>
          in case answer of
               Inl _ \<Rightarrow> (Some LoopInvariantFailed, ow)
             | Inr (ResolvedUnavailable reason) \<Rightarrow> report_unavailable w snap key action generation reason ow
             | Inr (ToolAvailable _) \<Rightarrow> execute_tool w snap action generation name payload ow)"

definition on_request_ready ::
  "loop_world \<Rightarrow> string \<Rightarrow> canonical_unit_snapshot \<Rightarrow> tool_action_event \<Rightarrow> loop_owner
    \<Rightarrow> (loop_end_kind, loop_owner) outcome" where
  "on_request_ready w key snap tool ow =
     (if length (actions ow) \<ge> max_tool_actions (lo_limits ow) \<and> map_of (actions ow) key = None
      then (Some LoopInvariantFailed, ow)
      else
        (let action = tool_action_id tool; generation = unit_generation snap;
             r = action_entry key (new_action action (unit_id snap) ActionRequestReady) ow
         in if generation < last_generation r then (None, put_action key r ow)
            else
              (let r = r\<lparr>last_generation := generation\<rparr>; ow = put_action key r ow
               in if dispatched r then (None, ow\<lparr>duplicates := duplicates ow + 1\<rparr>)
                  else (case event_tool_name tool of
                          None \<Rightarrow> (None, loop_diag ''ToolRequestReady missing tool name'' ow)
                        | Some name \<Rightarrow>
                            (case event_request_payload tool of
                               None \<Rightarrow> (None, loop_diag ''ToolRequestReady missing payload'' ow)
                             | Some payload \<Rightarrow>
                                 dispatch_action w snap key action generation name payload
                                   (put_action key (r\<lparr>rec_state := ActionRequestReady, dispatched := True\<rparr>) ow))))))"

definition action_key :: "string \<Rightarrow> string \<Rightarrow> string" where
  "action_key interp action = interp @ '':'' @ action"

definition dedup_key :: "string \<Rightarrow> nat \<Rightarrow> string" where
  "dedup_key key generation = key @ '':'' @ nat_str generation"

definition loop_on_unit :: "loop_world \<Rightarrow> canonical_unit_event \<Rightarrow> loop_owner \<Rightarrow> (loop_end_kind, loop_owner) outcome" where
  "loop_on_unit w ev ow =
     (let snap = event_snapshot ev
      in if \<not> in_scope (lo_scope ow) snap then (None, ow)
         else case snapshot_unit snap of
                Tool tool \<Rightarrow>
                  (let key = action_key (snapshot_interpretation snap) (tool_action_id tool);
                       dig = dedup_key key (unit_generation snap)
                   in if map_of (dedup ow) dig = Some (unit_generation snap)
                      then (None, ow\<lparr>duplicates := duplicates ow + 1\<rparr>)
                      else if length (dedup ow) \<ge> max_dedup_entries (lo_limits ow) then (Some LoopInvariantFailed, ow)
                      else
                        (let ow = ow\<lparr>dedup := assoc_put dig (unit_generation snap) (dedup ow)\<rparr>
                         in case event_request_state tool of
                              ReqAssembling \<Rightarrow>
                                (None, track_waiting key (tool_action_id tool) (unit_id snap) (unit_generation snap) ow)
                            | ReqReady \<Rightarrow> on_request_ready w key snap tool ow
                            | _ \<Rightarrow>
                                (None, track_incomplete key (tool_action_id tool) (unit_id snap) (unit_generation snap) ow)))
              | _ \<Rightarrow> (None, ow))"

text \<open>The next expected number is computed in 64 bits.\<close>

definition on_delivered :: "loop_world \<Rightarrow> delivered_event \<Rightarrow> loop_owner \<Rightarrow> (loop_end_kind, loop_owner) outcome" where
  "on_delivered w d ow =
     (let expected = (last_seq ow + 1) mod 2 ^ 64
      in if last_seq ow > 0 \<and> delivery_sequence d \<noteq> expected
         then (Some SubscriptionLost,
               loop_diag (''delivery gap: expected '' @ nat_str expected @ '', got '' @ nat_str (delivery_sequence d)) ow)
         else
           (let ow = ow\<lparr>last_seq := delivery_sequence d, delivery_events := delivery_events ow + 1\<rparr>
            in case delivered d of
                 Unit ev \<Rightarrow> loop_on_unit w ev ow
               | Ended _ \<Rightarrow> (None, ow)))"

definition loop_finish :: "loop_end_kind \<Rightarrow> loop_owner \<Rightarrow> loop_owner" where
  "loop_finish kind ow =
     (if loop_ended ow then ow
      else
        (let e = \<lparr>le_run = lo_run ow, le_loop = lo_loop ow, le_kind = kind,
                  delivery_events_received = delivery_events ow, duplicate_events = duplicates ow,
                  le_tools_unavailable = tools_unavailable ow, outbound_results_emitted = outbound_results ow,
                  le_diagnostics = lo_diagnostics ow\<rparr>
         in (snd (loop_emit (LoopEnded e) (ow\<lparr>loop_ended := True\<rparr>)))\<lparr>completion_end := Some e\<rparr>))"

section \<open>The task\<close>

datatype loop_observation =
    SeesCancellation
  | SubscriptionClosed
  | SeesStatus subscription_status
  | SeesDelivery delivered_event

definition loop_run_step :: "loop_world \<Rightarrow> loop_observation \<Rightarrow> loop_owner \<Rightarrow> loop_owner" where
  "loop_run_step w ob ow =
     (if loop_ended ow then ow
      else case ob of
             SeesCancellation \<Rightarrow> loop_finish LoopCancelled ow
           | SubscriptionClosed \<Rightarrow> loop_finish Drained ow
           | SeesStatus (SubGap _ _) \<Rightarrow> loop_finish SubscriptionLost ow
           | SeesStatus SubLost \<Rightarrow> loop_finish SubscriptionLost ow
           | SeesStatus _ \<Rightarrow> ow
           | SeesDelivery d \<Rightarrow>
               (case on_delivered w d ow of
                  (None, ow) \<Rightarrow> ow
                | (Some kind, ow) \<Rightarrow> loop_finish kind ow))"

definition loop_run :: "loop_world \<Rightarrow> loop_observation list \<Rightarrow> loop_owner \<Rightarrow> loop_owner" where
  "loop_run w obs ow = fold (loop_run_step w) obs ow"

section \<open>Subscriptions\<close>

record subscription_publisher =
  sub_next_seq :: nat
  sub_queue :: "(subscription_status, delivered_event) result list"

definition subscription_channel :: subscription_publisher where
  "subscription_channel = \<lparr>sub_next_seq = 1, sub_queue = []\<rparr>"

text \<open>A publication takes a number and then sends; clones of a publisher can come in between.\<close>

definition take_sequence :: "subscription_publisher \<Rightarrow> nat \<times> subscription_publisher" where
  "take_sequence p = (sub_next_seq p, p\<lparr>sub_next_seq := (sub_next_seq p + 1) mod 2 ^ 64\<rparr>)"

definition send_delivered :: "nat \<Rightarrow> interpreter_output_event \<Rightarrow> subscription_publisher \<Rightarrow> subscription_publisher" where
  "send_delivered seq ev p = p\<lparr>sub_queue := sub_queue p @ [Ok \<lparr>delivery_sequence = seq, delivered = ev\<rparr>]\<rparr>"

definition publish_event :: "interpreter_output_event \<Rightarrow> subscription_publisher \<Rightarrow> subscription_publisher" where
  "publish_event ev p = (case take_sequence p of (seq, p) \<Rightarrow> send_delivered seq ev p)"

definition signal_gap :: "nat \<Rightarrow> nat option \<Rightarrow> subscription_publisher \<Rightarrow> subscription_publisher" where
  "signal_gap expected observed p = p\<lparr>sub_queue := sub_queue p @ [Err (SubGap expected observed)]\<rparr>"

definition signal_lost :: "subscription_publisher \<Rightarrow> subscription_publisher" where
  "signal_lost p = p\<lparr>sub_queue := sub_queue p @ [Err SubLost]\<rparr>"

definition observe :: "(subscription_status, delivered_event) result \<Rightarrow> loop_observation" where
  "observe m = (case m of Inl s \<Rightarrow> SeesStatus s | Inr d \<Rightarrow> SeesDelivery d)"

fun deliveries :: "nat \<Rightarrow> interpreter_output_event list \<Rightarrow> loop_observation list" where
  "deliveries n [] = []"
| "deliveries n (ev # evs) = SeesDelivery \<lparr>delivery_sequence = n, delivered = ev\<rparr> # deliveries (n + 1) evs"

section \<open>What a dispatch does\<close>

definition result_key :: "outbound_tool_result \<Rightarrow> string" where
  "result_key r = action_key (source_interpretation_id r) (out_action r)"

fun results_of :: "loop_output_event list \<Rightarrow> outbound_tool_result list" where
  "results_of [] = []"
| "results_of (OutboundResult r # es) = r # results_of es"
| "results_of (_ # es) = results_of es"

fun unavailable_in :: "loop_output_event list \<Rightarrow> nat" where
  "unavailable_in [] = 0"
| "unavailable_in (ToolUnavailableEvent _ _ # es) = Suc (unavailable_in es)"
| "unavailable_in (_ # es) = unavailable_in es"

fun is_loop_end :: "loop_output_event \<Rightarrow> bool" where
  "is_loop_end (LoopEnded _) = True"
| "is_loop_end _ = False"

definition dispatched_keys :: "loop_owner \<Rightarrow> string set" where
  "dispatched_keys ow = {k. \<exists>r. map_of (actions ow) k = Some r \<and> dispatched r}"

text \<open>What the host sees of one action: the request, perhaps that the tool is unavailable, the result.\<close>

definition dispatch_block :: "string \<Rightarrow> loop_output_event list \<Rightarrow> bool" where
  "dispatch_block key b \<longleftrightarrow>
     (\<exists>r. result_key r = key \<and>
        (b = [ToolDispatchRequested (out_action r) (out_generation r), OutboundResult r] \<or>
         (\<exists>reason. out_outcome r = OutboundUnavailable \<and> out_execution r = None \<and> out_payload r = reason_debug reason \<and>
            b = [ToolDispatchRequested (out_action r) (out_generation r),
                 ToolUnavailableEvent (out_action r) reason, OutboundResult r])))"

lemma results_of_append [simp]: "results_of (xs @ ys) = results_of xs @ results_of ys"
  by (induction xs rule: results_of.induct) auto

lemma unavailable_in_append [simp]: "unavailable_in (xs @ ys) = unavailable_in xs + unavailable_in ys"
  by (induction xs rule: unavailable_in.induct) auto

lemma dispatched_keys_put:
  "dispatched_keys (put_action k r ow) =
     (if dispatched r then insert k (dispatched_keys ow) else dispatched_keys ow - {k})"
  by (auto simp: dispatched_keys_def put_action_def map_of_assoc_put)

text \<open>What an operation leaves alone: everything but output, actions, diagnostics and counters.\<close>

definition untouched :: "loop_owner \<Rightarrow> loop_owner \<Rightarrow> bool" where
  "untouched ow ow' \<longleftrightarrow>
     lo_run ow' = lo_run ow \<and> lo_loop ow' = lo_loop ow \<and> lo_scope ow' = lo_scope ow \<and> lo_limits ow' = lo_limits ow \<and>
     last_seq ow' = last_seq ow \<and> delivery_events ow' = delivery_events ow \<and> loop_ended ow' = loop_ended ow \<and>
     completion_end ow' = completion_end ow \<and> (out_takes ow = None \<longleftrightarrow> out_takes ow' = None)"

text \<open>The output of an action that was started, its counters and its end.\<close>

definition dispatch_effect :: "string \<Rightarrow> loop_end_kind option \<Rightarrow> loop_owner \<Rightarrow> loop_owner \<Rightarrow> bool" where
  "dispatch_effect key eo ow ow' \<longleftrightarrow>
     (\<exists>b ev. dispatch_block key b \<and> prefix ev b \<and> loop_out ow' = loop_out ow @ ev \<and>
        (eo = None \<longrightarrow> ev = b) \<and>
        (eo = Some OutputFailed \<longrightarrow> out_takes ow \<noteq> None) \<and>
        (eo \<noteq> None \<longrightarrow> eo \<noteq> Some OutputFailed \<longrightarrow> eo = Some LoopInvariantFailed \<and> length ev = 1) \<and>
        (eo \<noteq> Some OutputFailed \<longrightarrow>
           outbound_results ow' = outbound_results ow + length (results_of ev) \<and>
           tools_unavailable ow' = tools_unavailable ow + unavailable_in ev))"

lemma loop_emit_out:
  assumes "loop_emit e ow = (eo, ow')"
  obtains "eo = None" "ow' = ow\<lparr>loop_out := loop_out ow @ [e], out_takes := map_option (\<lambda>n. n - 1) (out_takes ow)\<rparr>"
  | "eo = Some OutputFailed" "out_takes ow = Some 0" "ow' = ow"
  using assms by (auto simp: loop_emit_def split: if_splits)

definition block_result :: "loop_world \<Rightarrow> canonical_unit_snapshot \<Rightarrow> string \<Rightarrow> nat \<Rightarrow> string option \<Rightarrow> outbound_tool_outcome
    \<Rightarrow> string \<Rightarrow> loop_owner \<Rightarrow> outbound_tool_result" where
  "block_result w snap action generation execution outcome payload ow =
     \<lparr>outbound_result_id = world_uuid w (uuid_draws ow), out_run = lo_run ow, out_loop = lo_loop ow,
      source_interpretation_id = snapshot_interpretation snap, source_connection_id = snapshot_connection snap,
      out_session = snapshot_session snap, out_action = action, out_generation = generation,
      out_execution = execution, out_outcome = outcome, out_payload = payload, source_unit_id = unit_id snap\<rparr>"

lemma send_result_emit:
  "send_result w snap action generation execution outcome payload ow =
     loop_emit (OutboundResult (block_result w snap action generation execution outcome payload ow))
       (ow\<lparr>uuid_draws := uuid_draws ow + 1\<rparr>)"
  by (simp add: send_result_def block_result_def)

lemma block_result_simps [simp]:
  "out_action (block_result w snap action generation execution outcome payload ow) = action"
  "out_generation (block_result w snap action generation execution outcome payload ow) = generation"
  "out_outcome (block_result w snap action generation execution outcome payload ow) = outcome"
  "out_execution (block_result w snap action generation execution outcome payload ow) = execution"
  "out_payload (block_result w snap action generation execution outcome payload ow) = payload"
  "result_key (block_result w snap action generation execution outcome payload ow) =
     action_key (snapshot_interpretation snap) action"
  by (simp_all add: block_result_def result_key_def)

lemma loop_diag_fields [simp]:
  "loop_out (loop_diag m ow) = loop_out ow" "out_takes (loop_diag m ow) = out_takes ow"
  "actions (loop_diag m ow) = actions ow" "dedup (loop_diag m ow) = dedup ow"
  "outbound_results (loop_diag m ow) = outbound_results ow" "tools_unavailable (loop_diag m ow) = tools_unavailable ow"
  "untouched ow (loop_diag m ow)"
  "runtime_starts (loop_diag m ow) = runtime_starts ow" "dispatched_keys (loop_diag m ow) = dispatched_keys ow"
  by (simp_all add: loop_diag_def untouched_def dispatched_keys_def)

text \<open>The two ways to a result, once the request is out.\<close>

definition finish_effect ::
  "string \<Rightarrow> nat \<Rightarrow> string \<Rightarrow> loop_end_kind option \<Rightarrow> loop_owner \<Rightarrow> loop_owner \<Rightarrow> bool" where
  "finish_effect action generation key eo ow ow' \<longleftrightarrow>
     (\<exists>b ev. dispatch_block key (ToolDispatchRequested action generation # b) \<and> prefix ev b \<and>
        loop_out ow' = loop_out ow @ ev \<and> (eo = None \<longrightarrow> ev = b) \<and>
        (eo \<noteq> None \<longrightarrow> eo = Some OutputFailed \<and> out_takes ow \<noteq> None) \<and>
        (eo = None \<longrightarrow>
           outbound_results ow' = outbound_results ow + length (results_of ev) \<and>
           tools_unavailable ow' = tools_unavailable ow + unavailable_in ev))"

lemma block_plain:
  "result_key r = key \<Longrightarrow> out_action r = a \<Longrightarrow> out_generation r = g \<Longrightarrow>
   dispatch_block key [ToolDispatchRequested a g, OutboundResult r]"
  by (auto simp: dispatch_block_def)

lemma block_unavailable:
  "result_key r = key \<Longrightarrow> out_action r = a \<Longrightarrow> out_generation r = g \<Longrightarrow> out_outcome r = OutboundUnavailable \<Longrightarrow>
   out_execution r = None \<Longrightarrow> out_payload r = reason_debug reason \<Longrightarrow>
   dispatch_block key [ToolDispatchRequested a g, ToolUnavailableEvent a reason, OutboundResult r]"
  by (auto simp: dispatch_block_def)

lemma execute_tool_effect:
  assumes "execute_tool w snap action generation name payload ow = (eo, ow')"
    and "key = action_key (snapshot_interpretation snap) action"
  shows "finish_effect action generation key eo ow ow'"
proof -
  let ?x = "world_uuid w (uuid_draws ow)"
  let ?q = "\<lparr>start_execution = ?x, start_action = action, start_name = name, start_payload = payload, start_generation = generation\<rparr>"
  let ?o = "ow\<lparr>uuid_draws := uuid_draws ow + 1, runtime_starts := runtime_starts ow @ [?q]\<rparr>"
  have sent: "finish_effect action generation key eo ow ow'"
    if "and_then (loop_emit (OutboundResult r) o1) k = (eo, ow')" and "out_action r = action" "out_generation r = generation" "result_key r = key"
      and "loop_out o1 = loop_out ow" "out_takes o1 = out_takes ow" "tools_unavailable o1 = tools_unavailable ow"
      and "\<And>o2. loop_emit (OutboundResult r) o1 = (None, o2) \<Longrightarrow>
             \<exists>o3. k o2 = (None, o3) \<and> loop_out o3 = loop_out o2 \<and> tools_unavailable o3 = tools_unavailable o2 \<and>
               outbound_results o3 = Suc (outbound_results ow)" for r o1 k
  proof (cases "out_takes o1 = Some 0")
    case True
    then show ?thesis
      using that block_plain [OF that(4,2,3)] by (auto simp: finish_effect_def loop_emit_def intro!: exI [of _ "[OutboundResult r]"])
  next
    case False
    then show ?thesis
      using that block_plain [OF that(4,2,3)] by (auto simp: finish_effect_def loop_emit_def intro!: exI [of _ "[OutboundResult r]"])
  qed
  show ?thesis
  proof (cases "world_start_tool w (length (runtime_starts ow)) ?q")
    case (Inl e)
    show ?thesis
      by (rule sent [where k = "\<lambda>ow. (None, ow\<lparr>outbound_results := outbound_results ow + 1\<rparr>)"
            and r = "block_result w snap action generation None ExecutionFailed e (loop_diag (''tool runtime start failed: tool runtime: '' @ e) ?o)"
            and ?o1.0 = "(loop_diag (''tool runtime start failed: tool runtime: '' @ e) ?o)\<lparr>uuid_draws := uuid_draws (loop_diag (''tool runtime start failed: tool runtime: '' @ e) ?o) + 1\<rparr>"])
        (use assms Inl in \<open>auto simp: execute_tool_def Let_def send_result_emit loop_emit_def split: if_splits\<close>)
  next
    case (Inr h)
    show ?thesis
      by (rule sent [where k = "Pair None"
            and r = "block_result w snap action generation (Some ?x) (terminal_outcome_of (await_completion h))
                       (terminal_payload (await_completion h)) (?o\<lparr>outbound_results := outbound_results ?o + 1\<rparr>)"
            and ?o1.0 = "?o\<lparr>outbound_results := outbound_results ?o + 1, uuid_draws := uuid_draws ?o + 1\<rparr>"])
        (use assms Inr in \<open>auto simp: execute_tool_def Let_def send_result_emit loop_emit_def block_result_def result_key_def split: if_splits\<close>)
  qed
qed

lemma report_unavailable_effect:
  assumes "report_unavailable w snap key action generation reason ow = (eo, ow')"
    and "key = action_key (snapshot_interpretation snap) action"
  shows "finish_effect action generation key eo ow ow'"
proof -
  let ?o = "(put_action key ((the (map_of (actions ow) key))\<lparr>rec_state := ActionUnavailable\<rparr>) ow)
              \<lparr>tools_unavailable := tools_unavailable ow + 1\<rparr>"
  have out: "loop_out ?o = loop_out ow" "out_takes ?o = out_takes ow" "outbound_results ?o = outbound_results ow"
    by (simp_all add: put_action_def)
  show ?thesis
  proof (cases "out_takes ow = Some 0")
    case True
    have "dispatch_block key [ToolDispatchRequested action generation, ToolUnavailableEvent action reason,
            OutboundResult (block_result w snap action generation None OutboundUnavailable (reason_debug reason) ow)]"
      by (rule block_unavailable) (simp_all add: assms(2))
    then show ?thesis
      using True assms(1) out by (auto simp: report_unavailable_def Let_def loop_emit_def finish_effect_def)
  next
    case False
    define o1 where "o1 = ?o\<lparr>loop_out := loop_out ow @ [ToolUnavailableEvent action reason],
        out_takes := map_option (\<lambda>n. n - 1) (out_takes ow), outbound_results := outbound_results ow + 1\<rparr>"
    define r where "r = block_result w snap action generation None OutboundUnavailable (reason_debug reason) o1"
    have "dispatch_block key [ToolDispatchRequested action generation, ToolUnavailableEvent action reason, OutboundResult r]"
      unfolding r_def by (rule block_unavailable) (simp_all add: assms(2))
    moreover have emit: "loop_emit (OutboundResult r) (o1\<lparr>uuid_draws := uuid_draws o1 + 1\<rparr>) = (eo, ow')"
      using assms(1) False out by (simp add: report_unavailable_def Let_def loop_emit_def [of "ToolUnavailableEvent action reason"]
          send_result_emit r_def o1_def)
    moreover have o1: "loop_out o1 = loop_out ow @ [ToolUnavailableEvent action reason]"
        "outbound_results o1 = Suc (outbound_results ow)" "tools_unavailable o1 = Suc (tools_unavailable ow)"
        "out_takes o1 = None \<longleftrightarrow> out_takes ow = None"
      by (simp_all add: o1_def)
    ultimately show ?thesis
      unfolding finish_effect_def
      by (intro exI [of _ "[ToolUnavailableEvent action reason, OutboundResult r]"]
          exI [of _ "if eo = None then [ToolUnavailableEvent action reason, OutboundResult r] else [ToolUnavailableEvent action reason]"])
        (erule loop_emit_out; simp)
  qed
qed

lemma dispatch_action_effect:
  assumes "dispatch_action w snap key action generation name payload ow = (eo, ow')"
    and "key = action_key (snapshot_interpretation snap) action"
  shows "dispatch_effect key eo ow ow'"
proof -
  let ?b = "[ToolDispatchRequested action generation,
      OutboundResult (block_result w snap action generation None ExecutionFailed [] ow)]"
  have b: "dispatch_block key ?b" by (rule block_plain) (simp_all add: assms(2))
  show ?thesis
  proof (cases "out_takes ow = Some 0")
    case True
    then show ?thesis using assms(1) b by (auto simp: dispatch_action_def loop_emit_def dispatch_effect_def)
  next
    case False
    define o1 where "o1 = ow\<lparr>loop_out := loop_out ow @ [ToolDispatchRequested action generation],
        out_takes := map_option (\<lambda>n. n - 1) (out_takes ow), resolve_calls := resolve_calls ow + 1\<rparr>"
    have o1: "loop_out o1 = loop_out ow @ [ToolDispatchRequested action generation]" "outbound_results o1 = outbound_results ow"
        "tools_unavailable o1 = tools_unavailable ow" "out_takes o1 = None \<longleftrightarrow> out_takes ow = None"
      by (simp_all add: o1_def)
    have fin: "dispatch_effect key eo ow ow'" if "finish_effect action generation key eo o1 ow'"
    proof -
      from that obtain b ev where eff: "dispatch_block key (ToolDispatchRequested action generation # b)" "prefix ev b"
          "loop_out ow' = loop_out o1 @ ev" "eo = None \<longrightarrow> ev = b" "eo \<noteq> None \<longrightarrow> eo = Some OutputFailed \<and> out_takes o1 \<noteq> None"
          "eo = None \<longrightarrow> outbound_results ow' = outbound_results o1 + length (results_of ev) \<and>
             tools_unavailable ow' = tools_unavailable o1 + unavailable_in ev"
        unfolding finish_effect_def by blast
      show ?thesis
        unfolding dispatch_effect_def
      proof (rule exI [of _ "ToolDispatchRequested action generation # b"],
             rule exI [of _ "ToolDispatchRequested action generation # ev"], intro conjI)
        show "loop_out ow' = loop_out ow @ ToolDispatchRequested action generation # ev" using eff(3) o1(1) by simp
        show "eo \<noteq> Some OutputFailed \<longrightarrow>
            outbound_results ow' = outbound_results ow + length (results_of (ToolDispatchRequested action generation # ev)) \<and>
            tools_unavailable ow' = tools_unavailable ow + unavailable_in (ToolDispatchRequested action generation # ev)"
          using eff(5,6) o1(2,3) by (cases eo) simp_all
        show "dispatch_block key (ToolDispatchRequested action generation # b)" by (rule eff(1))
        show "prefix (ToolDispatchRequested action generation # ev) (ToolDispatchRequested action generation # b)"
          using eff(2) by simp
        show "eo = None \<longrightarrow> ToolDispatchRequested action generation # ev = ToolDispatchRequested action generation # b"
          using eff(4) by blast
        show "eo = Some OutputFailed \<longrightarrow> out_takes ow \<noteq> None"
          using eff(5) o1(4) by (cases eo) simp_all
        show "eo \<noteq> None \<longrightarrow> eo \<noteq> Some OutputFailed \<longrightarrow>
            eo = Some LoopInvariantFailed \<and> length (ToolDispatchRequested action generation # ev) = 1"
          using eff(5) by blast
      qed
    qed
    show ?thesis
    proof (cases "world_resolve w (resolve_calls ow) \<lparr>resolve_action = action, resolve_name = name, resolve_payload = payload\<rparr>")
      case (Inl e)
      with assms(1) False have "eo = Some LoopInvariantFailed" "ow' = o1"
        by (simp_all add: dispatch_action_def loop_emit_def Let_def o1_def)
      with o1 b show ?thesis
        unfolding dispatch_effect_def
        by (intro exI [of _ ?b] exI [of _ "[ToolDispatchRequested action generation]"]) simp
    next
      case (Inr res)
      have "(case res of ToolAvailable _ \<Rightarrow> execute_tool w snap action generation name payload o1
              | ResolvedUnavailable reason \<Rightarrow> report_unavailable w snap key action generation reason o1) = (eo, ow')"
        using assms(1) False Inr by (cases res) (simp_all add: dispatch_action_def loop_emit_def Let_def o1_def)
      then have "finish_effect action generation key eo o1 ow'"
        using execute_tool_effect [OF _ assms(2)] report_unavailable_effect [OF _ assms(2)] by (cases res) simp_all
      then show ?thesis by (rule fin)
    qed
  qed
qed

section \<open>What an event does\<close>

text \<open>The parts of the state a dispatch leaves as they are, besides the ones above.\<close>

definition kept :: "loop_owner \<Rightarrow> loop_owner \<Rightarrow> bool" where
  "kept ow ow' \<longleftrightarrow>
     untouched ow ow' \<and> dedup ow' = dedup ow \<and> map fst (actions ow') = map fst (actions ow) \<and>
     dispatched_keys ow' = dispatched_keys ow \<and>
     (length (lo_diagnostics ow) \<le> 32 \<longrightarrow> length (lo_diagnostics ow') \<le> 32)"

lemma kept_refl [simp]: "kept ow ow"
  by (simp add: kept_def untouched_def)

lemma kept_trans: "kept a b \<Longrightarrow> kept b c \<Longrightarrow> kept a c"
  by (auto simp: kept_def untouched_def)

lemma kept_diag: "kept ow (loop_diag m ow)"
  by (simp add: kept_def) (simp add: loop_diag_def)

lemma kept_emit: "kept ow (snd (loop_emit e ow))"
  by (simp add: loop_emit_def kept_def untouched_def dispatched_keys_def)

lemma kept_send: "kept ow (snd (send_result w snap a g x out p ow))"
  unfolding send_result_emit
  by (rule kept_trans [OF _ kept_emit]) (simp add: kept_def untouched_def dispatched_keys_def)

lemma kept_and_then: "kept ow (snd r) \<Longrightarrow> (\<And>o1. kept o1 (snd (k o1))) \<Longrightarrow> kept ow (snd (and_then r k))"
  by (cases r; cases "fst r") (auto intro: kept_trans)

lemma kept_counters:
  "kept ow (ow\<lparr>outbound_results := n\<rparr>)" "kept ow (ow\<lparr>tools_unavailable := n\<rparr>)" "kept ow (ow\<lparr>resolve_calls := n\<rparr>)"
  "kept ow (ow\<lparr>uuid_draws := n, runtime_starts := qs\<rparr>)"
  by (simp_all add: kept_def untouched_def dispatched_keys_def)

lemma kept_put:
  assumes "map_of (actions ow) key = Some r" and "dispatched r' = dispatched r"
  shows "kept ow (put_action key r' ow)"
proof -
  have "dispatched_keys (put_action key r' ow) = dispatched_keys ow"
    using assms by (auto simp: dispatched_keys_put) (auto simp: dispatched_keys_def)
  with assms show ?thesis by (simp add: kept_def untouched_def) (simp add: put_action_def assoc_put_keys)
qed

lemma kept_execute: "kept ow (snd (execute_tool w snap a g n p ow))"
proof -
  let ?q = "\<lparr>start_execution = world_uuid w (uuid_draws ow), start_action = a, start_name = n, start_payload = p, start_generation = g\<rparr>"
  let ?o = "ow\<lparr>uuid_draws := uuid_draws ow + 1, runtime_starts := runtime_starts ow @ [?q]\<rparr>"
  have "kept ?o (snd (execute_tool w snap a g n p ow))"
  proof (cases "world_start_tool w (length (runtime_starts ow)) ?q")
    case (Inl e)
    then show ?thesis
      unfolding execute_tool_def Let_def
      by (simp only: Inl sum.case) (intro kept_and_then kept_trans [OF kept_diag kept_send]; simp add: kept_counters)
  next
    case (Inr h)
    then show ?thesis
      unfolding execute_tool_def Let_def
      by (simp only: Inr sum.case) (rule kept_trans [OF kept_counters(1) kept_send])
  qed
  then show ?thesis by (rule kept_trans [OF kept_counters(4)])
qed

lemma kept_report:
  assumes "map_of (actions ow) key = Some r"
  shows "kept ow (snd (report_unavailable w snap key a g reason ow))"
  unfolding report_unavailable_def Let_def
proof (rule kept_and_then)
  have "kept ow (put_action key (r\<lparr>rec_state := ActionUnavailable\<rparr>) ow)" by (rule kept_put [OF assms]) simp
  then show "kept ow (snd (loop_emit (ToolUnavailableEvent a reason)
      ((put_action key (the (map_of (actions ow) key)\<lparr>rec_state := ActionUnavailable\<rparr>) ow)\<lparr>tools_unavailable := tools_unavailable ow + 1\<rparr>)))"
    unfolding assms option.sel by (blast intro: kept_trans kept_counters(2) kept_emit)
qed (rule kept_trans [OF kept_counters(1) kept_send])

lemma kept_dispatch:
  assumes "map_of (actions ow) key = Some r"
  shows "kept ow (snd (dispatch_action w snap key a g n p ow))"
proof -
  have "kept o1 (snd (case world_resolve w (resolve_calls o1) \<lparr>resolve_action = a, resolve_name = n, resolve_payload = p\<rparr> of
          Inl _ \<Rightarrow> (Some LoopInvariantFailed, o1\<lparr>resolve_calls := resolve_calls o1 + 1\<rparr>)
        | Inr (ResolvedUnavailable reason) \<Rightarrow> report_unavailable w snap key a g reason (o1\<lparr>resolve_calls := resolve_calls o1 + 1\<rparr>)
        | Inr (ToolAvailable _) \<Rightarrow> execute_tool w snap a g n p (o1\<lparr>resolve_calls := resolve_calls o1 + 1\<rparr>)))"
    if "map_of (actions o1) key = Some r" for o1
  proof -
    have c: "kept o1 (o1\<lparr>resolve_calls := resolve_calls o1 + 1\<rparr>)" by (rule kept_counters(3))
    show ?thesis
      using kept_report [of "o1\<lparr>resolve_calls := resolve_calls o1 + 1\<rparr>" key r] that c
      by (simp split: sum.split tool_resolution.split) (blast intro: kept_trans [OF c [simplified]] kept_execute)
  qed
  note rest = this
  obtain eo b where emit: "loop_emit (ToolDispatchRequested a g) ow = (eo, b)" by fastforce
  then have b: "map_of (actions b) key = Some r" "kept ow b"
    using assms kept_emit [of ow "ToolDispatchRequested a g"] by (auto simp: loop_emit_def split: if_splits)
  show ?thesis
    unfolding dispatch_action_def Let_def emit
    by (cases eo) (simp_all only: and_then_simps snd_conv b(2) kept_trans [OF b(2) rest [OF b(1)]])
qed

text \<open>
  An event leaves the output alone, or it dispatches one action that was not dispatched before.
\<close>

definition unit_effect :: "loop_end_kind option \<Rightarrow> loop_owner \<Rightarrow> loop_owner \<Rightarrow> bool" where
  "unit_effect eo ow ow' \<longleftrightarrow>
     untouched ow ow' \<and>
     ((eo \<in> {None, Some LoopInvariantFailed} \<and> loop_out ow' = loop_out ow \<and> dispatched_keys ow' = dispatched_keys ow \<and>
       outbound_results ow' = outbound_results ow \<and> tools_unavailable ow' = tools_unavailable ow) \<or>
      (\<exists>key. key \<notin> dispatched_keys ow \<and> dispatched_keys ow' = insert key (dispatched_keys ow) \<and>
         dispatch_effect key eo ow ow'))"

text \<open>The memory of the loop; every entry of the duplicate filter is under its own key.\<close>

definition memory_ok :: "loop_owner \<Rightarrow> bool" where
  "memory_ok ow \<longleftrightarrow>
     list_all (\<lambda>(k, g). \<exists>key. k = dedup_key key g) (dedup ow) \<and>
     length (dedup ow) \<le> max_dedup_entries (lo_limits ow) \<and> length (actions ow) \<le> length (dedup ow) \<and>
     length (lo_diagnostics ow) \<le> 32"

definition quiet :: "loop_owner \<Rightarrow> loop_owner \<Rightarrow> bool" where
  "quiet ow ow' \<longleftrightarrow>
     untouched ow ow' \<and> dedup ow' = dedup ow \<and> loop_out ow' = loop_out ow \<and> dispatched_keys ow' = dispatched_keys ow \<and>
     outbound_results ow' = outbound_results ow \<and> tools_unavailable ow' = tools_unavailable ow \<and>
     length (actions ow') \<le> length (actions ow) + 1 \<and>
     (length (lo_diagnostics ow) \<le> 32 \<longrightarrow> length (lo_diagnostics ow') \<le> 32)"

lemma action_entry_put:
  assumes "\<not> dispatched new" and "dispatched r' = dispatched (action_entry key new ow)"
  shows "dispatched_keys (put_action key r' ow) = dispatched_keys ow"
    and "length (actions (put_action key r' ow)) \<le> length (actions ow) + 1"
  using assms
  by (auto simp: dispatched_keys_put action_entry_def split: option.splits)
    (auto simp: dispatched_keys_def put_action_def assoc_put_length)

lemma quiet_put:
  assumes "\<not> dispatched new" and "dispatched r' = dispatched (action_entry key new ow)"
  shows "quiet ow (put_action key r' ow)"
  using action_entry_put [OF assms] by (simp add: quiet_def untouched_def) (simp add: put_action_def)

lemma quiet_diag: "quiet ow ow' \<Longrightarrow> quiet ow (loop_diag m ow')"
  by (simp add: quiet_def untouched_def) (simp add: loop_diag_def)

lemma quiet_duplicate: "quiet ow ow' \<Longrightarrow> quiet ow (ow'\<lparr>duplicates := n\<rparr>)"
  by (simp add: quiet_def untouched_def dispatched_keys_def)

lemma quiet_refl [simp]: "quiet ow ow"
  by (simp add: quiet_def untouched_def)

lemma track_waiting_quiet: "quiet ow (track_waiting key a u g ow)"
  by (auto simp: track_waiting_def Let_def new_action_def intro!: quiet_put [of "new_action a u ObservedWaiting", unfolded new_action_def])

lemma track_incomplete_quiet: "quiet ow (track_incomplete key a u g ow)"
  by (auto simp: track_incomplete_def Let_def new_action_def intro!: quiet_put [of "new_action a u ActionIncomplete", unfolded new_action_def])

text \<open>A request that is dispatched: the action is marked, then the dispatch runs.\<close>

definition marked :: "string \<Rightarrow> loop_owner \<Rightarrow> loop_owner \<Rightarrow> bool" where
  "marked key ow ow' \<longleftrightarrow>
     key \<notin> dispatched_keys ow \<and> dispatched_keys ow' = insert key (dispatched_keys ow) \<and>
     untouched ow ow' \<and> dedup ow' = dedup ow \<and> loop_out ow' = loop_out ow \<and> out_takes ow' = out_takes ow \<and>
     outbound_results ow' = outbound_results ow \<and> tools_unavailable ow' = tools_unavailable ow \<and>
     length (actions ow') \<le> length (actions ow) + 1 \<and> lo_diagnostics ow' = lo_diagnostics ow \<and>
     (\<exists>r. map_of (actions ow') key = Some r)"

lemma marked_put:
  assumes "\<not> dispatched (action_entry key new ow)" and "dispatched r'"
  shows "marked key ow (put_action key r' (put_action key r ow))"
proof -
  have "key \<notin> dispatched_keys ow" using assms(1) by (auto simp: dispatched_keys_def action_entry_def)
  moreover have "put_action key r' (put_action key r ow) = put_action key r' ow"
    by (simp add: put_action_def assoc_put_twice)
  ultimately show ?thesis
    using assms(2) by (simp add: marked_def untouched_def dispatched_keys_put)
      (simp add: put_action_def map_of_assoc_put assoc_put_length)
qed

lemma on_request_ready_cases:
  assumes run: "on_request_ready w key snap tool ow = (eo, ow')"
  obtains "eo \<in> {None, Some LoopInvariantFailed}" "quiet ow ow'"
  | ow1 name payload where "marked key ow ow1"
      "dispatch_action w snap key (tool_action_id tool) (unit_generation snap) name payload ow1 = (eo, ow')"
proof -
  let ?new = "new_action (tool_action_id tool) (unit_id snap) ActionRequestReady"
  let ?r = "action_entry key ?new ow"
  let ?r1 = "?r\<lparr>last_generation := unit_generation snap\<rparr>"
  have new: "\<not> dispatched ?new" by (simp add: new_action_def)
  have put: "quiet ow (put_action key ?r ow)" "quiet ow (put_action key ?r1 ow)"
    by (rule quiet_put [OF new]; simp)+
  consider (full) "eo = Some LoopInvariantFailed" "ow' = ow" | (stale) "eo = None" "ow' = put_action key ?r ow"
    | (duplicate) "eo = None" "ow' = (put_action key ?r1 ow)\<lparr>duplicates := duplicates (put_action key ?r1 ow) + 1\<rparr>"
    | (nameless) m where "eo = None" "ow' = loop_diag m (put_action key ?r1 ow)"
    | (go) name payload where "\<not> dispatched ?r"
        "dispatch_action w snap key (tool_action_id tool) (unit_generation snap) name payload
           (put_action key (?r1\<lparr>rec_state := ActionRequestReady, dispatched := True\<rparr>) (put_action key ?r1 ow)) = (eo, ow')"
    using run unfolding on_request_ready_def Let_def
    by (simp split: if_splits option.splits) blast+
  then show thesis
  proof cases
    case full then show ?thesis using that(1) by simp
  next
    case stale then show ?thesis using that(1) put(1) by simp
  next
    case duplicate then show ?thesis using that(1) quiet_duplicate [OF put(2)] by simp
  next
    case nameless then show ?thesis using that(1) quiet_diag [OF put(2)] by simp
  next
    case go
    show ?thesis by (rule that(2) [OF marked_put [OF go(1)] go(2)]) simp
  qed
qed

lemma dedup_key_inj: "dedup_key k g = dedup_key k' g' \<Longrightarrow> k = k' \<and> g = g'"
  unfolding dedup_key_def by (rule colon_number_inj)

text \<open>The duplicate filter has room and the event is new: one more entry.\<close>

definition noted :: "string \<Rightarrow> nat \<Rightarrow> loop_owner \<Rightarrow> loop_owner" where
  "noted key g ow = ow\<lparr>dedup := assoc_put (dedup_key key g) g (dedup ow)\<rparr>"

lemma noted_memory:
  assumes "memory_ok ow" and "map_of (dedup ow) (dedup_key key g) \<noteq> Some g"
    and "length (dedup ow) < max_dedup_entries (lo_limits ow)"
  shows "list_all (\<lambda>(k, g). \<exists>key. k = dedup_key key g) (dedup (noted key g ow))"
    and "length (dedup (noted key g ow)) = length (dedup ow) + 1"
proof -
  have all: "list_all (\<lambda>(k, g). \<exists>key. k = dedup_key key g) (dedup ow)" using assms(1) by (simp add: memory_ok_def)
  have "map_of (dedup ow) (dedup_key key g) = None"
    using assms(2) map_of_list_all [OF _ all] by (cases "map_of (dedup ow) (dedup_key key g)") (auto dest: dedup_key_inj)
  then show "length (dedup (noted key g ow)) = length (dedup ow) + 1" by (simp add: noted_def assoc_put_length)
  show "list_all (\<lambda>(k, g). \<exists>key. k = dedup_key key g) (dedup (noted key g ow))"
    unfolding noted_def using all by (auto intro!: assoc_put_all)
qed

lemma noted_quiet: "untouched ow (noted key g ow)" "loop_out (noted key g ow) = loop_out ow"
  "dispatched_keys (noted key g ow) = dispatched_keys ow" "outbound_results (noted key g ow) = outbound_results ow"
  "tools_unavailable (noted key g ow) = tools_unavailable ow" "actions (noted key g ow) = actions ow"
  "lo_diagnostics (noted key g ow) = lo_diagnostics ow" "lo_limits (noted key g ow) = lo_limits ow" "out_takes (noted key g ow) = out_takes ow"
  by (simp_all add: noted_def untouched_def dispatched_keys_def)

lemma untouched_trans: "untouched a b \<Longrightarrow> untouched b c \<Longrightarrow> untouched a c"
  by (simp add: untouched_def)

lemma memory_grows:
  assumes "memory_ok ow" and "map_of (dedup ow) (dedup_key key g) \<noteq> Some g"
    and "length (dedup ow) < max_dedup_entries (lo_limits ow)"
    and "untouched (noted key g ow) ow'" "dedup ow' = dedup (noted key g ow)" "length (actions ow') \<le> length (actions ow) + 1"
    and "length (lo_diagnostics ow) \<le> 32 \<longrightarrow> length (lo_diagnostics ow') \<le> 32"
  shows "memory_ok ow'"
  using assms(1,3-) noted_memory [OF assms(1-3)] by (simp add: memory_ok_def untouched_def noted_quiet)

lemma loop_on_unit_cases:
  assumes run: "loop_on_unit w ev ow = (eo, ow')"
  obtains (still) "eo \<in> {None, Some LoopInvariantFailed}" "quiet ow ow'" "actions ow' = actions ow"
  | (tracked) key g where "map_of (dedup ow) (dedup_key key g) \<noteq> Some g" "length (dedup ow) < max_dedup_entries (lo_limits ow)"
      "eo \<in> {None, Some LoopInvariantFailed}" "quiet (noted key g ow) ow'"
  | (started) snap :: canonical_unit_snapshot and tool :: tool_action_event and g ow1 name payload key where
      "key = action_key (snapshot_interpretation snap) (tool_action_id tool)"
      "map_of (dedup ow) (dedup_key key g) \<noteq> Some g" "length (dedup ow) < max_dedup_entries (lo_limits ow)"
      "marked key (noted key g ow) ow1"
      "dispatch_action w snap key (tool_action_id tool) (unit_generation snap) name payload ow1 = (eo, ow')"
proof -
  let ?snap = "event_snapshot ev"
  show thesis
  proof (cases "in_scope (lo_scope ow) ?snap \<and> (\<exists>tool. snapshot_unit ?snap = Tool tool)")
    case False
    then show ?thesis
      using run still unfolding loop_on_unit_def Let_def by (auto split: if_splits canonical_unit.splits)
  next
    case True
    then obtain tool where t: "in_scope (lo_scope ow) ?snap" "snapshot_unit ?snap = Tool tool" by blast
    let ?key = "action_key (snapshot_interpretation ?snap) (tool_action_id tool)" and ?g = "unit_generation ?snap"
    consider (dup) "eo = None" "ow' = ow\<lparr>duplicates := duplicates ow + 1\<rparr>" | (full) "eo = Some LoopInvariantFailed" "ow' = ow"
      | (new) "map_of (dedup ow) (dedup_key ?key ?g) \<noteq> Some ?g" "length (dedup ow) < max_dedup_entries (lo_limits ow)"
          "(case event_request_state tool of
              ReqAssembling \<Rightarrow> (None, track_waiting ?key (tool_action_id tool) (unit_id ?snap) ?g (noted ?key ?g ow))
            | ReqReady \<Rightarrow> on_request_ready w ?key ?snap tool (noted ?key ?g ow)
            | _ \<Rightarrow> (None, track_incomplete ?key (tool_action_id tool) (unit_id ?snap) ?g (noted ?key ?g ow))) = (eo, ow')"
      using run t unfolding loop_on_unit_def Let_def noted_def by (simp split: if_splits)
    then show ?thesis
    proof cases
      case dup then show ?thesis using still quiet_duplicate [OF quiet_refl] by simp
    next
      case full then show ?thesis using still by simp
    next
      case new
      show ?thesis
      proof (cases "event_request_state tool = ReqReady")
        case True
        with new(3) have "on_request_ready w ?key ?snap tool (noted ?key ?g ow) = (eo, ow')" by simp
        then show ?thesis
        proof (rule on_request_ready_cases)
          assume "eo \<in> {None, Some LoopInvariantFailed}" "quiet (noted ?key ?g ow) ow'"
          then show ?thesis by (rule tracked [OF new(1,2)])
        next
          fix ow1 name payload
          assume "marked ?key (noted ?key ?g ow) ow1"
            "dispatch_action w ?snap ?key (tool_action_id tool) ?g name payload ow1 = (eo, ow')"
          then show ?thesis by (rule started [where snap = ?snap and tool = tool, OF refl new(1,2)])
        qed
      next
        case False
        have "eo = None \<and> quiet (noted ?key ?g ow) ow'"
          using new(3) False track_waiting_quiet [of "noted ?key ?g ow"] track_incomplete_quiet [of "noted ?key ?g ow"]
          by (auto split: tool_request_state.splits)
        then show ?thesis using tracked [OF new(1,2)] by simp
      qed
    qed
  qed
qed

lemma loop_on_unit_effect:
  assumes "loop_on_unit w ev ow = (eo, ow')"
  shows "unit_effect eo ow ow'" and "memory_ok ow \<Longrightarrow> memory_ok ow'"
proof -
  have "unit_effect eo ow ow' \<and> (memory_ok ow \<longrightarrow> memory_ok ow')"
    using assms
  proof (cases rule: loop_on_unit_cases)
    case still
    then show ?thesis by (auto simp: unit_effect_def quiet_def memory_ok_def untouched_def)
  next
    case (tracked key g)
    have "memory_ok ow \<longrightarrow> memory_ok ow'"
      using memory_grows [OF _ tracked(1,2)] tracked(4) by (simp add: quiet_def noted_quiet)
    moreover have "untouched ow ow'"
      using untouched_trans [OF noted_quiet(1) [of ow key g], of ow'] tracked(4) by (simp add: quiet_def)
    ultimately show ?thesis
      using tracked(3,4) by (simp add: unit_effect_def quiet_def noted_quiet)
  next
    case (started snap tool g ow1 name payload key)
    from started(4) obtain r where "map_of (actions ow1) key = Some r" by (auto simp: marked_def)
    from kept_dispatch [OF this, of w snap] started(5) have k: "kept ow1 ow'" by (metis snd_conv)
    have u: "untouched (noted key g ow) ow'"
      using untouched_trans [of "noted key g ow" ow1 ow'] started(4) k by (simp add: marked_def kept_def)
    have "length (actions ow') = length (actions ow1)"
      using k map_eq_imp_length_eq [of fst "actions ow'" fst "actions ow1"] by (simp add: kept_def)
    then have "memory_ok ow \<longrightarrow> memory_ok ow'"
      using memory_grows [OF _ started(2,3) u] k started(4) by (simp add: kept_def marked_def noted_quiet)
    moreover have "untouched ow ow'" by (rule untouched_trans [OF noted_quiet(1) u])
    moreover have "dispatch_effect key eo ow ow'"
      using dispatch_action_effect [OF started(5,1)] started(4) by (simp add: dispatch_effect_def marked_def noted_quiet)
    ultimately show ?thesis
      using started(4) k by (auto simp: unit_effect_def marked_def kept_def noted_quiet)
  qed
  then show "unit_effect eo ow ow'" and "memory_ok ow \<Longrightarrow> memory_ok ow'" by blast+
qed

section \<open>Runs\<close>

text \<open>
  The output while the loop runs: for each dispatched action one complete block, in the order of
  the dispatches, and counters that agree with it.
\<close>

definition blocks_ok :: "string list \<Rightarrow> loop_output_event list list \<Rightarrow> bool" where
  "blocks_ok ks bs \<longleftrightarrow> distinct ks \<and> list_all2 dispatch_block ks bs"

definition running :: "loop_owner \<Rightarrow> bool" where
  "running ow \<longleftrightarrow>
     completion_end ow = None \<and>
     (\<exists>ks bs. blocks_ok ks bs \<and> set ks = dispatched_keys ow \<and> loop_out ow = concat bs \<and>
        outbound_results ow = length bs \<and> tools_unavailable ow = unavailable_in (concat bs))"

text \<open>
  The output when the loop has ended: the blocks, what a dispatch that failed in the middle had
  already sent, and the end, which only a host that stopped reading can miss.
\<close>

definition segment_ok :: "string list \<Rightarrow> loop_output_event list \<Rightarrow> bool" where
  "segment_ok ks part \<longleftrightarrow> part = [] \<or> (\<exists>k b. k \<notin> set ks \<and> dispatch_block k b \<and> prefix part b)"

definition stopped :: "nat option \<Rightarrow> loop_owner \<Rightarrow> bool" where
  "stopped takes ow \<longleftrightarrow>
     (\<exists>e ks bs part. completion_end ow = Some e \<and> blocks_ok ks bs \<and> segment_ok ks part \<and>
        (loop_out ow = concat bs @ part @ [LoopEnded e] \<or> takes \<noteq> None \<and> loop_out ow = concat bs @ part) \<and>
        (takes = None \<longrightarrow>
           le_kind e \<noteq> OutputFailed \<and> (part = [] \<or> le_kind e = LoopInvariantFailed \<and> length part = 1) \<and>
           outbound_results_emitted e = length bs \<and> le_tools_unavailable e = unavailable_in (concat bs)))"

definition owner_inv_loop :: "nat option \<Rightarrow> loop_owner \<Rightarrow> bool" where
  "owner_inv_loop takes ow \<longleftrightarrow>
     memory_ok ow \<and> (takes = None \<longleftrightarrow> out_takes ow = None) \<and>
     (if loop_ended ow then stopped takes ow else running ow)"

lemma block_results: "dispatch_block k b \<Longrightarrow> \<exists>r. results_of b = [r] \<and> result_key r = k"
  by (auto simp: dispatch_block_def)

lemma block_no_end: "dispatch_block k b \<Longrightarrow> \<not> list_ex is_loop_end b"
  by (auto simp: dispatch_block_def)

lemma blocks_snoc: "blocks_ok ks bs \<Longrightarrow> k \<notin> set ks \<Longrightarrow> dispatch_block k b \<Longrightarrow> blocks_ok (ks @ [k]) (bs @ [b])"
  by (simp add: blocks_ok_def list_all2_appendI)

lemma unit_effect_running:
  assumes "running ow" and "unit_effect None ow ow'"
  shows "running ow'"
proof -
  from assms(1) obtain ks bs where r: "completion_end ow = None" "blocks_ok ks bs" "set ks = dispatched_keys ow"
      "loop_out ow = concat bs" "outbound_results ow = length bs" "tools_unavailable ow = unavailable_in (concat bs)"
    unfolding running_def by blast
  have c: "completion_end ow' = None" using assms(2) r(1) by (simp add: unit_effect_def untouched_def)
  consider (same) "loop_out ow' = loop_out ow" "dispatched_keys ow' = dispatched_keys ow"
        "outbound_results ow' = outbound_results ow" "tools_unavailable ow' = tools_unavailable ow"
    | (new) key where "key \<notin> dispatched_keys ow" "dispatched_keys ow' = insert key (dispatched_keys ow)" "dispatch_effect key None ow ow'"
    using assms(2) unfolding unit_effect_def by blast
  then show ?thesis
  proof cases
    case same
    then show ?thesis using r c unfolding running_def by metis
  next
    case new
    then obtain b where b: "dispatch_block key b" "loop_out ow' = loop_out ow @ b"
        "outbound_results ow' = outbound_results ow + length (results_of b)"
        "tools_unavailable ow' = tools_unavailable ow + unavailable_in b"
      by (auto simp: dispatch_effect_def)
    have "blocks_ok (ks @ [key]) (bs @ [b])" using blocks_snoc r(2,3) b(1) new(1) by simp
    moreover have "set (ks @ [key]) = dispatched_keys ow'" using r(3) new(2) by simp
    moreover have "loop_out ow' = concat (bs @ [b])" using b(2) r(4) by simp
    moreover have "outbound_results ow' = length (bs @ [b])" using b(3) r(5) block_results [OF b(1)] by auto
    moreover have "tools_unavailable ow' = unavailable_in (concat (bs @ [b]))" using b(4) r(6) by simp
    ultimately show ?thesis using c unfolding running_def by blast
  qed
qed

text \<open>The end of the loop, with a dispatch that failed in the middle or without.\<close>

definition ready_to_stop :: "loop_end_kind \<Rightarrow> nat option \<Rightarrow> loop_owner \<Rightarrow> bool" where
  "ready_to_stop kind takes ow \<longleftrightarrow>
     (\<exists>ks bs part. blocks_ok ks bs \<and> segment_ok ks part \<and> loop_out ow = concat bs @ part \<and>
        (takes = None \<longrightarrow>
           kind \<noteq> OutputFailed \<and> (part = [] \<or> kind = LoopInvariantFailed \<and> length part = 1) \<and>
           outbound_results ow = length bs \<and> tools_unavailable ow = unavailable_in (concat bs)))"

lemma running_ready: "running ow \<Longrightarrow> kind \<noteq> OutputFailed \<Longrightarrow> ready_to_stop kind takes ow"
  unfolding running_def ready_to_stop_def segment_ok_def by fastforce

lemma unit_effect_ready:
  assumes "running ow" and "unit_effect (Some kind) ow ow'" and "takes = None \<longleftrightarrow> out_takes ow = None"
  shows "ready_to_stop kind takes ow'"
proof -
  from assms(1) obtain ks bs where r: "blocks_ok ks bs" "set ks = dispatched_keys ow"
      "loop_out ow = concat bs" "outbound_results ow = length bs" "tools_unavailable ow = unavailable_in (concat bs)"
    unfolding running_def by blast
  consider (same) "kind = LoopInvariantFailed" "loop_out ow' = loop_out ow"
        "outbound_results ow' = outbound_results ow" "tools_unavailable ow' = tools_unavailable ow"
    | (new) key where "key \<notin> dispatched_keys ow" "dispatch_effect key (Some kind) ow ow'"
    using assms(2) unfolding unit_effect_def by blast
  then show ?thesis
  proof cases
    case same
    then show ?thesis
      unfolding ready_to_stop_def segment_ok_def using r by (intro exI [of _ ks] exI [of _ bs] exI [of _ "[]"]) simp
  next
    case new
    then obtain b ev where b: "dispatch_block key b" "prefix ev b" "loop_out ow' = loop_out ow @ ev"
        "kind = OutputFailed \<longrightarrow> out_takes ow \<noteq> None"
        "kind \<noteq> OutputFailed \<longrightarrow> kind = LoopInvariantFailed \<and> length ev = 1 \<and>
           outbound_results ow' = outbound_results ow + length (results_of ev) \<and>
           tools_unavailable ow' = tools_unavailable ow + unavailable_in ev"
      unfolding dispatch_effect_def by auto
    have "results_of ev = [] \<and> unavailable_in ev = 0" if "length ev = 1"
      using that b(1,2) by (cases ev) (auto simp: dispatch_block_def)
    moreover have "segment_ok ks ev" using b(1,2) new(1) r(2) by (auto simp: segment_ok_def)
    ultimately show ?thesis
      unfolding ready_to_stop_def using r b(3-5) assms(3)
      by (intro exI [of _ ks] exI [of _ bs] exI [of _ ev]) auto
  qed
qed

lemma loop_finish_stopped:
  assumes "ready_to_stop kind takes ow" and "\<not> loop_ended ow" and "memory_ok ow" and "takes = None \<longleftrightarrow> out_takes ow = None"
  shows "owner_inv_loop takes (loop_finish kind ow)"
proof -
  from assms(1) obtain ks bs part where r: "blocks_ok ks bs" "segment_ok ks part" "loop_out ow = concat bs @ part"
      "takes = None \<longrightarrow> kind \<noteq> OutputFailed \<and> (part = [] \<or> kind = LoopInvariantFailed \<and> length part = 1) \<and>
         outbound_results ow = length bs \<and> tools_unavailable ow = unavailable_in (concat bs)"
    unfolding ready_to_stop_def by blast
  define e where "e = \<lparr>le_run = lo_run ow, le_loop = lo_loop ow, le_kind = kind,
    delivery_events_received = delivery_events ow, duplicate_events = duplicates ow,
    le_tools_unavailable = tools_unavailable ow, outbound_results_emitted = outbound_results ow,
    le_diagnostics = lo_diagnostics ow\<rparr>"
  have fin: "loop_finish kind ow = (snd (loop_emit (LoopEnded e) (ow\<lparr>loop_ended := True\<rparr>)))\<lparr>completion_end := Some e\<rparr>"
    using assms(2) by (simp add: loop_finish_def Let_def e_def)
  have fini: "loop_ended (loop_finish kind ow)" "completion_end (loop_finish kind ow) = Some e"
      "memory_ok (loop_finish kind ow)" "takes = None \<longleftrightarrow> out_takes (loop_finish kind ow) = None"
    using assms(3,4) unfolding fin by (simp_all add: loop_emit_def memory_ok_def)
  have out: "loop_out (loop_finish kind ow) = loop_out ow @ [LoopEnded e] \<or>
      takes \<noteq> None \<and> loop_out (loop_finish kind ow) = loop_out ow"
    using assms(4) unfolding fin by (auto simp: loop_emit_def)
  have "stopped takes (loop_finish kind ow)"
    unfolding stopped_def
    by (rule exI [of _ e], rule exI [of _ ks], rule exI [of _ bs], rule exI [of _ part])
      (use out fini(2) r in \<open>simp add: e_def\<close>)
  with fini show ?thesis by (simp add: owner_inv_loop_def)
qed

lemma running_delivery [simp]: "running (ow\<lparr>last_seq := n, delivery_events := m\<rparr>) = running ow"
  by (simp add: running_def dispatched_keys_def)

lemma memory_delivery [simp]: "memory_ok (ow\<lparr>last_seq := n, delivery_events := m\<rparr>) = memory_ok ow"
  by (simp add: memory_ok_def)

lemma running_diag: "running ow \<Longrightarrow> running (loop_diag m ow)"
  using loop_diag_fields(7) [of ow m] by (simp add: running_def untouched_def)

lemma memory_diag: "memory_ok ow \<Longrightarrow> memory_ok (loop_diag m ow)"
  by (simp add: memory_ok_def loop_diag_def)

lemma on_delivered_inv:
  assumes "on_delivered w d ow = (eo, ow')" and "owner_inv_loop takes ow" and "\<not> loop_ended ow"
  shows "case eo of None \<Rightarrow> owner_inv_loop takes ow' | Some kind \<Rightarrow> owner_inv_loop takes (loop_finish kind ow')"
proof -
  have r: "running ow" "memory_ok ow" "takes = None \<longleftrightarrow> out_takes ow = None"
    using assms(2,3) by (simp_all add: owner_inv_loop_def)
  let ?o = "ow\<lparr>last_seq := delivery_sequence d, delivery_events := delivery_events ow + 1\<rparr>"
  consider (gap) m where "eo = Some SubscriptionLost" "ow' = loop_diag m ow"
    | (over) "eo = None" "ow' = ?o"
    | (unit) ev where "loop_on_unit w ev ?o = (eo, ow')"
    using assms(1) unfolding on_delivered_def Let_def by (auto split: if_splits interpreter_output_event.splits)
  then show ?thesis
  proof cases
    case (gap m)
    then show ?thesis
      using loop_finish_stopped [where takes = takes and ow = "loop_diag m ow", OF running_ready [OF running_diag [OF r(1)]], of SubscriptionLost]
        assms(3) r(2,3) loop_diag_fields(7) [of ow m] by (simp add: memory_diag untouched_def)
  next
    case over
    then show ?thesis using r assms(3) by (simp add: owner_inv_loop_def)
  next
    case (unit ev)
    note eff = loop_on_unit_effect [OF unit]
    have u: "untouched ?o ow'" using eff(1) by (simp add: unit_effect_def)
    show ?thesis
    proof (cases eo)
      case None
      then show ?thesis
        using unit_effect_running [of ?o ow'] eff r u assms(3) by (simp add: owner_inv_loop_def untouched_def)
    next
      case (Some kind)
      have "ready_to_stop kind takes ow'"
        by (rule unit_effect_ready [of ?o]) (use Some eff(1) r in simp_all)
      then show ?thesis
        using loop_finish_stopped eff(2) r u assms(3) Some by (simp add: untouched_def)
    qed
  qed
qed

lemma loop_run_step_inv: "owner_inv_loop takes ow \<Longrightarrow> owner_inv_loop takes (loop_run_step w ob ow)"
proof (cases "loop_ended ow")
  case False
  assume inv: "owner_inv_loop takes ow"
  then have r: "running ow" "memory_ok ow" "takes = None \<longleftrightarrow> out_takes ow = None" using False by (simp_all add: owner_inv_loop_def)
  have fin: "owner_inv_loop takes (loop_finish kind ow)" if "kind \<noteq> OutputFailed" for kind
    by (rule loop_finish_stopped [OF running_ready [OF r(1) that] False r(2,3)])
  show ?thesis
  proof (cases ob)
    case (SeesDelivery d)
    obtain eo ow' where "on_delivered w d ow = (eo, ow')" by fastforce
    with on_delivered_inv [OF this inv False] SeesDelivery False show ?thesis
      by (cases eo) (simp_all add: loop_run_step_def)
  qed (use False inv fin in \<open>auto simp: loop_run_step_def split: subscription_status.split\<close>)
qed (simp add: loop_run_step_def)

lemma prepare_loop_inv: "owner_inv_loop takes (prepare_loop run loop sc lim takes)"
  by (simp add: owner_inv_loop_def running_def memory_ok_def prepare_loop_def dispatched_keys_def blocks_ok_def)

lemma loop_run_inv: "owner_inv_loop takes (loop_run w obs (prepare_loop run loop sc lim takes))"
  unfolding loop_run_def
  by (rule fold_invariant [where Q = "\<lambda>_. True" and P = "owner_inv_loop takes"]) (simp_all add: prepare_loop_inv loop_run_step_inv)

lemma loop_run_limits [simp]: "lo_limits (loop_run w obs ow) = lo_limits ow"
proof -
  have emit: "lo_limits (snd (loop_emit e o1)) = lo_limits o1" for e o1 by (simp add: loop_emit_def)
  have fin: "lo_limits (loop_finish k o1) = lo_limits o1" for k o1
    by (simp add: loop_finish_def Let_def emit)
  have "lo_limits o2 = lo_limits o1" if "on_delivered w d o1 = (eo, o2)" for d eo o1 o2
    using that loop_on_unit_effect(1) unfolding on_delivered_def Let_def
    by (fastforce simp: unit_effect_def untouched_def loop_diag_def split: if_splits interpreter_output_event.splits)
  then have "lo_limits (loop_run_step w ob o1) = lo_limits o1" for ob o1
    by (auto simp: loop_run_step_def fin split: loop_observation.split subscription_status.split prod.split option.split)
  then show ?thesis
    unfolding loop_run_def by (intro fold_invariant [where Q = "\<lambda>_. True" and P = "\<lambda>o1. lo_limits o1 = lo_limits ow"]) simp_all
qed

section \<open>Properties of runs\<close>

lemma blocks_results:
  assumes "blocks_ok ks bs"
  shows "map result_key (results_of (concat bs)) = ks"
proof -
  have "list_all2 dispatch_block ks bs" using assms by (simp add: blocks_ok_def)
  then show ?thesis
  proof induction
    case (Cons k ks b bs)
    then show ?case using block_results [OF Cons(1)] by auto
  qed simp
qed

lemma blocks_no_end:
  assumes "blocks_ok ks bs"
  shows "\<not> list_ex is_loop_end (concat bs)"
proof -
  have "list_all2 dispatch_block ks bs" using assms by (simp add: blocks_ok_def)
  then show ?thesis by induction (auto dest: block_no_end)
qed

lemma part_results:
  assumes "segment_ok ks part"
  shows "distinct (map result_key (results_of part)) \<and> set (map result_key (results_of part)) \<inter> set ks = {} \<and> \<not> list_ex is_loop_end part"
proof (cases "part = []")
  case False
  with assms obtain k b c where "k \<notin> set ks" "dispatch_block k b" "b = part @ c" by (auto simp: segment_ok_def prefix_def)
  with block_results [OF this(2)] block_no_end [OF this(2)] show ?thesis
    by (auto simp: append_eq_Cons_conv)
qed simp

text \<open>
  Every action is answered at most once, for any registry and runtime and for a host that stops
  reading at any time: no two results in the output are about the same action of the same
  interpretation. The end of the loop is sent at most once, as the last event, and is the end
  that the completion yields.
\<close>

theorem loop_answers_once:
  "case loop_run w obs (prepare_loop run loop sc lim takes) of ow \<Rightarrow>
     distinct (map result_key (results_of (loop_out ow))) \<and>
     (\<exists>evs. \<not> list_ex is_loop_end evs \<and>
        (loop_out ow = evs \<or> (\<exists>e. completion_end ow = Some e \<and> loop_out ow = evs @ [LoopEnded e])))"
proof -
  define ow where "ow = loop_run w obs (prepare_loop run loop sc lim takes)"
  have inv: "owner_inv_loop takes ow" unfolding ow_def by (rule loop_run_inv)
  have "distinct (map result_key (results_of (loop_out ow))) \<and>
     (\<exists>evs. \<not> list_ex is_loop_end evs \<and>
        (loop_out ow = evs \<or> (\<exists>e. completion_end ow = Some e \<and> loop_out ow = evs @ [LoopEnded e])))"
  proof (cases "loop_ended ow")
    case True
    with inv obtain e ks bs part where s: "completion_end ow = Some e" "blocks_ok ks bs" "segment_ok ks part"
        "loop_out ow = concat bs @ part @ [LoopEnded e] \<or> loop_out ow = concat bs @ part"
      unfolding owner_inv_loop_def stopped_def by (metis (no_types))
    have "distinct ks" using s(2) by (simp add: blocks_ok_def)
    moreover have "map result_key (results_of (loop_out ow)) = ks @ map result_key (results_of part)"
      using s(4) blocks_results [OF s(2)] by auto
    ultimately have "distinct (map result_key (results_of (loop_out ow)))"
      using part_results [OF s(3)] by auto
    moreover have "\<not> list_ex is_loop_end (concat bs @ part)" using blocks_no_end [OF s(2)] part_results [OF s(3)] by simp
    ultimately show ?thesis using s(1,4) by (metis append_assoc)
  next
    case False
    with inv obtain ks bs where s: "blocks_ok ks bs" "loop_out ow = concat bs"
      unfolding owner_inv_loop_def running_def by auto
    then show ?thesis using blocks_results [OF s(1)] blocks_no_end [OF s(1)] by (auto simp: blocks_ok_def)
  qed
  then show ?thesis by (simp add: ow_def)
qed

text \<open>
  While the host reads, the output is one complete block after the other: a dispatch request,
  perhaps that the tool is unavailable, and the result of that very action and generation; then
  the end, whose counts of results and of unavailable tools are exact. Only a registry that
  fails can leave a request without a result, and then it ends the loop.
\<close>

theorem loop_output_complete:
  "case loop_run w obs (prepare_loop run loop sc lim None) of ow \<Rightarrow>
     \<exists>ks bs. distinct ks \<and> list_all2 dispatch_block ks bs \<and>
       (if loop_ended ow
        then \<exists>e part. completion_end ow = Some e \<and> loop_out ow = concat bs @ part @ [LoopEnded e] \<and>
               outbound_results_emitted e = length bs \<and> le_tools_unavailable e = unavailable_in (concat bs) \<and>
               le_kind e \<noteq> OutputFailed \<and>
               (part = [] \<or> (\<exists>a g. part = [ToolDispatchRequested a g]) \<and> le_kind e = LoopInvariantFailed)
        else completion_end ow = None \<and> loop_out ow = concat bs)"
proof -
  define ow where "ow = loop_run w obs (prepare_loop run loop sc lim None)"
  have inv: "owner_inv_loop None ow" unfolding ow_def by (rule loop_run_inv)
  have "\<exists>ks bs. blocks_ok ks bs \<and>
       (if loop_ended ow
        then \<exists>e part. completion_end ow = Some e \<and> loop_out ow = concat bs @ part @ [LoopEnded e] \<and>
               outbound_results_emitted e = length bs \<and> le_tools_unavailable e = unavailable_in (concat bs) \<and>
               le_kind e \<noteq> OutputFailed \<and>
               (part = [] \<or> (\<exists>a g. part = [ToolDispatchRequested a g]) \<and> le_kind e = LoopInvariantFailed)
        else completion_end ow = None \<and> loop_out ow = concat bs)"
  proof (cases "loop_ended ow")
    case True
    with inv obtain e ks bs part where s: "completion_end ow = Some e" "blocks_ok ks bs" "segment_ok ks part"
        "loop_out ow = concat bs @ part @ [LoopEnded e]" "le_kind e \<noteq> OutputFailed"
        "part = [] \<or> le_kind e = LoopInvariantFailed \<and> length part = 1"
        "outbound_results_emitted e = length bs" "le_tools_unavailable e = unavailable_in (concat bs)"
      unfolding owner_inv_loop_def stopped_def by auto
    have "\<exists>a g. part = [ToolDispatchRequested a g]" if "length part = 1"
      using that s(3) by (cases part) (auto simp: segment_ok_def dispatch_block_def)
    with s True show ?thesis by (intro exI [of _ ks] exI [of _ bs]) auto
  next
    case False
    with inv show ?thesis unfolding owner_inv_loop_def running_def by auto
  qed
  then show ?thesis by (simp only: ow_def [symmetric] blocks_ok_def conj_assoc)
qed

text \<open>
  The memory of the loop is bounded by the size of the duplicate filter, whatever is delivered:
  that many keys and that many actions at most, and 32 diagnostics.
\<close>

theorem loop_memory_bounded:
  "case loop_run w obs (prepare_loop run loop sc lim takes) of ow \<Rightarrow>
     length (dedup ow) \<le> max_dedup_entries lim \<and> length (actions ow) \<le> max_dedup_entries lim \<and>
     length (lo_diagnostics ow) \<le> 32"
proof -
  have "lo_limits (prepare_loop run loop sc lim takes) = lim" by (simp add: prepare_loop_def)
  then show ?thesis
    using loop_run_inv [of takes w obs run loop sc lim] by (simp add: owner_inv_loop_def memory_ok_def)
qed

section \<open>The empty registry\<close>

definition empty_world :: "loop_world \<Rightarrow> loop_world" where
  "empty_world w = w\<lparr>world_resolve := \<lambda>_. empty_registry_resolve\<rparr>"

definition refused :: "outbound_tool_result \<Rightarrow> bool" where
  "refused r \<longleftrightarrow> out_outcome r = OutboundUnavailable \<and> out_execution r = None \<and> out_payload r = ''NoRegisteredTool''"

definition nothing_started :: "loop_owner \<Rightarrow> bool" where
  "nothing_started ow \<longleftrightarrow> runtime_starts ow = [] \<and> list_all refused (results_of (loop_out ow))"

lemma nothing_started_emit:
  "nothing_started ow \<Longrightarrow> list_all refused (results_of [e]) \<Longrightarrow> nothing_started (snd (loop_emit e ow))"
  by (simp add: nothing_started_def loop_emit_def)

lemma nothing_started_fields [simp]:
  "nothing_started (put_action key r ow) = nothing_started ow"
  "nothing_started (loop_diag m ow) = nothing_started ow"
  "nothing_started (ow\<lparr>duplicates := n\<rparr>) = nothing_started ow"
  "nothing_started (ow\<lparr>dedup := ds\<rparr>) = nothing_started ow"
  "nothing_started (ow\<lparr>tools_unavailable := n\<rparr>) = nothing_started ow"
  "nothing_started (ow\<lparr>outbound_results := n\<rparr>) = nothing_started ow"
  "nothing_started (ow\<lparr>uuid_draws := n\<rparr>) = nothing_started ow"
  "nothing_started (ow\<lparr>resolve_calls := n\<rparr>) = nothing_started ow"
  "nothing_started (ow\<lparr>loop_ended := b\<rparr>) = nothing_started ow"
  "nothing_started (ow\<lparr>completion_end := c\<rparr>) = nothing_started ow"
  "nothing_started (ow\<lparr>last_seq := n, delivery_events := m'\<rparr>) = nothing_started ow"
  by (simp_all add: nothing_started_def put_action_def loop_diag_def)

lemma and_then_preserves:
  "P (snd r) \<Longrightarrow> (\<And>s. P s \<Longrightarrow> P (snd (k s))) \<Longrightarrow> P (snd (and_then r k))"
  by (cases r; cases "fst r") auto

lemma empty_dispatch:
  "nothing_started ow \<Longrightarrow> nothing_started (snd (dispatch_action (empty_world w) snap key a g n p ow))"
  unfolding dispatch_action_def Let_def
  by (rule and_then_preserves)
    (auto simp: empty_world_def empty_registry_resolve_def report_unavailable_def send_result_emit Let_def refused_def
      reason_debug_def intro!: nothing_started_emit and_then_preserves [where P = nothing_started])

lemma empty_dispatch_runtime:
  "dispatch_action (empty_world (w\<lparr>world_start_tool := f\<rparr>)) = dispatch_action (empty_world w)"
  by (intro ext) (simp add: dispatch_action_def empty_world_def empty_registry_resolve_def report_unavailable_def
      send_result_def Let_def cong: if_cong)

lemma empty_on_request_ready:
  "nothing_started ow \<Longrightarrow> nothing_started (snd (on_request_ready (empty_world w) key snap tool ow))"
  by (simp add: on_request_ready_def Let_def empty_dispatch split: option.split)

lemma empty_on_unit: "nothing_started ow \<Longrightarrow> nothing_started (snd (loop_on_unit (empty_world w) ev ow))"
  by (simp add: loop_on_unit_def Let_def track_waiting_def track_incomplete_def empty_on_request_ready
      split: canonical_unit.split tool_request_state.split)

lemma empty_loop_finish: "nothing_started ow \<Longrightarrow> nothing_started (loop_finish kind ow)"
  by (simp add: loop_finish_def Let_def nothing_started_emit)

lemma empty_step: "nothing_started ow \<Longrightarrow> nothing_started (loop_run_step (empty_world w) ob ow)"
proof -
  assume n: "nothing_started ow"
  have "nothing_started (snd (on_delivered (empty_world w) d ow))" for d
    using n empty_on_unit by (simp add: on_delivered_def Let_def split: interpreter_output_event.split)
  then have "on_delivered (empty_world w) d ow = (eo, ow') \<Longrightarrow> nothing_started ow'" for d eo ow' by (metis snd_conv)
  with n show ?thesis
    by (auto simp: loop_run_step_def intro!: empty_loop_finish split: loop_observation.split subscription_status.split prod.split option.split)
qed

text \<open>
  A loop with the empty registry never touches its runtime: whatever is delivered, nothing is
  started, every result says that the tool is unavailable, and the whole run is the same for
  every other runtime.
\<close>

theorem empty_registry_starts_nothing:
  "case loop_run (empty_world w) obs (prepare_loop run loop sc lim takes) of ow \<Rightarrow>
     runtime_starts ow = [] \<and> list_all refused (results_of (loop_out ow)) \<and>
     loop_run (empty_world (w\<lparr>world_start_tool := f\<rparr>)) obs (prepare_loop run loop sc lim takes) = ow"
proof -
  have "nothing_started (loop_run (empty_world w) obs (prepare_loop run loop sc lim takes))"
    unfolding loop_run_def
    by (rule fold_invariant [where Q = "\<lambda>_. True" and P = nothing_started])
      (simp_all only: empty_step, simp add: prepare_loop_def nothing_started_def)
  moreover have ready: "on_request_ready (empty_world (w\<lparr>world_start_tool := f\<rparr>)) = on_request_ready (empty_world w)"
    unfolding on_request_ready_def [abs_def] empty_dispatch_runtime by (rule refl)
  have unit: "loop_on_unit (empty_world (w\<lparr>world_start_tool := f\<rparr>)) = loop_on_unit (empty_world w)"
    unfolding loop_on_unit_def [abs_def] ready by (rule refl)
  have "loop_run_step (empty_world (w\<lparr>world_start_tool := f\<rparr>)) = loop_run_step (empty_world w)"
    unfolding loop_run_step_def [abs_def] on_delivered_def [abs_def] unit by (rule refl)
  ultimately show ?thesis by (simp add: nothing_started_def loop_run_def)
qed

section \<open>Subscriptions read to the end\<close>

lemma published_queue:
  "sub_next_seq p + length evs \<le> 2 ^ 64 \<Longrightarrow>
   map observe (sub_queue (fold publish_event evs p)) = map observe (sub_queue p) @ deliveries (sub_next_seq p) evs"
proof (induction evs arbitrary: p)
  case (Cons ev evs)
  show ?case
  proof (cases evs)
    case Nil
    then show ?thesis by (simp add: publish_event_def take_sequence_def send_delivered_def observe_def)
  next
    case (Cons ev' evs')
    then have "(sub_next_seq p + 1) mod 2 ^ 64 = sub_next_seq p + 1" using Cons.prems by (intro mod_less) simp
    then have "sub_next_seq (publish_event ev p) = sub_next_seq p + 1"
        "map observe (sub_queue (publish_event ev p)) =
           map observe (sub_queue p) @ [SeesDelivery \<lparr>delivery_sequence = sub_next_seq p, delivered = ev\<rparr>]"
      by (simp_all add: publish_event_def take_sequence_def send_delivered_def observe_def)
    then show ?thesis using Cons.IH [of "publish_event ev p"] Cons.prems by simp
  qed
qed simp

definition lost_invariant :: "loop_owner \<Rightarrow> bool" where
  "lost_invariant ow \<longleftrightarrow> loop_ended ow \<and> (\<exists>e. completion_end ow = Some e \<and> le_kind e = LoopInvariantFailed)"

lemma loop_finish_end:
  "\<not> loop_ended ow \<Longrightarrow> loop_ended (loop_finish kind ow) \<and>
     (\<exists>e. completion_end (loop_finish kind ow) = Some e \<and> le_kind e = kind \<and> delivery_events_received e = delivery_events ow)"
  by (simp add: loop_finish_def Let_def loop_emit_def)

lemma on_delivered_in_order:
  assumes "on_delivered w d ow = (eo, ow')" and "last_seq ow < 2 ^ 64 - 1" and "delivery_sequence d = last_seq ow + 1"
    and "\<not> loop_ended ow" and "out_takes ow = None"
  shows "eo \<in> {None, Some LoopInvariantFailed} \<and> \<not> loop_ended ow' \<and> out_takes ow' = None \<and>
         last_seq ow' = last_seq ow + 1 \<and> delivery_events ow' = delivery_events ow + 1"
proof -
  let ?o = "ow\<lparr>last_seq := delivery_sequence d, delivery_events := delivery_events ow + 1\<rparr>"
  have "(last_seq ow + 1) mod 2 ^ 64 = last_seq ow + 1" using assms(2) by (intro mod_less) simp
  with assms(1,3) consider (over) "eo = None" "ow' = ?o" | (unit) ev where "loop_on_unit w ev ?o = (eo, ow')"
    unfolding on_delivered_def Let_def by (auto split: interpreter_output_event.splits)
  then show ?thesis
  proof cases
    case over
    then show ?thesis using assms(3-5) by simp
  next
    case (unit ev)
    from loop_on_unit_effect(1) [OF unit] have u: "unit_effect eo ?o ow'" .
    have "eo \<in> {None, Some LoopInvariantFailed}"
      using u assms(5) unfolding unit_effect_def dispatch_effect_def by auto
    moreover have "untouched ?o ow'" using u by (simp add: unit_effect_def)
    ultimately show ?thesis using assms(3-5) by (simp add: untouched_def)
  qed
qed

lemma deliveries_in_order:
  assumes "last_seq ow + length evs < 2 ^ 64" and "\<not> loop_ended ow" and "out_takes ow = None"
  shows "case loop_run w (deliveries (last_seq ow + 1) evs) ow of ow' \<Rightarrow>
           lost_invariant ow' \<or> \<not> loop_ended ow' \<and> delivery_events ow' = delivery_events ow + length evs"
  using assms
proof (induction evs arbitrary: ow)
  case (Cons ev evs)
  let ?d = "\<lparr>delivery_sequence = last_seq ow + 1, delivered = ev\<rparr>"
  obtain eo ow' where d: "on_delivered w ?d ow = (eo, ow')" by fastforce
  have k: "eo \<in> {None, Some LoopInvariantFailed}" "\<not> loop_ended ow'" "out_takes ow' = None"
      "last_seq ow' = last_seq ow + 1" "delivery_events ow' = delivery_events ow + 1"
    using on_delivered_in_order [OF d] Cons.prems by auto
  show ?case
  proof (cases eo)
    case None
    then have "loop_run w (deliveries (last_seq ow + 1) (ev # evs)) ow = loop_run w (deliveries (last_seq ow' + 1) evs) ow'"
      using d k(4) Cons.prems(2) by (simp add: loop_run_def loop_run_step_def)
    then show ?thesis using Cons.IH [of ow'] Cons.prems(1) k by simp
  next
    case (Some kind)
    then have step: "loop_run_step w (SeesDelivery ?d) ow = loop_finish LoopInvariantFailed ow'"
      using d k(1) Cons.prems(2) by (simp add: loop_run_step_def)
    have stay: "loop_ended o1 \<Longrightarrow> fold (loop_run_step w) obs o1 = o1" for o1 obs
      by (induction obs) (simp_all add: loop_run_step_def)
    note fin = loop_finish_end [OF k(2), of LoopInvariantFailed]
    have "loop_run w (deliveries (last_seq ow + 1) (ev # evs)) ow = loop_finish LoopInvariantFailed ow'"
      unfolding loop_run_def deliveries.simps fold_simps step by (rule stay) (use fin in blast)
    then show ?thesis using fin by (auto simp: lost_invariant_def)
  qed
qed (simp add: loop_run_def)

text \<open>
  A subscription that is published in order is never taken for a lost one: the loop reads all
  events and ends as drained with their exact number, unless one of its own limits or its
  registry stops it.
\<close>

theorem subscription_read_to_end:
  assumes "length evs < 2 ^ 64"
  shows "\<exists>e. completion_end
           (loop_run w (map observe (sub_queue (fold publish_event evs subscription_channel)) @ [SubscriptionClosed])
              (prepare_loop run loop sc lim None)) = Some e \<and>
           (le_kind e = LoopInvariantFailed \<or> le_kind e = Drained \<and> delivery_events_received e = length evs)"
proof -
  let ?o = "prepare_loop run loop sc lim None"
  define ow where "ow = loop_run w (deliveries 1 evs) ?o"
  have o: "last_seq ?o = 0" "\<not> loop_ended ?o" "out_takes ?o = None" "delivery_events ?o = 0" by (simp_all add: prepare_loop_def)
  have "lost_invariant ow \<or> \<not> loop_ended ow \<and> delivery_events ow = length evs"
    using deliveries_in_order [of ?o evs w] assms o by (simp add: ow_def)
  moreover have "map observe (sub_queue (fold publish_event evs subscription_channel)) = deliveries 1 evs"
    using published_queue [of subscription_channel evs] assms by (simp add: subscription_channel_def)
  then have "loop_run w (map observe (sub_queue (fold publish_event evs subscription_channel)) @ [SubscriptionClosed]) ?o
      = loop_run_step w SubscriptionClosed ow"
    by (simp add: loop_run_def ow_def)
  ultimately show ?thesis
    using loop_finish_end [of ow Drained] by (auto simp: loop_run_step_def lost_invariant_def)
qed

definition plain_world :: loop_world where
  "plain_world =
     \<lparr>world_resolve = \<lambda>_ r. if resolve_name r = ''f'' then Ok (ToolAvailable ''f'') else empty_registry_resolve r,
      world_start_tool = \<lambda>_ q. Ok (CompletesWith \<lparr>terminal_outcome_of = OutboundSuccess, terminal_payload = start_payload q\<rparr>),
      world_uuid = nat_str\<rparr>"

definition sample_tool_event :: "string \<Rightarrow> string \<Rightarrow> nat \<Rightarrow> tool_request_state \<Rightarrow> interpreter_output_event" where
  "sample_tool_event action name g s =
     Unit (Advanced \<lparr>unit_id = ''u-'' @ action, unit_generation = g, snapshot_state = UnitWaiting,
       snapshot_interpretation = ''i'', snapshot_connection = ''c'', snapshot_session = None, flow_id = ''f'',
       lane_id = lane_tool, lane_ordinal = 0, causal_parent_id = None, source_time = None, source_step = None,
       snapshot_unit = Tool \<lparr>tool_action_id = action, event_tool_name = Some name, event_request_state = s,
         event_execution_state = ExecNotObserved, event_result_state = ResAbsent, event_request_payload = Some ''{}'',
         event_result_payload = None, terminal_outcome = None, event_waiting_for = None\<rparr>\<rparr>)"

definition all_scope :: loop_scope where
  "all_scope = \<lparr>scope_run = ''r'', scope_loop = ''l'', accepted_interpretation_ids = [], accepted_connection_ids = [],
     accepted_external_session_ids = [], accept_all_in_run = True\<rparr>"

lemmas loop_run_defs = loop_run_step_def on_delivered_def loop_on_unit_def track_waiting_def
  on_request_ready_def dispatch_action_def report_unavailable_def execute_tool_def send_result_def await_completion_def
  loop_finish_def loop_emit_def put_action_def action_entry_def new_action_def in_scope_def loop_diag_def
  action_key_def dedup_key_def prepare_loop_def plain_world_def sample_tool_event_def all_scope_def default_loop_limits_def
  empty_registry_resolve_def reason_debug_def nat_str.simps digit_char_def

theorem subscription_read_to_end_witness:
  "\<exists>e. completion_end
     (loop_run plain_world (map observe (sub_queue (fold publish_event [sample_tool_event ''a'' ''f'' 2 ReqReady] subscription_channel))
        @ [SubscriptionClosed]) (prepare_loop ''r'' ''l'' all_scope default_loop_limits None)) = Some e \<and>
     (le_kind e = LoopInvariantFailed \<or> le_kind e = Drained \<and> delivery_events_received e = length [sample_tool_event ''a'' ''f'' 2 ReqReady])"
  by (rule subscription_read_to_end) simp

section \<open>Observed limits\<close>

text \<open>
  The maximum of tool actions is tested only for a ready request of an unknown action: actions
  that were seen waiting first are recorded and dispatched beyond it.
\<close>

lemma waiting_actions_pass_limit:
  "case loop_run plain_world
      (deliveries 1 [sample_tool_event ''a'' ''f'' 2 ReqAssembling, sample_tool_event ''b'' ''g'' 2 ReqAssembling,
                     sample_tool_event ''a'' ''f'' 3 ReqReady, sample_tool_event ''b'' ''g'' 3 ReqReady])
      (prepare_loop ''r'' ''l'' all_scope (default_loop_limits\<lparr>max_tool_actions := 1\<rparr>) None) of ow \<Rightarrow>
     length (actions ow) = 2 \<and>
     map (\<lambda>r. (out_action r, out_outcome r)) (results_of (loop_out ow)) = [(''a'', OutboundSuccess), (''b'', OutboundUnavailable)]"
  by (simp add: loop_run_defs loop_run_def Let_def)

text \<open>The first number of a subscription is not checked.\<close>

lemma first_gap_unnoticed:
  "\<not> loop_ended (loop_run plain_world (deliveries 5 [sample_tool_event ''a'' ''f'' 2 ReqAssembling])
     (prepare_loop ''r'' ''l'' all_scope default_loop_limits None))"
  by (simp add: loop_run_defs loop_run_def)

text \<open>Two clones of a publisher that send in the other order than they took their numbers end the loop.\<close>

lemma concurrent_publishers_lose_subscription:
  "case take_sequence subscription_channel of (n1, p) \<Rightarrow> case take_sequence p of (n2, p) \<Rightarrow>
     map_option le_kind (completion_end (loop_run plain_world
       (map observe (sub_queue (send_delivered n1 (sample_tool_event ''a'' ''f'' 2 ReqAssembling)
          (send_delivered n2 (sample_tool_event ''a'' ''f'' 3 ReqAssembling) p))))
       (prepare_loop ''r'' ''l'' all_scope default_loop_limits None))) = Some SubscriptionLost"
  by (simp add: loop_run_defs loop_run_def take_sequence_def send_delivered_def subscription_channel_def observe_def Let_def)

end
