(* ===== verification/Loop_Answers.thy ===== *)
theory Loop_Answers
  imports Loop_Runtime Engine_Invariants
begin

text \<open>
  The interpreter and the loop together: every tool request that an interpretation releases as
  ready is answered by the loop that reads it, exactly once.
\<close>

section \<open>Requests that are answered\<close>

text \<open>
  What a loop sees of an event: the key of the action, its generation, and whether it asks for a
  dispatch.
\<close>

fun sighting :: "loop_scope \<Rightarrow> interpreter_output_event \<Rightarrow> (string \<times> nat \<times> bool) list" where
  "sighting sc (Unit ev) =
     (let snap = event_snapshot ev
      in if in_scope sc snap
         then (case snapshot_unit snap of
                 Tool t \<Rightarrow>
                   [(action_key (snapshot_interpretation snap) (tool_action_id t), unit_generation snap,
                     event_request_state t = ReqReady \<and> event_tool_name t \<noteq> None \<and> event_request_payload t \<noteq> None)]
               | _ \<Rightarrow> [])
         else [])"
| "sighting sc (Ended _) = []"

declare sighting.simps [simp del]

lemma sighting_Ended [simp]: "sighting sc (Ended e) = []"
  by (rule sighting.simps(2))

definition sightings :: "loop_scope \<Rightarrow> interpreter_output_event list \<Rightarrow> (string \<times> nat \<times> bool) list" where
  "sightings sc evs = concat (map (sighting sc) evs)"

definition asked_keys :: "loop_scope \<Rightarrow> interpreter_output_event list \<Rightarrow> string set" where
  "asked_keys sc evs = {k. \<exists>g. (k, g, True) \<in> set (sightings sc evs)}"

definition later :: "string \<times> nat \<times> bool \<Rightarrow> string \<times> nat \<times> bool \<Rightarrow> bool" where
  "later a b \<longleftrightarrow> fst a = fst b \<longrightarrow> fst (snd a) < fst (snd b)"

definition tracks :: "(string \<times> nat \<times> bool) set \<Rightarrow> loop_owner \<Rightarrow> bool" where
  "tracks seen ow \<longleftrightarrow>
     dispatched_keys ow = {k. \<exists>g. (k, g, True) \<in> seen} \<and>
     (\<forall>k r. map_of (actions ow) k = Some r \<longrightarrow> last_generation r = 0 \<or> (\<exists>g b. (k, g, b) \<in> seen \<and> last_generation r \<le> g)) \<and>
     (\<forall>k v. map_of (dedup ow) k = Some v \<longrightarrow> (\<exists>key g b. (key, g, b) \<in> seen \<and> k = dedup_key key g))"

definition generations :: "loop_owner \<Rightarrow> string \<Rightarrow> nat option" where
  "generations ow k = map_option last_generation (map_of (actions ow) k)"

lemma generations_put: "generations (put_action key r ow) = (generations ow)(key \<mapsto> last_generation r)"
  by (auto simp: generations_def put_action_def map_of_assoc_put)

lemma generations_actions: "actions ow' = actions ow \<Longrightarrow> generations ow' = generations ow"
  by (simp add: generations_def fun_eq_iff)

lemma generations_dispatch:
  assumes "map_of (actions ow) key = Some r"
  shows "generations (snd (dispatch_action w snap key a g n p ow)) = generations ow"
proof -
  have emit: "actions (snd (loop_emit e o1)) = actions o1" for e o1 by (simp add: loop_emit_def)
  have exec: "actions (snd (execute_tool w snap a g n p o1)) = actions o1" for o1
    by (auto simp: execute_tool_def send_result_emit Let_def loop_emit_def and_then_def split: sum.split)
  have rep: "generations (snd (report_unavailable w snap key a g reason o1)) = generations o1"
    if "map_of (actions o1) key = Some r" for o1 reason
    using that by (auto simp: report_unavailable_def send_result_emit Let_def loop_emit_def and_then_def generations_def
        put_action_def map_of_assoc_put fun_eq_iff)
  show ?thesis
    unfolding dispatch_action_def Let_def
  proof (cases "loop_emit (ToolDispatchRequested a g) ow")
    case (Pair eo b)
    then have b: "actions b = actions ow" using emit [of "ToolDispatchRequested a g" ow] by simp
    then have "generations (snd (case world_resolve w (resolve_calls b) \<lparr>resolve_action = a, resolve_name = n, resolve_payload = p\<rparr> of
          Inl _ \<Rightarrow> (Some LoopInvariantFailed, b\<lparr>resolve_calls := resolve_calls b + 1\<rparr>)
        | Inr (ResolvedUnavailable reason) \<Rightarrow> report_unavailable w snap key a g reason (b\<lparr>resolve_calls := resolve_calls b + 1\<rparr>)
        | Inr (ToolAvailable _) \<Rightarrow> execute_tool w snap a g n p (b\<lparr>resolve_calls := resolve_calls b + 1\<rparr>))) = generations ow"
      using rep [of "b\<lparr>resolve_calls := resolve_calls b + 1\<rparr>"] exec assms
      by (auto intro: generations_actions split: sum.split tool_resolution.split)
    then show "generations (snd (and_then (loop_emit (ToolDispatchRequested a g) ow)
        (\<lambda>ow. case world_resolve w (resolve_calls ow) \<lparr>resolve_action = a, resolve_name = n, resolve_payload = p\<rparr> of
          Inl _ \<Rightarrow> (Some LoopInvariantFailed, ow\<lparr>resolve_calls := resolve_calls ow + 1\<rparr>)
        | Inr (ResolvedUnavailable reason) \<Rightarrow> report_unavailable w snap key a g reason (ow\<lparr>resolve_calls := resolve_calls ow + 1\<rparr>)
        | Inr (ToolAvailable _) \<Rightarrow> execute_tool w snap a g n p (ow\<lparr>resolve_calls := resolve_calls ow + 1\<rparr>)))) = generations ow"
      using Pair b generations_actions [of b ow] by (cases eo) simp_all
  qed
qed

lemma tracksD:
  assumes "tracks seen ow"
  shows tracks_keys: "dispatched_keys ow = {k. \<exists>g. (k, g, True) \<in> seen}"
    and tracks_generation: "map_of (actions ow) k = Some r \<Longrightarrow> last_generation r = 0 \<or> (\<exists>g b. (k, g, b) \<in> seen \<and> last_generation r \<le> g)"
    and tracks_dedup: "map_of (dedup ow) k = Some v \<Longrightarrow> \<exists>key g b. (key, g, b) \<in> seen \<and> k = dedup_key key g"
  using assms unfolding tracks_def by blast+

lemma tracks_step:
  assumes "tracks seen ow" and "dedup ow1 = assoc_put (dedup_key key g) g (dedup ow)"
    and "generations ow1 = generations ow \<or> generations ow1 = (generations ow)(key \<mapsto> g)"
    and "dispatched_keys ow1 = (if b then insert key (dispatched_keys ow) else dispatched_keys ow)"
  shows "tracks (insert (key, g, b) seen) ow1"
proof -
  have "last_generation r = 0 \<or> (\<exists>g' b'. (k, g', b') \<in> insert (key, g, b) seen \<and> last_generation r \<le> g')"
    if r: "map_of (actions ow1) k = Some r" for k r
  proof -
    have "generations ow1 k = Some (last_generation r)" using r by (simp add: generations_def)
    then consider "generations ow k = Some (last_generation r)" | "k = key" "last_generation r = g"
      using assms(3) by (cases "k = key") (metis fun_upd_apply option.inject)+
    then show ?thesis
    proof cases
      case 1
      then obtain r0 where "map_of (actions ow) k = Some r0" "last_generation r0 = last_generation r" by (auto simp: generations_def)
      with tracks_generation [OF assms(1)] show ?thesis by (metis insertCI)
    qed auto
  qed
  moreover have "\<exists>key' g' b'. (key', g', b') \<in> insert (key, g, b) seen \<and> k = dedup_key key' g'"
    if "map_of (dedup ow1) k = Some v" for k v
    using that tracks_dedup [OF assms(1), of k v] unfolding assms(2) map_of_assoc_put
    by (cases "k = dedup_key key g") (simp_all, blast+)
  moreover have "dispatched_keys ow1 = {k. \<exists>g'. (k, g', True) \<in> insert (key, g, b) seen}"
    unfolding assms(4) tracks_keys [OF assms(1)] by auto
  ultimately show ?thesis unfolding tracks_def by blast
qed

lemma on_request_ready_asked:
  assumes run: "on_request_ready w key snap tool ow = (None, ow')"
    and fresh: "\<And>r. map_of (actions ow) key = Some r \<Longrightarrow> last_generation r \<le> unit_generation snap"
  shows "dedup ow' = dedup ow \<and> generations ow' = (generations ow)(key \<mapsto> unit_generation snap) \<and>
     dispatched_keys ow' =
       (if event_tool_name tool \<noteq> None \<and> event_request_payload tool \<noteq> None then insert key (dispatched_keys ow) else dispatched_keys ow)"
proof -
  let ?new = "new_action (tool_action_id tool) (unit_id snap) ActionRequestReady"
  let ?r = "action_entry key ?new ow"
  let ?r1 = "?r\<lparr>last_generation := unit_generation snap\<rparr>"
  let ?o = "put_action key ?r1 ow"
  have new: "\<not> dispatched ?new" by (simp add: new_action_def)
  have le: "\<not> unit_generation snap < last_generation ?r"
    using fresh by (auto simp: action_entry_def new_action_def not_less split: option.split)
  have o: "generations ?o = (generations ow)(key \<mapsto> unit_generation snap)" "dedup ?o = dedup ow"
      "dispatched_keys ?o = dispatched_keys ow"
    using action_entry_put(1) [OF new, of ?r1 key ow] by (simp_all add: generations_put) (simp add: put_action_def)
  show ?thesis
  proof (cases "dispatched ?r")
    case True
    then have "ow' = ?o\<lparr>duplicates := duplicates ?o + 1\<rparr>"
      using run le unfolding on_request_ready_def Let_def by (simp split: if_splits)
    moreover have "key \<in> dispatched_keys ow"
      using True by (auto simp: dispatched_keys_def action_entry_def new_action_def split: option.splits)
    ultimately show ?thesis
      using o by (auto simp: dispatched_keys_def generations_def fun_eq_iff insert_absorb)
  next
    case False
    show ?thesis
    proof (cases "event_tool_name tool \<noteq> None \<and> event_request_payload tool \<noteq> None")
      case True
      then obtain name payload where np: "event_tool_name tool = Some name" "event_request_payload tool = Some payload" by auto
      let ?o2 = "put_action key (?r1\<lparr>rec_state := ActionRequestReady, dispatched := True\<rparr>) ?o"
      have d: "dispatch_action w snap key (tool_action_id tool) (unit_generation snap) name payload ?o2 = (None, ow')"
        using run le False np unfolding on_request_ready_def Let_def by (simp split: if_splits)
      have m: "map_of (actions ?o2) key = Some (?r1\<lparr>rec_state := ActionRequestReady, dispatched := True\<rparr>)"
        by (simp add: put_action_def map_of_assoc_put)
      have k: "kept ?o2 ow'" using kept_dispatch [OF m] d by (metis snd_conv)
      have "generations ow' = generations ?o2" using generations_dispatch [OF m] d by (metis snd_conv)
      moreover have "generations ?o2 = (generations ow)(key \<mapsto> unit_generation snap)" using o(1) by (simp add: generations_put)
      moreover have "dispatched_keys ow' = insert key (dispatched_keys ow)"
        using k o(3) by (simp add: kept_def dispatched_keys_put [of key "?r1\<lparr>rec_state := ActionRequestReady, dispatched := True\<rparr>" ?o])
      moreover have "dedup ow' = dedup ow" using k o(2) by (simp add: kept_def) (simp add: put_action_def)
      ultimately show ?thesis using True by simp
    next
      case none: False
      then obtain msg where "ow' = loop_diag msg ?o"
        using run le False unfolding on_request_ready_def Let_def by (auto split: if_splits option.splits)
      moreover from this have "generations ow' = generations ?o" by (intro generations_actions) simp
      ultimately show ?thesis using o none by (simp only: loop_diag_fields if_False simp_thms)
    qed
  qed
qed

lemma on_unit_tracks:
  assumes run: "loop_on_unit w ev ow = (None, ow')" and t: "tracks seen ow"
    and fresh: "\<forall>a\<in>seen. \<forall>b\<in>set (sighting (lo_scope ow) (Unit ev)). later a b"
  shows "tracks (seen \<union> set (sighting (lo_scope ow) (Unit ev))) ow'"
proof -
  let ?snap = "event_snapshot ev"
  show ?thesis
  proof (cases "in_scope (lo_scope ow) ?snap \<and> (\<exists>tool. snapshot_unit ?snap = Tool tool)")
    case False
    then have "sighting (lo_scope ow) (Unit ev) = []" "ow' = ow"
      using run unfolding loop_on_unit_def Let_def by (auto simp: sighting.simps(1) Let_def split: if_splits canonical_unit.splits)
    with t show ?thesis by simp
  next
    case True
    then obtain tool where tool: "in_scope (lo_scope ow) ?snap" "snapshot_unit ?snap = Tool tool" by blast
    let ?key = "action_key (snapshot_interpretation ?snap) (tool_action_id tool)" and ?g = "unit_generation ?snap"
    let ?b = "event_request_state tool = ReqReady \<and> event_tool_name tool \<noteq> None \<and> event_request_payload tool \<noteq> None"
    let ?o = "ow\<lparr>dedup := assoc_put (dedup_key ?key ?g) ?g (dedup ow)\<rparr>"
    have s: "sighting (lo_scope ow) (Unit ev) = [(?key, ?g, ?b)]" using tool by (simp add: sighting.simps(1) Let_def)
    have lt: "g < ?g" if "(?key, g, b) \<in> seen" for g b using fresh that unfolding s later_def by fastforce
    have "map_of (dedup ow) (dedup_key ?key ?g) = None"
    proof (rule ccontr)
      assume "map_of (dedup ow) (dedup_key ?key ?g) \<noteq> None"
      then obtain v where "map_of (dedup ow) (dedup_key ?key ?g) = Some v" by blast
      from tracks_dedup [OF t this] obtain key g b where k: "(key, g, b) \<in> seen" "dedup_key ?key ?g = dedup_key key g"
        by blast
      from dedup_key_inj [OF k(2)] k(1) lt [of g b] show False by simp
    qed
    then have r: "(case event_request_state tool of
              ReqAssembling \<Rightarrow> (None, track_waiting ?key (tool_action_id tool) (unit_id ?snap) ?g ?o)
            | ReqReady \<Rightarrow> on_request_ready w ?key ?snap tool ?o
            | _ \<Rightarrow> (None, track_incomplete ?key (tool_action_id tool) (unit_id ?snap) ?g ?o)) = (None, ow')"
      using run tool unfolding loop_on_unit_def Let_def by (simp split: if_splits)
    have o: "generations ?o = generations ow" "dispatched_keys ?o = dispatched_keys ow"
      by (simp_all add: generations_def fun_eq_iff dispatched_keys_def)
    have le: "last_generation r \<le> ?g" if "map_of (actions ?o) ?key = Some r" for r
      using tracks_generation [OF t, of ?key r] that lt by fastforce
    have "tracks (insert (?key, ?g, ?b) seen) ow'"
    proof (cases "event_request_state tool = ReqReady")
      case True
      with r have "on_request_ready w ?key ?snap tool ?o = (None, ow')" by simp
      from on_request_ready_asked [OF this le] o True show ?thesis
        by (intro tracks_step [OF t]) auto
    next
      case False
      have q: "quiet ?o ow'" "generations ow' = generations ?o \<or> generations ow' = (generations ?o)(?key \<mapsto> ?g)"
        using r False track_waiting_quiet [of ?o] track_incomplete_quiet [of ?o] le
        by (auto split: tool_request_state.splits option.split simp: track_waiting_def track_incomplete_def Let_def generations_put
            action_entry_def new_action_def not_less)
      then show ?thesis
        using o False by (intro tracks_step [OF t]) (auto simp: quiet_def)
    qed
    then show ?thesis by (simp only: s list.set) (simp add: Un_commute)
  qed
qed

lemma sightings_Cons [simp]: "sightings sc (ev # evs) = sighting sc ev @ sightings sc evs"
  by (simp add: sightings_def)

lemma sightings_Nil [simp]: "sightings sc [] = []"
  by (simp add: sightings_def)

lemma on_delivered_tracks:
  assumes "on_delivered w d ow = (None, ow')" and "tracks seen ow"
    and "\<forall>a\<in>seen. \<forall>b\<in>set (sighting (lo_scope ow) (delivered d)). later a b"
  shows "tracks (seen \<union> set (sighting (lo_scope ow) (delivered d))) ow' \<and> lo_scope ow' = lo_scope ow"
proof -
  let ?o = "ow\<lparr>last_seq := delivery_sequence d, delivery_events := delivery_events ow + 1\<rparr>"
  have t: "tracks seen ?o" using assms(2) by (simp add: tracks_def dispatched_keys_def)
  show ?thesis
  proof (cases "delivered d")
    case (Unit ev)
    then have u: "loop_on_unit w ev ?o = (None, ow')"
      using assms(1) unfolding on_delivered_def Let_def by (simp split: if_splits)
    have "lo_scope ow' = lo_scope ow" using loop_on_unit_effect(1) [OF u] by (simp add: unit_effect_def untouched_def)
    with on_unit_tracks [OF u t] assms(3) Unit show ?thesis by simp
  next
    case (Ended e)
    then have "ow' = ?o" using assms(1) unfolding on_delivered_def Let_def by (simp split: if_splits)
    with t Ended show ?thesis by simp
  qed
qed

lemma loop_run_ended: "loop_ended ow \<Longrightarrow> loop_run w obs ow = ow"
  unfolding loop_run_def by (induction obs) (simp_all add: loop_run_step_def)

lemma run_tracks:
  assumes "last_seq ow + length evs < 2 ^ 64" "out_takes ow = None" "tracks seen ow"
    and "sorted_wrt later (sightings (lo_scope ow) evs)"
    and "\<forall>a\<in>seen. \<forall>b\<in>set (sightings (lo_scope ow) evs). later a b"
    and "\<not> loop_ended (loop_run w (deliveries (last_seq ow + 1) evs) ow)"
  shows "tracks (seen \<union> set (sightings (lo_scope ow) evs)) (loop_run w (deliveries (last_seq ow + 1) evs) ow)"
  using assms
proof (induction evs arbitrary: ow seen)
  case Nil
  then show ?case by (simp add: loop_run_def)
next
  case (Cons ev evs)
  let ?d = "\<lparr>delivery_sequence = last_seq ow + 1, delivered = ev\<rparr>"
  have open_: "\<not> loop_ended ow" using Cons.prems(6) loop_run_ended by metis
  obtain eo ow' where d: "on_delivered w ?d ow = (eo, ow')" by fastforce
  have k: "\<not> loop_ended ow'" "out_takes ow' = None" "last_seq ow' = last_seq ow + 1"
    using on_delivered_in_order [OF d] Cons.prems(1,2) open_ by auto
  have step: "loop_run w (deliveries (last_seq ow + 1) (ev # evs)) ow =
      loop_run w (deliveries (last_seq ow + 1 + 1) evs) (case eo of None \<Rightarrow> ow' | Some kind \<Rightarrow> loop_finish kind ow')"
    using d open_ by (simp add: loop_run_def loop_run_step_def split: option.split)
  have "eo = None"
  proof (rule ccontr)
    assume "eo \<noteq> None"
    then obtain kind where "eo = Some kind" by blast
    with step Cons.prems(6) loop_finish_end [OF k(1), of kind] loop_run_ended show False by fastforce
  qed
  have s: "tracks (seen \<union> set (sighting (lo_scope ow) ev)) ow'" "lo_scope ow' = lo_scope ow"
    using on_delivered_tracks [OF d [unfolded \<open>eo = None\<close>] Cons.prems(3)] Cons.prems(5) by auto
  have r: "loop_run w (deliveries (last_seq ow + 1) (ev # evs)) ow = loop_run w (deliveries (last_seq ow' + 1) evs) ow'"
    using step \<open>eo = None\<close> k(3) by simp
  have "tracks ((seen \<union> set (sighting (lo_scope ow) ev)) \<union> set (sightings (lo_scope ow') evs))
      (loop_run w (deliveries (last_seq ow' + 1) evs) ow')"
    by (rule Cons.IH) (use Cons.prems s k r in \<open>auto simp: sorted_wrt_append\<close>)
  then show ?case unfolding r s(2) by (simp add: Un_assoc)
qed

text \<open>
  A loop that drains a subscription answers exactly the actions it was asked for, each once: the
  keys of its results are the keys of the events in its scope that carry a ready request with a
  name and a payload. The events about one action come with increasing generations.
\<close>

lemma answered_when_drained:
  assumes "length evs < 2 ^ 64" and "sorted_wrt later (sightings sc evs)"
    and "ow = loop_run w (map observe (sub_queue (fold publish_event evs subscription_channel)) @ [SubscriptionClosed])
           (prepare_loop rid lid sc lim None)"
    and "map_option le_kind (completion_end ow) = Some Drained"
  shows "distinct (map result_key (results_of (loop_out ow))) \<and>
         set (map result_key (results_of (loop_out ow))) = asked_keys sc evs"
proof -
  let ?o = "prepare_loop rid lid sc lim None"
  define o1 where "o1 = loop_run w (deliveries 1 evs) ?o"
  have o: "last_seq ?o = 0" "\<not> loop_ended ?o" "out_takes ?o = None" "lo_scope ?o = sc" by (simp_all add: prepare_loop_def)
  have q: "map observe (sub_queue (fold publish_event evs subscription_channel)) = deliveries 1 evs"
    using published_queue [of subscription_channel evs] assms(1) by (simp add: subscription_channel_def)
  then have ow: "ow = loop_run_step w SubscriptionClosed o1"
    unfolding assms(3) q by (simp add: loop_run_def o1_def)
  have "lost_invariant o1 \<or> \<not> loop_ended o1"
    using deliveries_in_order [of ?o evs w] assms(1) o by (auto simp: o1_def)
  with assms(4) ow have run: "\<not> loop_ended o1" by (auto simp: loop_run_step_def lost_invariant_def)
  have "tracks {} ?o" by (simp add: tracks_def dispatched_keys_def prepare_loop_def)
  from run_tracks [OF _ o(3) this] o run assms(1,2)
  have "tracks (set (sightings sc evs)) o1" by (simp add: o1_def)
  then have keys: "dispatched_keys o1 = asked_keys sc evs" by (simp add: tracks_keys asked_keys_def)
  have "owner_inv_loop None o1" unfolding o1_def by (rule loop_run_inv)
  with run obtain ks bs where b: "blocks_ok ks bs" "set ks = dispatched_keys o1" "loop_out o1 = concat bs" "out_takes o1 = None"
    unfolding owner_inv_loop_def running_def by auto
  have "results_of (loop_out ow) = results_of (concat bs)"
    using run b(3,4) by (simp add: ow loop_run_step_def loop_finish_def Let_def loop_emit_def)
  then have "map result_key (results_of (loop_out ow)) = ks" using blocks_results [OF b(1)] by simp
  with b(1,2) keys show ?thesis by (simp add: blocks_ok_def)
qed

lemma drained_or_failed:
  assumes "length evs < 2 ^ 64"
    and "ow = loop_run w (map observe (sub_queue (fold publish_event evs subscription_channel)) @ [SubscriptionClosed])
           (prepare_loop rid lid sc lim None)"
  shows "map_option le_kind (completion_end ow) \<in> {Some LoopInvariantFailed, Some Drained}"
  using subscription_read_to_end [OF assms(1)] unfolding assms(2) by (metis insert_iff option.map(2))

section \<open>Why a loop fails\<close>

text \<open>
  The causes of a failure: more sightings in scope than the duplicate filter remembers, more
  actions than the loop may have, or a registry that refuses a call.
\<close>

definition loop_exhausted :: "loop_world \<Rightarrow> loop_limits \<Rightarrow> loop_scope \<Rightarrow> interpreter_output_event list \<Rightarrow> bool" where
  "loop_exhausted w lim sc evs \<longleftrightarrow>
     max_dedup_entries lim < length (sightings sc evs) \<or>
     max_tool_actions lim < card (fst ` set (sightings sc evs)) \<or>
     (\<exists>n q. isl (world_resolve w n q))"

definition room :: "(string \<times> nat \<times> bool) list \<Rightarrow> loop_owner \<Rightarrow> bool" where
  "room seen ow \<longleftrightarrow>
     length (dedup ow) \<le> length seen \<and> distinct (map fst (actions ow)) \<and> set (map fst (actions ow)) \<subseteq> fst ` set seen"

lemma dispatch_failed:
  assumes "dispatch_action w snap key a g n p ow = (Some LoopInvariantFailed, ow')"
  shows "\<exists>n q. isl (world_resolve w n q)"
proof (rule ccontr)
  assume no: "\<not> ?thesis"
  have res: "\<exists>x. world_resolve w m q = Inr x" for m q using no by (metis sum.collapse(2))
  obtain eo b where e: "loop_emit (ToolDispatchRequested a g) ow = (eo, b)" by fastforce
  obtain x where x: "world_resolve w (resolve_calls b) \<lparr>resolve_action = a, resolve_name = n, resolve_payload = p\<rparr> = Inr x" using res by blast
  show False
    using assms e x
    by (auto simp: dispatch_action_def and_then_def loop_emit_def report_unavailable_def execute_tool_def send_result_def Let_def
        split: if_splits sum.splits tool_resolution.splits option.splits prod.splits)
qed

lemma ready_room:
  assumes "on_request_ready w key snap tool ow = (eo, ow')"
  shows "eo = Some LoopInvariantFailed \<Longrightarrow>
      max_tool_actions (lo_limits ow) \<le> length (actions ow) \<and> map_of (actions ow) key = None \<or> (\<exists>n q. isl (world_resolve w n q))"
    and "eo = None \<Longrightarrow> dedup ow' = dedup ow \<and> map fst (actions ow') = map fst (assoc_put key undefined (actions ow))"
proof -
  let ?r = "(action_entry key (new_action (tool_action_id tool) (unit_id snap) ActionRequestReady) ow)\<lparr>last_generation := unit_generation snap\<rparr>"
  let ?o = "put_action key (?r\<lparr>rec_state := ActionRequestReady, dispatched := True\<rparr>) (put_action key ?r ow)"
  have m: "map_of (actions ?o) key = Some (?r\<lparr>rec_state := ActionRequestReady, dispatched := True\<rparr>)"
    by (simp add: put_action_def map_of_assoc_put)
  have keys: "map fst (actions (put_action key r ow)) = map fst (assoc_put key undefined (actions ow))"
    "dedup (put_action key r ow) = dedup ow" for r
    by (simp_all add: put_action_def assoc_put_keys)
  have disp: "dedup (snd (dispatch_action w snap key a g n p ?o)) = dedup ow \<and>
      map fst (actions (snd (dispatch_action w snap key a g n p ?o))) = map fst (assoc_put key undefined (actions ow))" for a g n p
    using kept_dispatch [OF m, of w snap a g n p] by (simp add: kept_def put_action_def assoc_put_twice assoc_put_keys)
  show "eo = Some LoopInvariantFailed \<Longrightarrow>
      max_tool_actions (lo_limits ow) \<le> length (actions ow) \<and> map_of (actions ow) key = None \<or> (\<exists>n q. isl (world_resolve w n q))"
    using assms dispatch_failed unfolding on_request_ready_def Let_def by (auto split: if_splits option.splits)
  show "eo = None \<Longrightarrow> dedup ow' = dedup ow \<and> map fst (actions ow') = map fst (assoc_put key undefined (actions ow))"
    using assms keys disp unfolding on_request_ready_def Let_def
    by (auto simp: loop_diag_fields split: if_splits option.splits) (metis snd_conv)+
qed

lemma room_put:
  assumes "room seen ow" and "length (dedup ow') \<le> Suc (length (dedup ow))"
    and "map fst (actions ow') = map fst (actions ow) \<or> map fst (actions ow') = map fst (assoc_put key v (actions ow))"
  shows "room (seen @ [(key, g, b)]) ow'"
proof -
  have "distinct (map fst (actions ow'))" using assms(1,3) assoc_put_distinct [of "actions ow" key v] by (auto simp: room_def)
  moreover have "set (map fst (actions ow')) \<subseteq> insert key (fst ` set seen)"
    using assms(1,3) by (auto simp: room_def assoc_put_keys simp del: set_map split: if_splits)
  ultimately show ?thesis using assms(1,2) by (auto simp: room_def)
qed

lemma unit_room:
  assumes "loop_on_unit w ev ow = (eo, ow')" and "room seen ow" and "lo_scope ow = sc" and "lo_limits ow = lim"
  shows "eo = Some LoopInvariantFailed \<Longrightarrow>
      max_dedup_entries lim < length (seen @ sighting sc (Unit ev)) \<or>
      max_tool_actions lim < card (fst ` set (seen @ sighting sc (Unit ev))) \<or> (\<exists>n q. isl (world_resolve w n q))"
    and "eo = None \<Longrightarrow> room (seen @ sighting sc (Unit ev)) ow'"
proof -
  let ?snap = "event_snapshot ev"
  have "(eo = Some LoopInvariantFailed \<longrightarrow>
      max_dedup_entries lim < length (seen @ sighting sc (Unit ev)) \<or>
      max_tool_actions lim < card (fst ` set (seen @ sighting sc (Unit ev))) \<or> (\<exists>n q. isl (world_resolve w n q)))
    \<and> (eo = None \<longrightarrow> room (seen @ sighting sc (Unit ev)) ow')"
  proof (cases "in_scope sc ?snap \<and> (\<exists>tool. snapshot_unit ?snap = Tool tool)")
    case False
    then have "sighting sc (Unit ev) = []" "ow' = ow" "eo = None"
      using assms(1,3) unfolding loop_on_unit_def Let_def by (auto simp: sighting.simps(1) Let_def split: if_splits canonical_unit.splits)
    with assms(2) show ?thesis by simp
  next
    case True
    then obtain tool where tool: "in_scope sc ?snap" "snapshot_unit ?snap = Tool tool" by blast
    let ?key = "action_key (snapshot_interpretation ?snap) (tool_action_id tool)" and ?g = "unit_generation ?snap"
    let ?d = "dedup_key ?key ?g"
    let ?o = "ow\<lparr>dedup := assoc_put ?d ?g (dedup ow)\<rparr>"
    obtain b where s: "sighting sc (Unit ev) = [(?key, ?g, b)]" using tool by (simp add: sighting.simps(1) Let_def)
    have short: "length (dedup ?o) \<le> Suc (length (dedup ow))" by (simp add: assoc_put_length)
    have len: "length (actions ow) \<le> card (fst ` set seen)"
      using assms(2) distinct_card [of "map fst (actions ow)"] card_mono [of "fst ` set seen" "set (map fst (actions ow))"]
      by (simp add: room_def)
    consider (dup) "eo = None" "ow' = ow\<lparr>duplicates := duplicates ow + 1\<rparr>"
      | (full) "eo = Some LoopInvariantFailed" "length (dedup ow) \<ge> max_dedup_entries lim"
      | (waits) "eo = None" "ow' = track_waiting ?key (tool_action_id tool) (unit_id ?snap) ?g ?o"
      | (part) "eo = None" "ow' = track_incomplete ?key (tool_action_id tool) (unit_id ?snap) ?g ?o"
      | (ready) "on_request_ready w ?key ?snap tool ?o = (eo, ow')"
    proof -
      have u: "(eo, ow') =
          (if map_of (dedup ow) ?d = Some ?g then (None, ow\<lparr>duplicates := duplicates ow + 1\<rparr>)
           else if length (dedup ow) \<ge> max_dedup_entries lim then (Some LoopInvariantFailed, ow)
           else case event_request_state tool of
                  ReqAssembling \<Rightarrow> (None, track_waiting ?key (tool_action_id tool) (unit_id ?snap) ?g ?o)
                | ReqReady \<Rightarrow> on_request_ready w ?key ?snap tool ?o
                | _ \<Rightarrow> (None, track_incomplete ?key (tool_action_id tool) (unit_id ?snap) ?g ?o))"
        unfolding assms(1) [symmetric] loop_on_unit_def Let_def using assms(3,4) tool by simp
      show thesis
      proof (cases "map_of (dedup ow) ?d = Some ?g")
        case True
        with u that(1) show thesis by simp
      next
        case False
        show thesis
        proof (cases "length (dedup ow) \<ge> max_dedup_entries lim")
          case True
          with u False that(2) show thesis by simp
        next
          case short: False
          show thesis
            by (cases "event_request_state tool") (use u False short that(3-5) in simp_all)
        qed
      qed
    qed
    then show ?thesis
    proof cases
      case dup
      with room_put [OF assms(2), of ow'] s show ?thesis by simp
    next
      case full
      with assms(2) s show ?thesis by (auto simp: room_def)
    next
      case waits
      then show ?thesis
        using room_put [OF assms(2), of ow' ?key] short s by (auto simp: track_waiting_def put_action_def assoc_put_keys Let_def)
    next
      case part
      then show ?thesis
        using room_put [OF assms(2), of ow' ?key] short s by (auto simp: track_incomplete_def put_action_def assoc_put_keys Let_def)
    next
      case ready
      have "max_tool_actions lim < card (fst ` set (seen @ [(?key, ?g, b)]))"
        if "max_tool_actions lim \<le> length (actions ow)" "map_of (actions ow) ?key = None"
      proof -
        have d: "distinct (map fst (actions ow) @ [?key])" "set (map fst (actions ow) @ [?key]) \<subseteq> fst ` set (seen @ [(?key, ?g, b)])"
          using assms(2) that(2) by (auto simp: room_def map_of_fst_None)
        from card_mono [OF _ d(2)] distinct_card [OF d(1)] that(1) show ?thesis by simp
      qed
      moreover have "room (seen @ [(?key, ?g, b)]) ow'" if "eo = None"
        using ready_room(2) [OF ready that] short by (intro room_put [OF assms(2), where v = undefined]) auto
      ultimately show ?thesis using ready_room(1) [OF ready] assms(4) s by auto
    qed
  qed
  then show "eo = Some LoopInvariantFailed \<Longrightarrow>
      max_dedup_entries lim < length (seen @ sighting sc (Unit ev)) \<or>
      max_tool_actions lim < card (fst ` set (seen @ sighting sc (Unit ev))) \<or> (\<exists>n q. isl (world_resolve w n q))"
    "eo = None \<Longrightarrow> room (seen @ sighting sc (Unit ev)) ow'"
    by blast+
qed

lemma delivered_room:
  assumes "on_delivered w d ow = (eo, ow')" and "room seen ow" and "lo_scope ow = sc" and "lo_limits ow = lim"
  shows "eo = Some LoopInvariantFailed \<Longrightarrow>
      max_dedup_entries lim < length (seen @ sighting sc (delivered d)) \<or>
      max_tool_actions lim < card (fst ` set (seen @ sighting sc (delivered d))) \<or> (\<exists>n q. isl (world_resolve w n q))"
    and "eo = None \<Longrightarrow> room (seen @ sighting sc (delivered d)) ow' \<and> lo_scope ow' = sc \<and> lo_limits ow' = lim"
proof -
  let ?o = "ow\<lparr>last_seq := delivery_sequence d, delivery_events := delivery_events ow + 1\<rparr>"
  have room: "room seen ?o" "lo_scope ?o = sc" "lo_limits ?o = lim" using assms(2-4) by (simp_all add: room_def)
  consider (gap) "eo = Some SubscriptionLost" | (over) "eo = None" "ow' = ?o" "sighting sc (delivered d) = []"
    | (unit) ev where "delivered d = Unit ev" "loop_on_unit w ev ?o = (eo, ow')"
    using assms(1) unfolding on_delivered_def Let_def by (auto split: if_splits interpreter_output_event.splits)
  note cases = this
  show "eo = Some LoopInvariantFailed \<Longrightarrow>
      max_dedup_entries lim < length (seen @ sighting sc (delivered d)) \<or>
      max_tool_actions lim < card (fst ` set (seen @ sighting sc (delivered d))) \<or> (\<exists>n q. isl (world_resolve w n q))"
    using cases by cases (use unit_room(1) [OF _ room] in auto)
  show "eo = None \<Longrightarrow> room (seen @ sighting sc (delivered d)) ow' \<and> lo_scope ow' = sc \<and> lo_limits ow' = lim"
    using cases
  proof cases
    case (unit ev)
    assume "eo = None"
    with unit_room(2) [OF unit(2) room] loop_on_unit_effect(1) [OF unit(2)] unit room show ?thesis
      by (auto simp: unit_effect_def untouched_def)
  qed (use room in auto)
qed

lemma failed_exhausted:
  assumes "last_seq ow + length evs < 2 ^ 64" "out_takes ow = None" "\<not> loop_ended ow" "room seen ow"
    and "loop_ended (loop_run w (deliveries (last_seq ow + 1) evs) ow)"
  shows "max_dedup_entries (lo_limits ow) < length (seen @ sightings (lo_scope ow) evs) \<or>
      max_tool_actions (lo_limits ow) < card (fst ` set (seen @ sightings (lo_scope ow) evs)) \<or> (\<exists>n q. isl (world_resolve w n q))"
  using assms
proof (induction evs arbitrary: ow seen)
  case Nil
  then show ?case by (simp add: loop_run_def)
next
  case (Cons ev evs)
  let ?d = "\<lparr>delivery_sequence = last_seq ow + 1, delivered = ev\<rparr>"
  obtain eo ow' where d: "on_delivered w ?d ow = (eo, ow')" by fastforce
  have k: "eo \<in> {None, Some LoopInvariantFailed}" "\<not> loop_ended ow'" "out_takes ow' = None" "last_seq ow' = last_seq ow + 1"
    using on_delivered_in_order [OF d] Cons.prems(1-3) by auto
  note r = delivered_room [OF d Cons.prems(4) refl refl, simplified]
  show ?case
  proof (cases eo)
    case (Some kind)
    with k(1) r(1) have f: "max_dedup_entries (lo_limits ow) < length (seen @ sighting (lo_scope ow) ev) \<or>
        max_tool_actions (lo_limits ow) < card (fst ` set (seen @ sighting (lo_scope ow) ev)) \<or> (\<exists>n q. isl (world_resolve w n q))"
      by auto
    have "card (fst ` set (seen @ sighting (lo_scope ow) ev)) \<le> card (fst ` set (seen @ sightings (lo_scope ow) (ev # evs)))"
      by (rule card_mono) auto
    moreover have "length (seen @ sighting (lo_scope ow) ev) \<le> length (seen @ sightings (lo_scope ow) (ev # evs))" by simp
    ultimately show ?thesis using f by (meson less_le_trans)
  next
    case None
    with r(2) have o: "room (seen @ sighting (lo_scope ow) ev) ow'" "lo_scope ow' = lo_scope ow" "lo_limits ow' = lo_limits ow" by auto
    have "loop_run w (deliveries (last_seq ow + 1) (ev # evs)) ow = loop_run w (deliveries (last_seq ow' + 1) evs) ow'"
      using d None k(4) Cons.prems(3) by (simp add: loop_run_def loop_run_step_def)
    with Cons.IH [OF _ k(3) k(2) o(1)] Cons.prems(1,5) k(4) o show ?thesis by simp
  qed
qed

lemma failed_or_drained:
  assumes "length evs < 2 ^ 64"
    and "ow = loop_run w (map observe (sub_queue (fold publish_event evs subscription_channel)) @ [SubscriptionClosed])
           (prepare_loop rid lid sc lim None)"
  shows "map_option le_kind (completion_end ow) = Some LoopInvariantFailed \<and> loop_exhausted w lim sc evs \<or>
    map_option le_kind (completion_end ow) = Some Drained"
proof -
  let ?o = "prepare_loop rid lid sc lim None"
  define o1 where "o1 = loop_run w (deliveries 1 evs) ?o"
  have o: "last_seq ?o = 0" "\<not> loop_ended ?o" "out_takes ?o = None" "lo_scope ?o = sc" "lo_limits ?o = lim" "room [] ?o"
    by (simp_all add: prepare_loop_def room_def)
  have q: "map observe (sub_queue (fold publish_event evs subscription_channel)) = deliveries 1 evs"
    using published_queue [of subscription_channel evs] assms(1) by (simp add: subscription_channel_def)
  have ow: "ow = loop_run_step w SubscriptionClosed o1"
    unfolding assms(2) q by (simp add: loop_run_def o1_def)
  show ?thesis
  proof (cases "loop_ended o1")
    case True
    with failed_exhausted [OF _ o(3,2,6), of evs w] o assms(1) have "loop_exhausted w lim sc evs"
      by (simp add: loop_exhausted_def o1_def)
    with drained_or_failed [OF assms] show ?thesis by auto
  next
    case False
    with ow loop_finish_end [OF False, of Drained] show ?thesis by (auto simp: loop_run_step_def)
  qed
qed

section \<open>What the interpreter publishes\<close>

text \<open>Every tool unit is published under the identity made from its action, for one interpretation.\<close>

definition named_tool :: "start_interpretation \<Rightarrow> canonical_unit_snapshot \<Rightarrow> bool" where
  "named_tool req s \<longleftrightarrow>
     snapshot_interpretation s = req_interpretation_id req \<and>
     (case snapshot_unit s of Tool t \<Rightarrow> unit_id s = ''tool-'' @ tool_action_id t | _ \<Rightarrow> True)"

definition tool_inv :: "start_interpretation \<Rightarrow> owner \<Rightarrow> bool" where
  "tool_inv req ow \<longleftrightarrow>
     own_request ow = req \<and>
     list_all (\<lambda>(aid, tool). ta_action_id tool = aid \<and> ta_unit_id tool = ''tool-'' @ aid) (own_tools ow) \<and>
     list_all (named_tool req) (snaps (sent (own_pub ow)))"

lemma tool_inv_publish:
  assumes "tool_inv req ow" and "named_tool req (event_snapshot ev)"
  shows "tool_inv req (snd (own_publish (Unit ev) ow))"
  using assms by (simp add: tool_inv_def publish_sent)

lemma tool_inv_cong:
  assumes "tool_inv req ow" and "own_request ow' = own_request ow" "own_tools ow' = own_tools ow" "own_pub ow' = own_pub ow"
  shows "tool_inv req ow'"
  using assms by (simp add: tool_inv_def)

lemma tool_inv_plain:
  assumes "tool_inv req ow" and "own_request ow' = own_request ow" "own_tools ow' = own_tools ow" "own_pub ow' = own_pub ow"
    and "own_request o2 = own_request ow" "\<And>t. u \<noteq> Tool t"
  shows "tool_inv req (snd (own_publish (Unit (Created (snapshot i g st l t s u o2))) ow'))"
proof (rule tool_inv_publish [OF tool_inv_cong [OF assms(1-4)]])
  show "named_tool req (event_snapshot (Created (snapshot i g st l t s u o2)))"
    using assms(1,5,6) by (simp add: named_tool_def tool_inv_def snapshot_def split: canonical_unit.split)
qed

lemma tool_inv_put:
  assumes "tool_inv req ow" and "ta_action_id tool = aid" "ta_unit_id tool = ''tool-'' @ aid"
  shows "tool_inv req (ow\<lparr>own_tools := assoc_put aid tool (own_tools ow)\<rparr>)"
    and "(\<And>s. event_snapshot (mk s) = s) \<Longrightarrow> tool_inv req (snd (own_publish (Unit (mk (tool_snapshot tool
      (ow\<lparr>own_tools := assoc_put aid tool (own_tools ow)\<rparr>)))) (ow\<lparr>own_tools := assoc_put aid tool (own_tools ow)\<rparr>)))"
proof -
  show put: "tool_inv req (ow\<lparr>own_tools := assoc_put aid tool (own_tools ow)\<rparr>)"
    using assms by (auto simp: tool_inv_def intro!: assoc_put_all)
  assume "\<And>s. event_snapshot (mk s) = s"
  then show "tool_inv req (snd (own_publish (Unit (mk (tool_snapshot tool
      (ow\<lparr>own_tools := assoc_put aid tool (own_tools ow)\<rparr>)))) (ow\<lparr>own_tools := assoc_put aid tool (own_tools ow)\<rparr>)))"
    using assms by (intro tool_inv_publish [OF put])
      (simp add: named_tool_def tool_snapshot_def snapshot_def tool_unit_def tool_inv_def)
qed

lemma tool_inv_known:
  assumes "tool_inv req ow" and "map_of (own_tools ow) aid = Some tool"
  shows "ta_action_id tool = aid" "ta_unit_id tool = ''tool-'' @ aid"
  using map_of_list_all [OF assms(2), of "\<lambda>(aid, tool). ta_action_id tool = aid \<and> ta_unit_id tool = ''tool-'' @ aid"] assms(1)
  by (simp_all add: tool_inv_def)

lemma noted_tool_names:
  assumes "tool_inv req ow"
  shows "ta_action_id (noted_tool aid t step ow) = aid" "ta_unit_id (noted_tool aid t step ow) = ''tool-'' @ aid"
  using tool_inv_known [OF assms, of aid]
  by (cases "map_of (own_tools ow) aid"; simp add: noted_tool_def tool_assembler_new_def note_step_def note_time_def Let_def)+

lemma apply_signal_action:
  "apply_signal bound n signal tool = (e, tool', k) \<Longrightarrow> ta_action_id tool' = ta_action_id tool"
  by (auto simp: apply_signal_def split: tool_signal.splits if_splits)

lemma tool_inv_on_tool:
  assumes "tool_inv req ow"
  shows "tool_inv req (snd (on_tool aid signal t step ow))"
proof (rule on_tool_cases)
  fix e tool k
  assume "apply_signal (max_bytes_per_tool_action (own_limits ow)) (map_of (own_tools ow) aid = None) signal
        (noted_tool aid t step ow) = (Some e, tool, k)"
  then show "tool_inv req (snd (Some e, ow\<lparr>own_tools := assoc_put aid tool (own_tools ow)\<rparr>))"
    using tool_inv_put(1) [OF assms, of tool aid] noted_tool_names [OF assms] apply_signal_action apply_signal_identity(1)
    by simp
next
  fix tool k
  assume "apply_signal (max_bytes_per_tool_action (own_limits ow)) (map_of (own_tools ow) aid = None) signal
        (noted_tool aid t step ow) = (None, tool, k)"
  then show "tool_inv req (snd (own_publish (Unit (tool_event k (tool_snapshot tool
      (ow\<lparr>own_tools := assoc_put aid tool (own_tools ow)\<rparr>)))) (ow\<lparr>own_tools := assoc_put aid tool (own_tools ow)\<rparr>)))"
    using tool_inv_put(2) [OF assms, of tool aid "tool_event k"] noted_tool_names [OF assms] apply_signal_action apply_signal_identity(1)
    by simp
qed (use assms in simp)

lemma tool_inv_quarantine:
  assumes "tool_inv req ow"
  shows "tool_inv req (snd (quarantine_tool i ow))"
proof (cases "map_of (own_tools ow) i")
  case (Some tool)
  then show ?thesis
    using assms tool_inv_put(2) [OF assms, of "mark_incomplete tool" i Incomplete] tool_inv_known [OF assms Some]
    by (simp add: quarantine_tool_def Let_def mark_incomplete_def)
qed (use assms in \<open>simp add: quarantine_tool_def\<close>)

interpretation tool: owner_invariant "\<lambda>ow. gen_inv ow \<and> tool_inv req ow" for req
proof (unfold_locales, goal_cases)
  case (1 ow c sm)
  then show ?case
    using gen.keeps_sentence
    by (auto simp: emit_sentence_def next_lane_ordinal_def Let_def split_beta intro!: tool_inv_plain)
next
  case (2 ow k)
  then show ?case using gen.keeps_boundary by (auto simp: emit_boundary_def Let_def intro!: tool_inv_plain)
next
  case (3 ow d msg)
  then show ?case using gen.keeps_diagnostic by (auto simp: emit_diagnostic_def Let_def intro!: tool_inv_plain)
next
  case (4 ow aid signal t step)
  then show ?case using gen.keeps_tool tool_inv_on_tool by blast
next
  case (5 ow aid)
  then show ?case using gen.keeps_quarantine_tool tool_inv_quarantine by blast
next
  case (6 ow c asm)
  then show ?case using gen.keeps_channel by (auto intro: tool_inv_cong)
next
  case (7 ow b)
  then show ?case using gen.keeps_frame by (auto intro: tool_inv_cong)
next
  case (8 ow st)
  then show ?case using gen.keeps_openai by (auto intro: tool_inv_cong)
next
  case (9 ow n)
  then show ?case using gen.keeps_source by (auto intro: tool_inv_cong)
next
  case (10 ow b)
  then show ?case using gen.keeps_started by (auto intro: tool_inv_cong)
next
  case (11 ow n ds)
  then show ?case using gen.keeps_notes by (auto intro: tool_inv_cong)
qed

lemma tool_inv_new: "tool_inv req (owner_new req takes)"
  by (simp add: tool_inv_def owner_new_def publisher_new_def snaps_def)

lemma action_key_inj: "action_key i a = action_key i b \<longleftrightarrow> a = b"
  by (simp add: action_key_def)

lemma snap_sightings:
  "sightings sc evs = concat (map (\<lambda>s. sighting sc (Unit (Created s))) (snaps evs))"
proof (induction evs)
  case (Cons ev evs)
  have "snaps (ev # evs) = event_snaps ev @ snaps evs" by (simp add: snaps_def)
  then show ?case using Cons by (cases ev) (simp_all add: sighting.simps(1) Let_def)
qed (simp add: snaps_def)

lemma sighting_of:
  assumes "named_tool req s" and "x \<in> set (sighting sc (Unit (Created s)))"
  obtains a b where "x = (action_key (req_interpretation_id req) a, unit_generation s, b)" "unit_id s = ''tool-'' @ a"
proof -
  from assms(2) obtain t b where "snapshot_unit s = Tool t"
      "x = (action_key (snapshot_interpretation s) (tool_action_id t), unit_generation s, b)"
    by (cases "snapshot_unit s"; cases "in_scope sc s") (auto simp: sighting.simps(1))
  with assms(1) show ?thesis using that by (simp add: named_tool_def)
qed

lemma sighting_single: "sorted_wrt later (sighting sc ev)"
  by (cases ev) (auto simp: sighting.simps(1) Let_def split: canonical_unit.split)

lemma sightings_sorted:
  assumes "sorted_wrt newer ss" and "list_all (named_tool req) ss"
  shows "sorted_wrt later (concat (map (\<lambda>s. sighting sc (Unit (Created s))) ss))"
  using assms
proof (induction ss)
  case (Cons s ss)
  have "later x y" if "x \<in> set (sighting sc (Unit (Created s)))" "s' \<in> set ss" "y \<in> set (sighting sc (Unit (Created s')))" for x y s'
  proof -
    from that Cons.prems have "named_tool req s" "named_tool req s'" "newer s s'" by (auto simp: list_all_iff)
    then show ?thesis
      using sighting_of [OF _ that(1), of req] sighting_of [OF _ that(3), of req]
      by (metis (no_types, lifting) later_def newer_def action_key_inj fst_conv snd_conv)
  qed
  with Cons sighting_single [of sc "Unit (Created s)"] show ?case
    by (auto simp: sorted_wrt_append)
qed simp

text \<open>
  C5. Interpreter, subscription and loop together: whatever bytes and commands an interpretation
  gets, when its events are published to a loop that reads them to the end, the loop answers
  exactly the tool requests that the interpretation released as ready in its scope, each of
  them once. It can fail instead only when one of its limits is really exceeded, by more sightings of
  tool events than its duplicate filter holds or by more actions than it may have, or when the
  registry refuses a call.
\<close>

theorem interpreted_requests_answered:
  assumes "evs = sent (own_pub (snd (run env cmds (owner_new req None))))" and "length evs < 2 ^ 64"
    and "ow = loop_run w (map observe (sub_queue (fold publish_event evs subscription_channel)) @ [SubscriptionClosed])
           (prepare_loop rid lid sc lim None)"
  shows "map_option le_kind (completion_end ow) = Some LoopInvariantFailed \<and> loop_exhausted w lim sc evs \<or>
         map_option le_kind (completion_end ow) = Some Drained \<and>
         distinct (map result_key (results_of (loop_out ow))) \<and>
         set (map result_key (results_of (loop_out ow))) = asked_keys sc evs"
proof -
  obtain k o1 where o1: "gen_inv o1 \<and> tool_inv req o1" and r: "run env cmds (owner_new req None) = finish k o1"
    using tool.run_finishes [of "owner_new req None" req] gen_inv_new tool_inv_new by blast
  have "snaps evs = snaps (sent (own_pub o1))"
    unfolding assms(1) r by (auto simp: finish_def Let_def publish_sent snaps_def)
  then have "sorted_wrt later (sightings sc evs)"
    unfolding snap_sightings using o1 by (auto simp: gen_inv_def tool_inv_def intro!: sightings_sorted)
  from answered_when_drained [OF assms(2) this assms(3)] failed_or_drained [OF assms(2,3)]
  show ?thesis by auto
qed

definition ready_codec :: json_codec where
  "ready_codec =
     \<lparr>from_slice = (\<lambda>_. Err []),
      from_str = (\<lambda>_. Some (JObject [(''choices'', JArray [JObject [(''delta'',
        JObject [(''tool_calls'', JArray [JObject [(''id'', JString ''t''),
          (''function'', JObject [(''name'', JString ''f''), (''arguments'', JString ''{}'')])]])]),
        (''finish_reason'', JString ''tool_calls'')]])])),
      to_json_string = (\<lambda>_. []), to_vec = (\<lambda>_. Some [])\<rparr>"

definition ready_run :: "interpreter_output_event list" where
  "ready_run = sent (own_pub (snd (run (plain_env ready_codec) [Bytes hello_event, FinishClean]
     (owner_new (small_request OpenAiChatCompletions) None))))"

lemma ready_run_asks:
  "sightings all_scope ready_run = [(''i:t'', 1, False), (''i:t'', 2, True), (''i:t'', 3, True)]" "length ready_run < 9"
  unfolding ready_run_def small_owner by code_simp+

lemma distinct_singleton: "distinct xs \<Longrightarrow> set xs = {a} \<Longrightarrow> xs = [a]"
  by (cases xs; cases "tl xs") auto

theorem interpreted_requests_answered_witness:
  "\<exists>ow. ow = loop_run plain_world (map observe (sub_queue (fold publish_event ready_run subscription_channel)) @ [SubscriptionClosed])
           (prepare_loop ''r'' ''l'' all_scope default_loop_limits None) \<and>
      map_option le_kind (completion_end ow) = Some Drained \<and> map result_key (results_of (loop_out ow)) = [''i:t'']"
proof -
  define ow where "ow = loop_run plain_world (map observe (sub_queue (fold publish_event ready_run subscription_channel)) @ [SubscriptionClosed])
      (prepare_loop ''r'' ''l'' all_scope default_loop_limits None)"
  have keys: "asked_keys all_scope ready_run = {''i:t''}" unfolding asked_keys_def ready_run_asks by auto
  have "\<not> isl (world_resolve plain_world n q)" for n q by (simp add: plain_world_def empty_registry_resolve_def)
  then have "\<not> loop_exhausted plain_world default_loop_limits all_scope ready_run"
    unfolding loop_exhausted_def ready_run_asks by (simp add: default_loop_limits_def)
  moreover have "length ready_run < 2 ^ 64" using ready_run_asks(2) by simp
  note interpreted_requests_answered [OF ready_run_def this ow_def]
  ultimately have a: "map_option le_kind (completion_end ow) = Some Drained" "distinct (map result_key (results_of (loop_out ow)))"
    "set (map result_key (results_of (loop_out ow))) = {''i:t''}"
    unfolding keys by blast+
  show ?thesis by (intro exI [of _ ow] conjI) (rule ow_def a(1) distinct_singleton [OF a(2,3)])+
qed

end
