(* ===== verification/Loop_Dispatch.thy ===== *)
theory Loop_Dispatch
  imports Exchange Dispatcher Event_Publisher Loop_Answers
begin

text \<open>
  The tool loop of one exchange: \<open>transaction/lifecycle/loop_dispatch.rs\<close> and the adapters of
  \<open>transaction/loop_adapters.rs\<close> that connect the loop to the dispatcher.

  The units of an exchange are fed to a loop of \<open>Loop_Runtime\<close>, whose registry is the resolved tool
  set and whose runtime starts tools through the dispatcher, and its output is read into a report
  and into lifecycle events. How waits end is a \<open>loop_pass\<close>. The derived encoding of a tool result
  as JSON is the parameter \<open>result_codec\<close>.
\<close>

section \<open>Adapters\<close>

record result_codec =
  encode_result :: "canonical_tool_result \<Rightarrow> string option"
  decode_result :: "string \<Rightarrow> canonical_tool_result option"

definition registry_resolve :: "resolved_tool_set \<Rightarrow> resolve_tool_request \<Rightarrow> (string, tool_resolution) result" where
  "registry_resolve tools r =
     (case validated_string (resolve_name r) of
        Inl _ \<Rightarrow> Ok (ResolvedUnavailable ToolNotFound)
      | Inr name \<Rightarrow>
          if map_of (res_by_name tools) name \<noteq> None then Ok (ToolAvailable (resolve_name r))
          else if res_by_id tools = [] then Ok (ResolvedUnavailable NoRegisteredTool)
          else Ok (ResolvedUnavailable ToolNotFound))"

definition map_outcome :: "result_codec \<Rightarrow> dispatch_outcome \<Rightarrow> tool_runtime_terminal" where
  "map_outcome codec out =
     (case out of
        DispatchCanonical r _ \<Rightarrow>
          \<lparr>terminal_outcome_of = (case result_outcome r of ResultSucceeded _ \<Rightarrow> OutboundSuccess | ResultDomainFailed _ \<Rightarrow> ExecutionFailed),
           terminal_payload = (case encode_result codec r of Some s \<Rightarrow> s | None \<Rightarrow> ''{\"error\":\"encode\"}'')\<rparr>
      | DispatchRejected _ code message _ \<Rightarrow> \<lparr>terminal_outcome_of = OutboundRejected, terminal_payload = code @ '':'' @ message\<rparr>
      | DispatchRuntimeFailed _ _ code _ \<Rightarrow> \<lparr>terminal_outcome_of = ExecutionFailed, terminal_payload = code\<rparr>)"

text \<open>The number of a request is its generation in 32 bits.\<close>

definition host_request :: "string \<Rightarrow> nat \<Rightarrow> start_tool_execution \<Rightarrow> dispatch_request" where
  "host_request exchange deadline r =
     \<lparr>req_exchange = exchange, req_action = start_action r, req_tool_name = start_name r,
      req_provider_id = unwrap_or (start_action r) (provider_tool_call_id_from_action exchange (start_action r)),
      req_ordinal = start_generation r mod 2 ^ 32, req_arguments = start_payload r, req_deadline = deadline\<rparr>"

text \<open>
  Whether the supervisor takes the worker, and what its dispatch comes to; a worker that is
  aborted drops its completion.
\<close>

record worker_world =
  worker_spawn :: spawn_send
  worker_outcome :: "dispatch_request \<Rightarrow> dispatch_outcome option"

definition host_tool_start ::
  "result_codec \<Rightarrow> string \<Rightarrow> nat \<Rightarrow> worker_world \<Rightarrow> start_tool_execution \<Rightarrow> (string, tool_execution_handle) result" where
  "host_tool_start codec exchange deadline w r =
     (case validated_string (start_name r) of
        Inl _ \<Rightarrow> Err ''invalid tool name''
      | Inr _ \<Rightarrow>
          (case try_spawn_owned (worker_spawn w) of
             SpawnAccepted \<Rightarrow>
               (case worker_outcome w (host_request exchange deadline r) of
                  Some out \<Rightarrow> Ok (CompletesWith (map_outcome codec out))
                | None \<Rightarrow> Ok CompletionDropped)
           | _ \<Rightarrow> Err ''tool worker spawn capacity exceeded''))"

definition host_world ::
  "result_codec \<Rightarrow> resolved_tool_set \<Rightarrow> string \<Rightarrow> nat \<Rightarrow> (nat \<Rightarrow> worker_world) \<Rightarrow> (nat \<Rightarrow> string) \<Rightarrow> loop_world" where
  "host_world codec tools exchange deadline workers uuid =
     \<lparr>world_resolve = (\<lambda>_. registry_resolve tools),
      world_start_tool = (\<lambda>n. host_tool_start codec exchange deadline (workers n)), world_uuid = uuid\<rparr>"

definition no_tool_world :: "(nat \<Rightarrow> string) \<Rightarrow> loop_world" where
  "no_tool_world uuid =
     \<lparr>world_resolve = (\<lambda>_. empty_registry_resolve), world_start_tool = (\<lambda>_. no_tool_runtime_start), world_uuid = uuid\<rparr>"

text \<open>A dispatch without a loop. Its deadline is a year from now, which the caller's clock gives.\<close>

definition dispatch_ready_tool_cancellable ::
  "json_codec \<Rightarrow> schema_checker \<Rightarrow> tool_dispatcher \<Rightarrow> string \<Rightarrow> string \<Rightarrow> string \<Rightarrow> string \<Rightarrow> nat \<Rightarrow> string \<Rightarrow> nat
    \<Rightarrow> dispatch_world \<Rightarrow> dispatch_state \<Rightarrow> dispatch_outcome \<times> dispatch_state" where
  "dispatch_ready_tool_cancellable codec chk d exchange action name provider ordinal arguments now w st =
     (case validated_string name of
        Inl _ \<Rightarrow> (DispatchRejected action ''invalid_tool_name'' ''tool name failed identity validation'' [], st)
      | Inr name \<Rightarrow>
          dispatch_with_cancel codec chk d
            \<lparr>req_exchange = exchange, req_action = action, req_tool_name = name, req_provider_id = provider, req_ordinal = ordinal,
             req_arguments = arguments, req_deadline = now + 365 * 24 * 3600 * 1000\<rparr> w st)"

section \<open>Units of an exchange\<close>

definition ready_tool :: "tool_action_event \<Rightarrow> bool" where
  "ready_tool t \<longleftrightarrow> event_request_state t = ReqReady \<and> event_tool_name t \<noteq> None \<and> event_request_payload t \<noteq> None"

definition unit_asks :: "canonical_unit_event \<Rightarrow> bool" where
  "unit_asks u = (case snapshot_unit (event_snapshot u) of Tool t \<Rightarrow> ready_tool t | _ \<Rightarrow> False)"

definition needs_loop_dispatch :: "canonical_unit_event list \<Rightarrow> bool" where
  "needs_loop_dispatch units = list_ex unit_asks units"

definition scope_tool_action :: "string \<Rightarrow> tool_action_event \<Rightarrow> tool_action_event" where
  "scope_tool_action exchange t =
     (if provider_tool_call_id_from_action exchange (tool_action_id t) = None
      then t\<lparr>tool_action_id := tool_action_id_for_exchange exchange (tool_action_id t)\<rparr> else t)"

definition scope_snapshot :: "string \<Rightarrow> canonical_unit_snapshot \<Rightarrow> canonical_unit_snapshot" where
  "scope_snapshot exchange s =
     (case snapshot_unit s of Tool t \<Rightarrow> s\<lparr>snapshot_unit := Tool (scope_tool_action exchange t)\<rparr> | _ \<Rightarrow> s)"

fun scope_one_tool_unit :: "string \<Rightarrow> canonical_unit_event \<Rightarrow> canonical_unit_event" where
  "scope_one_tool_unit exchange (Created s) = Created (scope_snapshot exchange s)"
| "scope_one_tool_unit exchange (Advanced s) = Advanced (scope_snapshot exchange s)"
| "scope_one_tool_unit exchange (Completed s) = Completed (scope_snapshot exchange s)"
| "scope_one_tool_unit exchange (Incomplete s) = Incomplete (scope_snapshot exchange s)"

definition scope_tool_units_for_exchange :: "string \<Rightarrow> canonical_unit_event list \<Rightarrow> canonical_unit_event list" where
  "scope_tool_units_for_exchange exchange units = map (scope_one_tool_unit exchange) units"

definition provider_id_for_result :: "string \<Rightarrow> string \<Rightarrow> string" where
  "provider_id_for_result exchange action = unwrap_or action (provider_tool_call_id_from_action exchange action)"

section \<open>Results\<close>

record loop_dispatch_report =
  rep_unavailable :: nat
  rep_outbound :: nat
  rep_completed :: nat
  tool_results :: "canonical_tool_result list"

definition empty_report :: loop_dispatch_report where
  "empty_report = \<lparr>rep_unavailable = 0, rep_outbound = 0, rep_completed = 0, tool_results = []\<rparr>"

text \<open>The counters have 32 bits and saturate.\<close>

definition count_up :: "nat \<Rightarrow> nat" where
  "count_up n = min (n + 1) (2 ^ 32 - 1)"

datatype loop_dispatch_error =
    DispatchCancelled | DispatchDeadline | DispatchPublishFailed | DispatchStartFailed | DispatchLoopFailed

text \<open>The identities that all results of a pass share.\<close>

record pass_ids =
  pass_transaction :: string
  pass_channel :: string
  pass_session :: "string option"
  pass_exchange :: string

text \<open>The first characters of a text: a character begins at every byte that continues none.\<close>

fun take_chars :: "nat \<Rightarrow> string \<Rightarrow> string" where
  "take_chars n [] = []"
| "take_chars n (c # cs) =
     (if cont c then c # take_chars n cs else case n of 0 \<Rightarrow> [] | Suc m \<Rightarrow> c # take_chars m cs)"

definition static_error :: "string \<Rightarrow> string \<Rightarrow> canonical_tool_error" where
  "static_error code message = \<lparr>tool_error_code = code, tool_error_message = message, tool_error_data = None\<rparr>"

definition execution_error :: "string \<Rightarrow> canonical_tool_error" where
  "execution_error payload =
     (case tool_error_try_new ''tool_execution_failed'' (take_chars 128 payload) None 256 of
        Inr e \<Rightarrow> e
      | Inl _ \<Rightarrow> static_error ''tool_execution_failed'' ''failed'')"

definition loop_result ::
  "pass_ids \<Rightarrow> outbound_tool_result \<Rightarrow> nat \<Rightarrow> string \<Rightarrow> canonical_tool_result_outcome \<Rightarrow> canonical_tool_result" where
  "loop_result ids r ordinal tool out =
     \<lparr>result_transaction = pass_transaction ids,
      result_session = session_key_for (pass_channel ids) (pass_session ids) (pass_transaction ids),
      result_exchange = pass_exchange ids, result_action = out_action r, result_tool = tool,
      result_provider_id = provider_id_for_result (pass_exchange ids) (out_action r), result_ordinal = ordinal,
      result_outcome = out\<rparr>"

text \<open>A result that came back encoded keeps what the tool said; its identities are those of the pass.\<close>

definition adopt_result :: "pass_ids \<Rightarrow> outbound_tool_result \<Rightarrow> nat \<Rightarrow> canonical_tool_result \<Rightarrow> canonical_tool_result" where
  "adopt_result ids r ordinal d =
     (loop_result ids r ordinal (result_tool d) (result_outcome d))
       \<lparr>result_provider_id := (if result_provider_id d = [] then provider_id_for_result (pass_exchange ids) (out_action r)
                               else result_provider_id d)\<rparr>"

definition is_success :: "canonical_tool_result_outcome \<Rightarrow> bool" where
  "is_success out = (case out of ResultSucceeded _ \<Rightarrow> True | ResultDomainFailed _ \<Rightarrow> False)"

text \<open>The result of one outbound result, and whether it counts as a completed tool.\<close>

definition convert_result ::
  "json_codec \<Rightarrow> result_codec \<Rightarrow> pass_ids \<Rightarrow> nat \<Rightarrow> outbound_tool_result \<Rightarrow> canonical_tool_result \<times> bool" where
  "convert_result json codec ids ordinal r =
     (case out_outcome r of
        OutboundUnavailable \<Rightarrow>
          (loop_result ids r ordinal ''unavailable'' (ResultDomainFailed (static_error ''tool_unavailable'' ''no_registered_tool'')), False)
      | out \<Rightarrow>
          if out = OutboundSuccess \<or> out = ExecutionFailed
          then (case decode_result codec (out_payload r) of
                  Some d \<Rightarrow> (adopt_result ids r ordinal d, is_success (result_outcome d))
                | None \<Rightarrow>
                    if out = OutboundSuccess
                    then (loop_result ids r ordinal ''completed''
                            (ResultSucceeded (case from_str json (out_payload r) of
                                                Some v \<Rightarrow> JsonOutput v
                                              | None \<Rightarrow> TextOutput (out_payload r))), True)
                    else (loop_result ids r ordinal ''failed'' (ResultDomainFailed (execution_error (out_payload r))), False))
          else (loop_result ids r ordinal ''failed'' (ResultDomainFailed (execution_error (out_payload r))), False))"

definition add_result :: "json_codec \<Rightarrow> result_codec \<Rightarrow> pass_ids \<Rightarrow> outbound_tool_result \<Rightarrow> loop_dispatch_report \<Rightarrow> loop_dispatch_report" where
  "add_result json codec ids r rep =
     (case convert_result json codec ids (length (tool_results rep) mod 2 ^ 32) r of
        (result, completed) \<Rightarrow>
          rep\<lparr>rep_outbound := count_up (rep_outbound rep), rep_completed := (if completed then count_up (rep_completed rep) else rep_completed rep),
              tool_results := tool_results rep @ [result]\<rparr>)"

section \<open>Reading the output\<close>

datatype read_wait = ReadCancelled | ReadDeadline | ReadPublishes | ReadPublishCancelled | ReadPublishRefused

text \<open>
  The waits for the next event and, where it is a result, for its publication: the n-th of them
  ends as \<open>waits n\<close>. The commands sent to the publisher come with the result.
\<close>

fun read_outputs ::
  "json_codec \<Rightarrow> result_codec \<Rightarrow> pass_ids \<Rightarrow> (nat \<Rightarrow> read_wait) \<Rightarrow> nat \<Rightarrow> loop_output_event list \<Rightarrow> loop_dispatch_report
    \<Rightarrow> (loop_dispatch_error, loop_dispatch_report) result \<times> event_publisher_command list" where
  "read_outputs json codec ids waits n [] rep =
     (case waits n of
        ReadCancelled \<Rightarrow> (Err DispatchCancelled, [])
      | ReadDeadline \<Rightarrow> (Err DispatchDeadline, [])
      | _ \<Rightarrow> (Ok rep, []))"
| "read_outputs json codec ids waits n (ev # evs) rep =
     (case waits n of
        ReadCancelled \<Rightarrow> (Err DispatchCancelled, [])
      | ReadDeadline \<Rightarrow> (Err DispatchDeadline, [])
      | wait \<Rightarrow>
          (case ev of
             ToolUnavailableEvent _ _ \<Rightarrow>
               read_outputs json codec ids waits (n + 1) evs (rep\<lparr>rep_unavailable := count_up (rep_unavailable rep)\<rparr>)
           | OutboundResult r \<Rightarrow>
               (let rep = add_result json codec ids r rep;
                    cmd = PublishCommand (ToolLifecycle (ToolCompleted (last (tool_results rep))))
                in case wait of
                     ReadPublishes \<Rightarrow>
                       (case read_outputs json codec ids waits (n + 1) evs rep of (res, cmds) \<Rightarrow> (res, cmd # cmds))
                   | ReadPublishCancelled \<Rightarrow> (Err DispatchCancelled, [])
                   | _ \<Rightarrow> (Err DispatchPublishFailed, []))
           | LoopEnded _ \<Rightarrow> (Ok rep, [])
           | _ \<Rightarrow> read_outputs json codec ids waits (n + 1) evs rep))"

section \<open>The supervised loop\<close>

datatype feed_end = FeedPublished | FeedCancelled | FeedDeadline | FeedRefused

definition feed_one :: "feed_end \<Rightarrow> loop_dispatch_error option" where
  "feed_one f =
     (case f of FeedPublished \<Rightarrow> None | FeedCancelled \<Rightarrow> Some DispatchCancelled | FeedDeadline \<Rightarrow> Some DispatchDeadline
      | FeedRefused \<Rightarrow> Some DispatchPublishFailed)"

fun feed_loop :: "(nat \<Rightarrow> feed_end) \<Rightarrow> nat \<Rightarrow> canonical_unit_event list \<Rightarrow> loop_dispatch_error option" where
  "feed_loop ends n [] = None"
| "feed_loop ends n (u # us) = (case feed_one (ends n) of None \<Rightarrow> feed_loop ends (n + 1) us | Some e \<Rightarrow> Some e)"

text \<open>Without a place in the queue of the supervisor the loop is driven here: what became of the feed, and of the cancellation.\<close>

definition drive_busy_loop :: "loop_dispatch_error option option \<Rightarrow> bool \<Rightarrow> loop_dispatch_error option" where
  "drive_busy_loop fed cancelled =
     (if cancelled then Some DispatchCancelled
      else case fed of Some r \<Rightarrow> r | None \<Rightarrow> Some DispatchCancelled)"

record loop_pass =
  lp_world :: loop_world
  lp_spawn :: "(bool \<times> spawn_send \<times> bool) list"
  lp_reject_cancelled :: bool
  lp_feed :: "nat \<Rightarrow> feed_end"
  lp_feed_finished :: bool
  lp_busy_cancelled :: bool
  lp_expired :: bool
  lp_cancelled :: bool
  lp_aborted :: "nat option"
  lp_reads :: "nat \<Rightarrow> read_wait"
  lp_end_cancelled :: bool

definition run_scope :: "string \<Rightarrow> loop_scope" where
  "run_scope tx =
     \<lparr>scope_run = ''tx-'' @ tx, scope_loop = ''loop-'' @ tx, accepted_interpretation_ids = [], accepted_connection_ids = [],
      accepted_external_session_ids = [], accept_all_in_run = True\<rparr>"

text \<open>The loop on the fed units, up to where its task is aborted, when it is.\<close>

definition fed_loop :: "string \<Rightarrow> loop_pass \<Rightarrow> canonical_unit_event list \<Rightarrow> loop_owner" where
  "fed_loop tx lp units =
     (let obs = map observe (sub_queue (fold publish_event (map Unit units) subscription_channel)) @ [SubscriptionClosed]
      in loop_run (lp_world lp) (case lp_aborted lp of Some n \<Rightarrow> take n obs | None \<Rightarrow> obs)
           (prepare_loop (''tx-'' @ tx) (''loop-'' @ tx) (run_scope tx) default_loop_limits None))"

definition await_loop_end :: "bool \<Rightarrow> loop_owner \<Rightarrow> (loop_dispatch_error, loop_end_kind) result" where
  "await_loop_end cancelled ow =
     (if cancelled then Err DispatchCancelled
      else Ok (case completion_end ow of Some e \<Rightarrow> le_kind e | None \<Rightarrow> LoopInvariantFailed))"

definition end_report :: "bool \<Rightarrow> loop_owner \<Rightarrow> loop_dispatch_report \<Rightarrow> (loop_dispatch_error, loop_dispatch_report) result" where
  "end_report cancelled ow rep =
     (case await_loop_end cancelled ow of
        Inl e \<Rightarrow> Err e
      | Inr kind \<Rightarrow>
          (case kind of Drained \<Rightarrow> Ok rep | LoopCancelled \<Rightarrow> Err DispatchCancelled | _ \<Rightarrow> Err DispatchLoopFailed))"

definition start_and_feed :: "loop_pass \<Rightarrow> canonical_unit_event list \<Rightarrow> loop_dispatch_error option" where
  "start_and_feed lp units =
     (case spawn_with_busy_retry 8 (lp_spawn lp) of
        SpawnAccepted \<Rightarrow> feed_loop (lp_feed lp) 0 units
      | SpawnBusy \<Rightarrow>
          drive_busy_loop (if lp_feed_finished lp then Some (feed_loop (lp_feed lp) 0 units) else None) (lp_busy_cancelled lp)
      | SpawnRejected \<Rightarrow> Some (if lp_reject_cancelled lp then DispatchCancelled else DispatchStartFailed)
      | SpawnOrphaned \<Rightarrow> Some DispatchStartFailed)"

definition run_supervised_loop ::
  "json_codec \<Rightarrow> result_codec \<Rightarrow> pass_ids \<Rightarrow> loop_pass \<Rightarrow> canonical_unit_event list
    \<Rightarrow> (loop_dispatch_error, loop_dispatch_report) result \<times> event_publisher_command list" where
  "run_supervised_loop json codec ids lp units =
     (let units = scope_tool_units_for_exchange (pass_exchange ids) units
      in case start_and_feed lp units of
           Some e \<Rightarrow> (Err e, [])
         | None \<Rightarrow>
             if lp_expired lp then (Err DispatchDeadline, [])
             else if lp_cancelled lp then (Err DispatchCancelled, [])
             else
               (let ow = fed_loop (pass_transaction ids) lp units
                in case read_outputs json codec ids (lp_reads lp) 0 (loop_out ow) empty_report of
                     (Inl e, cmds) \<Rightarrow> (Err e, cmds)
                   | (Inr rep, cmds) \<Rightarrow> (end_report (lp_end_cancelled lp) ow rep, cmds)))"

definition run_supervised_empty_loop ::
  "json_codec \<Rightarrow> result_codec \<Rightarrow> pass_ids \<Rightarrow> (nat \<Rightarrow> string) \<Rightarrow> loop_pass \<Rightarrow> canonical_unit_event list
    \<Rightarrow> (loop_dispatch_error, loop_dispatch_report) result \<times> event_publisher_command list" where
  "run_supervised_empty_loop json codec ids uuid lp units =
     run_supervised_loop json codec ids (lp\<lparr>lp_world := no_tool_world uuid\<rparr>) units"

definition run_supervised_tool_loop ::
  "json_codec \<Rightarrow> result_codec \<Rightarrow> pass_ids \<Rightarrow> resolved_tool_set \<Rightarrow> nat \<Rightarrow> (nat \<Rightarrow> worker_world) \<Rightarrow> (nat \<Rightarrow> string) \<Rightarrow> loop_pass
    \<Rightarrow> canonical_unit_event list \<Rightarrow> (loop_dispatch_error, loop_dispatch_report) result \<times> event_publisher_command list" where
  "run_supervised_tool_loop json codec ids tools deadline workers uuid lp units =
     run_supervised_loop json codec ids
       (lp\<lparr>lp_world := host_world codec tools (pass_exchange ids) deadline workers uuid\<rparr>) units"

section \<open>Results come from dispatches\<close>

text \<open>
  What a result of the loop rests on: the registry, or one of the executions \<open>qs\<close> that the loop
  started, the n-th start being answered by the n-th answer of the world; and what a started
  execution rests on: a delivered unit that is a ready tool request.
\<close>

definition rests_on :: "loop_world \<Rightarrow> start_tool_execution list \<Rightarrow> string \<Rightarrow> outbound_tool_outcome \<Rightarrow> string \<Rightarrow> bool" where
  "rests_on w qs action out payload \<longleftrightarrow>
     out = OutboundUnavailable \<or>
     (\<exists>n < length qs. start_action (qs ! n) = action \<and>
        (case world_start_tool w n (qs ! n) of
           Inl e \<Rightarrow> out = ExecutionFailed \<and> payload = e
         | Inr h \<Rightarrow> out = terminal_outcome_of (await_completion h) \<and> payload = terminal_payload (await_completion h)))"

definition requested_in :: "canonical_unit_snapshot set \<Rightarrow> start_tool_execution \<Rightarrow> bool" where
  "requested_in U q \<longleftrightarrow>
     (\<exists>s t. s \<in> U \<and> snapshot_unit s = Tool t \<and> event_request_state t = ReqReady \<and> tool_action_id t = start_action q \<and>
        event_tool_name t = Some (start_name q) \<and> event_request_payload t = Some (start_payload q) \<and>
        unit_generation s = start_generation q)"

definition real_result :: "loop_world \<Rightarrow> start_tool_execution list \<Rightarrow> canonical_unit_snapshot set \<Rightarrow> outbound_tool_result \<Rightarrow> bool" where
  "real_result w qs U r \<longleftrightarrow>
     source_interpretation_id r \<in> snapshot_interpretation ` U \<and> rests_on w qs (out_action r) (out_outcome r) (out_payload r)"

definition all_real :: "loop_world \<Rightarrow> canonical_unit_snapshot set \<Rightarrow> loop_owner \<Rightarrow> bool" where
  "all_real w U ow \<longleftrightarrow>
     list_all (real_result w (runtime_starts ow) U) (results_of (loop_out ow)) \<and> list_all (requested_in U) (runtime_starts ow)"

lemma rests_on_more: "rests_on w qs a out p \<Longrightarrow> rests_on w (qs @ rs) a out p"
proof (cases "out = OutboundUnavailable")
  case False
  assume "rests_on w qs a out p"
  with False obtain n where "n < length qs" "start_action (qs ! n) = a"
    "case world_start_tool w n (qs ! n) of
       Inl e \<Rightarrow> out = ExecutionFailed \<and> p = e
     | Inr h \<Rightarrow> out = terminal_outcome_of (await_completion h) \<and> p = terminal_payload (await_completion h)"
    unfolding rests_on_def by blast
  then show ?thesis unfolding rests_on_def by (intro disjI2 exI [of _ n]) (simp add: nth_append)
qed (simp add: rests_on_def)

lemma all_real_emit:
  "all_real w U ow \<Longrightarrow> list_all (real_result w (runtime_starts ow) U) (results_of [e]) \<Longrightarrow> all_real w U (snd (loop_emit e ow))"
  by (simp add: all_real_def loop_emit_def)

lemma all_real_fields [simp]:
  "all_real w U (put_action key r ow) = all_real w U ow"
  "all_real w U (loop_diag m ow) = all_real w U ow"
  "all_real w U (ow\<lparr>duplicates := n\<rparr>) = all_real w U ow"
  "all_real w U (ow\<lparr>dedup := ds\<rparr>) = all_real w U ow"
  "all_real w U (ow\<lparr>tools_unavailable := n\<rparr>) = all_real w U ow"
  "all_real w U (ow\<lparr>outbound_results := n\<rparr>) = all_real w U ow"
  "all_real w U (ow\<lparr>uuid_draws := n\<rparr>) = all_real w U ow"
  "all_real w U (ow\<lparr>resolve_calls := n\<rparr>) = all_real w U ow"
  "all_real w U (ow\<lparr>loop_ended := b\<rparr>) = all_real w U ow"
  "all_real w U (ow\<lparr>completion_end := c\<rparr>) = all_real w U ow"
  "all_real w U (ow\<lparr>last_seq := n, delivery_events := m'\<rparr>) = all_real w U ow"
  by (simp_all add: all_real_def put_action_def loop_diag_def)

lemma all_real_start:
  "all_real w U ow \<Longrightarrow> requested_in U q \<Longrightarrow> all_real w U (ow\<lparr>uuid_draws := n, runtime_starts := runtime_starts ow @ [q]\<rparr>)"
  by (auto simp: all_real_def list_all_iff real_result_def intro: rests_on_more)

lemma all_real_send:
  "all_real w U ow \<Longrightarrow> snap \<in> U \<Longrightarrow> rests_on w (runtime_starts ow) a out p \<Longrightarrow> all_real w U (snd (send_result w snap a g x out p ow))"
  unfolding send_result_def by (intro all_real_emit) (simp_all add: real_result_def)

lemma all_real_execute:
  assumes "all_real w U ow" and "snap \<in> U" and "\<And>e. requested_in U
      \<lparr>start_execution = e, start_action = a, start_name = n, start_payload = p, start_generation = g\<rparr>"
  shows "all_real w U (snd (execute_tool w snap a g n p ow))"
proof -
  let ?q = "\<lparr>start_execution = world_uuid w (uuid_draws ow), start_action = a, start_name = n, start_payload = p, start_generation = g\<rparr>"
  let ?n = "length (runtime_starts ow)"
  have ow: "all_real w U (ow\<lparr>uuid_draws := uuid_draws ow + 1, runtime_starts := runtime_starts ow @ [?q]\<rparr>)"
    by (rule all_real_start [OF assms(1,3)])
  have diag: "runtime_starts (loop_diag m o1) = runtime_starts o1" for m o1 by (simp add: loop_diag_def)
  show ?thesis
  proof (cases "world_start_tool w ?n ?q")
    case (Inl e)
    then have "rests_on w (runtime_starts ow @ [?q]) a ExecutionFailed e"
      unfolding rests_on_def by (intro disjI2 exI [of _ ?n]) simp
    with Inl ow assms(2) show ?thesis
      unfolding execute_tool_def Let_def
      by (auto simp: diag intro!: all_real_send and_then_preserves [where P = "all_real w U"])
  next
    case (Inr h)
    then have "rests_on w (runtime_starts ow @ [?q]) a (terminal_outcome_of (await_completion h)) (terminal_payload (await_completion h))"
      unfolding rests_on_def by (intro disjI2 exI [of _ ?n]) simp
    with Inr ow assms(2) show ?thesis unfolding execute_tool_def Let_def by (auto intro!: all_real_send)
  qed
qed

lemma all_real_dispatch:
  assumes "all_real w U ow" and "snap \<in> U" and "\<And>e. requested_in U
      \<lparr>start_execution = e, start_action = a, start_name = n, start_payload = p, start_generation = g\<rparr>"
  shows "all_real w U (snd (dispatch_action w snap key a g n p ow))"
  using assms unfolding dispatch_action_def Let_def
  by (intro and_then_preserves [where P = "all_real w U"])
    (auto simp: report_unavailable_def Let_def rests_on_def split: sum.split tool_resolution.split
      intro!: all_real_emit all_real_send all_real_execute and_then_preserves [where P = "all_real w U"])

lemma requested_inI:
  assumes "s \<in> U" and "snapshot_unit s = Tool t" and "event_request_state t = ReqReady"
    and "event_tool_name t = Some n" and "event_request_payload t = Some p"
  shows "requested_in U \<lparr>start_execution = e, start_action = tool_action_id t, start_name = n, start_payload = p,
    start_generation = unit_generation s\<rparr>"
  unfolding requested_in_def using assms by (intro exI [of _ s] exI [of _ t]) simp

lemma all_real_on_unit:
  assumes "all_real w U ow" and "event_snapshot ev \<in> U"
  shows "all_real w U (snd (loop_on_unit w ev ow))"
proof -
  have "all_real w U (snd (on_request_ready w key (event_snapshot ev) t o1))"
    if "snapshot_unit (event_snapshot ev) = Tool t" "event_request_state t = ReqReady" "all_real w U o1" for key t o1
    using that assms(2) unfolding on_request_ready_def Let_def
    by (auto intro!: all_real_dispatch requested_inI split: option.split)
  with assms show ?thesis
    by (simp add: loop_on_unit_def Let_def track_waiting_def track_incomplete_def
        split: canonical_unit.split tool_request_state.split option.split)
qed

fun delivers_from :: "canonical_unit_snapshot set \<Rightarrow> loop_observation \<Rightarrow> bool" where
  "delivers_from U (SeesDelivery d) = (case delivered d of Unit ev \<Rightarrow> event_snapshot ev \<in> U | Ended _ \<Rightarrow> True)"
| "delivers_from U _ = True"

lemma all_real_step:
  assumes "all_real w U ow" and "delivers_from U ob"
  shows "all_real w U (loop_run_step w ob ow)"
proof -
  have fin: "all_real w U o1 \<Longrightarrow> all_real w U (loop_finish k o1)" for k o1
    by (simp add: loop_finish_def Let_def all_real_emit)
  have "ob = SeesDelivery d \<Longrightarrow> all_real w U (snd (on_delivered w d ow))" for d
    using assms all_real_on_unit by (simp add: on_delivered_def Let_def split: interpreter_output_event.splits)
  then have "ob = SeesDelivery d \<Longrightarrow> on_delivered w d ow = (eo, ow') \<Longrightarrow> all_real w U ow'" for d eo ow' by (metis snd_conv)
  with assms show ?thesis
    by (auto simp: loop_run_step_def intro!: fin split: loop_observation.split subscription_status.split prod.split option.split)
qed

lemma all_real_run:
  assumes "list_all (delivers_from U) obs"
  shows "all_real w U (loop_run w obs (prepare_loop rid lid sc lim takes))"
  unfolding loop_run_def
proof (rule fold_invariant [where Q = "delivers_from U" and P = "all_real w U"])
  show "\<And>ob. ob \<in> set obs \<Longrightarrow> delivers_from U ob" using assms by (simp add: list_all_iff)
  show "all_real w U (prepare_loop rid lid sc lim takes)" by (simp add: prepare_loop_def all_real_def)
qed (rule all_real_step)

lemma published_from:
  assumes "event_snapshot ` set units \<subseteq> U"
  shows "list_all (delivers_from U) (map observe (sub_queue (fold publish_event (map Unit units) subscription_channel)))"
proof -
  have "list_all (\<lambda>d. delivers_from U (observe d)) (sub_queue (fold publish_event (map Unit us) ch))"
    if "list_all (\<lambda>d. delivers_from U (observe d)) (sub_queue ch)" "event_snapshot ` set us \<subseteq> U" for us ch
    using that
  proof (induction us arbitrary: ch)
    case (Cons u us)
    then have "list_all (\<lambda>d. delivers_from U (observe d)) (sub_queue (publish_event (Unit u) ch))"
      by (simp add: publish_event_def take_sequence_def send_delivered_def observe_def)
    with Cons show ?case by simp
  qed simp
  from this [of subscription_channel units] assms show ?thesis
    by (simp add: list_all_iff subscription_channel_def)
qed

lemma fed_loop_real:
  "all_real (lp_world lp) (event_snapshot ` set units) (fed_loop tx lp units)"
proof -
  have "list_all (delivers_from (event_snapshot ` set units)) (take n (map observe
      (sub_queue (fold publish_event (map Unit units) subscription_channel)) @ [SubscriptionClosed]))" for n
    using published_from [of units, OF subset_refl]
    by (auto simp: list_all_iff take_map dest!: in_set_takeD)
  from this this [of "Suc (length (sub_queue (fold publish_event (map Unit units) subscription_channel)))"]
  show ?thesis unfolding fed_loop_def Let_def by (intro all_real_run) (auto split: option.split)
qed

section \<open>What is read\<close>

definition converted :: "json_codec \<Rightarrow> result_codec \<Rightarrow> pass_ids \<Rightarrow> outbound_tool_result list \<Rightarrow> nat \<Rightarrow> canonical_tool_result list" where
  "converted json codec ids rs n = map (\<lambda>(i, r). fst (convert_result json codec ids (i mod 2 ^ 32) r)) (enumerate n rs)"

definition completion_commands :: "canonical_tool_result list \<Rightarrow> event_publisher_command list" where
  "completion_commands rs = map (\<lambda>r. PublishCommand (ToolLifecycle (ToolCompleted r))) rs"

lemma add_result_results:
  "tool_results (add_result json codec ids r rep) =
     tool_results rep @ [fst (convert_result json codec ids (length (tool_results rep) mod 2 ^ 32) r)]"
  by (simp add: add_result_def split: prod.split)

text \<open>Reading to the end converts every result in order and publishes each of them.\<close>

lemma read_outputs_ok:
  "\<not> list_ex is_loop_end evs \<Longrightarrow> read_outputs json codec ids waits n (evs @ rest) rep = (Ok rep', cmds)
    \<Longrightarrow> rest = [] \<or> (\<exists>e rest'. rest = LoopEnded e # rest')
    \<Longrightarrow> tool_results rep' = tool_results rep @ converted json codec ids (results_of evs) (length (tool_results rep))
      \<and> cmds = completion_commands (converted json codec ids (results_of evs) (length (tool_results rep)))"
proof (induction evs arbitrary: n rep cmds)
  case Nil
  then show ?case by (auto simp: converted_def completion_commands_def split: read_wait.splits)
next
  case (Cons ev evs)
  show ?case
  proof (cases ev)
    case (OutboundResult r)
    let ?rep = "add_result json codec ids r rep"
    obtain cmds' where rd: "read_outputs json codec ids waits (n + 1) (evs @ rest) ?rep = (Ok rep', cmds')"
      and c: "cmds = PublishCommand (ToolLifecycle (ToolCompleted (last (tool_results ?rep)))) # cmds'"
      using Cons.prems(2) OutboundResult by (auto simp: Let_def split: read_wait.splits prod.splits)
    have "tool_results rep' = tool_results ?rep @ converted json codec ids (results_of evs) (length (tool_results ?rep))
      \<and> cmds' = completion_commands (converted json codec ids (results_of evs) (length (tool_results ?rep)))"
      using Cons.IH [OF _ rd] Cons.prems(1,3) OutboundResult by simp
    then show ?thesis using OutboundResult c by (simp add: add_result_results converted_def completion_commands_def)
  next
    case (ToolUnavailableEvent a r)
    with Cons.prems(2) have "read_outputs json codec ids waits (n + 1) (evs @ rest) (rep\<lparr>rep_unavailable := count_up (rep_unavailable rep)\<rparr>) = (Ok rep', cmds)"
      by (auto split: read_wait.splits)
    with Cons.IH [OF _ this] Cons.prems(1,3) ToolUnavailableEvent show ?thesis by simp
  qed (use Cons in \<open>auto split: read_wait.splits\<close>)
qed

lemma fed_loop_output:
  "\<exists>evs. \<not> list_ex is_loop_end evs \<and> results_of (loop_out (fed_loop tx lp units)) = results_of evs \<and>
     (\<exists>rest. loop_out (fed_loop tx lp units) = evs @ rest \<and> (rest = [] \<or> (\<exists>e. rest = [LoopEnded e])))"
proof -
  let ?ow = "fed_loop tx lp units"
  have inv: "owner_inv_loop None ?ow" unfolding fed_loop_def Let_def by (rule loop_run_inv)
  show ?thesis
  proof (cases "loop_ended ?ow")
    case True
    with inv obtain e ks bs part where s: "blocks_ok ks bs" "segment_ok ks part" "loop_out ?ow = concat bs @ part @ [LoopEnded e]"
      unfolding owner_inv_loop_def stopped_def by auto
    then show ?thesis
      using blocks_no_end [OF s(1)] part_results [OF s(2)] by (intro exI [of _ "concat bs @ part"]) auto
  next
    case False
    with inv obtain ks bs where s: "blocks_ok ks bs" "loop_out ?ow = concat bs" unfolding owner_inv_loop_def running_def by auto
    then show ?thesis using blocks_no_end [OF s(1)] by (intro exI [of _ "concat bs"]) auto
  qed
qed

lemma supervised_loop_ok:
  assumes "run_supervised_loop json codec ids lp units = (Ok rep, cmds)"
  shows "let ow = fed_loop (pass_transaction ids) lp (scope_tool_units_for_exchange (pass_exchange ids) units) in
    tool_results rep = converted json codec ids (results_of (loop_out ow)) 0
    \<and> cmds = completion_commands (tool_results rep)
    \<and> map_option le_kind (loop_owner.completion_end ow) = Some Drained"
proof -
  let ?ow = "fed_loop (pass_transaction ids) lp (scope_tool_units_for_exchange (pass_exchange ids) units)"
  have "\<exists>e. loop_owner.completion_end ?ow = Some e \<and> le_kind e = Drained"
    and rd: "read_outputs json codec ids (lp_reads lp) 0 (loop_out ?ow) empty_report = (Ok rep, cmds)"
    using assms unfolding run_supervised_loop_def Let_def
    by (auto simp: end_report_def await_loop_end_def split: option.splits if_splits prod.splits sum.splits loop_end_kind.splits)
  moreover obtain evs rest where "\<not> list_ex is_loop_end evs" "results_of (loop_out ?ow) = results_of evs"
    "loop_out ?ow = evs @ rest" "rest = [] \<or> (\<exists>e. rest = [LoopEnded e])"
    using fed_loop_output by metis
  ultimately show ?thesis
    using read_outputs_ok [of evs json codec ids "lp_reads lp" 0 rest empty_report rep cmds]
    by (auto simp: Let_def empty_report_def)
qed

text \<open>How a converted result relates to the result of the loop.\<close>

lemma converted_identities:
  "fst (convert_result json codec ids n r) = res \<Longrightarrow>
   result_transaction res = pass_transaction ids \<and> result_exchange res = pass_exchange ids \<and> result_action res = out_action r
     \<and> result_ordinal res = n \<and> result_session res = session_key_for (pass_channel ids) (pass_session ids) (pass_transaction ids)"
  by (auto simp: convert_result_def loop_result_def adopt_result_def split: outbound_tool_outcome.splits option.splits if_splits)

lemma converted_success:
  assumes "result_outcome (fst (convert_result json codec ids n r)) = ResultSucceeded out"
  shows "out_outcome r \<in> {OutboundSuccess, ExecutionFailed}
    \<and> (case decode_result codec (out_payload r) of
         Some d \<Rightarrow> result_outcome d = ResultSucceeded out \<and> result_tool (fst (convert_result json codec ids n r)) = result_tool d
       | None \<Rightarrow> out_outcome r = OutboundSuccess)"
  using assms
  by (auto simp: convert_result_def loop_result_def adopt_result_def split: outbound_tool_outcome.splits option.splits if_splits)

lemma converted_actions: "map result_action (converted json codec ids rs n) = map out_action rs"
proof (induction rs arbitrary: n)
  case (Cons r rs)
  have "result_action (fst (convert_result json codec ids m r)) = out_action r" for m using converted_identities [OF refl] by simp
  with Cons show ?case by (simp add: converted_def)
qed (simp add: converted_def)

section \<open>Successes are real\<close>

text \<open>
  A worker of the pass runs a dispatch, in its own world and from the state that it finds, unless
  it is aborted before it reports.
\<close>

definition dispatch_worker ::
  "json_codec \<Rightarrow> schema_checker \<Rightarrow> tool_dispatcher \<Rightarrow> spawn_send \<Rightarrow> (dispatch_world \<times> dispatch_state) option \<Rightarrow> worker_world" where
  "dispatch_worker json chk d spawn work =
     \<lparr>worker_spawn = spawn,
      worker_outcome = (\<lambda>q. map_option (\<lambda>(w, st). fst (dispatch_with_cancel json chk d q w st)) work)\<rparr>"

text \<open>
  A structure is only read from a JSON object or array, so from a text that begins with a brace
  or a bracket, perhaps after white space. Nothing is assumed of what the encoding keeps.
\<close>

definition json_opening :: "string \<Rightarrow> bool" where
  "json_opening s \<longleftrightarrow> s \<noteq> [] \<and> hd s \<in> {CHR ''{'', CHR ''['', CHR '' '', CHR 0x09, CHR 0x0A, CHR 0x0D}"

definition decodes_structures :: "result_codec \<Rightarrow> bool" where
  "decodes_structures codec \<longleftrightarrow> (\<forall>s d. decode_result codec s = Some d \<longrightarrow> json_opening s)"

text \<open>What the loop carries of a canonical result, and what of it is reported.\<close>

definition carried :: "result_codec \<Rightarrow> canonical_tool_result \<Rightarrow> string" where
  "carried codec c = unwrap_or ''{\"error\":\"encode\"}'' (encode_result codec c)"

definition reports :: "json_codec \<Rightarrow> result_codec \<Rightarrow> canonical_tool_result \<Rightarrow> canonical_tool_result \<Rightarrow> bool" where
  "reports json codec c res \<longleftrightarrow>
     (case decode_result codec (carried codec c) of
        Some d \<Rightarrow> result_outcome res = result_outcome d \<and> result_tool res = result_tool d
      | None \<Rightarrow>
          is_success (result_outcome c) \<and>
          result_outcome res = ResultSucceeded (case from_str json (carried codec c) of
                                                  Some v \<Rightarrow> JsonOutput v | None \<Rightarrow> TextOutput (carried codec c)))"

lemma runtime_codes_closed:
  assumes "fst (dispatch_with_cancel json chk d q w st) = DispatchRuntimeFailed a t code l"
  shows "\<not> json_opening code"
proof -
  have "\<not> json_opening (runtime_error_code e)" for e by (cases e) (simp_all add: runtime_error_code_def json_opening_def)
  moreover have "report_completion json chk d q spec lc c = DispatchRuntimeFailed a t code l
      \<Longrightarrow> code = ''output_contract_violated'' \<or> (\<exists>e. code = runtime_error_code e)" for spec lc c
    by (auto simp: report_completion_def Let_def split: sum.splits tool_completion.splits)
  moreover have "fst (after_start json chk d q spec lc w k dr g st') = DispatchRuntimeFailed a t code l
      \<Longrightarrow> code = ''missing_kill_handle'' \<or> (\<exists>lc c. report_completion json chk d q spec lc c = DispatchRuntimeFailed a t code l)"
    for spec lc k dr g st'
    by (fastforce simp: after_start_def Let_def split: if_splits prod.splits)
  ultimately have after: "fst (after_start json chk d q spec lc w k dr g st') = DispatchRuntimeFailed a t code l \<Longrightarrow> \<not> json_opening code"
    for spec lc k dr g st' by (fastforce simp: json_opening_def)
  have "fst (dispatch_acquired json chk d q tool v w st') = DispatchRuntimeFailed a t code l \<Longrightarrow> \<not> json_opening code" for tool v st'
    using after by (auto simp: dispatch_acquired_def Let_def json_opening_def split: if_splits tool_start.splits tool_start_error.splits)
  with assms show ?thesis
    by (auto simp: dispatch_with_cancel_def reject_input_def split: option.splits prod.splits sum.splits bool.splits input_validation_failure.splits)
qed

lemma loop_success_is_dispatch:
  assumes "decodes_structures codec"
    and "rests_on (host_world codec tools exchange deadline (\<lambda>n. dispatch_worker json chk d (spawns n) (runs n)) uuid) qs
      (out_action r) (out_outcome r) (out_payload r)"
    and "is_success (result_outcome (fst (convert_result json codec ids i r)))"
  shows "\<exists>n < length qs. \<exists>w st c l. start_action (qs ! n) = out_action r \<and> runs n = Some (w, st)
    \<and> fst (dispatch_with_cancel json chk d (host_request exchange deadline (qs ! n)) w st) = DispatchCanonical c l
    \<and> reports json codec c (fst (convert_result json codec ids i r))"
proof -
  obtain out where "result_outcome (fst (convert_result json codec ids i r)) = ResultSucceeded out"
    using assms(3) by (auto simp: is_success_def split: canonical_tool_result_outcome.splits)
  note s = converted_success [OF this]
  have closed: "decode_result codec t = None" if "\<not> json_opening t" for t
    using assms(1) that by (auto simp: decodes_structures_def)
  from s assms(2) obtain n where n: "n < length qs" "start_action (qs ! n) = out_action r"
    "case host_tool_start codec exchange deadline (dispatch_worker json chk d (spawns n) (runs n)) (qs ! n) of
       Inl e \<Rightarrow> out_outcome r = ExecutionFailed \<and> out_payload r = e
     | Inr h \<Rightarrow> out_outcome r = terminal_outcome_of (await_completion h) \<and> out_payload r = terminal_payload (await_completion h)"
    by (auto simp: rests_on_def host_world_def)
  have "\<not> json_opening ''invalid tool name''" "\<not> json_opening ''tool worker spawn capacity exceeded''"
    by (simp_all add: json_opening_def)
  with n(3) s closed obtain w st where o1: "runs n = Some (w, st)"
    "out_outcome r = terminal_outcome_of (map_outcome codec (fst (dispatch_with_cancel json chk d (host_request exchange deadline (qs ! n)) w st)))"
    "out_payload r = terminal_payload (map_outcome codec (fst (dispatch_with_cancel json chk d (host_request exchange deadline (qs ! n)) w st)))"
    by (auto simp: host_tool_start_def dispatch_worker_def await_completion_def split: sum.splits spawn_answer.splits option.splits)
  show ?thesis
  proof (cases "fst (dispatch_with_cancel json chk d (host_request exchange deadline (qs ! n)) w st)")
    case (DispatchCanonical c l)
    with o1(2,3) have "out_payload r = carried codec c"
      "out_outcome r = (if is_success (result_outcome c) then OutboundSuccess else ExecutionFailed)"
      by (auto simp: map_outcome_def carried_def is_success_def split: option.split canonical_tool_result_outcome.split)
    then have "reports json codec c (fst (convert_result json codec ids i r))"
      using s by (auto simp: reports_def convert_result_def adopt_result_def loop_result_def split: option.splits if_splits)
    with DispatchCanonical n(1,2) o1(1) show ?thesis by blast
  next
    case (DispatchRuntimeFailed a t code l)
    then have "decode_result codec code = None" using runtime_codes_closed closed by metis
    with s o1(2,3) DispatchRuntimeFailed show ?thesis by (simp add: map_outcome_def)
  qed (use s o1(2) in \<open>simp add: map_outcome_def\<close>)
qed

text \<open>The executions that the loop of a pass starts, in the order of the starts.\<close>

definition pass_starts ::
  "result_codec \<Rightarrow> pass_ids \<Rightarrow> resolved_tool_set \<Rightarrow> nat \<Rightarrow> (nat \<Rightarrow> worker_world) \<Rightarrow> (nat \<Rightarrow> string) \<Rightarrow> loop_pass
    \<Rightarrow> canonical_unit_event list \<Rightarrow> start_tool_execution list" where
  "pass_starts codec ids tools deadline workers uuid lp units =
     runtime_starts (fed_loop (pass_transaction ids)
       (lp\<lparr>lp_world := host_world codec tools (pass_exchange ids) deadline workers uuid\<rparr>)
       (scope_tool_units_for_exchange (pass_exchange ids) units))"

text \<open>
  C16. No tool result is made up. Whatever becomes of the loop, its workers and its waits, the report
  of a pass has the results of the loop in order, numbered from zero under the identities of the
  pass, and exactly these are published. A result that says success belongs to one of the
  executions that the loop of this pass started, which was started for a ready request among the units
  with the action, name and arguments of that unit; the worker of that start ran the dispatch of
  just this request and it gave a canonical result, and what is reported is that result as the
  codec carried it.
\<close>

theorem reported_successes_real:
  assumes "run_supervised_tool_loop json codec ids tools deadline workers uuid lp units = (Ok rep, cmds)"
    and "workers = (\<lambda>n. dispatch_worker json chk d (spawns n) (runs n))" and "decodes_structures codec"
    and "qs = pass_starts codec ids tools deadline workers uuid lp units"
  shows "cmds = map (\<lambda>r. PublishCommand (ToolLifecycle (ToolCompleted r))) (tool_results rep)
    \<and> (\<forall>i < length (tool_results rep). result_ordinal (tool_results rep ! i) = i mod 2 ^ 32)
    \<and> list_all (requested_in (event_snapshot ` set (scope_tool_units_for_exchange (pass_exchange ids) units))) qs
    \<and> (\<forall>res \<in> set (tool_results rep).
         result_transaction res = pass_transaction ids \<and> result_exchange res = pass_exchange ids \<and>
         (is_success (result_outcome res) \<longrightarrow>
            (\<exists>n < length qs. \<exists>w st c l. start_action (qs ! n) = result_action res \<and> runs n = Some (w, st)
               \<and> fst (dispatch_with_cancel json chk d (host_request (pass_exchange ids) deadline (qs ! n)) w st) = DispatchCanonical c l
               \<and> reports json codec c res)))"
proof -
  let ?w = "host_world codec tools (pass_exchange ids) deadline workers uuid"
  let ?us = "scope_tool_units_for_exchange (pass_exchange ids) units"
  define ow where "ow = fed_loop (pass_transaction ids) (lp\<lparr>lp_world := ?w\<rparr>) ?us"
  define rs where "rs = results_of (loop_out ow)"
  have ok: "tool_results rep = converted json codec ids rs 0" "cmds = completion_commands (tool_results rep)"
    using supervised_loop_ok [OF assms(1) [unfolded run_supervised_tool_loop_def]] by (simp_all add: Let_def rs_def ow_def)
  have real: "list_all (real_result ?w (runtime_starts ow) (event_snapshot ` set ?us)) rs"
    "list_all (requested_in (event_snapshot ` set ?us)) (runtime_starts ow)"
    and qs: "qs = runtime_starts ow"
    using assms(4) fed_loop_real [of "lp\<lparr>lp_world := ?w\<rparr>" ?us "pass_transaction ids"] by (simp_all add: all_real_def rs_def ow_def pass_starts_def)
  have nth: "tool_results rep ! i = fst (convert_result json codec ids (i mod 2 ^ 32) (rs ! i))" if "i < length (tool_results rep)" for i
    using that by (simp add: ok(1) converted_def nth_enumerate_eq)
  have len: "length (tool_results rep) = length rs" by (simp add: ok(1) converted_def)
  have each: "result_transaction res = pass_transaction ids \<and> result_exchange res = pass_exchange ids \<and>
      (is_success (result_outcome res) \<longrightarrow>
         (\<exists>n < length qs. \<exists>w st c l. start_action (qs ! n) = result_action res \<and> runs n = Some (w, st)
            \<and> fst (dispatch_with_cancel json chk d (host_request (pass_exchange ids) deadline (qs ! n)) w st) = DispatchCanonical c l
            \<and> reports json codec c res))"
    if member: "res \<in> set (tool_results rep)" for res
  proof -
    obtain i where i: "i < length rs" "res = fst (convert_result json codec ids (i mod 2 ^ 32) (rs ! i))"
      using member nth len by (metis in_set_conv_nth)
    with real(1) have r: "rests_on ?w qs (out_action (rs ! i)) (out_outcome (rs ! i)) (out_payload (rs ! i))"
      by (simp add: list_all_length real_result_def qs)
    from converted_identities [OF i(2) [symmetric]] loop_success_is_dispatch [OF assms(3) r [unfolded assms(2)]] i(2) show ?thesis by metis
  qed
  have "\<forall>i < length (tool_results rep). result_ordinal (tool_results rep ! i) = i mod 2 ^ 32"
    using nth converted_identities by metis
  with each real(2) ok(2) show ?thesis unfolding completion_commands_def qs by blast
qed

section \<open>Every request of an exchange is answered\<close>

text \<open>A loop that drained has seen all units, whenever its task was aborted.\<close>

lemma drained_sees_all:
  assumes "map_option le_kind (loop_owner.completion_end (fed_loop tx lp units)) = Some Drained" and "length units < 2 ^ 64"
  shows "fed_loop tx lp units =
    loop_run (lp_world lp) (map observe (sub_queue (fold publish_event (map Unit units) subscription_channel)) @ [SubscriptionClosed])
      (prepare_loop (''tx-'' @ tx) (''loop-'' @ tx) (run_scope tx) default_loop_limits None)"
proof (cases "lp_aborted lp")
  case (Some n)
  let ?o = "prepare_loop (''tx-'' @ tx) (''loop-'' @ tx) (run_scope tx) default_loop_limits None"
  let ?evs = "map Unit units"
  have q: "map observe (sub_queue (fold publish_event ?evs subscription_channel)) = deliveries 1 ?evs"
    using published_queue [of subscription_channel ?evs] assms(2) by (simp add: subscription_channel_def)
  have len: "length (deliveries k evs) = length evs" "take m (deliveries k evs) = deliveries k (take m evs)" for k m evs
    by (induction evs arbitrary: k m) (auto simp: take_Cons')
  show ?thesis
  proof (cases "n \<le> length units")
    case True
    with Some q have f: "fed_loop tx lp units = loop_run (lp_world lp) (deliveries 1 (take n ?evs)) ?o"
      by (simp add: fed_loop_def Let_def len)
    have o: "last_seq ?o = 0" "\<not> loop_ended ?o" "out_takes ?o = None" by (simp_all add: prepare_loop_def)
    have "length (take n ?evs) < 2 ^ 64" using assms(2) by (simp add: min_def)
    with deliveries_in_order [of ?o "take n ?evs" "lp_world lp"] o
    have "lost_invariant (fed_loop tx lp units) \<or> \<not> loop_ended (fed_loop tx lp units)" unfolding f by auto
    moreover have "owner_inv_loop None (fed_loop tx lp units)" unfolding f by (rule loop_run_inv)
    ultimately show ?thesis using assms(1) by (auto simp: lost_invariant_def owner_inv_loop_def running_def)
  next
    case False
    then show ?thesis using Some q by (simp add: fed_loop_def Let_def len)
  qed
qed (simp add: fed_loop_def Let_def)

text \<open>
  The units of an exchange are scoped when they are collected and once more when they are fed to
  the loop; both times every action gets a new id by \<open>scoped_id\<close>.
\<close>

definition scoped_id :: "string \<Rightarrow> string \<Rightarrow> string" where
  "scoped_id x a = (if provider_tool_call_id_from_action x a = None then tool_action_id_for_exchange x a else a)"

fun with_action_id :: "(string \<Rightarrow> string) \<Rightarrow> canonical_unit \<Rightarrow> canonical_unit" where
  "with_action_id f (Tool t) = Tool (t\<lparr>tool_action_id := f (tool_action_id t)\<rparr>)"
| "with_action_id f u = u"

definition renamed :: "(string \<Rightarrow> string) \<Rightarrow> canonical_unit_snapshot \<Rightarrow> canonical_unit_snapshot" where
  "renamed f s = s\<lparr>snapshot_unit := with_action_id f (snapshot_unit s)\<rparr>"

definition tool_ids :: "canonical_unit_event list \<Rightarrow> string set" where
  "tool_ids units = {tool_action_id t | u t. u \<in> set units \<and> snapshot_unit (event_snapshot u) = Tool t}"

definition requested_actions :: "canonical_unit_event list \<Rightarrow> string set" where
  "requested_actions units = {tool_action_id t | u t. u \<in> set units \<and> snapshot_unit (event_snapshot u) = Tool t \<and> ready_tool t}"

lemma requested_simps [simp]:
  "tool_ids [] = {}" "requested_actions [] = {}"
  "tool_ids (u # us) = (case snapshot_unit (event_snapshot u) of Tool t \<Rightarrow> {tool_action_id t} | _ \<Rightarrow> {}) \<union> tool_ids us"
  "requested_actions (u # us) =
     (case snapshot_unit (event_snapshot u) of Tool t \<Rightarrow> if ready_tool t then {tool_action_id t} else {} | _ \<Rightarrow> {})
     \<union> requested_actions us"
  by (auto simp: tool_ids_def requested_actions_def split: canonical_unit.split)

lemma scope_event_snapshot: "event_snapshot (scope_one_tool_unit x u) = scope_snapshot x (event_snapshot u)"
  by (cases u) simp_all

lemma scope_snapshot_renamed: "scope_snapshot x = renamed (scoped_id x)"
proof
  fix s
  show "scope_snapshot x s = renamed (scoped_id x) s"
    by (cases "snapshot_unit s") (simp_all add: scope_snapshot_def renamed_def scope_tool_action_def scoped_id_def)
qed

lemma renamed_twice: "renamed f (renamed g s) = renamed (f \<circ> g) s"
  by (cases "snapshot_unit s") (simp_all add: renamed_def)

lemma renamed_fields [simp]:
  "unit_id (renamed f s) = unit_id s" "unit_generation (renamed f s) = unit_generation s"
  "snapshot_interpretation (renamed f s) = snapshot_interpretation s"
  by (simp_all add: renamed_def)

lemma scoped_snapshots:
  "map event_snapshot (scope_tool_units_for_exchange x units) = map (renamed (scoped_id x)) (map event_snapshot units)"
  by (simp add: scope_tool_units_for_exchange_def scope_event_snapshot scope_snapshot_renamed comp_def)

lemma renamed_sighting:
  "sighting (run_scope tx) (Unit (Created (renamed f s))) =
    (case snapshot_unit s of
       Tool t \<Rightarrow> [(action_key (snapshot_interpretation s) (f (tool_action_id t)), unit_generation s, ready_tool t)]
     | _ \<Rightarrow> [])"
  by (cases "snapshot_unit s")
    (auto simp: sighting.simps(1) run_scope_def in_scope_def renamed_def ready_tool_def)

lemma renamed_sightings_sorted:
  assumes "sorted_wrt newer (map event_snapshot us)" and "list_all (named_tool req) (map event_snapshot us)"
    and "inj_on f (tool_ids us)"
  shows "sorted_wrt later (concat (map (\<lambda>u. sighting (run_scope tx) (Unit (Created (renamed f (event_snapshot u))))) us))"
  using assms
proof (induction us)
  case (Cons u us)
  let ?g = "\<lambda>u. sighting (run_scope tx) (Unit (Created (renamed f (event_snapshot u))))"
  have "later a b" if "a \<in> set (?g u)" "v \<in> set us" "b \<in> set (?g v)" for a b v
  proof -
    from that Cons.prems have n: "named_tool req (event_snapshot u)" "named_tool req (event_snapshot v)"
      "newer (event_snapshot u) (event_snapshot v)"
      by (auto simp: list_all_iff)
    note ab = that
    obtain t t' where t: "snapshot_unit (event_snapshot u) = Tool t" and t': "snapshot_unit (event_snapshot v) = Tool t'"
      using ab(1,3)
      by (cases "snapshot_unit (event_snapshot u)"; cases "snapshot_unit (event_snapshot v)") (simp_all add: renamed_sighting)
    have "tool_action_id t \<in> tool_ids (u # us)" "tool_action_id t' \<in> tool_ids (u # us)"
      using t t' that(2) unfolding tool_ids_def by auto
    with Cons.prems(3) have "f (tool_action_id t) = f (tool_action_id t') \<longleftrightarrow> tool_action_id t = tool_action_id t'"
      by (rule inj_on_eq_iff)
    with that(1,3) n t t' show ?thesis
      by (auto simp: renamed_sighting later_def newer_def named_tool_def action_key_inj)
  qed
  moreover have "inj_on f (tool_ids us)" by (rule inj_on_subset [OF Cons.prems(3)]) (auto simp: tool_ids_def)
  ultimately show ?case
    using Cons sighting_single [of "run_scope tx" "Unit (Created (renamed f (event_snapshot u)))"]
    by (auto simp: sorted_wrt_append)
qed simp

text \<open>The units of an interpretation, or an initial part of them, as the loop of an exchange sees them.\<close>

lemma interpreted_snapshots:
  assumes "prefix units (units_in (sent (own_pub (snd (run env cmds (owner_new req takes))))))"
  shows "sorted_wrt newer (map event_snapshot units) \<and> list_all (named_tool req) (map event_snapshot units)"
proof -
  obtain k o1 where o1: "gen_inv o1" "tool_inv req o1" and r: "run env cmds (owner_new req takes) = finish k o1"
    using tool.run_finishes [of "owner_new req takes" req] gen_inv_new tool_inv_new by blast
  have "prefix (map event_snapshot (units_in evs)) (snaps evs)" for evs
    by (induction evs rule: units_in.induct) (simp_all add: snaps_def)
  moreover have "snaps (sent (own_pub (snd (finish k o1)))) = snaps (sent (own_pub o1))"
    by (auto simp: finish_def Let_def publish_sent snaps_def)
  ultimately have "prefix (map event_snapshot units) (snaps (sent (own_pub o1)))"
    using assms unfolding r by (metis map_mono_prefix prefix_order.trans)
  then obtain zs where "snaps (sent (own_pub o1)) = map event_snapshot units @ zs" by (auto simp: prefix_def)
  with o1 show ?thesis by (auto simp: gen_inv_def tool_inv_def sorted_wrt_append)
qed

lemma renamed_requests_answered:
  assumes "run_supervised_loop json codec ids lp units = (Ok rep, cmds)"
    and "map event_snapshot (scope_tool_units_for_exchange (pass_exchange ids) units) = map (renamed f) (map event_snapshot raw)"
    and "prefix raw (units_in (sent (own_pub (snd (run env inputs (owner_new req takes))))))"
    and "length raw < 2 ^ 64" and "inj_on f (tool_ids raw)"
  shows "distinct (map result_action (tool_results rep))
    \<and> set (map result_action (tool_results rep)) = f ` requested_actions raw"
proof -
  let ?tx = "pass_transaction ids" and ?i = "req_interpretation_id req"
  let ?us = "scope_tool_units_for_exchange (pass_exchange ids) units"
  define ow where "ow = fed_loop ?tx lp ?us"
  have ok: "tool_results rep = converted json codec ids (results_of (loop_out ow)) 0"
    and drained: "map_option le_kind (loop_owner.completion_end ow) = Some Drained"
    using supervised_loop_ok [OF assms(1)] by (simp_all add: Let_def ow_def)
  have len: "length (map Unit ?us) < 2 ^ 64" using arg_cong [OF assms(2), of length] assms(4) by simp
  have full: "ow = loop_run (lp_world lp) (map observe (sub_queue (fold publish_event (map Unit ?us) subscription_channel)) @ [SubscriptionClosed])
      (prepare_loop (''tx-'' @ ?tx) (''loop-'' @ ?tx) (run_scope ?tx) default_loop_limits None)"
    unfolding ow_def using drained_sees_all drained len unfolding ow_def by simp
  note snaps = interpreted_snapshots [OF assms(3)]
  have interp: "snapshot_interpretation (event_snapshot u) = ?i" if "u \<in> set raw" for u
    using snaps that by (simp add: list_all_iff named_tool_def)
  have seen: "sightings (run_scope ?tx) (map Unit ?us)
      = concat (map (\<lambda>u. sighting (run_scope ?tx) (Unit (Created (renamed f (event_snapshot u))))) raw)"
    unfolding snap_sightings using assms(2) by (simp add: snaps_def comp_def)
  then have asked: "asked_keys (run_scope ?tx) (map Unit ?us) = action_key ?i ` f ` requested_actions raw"
    unfolding asked_keys_def requested_actions_def
    by (auto simp: renamed_sighting interp split: canonical_unit.splits) (force simp: interp split: canonical_unit.splits)+
  have results: "distinct (map result_key (results_of (loop_out ow)))"
    "set (map result_key (results_of (loop_out ow))) = asked_keys (run_scope ?tx) (map Unit ?us)"
    using answered_when_drained [OF len _ full drained] renamed_sightings_sorted [OF _ _ assms(5), of req ?tx] snaps
    unfolding seen by auto
  have "snapshot_interpretation ` event_snapshot ` set ?us \<subseteq> {?i}"
    using arg_cong [OF assms(2), of set] interp by (auto simp: image_iff)
  then have "\<forall>r \<in> set (results_of (loop_out ow)). source_interpretation_id r = ?i"
    using fed_loop_real [of lp ?us ?tx] by (fastforce simp: ow_def all_real_def list_all_iff real_result_def)
  then have keys: "map result_key (results_of (loop_out ow)) = map (action_key ?i) (map out_action (results_of (loop_out ow)))"
    by (simp add: result_key_def)
  have "inj (action_key ?i)" by (simp add: inj_def action_key_inj)
  then have "distinct (map out_action (results_of (loop_out ow)))
      \<and> set (map out_action (results_of (loop_out ow))) = f ` requested_actions raw"
    using results unfolding keys asked set_map by (metis distinct_map inj_image_eq_iff set_map)
  moreover have "map result_action (tool_results rep) = map out_action (results_of (loop_out ow))"
    unfolding ok by (rule converted_actions)
  ultimately show ?thesis by simp
qed

lemma starts_colon: "starts_with (x @ CHR '':'' # a) (x @ '':'')"
  by (induction x) simp_all

lemma scoped_id_fresh: "\<not> starts_with a (x @ '':'') \<Longrightarrow> scoped_id x a = x @ '':'' @ a"
  by (simp add: scoped_id_def provider_tool_call_id_from_action_def strip_prefix_def tool_action_id_for_exchange_def)

lemma scoped_id_again: "scoped_id x (x @ '':'' @ a) = (if a = [] then x @ '':'' @ x @ '':'' else x @ '':'' @ a)"
  by (simp add: scoped_id_def provider_tool_call_id_from_action_def strip_prefix_def tool_action_id_for_exchange_def starts_colon)

lemma scoped_twice_inj: "inj_on (scoped_id x \<circ> scoped_id x) {a. \<not> starts_with a (x @ '':'')}"
proof (rule inj_onI)
  fix a b
  assume ab: "a \<in> {a. \<not> starts_with a (x @ '':'')}" "b \<in> {a. \<not> starts_with a (x @ '':'')}"
    "(scoped_id x \<circ> scoped_id x) a = (scoped_id x \<circ> scoped_id x) b"
  then have "scoped_id x (x @ '':'' @ a) = scoped_id x (x @ '':'' @ b)" by (simp add: scoped_id_fresh)
  with ab(1,2) starts_colon [of x "[]"] show "a = b" unfolding scoped_id_again by (auto split: if_splits)
qed

lemma scoped_requests: "requested_actions (scope_tool_units_for_exchange x raw) = scoped_id x ` requested_actions raw"
  by (force simp: requested_actions_def scope_tool_units_for_exchange_def scope_event_snapshot scope_snapshot_renamed
      renamed_def ready_tool_def elim!: with_action_id.elims split: canonical_unit.splits)

text \<open>
  C13. Every tool request of an exchange is answered exactly once. Take the units of an
  interpretation, or an initial part of them, scoped to the exchange as the coordinator passes
  them to a pass. When the pass reports success, whatever became of its tools, its results are about
  exactly the actions that are requested as ready there, each of them once, and under the very
  ids these units carry, but for a request with an empty provider id, whose scoped id is scoped
  once more. That no raw id of the provider begins with the random id of the exchange is assumed.
\<close>

theorem exchange_requests_answered:
  assumes "run_supervised_loop json codec ids lp (scope_tool_units_for_exchange (pass_exchange ids) raw) = (Ok rep, cmds)"
    and "prefix raw (units_in (sent (own_pub (snd (run env inputs (owner_new req takes))))))"
    and "length raw < 2 ^ 64" and "\<forall>a \<in> tool_ids raw. \<not> starts_with a (pass_exchange ids @ '':'')"
  shows "distinct (map result_action (tool_results rep))
    \<and> set (map result_action (tool_results rep))
      = (\<lambda>a. if a = pass_exchange ids @ '':'' then a @ a else a)
          ` requested_actions (scope_tool_units_for_exchange (pass_exchange ids) raw)"
proof -
  let ?x = "pass_exchange ids"
  have "inj_on (scoped_id ?x \<circ> scoped_id ?x) (tool_ids raw)"
    by (rule inj_on_subset [OF scoped_twice_inj]) (use assms(4) in auto)
  then have "distinct (map result_action (tool_results rep))
      \<and> set (map result_action (tool_results rep)) = (scoped_id ?x \<circ> scoped_id ?x) ` requested_actions raw"
    by (intro renamed_requests_answered [OF assms(1) _ assms(2,3)])
      (simp_all add: scoped_snapshots renamed_twice comp_def [of "renamed _"])
  moreover have "scoped_id ?x (scoped_id ?x a) = (\<lambda>a. if a = ?x @ '':'' then a @ a else a) (scoped_id ?x a)"
    if "a \<in> requested_actions raw" for a
  proof -
    have "a \<in> tool_ids raw" using that by (auto simp: requested_actions_def tool_ids_def)
    with assms(4) show ?thesis using scoped_id_fresh scoped_id_again [of ?x a] by auto
  qed
  then have "(scoped_id ?x \<circ> scoped_id ?x) ` requested_actions raw
      = (\<lambda>a. if a = ?x @ '':'' then a @ a else a) ` scoped_id ?x ` requested_actions raw"
    unfolding image_comp comp_def by (rule image_cong [OF refl])
  ultimately show ?thesis unfolding scoped_requests by simp
qed

section \<open>Witnesses\<close>

definition one_tool :: resolved_tool_set where
  "one_tool = from_registered
     [\<lparr>rt_spec = \<lparr>spec_id = ''a'', spec_name = ''f'', spec_description = [], input_schema = JObject [],
        output_contract = \<lparr>success_contract = TextSuccess ''text/plain'', error_data_schema = None\<rparr>,
        spec_limits = \<lparr>tool_max_concurrent = 1, tool_max_input_bytes = 9, tool_max_output_bytes = 9, execution_deadline = 9\<rparr>,
        execution_class = CooperativeInProcess 1\<rparr>,
      os_process_isolated = False, supports_isolated_kill = False, runtime_owns_abortable_drive = False, supports_abort = False\<rparr>]"

definition echo_dispatcher :: tool_dispatcher where
  "echo_dispatcher =
     \<lparr>disp_transaction = ''t'', disp_session = \<lparr>key_channel = ''c'', key_session = ''s''\<rparr>, disp_tools = one_tool,
      disp_max_payload = 9, disp_max_output = 9, disp_max_error_message = 9, disp_max_depth = 9\<rparr>"

definition echo_request :: dispatch_request where
  "echo_request =
     \<lparr>req_exchange = ''x'', req_action = ''x:t'', req_tool_name = ''f'', req_provider_id = ''t'', req_ordinal = 2,
      req_arguments = ''{}'', req_deadline = 9\<rparr>"

definition echo_world :: dispatch_world where
  "echo_world =
     \<lparr>world_meanwhile = [id], world_now = 0, world_start = (\<lambda>_ _. StartOk None False), world_unowned_completes = True,
      world_end = Finished (CompletionSucceeded (TextOutput ''ok'')), alive_at_release = False, alive_at_drop = False\<rparr>"

definition echo_state :: dispatch_state where
  "echo_state = \<lparr>ds_capacity = configure_tool (''a'', 1) (tool_capacity_new 1 0 1 1), orphan_permits = [], owned_children = []\<rparr>"

definition echo_result :: canonical_tool_result where
  "echo_result = make_result echo_dispatcher echo_request ''a'' (ResultSucceeded (TextOutput ''ok''))"

definition object_codec :: json_codec where
  "object_codec = \<lparr>from_slice = (\<lambda>_. Ok (JObject [])), from_str = (\<lambda>_. Some (JObject [])), to_json_string = (\<lambda>_. ''{}''), to_vec = (\<lambda>_. Some ''{}'')\<rparr>"

lemma echo_dispatch:
  "fst (dispatch_with_cancel object_codec any_schema echo_dispatcher echo_request echo_world echo_state)
   = DispatchCanonical echo_result
       [ToolStarted ''x:t'' ''a'' ''f'' ''t'' 2, ToolCompleted echo_result]"
  by code_simp

text \<open>
  The task of this dispatch aborted while the tool runs leaves nothing in use; aborted in front of
  a tool whose only place is taken, it leaves its place in the queue taken.
\<close>

lemma echo_dropped:
  "map_option (\<lambda>st. (txn_active (ds_capacity st), txn_queued (ds_capacity st)))
     (dispatch_dropped object_codec any_schema echo_dispatcher echo_request echo_world DropRunning echo_state) = Some (0, 0)"
  "map_option (\<lambda>st. (txn_active (ds_capacity st), txn_queued (ds_capacity st)))
     (dispatch_dropped object_codec any_schema echo_dispatcher echo_request echo_world (DropWaiting 1)
        (echo_state\<lparr>ds_capacity := snd (try_acquire ''a'' (snd (try_enqueue (ds_capacity echo_state))))\<rparr>)) = Some (1, 1)"
  by code_simp+

definition echo_codec :: result_codec where
  "echo_codec = \<lparr>encode_result = (\<lambda>_. Some ''{''), decode_result = (\<lambda>s. if s = ''{'' then Some echo_result else None)\<rparr>"

definition echo_worker :: "nat \<Rightarrow> worker_world" where
  "echo_worker n = dispatch_worker object_codec any_schema echo_dispatcher SpawnQueueTakes (Some (echo_world, echo_state))"

definition echo_ids :: pass_ids where
  "echo_ids = \<lparr>pass_transaction = ''t'', pass_channel = ''c'', pass_session = Some ''s'', pass_exchange = ''x''\<rparr>"

definition smooth_pass :: loop_pass where
  "smooth_pass =
     \<lparr>lp_world = no_tool_world nat_str, lp_spawn = [(False, SpawnQueueTakes, True)], lp_reject_cancelled = False,
      lp_feed = (\<lambda>_. FeedPublished), lp_feed_finished = True, lp_busy_cancelled = False, lp_expired = False, lp_cancelled = False,
      lp_aborted = None, lp_reads = (\<lambda>_. ReadPublishes), lp_end_cancelled = False\<rparr>"

text \<open>The units of an interpretation that releases one tool request.\<close>

definition tool_stage :: "string \<Rightarrow> nat \<Rightarrow> tool_request_state \<Rightarrow> string option \<Rightarrow> string \<Rightarrow> canonical_unit_snapshot" where
  "tool_stage a g st payload wait =
     \<lparr>unit_id = ''tool-t'', unit_generation = g, snapshot_state = UnitWaiting, snapshot_interpretation = ''i'', snapshot_connection = ''c'',
      snapshot_session = None, flow_id = ''main'', lane_id = ''tool'', lane_ordinal = 0, causal_parent_id = None, source_time = None,
      source_step = None,
      snapshot_unit = Tool \<lparr>tool_action_id = a, event_tool_name = Some ''f'', event_request_state = st,
        event_execution_state = ExecWaiting, event_result_state = ResAbsent, event_request_payload = payload,
        event_result_payload = None, terminal_outcome = None, event_waiting_for = Some wait\<rparr>\<rparr>"

definition asking_units :: "canonical_unit_event list" where
  "asking_units = [hd (units_in ready_run), Created (tool_stage ''t'' 1 ReqAssembling None ''tool arguments''),
     Advanced (tool_stage ''t'' 2 ReqReady (Some ''{}'') ''external execution'')]"

lemma asking_units_run: "take 3 (units_in ready_run) = asking_units" "snapshot_unit (event_snapshot (hd (units_in ready_run))) = Boundary ResponseStarted"
  unfolding ready_run_def asking_units_def small_owner by code_simp+

lemma echo_decodes: "decodes_structures echo_codec"
  by (auto simp: decodes_structures_def echo_codec_def json_opening_def split: if_splits)

lemma scope_stage: "scope_snapshot ''x'' (tool_stage ''t'' g st p wt) = tool_stage ''x:t'' g st p wt"
  by (simp add: scope_snapshot_def tool_stage_def scope_tool_action_def provider_tool_call_id_from_action_def strip_prefix_def
      tool_action_id_for_exchange_def)

lemma echo_scoped:
  obtains b where "scope_tool_units_for_exchange ''x'' asking_units =
      [b, Created (tool_stage ''x:t'' 1 ReqAssembling None ''tool arguments''),
       Advanced (tool_stage ''x:t'' 2 ReqReady (Some ''{}'') ''external execution'')]"
    "snapshot_unit (event_snapshot b) = Boundary ResponseStarted"
  using that [of "scope_one_tool_unit ''x'' (hd (units_in ready_run))"] asking_units_run(2)
  by (simp add: asking_units_def scope_tool_units_for_exchange_def scope_event_snapshot scope_stage) (simp add: scope_snapshot_def)

lemma echo_ids_x: "pass_exchange echo_ids = ''x''"
  by (simp add: echo_ids_def)

lemma asking_twice:
  "run_supervised_loop json codec echo_ids lp (scope_tool_units_for_exchange ''x'' asking_units)
   = run_supervised_loop json codec echo_ids lp asking_units"
proof -
  have s: "scope_snapshot ''x'' (tool_stage ''x:t'' g st p wt) = tool_stage ''x:t'' g st p wt" for g st p wt
    by (simp add: scope_snapshot_def tool_stage_def scope_tool_action_def provider_tool_call_id_from_action_def strip_prefix_def)
  have b: "scope_one_tool_unit ''x'' (scope_one_tool_unit ''x'' u) = scope_one_tool_unit ''x'' u"
    if "snapshot_unit (event_snapshot u) = Boundary k" for u k
    using that by (cases u) (simp_all add: scope_snapshot_def)
  have "scope_tool_units_for_exchange ''x'' (scope_tool_units_for_exchange ''x'' asking_units)
      = scope_tool_units_for_exchange ''x'' asking_units"
    using b [OF asking_units_run(2)] by (simp add: scope_tool_units_for_exchange_def asking_units_def scope_stage s)
  then show ?thesis by (simp add: run_supervised_loop_def echo_ids_x)
qed

lemma echo_loop:
  assumes "units = [b, Created (tool_stage ''x:t'' 1 ReqAssembling None ''tool arguments''),
       Advanced (tool_stage ''x:t'' 2 ReqReady (Some ''{}'') ''external execution'')]"
    and "snapshot_unit (event_snapshot b) = Boundary ResponseStarted"
  shows "case fed_loop ''t'' (smooth_pass\<lparr>lp_world := host_world echo_codec one_tool ''x'' 9 echo_worker nat_str\<rparr>) units of ow \<Rightarrow>
    map_option le_kind (loop_owner.completion_end ow) = Some Drained
    \<and> map (\<lambda>r. (out_action r, out_outcome r, out_payload r)) (results_of (loop_out ow)) = [(''x:t'', OutboundSuccess, ''{'')]"
proof -
  have q: "map observe (sub_queue (fold publish_event (map Unit units) subscription_channel)) = deliveries 1 (map Unit units)"
    using published_queue [of subscription_channel "map Unit units"] by (simp add: subscription_channel_def assms(1))
  have one: "res_by_name one_tool = [(''f'', ''a'')]" by code_simp
  have v: "validated_string ''f'' = Ok ''f''" by code_simp
  have r: "host_request ''x'' 9 \<lparr>start_execution = e, start_action = ''x:t'', start_name = ''f'', start_payload = ''{}'', start_generation = 2\<rparr> = echo_request" for e
    by (simp add: host_request_def echo_request_def provider_tool_call_id_from_action_def strip_prefix_def)
  have w: "worker_outcome (echo_worker n) echo_request = Some (DispatchCanonical echo_result [ToolStarted ''x:t'' ''a'' ''f'' ''t'' 2, ToolCompleted echo_result])"
    "worker_spawn (echo_worker n) = SpawnQueueTakes" for n
    by (simp_all add: echo_worker_def dispatch_worker_def echo_dispatch)
  have m: "map_outcome echo_codec (DispatchCanonical echo_result l) = \<lparr>terminal_outcome_of = OutboundSuccess, terminal_payload = ''{''\<rparr>" for l
    by (simp add: map_outcome_def echo_codec_def echo_result_def make_result_def)
  show ?thesis
    unfolding fed_loop_def Let_def q
    by (simp add: assms smooth_pass_def loop_run_def loop_run_defs run_scope_def host_world_def registry_resolve_def host_tool_start_def
        try_spawn_owned_def one v r w m tool_stage_def Let_def)
qed

lemma smooth_read:
  "\<not> list_ex is_loop_end evs \<Longrightarrow> rest = [] \<or> (\<exists>e. rest = [LoopEnded e])
    \<Longrightarrow> \<exists>rep cmds. read_outputs json codec ids (\<lambda>_. ReadPublishes) n (evs @ rest) rep0 = (Ok rep, cmds)"
proof (induction evs arbitrary: n rep0)
  case (Cons ev evs)
  from Cons.prems have ih: "\<And>n rep0. \<exists>rep cmds. read_outputs json codec ids (\<lambda>_. ReadPublishes) n (evs @ rest) rep0 = (Ok rep, cmds)"
    by (intro Cons.IH) simp_all
  show ?case
  proof (cases ev)
    case (OutboundResult r)
    with ih [of "n + 1" "add_result json codec ids r rep0"] show ?thesis by (auto simp: Let_def)
  next
    case (ToolUnavailableEvent a r)
    with ih [of "n + 1" "rep0\<lparr>rep_unavailable := count_up (rep_unavailable rep0)\<rparr>"] show ?thesis by simp
  qed (use Cons.prems ih in auto)
qed auto

lemma echo_pass:
  obtains rep cmds where
    "run_supervised_tool_loop object_codec echo_codec echo_ids one_tool 9 echo_worker nat_str smooth_pass asking_units = (Ok rep, cmds)"
    "map (\<lambda>r. (result_action r, result_outcome r)) (tool_results rep) = [(''x:t'', ResultSucceeded (TextOutput ''ok''))]"
proof -
  let ?lp = "smooth_pass\<lparr>lp_world := host_world echo_codec one_tool ''x'' 9 echo_worker nat_str\<rparr>"
  define ow where "ow = fed_loop ''t'' ?lp (scope_tool_units_for_exchange ''x'' asking_units)"
  have ow: "map_option le_kind (loop_owner.completion_end ow) = Some Drained"
    "map (\<lambda>r. (out_action r, out_outcome r, out_payload r)) (results_of (loop_out ow)) = [(''x:t'', OutboundSuccess, ''{'')]"
    using echo_scoped echo_loop unfolding ow_def by (metis (no_types, lifting))+
  obtain rep cmds where rd: "read_outputs object_codec echo_codec echo_ids (lp_reads ?lp) 0 (loop_out ow) empty_report = (Ok rep, cmds)"
    using fed_loop_output [of "''t''" ?lp "scope_tool_units_for_exchange ''x'' asking_units"] smooth_read unfolding ow_def
    by (fastforce simp: smooth_pass_def)
  have feed: "feed_loop (\<lambda>_. FeedPublished) n us = None" for n us by (induction us arbitrary: n) (simp_all add: feed_one_def)
  have fields: "lp_spawn ?lp = [(False, SpawnQueueTakes, True)]" "lp_feed ?lp = (\<lambda>_. FeedPublished)" "\<not> lp_expired ?lp" "\<not> lp_cancelled ?lp"
    "\<not> lp_end_cancelled ?lp" "pass_exchange echo_ids = ''x''" "pass_transaction echo_ids = ''t''"
    by (simp_all add: smooth_pass_def echo_ids_def)
  have run: "run_supervised_loop object_codec echo_codec echo_ids ?lp asking_units = (Ok rep, cmds)"
    using ow(1) rd
    by (auto simp: run_supervised_loop_def start_and_feed_def fields feed spawn_boxed_def end_report_def await_loop_end_def ow_def [symmetric] Let_def)
  then have "tool_results rep = converted object_codec echo_codec echo_ids (results_of (loop_out ow)) 0"
    using supervised_loop_ok by (fastforce simp: ow_def fields Let_def)
  moreover obtain r where "results_of (loop_out ow) = [r]" "out_action r = ''x:t''" "out_outcome r = OutboundSuccess" "out_payload r = ''{''"
    using ow(2) by auto
  ultimately have "map (\<lambda>r. (result_action r, result_outcome r)) (tool_results rep) = [(''x:t'', ResultSucceeded (TextOutput ''ok''))]"
    by (simp add: converted_def convert_result_def echo_codec_def adopt_result_def loop_result_def echo_result_def make_result_def)
  with run show thesis by (intro that) (simp_all add: run_supervised_tool_loop_def fields)
qed

theorem reported_successes_real_witness:
  "\<exists>rep cmds. run_supervised_tool_loop object_codec echo_codec echo_ids one_tool 9 echo_worker nat_str smooth_pass asking_units = (Ok rep, cmds)
     \<and> map result_action (tool_results rep) = [''x:t'']
     \<and> (\<exists>q c l. q \<in> set (pass_starts echo_codec echo_ids one_tool 9 echo_worker nat_str smooth_pass asking_units) \<and> start_action q = ''x:t''
          \<and> fst (dispatch_with_cancel object_codec any_schema echo_dispatcher (host_request ''x'' 9 q) echo_world echo_state) = DispatchCanonical c l)"
proof -
  obtain rep cmds where x: "run_supervised_tool_loop object_codec echo_codec echo_ids one_tool 9 echo_worker nat_str smooth_pass asking_units = (Ok rep, cmds)"
    "map (\<lambda>r. (result_action r, result_outcome r)) (tool_results rep) = [(''x:t'', ResultSucceeded (TextOutput ''ok''))]"
    using echo_pass .
  then obtain r where r: "tool_results rep = [r]" "result_action r = ''x:t''" "result_outcome r = ResultSucceeded (TextOutput ''ok'')" by auto
  have w: "echo_worker = (\<lambda>n. dispatch_worker object_codec any_schema echo_dispatcher SpawnQueueTakes (Some (echo_world, echo_state)))"
    by (simp add: fun_eq_iff echo_worker_def)
  have e: "pass_exchange echo_ids = ''x''" by (simp add: echo_ids_def)
  define qs where "qs = pass_starts echo_codec echo_ids one_tool 9 echo_worker nat_str smooth_pass asking_units"
  from reported_successes_real [OF x(1) w echo_decodes qs_def] r
  obtain n c l where "n < length qs" "start_action (qs ! n) = ''x:t''"
    "fst (dispatch_with_cancel object_codec any_schema echo_dispatcher (host_request ''x'' 9 (qs ! n)) echo_world echo_state) = DispatchCanonical c l"
    unfolding e by (auto simp: is_success_def)
  with x(1) r show ?thesis unfolding qs_def [symmetric] by (metis nth_mem list.map)
qed

theorem exchange_requests_answered_witness:
  "\<exists>rep cmds. run_supervised_loop object_codec echo_codec echo_ids
       (smooth_pass\<lparr>lp_world := host_world echo_codec one_tool ''x'' 9 echo_worker nat_str\<rparr>)
       (scope_tool_units_for_exchange ''x'' asking_units) = (Ok rep, cmds)
     \<and> set (map result_action (tool_results rep)) = {''x:t''}"
proof -
  obtain rep cmds where "run_supervised_loop object_codec echo_codec echo_ids
      (smooth_pass\<lparr>lp_world := host_world echo_codec one_tool ''x'' 9 echo_worker nat_str\<rparr>) asking_units = (Ok rep, cmds)"
    using echo_pass by (metis run_supervised_tool_loop_def pass_ids.select_convs(4) echo_ids_def)
  then have x: "run_supervised_loop object_codec echo_codec echo_ids
      (smooth_pass\<lparr>lp_world := host_world echo_codec one_tool ''x'' 9 echo_worker nat_str\<rparr>)
      (scope_tool_units_for_exchange (pass_exchange echo_ids) asking_units) = (Ok rep, cmds)"
    unfolding echo_ids_x asking_twice .
  have p: "prefix asking_units (units_in (sent (own_pub (snd (run (plain_env ready_codec) [Bytes hello_event, FinishClean]
      (owner_new (small_request OpenAiChatCompletions) None))))))"
    unfolding asking_units_run(1) [symmetric, unfolded ready_run_def] by (rule take_is_prefix)
  have t: "tool_ids asking_units = {''t''}" "requested_actions asking_units = {''t''}"
    using asking_units_run(2) by (simp_all add: asking_units_def tool_stage_def ready_tool_def)
  have f: "\<forall>a \<in> tool_ids asking_units. \<not> starts_with a (pass_exchange echo_ids @ '':'')"
    by (simp add: t echo_ids_x)
  have "length asking_units < 2 ^ 64" by (simp add: asking_units_def)
  from exchange_requests_answered [OF x p this f] x show ?thesis
    unfolding scoped_requests echo_ids_x t by (auto simp: scoped_id_fresh)
qed

section \<open>Empty action ids\<close>

text \<open>
  Scoping is meant to be done once, and units that are scoped already are recognized; only an
  action with an empty id is not, and gets a new id every time. The units of an exchange are
  scoped before they are published and again before they are fed to the loop.
\<close>

lemma scoping_twice:
  "tool_action_id t \<noteq> [] \<Longrightarrow> scope_tool_action x (scope_tool_action x t) = scope_tool_action x t"
  by (auto simp: scope_tool_action_def provider_tool_call_id_from_action_def tool_action_id_for_exchange_def strip_prefix_def starts_colon)

lemma empty_id_scoped_twice:
  "tool_action_id t = [] \<Longrightarrow> scope_tool_action x (scope_tool_action x t) \<noteq> scope_tool_action x t"
  by (auto simp: scope_tool_action_def provider_tool_call_id_from_action_def tool_action_id_for_exchange_def strip_prefix_def
      split: option.splits dest: arg_cong [where f = tool_action_id])

end
