(* ===== verification/Coordinator.thy ===== *)
theory Coordinator
  imports Mcp_Gateway Loop_Dispatch Ledger
begin

text \<open>
  The coordinator of one transaction: \<open>transaction/lifecycle/coordinator.rs\<close>. It runs the first
  exchange of a transaction, for an external agent with an MCP route and a gate in front of the
  prompt, publishes the units, runs the tools they ask for, and continues with further exchanges.

  The state has what the coordinator shares with the runtime: the ledger, the MCP gateway, the heap
  of dispatchers and the commands that the publisher took. It also records every exchange that was
  started. An operation on the ledger or the gateway holds a lock and is one step. How waits end is
  a \<open>coordinator_world\<close>; its n-th exchange, tool pass and send have the world of index n.
\<close>

section \<open>Parameters and state\<close>

record outbound_dialect_encoder =
  encode_initial :: "initial_encode_request \<Rightarrow> encoder_result"
  encode_tool_continuation :: "continuation_encode_request \<Rightarrow> encoder_result"

record live_channel =
  live_binding :: channel_binding
  live_encoder :: outbound_dialect_encoder
  live_has_sessions :: bool

record coordinator_params =
  cp_transaction :: string
  cp_channel :: string
  cp_session :: "string option"
  cp_input :: "canonical_message list"
  cp_config :: effective_config
  cp_channels :: "(string \<times> live_channel) list"
  cp_deadline :: nat
  cp_selected_tools :: "string list"
  cp_registry :: host_tool_registry
  cp_limits :: transaction_limits

datatype attach_end = AttachRefused | AttachCancelled | AttachFailed | Attached

datatype send_end = SendTaken | SendCancelled | SendRefused

record coordinator_world =
  cw_expired :: bool
  cw_exchange_id :: "nat \<Rightarrow> string"
  cw_entropy :: "capability_token option"
  cw_attach :: attach_end
  cw_gate_cancelled :: bool
  cw_gate_refused :: bool
  cw_send :: "nat \<Rightarrow> send_end"
  cw_exchange :: "nat \<Rightarrow> exchange_world"
  cw_round_expired :: "nat \<Rightarrow> bool"
  cw_pass :: "nat \<Rightarrow> loop_pass"
  cw_workers :: "nat \<Rightarrow> nat \<Rightarrow> worker_world"
  cw_uuid :: "nat \<Rightarrow> nat \<Rightarrow> string"

record exchange_record =
  xr_outcome :: direct_exchange_outcome
  xr_trace :: "exchange_action list"

record coordinator_state =
  co_ledger :: lifecycle_ledger
  co_gateway :: "gateway_state option"
  co_dispatchers :: "tool_dispatcher list"
  co_commands :: "event_publisher_command list"
  co_sends :: nat
  co_claimed :: "string option \<times> bool"
  co_exchanges :: "exchange_record list"

definition note_exchange :: "direct_exchange_outcome \<Rightarrow> exchange_action list \<Rightarrow> coordinator_state \<Rightarrow> coordinator_state" where
  "note_exchange out tr s = s\<lparr>co_exchanges := co_exchanges s @ [\<lparr>xr_outcome = out, xr_trace = tr\<rparr>]\<rparr>"

definition send_command :: "coordinator_world \<Rightarrow> event_publisher_command \<Rightarrow> coordinator_state \<Rightarrow> send_end \<times> coordinator_state" where
  "send_command w cmd s =
     (cw_send w (co_sends s),
      s\<lparr>co_sends := co_sends s + 1,
        co_commands := co_commands s @ (if cw_send w (co_sends s) = SendTaken then [cmd] else [])\<rparr>)"

definition selected_registered :: "coordinator_params \<Rightarrow> registered_tool list" where
  "selected_registered p = List.map_filter (\<lambda>i. registry_get i (cp_registry p)) (cp_selected_tools p)"

definition tool_specs :: "coordinator_params \<Rightarrow> tool_spec list" where
  "tool_specs p = map rt_spec (selected_registered p)"

definition resolved_set :: "coordinator_params \<Rightarrow> resolved_tool_set" where
  "resolved_set p = from_registered (selected_registered p)"

text \<open>The dispatcher of a transaction; the counters that it shares with the others are not part of it.\<close>

definition transaction_dispatcher :: "coordinator_params \<Rightarrow> string option \<Rightarrow> tool_dispatcher" where
  "transaction_dispatcher p session =
     fst (with_limits_and_spill (cp_transaction p) (session_key_for (cp_channel p) session (cp_transaction p)) (resolved_set p)
            0 0 (limits_from_transaction (cp_limits p)))"

section \<open>The transcript of a tool round\<close>

definition round_provider_id :: "canonical_tool_result list \<Rightarrow> tool_action_event \<Rightarrow> string" where
  "round_provider_id results t =
     (case find (\<lambda>r. result_action r = tool_action_id t) results of
        Some r \<Rightarrow> result_provider_id r
      | None \<Rightarrow>
          (case results of
             r # _ \<Rightarrow> unwrap_or (tool_action_id t) (provider_tool_call_id_from_action (result_exchange r) (tool_action_id t))
           | [] \<Rightarrow> tool_action_id t))"

definition round_call :: "json_codec \<Rightarrow> canonical_tool_result list \<Rightarrow> tool_action_event \<Rightarrow> tool_call_input option" where
  "round_call json results t =
     (case event_tool_name t of
        None \<Rightarrow> None
      | Some name \<Rightarrow>
          (case event_request_payload t of
             None \<Rightarrow> None
           | Some payload \<Rightarrow>
               (case from_str json payload of
                  None \<Rightarrow> None
                | Some arguments \<Rightarrow>
                    (case validated_string name of
                       Inl _ \<Rightarrow> None
                     | Inr n \<Rightarrow>
                         Some \<lparr>call_id = round_provider_id results t, call_name = n, call_arguments = arguments\<rparr>))))"

fun round_content ::
  "json_codec \<Rightarrow> canonical_tool_result list \<Rightarrow> canonical_unit_event list \<Rightarrow> (string list \<times> tool_call_input list) option" where
  "round_content json results [] = Some ([], [])"
| "round_content json results (u # us) =
     (case snapshot_unit (event_snapshot u) of
        Text t \<Rightarrow>
          (case text_part_try_new (sentence_content t) (max_text_part_bytes default_input_limits) of
             Inl _ \<Rightarrow> None
           | Inr part \<Rightarrow> map_option (\<lambda>(parts, calls). (part # parts, calls)) (round_content json results us))
      | Tool t \<Rightarrow>
          if event_request_state t \<noteq> ReqReady then round_content json results us
          else (case round_call json results t of
                  None \<Rightarrow> None
                | Some c \<Rightarrow> map_option (\<lambda>(parts, calls). (parts, c # calls)) (round_content json results us))
      | _ \<Rightarrow> round_content json results us)"

definition result_text :: "json_codec \<Rightarrow> canonical_tool_result \<Rightarrow> string option" where
  "result_text json r =
     (case result_outcome r of
        ResultSucceeded (JsonOutput v) \<Rightarrow> to_vec json v
      | ResultSucceeded (TextOutput t) \<Rightarrow> Some t
      | ResultDomainFailed e \<Rightarrow>
          to_vec json (JObject [(''error'', JObject [(''code'', JString (tool_error_code e)),
            (''data'', unwrap_or JNull (tool_error_data e)), (''message'', JString (tool_error_message e))])]))"

fun result_messages :: "json_codec \<Rightarrow> canonical_tool_result list \<Rightarrow> canonical_message list option" where
  "result_messages json [] = Some []"
| "result_messages json (r # rs) =
     (case result_text json r of
        None \<Rightarrow> None
      | Some text \<Rightarrow>
          (case text_part_try_new text (max_text_part_bytes default_input_limits) of
             Inl _ \<Rightarrow> None
           | Inr part \<Rightarrow> map_option ((#) (ToolResult (result_provider_id r) [part])) (result_messages json rs)))"

definition append_tool_round ::
  "json_codec \<Rightarrow> canonical_message list \<Rightarrow> canonical_unit_event list \<Rightarrow> canonical_tool_result list \<Rightarrow> canonical_message list option" where
  "append_tool_round json messages units results =
     (case round_content json results units of
        None \<Rightarrow> None
      | Some (parts, calls) \<Rightarrow>
          if calls = [] then None
          else map_option (\<lambda>ms. messages @ Assistant parts calls # ms) (result_messages json results))"

fun message_estimate :: "json_codec \<Rightarrow> canonical_message \<Rightarrow> nat \<Rightarrow> nat option" where
  "message_estimate json (System body name) acc0 =
     Some (fold (\<lambda>p n. saturating_add n (length p)) body (case name of Some m \<Rightarrow> saturating_add acc0 (length m) | None \<Rightarrow> acc0))"
| "message_estimate json (User body name) acc0 =
     Some (fold (\<lambda>p n. saturating_add n (length p)) body (case name of Some m \<Rightarrow> saturating_add acc0 (length m) | None \<Rightarrow> acc0))"
| "message_estimate json (Assistant body calls) acc0 =
     fold (\<lambda>c acc. case acc of
            None \<Rightarrow> None
          | Some n \<Rightarrow>
              map_option (\<lambda>v. saturating_add (saturating_add (saturating_add n (length (call_id c))) (length (call_name c))) (length v))
                (to_vec json (call_arguments c)))
       calls (Some (fold (\<lambda>p n. saturating_add n (length p)) body acc0))"
| "message_estimate json (ToolResult i body) acc0 =
     Some (fold (\<lambda>p n. saturating_add n (length p)) body (saturating_add acc0 (length i)))"

definition estimate_continuation_messages_bytes :: "json_codec \<Rightarrow> canonical_message list \<Rightarrow> nat option" where
  "estimate_continuation_messages_bytes json ms = fold (\<lambda>m acc. Option.bind acc (message_estimate json m)) ms (Some 0)"

section \<open>Publishing and tools\<close>

fun publish_units ::
  "coordinator_world \<Rightarrow> canonical_unit_event list \<Rightarrow> coordinator_state \<Rightarrow> transaction_end_kind option \<times> coordinator_state" where
  "publish_units w [] s = (None, s)"
| "publish_units w (u # us) s =
     (case send_command w (PublishCommand (CanonicalUnitPayload u)) s of
        (SendTaken, s) \<Rightarrow> publish_units w us s
      | (SendCancelled, s) \<Rightarrow> (Some TxCancelled, s)
      | (SendRefused, s) \<Rightarrow> (Some EventDeliveryFailed, s))"

definition loop_error_kind :: "loop_dispatch_error \<Rightarrow> transaction_end_kind" where
  "loop_error_kind e =
     (case e of
        DispatchCancelled \<Rightarrow> TxCancelled
      | DispatchDeadline \<Rightarrow> DeadlineExceeded
      | DispatchPublishFailed \<Rightarrow> EventDeliveryFailed
      | _ \<Rightarrow> InvariantFailed)"

text \<open>The tool pass over the units of the n-th exchange.\<close>

definition pass_result ::
  "json_codec \<Rightarrow> result_codec \<Rightarrow> coordinator_params \<Rightarrow> coordinator_world \<Rightarrow> nat \<Rightarrow> string \<Rightarrow> string option \<Rightarrow> canonical_unit_event list
    \<Rightarrow> (loop_dispatch_error, loop_dispatch_report) result \<times> event_publisher_command list" where
  "pass_result json codec p w n xid session units =
     (let ids = \<lparr>pass_transaction = cp_transaction p, pass_channel = cp_channel p, pass_session = session, pass_exchange = xid\<rparr>
      in if cp_selected_tools p = [] then run_supervised_empty_loop json codec ids (cw_uuid w n) (cw_pass w n) units
         else run_supervised_tool_loop json codec ids (resolved_set p) (cp_deadline p) (cw_workers w n) (cw_uuid w n) (cw_pass w n) units)"

definition run_pass ::
  "json_codec \<Rightarrow> result_codec \<Rightarrow> coordinator_params \<Rightarrow> coordinator_world \<Rightarrow> nat \<Rightarrow> string \<Rightarrow> string option \<Rightarrow> canonical_unit_event list
    \<Rightarrow> coordinator_state \<Rightarrow> (loop_dispatch_error, loop_dispatch_report) result \<times> coordinator_state" where
  "run_pass json codec p w n xid session units s =
     (case pass_result json codec p w n xid session units of
        (r, cmds) \<Rightarrow> (r, s\<lparr>co_commands := co_commands s @ cmds\<rparr>))"

section \<open>Continuation\<close>

record provider_usage =
  exchanges_used :: nat
  provider_input_used :: nat
  provider_output_used :: nat

definition provider_usage_after_exchange :: "direct_exchange_outcome \<Rightarrow> provider_usage" where
  "provider_usage_after_exchange out =
     (if xo_terminal out = TxCompleted
      then \<lparr>exchanges_used = 1, provider_input_used = encoded_input_bytes out, provider_output_used = received_output_bytes out\<rparr>
      else \<lparr>exchanges_used = 0, provider_input_used = 0, provider_output_used = 0\<rparr>)"

definition use_exchange :: "direct_exchange_outcome \<Rightarrow> provider_usage \<Rightarrow> provider_usage" where
  "use_exchange out u =
     \<lparr>exchanges_used = saturating_add (exchanges_used u) 1,
      provider_input_used = saturating_add (provider_input_used u) (encoded_input_bytes out),
      provider_output_used = saturating_add (provider_output_used u) (received_output_bytes out)\<rparr>"

text \<open>What an exchange may use. The retained units are bounded by the larger of the exchange bound and 64 KiB.\<close>

definition channel_exchange_limits :: "live_channel \<Rightarrow> coordinator_params \<Rightarrow> provider_usage \<Rightarrow> exchange_limits" where
  "channel_exchange_limits live p u =
     \<lparr>xl_encoded = ch_max_encoded_exchange_bytes (bind_limits (live_binding live)),
      xl_retained = max (ch_max_encoded_exchange_bytes (bind_limits (live_binding live))) (64 * 1024),
      xl_remaining_input = max_total_provider_input_bytes (cp_limits p) - provider_input_used u,
      xl_remaining_output = max_total_provider_output_bytes (cp_limits p) - provider_output_used u\<rparr>"

fun continuation_rounds ::
  "json_codec \<Rightarrow> result_codec \<Rightarrow> coordinator_params \<Rightarrow> live_channel \<Rightarrow> coordinator_world \<Rightarrow> string option \<Rightarrow> nat \<Rightarrow> canonical_message list
    \<Rightarrow> canonical_unit_event list \<Rightarrow> canonical_tool_result list \<Rightarrow> provider_usage \<Rightarrow> coordinator_state
    \<Rightarrow> transaction_end_kind \<times> coordinator_state" where
  "continuation_rounds json codec p live w session 0 messages units results u s = (LimitExceeded, s)"
| "continuation_rounds json codec p live w session (Suc rounds) messages units results u s =
     (let n = length (co_exchanges s); l = channel_exchange_limits live p u
      in if cw_round_expired w n then (DeadlineExceeded, s)
         else if exchanges_used u \<ge> max_provider_exchanges (cp_limits p) then (LimitExceeded, s)
         else case append_tool_round json messages units results of
                None \<Rightarrow> (EncodingFailed, s)
              | Some messages \<Rightarrow>
                  (case continuation_context_try_new messages of
                     Inl _ \<Rightarrow> (EncodingFailed, s)
                   | Inr context \<Rightarrow>
                       if xl_remaining_input l = 0 \<or> xl_remaining_output l = 0 then (LimitExceeded, s)
                       else
                         (let xid = cw_exchange_id w n;
                              encoded = encode_tool_continuation (live_encoder live)
                                \<lparr>con_context = context, con_results = results, con_config = cp_config p, con_tools = tool_specs p\<rparr>;
                              (out, tr) = run_direct_llm_continuation xid (max_continuation_context_bytes (cp_limits p)) l encoded
                                (cw_exchange w n);
                              s = note_exchange out tr s
                          in if xo_terminal out \<noteq> TxCompleted then (xo_terminal out, s)
                             else
                               (let scoped = scope_tool_units_for_exchange xid (xo_units out)
                                in case publish_units w scoped s of
                                     (Some kind, s) \<Rightarrow> (kind, s)
                                   | (None, s) \<Rightarrow>
                                       if \<not> needs_loop_dispatch scoped then (TxCompleted, s)
                                       else (case run_pass json codec p w n xid session scoped s of
                                               (Inl e, s) \<Rightarrow> (loop_error_kind e, s)
                                             | (Inr rep, s) \<Rightarrow>
                                                 if tool_results rep = [] then (InvariantFailed, s)
                                                 else continuation_rounds json codec p live w session rounds messages scoped
                                                        (tool_results rep) (use_exchange out u) s)))))"

definition run_inline_tool_continuation ::
  "json_codec \<Rightarrow> result_codec \<Rightarrow> coordinator_params \<Rightarrow> live_channel \<Rightarrow> coordinator_world \<Rightarrow> string option \<Rightarrow> loop_dispatch_report
    \<Rightarrow> canonical_unit_event list \<Rightarrow> provider_usage \<Rightarrow> coordinator_state \<Rightarrow> transaction_end_kind \<times> coordinator_state" where
  "run_inline_tool_continuation json codec p live w session rep first_units u s =
     (if tool_results rep = [] then (InvariantFailed, s)
      else continuation_rounds json codec p live w session (max_continuations (cp_limits p)) (cp_input p) first_units
             (tool_results rep) u s)"

section \<open>After the first exchange\<close>

definition establish_late ::
  "coordinator_world \<Rightarrow> bool \<Rightarrow> direct_exchange_outcome \<Rightarrow> coordinator_state \<Rightarrow> transaction_end_kind option \<times> coordinator_state" where
  "establish_late w already out s =
     (case (already, xo_external_session out) of
        (False, Some external) \<Rightarrow>
          (case send_command w (EstablishExternal external) s of
             (SendTaken, s) \<Rightarrow> (None, s)
           | (SendCancelled, s) \<Rightarrow> (Some TxCancelled, s)
           | (SendRefused, s) \<Rightarrow> (Some EventDeliveryFailed, s))
      | _ \<Rightarrow> (None, s))"

definition finish_after_exchange ::
  "json_codec \<Rightarrow> result_codec \<Rightarrow> coordinator_params \<Rightarrow> live_channel \<Rightarrow> coordinator_world \<Rightarrow> string option \<Rightarrow> bool
    \<Rightarrow> direct_exchange_outcome \<Rightarrow> coordinator_state \<Rightarrow> transaction_end_kind \<times> coordinator_state" where
  "finish_after_exchange json codec p live w session already out s =
     (case establish_late w already out s of
        (Some kind, s) \<Rightarrow> (kind, s)
      | (None, s) \<Rightarrow>
          (let xid = xo_exchange out;
               scoped = scope_tool_units_for_exchange xid (xo_units out)
           in case publish_units w scoped s of
                (failed, s) \<Rightarrow>
                  (let terminal = unwrap_or (xo_terminal out) failed
                   in if bind_tool_mode (live_binding live) = McpGateway then (terminal, s)
                      else if terminal \<in> {TxCompleted, ContinuationRequired} \<and> needs_loop_dispatch scoped
                      then (case run_pass json codec p w 0 xid session scoped s of
                              (Inl e, s) \<Rightarrow> (loop_error_kind e, s)
                            | (Inr rep, s) \<Rightarrow>
                                if terminal = TxCompleted
                                then (case eff_continuation_policy (cp_config p) of
                                        CallerControlled \<Rightarrow> (ContinuationRequired, s)
                                      | InlineToolContinuation \<Rightarrow>
                                          run_inline_tool_continuation json codec p live w session rep scoped
                                            (provider_usage_after_exchange out) s)
                                else (terminal, s))
                      else (terminal, s))))"

section \<open>Claim and activation in front of the prompt\<close>

definition gate_failed :: "coordinator_state \<Rightarrow> prompt_proceed \<times> coordinator_state" where
  "gate_failed s = (ProceedFailed, s)"

definition activate_route ::
  "string \<Rightarrow> capability_token option \<Rightarrow> coordinator_state \<Rightarrow> prompt_proceed \<times> coordinator_state" where
  "activate_route external token s =
     (let s = s\<lparr>co_claimed := (Some external, False)\<rparr>; ready = (ProceedOk, s\<lparr>co_claimed := (Some external, True)\<rparr>)
      in case token of
           None \<Rightarrow> ready
         | Some token \<Rightarrow>
             (case co_gateway s of
                None \<Rightarrow> gate_failed s
              | Some g \<Rightarrow>
                  (case gateway_activate token g of
                     (Inl _, g) \<Rightarrow> gate_failed (s\<lparr>co_gateway := Some g\<rparr>)
                   | (Inr _, g) \<Rightarrow> (ProceedOk, s\<lparr>co_gateway := Some g, co_claimed := (Some external, True)\<rparr>))))"

definition claim_gate ::
  "coordinator_params \<Rightarrow> live_channel \<Rightarrow> coordinator_world \<Rightarrow> (capability_token \<times> nat) option \<Rightarrow> string option \<Rightarrow> coordinator_state
    \<Rightarrow> prompt_proceed \<times> coordinator_state" where
  "claim_gate p live w mcp external s =
     (case external of
        None \<Rightarrow> gate_failed s
      | Some ext \<Rightarrow>
          if cw_gate_cancelled w then gate_failed s
          else
            (case validated_string ext of
               Inl _ \<Rightarrow> gate_failed s
             | Inr sid \<Rightarrow>
                 (let key = \<lparr>key_channel = cp_channel p, key_session = sid\<rparr>
                  in case bind_session (cp_transaction p) key (Some (ch_max_distinct_sessions (bind_limits (live_binding live)))) (co_ledger s) of
                       (Some DistinctSessionsExceeded, L) \<Rightarrow> (ProceedDistinctSessions, s\<lparr>co_ledger := L\<rparr>)
                     | (Some _, L) \<Rightarrow> gate_failed (s\<lparr>co_ledger := L\<rparr>)
                     | (None, L) \<Rightarrow>
                         (let s = s\<lparr>co_ledger := L\<rparr>
                          in if cw_gate_refused w then gate_failed s
                             else
                               (let s = s\<lparr>co_commands := co_commands s @ [EstablishExternal ext],
                                         co_dispatchers := (case mcp of
                                            Some (_, d) \<Rightarrow> (co_dispatchers s)[d := rebind_session key (co_dispatchers s ! d)]
                                          | None \<Rightarrow> co_dispatchers s)\<rparr>
                                in activate_route ext (map_option fst mcp) s)))))"

section \<open>The coordinator\<close>

definition revoke_mcp :: "capability_token option \<Rightarrow> coordinator_state \<Rightarrow> coordinator_state" where
  "revoke_mcp token s =
     (case (token, co_gateway s) of
        (Some t, Some g) \<Rightarrow> s\<lparr>co_gateway := Some (snd (gateway_revoke t g))\<rparr>
      | _ \<Rightarrow> s)"

definition wants_mcp :: "coordinator_params \<Rightarrow> live_channel \<Rightarrow> bool" where
  "wants_mcp p live \<longleftrightarrow>
     bind_tool_mode (live_binding live) = McpGateway \<and> cp_selected_tools p \<noteq> [] \<and>
     mcp_configuration (bind_capabilities (live_binding live)) = CreationOnly"

text \<open>A pending route for the tools of the transaction: the token and the address of its dispatcher, when it has one.\<close>

definition install_mcp ::
  "coordinator_params \<Rightarrow> live_channel \<Rightarrow> coordinator_world \<Rightarrow> coordinator_state
    \<Rightarrow> (transaction_end_kind, (capability_token \<times> nat) option) result \<times> coordinator_state" where
  "install_mcp p live w s =
     (if \<not> wants_mcp p live then (Ok None, s)
      else
        (case co_gateway s of
           None \<Rightarrow> (Err InvariantFailed, s)
         | Some g \<Rightarrow>
             (let d = length (co_dispatchers s);
                  s = s\<lparr>co_dispatchers := co_dispatchers s @ [transaction_dispatcher p (cp_session p)]\<rparr>
              in case gateway_install (cp_transaction p) (resolved_set p) d (cw_exchange_id w 0) (cp_deadline p) (cw_entropy w) g of
                   (Inl _, g) \<Rightarrow> (Err InvariantFailed, s\<lparr>co_gateway := Some g\<rparr>)
                 | (Inr b, g) \<Rightarrow> (Ok (Some (pending_token b, d)), s\<lparr>co_gateway := Some g\<rparr>))))"

definition first_exchange ::
  "coordinator_params \<Rightarrow> live_channel \<Rightarrow> coordinator_world \<Rightarrow> coordinator_state prompt_gate \<Rightarrow> coordinator_state
    \<Rightarrow> direct_exchange_outcome \<times> coordinator_state" where
  "first_exchange p live w gate s =
     (case run_direct_llm_exchange (cw_exchange_id w 0)
             (channel_exchange_limits live p \<lparr>exchanges_used = 0, provider_input_used = 0, provider_output_used = 0\<rparr>)
             (encode_initial (live_encoder live) \<lparr>ini_input = cp_input p, ini_config = cp_config p, ini_tools = tool_specs p\<rparr>)
             gate (cw_exchange w 0) s of
        (out, tr, s) \<Rightarrow> (out, note_exchange out tr s))"

definition attached_exchange ::
  "json_codec \<Rightarrow> result_codec \<Rightarrow> coordinator_params \<Rightarrow> live_channel \<Rightarrow> coordinator_world \<Rightarrow> (capability_token \<times> nat) option
    \<Rightarrow> coordinator_state \<Rightarrow> transaction_end_kind \<times> coordinator_state" where
  "attached_exchange json codec p live w mcp s =
     (case first_exchange p live w (Some (claim_gate p live w mcp)) (s\<lparr>co_claimed := (None, False)\<rparr>) of
        (out, s) \<Rightarrow>
          (let (external, established) = co_claimed s;
               session = (case Option.bind external (\<lambda>e. case validated_string e of Inl _ \<Rightarrow> None | Inr i \<Rightarrow> Some i) of
                            Some i \<Rightarrow> Some i
                          | None \<Rightarrow> cp_session p)
           in finish_after_exchange json codec p live w session established out s))"

definition run_external_agent ::
  "json_codec \<Rightarrow> result_codec \<Rightarrow> coordinator_params \<Rightarrow> live_channel \<Rightarrow> coordinator_world \<Rightarrow> coordinator_state
    \<Rightarrow> transaction_end_kind \<times> coordinator_state" where
  "run_external_agent json codec p live w s =
     (if \<not> live_has_sessions live then (InvariantFailed, s)
      else
        (case install_mcp p live w s of
           (Inl kind, s) \<Rightarrow> (kind, s)
         | (Inr mcp, s) \<Rightarrow>
             (case cw_attach w of
                AttachRefused \<Rightarrow> (InvariantFailed, revoke_mcp (map_option fst mcp) s)
              | AttachCancelled \<Rightarrow> (TxCancelled, revoke_mcp (map_option fst mcp) s)
              | AttachFailed \<Rightarrow> (InvariantFailed, revoke_mcp (map_option fst mcp) s)
              | Attached \<Rightarrow>
                  (case attached_exchange json codec p live w mcp s of
                     (kind, s) \<Rightarrow> (kind, revoke_mcp (map_option fst mcp) s)))))"

definition run_direct_llm ::
  "json_codec \<Rightarrow> result_codec \<Rightarrow> coordinator_params \<Rightarrow> live_channel \<Rightarrow> coordinator_world \<Rightarrow> coordinator_state
    \<Rightarrow> transaction_end_kind \<times> coordinator_state" where
  "run_direct_llm json codec p live w s =
     (case first_exchange p live w None s of
        (out, s) \<Rightarrow> finish_after_exchange json codec p live w (cp_session p) False out s)"

definition execute ::
  "json_codec \<Rightarrow> result_codec \<Rightarrow> coordinator_params \<Rightarrow> coordinator_world \<Rightarrow> coordinator_state
    \<Rightarrow> transaction_end_kind \<times> coordinator_state" where
  "execute json codec p w s =
     (case map_of (cp_channels p) (cp_channel p) of
        None \<Rightarrow> (InvariantFailed, s)
      | Some live \<Rightarrow>
          if cw_expired w then (DeadlineExceeded, s)
          else if max_provider_exchanges (cp_limits p) = 0 then (LimitExceeded, s)
          else (case bind_kind (live_binding live) of
                  ExternalAgent \<Rightarrow> run_external_agent json codec p live w s
                | DirectLlm \<Rightarrow> run_direct_llm json codec p live w s))"

text \<open>
  The supervisor can abort the task of a coordinator, which drops it at one of its waits. Up to there it
  has done what a run does for which that wait ends as by a cancellation, and nothing behind that
  wait is done any more; so the world of a dropped run is that of such a run, and the route is not
  revoked. \<open>None\<close> means that the coordinator returns without a wait.
\<close>

definition execute_dropped ::
  "json_codec \<Rightarrow> result_codec \<Rightarrow> coordinator_params \<Rightarrow> coordinator_world \<Rightarrow> coordinator_state \<Rightarrow> coordinator_state option" where
  "execute_dropped json codec p w s =
     (case map_of (cp_channels p) (cp_channel p) of
        None \<Rightarrow> None
      | Some live \<Rightarrow>
          if cw_expired w \<or> max_provider_exchanges (cp_limits p) = 0 then None
          else (case bind_kind (live_binding live) of
                  DirectLlm \<Rightarrow> Some (snd (run_direct_llm json codec p live w s))
                | ExternalAgent \<Rightarrow>
                    if \<not> live_has_sessions live then None
                    else (case install_mcp p live w s of
                            (Inl _, _) \<Rightarrow> None
                          | (Inr mcp, s) \<Rightarrow>
                              (case cw_attach w of
                                 AttachRefused \<Rightarrow> None
                               | Attached \<Rightarrow> Some (snd (attached_exchange json codec p live w mcp s))
                               | _ \<Rightarrow> Some s))))"

text \<open>The proposal is parked in the ledger before the supervisor is told, which a full queue may lose.\<close>

definition run_coordinator ::
  "json_codec \<Rightarrow> result_codec \<Rightarrow> coordinator_params \<Rightarrow> coordinator_world \<Rightarrow> bool \<Rightarrow> coordinator_state
    \<Rightarrow> (string \<times> terminal_proposal) option \<times> coordinator_state" where
  "run_coordinator json codec p w queue_takes s =
     (case execute json codec p w s of
        (kind, s) \<Rightarrow>
          (let proposal = \<lparr>proposal_kind = kind\<rparr>
           in (if queue_takes then Some (cp_transaction p, proposal) else None,
               s\<lparr>co_ledger := ledger_modify (cp_transaction p) (\<lambda>e. e\<lparr>pending_worker_proposal := Some proposal\<rparr>) (co_ledger s)\<rparr>)))"

section \<open>What the parts leave alone\<close>

definition same_runtime :: "coordinator_state \<Rightarrow> coordinator_state \<Rightarrow> bool" where
  "same_runtime s s' \<longleftrightarrow>
     co_ledger s' = co_ledger s \<and> co_gateway s' = co_gateway s \<and> co_dispatchers s' = co_dispatchers s"

definition published_units :: "event_publisher_command list \<Rightarrow> canonical_unit_event list" where
  "published_units cmds = concat (map (\<lambda>c. case c of PublishCommand (CanonicalUnitPayload u) \<Rightarrow> [u] | _ \<Rightarrow> []) cmds)"

definition exchange_units :: "exchange_record \<Rightarrow> canonical_unit_event list" where
  "exchange_units r = scope_tool_units_for_exchange (xo_exchange (xr_outcome r)) (xo_units (xr_outcome r))"

definition exchange_completed :: "exchange_record \<Rightarrow> bool" where
  "exchange_completed r \<longleftrightarrow> xo_terminal (xr_outcome r) = TxCompleted"

lemma published_units_append [simp]: "published_units (c @ d) = published_units c @ published_units d"
  by (simp add: published_units_def)

lemma same_runtime_refl [simp]: "same_runtime s s"
  by (simp add: same_runtime_def)

lemma same_runtime_trans [trans]: "same_runtime s t \<Longrightarrow> same_runtime t v \<Longrightarrow> same_runtime s v"
  by (simp add: same_runtime_def)

lemma same_runtime_note [simp]:
  "same_runtime s (note_exchange out tr t) = same_runtime s t" "same_runtime (note_exchange out tr t) s = same_runtime t s"
  by (simp_all add: same_runtime_def note_exchange_def)

lemma send_command_facts:
  assumes "send_command w cmd s = (r, s')"
  shows "same_runtime s s'" "co_exchanges s' = co_exchanges s"
    "published_units (co_commands s') = published_units (co_commands s) @ (if r = SendTaken then published_units [cmd] else [])"
  using assms by (auto simp: send_command_def same_runtime_def published_units_def)

lemma publish_units_facts:
  assumes "publish_units w us s = (r, s')"
  shows "same_runtime s s' \<and> co_exchanges s' = co_exchanges s \<and> r \<noteq> Some TxCompleted \<and> r \<noteq> Some ContinuationRequired \<and>
    (r = None \<longrightarrow> published_units (co_commands s') = published_units (co_commands s) @ us)"
  using assms
proof (induction us arbitrary: s)
  case (Cons u us)
  obtain e s1 where e: "send_command w (PublishCommand (CanonicalUnitPayload u)) s = (e, s1)" by (metis prod.exhaust)
  note f = send_command_facts [OF e]
  show ?case
  proof (cases e)
    case SendTaken
    with Cons.prems e have "publish_units w us s1 = (r, s')" by simp
    from Cons.IH [OF this] f SendTaken show ?thesis
      by (auto simp: published_units_def intro: same_runtime_trans)
  qed (use Cons.prems e f in auto)
qed simp

lemma read_outputs_publishes:
  "published_units (snd (read_outputs json codec ids waits n evs rep)) = []"
proof (induction evs arbitrary: n rep)
  case (Cons ev evs)
  then show ?case
    by (cases ev) (auto simp: published_units_def Let_def split_beta split: read_wait.split)
qed (auto simp: published_units_def split: read_wait.split)

lemma loop_publishes: "published_units (snd (run_supervised_loop json codec ids lp units)) = []"
proof -
  have "published_units [] = []" by (simp add: published_units_def)
  then show ?thesis
    using read_outputs_publishes
    unfolding run_supervised_loop_def Let_def split_beta
    by (auto split: option.split sum.split prod.split)
qed

lemma run_pass_facts:
  assumes "run_pass json codec p w n xid session units s = (r, s')"
  shows "same_runtime s s'" "co_exchanges s' = co_exchanges s" "published_units (co_commands s') = published_units (co_commands s)"
    "\<exists>cmds. pass_result json codec p w n xid session units = (r, cmds)"
proof -
  obtain r' cmds where x: "pass_result json codec p w n xid session units = (r', cmds)" by (metis prod.exhaust)
  have "published_units (snd (pass_result json codec p w n xid session units)) = []"
    by (simp add: pass_result_def Let_def run_supervised_empty_loop_def run_supervised_tool_loop_def loop_publishes)
  with x assms show "same_runtime s s'" "co_exchanges s' = co_exchanges s" "published_units (co_commands s') = published_units (co_commands s)"
    "\<exists>cmds. pass_result json codec p w n xid session units = (r, cmds)"
    by (auto simp: run_pass_def same_runtime_def)
qed

lemma loop_error_kind_not: "loop_error_kind e \<noteq> TxCompleted" "loop_error_kind e \<noteq> ContinuationRequired"
  by (cases e; simp add: loop_error_kind_def)+

section \<open>The rounds of a continuation\<close>

text \<open>One round: it stops before the exchange, or it runs one and fails, ends or goes on.\<close>

lemma round_cases:
  assumes "continuation_rounds json codec p live w session (Suc rounds) messages units results u s = (kind, s')"
  obtains
    (stop) "kind \<noteq> TxCompleted" "kind \<noteq> ContinuationRequired" "s' = s"
  | (exchange) messages' out tr s1 where
      "exchanges_used u < max_provider_exchanges (cp_limits p)"
      "append_tool_round json messages units results = Some messages'"
      "run_direct_llm_continuation (cw_exchange_id w (length (co_exchanges s))) (max_continuation_context_bytes (cp_limits p))
         (channel_exchange_limits live p u)
         (encode_tool_continuation (live_encoder live)
            \<lparr>con_context = messages', con_results = results, con_config = cp_config p, con_tools = tool_specs p\<rparr>)
         (cw_exchange w (length (co_exchanges s))) = (out, tr)"
      "same_runtime s s1" "co_exchanges s1 = co_exchanges s @ [\<lparr>xr_outcome = out, xr_trace = tr\<rparr>]"
      "xo_terminal out \<noteq> TxCompleted \<and> kind = xo_terminal out \<and> s' = s1
       \<or> xo_terminal out = TxCompleted \<and> kind \<notin> {TxCompleted, ContinuationRequired} \<and> s' = s1
       \<or> xo_terminal out = TxCompleted \<and> kind = TxCompleted \<and> s' = s1 \<and>
         published_units (co_commands s1) = published_units (co_commands s)
           @ scope_tool_units_for_exchange (cw_exchange_id w (length (co_exchanges s))) (xo_units out) \<and>
         \<not> needs_loop_dispatch (scope_tool_units_for_exchange (cw_exchange_id w (length (co_exchanges s))) (xo_units out))
       \<or> xo_terminal out = TxCompleted \<and>
         published_units (co_commands s1) = published_units (co_commands s)
           @ scope_tool_units_for_exchange (cw_exchange_id w (length (co_exchanges s))) (xo_units out) \<and>
         (\<exists>rep cmds. pass_result json codec p w (length (co_exchanges s)) (cw_exchange_id w (length (co_exchanges s))) session
              (scope_tool_units_for_exchange (cw_exchange_id w (length (co_exchanges s))) (xo_units out)) = (Ok rep, cmds) \<and>
            tool_results rep \<noteq> [] \<and>
            continuation_rounds json codec p live w session rounds messages'
              (scope_tool_units_for_exchange (cw_exchange_id w (length (co_exchanges s))) (xo_units out)) (tool_results rep)
              (use_exchange out u) s1 = (kind, s'))"
proof -
  let ?n = "length (co_exchanges s)" and ?l = "channel_exchange_limits live p u"
  let ?xid = "cw_exchange_id w ?n"
  show thesis
  proof (cases "cw_round_expired w ?n \<or> exchanges_used u \<ge> max_provider_exchanges (cp_limits p)
      \<or> append_tool_round json messages units results = None \<or> xl_remaining_input ?l = 0 \<or> xl_remaining_output ?l = 0")
    case True
    then show thesis
      using assms by (auto simp: Let_def continuation_context_try_new_def split: option.splits if_splits intro!: stop)
  next
    case False
    then obtain ms where ms: "append_tool_round json messages units results = Some ms" by auto
    then have ne: "ms \<noteq> []" by (auto simp: append_tool_round_def split: option.splits if_splits prod.splits)
    obtain out tr where x: "run_direct_llm_continuation ?xid (max_continuation_context_bytes (cp_limits p)) ?l
        (encode_tool_continuation (live_encoder live)
          \<lparr>con_context = ms, con_results = results, con_config = cp_config p, con_tools = tool_specs p\<rparr>) (cw_exchange w ?n) = (out, tr)"
      by (metis prod.exhaust)
    let ?sc = "scope_tool_units_for_exchange ?xid (xo_units out)"
    obtain r s2 where pu: "publish_units w ?sc (note_exchange out tr s) = (r, s2)" by (metis prod.exhaust)
    obtain q s3 where rp: "run_pass json codec p w ?n ?xid session ?sc s2 = (q, s3)" by (metis prod.exhaust)
    have body: "(kind, s') =
      (if xo_terminal out \<noteq> TxCompleted then (xo_terminal out, note_exchange out tr s)
       else case r of Some k \<Rightarrow> (k, s2)
            | None \<Rightarrow> if \<not> needs_loop_dispatch ?sc then (TxCompleted, s2)
                else case q of Inl e \<Rightarrow> (loop_error_kind e, s3)
                     | Inr rep \<Rightarrow> if tool_results rep = [] then (InvariantFailed, s3)
                         else continuation_rounds json codec p live w session rounds ms ?sc (tool_results rep) (use_exchange out u) s3)"
      using assms False ms ne x pu rp
      by (simp add: Let_def continuation_context_try_new_def split: option.splits if_splits sum.splits)
    note P = publish_units_facts [OF pu] and R = run_pass_facts [OF rp] and E = loop_error_kind_not
    have used: "exchanges_used u < max_provider_exchanges (cp_limits p)" using False by simp
    have n1: "co_exchanges (note_exchange out tr s) = co_exchanges s @ [\<lparr>xr_outcome = out, xr_trace = tr\<rparr>]"
      "co_commands (note_exchange out tr s) = co_commands s" "same_runtime s (note_exchange out tr s)"
      by (simp_all add: note_exchange_def same_runtime_def)
    note go = exchange [OF used ms x]
    show thesis
    proof (cases "xo_terminal out = TxCompleted \<and> r = None \<and> needs_loop_dispatch ?sc")
      case True
      have s3: "same_runtime s s3" "co_exchanges s3 = co_exchanges s @ [\<lparr>xr_outcome = out, xr_trace = tr\<rparr>]"
        "published_units (co_commands s3) = published_units (co_commands s) @ ?sc"
        using P R n1 True by (auto intro: same_runtime_trans)
      with True body R(4) E show thesis
        by (intro go [OF s3(1,2)]) (auto split: sum.splits if_splits)
    next
      case False
      show thesis
      proof (cases "xo_terminal out = TxCompleted")
        case True
        have s2: "same_runtime s s2" "co_exchanges s2 = co_exchanges s @ [\<lparr>xr_outcome = out, xr_trace = tr\<rparr>]"
          "r = None \<longrightarrow> published_units (co_commands s2) = published_units (co_commands s) @ ?sc"
          using P n1 by (auto intro: same_runtime_trans)
        with True False body P show thesis
          by (intro go [OF s2(1,2)]) (auto split: option.splits if_splits)
      next
        case False
        with body n1 show thesis by (intro go [OF n1(3,1)]) auto
      qed
    qed
  qed
qed

section \<open>The provider budget\<close>

definition body_bytes :: "exchange_action list \<Rightarrow> nat" where
  "body_bytes tr = sum_list (map length (bodies_sent tr))"

definition body_total :: "exchange_record list \<Rightarrow> nat" where
  "body_total ex = sum_list (map (\<lambda>r. body_bytes (xr_trace r)) ex)"

definition output_total :: "exchange_record list \<Rightarrow> nat" where
  "output_total ex = sum_list (map (\<lambda>r. received_output_bytes (xr_outcome r)) ex)"

text \<open>An exchange stays within its limits; a failed one reports no bytes.\<close>

definition exchange_within :: "exchange_limits \<Rightarrow> direct_exchange_outcome \<Rightarrow> exchange_action list \<Rightarrow> bool" where
  "exchange_within l out tr \<longleftrightarrow>
     body_bytes tr \<le> xl_remaining_input l \<and> received_output_bytes out \<le> xl_remaining_output l \<and>
     encoded_input_bytes out \<le> xl_remaining_input l \<and>
     (xo_terminal out = TxCompleted \<longrightarrow> body_bytes tr \<le> encoded_input_bytes out)"

lemma to_terminal_fails [simp]: "to_terminal f \<noteq> TxCompleted" "to_terminal f \<noteq> ContinuationRequired"
  by (cases f; simp)+

lemma exchange_outcome_simps [simp]:
  "exchange_outcome xid (Ok ok) = \<lparr>xo_units = ok_units ok, xo_terminal = TxCompleted, xo_exchange = xid,
     xo_external_session = ok_session ok, encoded_input_bytes = ok_input_bytes ok, received_output_bytes = ok_output_bytes ok\<rparr>"
  "exchange_outcome xid (Err f) = failed_outcome xid (to_terminal f)"
  by (simp_all add: exchange_outcome_def)

lemma encoded_within:
  assumes "run_encoded_exchange (xl_retained l) (xl_remaining_output l) enc gate w s = (r, tr, s')"
    and "\<not> budget_exceeded l enc" and "xl_remaining_output l < usize_max"
  shows "exchange_within l (exchange_outcome xid r) tr"
proof -
  have "bodies_sent tr \<in> {[], [exchange_bytes enc]}"
    using exchange_bodies [of "xl_retained l" "xl_remaining_output l" enc gate w s] by (auto simp: assms(1) exchange_trace_def)
  then have "body_bytes tr \<le> length (exchange_bytes enc)" by (auto simp: body_bytes_def)
  moreover have "r = Ok ok \<Longrightarrow> ok_input_bytes ok = length (exchange_bytes enc) \<and> ok_output_bytes ok \<le> xl_remaining_output l" for ok
    using exchange_usage [of "xl_retained l" "xl_remaining_output l" enc gate w s ok tr s'] assms by simp
  ultimately show ?thesis
    using assms(2)
    by (cases r) (auto simp: exchange_within_def budget_exceeded_def failed_outcome_def)
qed

lemma failed_within: "exchange_within l (failed_outcome xid k) []"
  by (simp add: exchange_within_def failed_outcome_def body_bytes_def)

lemma outcome_exchange: "xo_exchange (exchange_outcome xid r) = xid" "xo_exchange (failed_outcome xid k) = xid"
  by (cases r) (simp_all add: failed_outcome_def)

lemma continuation_within:
  assumes "run_direct_llm_continuation xid ctx l encoding w = (out, tr)" and "xl_remaining_output l < usize_max"
  shows "exchange_within l out tr \<and> xo_exchange out = xid"
  using assms encoded_within [OF _ _ assms(2)]
  by (auto simp: run_direct_llm_continuation_def outcome_exchange failed_within split: sum.splits if_splits prod.splits)

lemma first_within:
  assumes "run_direct_llm_exchange xid l encoding gate w s = (out, tr, s')" and "xl_remaining_output l < usize_max"
  shows "exchange_within l out tr \<and> xo_exchange out = xid"
  using assms encoded_within [OF _ _ assms(2)]
  by (auto simp: run_direct_llm_exchange_def exchange_run_inner_def outcome_exchange failed_within split: sum.splits if_splits prod.splits)

definition sane_limits :: "transaction_limits \<Rightarrow> bool" where
  "sane_limits l \<longleftrightarrow>
     max_provider_exchanges l \<le> usize_max \<and> max_total_provider_input_bytes l < usize_max \<and> max_total_provider_output_bytes l < usize_max"

definition within_budget :: "transaction_limits \<Rightarrow> nat \<Rightarrow> exchange_record list \<Rightarrow> bool" where
  "within_budget l n ex \<longleftrightarrow>
     length ex \<le> n \<and> length ex \<le> max_provider_exchanges l \<and> body_total ex \<le> max_total_provider_input_bytes l \<and>
     output_total ex \<le> max_total_provider_output_bytes l"

text \<open>The counters of a continuation cover the exchanges before it.\<close>

definition usage_covers :: "transaction_limits \<Rightarrow> provider_usage \<Rightarrow> exchange_record list \<Rightarrow> bool" where
  "usage_covers l u ex \<longleftrightarrow>
     length ex = exchanges_used u \<and> exchanges_used u \<le> max_provider_exchanges l \<and>
     body_total ex \<le> provider_input_used u \<and> provider_input_used u \<le> max_total_provider_input_bytes l \<and>
     output_total ex \<le> provider_output_used u \<and> provider_output_used u \<le> max_total_provider_output_bytes l"

lemma covers_within: "usage_covers l u ex \<Longrightarrow> length ex \<le> n \<Longrightarrow> within_budget l n ex"
  by (auto simp: usage_covers_def within_budget_def)

lemma covers_step:
  assumes "usage_covers (cp_limits p) u ex" and "exchange_within (channel_exchange_limits live p u) out tr"
    and "exchanges_used u < max_provider_exchanges (cp_limits p)" and "sane_limits (cp_limits p)"
  shows "within_budget (cp_limits p) (Suc (length ex)) (ex @ [\<lparr>xr_outcome = out, xr_trace = tr\<rparr>])"
    and "xo_terminal out = TxCompleted \<Longrightarrow> usage_covers (cp_limits p) (use_exchange out u) (ex @ [\<lparr>xr_outcome = out, xr_trace = tr\<rparr>])"
  using assms
  by (auto simp: usage_covers_def within_budget_def exchange_within_def channel_exchange_limits_def use_exchange_def body_total_def
      output_total_def sane_limits_def saturating_add_def)

lemma rounds_within:
  assumes "sane_limits (cp_limits p)"
  shows "usage_covers (cp_limits p) u (co_exchanges s)
    \<Longrightarrow> continuation_rounds json codec p live w session rounds messages units results u s = (kind, s')
    \<Longrightarrow> within_budget (cp_limits p) (length (co_exchanges s) + rounds) (co_exchanges s')"
proof (induction rounds arbitrary: messages units results u s)
  case 0
  then show ?case by (auto intro: covers_within)
next
  case (Suc rounds)
  from Suc.prems(2) show ?case
  proof (cases rule: round_cases)
    case stop
    with Suc.prems(1) show ?thesis by (auto intro: covers_within)
  next
    case (exchange messages' out tr s1)
    have "xl_remaining_output (channel_exchange_limits live p u) < usize_max"
      using assms by (auto simp: channel_exchange_limits_def sane_limits_def)
    with exchange(3) have w: "exchange_within (channel_exchange_limits live p u) out tr" using continuation_within by blast
    note step = covers_step [OF Suc.prems(1) w exchange(1) assms]
    have "s' = s1 \<Longrightarrow> ?thesis" using step(1) exchange(5) by (auto simp: within_budget_def)
    moreover have "xo_terminal out = TxCompleted \<Longrightarrow>
        continuation_rounds json codec p live w session rounds ms us rs (use_exchange out u) s1 = (kind, s') \<Longrightarrow> ?thesis" for ms us rs
      using Suc.IH [of "use_exchange out u" s1] step(2) exchange(5) by fastforce
    ultimately show ?thesis using exchange(6) by blast
  qed
qed

lemma finish_cases:
  assumes "finish_after_exchange json codec p live w session already out s = (kind, s')"
  obtains
    (plain) "same_runtime s s'" "co_exchanges s' = co_exchanges s"
      "kind \<in> {TxCompleted, ContinuationRequired} \<Longrightarrow> xo_terminal out \<in> {TxCompleted, ContinuationRequired}"
      "kind = TxCompleted \<Longrightarrow> published_units (co_commands s') = published_units (co_commands s)
         @ scope_tool_units_for_exchange (xo_exchange out) (xo_units out)"
      "kind = TxCompleted \<Longrightarrow> bind_tool_mode (live_binding live) \<noteq> McpGateway
         \<Longrightarrow> \<not> needs_loop_dispatch (scope_tool_units_for_exchange (xo_exchange out) (xo_units out))"
      "kind = TxCompleted \<Longrightarrow> xo_terminal out = TxCompleted"
  | (continue) rep cmds s1 where
      "xo_terminal out = TxCompleted" "same_runtime s s1" "co_exchanges s1 = co_exchanges s"
      "published_units (co_commands s1) = published_units (co_commands s) @ scope_tool_units_for_exchange (xo_exchange out) (xo_units out)"
      "pass_result json codec p w 0 (xo_exchange out) session (scope_tool_units_for_exchange (xo_exchange out) (xo_units out)) = (Ok rep, cmds)"
      "tool_results rep \<noteq> []"
      "continuation_rounds json codec p live w session (max_continuations (cp_limits p)) (cp_input p)
         (scope_tool_units_for_exchange (xo_exchange out) (xo_units out)) (tool_results rep) (provider_usage_after_exchange out) s1
       = (kind, s')"
      "bind_tool_mode (live_binding live) \<noteq> McpGateway"
proof -
  let ?sc = "scope_tool_units_for_exchange (xo_exchange out) (xo_units out)"
  obtain e s0 where es: "establish_late w already out s = (e, s0)" by (metis prod.exhaust)
  have E: "same_runtime s s0" "co_exchanges s0 = co_exchanges s" "published_units (co_commands s0) = published_units (co_commands s)"
    "e \<noteq> Some TxCompleted" "e \<noteq> Some ContinuationRequired"
    using es send_command_facts [of w "EstablishExternal (the (xo_external_session out))" s]
    by (auto simp: establish_late_def published_units_def split: bool.splits option.splits prod.splits send_end.splits)
  show thesis
  proof (cases e)
    case (Some k)
    with assms es have "kind = k" "s' = s0" by (simp_all add: finish_after_exchange_def)
    with E Some show thesis by (intro plain) auto
  next
    case None
    obtain f s1 where pu: "publish_units w ?sc s0 = (f, s1)" by (metis prod.exhaust)
    obtain q s2 where rp: "run_pass json codec p w 0 (xo_exchange out) session ?sc s1 = (q, s2)" by (metis prod.exhaust)
    note P = publish_units_facts [OF pu] and R = run_pass_facts [OF rp]
    let ?t = "unwrap_or (xo_terminal out) f"
    have body: "(kind, s') =
        (if bind_tool_mode (live_binding live) = McpGateway \<or> \<not> (?t \<in> {TxCompleted, ContinuationRequired} \<and> needs_loop_dispatch ?sc)
         then (?t, s1)
         else case q of Inl e \<Rightarrow> (loop_error_kind e, s2)
              | Inr rep \<Rightarrow> if ?t = TxCompleted
                  then (case eff_continuation_policy (cp_config p) of CallerControlled \<Rightarrow> (ContinuationRequired, s2)
                        | InlineToolContinuation \<Rightarrow> run_inline_tool_continuation json codec p live w session rep ?sc
                            (provider_usage_after_exchange out) s2)
                  else (?t, s2))"
      using assms es None pu rp
      by (auto simp: finish_after_exchange_def Let_def split: sum.splits if_splits)
    have t: "?t \<in> {TxCompleted, ContinuationRequired} \<Longrightarrow> f = None" using P by (cases f) auto
    have s1: "same_runtime s s1" "co_exchanges s1 = co_exchanges s"
      "f = None \<Longrightarrow> published_units (co_commands s1) = published_units (co_commands s) @ ?sc"
      using P E by (auto intro: same_runtime_trans)
    have s2: "same_runtime s s2" "co_exchanges s2 = co_exchanges s"
      "f = None \<Longrightarrow> published_units (co_commands s2) = published_units (co_commands s) @ ?sc"
      using s1 R by (auto intro: same_runtime_trans)
    show thesis
    proof (cases "bind_tool_mode (live_binding live) = McpGateway \<or> \<not> (?t \<in> {TxCompleted, ContinuationRequired} \<and> needs_loop_dispatch ?sc)")
      case True
      with body have "kind = ?t" "s' = s1" by auto
      with True s1 t show thesis by (intro plain) (auto split: option.splits)
    next
      case False
      then have f: "f = None" and xt: "xo_terminal out \<in> {TxCompleted, ContinuationRequired}" using t by auto
      show thesis
      proof (cases "\<exists>rep. q = Inr rep \<and> xo_terminal out = TxCompleted
          \<and> eff_continuation_policy (cp_config p) = InlineToolContinuation \<and> tool_results rep \<noteq> []")
        case True
        then obtain rep where q: "q = Inr rep" "xo_terminal out = TxCompleted"
          "eff_continuation_policy (cp_config p) = InlineToolContinuation" "tool_results rep \<noteq> []" by auto
        then obtain cmds where c: "pass_result json codec p w 0 (xo_exchange out) session ?sc = (Ok rep, cmds)" using R(4) by blast
        show thesis
          using body False q f
          by (intro continue [OF q(2) s2(1,2) s2(3) [OF f] c q(4)]) (auto simp: run_inline_tool_continuation_def)
      next
        case c: False
        then have "s' = s2" "kind \<noteq> TxCompleted"
          using body False f loop_error_kind_not
          by (auto simp: run_inline_tool_continuation_def split: sum.splits if_splits continuation_policy.splits)
        with s2 xt show thesis by (intro plain) auto
      qed
    qed
  qed
qed

section \<open>The run as a whole\<close>

definition no_usage :: provider_usage where
  "no_usage = \<lparr>exchanges_used = 0, provider_input_used = 0, provider_output_used = 0\<rparr>"

text \<open>What the theorems below see of a state: the exchanges and the published units.\<close>

definition same_record :: "coordinator_state \<Rightarrow> coordinator_state \<Rightarrow> bool" where
  "same_record s s' \<longleftrightarrow>
     co_exchanges s' = co_exchanges s \<and> published_units (co_commands s') = published_units (co_commands s)"

lemma same_record_refl [simp]: "same_record s s"
  by (simp add: same_record_def)

lemma activate_route_record: "same_record s (snd (activate_route ext token s))"
  by (auto simp: activate_route_def gate_failed_def same_record_def Let_def split: option.split sum.split prod.split)

lemma claim_gate_record: "same_record s (snd (claim_gate p live w mcp ext s))"
proof -
  have e: "same_record s (s\<lparr>co_ledger := L\<rparr>)" "same_record s (s\<lparr>co_ledger := L, co_commands := co_commands s @ [EstablishExternal x], co_dispatchers := d\<rparr>)"
    "same_record s (s\<lparr>co_ledger := L, co_commands := co_commands s @ [EstablishExternal x]\<rparr>)" for L x d
    by (simp_all add: same_record_def published_units_def)
  have t: "same_record s t \<Longrightarrow> same_record s (snd (activate_route x token t))" for t x token
    using activate_route_record [of t x token] by (simp add: same_record_def)
  show ?thesis
    by (auto simp: claim_gate_def gate_failed_def Let_def e intro!: t split: option.split sum.split prod.split ledger_insert_error.split)
qed

lemma revoke_mcp_record: "same_record s (revoke_mcp token s)"
  by (auto simp: revoke_mcp_def same_record_def split: option.split)

lemma install_mcp_record: "same_record s (snd (install_mcp p live w s))"
  by (auto simp: install_mcp_def same_record_def Let_def split: option.split sum.split prod.split)

lemma direct_state:
  assumes "run_direct_llm_exchange xid l encoding gate w s = (out, tr, s')"
  shows "s' = s \<or> (\<exists>c g. open_ends w = OpenOk c \<and> gate = Some g \<and> s' = snd (g (opened_session c) s))"
proof -
  have "s' = s \<or> (\<exists>enc. s' = snd (snd (run_encoded_exchange (xl_retained l) (xl_remaining_output l) enc gate w s)))"
    using assms by (auto simp: run_direct_llm_exchange_def exchange_run_inner_def split: sum.splits if_splits prod.splits) (metis snd_conv)
  then show ?thesis using exchange_state by metis
qed

lemma first_exchange_facts:
  assumes "first_exchange p live w gate s = (out, s')" and "gate = None \<or> gate = Some (claim_gate p live w mcp)"
    and "sane_limits (cp_limits p)"
  shows "\<exists>tr. co_exchanges s' = co_exchanges s @ [\<lparr>xr_outcome = out, xr_trace = tr\<rparr>]
      \<and> exchange_within (channel_exchange_limits live p no_usage) out tr"
    and "published_units (co_commands s') = published_units (co_commands s)" and "xo_exchange out = cw_exchange_id w 0"
proof -
  obtain tr s0 where x: "run_direct_llm_exchange (cw_exchange_id w 0) (channel_exchange_limits live p no_usage)
      (encode_initial (live_encoder live) \<lparr>ini_input = cp_input p, ini_config = cp_config p, ini_tools = tool_specs p\<rparr>)
      gate (cw_exchange w 0) s = (out, tr, s0)" and s': "s' = note_exchange out tr s0"
    using assms(1) by (auto simp: first_exchange_def no_usage_def split: prod.splits)
  have "xl_remaining_output (channel_exchange_limits live p no_usage) < usize_max"
    using assms(3) by (auto simp: channel_exchange_limits_def sane_limits_def)
  with first_within [OF x] have w: "exchange_within (channel_exchange_limits live p no_usage) out tr" "xo_exchange out = cw_exchange_id w 0"
    by simp_all
  have "same_record s s0" using direct_state [OF x] assms(2) claim_gate_record by auto
  with w s' show "\<exists>tr. co_exchanges s' = co_exchanges s @ [\<lparr>xr_outcome = out, xr_trace = tr\<rparr>]
      \<and> exchange_within (channel_exchange_limits live p no_usage) out tr"
    "published_units (co_commands s') = published_units (co_commands s)" "xo_exchange out = cw_exchange_id w 0"
    by (auto simp: same_record_def note_exchange_def)
qed

lemma execute_cases:
  assumes "execute json codec p w s = (kind, s')" and "sane_limits (cp_limits p)"
  obtains
    (none) "co_exchanges s' = co_exchanges s" "kind \<noteq> TxCompleted"
  | (run) live out tr session already s1 s2 where
      "map_of (cp_channels p) (cp_channel p) = Some live" "max_provider_exchanges (cp_limits p) \<noteq> 0"
      "co_exchanges s1 = co_exchanges s @ [\<lparr>xr_outcome = out, xr_trace = tr\<rparr>]"
      "exchange_within (channel_exchange_limits live p no_usage) out tr" "xo_exchange out = cw_exchange_id w 0"
      "published_units (co_commands s1) = published_units (co_commands s)"
      "finish_after_exchange json codec p live w session already out s1 = (kind, s2)" "same_record s2 s'"
proof (cases "map_of (cp_channels p) (cp_channel p)")
  case None
  with assms show thesis by (intro none) (auto simp: execute_def)
next
  case (Some live)
  show thesis
  proof (cases "cw_expired w \<or> max_provider_exchanges (cp_limits p) = 0")
    case True
    with Some assms(1) show thesis by (intro none) (auto simp: execute_def split: if_splits)
  next
    case ok: False
    show thesis
    proof (cases "bind_kind (live_binding live)")
      case DirectLlm
      obtain out s1 where x: "first_exchange p live w None s = (out, s1)" by (metis prod.exhaust)
      then have "finish_after_exchange json codec p live w (cp_session p) False out s1 = (kind, s')"
        using assms(1) Some ok DirectLlm by (simp add: execute_def run_direct_llm_def)
      with first_exchange_facts [OF x _ assms(2)] Some ok show thesis by (auto intro: run)
    next
      case ExternalAgent
      then have r: "run_external_agent json codec p live w s = (kind, s')" using assms(1) Some ok by (simp add: execute_def)
      obtain m sm where m: "install_mcp p live w s = (m, sm)" by (metis prod.exhaust)
      have rec: "same_record s sm" using install_mcp_record [of s p live w] by (simp add: m)
      show thesis
      proof (cases "\<exists>mcp. live_has_sessions live \<and> m = Inr mcp \<and> cw_attach w = Attached")
        case True
        then obtain mcp where mcp: "live_has_sessions live" "m = Inr mcp" "cw_attach w = Attached" by auto
        obtain out s1 where x: "first_exchange p live w (Some (claim_gate p live w mcp)) (sm\<lparr>co_claimed := (None, False)\<rparr>) = (out, s1)"
          by (metis prod.exhaust)
        have "\<exists>session already s2. finish_after_exchange json codec p live w session already out s1 = (kind, s2) \<and>
            s' = revoke_mcp (map_option fst mcp) s2"
          using r m mcp x by (auto simp: run_external_agent_def attached_exchange_def Let_def split: prod.splits)
        then obtain session already s2 where f: "finish_after_exchange json codec p live w session already out s1 = (kind, s2)"
          "s' = revoke_mcp (map_option fst mcp) s2" by blast
        obtain tr where "co_exchanges s1 = co_exchanges s @ [\<lparr>xr_outcome = out, xr_trace = tr\<rparr>]"
          "exchange_within (channel_exchange_limits live p no_usage) out tr" "xo_exchange out = cw_exchange_id w 0"
          "published_units (co_commands s1) = published_units (co_commands s)"
          using first_exchange_facts [OF x _ assms(2), where mcp = mcp] rec by (auto simp: same_record_def)
        with Some ok f revoke_mcp_record [of s2] show thesis by (intro run) auto
      next
        case False
        have "s' = s \<or> s' = sm \<or> (\<exists>token. s' = revoke_mcp token sm)" "kind \<noteq> TxCompleted"
          using r m False
          by (auto simp: run_external_agent_def install_mcp_def Let_def split: if_splits sum.splits attach_end.splits option.splits prod.splits)
        with rec revoke_mcp_record [of sm] show thesis by (intro none) (auto simp: same_record_def)
      qed
    qed
  qed
qed

text \<open>
  C8. However a transaction goes, it stays within the budget of its limits: it opens no more exchanges
  than the limit and no more continuations than the other limit; the request bodies that it really
  sends, the one of a failing exchange included, together have no more bytes than the total input;
  and what its exchanges report as received is within the total output.
\<close>

theorem provider_budget_kept:
  assumes "execute json codec p w s = (kind, s')" and "co_exchanges s = []" and "sane_limits (cp_limits p)"
  shows "length (co_exchanges s') \<le> max_provider_exchanges (cp_limits p)
    \<and> length (co_exchanges s') \<le> 1 + max_continuations (cp_limits p)
    \<and> body_total (co_exchanges s') \<le> max_total_provider_input_bytes (cp_limits p)
    \<and> output_total (co_exchanges s') \<le> max_total_provider_output_bytes (cp_limits p)"
proof -
  have "within_budget (cp_limits p) (1 + max_continuations (cp_limits p)) (co_exchanges s')"
    using assms(1,3)
  proof (cases rule: execute_cases)
    case none
    with assms(2) show ?thesis by (simp add: within_budget_def body_total_def output_total_def)
  next
    case (run live out tr session already s1 s2)
    have none: "usage_covers (cp_limits p) no_usage []"
      by (simp add: usage_covers_def no_usage_def body_total_def output_total_def)
    have lt: "exchanges_used no_usage < max_provider_exchanges (cp_limits p)" using run(2) by (simp add: no_usage_def)
    note step = covers_step [OF none run(4) lt assms(3)]
    have one: "co_exchanges s1 = [] @ [\<lparr>xr_outcome = out, xr_trace = tr\<rparr>]" using run(3) assms(2) by simp
    from run(7) have "within_budget (cp_limits p) (1 + max_continuations (cp_limits p)) (co_exchanges s2)"
    proof (cases rule: finish_cases)
      case plain
      with step(1) one show ?thesis by (simp add: within_budget_def)
    next
      case (continue rep cmds s3)
      have "use_exchange out no_usage = provider_usage_after_exchange out"
        using continue(1) run(4) assms(3)
        by (auto simp: use_exchange_def no_usage_def provider_usage_after_exchange_def saturating_add_def exchange_within_def
            channel_exchange_limits_def sane_limits_def usize_max_def)
      then have "usage_covers (cp_limits p) (provider_usage_after_exchange out) (co_exchanges s3)"
        using step(2) [OF continue(1)] one continue(3) by simp
      from rounds_within [OF assms(3) this continue(7)] one continue(3) show ?thesis by simp
    qed
    with run(8) show ?thesis by (simp add: same_record_def)
  qed
  then show ?thesis by (simp add: within_budget_def)
qed

section \<open>Completed transactions\<close>

definition pass_answered ::
  "json_codec \<Rightarrow> result_codec \<Rightarrow> coordinator_params \<Rightarrow> coordinator_world \<Rightarrow> string option \<Rightarrow> nat \<Rightarrow> exchange_record \<Rightarrow> bool" where
  "pass_answered json codec p w session n r \<longleftrightarrow>
     (\<exists>rep cmds. pass_result json codec p w n (xo_exchange (xr_outcome r)) session (exchange_units r) = (Ok rep, cmds) \<and>
        tool_results rep \<noteq> [])"

text \<open>The exchanges from the n-th on: all completed, all but the last one followed by a tool pass, the last one asking for nothing.\<close>

fun all_answered ::
  "json_codec \<Rightarrow> result_codec \<Rightarrow> coordinator_params \<Rightarrow> coordinator_world \<Rightarrow> string option \<Rightarrow> nat \<Rightarrow> exchange_record list \<Rightarrow> bool" where
  "all_answered json codec p w session n [] = False"
| "all_answered json codec p w session n [r] \<longleftrightarrow> exchange_completed r \<and> \<not> needs_loop_dispatch (exchange_units r)"
| "all_answered json codec p w session n (r # r' # rs) \<longleftrightarrow>
     exchange_completed r \<and> pass_answered json codec p w session n r \<and> all_answered json codec p w session (Suc n) (r' # rs)"

lemma all_answered_Cons:
  "exchange_completed r \<Longrightarrow> pass_answered json codec p w session n r \<Longrightarrow> all_answered json codec p w session (Suc n) rs
    \<Longrightarrow> all_answered json codec p w session n (r # rs)"
  by (cases rs) simp_all

lemma rounds_completed:
  assumes "sane_limits (cp_limits p)"
  shows "continuation_rounds json codec p live w session rounds messages units results u s = (TxCompleted, s')
    \<Longrightarrow> \<exists>ex. co_exchanges s' = co_exchanges s @ ex \<and>
        published_units (co_commands s') = published_units (co_commands s) @ concat (map exchange_units ex) \<and>
        all_answered json codec p w session (length (co_exchanges s)) ex"
proof (induction rounds arbitrary: messages units results u s)
  case (Suc rounds)
  from Suc.prems show ?case
  proof (cases rule: round_cases)
    case (exchange messages' out tr s1)
    let ?r = "\<lparr>xr_outcome = out, xr_trace = tr\<rparr>" and ?n = "length (co_exchanges s)"
    have "xl_remaining_output (channel_exchange_limits live p u) < usize_max"
      using assms by (auto simp: channel_exchange_limits_def sane_limits_def)
    with exchange(3) have "xo_exchange out = cw_exchange_id w ?n" using continuation_within by blast
    then have r: "exchange_units ?r = scope_tool_units_for_exchange (cw_exchange_id w ?n) (xo_units out)"
      "xo_exchange (xr_outcome ?r) = cw_exchange_id w ?n"
      by (simp_all add: exchange_units_def)
    show ?thesis
    proof (cases "s' = s1 \<and> \<not> needs_loop_dispatch (exchange_units ?r) \<and> xo_terminal out = TxCompleted \<and>
        published_units (co_commands s1) = published_units (co_commands s) @ exchange_units ?r")
      case True
      with exchange(5) show ?thesis by (intro exI [of _ "[?r]"]) (simp add: exchange_completed_def)
    next
      case False
      with exchange(6) r obtain rep cmds where c: "xo_terminal out = TxCompleted"
        "published_units (co_commands s1) = published_units (co_commands s) @ exchange_units ?r"
        "pass_result json codec p w ?n (cw_exchange_id w ?n) session (exchange_units ?r) = (Ok rep, cmds)" "tool_results rep \<noteq> []"
        "continuation_rounds json codec p live w session rounds messages' (exchange_units ?r) (tool_results rep) (use_exchange out u) s1
          = (TxCompleted, s')"
        by auto
      from Suc.IH [OF c(5)] obtain ex where ex: "co_exchanges s' = co_exchanges s1 @ ex"
        "published_units (co_commands s') = published_units (co_commands s1) @ concat (map exchange_units ex)"
        "all_answered json codec p w session (length (co_exchanges s1)) ex" by blast
      have "pass_answered json codec p w session ?n ?r" using c r by (auto simp: pass_answered_def)
      with c ex exchange(5) show ?thesis
        by (intro exI [of _ "?r # ex"]) (auto simp: exchange_completed_def intro: all_answered_Cons)
    qed
  qed simp
qed simp

text \<open>
  C7. A transaction that is proposed as completed has done what the model asked for. All its
  exchanges completed, and all their units, with ids scoped to their exchange, were taken by the
  publisher in order and nothing else was. Unless the channel is a gateway channel, every exchange
  but the last was followed by a tool pass that succeeded with results, and the last one asks for no
  tool. On a gateway channel, where the agent calls its tools itself, there is just one exchange.
\<close>

theorem completed_transaction_answered:
  assumes "execute json codec p w s = (TxCompleted, s')" and "co_exchanges s = []" and "sane_limits (cp_limits p)"
    and "map_of (cp_channels p) (cp_channel p) = Some live"
  shows "\<exists>session.
      (if bind_tool_mode (live_binding live) = McpGateway
       then \<exists>r. co_exchanges s' = [r] \<and> exchange_completed r
       else all_answered json codec p w session 0 (co_exchanges s'))
    \<and> published_units (co_commands s') = published_units (co_commands s) @ concat (map exchange_units (co_exchanges s'))"
  using assms(1,3)
proof (cases rule: execute_cases)
  case (run live' out tr session already s1 s2)
  let ?r = "\<lparr>xr_outcome = out, xr_trace = tr\<rparr>"
  have live: "live' = live" using run(1) assms(4) by simp
  have r: "exchange_units ?r = scope_tool_units_for_exchange (xo_exchange out) (xo_units out)" by (simp add: exchange_units_def)
  have one: "co_exchanges s1 = [?r]" using run(3) assms(2) by simp
  from run(7) have "(if bind_tool_mode (live_binding live) = McpGateway
       then \<exists>r. co_exchanges s2 = [r] \<and> exchange_completed r
       else all_answered json codec p w session 0 (co_exchanges s2)) \<and>
      published_units (co_commands s2) = published_units (co_commands s) @ concat (map exchange_units (co_exchanges s2))"
  proof (cases rule: finish_cases)
    case plain
    with one r run(6) live show ?thesis by (auto simp: exchange_completed_def)
  next
    case (continue rep cmds s3)
    from rounds_completed [OF assms(3) continue(7)] obtain ex where ex: "co_exchanges s2 = co_exchanges s3 @ ex"
      "published_units (co_commands s2) = published_units (co_commands s3) @ concat (map exchange_units ex)"
      "all_answered json codec p w session (length (co_exchanges s3)) ex" by blast
    moreover have "pass_answered json codec p w session 0 ?r" using continue r by (auto simp: pass_answered_def)
    ultimately show ?thesis
      using continue one r run(6) live by (auto simp: exchange_completed_def intro: all_answered_Cons)
  qed
  with run(8) show ?thesis by (auto simp: same_record_def)
qed simp

section \<open>Claim before prompt\<close>

lemma bind_session_held:
  "bind_session i k limit L = (None, L') \<Longrightarrow> transaction_for_session k L' = Some i"
  by (auto simp: bind_session_def transaction_for_session_def map_of_assoc_put Let_def split: option.splits if_splits)

lemma activate_active:
  assumes "activate token t = (Ok u, t')" and "table_wf t"
  shows "state_of token t' = Some McpActive"
proof -
  obtain b where b: "map_of (routes t) token = Some b" using assms(1) by (auto simp: activate_def split: option.splits)
  then have "mb_cell b < length (state_cells t)" using assms(2) by (auto simp: table_wf_def list_all_iff dest!: map_of_SomeD)
  with b assms(1) show ?thesis
    by (auto simp: activate_def state_of_def get_route_def binding_state_def split: mcp_binding_state.splits)
qed

definition gateway_sound :: "coordinator_state \<Rightarrow> bool" where
  "gateway_sound s \<longleftrightarrow> pred_option (\<lambda>g. table_wf (gw_table g)) (co_gateway s)"

definition claimed :: "coordinator_params \<Rightarrow> (capability_token \<times> nat) option \<Rightarrow> string \<Rightarrow> string \<Rightarrow> coordinator_state \<Rightarrow> coordinator_state \<Rightarrow> bool" where
  "claimed p mcp ext sid s s' \<longleftrightarrow>
     transaction_for_session \<lparr>key_channel = cp_channel p, key_session = sid\<rparr> (co_ledger s') = Some (cp_transaction p) \<and>
     co_commands s' = co_commands s @ [EstablishExternal ext] \<and>
     (\<forall>token d. mcp = Some (token, d) \<longrightarrow>
        (\<exists>g. co_gateway s' = Some g \<and> state_of token (gw_table g) = Some McpActive) \<and>
        disp_session (co_dispatchers s' ! d) = \<lparr>key_channel = cp_channel p, key_session = sid\<rparr>)"

lemma activate_route_ok:
  assumes "activate_route ext token s = (ProceedOk, s')" and "gateway_sound s"
  shows "co_ledger s' = co_ledger s \<and> co_commands s' = co_commands s \<and> co_dispatchers s' = co_dispatchers s \<and>
    (\<forall>t. token = Some t \<longrightarrow> (\<exists>g. co_gateway s' = Some g \<and> state_of t (gw_table g) = Some McpActive))"
proof (cases token)
  case None
  with assms show ?thesis by (auto simp: activate_route_def)
next
  case (Some t)
  then obtain g u t' where g: "co_gateway s = Some g" and a: "activate t (gw_table g) = (Ok u, t')"
    and s': "s' = s\<lparr>co_gateway := Some (g\<lparr>gw_table := t'\<rparr>), co_claimed := (Some ext, True)\<rparr>"
    using assms(1)
    by (auto simp: activate_route_def gate_failed_def gateway_activate_def Let_def split: option.splits prod.splits sum.splits)
  have "table_wf (gw_table g)" using assms(2) g by (simp add: gateway_sound_def)
  from activate_active [OF a this] Some s' show ?thesis by simp
qed

lemma claim_gate_ok:
  assumes "claim_gate p live w mcp external s = (ProceedOk, s')" and "gateway_sound s"
    and "pred_option (\<lambda>(_, d). d < length (co_dispatchers s)) mcp"
  shows "\<exists>ext sid. external = Some ext \<and> validated_string ext = Ok sid \<and> claimed p mcp ext sid s s'"
proof -
  obtain ext sid where x: "external = Some ext" "validated_string ext = Ok sid" "\<not> cw_gate_cancelled w"
    using assms(1) by (auto simp: claim_gate_def gate_failed_def split: option.splits if_splits sum.splits)
  let ?key = "\<lparr>key_channel = cp_channel p, key_session = sid\<rparr>"
  obtain e L where b: "bind_session (cp_transaction p) ?key (Some (ch_max_distinct_sessions (bind_limits (live_binding live)))) (co_ledger s) = (e, L)"
    by (metis prod.exhaust)
  define s1 where "s1 = s\<lparr>co_ledger := L, co_commands := co_commands s @ [EstablishExternal ext],
      co_dispatchers := (case mcp of Some (_, d) \<Rightarrow> (co_dispatchers s)[d := rebind_session ?key (co_dispatchers s ! d)] | None \<Rightarrow> co_dispatchers s)\<rparr>"
  have e: "e = None \<and> activate_route ext (map_option fst mcp) s1 = (ProceedOk, s')"
    using assms(1) x b unfolding s1_def
    by (cases e; cases mcp) (auto simp: claim_gate_def gate_failed_def Let_def split: if_splits ledger_insert_error.splits prod.splits)
  have "gateway_sound s1" using assms(2) by (simp add: s1_def gateway_sound_def)
  with e activate_route_ok have a: "co_ledger s' = L" "co_commands s' = co_commands s @ [EstablishExternal ext]"
    "co_dispatchers s' = co_dispatchers s1"
    "\<forall>t. map_option fst mcp = Some t \<longrightarrow> (\<exists>g. co_gateway s' = Some g \<and> state_of t (gw_table g) = Some McpActive)"
    by (auto simp: s1_def)
  have "transaction_for_session ?key L = Some (cp_transaction p)" using bind_session_held b e by blast
  moreover have "mcp = Some (token, d) \<Longrightarrow> disp_session (co_dispatchers s1 ! d) = ?key" for token d
    using assms(3) by (simp add: s1_def rebind_session_def)
  ultimately have "claimed p mcp ext sid s s'" using a by (simp add: claimed_def)
  with x show ?thesis by blast
qed

lemma first_prompt_claimed:
  assumes "first_exchange p live w (Some (claim_gate p live w mcp)) s = (out, s')"
    and "bodies_sent (xr_trace (last (co_exchanges s'))) \<noteq> []"
    and "gateway_sound s" and "pred_option (\<lambda>(_, d). d < length (co_dispatchers s)) mcp"
  shows "\<exists>c ext sid. open_ends (cw_exchange w 0) = OpenOk c \<and> opened_session c = Some ext \<and> validated_string ext = Ok sid \<and>
    claimed p mcp ext sid s s'"
proof -
  let ?enc = "encode_initial (live_encoder live) \<lparr>ini_input = cp_input p, ini_config = cp_config p, ini_tools = tool_specs p\<rparr>"
  let ?l = "channel_exchange_limits live p no_usage" and ?g = "claim_gate p live w mcp"
  obtain tr s0 where x: "run_direct_llm_exchange (cw_exchange_id w 0) ?l ?enc (Some ?g) (cw_exchange w 0) s = (out, tr, s0)"
    and s': "s' = note_exchange out tr s0"
    using assms(1) by (auto simp: first_exchange_def no_usage_def split: prod.splits)
  have tr: "bodies_sent tr \<noteq> []" using assms(2) s' by (simp add: note_exchange_def)
  then obtain enc r where "run_encoded_exchange (xl_retained ?l) (xl_remaining_output ?l) enc (Some ?g) (cw_exchange w 0) s = (r, tr, s0)"
    using x by (auto simp: run_direct_llm_exchange_def exchange_run_inner_def split: sum.splits if_splits prod.splits)
  then obtain c where c: "open_ends (cw_exchange w 0) = OpenOk c" "?g (opened_session c) s = (ProceedOk, s0)"
    using tr by (elim exchange_prompted) blast
  from claim_gate_ok [OF c(2) assms(3,4)] c(1) s' show ?thesis
    by (auto simp: claimed_def note_exchange_def)
qed

lemma install_mcp_sound:
  assumes "install_mcp p live w s = (Ok mcp, s')" and "gateway_sound s"
  shows "gateway_sound s' \<and> pred_option (\<lambda>(_, d). d < length (co_dispatchers s')) mcp \<and> (mcp \<noteq> None \<longleftrightarrow> wants_mcp p live)"
proof (cases "wants_mcp p live")
  case True
  with assms(1) obtain g where g: "co_gateway s = Some g" by (auto simp: install_mcp_def split: option.splits)
  obtain r t where i: "install_pending_with_deadline (cp_transaction p) (resolved_set p) (length (co_dispatchers s))
      (cw_exchange_id w 0) (gw_base_url g) (cp_deadline p) (cw_entropy w) (gw_table g) = (r, t)" by (metis prod.exhaust)
  have "table_wf t" using install_wf [OF i] assms(2) g by (simp add: gateway_sound_def)
  with True assms(1) g i show ?thesis
    by (auto simp: install_mcp_def gateway_install_def gateway_sound_def Let_def split: sum.splits)
qed (use assms in \<open>auto simp: install_mcp_def\<close>)

lemma rounds_append:
  "continuation_rounds json codec p live w session rounds messages units results u s = (kind, s')
    \<Longrightarrow> prefix (co_exchanges s) (co_exchanges s')"
proof (induction rounds arbitrary: messages units results u s)
  case (Suc rounds)
  from Suc.prems show ?case
  proof (cases rule: round_cases)
    case (exchange messages' out tr s1)
    with Suc.IH show ?thesis by (force simp: prefix_def)
  qed simp
qed simp

lemma finish_append:
  assumes "finish_after_exchange json codec p live w session already out s = (kind, s')"
  shows "prefix (co_exchanges s) (co_exchanges s')"
  using assms
proof (cases rule: finish_cases)
  case (continue rep cmds s1)
  with rounds_append [OF continue(7)] show ?thesis by simp
qed simp

text \<open>
  C9. An external agent is first prompted only under a claimed session. When the first exchange of
  a transaction on an external channel sends its body, whatever becomes of the transaction
  afterwards: a route for its tools was installed if the channel has a gateway for them; the agent
  was attached; the connection has reported a session; the ledger holds that session for this
  transaction; the publisher has taken its establishment before anything else of the exchange; and
  the route is active, with the dispatcher behind it already bound to that session.
\<close>

theorem prompt_after_claim:
  assumes "execute json codec p w s = (kind, s')" and "co_exchanges s = []"
    and "map_of (cp_channels p) (cp_channel p) = Some live" and "bind_kind (live_binding live) = ExternalAgent"
    and "co_exchanges s' = x # xs" and "bodies_sent (xr_trace x) \<noteq> []" and "gateway_sound s"
  shows "\<exists>mcp s0 out s1 c ext sid. install_mcp p live w s = (Ok mcp, s0) \<and> (mcp \<noteq> None \<longleftrightarrow> wants_mcp p live) \<and> cw_attach w = Attached \<and>
    first_exchange p live w (Some (claim_gate p live w mcp)) (s0\<lparr>co_claimed := (None, False)\<rparr>) = (out, s1) \<and> co_exchanges s1 = [x] \<and>
    open_ends (cw_exchange w 0) = OpenOk c \<and> opened_session c = Some ext \<and> validated_string ext = Ok sid \<and> claimed p mcp ext sid s0 s1"
proof -
  obtain m s0 where m: "install_mcp p live w s = (m, s0)" by (metis prod.exhaust)
  have e0: "co_exchanges s0 = []" using install_mcp_record [of s p live w] m assms(2) by (simp add: same_record_def)
  have keep: "co_exchanges (revoke_mcp tok t) = co_exchanges t" for tok t using revoke_mcp_record [of t tok] by (simp add: same_record_def)
  have r: "run_external_agent json codec p live w s = (kind, s')" "live_has_sessions live"
    using assms(1-5) by (auto simp: execute_def run_external_agent_def split: if_splits)
  then obtain mcp where mcp: "m = Ok mcp" "cw_attach w = Attached"
    using m assms(5) e0 keep by (cases m) (auto simp: run_external_agent_def split: attach_end.splits)
  let ?s = "s0\<lparr>co_claimed := (None, False)\<rparr>"
  obtain out s1 where f: "first_exchange p live w (Some (claim_gate p live w mcp)) ?s = (out, s1)" by (metis prod.exhaust)
  obtain session already s2 where fin: "finish_after_exchange json codec p live w session already out s1 = (kind, s2)"
    "s' = revoke_mcp (map_option fst mcp) s2"
    using r m mcp f by (auto simp: run_external_agent_def attached_exchange_def Let_def split: prod.splits)
  obtain tr t where "s1 = note_exchange out tr t" "same_record ?s t"
    using f direct_state claim_gate_record by (fastforce simp: first_exchange_def split: prod.splits)
  then have "\<exists>y. co_exchanges s1 = [y]" using e0 by (auto simp: note_exchange_def same_record_def)
  with finish_append [OF fin(1)] fin(2) assms(5) keep have x: "co_exchanges s1 = [x]" by (auto simp: prefix_def)
  note sound = install_mcp_sound [OF m [unfolded mcp(1)] assms(7)]
  have "gateway_sound ?s" "pred_option (\<lambda>(_, d). d < length (co_dispatchers ?s)) mcp" using sound by (simp_all add: gateway_sound_def)
  from first_prompt_claimed [OF f _ this] x assms(6)
  obtain c ext sid where "open_ends (cw_exchange w 0) = OpenOk c" "opened_session c = Some ext" "validated_string ext = Ok sid"
    "claimed p mcp ext sid ?s s1" by auto
  moreover from this(4) have "claimed p mcp ext sid s0 s1" by (simp add: claimed_def)
  ultimately show ?thesis using m mcp f x sound by blast
qed

section \<open>No route is left\<close>

lemma rounds_runtime:
  "continuation_rounds json codec p live w session rounds messages units results u s = (kind, s') \<Longrightarrow> same_runtime s s'"
proof (induction rounds arbitrary: messages units results u s)
  case (Suc rounds)
  from Suc.prems show ?case
  proof (cases rule: round_cases)
    case (exchange messages' out tr s1)
    with Suc.IH show ?thesis by (auto intro: same_runtime_trans)
  qed simp
qed simp

lemma finish_runtime:
  assumes "finish_after_exchange json codec p live w session already out s = (kind, s')"
  shows "same_runtime s s'"
  using assms
proof (cases rule: finish_cases)
  case (continue rep cmds s1)
  with rounds_runtime show ?thesis by (blast intro: same_runtime_trans)
qed simp

text \<open>The table while the transaction has its route, in the given state.\<close>

definition with_route :: "mcp_table \<Rightarrow> capability_token \<Rightarrow> mcp_binding_state \<Rightarrow> mcp_table \<Rightarrow> bool" where
  "with_route t token x t' \<longleftrightarrow>
     (\<exists>b. mb_cell b = length (state_cells t) \<and> routes t' = routes t @ [(token, b)] \<and> state_cells t' = state_cells t @ [x])"

lemma install_with_route:
  assumes "install_pending_with_deadline tx tools d x url dl (Some token) t = (r, t')" and "length token = 32"
    and "map_of (routes t) token = None" and "length url \<le> 443"
  shows "(\<exists>e. r = Err e) \<and> t' = t \<or> (\<exists>b. r = Ok b \<and> pending_token b = token) \<and> with_route t token McpPending t'"
  using assms descriptor_fits [OF assms(4,2)]
  by (auto simp: install_pending_with_deadline_def generate_token_def with_route_def assoc_put_append Let_def
      split: if_splits option.splits)

lemma activate_with_route:
  assumes "activate token t' = (r, t'')" and "with_route t token x t'" and "map_of (routes t) token = None"
  shows "\<exists>y. with_route t token y t''"
proof -
  obtain b where b: "mb_cell b = length (state_cells t)" "routes t' = routes t @ [(token, b)]" "state_cells t' = state_cells t @ [x]"
    using assms(2) by (auto simp: with_route_def)
  then have "map_of (routes t') token = Some b" using assms(3) by (simp add: map_add_def)
  with assms(1,2) b show ?thesis
    by (cases x) (auto simp: activate_def binding_state_def with_route_def intro!: exI [of _ b])
qed

lemma revoke_with_route:
  assumes "with_route t token x t'" and "map_of (routes t) token = None"
  shows "routes (snd (revoke token t')) = routes t \<and> state_cells (snd (revoke token t')) = state_cells t @ [McpRevoked]"
proof -
  obtain b where b: "mb_cell b = length (state_cells t)" "routes t' = routes t @ [(token, b)]" "state_cells t' = state_cells t @ [x]"
    using assms(1) by (auto simp: with_route_def)
  then have m: "map_of (routes t') token = Some b" using assms(2) by (simp add: map_add_def)
  have "assoc_del token (routes t) = routes t"
    using assms(2) by (force simp: assoc_del_def filter_id_conv map_of_fst_None)
  then have "assoc_del token (routes t') = routes t" using b(2) by (simp add: assoc_del_def)
  with m b show ?thesis by (simp add: revoke_def)
qed

definition gateway_table :: "coordinator_state \<Rightarrow> mcp_table option" where
  "gateway_table s = map_option gw_table (co_gateway s)"

lemma same_runtime_table: "same_runtime s s' \<Longrightarrow> gateway_table s' = gateway_table s"
  by (simp add: same_runtime_def gateway_table_def)

text \<open>The gate changes the table at most by activating the route of the transaction.\<close>

definition gate_table_step :: "(capability_token \<times> nat) option \<Rightarrow> mcp_table option \<Rightarrow> mcp_table option \<Rightarrow> bool" where
  "gate_table_step mcp a b \<longleftrightarrow>
     b = a \<or> (\<exists>token d t. mcp = Some (token, d) \<and> a = Some t \<and> b = Some (snd (activate token t)))"

lemma activate_route_table:
  "gateway_table t = a \<Longrightarrow> gate_table_step mcp a (gateway_table (snd (activate_route x (map_option fst mcp) t)))"
  by (cases mcp)
    (auto simp: gate_table_step_def activate_route_def gate_failed_def gateway_table_def gateway_activate_def Let_def
      split: option.splits sum.splits prod.splits)

lemma claim_gate_table: "gate_table_step mcp (gateway_table s) (gateway_table (snd (claim_gate p live w mcp ext s)))"
proof -
  have "gateway_table (s\<lparr>co_ledger := L\<rparr>) = gateway_table s"
    "gateway_table (s\<lparr>co_ledger := L, co_commands := c, co_dispatchers := d\<rparr>) = gateway_table s"
    "gateway_table (s\<lparr>co_ledger := L, co_commands := c\<rparr>) = gateway_table s" for L c d
    by (simp_all add: gateway_table_def)
  moreover have "gate_table_step mcp a a" for a by (simp add: gate_table_step_def)
  ultimately show ?thesis
    unfolding claim_gate_def gate_failed_def Let_def
    by (auto intro!: activate_route_table [simplified] simp: activate_route_table split: option.split sum.split prod.split ledger_insert_error.split)
qed

lemma attached_table:
  assumes "attached_exchange json codec p live w mcp s = (kind, s')"
  shows "gate_table_step mcp (gateway_table s) (gateway_table s')"
proof -
  let ?s = "s\<lparr>co_claimed := (None, False)\<rparr>"
  obtain out s1 where x: "first_exchange p live w (Some (claim_gate p live w mcp)) ?s = (out, s1)" by (metis prod.exhaust)
  then obtain session already where "finish_after_exchange json codec p live w session already out s1 = (kind, s')"
    using assms by (auto simp: attached_exchange_def Let_def split: prod.splits)
  from same_runtime_table [OF finish_runtime [OF this]] have "gateway_table s' = gateway_table s1" .
  moreover obtain tr s0 xid l e where "run_direct_llm_exchange xid l e (Some (claim_gate p live w mcp)) (cw_exchange w 0) ?s = (out, tr, s0)"
    "s1 = note_exchange out tr s0"
    using x by (auto simp: first_exchange_def split: prod.splits)
  moreover note direct_state [OF this(1)] claim_gate_table [of mcp ?s p live w]
  ultimately show ?thesis by (auto simp: gateway_table_def note_exchange_def gate_table_step_def)
qed

lemma revoke_mcp_table: "gateway_table (revoke_mcp (Some token) s) = map_option (\<lambda>t. snd (revoke token t)) (gateway_table s)"
  by (auto simp: revoke_mcp_def gateway_table_def gateway_revoke_def split: option.split prod.split)

lemma install_mcp_table:
  assumes "install_mcp p live w s = (m, s1)" and "gateway_table s = Some t" and "cw_entropy w = Some token"
    and "length token = 32" and "map_of (routes t) token = None"
    and "pred_option (\<lambda>g. length (gw_base_url g) \<le> 443) (co_gateway s)"
  shows "gateway_table s1 = Some t \<and> (\<forall>mcp. m = Inr mcp \<longrightarrow> mcp = None) \<or>
    (\<exists>d t1. m = Inr (Some (token, d)) \<and> gateway_table s1 = Some t1 \<and> with_route t token McpPending t1)"
proof -
  obtain g where g: "co_gateway s = Some g" "gw_table g = t" "length (gw_base_url g) \<le> 443"
    using assms(2,6) by (auto simp: gateway_table_def)
  obtain r t1 where i: "install_pending_with_deadline (cp_transaction p) (resolved_set p) (length (co_dispatchers s))
      (cw_exchange_id w 0) (gw_base_url g) (cp_deadline p) (Some token) t = (r, t1)" by (metis prod.exhaust)
  from install_with_route [OF i assms(4,5) g(3)] assms(1-3) g i show ?thesis
    by (auto simp: install_mcp_def gateway_install_def gateway_table_def Let_def split: if_splits)
qed

lemma direct_table: "gateway_table (snd (run_direct_llm json codec p live w s)) = gateway_table s"
proof -
  obtain out s1 where x: "first_exchange p live w None s = (out, s1)" by (metis prod.exhaust)
  then have "gateway_table s1 = gateway_table s"
    by (auto simp: first_exchange_def note_exchange_def gateway_table_def split: prod.splits dest!: direct_state)
  moreover obtain k s2 where f: "finish_after_exchange json codec p live w (cp_session p) False out s1 = (k, s2)" by (metis prod.exhaust)
  ultimately show ?thesis using x same_runtime_table [OF finish_runtime [OF f]] by (simp add: run_direct_llm_def)
qed

text \<open>The table during the run of an external agent, in front of the revocation.\<close>

lemma agent_table:
  assumes "attached_exchange json codec p live w mcp s1 = (kind, s2)"
    and "gateway_table s1 = Some t \<and> mcp = None \<or> (\<exists>d t1. mcp = Some (token, d) \<and> gateway_table s1 = Some t1 \<and> with_route t token x t1)"
    and "map_of (routes t) token = None"
  shows "gateway_table s2 = Some t \<and> mcp = None \<or>
    (\<exists>d t2 y. mcp = Some (token, d) \<and> gateway_table s2 = Some t2 \<and> with_route t token y t2)"
  using assms(2)
proof (elim disjE conjE exE)
  fix d t1
  assume m: "mcp = Some (token, d)" "gateway_table s1 = Some t1" "with_route t token x t1"
  then show ?thesis
    using attached_table [OF assms(1)] activate_with_route [OF surjective_pairing m(3) assms(3)] by (auto simp: gate_table_step_def)
next
  assume "gateway_table s1 = Some t" "mcp = None"
  then show ?thesis using attached_table [OF assms(1)] by (simp add: gate_table_step_def)
qed

definition no_route_kept :: "mcp_table \<Rightarrow> mcp_table \<Rightarrow> bool" where
  "no_route_kept t t' \<longleftrightarrow>
     routes t' = routes t \<and> (state_cells t' = state_cells t \<or> state_cells t' = state_cells t @ [McpRevoked])"

lemma revoke_mcp_ends:
  assumes "gateway_table s2 = Some t \<and> mcp = None \<or> (\<exists>d t2 y. mcp = Some (token, d) \<and> gateway_table s2 = Some t2 \<and> with_route t token y t2)"
    and "map_of (routes t) token = None"
  shows "\<exists>t'. gateway_table (revoke_mcp (map_option fst mcp) s2) = Some t' \<and> no_route_kept t t'"
  using assms(1)
proof (elim disjE conjE exE)
  fix d t2 y
  assume "mcp = Some (token, d)" "gateway_table s2 = Some t2" "with_route t token y t2"
  with revoke_with_route [OF this(3) assms(2)] show ?thesis by (simp add: revoke_mcp_table no_route_kept_def)
qed (simp add: revoke_mcp_def no_route_kept_def)

lemma agent_ends:
  assumes "gateway_table s = Some t" and "cw_entropy w = Some token" and "length token = 32" and "map_of (routes t) token = None"
    and "pred_option (\<lambda>g. length (gw_base_url g) \<le> 443) (co_gateway s)"
  shows "\<exists>t'. gateway_table (snd (run_external_agent json codec p live w s)) = Some t' \<and> no_route_kept t t'"
proof (cases "live_has_sessions live")
  case True
  obtain m s1 where m: "install_mcp p live w s = (m, s1)" by (metis prod.exhaust)
  note inst = install_mcp_table [OF m assms]
  show ?thesis
  proof (cases m)
    case (Inl k)
    with inst m True show ?thesis by (auto simp: run_external_agent_def no_route_kept_def)
  next
    case (Inr mcp)
    obtain k s2 where a: "attached_exchange json codec p live w mcp s1 = (k, s2)" by (metis prod.exhaust)
    have pre: "gateway_table s1 = Some t \<and> mcp = None \<or>
        (\<exists>d t1. mcp = Some (token, d) \<and> gateway_table s1 = Some t1 \<and> with_route t token McpPending t1)"
      using inst Inr by auto
    from revoke_mcp_ends [OF agent_table [OF a pre assms(4)] assms(4)] revoke_mcp_ends [of s1 t mcp token] pre assms(4)
    show ?thesis using True m Inr a by (cases "cw_attach w") (auto simp: run_external_agent_def)
  qed
qed (use assms(1) in \<open>simp add: run_external_agent_def no_route_kept_def\<close>)

lemma dropped_table:
  assumes "execute_dropped json codec p w s = Some s'"
    and "gateway_table s = Some t" and "cw_entropy w = Some token" and "length token = 32" and "map_of (routes t) token = None"
    and "pred_option (\<lambda>g. length (gw_base_url g) \<le> 443) (co_gateway s)"
  shows "gateway_table s' = Some t \<or> (\<exists>t' x. gateway_table s' = Some t' \<and> with_route t token x t')"
proof -
  obtain live where live: "map_of (cp_channels p) (cp_channel p) = Some live"
    using assms(1) by (auto simp: execute_dropped_def split: option.splits)
  show ?thesis
  proof (cases "bind_kind (live_binding live)")
    case DirectLlm
    with live assms(1,2) direct_table show ?thesis by (auto simp: execute_dropped_def split: if_splits)
  next
    case ExternalAgent
    then obtain mcp s1 where m: "install_mcp p live w s = (Inr mcp, s1)"
      and s': "s' = s1 \<or> s' = snd (attached_exchange json codec p live w mcp s1)"
      using live assms(1) by (auto simp: execute_dropped_def split: if_splits sum.splits prod.splits attach_end.splits)
    have pre: "gateway_table s1 = Some t \<and> mcp = None \<or>
        (\<exists>d t1. mcp = Some (token, d) \<and> gateway_table s1 = Some t1 \<and> with_route t token McpPending t1)"
      using install_mcp_table [OF m assms(2-6)] by auto
    obtain k s2 where a: "attached_exchange json codec p live w mcp s1 = (k, s2)" by (metis prod.exhaust)
    from agent_table [OF a pre assms(5)] pre s' a show ?thesis by auto
  qed
qed

text \<open>
  C10. A coordinator that runs to its end leaves no route. Whatever becomes of the attachment, the
  exchange and the tools, the table ends with exactly the routes it had, and the state that a handler
  of this transaction still sees is revoked. A coordinator that is aborted on the way leaves its own
  route at most, and no other one is touched. The token must be fresh and have its 32 bytes, and the
  address of the listener at most 443.
\<close>

theorem no_route_left:
  assumes "gateway_table s = Some t" and "cw_entropy w = Some token" and "length token = 32" and "map_of (routes t) token = None"
    and "pred_option (\<lambda>g. length (gw_base_url g) \<le> 443) (co_gateway s)"
  shows "(\<exists>t'. gateway_table (snd (execute json codec p w s)) = Some t' \<and> routes t' = routes t \<and>
      (state_cells t' = state_cells t \<or> state_cells t' = state_cells t @ [McpRevoked])) \<and>
    (case execute_dropped json codec p w s of
       None \<Rightarrow> True
     | Some s' \<Rightarrow> \<exists>t'. gateway_table s' = Some t' \<and> (routes t' = routes t \<or> (\<exists>b. routes t' = routes t @ [(token, b)])))"
proof -
  have "\<exists>t'. gateway_table (snd (execute json codec p w s)) = Some t' \<and> no_route_kept t t'"
    using assms(1) agent_ends [OF assms, of json codec p] direct_table [of json codec p _ w s]
    by (auto simp: execute_def no_route_kept_def split: option.split channel_kind.split)
  moreover have "\<exists>t'. gateway_table s' = Some t' \<and> (routes t' = routes t \<or> (\<exists>b. routes t' = routes t @ [(token, b)]))"
    if "execute_dropped json codec p w s = Some s'" for s'
    using dropped_table [OF that assms] by (auto simp: with_route_def)
  ultimately show ?thesis by (auto simp: no_route_kept_def split: option.split)
qed

text \<open>
  A coordinator that is aborted while it waits for the attachment leaves the route it has installed,
  and nothing else revokes the route of a single transaction.
\<close>

lemma dropped_route_stays:
  assumes "install_mcp p live w s = (Ok (Some (token, d)), s1)" and "gateway_table s = Some t" and "cw_entropy w = Some token"
    and "length token = 32" and "map_of (routes t) token = None"
    and "pred_option (\<lambda>g. length (gw_base_url g) \<le> 443) (co_gateway s)"
    and "map_of (cp_channels p) (cp_channel p) = Some live" and "bind_kind (live_binding live) = ExternalAgent"
    and "live_has_sessions live" and "\<not> cw_expired w" and "max_provider_exchanges (cp_limits p) \<noteq> 0" and "cw_attach w = AttachCancelled"
  shows "\<exists>s' t' b. execute_dropped json codec p w s = Some s' \<and> gateway_table s' = Some t' \<and> routes t' = routes t @ [(token, b)]"
proof -
  have "execute_dropped json codec p w s = Some s1" using assms by (simp add: execute_dropped_def)
  with install_mcp_table [OF assms(1-6)] show ?thesis by (auto simp: with_route_def)
qed

section \<open>The transcript of a round\<close>

definition ready_tools :: "canonical_unit_event list \<Rightarrow> tool_action_event list" where
  "ready_tools us = concat (map (\<lambda>u. case snapshot_unit (event_snapshot u) of
     Tool t \<Rightarrow> if event_request_state t = ReqReady then [t] else [] | _ \<Rightarrow> []) us)"

definition ready_actions :: "canonical_unit_event list \<Rightarrow> string list" where
  "ready_actions us = map tool_action_id (ready_tools us)"

definition spoken :: "canonical_unit_event list \<Rightarrow> string list" where
  "spoken us = concat (map (\<lambda>u. case snapshot_unit (event_snapshot u) of Text t \<Rightarrow> [sentence_content t] | _ \<Rightarrow> []) us)"

definition provider_of :: "canonical_tool_result list \<Rightarrow> string \<Rightarrow> string option" where
  "provider_of rs a = map_option result_provider_id (find (\<lambda>r. result_action r = a) rs)"

text \<open>The call that stands for a ready request: its name, its arguments as JSON, and the id that its result has.\<close>

definition call_of :: "json_codec \<Rightarrow> canonical_tool_result list \<Rightarrow> tool_action_event \<Rightarrow> tool_call_input \<Rightarrow> bool" where
  "call_of json rs t c \<longleftrightarrow>
     event_tool_name t = Some (call_name c) \<and>
     Option.bind (event_request_payload t) (from_str json) = Some (call_arguments c) \<and>
     provider_of rs (tool_action_id t) = Some (call_id c)"

lemma round_call_of:
  "round_call json rs t = Some c \<Longrightarrow> provider_of rs (tool_action_id t) \<noteq> None \<Longrightarrow> call_of json rs t c"
  by (auto simp: round_call_def call_of_def round_provider_id_def provider_of_def validated_string_def
      split: option.splits sum.splits)

lemma round_content_calls:
  assumes "round_content json rs us = Some (parts, calls)" and "\<forall>t \<in> set (ready_tools us). provider_of rs (tool_action_id t) \<noteq> None"
  shows "list_all2 (call_of json rs) (ready_tools us) calls"
  using assms
proof (induction us arbitrary: parts calls)
  case (Cons u us)
  show ?case
  proof (cases "snapshot_unit (event_snapshot u)")
    case (Tool t)
    show ?thesis
    proof (cases "event_request_state t = ReqReady")
      case True
      with Tool Cons.prems obtain c cs where c: "round_call json rs t = Some c" "calls = c # cs" "round_content json rs us = Some (parts, cs)"
        by (auto split: option.splits)
      have "call_of json rs t c" using round_call_of [OF c(1)] Cons.prems(2) Tool True by (auto simp: ready_tools_def)
      with Cons.IH [OF c(3)] Cons.prems(2) Tool True c(2) show ?thesis by (simp add: ready_tools_def)
    qed (use Tool Cons in \<open>auto simp: ready_tools_def split: option.splits\<close>)
  qed (use Cons in \<open>auto simp: ready_tools_def split: option.splits sum.splits\<close>)
qed (simp add: ready_tools_def)

lemma round_content_spoken: "round_content json rs us = Some (parts, calls) \<Longrightarrow> parts = spoken us"
proof (induction us arbitrary: parts calls)
  case (Cons u us)
  then show ?case
    by (cases "snapshot_unit (event_snapshot u)")
      (auto simp: spoken_def text_part_try_new_def split: option.splits sum.splits if_splits)
qed (simp add: spoken_def)

lemma result_messages_ids:
  "result_messages json rs = Some ms \<Longrightarrow> list_all2 (\<lambda>r m. \<exists>text. m = ToolResult (result_provider_id r) [text] \<and> result_text json r = Some text) rs ms"
proof (induction rs arbitrary: ms)
  case (Cons r rs)
  then show ?case by (auto simp: text_part_try_new_def split: option.splits sum.splits if_splits)
qed simp

lemma call_of_ids:
  "list_all2 (call_of json rs) ts cs \<Longrightarrow> map (Some \<circ> call_id) cs = map (provider_of rs) (map tool_action_id ts)"
  by (induction rule: list_all2_induct) (simp_all add: call_of_def)

lemma provider_of_results:
  assumes "distinct (map result_action rs)"
  shows "map (provider_of rs \<circ> result_action) rs = map (Some \<circ> result_provider_id) rs"
  using assms
proof (induction rs)
  case (Cons r rs)
  then have "provider_of (r # rs) (result_action x) = provider_of rs (result_action x)" if "x \<in> set rs" for x
    using that by (auto simp: provider_of_def)
  with Cons show ?case by (auto simp: provider_of_def intro!: map_cong)
qed simp

text \<open>
  C25. The transcript that a continuation sends is in order. When the actions of the ready requests
  are distinct and the results are one for each of them, the messages so far are kept and one
  assistant message follows: the text of the exchange, and for every ready request in order one call
  with its tool name, its arguments read as JSON and the id of its result; and after it one answer for
  every result with its text. The ids of the calls are exactly the ids of the answers.
\<close>

theorem tool_round_transcript:
  assumes "append_tool_round json messages units results = Some messages'"
    and "distinct (ready_actions units)" and "mset (map result_action results) = mset (ready_actions units)"
  shows "\<exists>calls answers. messages' = messages @ Assistant (spoken units) calls # answers \<and> calls \<noteq> []
    \<and> list_all2 (call_of json results) (ready_tools units) calls
    \<and> list_all2 (\<lambda>r m. \<exists>text. m = ToolResult (result_provider_id r) [text] \<and> result_text json r = Some text) results answers
    \<and> mset (map call_id calls) = mset (map result_provider_id results)"
proof -
  obtain parts calls answers where x: "round_content json results units = Some (parts, calls)" "calls \<noteq> []"
    "result_messages json results = Some answers" "messages' = messages @ Assistant parts calls # answers"
    using assms(1) by (auto simp: append_tool_round_def split: option.splits if_splits)
  have d: "distinct (map result_action results)" using assms(2,3) by (metis mset_eq_imp_distinct_iff)
  have "provider_of results a \<noteq> None" if "a \<in> set (ready_actions units)" for a
  proof -
    have "a \<in> set (map result_action results)" using that mset_eq_setD [OF assms(3)] by blast
    then obtain r where "r \<in> set results" "result_action r = a" by auto
    then show ?thesis by (auto simp: provider_of_def find_None_iff)
  qed
  then have calls: "list_all2 (call_of json results) (ready_tools units) calls"
    by (intro round_content_calls [OF x(1)]) (simp add: ready_actions_def)
  then have "map (Some \<circ> call_id) calls = map (provider_of results) (ready_actions units)"
    unfolding ready_actions_def by (rule call_of_ids)
  then have "image_mset Some (mset (map call_id calls)) = image_mset (provider_of results) (mset (ready_actions units))"
    by (metis mset_map map_map)
  also have "\<dots> = image_mset Some (mset (map result_provider_id results))"
    using arg_cong [where f = mset, OF provider_of_results [OF d]] unfolding assms(3) [symmetric] by (simp add: multiset.map_comp)
  finally have "mset (map call_id calls) = mset (map result_provider_id results)"
    by (rule injD [OF multiset.inj_map [OF inj_Some]])
  with x calls round_content_spoken [OF x(1)] result_messages_ids [OF x(3)] show ?thesis by auto
qed

definition asked_once :: "canonical_unit_event list" where
  "asked_once = [Created (tool_stage ''x:t'' 1 ReqAssembling None ''tool arguments''),
     Advanced (tool_stage ''x:t'' 2 ReqReady (Some ''{}'') ''external execution'')]"

lemma asked_once_facts: "ready_actions asked_once = [''x:t'']" "result_action echo_result = ''x:t''" "result_provider_id echo_result = ''t''"
  "result_text object_codec echo_result = Some ''ok''"
  by code_simp+

lemma name_f: "validated_string ''f'' = Ok ''f''" by code_simp

lemmas round_defs = append_tool_round_def asked_once_def tool_stage_def round_call_def round_provider_id_def name_f object_codec_def
  text_part_try_new_def default_input_limits_def

lemma asked_once_round: "append_tool_round object_codec [User [''hi''] None] asked_once [echo_result] =
  Some [User [''hi''] None, Assistant [] [\<lparr>call_id = ''t'', call_name = ''f'', call_arguments = JObject []\<rparr>], ToolResult ''t'' [''ok'']]"
  using asked_once_facts(2-4) by (simp add: round_defs)

theorem tool_round_transcript_witness:
  "\<exists>calls. [User [''hi''] None, Assistant [] [\<lparr>call_id = ''t'', call_name = ''f'', call_arguments = JObject []\<rparr>], ToolResult ''t'' [''ok'']]
     = [User [''hi''] None, Assistant (spoken asked_once) calls, ToolResult ''t'' [''ok'']] \<and> mset (map call_id calls) = {#''t''#}"
proof -
  have "distinct (ready_actions asked_once)" "mset (map result_action [echo_result]) = mset (ready_actions asked_once)"
    by (simp_all add: asked_once_facts)
  from tool_round_transcript [OF asked_once_round this] show ?thesis by (auto simp: asked_once_facts)
qed

text \<open>
  The round fails where the tools did not. A tool whose output is the empty text has succeeded, but
  a text part is not empty: there is no transcript, and the transaction ends as an encoding failure.
\<close>

lemma empty_output_fails:
  "append_tool_round json messages units (results @ r\<lparr>result_outcome := ResultSucceeded (TextOutput [])\<rparr> # results') = None"
proof -
  have "result_messages json (rs @ r\<lparr>result_outcome := ResultSucceeded (TextOutput [])\<rparr> # rs') = None" for rs rs'
    by (induction rs) (auto simp: result_text_def text_part_try_new_def split: option.split)
  then show ?thesis by (simp add: append_tool_round_def split: option.split)
qed

text \<open>
  The hypothesis of the transcript theorem that requests are distinct is needed: a request that is
  reported ready twice, as an advance of the same action, is written as two calls with one id.
\<close>

lemma ready_twice_called_twice:
  "append_tool_round object_codec [] (asked_once @ [last asked_once]) [echo_result] =
     Some [Assistant [] (replicate 2 \<lparr>call_id = ''t'', call_name = ''f'', call_arguments = JObject []\<rparr>), ToolResult ''t'' [''ok'']]"
  using asked_once_facts(2-4) by (simp add: round_defs numeral_2_eq_2)

section \<open>Sample transactions\<close>

definition sample_channel :: "channel_kind \<Rightarrow> tool_execution_mode \<Rightarrow> channel_binding" where
  "sample_channel kind mode =
     \<lparr>bind_id = ''c'', bind_kind = kind, bind_tool_mode = mode,
      bind_defaults = \<lparr>def_model = None, def_temperature = None, def_reasoning_effort = None, def_max_output_tokens = None,
        def_stop = [], def_response_format = None, def_continuation_policy = CallerControlled, def_extensions = []\<rparr>,
      bind_capabilities = \<lparr>cap_session_mode = ExternalSession, mcp_configuration = CreationOnly,
        cap_mcp_reachability = SameLoopbackNamespace, exchange_mode = RequestResponse, continuation_policies = [CallerControlled],
        supports_distinct_session_concurrency = True, input_dialect = openai_dialect, output_dialect = openai_dialect,
        cap_option_policy = direct_llm\<rparr>,
      bind_limits = default_channel_limits\<rparr>"

definition sample_live :: "channel_kind \<Rightarrow> tool_execution_mode \<Rightarrow> live_channel" where
  "sample_live kind mode =
     \<lparr>live_binding = sample_channel kind mode,
      live_encoder = \<lparr>encode_initial = \<lambda>_. Ok small_exchange, encode_tool_continuation = \<lambda>_. Ok small_exchange\<rparr>,
      live_has_sessions = True\<rparr>"

definition sample_params :: "channel_kind \<Rightarrow> tool_execution_mode \<Rightarrow> coordinator_params" where
  "sample_params kind mode =
     \<lparr>cp_transaction = ''t'', cp_channel = ''c'', cp_session = None, cp_input = [User [''hi''] None], cp_config = sample_config,
      cp_channels = [(''c'', sample_live kind mode)], cp_deadline = 9, cp_selected_tools = [''a''], cp_registry = registry_empty,
      cp_limits = default_transaction_limits\<lparr>max_total_provider_output_bytes := 9\<rparr>\<rparr>"

definition sample_world :: coordinator_world where
  "sample_world =
     \<lparr>cw_expired = False, cw_exchange_id = (\<lambda>_. ''x''), cw_entropy = Some sample_token, cw_attach = Attached,
      cw_gate_cancelled = False, cw_gate_refused = False, cw_send = (\<lambda>_. SendTaken), cw_exchange = (\<lambda>_. good_world),
      cw_round_expired = (\<lambda>_. False), cw_pass = (\<lambda>_. smooth_pass), cw_workers = (\<lambda>_. echo_worker), cw_uuid = (\<lambda>_. nat_str)\<rparr>"

definition sample_start :: coordinator_state where
  "sample_start =
     \<lparr>co_ledger = \<lparr>by_transaction = [(''t'', plain_entry ''t'' None)], by_session = []\<rparr>,
      co_gateway = Some (run_gateway 2 [] []), co_dispatchers = [], co_commands = [], co_sends = 0, co_claimed = (None, False),
      co_exchanges = []\<rparr>"

lemmas sample_defs = sample_live_def sample_channel_def sample_params_def sample_world_def

lemma sample_limits: "sane_limits (cp_limits (sample_params kind mode))"
  by (simp add: sample_params_def sane_limits_def default_transaction_limits_def usize_max_def)

lemma sample_first_exchange:
  assumes "case gate of None \<Rightarrow> s' = s | Some g \<Rightarrow> g (Some ''e'') s = (ProceedOk, s')"
  obtains out tr where
    "first_exchange (sample_params kind mode) (sample_live kind mode) sample_world gate s = (out, note_exchange out tr s')"
    "bodies_sent tr = [''q'']" "xo_terminal out = TxCompleted" "received_output_bytes out = 1" "xo_external_session out = Some ''e''"
    "\<not> needs_loop_dispatch (scope_tool_units_for_exchange (xo_exchange out) (xo_units out))"
proof -
  let ?l = "channel_exchange_limits (sample_live kind mode) (sample_params kind mode)
    \<lparr>exchanges_used = 0, provider_input_used = 0, provider_output_used = 0\<rparr>"
  let ?evs = "sent (own_pub (snd (interpreted 9 good_world test_connection)))"
  let ?us = "fst (collect_units (xl_retained ?l) 0 (take 9 ?evs))"
  have l: "xl_remaining_output ?l = 9" "1 \<le> xl_encoded ?l" "1 \<le> xl_remaining_input ?l"
    by (simp_all add: channel_exchange_limits_def sample_defs default_transaction_limits_def default_channel_limits_def)
  have "good_world\<lparr>collected := 9\<rparr> = good_world" by (simp add: good_world_def)
  with good_exchange [OF l assms, where xid = "''x''" and k = 9] obtain tr where
    x: "run_direct_llm_exchange ''x'' ?l (Ok small_exchange) gate good_world s =
      (\<lparr>xo_units = ?us, xo_terminal = TxCompleted, xo_exchange = ''x'', xo_external_session = Some ''e'', encoded_input_bytes = 1,
        received_output_bytes = 1\<rparr>, tr, s')" and tr: "bodies_sent tr = [''q'']"
    by auto
  have "prefix ?us (units_in ?evs)" using collect_prefix units_in_take by (rule prefix_order.trans)
  then have "set (map (\<lambda>u. snapshot_unit (event_snapshot u)) ?us) \<subseteq> set (map (\<lambda>u. snapshot_unit (event_snapshot u)) (units_in ?evs))"
    by (auto dest: set_mono_prefix)
  then have only_text: "u \<in> set ?us \<Longrightarrow> \<exists>t. snapshot_unit (event_snapshot u) = Text t" for u
    unfolding good_run(2) by auto
  have "\<not> needs_loop_dispatch (scope_tool_units_for_exchange ''x'' ?us)"
    by (auto simp: needs_loop_dispatch_def scope_tool_units_for_exchange_def list_ex_iff unit_asks_def
        scope_event_snapshot scope_snapshot_def dest!: only_text)
  with x tr show thesis
    by (intro that) (auto simp: first_exchange_def sample_defs)
qed

lemma publish_sample: "\<exists>s'. publish_units sample_world us s = (None, s') \<and> co_exchanges s' = co_exchanges s"
proof (induction us arbitrary: s)
  case (Cons u us)
  have "cw_send sample_world n = SendTaken" for n by (simp add: sample_world_def)
  with Cons [of "s\<lparr>co_sends := co_sends s + 1, co_commands := co_commands s @ [PublishCommand (CanonicalUnitPayload u)]\<rparr>"]
  show ?case by (simp add: send_command_def)
qed simp

lemma sample_direct_run:
  "\<exists>s' out tr. execute object_codec echo_codec (sample_params DirectLlm ModelToolCalls) sample_world sample_start = (TxCompleted, s') \<and>
     co_exchanges s' = [\<lparr>xr_outcome = out, xr_trace = tr\<rparr>] \<and> bodies_sent tr = [''q''] \<and> received_output_bytes out = 1"
proof -
  let ?p = "sample_params DirectLlm ModelToolCalls" and ?live = "sample_live DirectLlm ModelToolCalls"
  obtain out tr where f: "first_exchange ?p ?live sample_world None sample_start = (out, note_exchange out tr sample_start)"
    "bodies_sent tr = [''q'']" "xo_terminal out = TxCompleted" "received_output_bytes out = 1" "xo_external_session out = Some ''e''"
    "\<not> needs_loop_dispatch (scope_tool_units_for_exchange (xo_exchange out) (xo_units out))"
    by (rule sample_first_exchange [where gate = None and s = sample_start]) simp
  have "\<exists>s0. establish_late sample_world False out (note_exchange out tr sample_start) = (None, s0) \<and>
      co_exchanges s0 = [\<lparr>xr_outcome = out, xr_trace = tr\<rparr>]"
    using f(5) by (simp add: establish_late_def send_command_def sample_world_def note_exchange_def sample_start_def)
  then obtain s0 where s0: "establish_late sample_world False out (note_exchange out tr sample_start) = (None, s0)"
    "co_exchanges s0 = [\<lparr>xr_outcome = out, xr_trace = tr\<rparr>]" by blast
  obtain s1 where s1: "publish_units sample_world (scope_tool_units_for_exchange (xo_exchange out) (xo_units out)) s0 = (None, s1)"
    "co_exchanges s1 = co_exchanges s0" using publish_sample by blast
  have "finish_after_exchange object_codec echo_codec ?p ?live sample_world None False out (note_exchange out tr sample_start) = (TxCompleted, s1)"
    using f s0 s1 by (simp add: finish_after_exchange_def Let_def)
  moreover have "execute object_codec echo_codec ?p sample_world sample_start = run_direct_llm object_codec echo_codec ?p ?live sample_world sample_start"
    by (simp add: execute_def sample_defs default_transaction_limits_def)
  moreover have "cp_session ?p = None" by (simp add: sample_params_def)
  ultimately show ?thesis using f s0 s1 by (auto simp: run_direct_llm_def)
qed

theorem provider_budget_kept_witness:
  "\<exists>s'. execute object_codec echo_codec (sample_params DirectLlm ModelToolCalls) sample_world sample_start = (TxCompleted, s')
     \<and> body_total (co_exchanges s') = 1 \<and> output_total (co_exchanges s') = 1 \<and> output_total (co_exchanges s') \<le> 9"
proof -
  obtain s' out tr where x: "execute object_codec echo_codec (sample_params DirectLlm ModelToolCalls) sample_world sample_start = (TxCompleted, s')"
    "co_exchanges s' = [\<lparr>xr_outcome = out, xr_trace = tr\<rparr>]" "bodies_sent tr = [''q'']" "received_output_bytes out = 1"
    using sample_direct_run by blast
  have "co_exchanges sample_start = []" "max_total_provider_output_bytes (cp_limits (sample_params DirectLlm ModelToolCalls)) = 9"
    by (simp_all add: sample_start_def sample_params_def)
  with provider_budget_kept [OF x(1) _ sample_limits] x show ?thesis
    by (auto simp: body_total_def output_total_def body_bytes_def)
qed

theorem completed_transaction_answered_witness:
  "\<exists>session s' r. execute object_codec echo_codec (sample_params DirectLlm ModelToolCalls) sample_world sample_start = (TxCompleted, s')
     \<and> co_exchanges s' = [r] \<and> exchange_completed r \<and> published_units (co_commands s') = exchange_units r"
proof -
  obtain s' out tr where x: "execute object_codec echo_codec (sample_params DirectLlm ModelToolCalls) sample_world sample_start = (TxCompleted, s')"
    "co_exchanges s' = [\<lparr>xr_outcome = out, xr_trace = tr\<rparr>]" using sample_direct_run by blast
  have "co_exchanges sample_start = []" "co_commands sample_start = []"
    "map_of (cp_channels (sample_params DirectLlm ModelToolCalls)) (cp_channel (sample_params DirectLlm ModelToolCalls)) = Some (sample_live DirectLlm ModelToolCalls)"
    "bind_tool_mode (live_binding (sample_live DirectLlm ModelToolCalls)) = ModelToolCalls"
    by (simp_all add: sample_start_def sample_defs)
  with completed_transaction_answered [OF x(1) _ sample_limits] x show ?thesis by (auto simp: published_units_def)
qed

text \<open>An agent with a gateway: the route is pending when the exchange begins.\<close>

lemma sample_descriptor:
  "\<exists>y. descriptor_try_new ''monoloop'' ''2024-11-05'' (trim_end_slash ''http://h'' @ ''/mcp/'' @ to_hex sample_token) = Some y"
  using descriptor_fits [of "''http://h''", OF _ sample_facts(1)] by simp

lemma sample_installed:
  obtains s0 s1 where
    "install_mcp (sample_params ExternalAgent McpGateway) (sample_live ExternalAgent McpGateway) sample_world sample_start
       = (Ok (Some (sample_token, 0)), s0)"
    "claim_gate (sample_params ExternalAgent McpGateway) (sample_live ExternalAgent McpGateway) sample_world (Some (sample_token, 0))
       (Some ''e'') (s0\<lparr>co_claimed := (None, False)\<rparr>) = (ProceedOk, s1)"
    "co_exchanges s1 = []"
proof -
  have "validated_string ''e'' = Ok ''e''" by code_simp
  with sample_descriptor that show thesis
    by (auto simp: install_mcp_def wants_mcp_def sample_defs sample_start_def gateway_install_def install_pending_with_deadline_def
        generate_token_def sample_facts run_gateway_def claim_gate_def bind_session_def plain_entry_def at_session_limit_def
        distinct_sessions_on_channel_def default_channel_limits_def activate_route_def gateway_activate_def activate_def
        binding_state_def Let_def)
qed

theorem prompt_after_claim_witness:
  "\<exists>kind s' x xs s0 s1 sid.
     execute object_codec echo_codec (sample_params ExternalAgent McpGateway) sample_world sample_start = (kind, s') \<and>
     co_exchanges s' = x # xs \<and> bodies_sent (xr_trace x) = [''q''] \<and>
     claimed (sample_params ExternalAgent McpGateway) (Some (sample_token, 0)) ''e'' sid s0 s1"
proof -
  let ?p = "sample_params ExternalAgent McpGateway" and ?live = "sample_live ExternalAgent McpGateway"
  let ?g = "claim_gate ?p ?live sample_world (Some (sample_token, 0))"
  obtain s0 s1 where i: "install_mcp ?p ?live sample_world sample_start = (Ok (Some (sample_token, 0)), s0)"
    "?g (Some ''e'') (s0\<lparr>co_claimed := (None, False)\<rparr>) = (ProceedOk, s1)" "co_exchanges s1 = []"
    by (rule sample_installed)
  obtain out tr where f: "first_exchange ?p ?live sample_world (Some ?g) (s0\<lparr>co_claimed := (None, False)\<rparr>) = (out, note_exchange out tr s1)"
    "bodies_sent tr = [''q'']"
    by (rule sample_first_exchange [where gate = "Some ?g" and s = "s0\<lparr>co_claimed := (None, False)\<rparr>" and s' = s1]) (simp add: i)
  let ?x = "\<lparr>xr_outcome = out, xr_trace = tr\<rparr>"
  have live: "map_of (cp_channels ?p) (cp_channel ?p) = Some ?live" "bind_kind (live_binding ?live) = ExternalAgent" "live_has_sessions ?live"
    by (simp_all add: sample_defs)
  have run: "\<not> cw_expired sample_world" "max_provider_exchanges (cp_limits ?p) \<noteq> 0"
    by (simp_all add: sample_defs default_transaction_limits_def)
  obtain kind s' where e: "execute object_codec echo_codec ?p sample_world sample_start = (kind, s')" by (metis prod.exhaust)
  have "run_external_agent object_codec echo_codec ?p ?live sample_world sample_start = (kind, s')"
    using e live run by (simp add: execute_def)
  then obtain session already s2 where
    fin: "finish_after_exchange object_codec echo_codec ?p ?live sample_world session already out (note_exchange out tr s1) = (kind, s2)"
    "s' = revoke_mcp (Some sample_token) s2"
    using i f live by (auto simp: run_external_agent_def attached_exchange_def sample_world_def Let_def split: prod.splits)
  have "co_exchanges s' = co_exchanges s2" using revoke_mcp_record [of s2] fin(2) by (simp add: same_record_def)
  with finish_append [OF fin(1)] i(3) obtain xs where xs: "co_exchanges s' = ?x # xs"
    by (auto simp: prefix_def note_exchange_def)
  have "co_exchanges sample_start = []" "gateway_sound sample_start"
    by (simp_all add: sample_start_def gateway_sound_def run_gateway_def table_wf_def)
  with prompt_after_claim [OF e _ live(1,2) xs] f(2) i(1)
  have "\<exists>sid s0 s1. claimed ?p (Some (sample_token, 0)) ''e'' sid s0 s1"
    by (auto simp: sample_world_def good_world_def test_connection_def)
  with e xs f(2) show ?thesis by fastforce
qed

theorem no_route_left_witness:
  "fst (install_mcp (sample_params ExternalAgent McpGateway) (sample_live ExternalAgent McpGateway) sample_world sample_start)
     = Ok (Some (sample_token, 0))
   \<and> (\<exists>t. gateway_table (snd (execute object_codec echo_codec (sample_params ExternalAgent McpGateway) sample_world sample_start)) = Some t
        \<and> routes t = [])"
proof
  from sample_descriptor show "fst (install_mcp (sample_params ExternalAgent McpGateway) (sample_live ExternalAgent McpGateway) sample_world sample_start)
     = Ok (Some (sample_token, 0))"
    by (simp add: install_mcp_def wants_mcp_def sample_defs sample_start_def gateway_install_def install_pending_with_deadline_def
        generate_token_def sample_facts run_gateway_def Let_def split: option.split)
next
  have "gateway_table sample_start = Some (gw_table (run_gateway 2 [] []))" "cw_entropy sample_world = Some sample_token"
    "map_of (routes (gw_table (run_gateway 2 [] []))) sample_token = None" "routes (gw_table (run_gateway 2 [] [])) = []"
    "pred_option (\<lambda>g. length (gw_base_url g) \<le> 443) (co_gateway sample_start)"
    by (simp_all add: gateway_table_def sample_start_def sample_world_def run_gateway_def)
  with no_route_left [OF _ _ sample_facts(1)] show
    "\<exists>t. gateway_table (snd (execute object_codec echo_codec (sample_params ExternalAgent McpGateway) sample_world sample_start)) = Some t
        \<and> routes t = []"
    by fastforce
qed

end
