(* ===== verification/Spec2Isabelle.thy ===== *)
theory Spec2Isabelle
  imports Engine_Chunking Admission Event_Publisher Dispatcher Cancel Encoder Shutdown Coordinator
begin

text \<open>
  Monoloop is a runtime that drives language model agents. A host submits a request; admission
  checks it, reserves capacity and enters a transaction into a ledger; a supervisor starts it;
  an encoder turns the canonical input into the bytes of a provider; a connector carries bytes
  to and from the provider; the interpreter turns the bytes that come back into canonical
  units; the loop dispatches the tool requests among them; the dispatcher runs host tools under
  concurrency limits; and a publisher numbers the events of the transaction and hands them to
  the mailbox of the host, the last one being the end of the transaction.

  The development follows these parts. Paths are below \<open>src/crates/\<close>.

  \<^bold>\<open>Shared theories.\<close> \<open>Prelude\<close> has results, loops with early return and list facts, with the
  collections \<open>run_simps\<close>, \<open>frame_simps\<close> and \<open>inv_intros\<close>. \<open>Rust_Std\<close> and \<open>Utf8_Facts\<close> model what
  the source uses of the standard library: bytes, UTF-8, trimming, 64-bit arithmetic. A Rust
  string is the list of its bytes. \<open>Assoc\<close> is a hash map as an association list, \<open>Btree\<close> an ordered
  map. \<open>Chunked\<close> is the interface of a machine that is fed in chunks; \<open>Simulation\<close> the interfaces
  of a state with an invariant and of a state that refines a specification, both interpreted on
  the components below. \<open>Json\<close> has JSON values, and \<open>serde_json\<close> as a record of functions that every
  definition using it takes as an argument.

  \<^bold>\<open>Interpreter\<close> (\<open>monoloop-interpreter/src\<close>). \<open>Sentence\<close> models \<open>sentence.rs\<close>: text is conserved, all
  slices are at character boundaries, and the cut into chunks is invisible up to leading white
  space. \<open>Acp\<close>, \<open>Zai_Chat\<close>, \<open>Claude_Stream\<close> and \<open>OpenAi_Chat\<close> model the dialects: frames are recovered
  exactly from any chunks, private reasoning is suppressed, tool requests are released only
  when complete and never twice, single lines and frames are bounded, days are counted as the civil calendar does. \<open>Engine\<close> models
  \<open>engine.rs\<close>, \<open>stream.rs\<close> and \<open>factory.rs\<close>; its state is the record \<open>owner\<close>, and a run is a function
  of the list of commands and the number of events the receiver takes. \<open>Engine_Invariants\<close> proves
  one report with exact counts, increasing generations, contiguous ordinals and which
  buffers are bounded; \<open>Engine_Chunking\<close> that the boundaries inside a chunk that is ingested without an
  error are invisible in the engine as a whole.

  \<^bold>\<open>Contracts\<close> (\<open>monoloop-contracts/src\<close>). \<open>Canonical\<close> has the units, events and errors of the
  interpreter, \<open>Limits\<close> the limits, \<open>Identity\<close> identities and safe diagnostics, \<open>Input\<close> canonical
  input, \<open>Config\<close> the merge of the configuration layers, \<open>Tool\<close> tool contracts and their validation,
  \<open>Transaction\<close> events, completions and admission errors, \<open>Delivery\<close> the mailbox and the one-shot
  completion. Validation and merge accept only what declarative specifications allow, and everything
  that the documented limits allow; the two places where the code accepts more than is documented
  have lemmas of their own.

  \<^bold>\<open>Transactions\<close> (\<open>monoloop-loop/src/transaction\<close>). \<open>Capacity\<close> models the lock-free reservation pool and
  \<open>Delivery\<close>, \<open>Cancel\<close> and \<open>Tool_Capacity\<close> the mailbox, the cancellation signals and the tool limits at
  the grain of their atomic steps, with any number of threads interleaved in any way: counters
  are exact, within their limits and return to zero. \<open>Ledger\<close> models \<open>ledger.rs\<close> and refines a
  specification without the session index. \<open>Registry\<close> models channels and host tools, \<open>Admission\<close> the
  whole of admission: all or nothing, and bounded by the limits. \<open>Session_Identity\<close> and
  \<open>Event_Publisher\<close> model the identities of a transaction and the task that numbers its events:
  numbered without gaps, lossless, and every seal is answered. \<open>Dispatcher\<close> models one tool dispatch
  from the allowlist to the validated result: a dispatch that returns, or whose task is dropped once
  the handler has started, leaks no permit (\<open>dispatch_dropped\<close> is the state that a dropped task leaves;
  one dropped while it waits for a permit leaks its place in the queue). \<open>Encoder\<close> models the
  encoders: the request can be read back from the body and every exchange is bounded.

  \<^bold>\<open>Loop\<close> (\<open>monoloop-loop/src\<close>). \<open>Loop_Runtime\<close> models \<open>runtime.rs\<close> with the empty registry and the null
  runtime, and the numbering of \<open>subscription.rs\<close>: the loop answers no action twice, its output is
  one complete block per action and then its end with exact counts, its memory is bounded, and
  with the empty registry it starts nothing. \<open>Decimal\<close> has the digits that appear in keys.
  \<open>Loop_Answers\<close> composes interpreter, subscription and loop: the requests an interpretation releases
  as ready are exactly those the loop answers.

  \<^bold>\<open>Supervision\<close> (\<open>monoloop-loop/src/transaction/lifecycle\<close>). \<open>Task_Supervisor\<close> models
  \<open>task_supervisor.rs\<close>, its indexes refining a list of live tasks. \<open>Supervisor\<close> models the loop of
  \<open>supervisor.rs\<close>, the finalizer task it spawns, and the part of \<open>owner.rs\<close> that terminates and stops;
  its state is the record \<open>supervisor_state\<close> over the state of admission and of the dispatcher. A
  handler between two waits is atomic, since one task runs the loop; a finalizer is cut at its
  two waits. How and when a task ends, what the queues hold and whether a deadline has passed come
  from outside, and the executor is the argument \<open>tokio\<close> that gives out task identities, assumed
  not to give out one that is in use. \<open>Supervisor_Runs\<close> has the step relation and the invariant:
  every row owns exactly one token for its completion, either itself or through its finalizer.
  \<open>Shutdown\<close> has the theorems: one completion per admission, nothing owned when stopped,
  reservations returned, and that the loop as written is a run of the relation. They are about
  runs in which the 64-bit counter of tasks has not saturated.

  \<^bold>\<open>Exchanges\<close> (\<open>monoloop-loop/src/transaction\<close>). \<open>Exchange\<close> models \<open>lifecycle/exchange.rs\<close> and
  \<open>lifecycle/task_spawner.rs\<close>: one exchange with a provider over a connection, the interpreter and the
  collector of units. Its world says how every wait ends; its trace records what it does to the
  connection and its children. All children are awaited on every path, and an exchange that
  completes has passed all output to one interpretation that completed. \<open>Loop_Dispatch\<close> models
  \<open>lifecycle/loop_dispatch.rs\<close> and \<open>loop_adapters.rs\<close>, which run the loop on the units of an exchange with
  the dispatcher behind it: the requests of the exchange are answered, and reported successes
  are results of the dispatches that the pass started for them. The JSON form of a tool result is the
  argument \<open>result_codec\<close>, of which it is only assumed that it reads a structure from nothing but texts that
  begin as JSON; exchange identities are assumed not to begin an action id of the provider, since they are
  drawn at random.

  \<^bold>\<open>MCP\<close> (\<open>monoloop-loop/src/transaction/mcp\<close>). \<open>Mcp\<close> models \<open>binding.rs\<close> and \<open>handler.rs\<close>: capability tokens with
  their hexadecimal form, the table of routes, whose bindings share one state cell each with the handlers
  made from them, and the handler of a tool call. \<open>Mcp_Gateway\<close> models \<open>gateway.rs\<close> and
  \<open>lifecycle/mcp_request_owner.rs\<close>: a request is a program counter with a step for each lock it takes, and
  the steps of any number of requests interleave with installation, activation and revocation. A request is
  answered after at most seven steps of its own. Calls are admitted only between activation and revocation
  of their own route, and requests stay within the permits.

  \<^bold>\<open>Coordinator\<close> (\<open>lifecycle/coordinator.rs\<close>). \<open>Coordinator\<close> composes exchanges, tool passes, the ledger and the
  gateway to the whole run of a transaction. Its state is what the coordinator shares with the runtime
  and a record of the exchanges it started, which no operation reads except to number them; its world says how
  every wait ends. An operation under a lock is one step; other tasks are not interleaved between the steps
  of one coordinator, whose effects on the ledger concern its own entry. The number of continuation rounds is the
  limit of the source, so that the recursion needs no other fuel. A completed transaction has answered all that the
  model asked for, the budgets of a transaction hold over all its exchanges, an agent is first prompted only
  under a claimed session, no route outlives a coordinator that runs to its end, and the transcript of a
  continuation pairs calls with answers. \<open>execute_dropped\<close> is the state that an aborted coordinator leaves, with
  its own route still in the table. The theorems assume limits below the largest machine integer, a fresh token of 32 bytes and a listener
  address of ordinary length.

  \<^bold>\<open>Asynchronous code.\<close> A task is a function between two of its waits. What a wait ends with (a
  command, a closed channel, a deadline, a refused send) is chosen by the rest of the world, and
  a run is a list of such observations, over which every theorem quantifies. Code on shared
  atomics is a step function on a program counter, one step per atomic operation, and runs are
  the reachable states of an inductive step relation.

  \<^bold>\<open>Termination.\<close> All functions are total. Three drivers take fuel: \<open>reserve_run\<close> with 8 steps,
  \<open>send_run\<close> with 4 and \<open>waiter_run\<close> with 4, and the theorems about them prove that this many steps
  reach the end of the call when it runs alone. Scans over bytes recurse on what is left.

  \<^bold>\<open>Integers.\<close> 64-bit arithmetic is written out where the source computes with values from outside:
  timestamps wrap or are checked as in the source, sizes and sequence numbers saturate as in the
  source. Counters of events of one run are natural numbers.

  \<^bold>\<open>Not modelled.\<close> The construction of the runtime in \<open>owner.rs\<close> and \<open>bootstrap.rs\<close>, which wires the modelled
  parts together, and the serving of the MCP listener and the sessions of its protocol library. The
  connectors run external processes and HTTP sessions. The test kit is not part of the shipped program. Handles
  of running tasks inside records are left out, and so are the gates that only tests set.
\<close>

end
